(* ===== verification/Prelude.thy ===== *)
theory Prelude
  imports Main "HOL-Library.Word"
begin

text \<open>
  What every component shares: the faults of C (what the standard leaves undefined, as a value),
  sequencing of computations that may fault, the integer conversions of C, the allocator's
  answers, and the locale of transition systems with their invariants.
\<close>

named_theorems c_simps "evaluation of the C primitives"
named_theorems exec_simps "symbolic execution of programs over the kernel"

section \<open>Undefined behaviour as a value\<close>

datatype fault =
    Null_deref       \<comment> \<open>a null pointer is dereferenced\<close>
  | Buffer_overflow  \<comment> \<open>a write past the end of an array\<close>
  | Out_of_bounds    \<comment> \<open>a read outside an array\<close>
  | Uninitialised    \<comment> \<open>a read of an object never written\<close>
  | Use_after_free   \<comment> \<open>an access through a pointer to a released block\<close>

type_synonym 'a c = "fault + 'a"

definition bindC :: "'a c \<Rightarrow> ('a \<Rightarrow> 'b c) \<Rightarrow> 'b c" where
  "bindC m f = (case m of Inl e \<Rightarrow> Inl e | Inr x \<Rightarrow> f x)"

lemma bindC_Inl [simp]: "bindC (Inl e) f = Inl e"
  by (simp add: bindC_def)

lemma bindC_Inr [simp]: "bindC (Inr x) f = f x"
  by (simp add: bindC_def)

lemma bindC_assoc: "bindC (bindC m f) g = bindC m (\<lambda>x. bindC (f x) g)"
  by (simp add: bindC_def split: sum.splits)

lemma bindC_eq_Inr: "bindC m f = Inr y \<longleftrightarrow> (\<exists>x. m = Inr x \<and> f x = Inr y)"
  by (simp add: bindC_def split: sum.splits)

lemma bindC_eq_Inl: "bindC m f = Inl e \<longleftrightarrow> m = Inl e \<or> (\<exists>x. m = Inr x \<and> f x = Inl e)"
  by (auto simp: bindC_def split: sum.splits)

section \<open>C's state: the allocator and errno\<close>

text \<open>
  \<open>allocs\<close> holds the answers of the next calls of \<open>malloc\<close> (an exhausted list means that they
  succeed), \<open>cerrno\<close> the value of \<open>errno\<close>.
\<close>

record cstate =
  allocs :: "bool list"
  cerrno :: int

definition malloc_ok :: "cstate \<Rightarrow> bool \<times> cstate" where
  \<comment> \<open>a failing call sets \<open>errno\<close> to \<open>ENOMEM\<close>\<close>
  "malloc_ok st = (case allocs st of
      [] \<Rightarrow> (True, st)
    | b # bs \<Rightarrow> (b, if b then st\<lparr>allocs := bs\<rparr> else st\<lparr>allocs := bs, cerrno := 12\<rparr>))"

definition no_alloc_failure :: "cstate \<Rightarrow> bool" where
  "no_alloc_failure st = list_all (\<lambda>b. b) (allocs st)"

lemma malloc_ok_succeeds:
  "no_alloc_failure st \<Longrightarrow>
    \<exists>st'. malloc_ok st = (True, st') \<and> no_alloc_failure st' \<and> cerrno st' = cerrno st"
  by (auto simp: malloc_ok_def no_alloc_failure_def split: list.splits)

definition EINVAL :: int where "EINVAL = 22"
definition EINTR :: int where "EINTR = 4"
definition ERANGE :: int where "ERANGE = 34"
definition ENOENT :: int where "ENOENT = 2"
definition EACCES :: int where "EACCES = 13"
definition EEXIST :: int where "EEXIST = 17"
definition EPIPE :: int where "EPIPE = 32"
definition ECHILD :: int where "ECHILD = 10"
definition EBADF :: int where "EBADF = 9"
definition ENOSYS :: int where "ENOSYS = 38"
definition EOVERFLOW :: int where "EOVERFLOW = 75"

section \<open>Integer conversions\<close>

definition to_int32 :: "int \<Rightarrow> int" where
  "to_int32 v = signed_take_bit 31 v"

definition to_uint32 :: "int \<Rightarrow> int" where
  "to_uint32 v = v mod 4294967296"

definition INT_MAX :: int where "INT_MAX = 2147483647"
definition INT_MIN :: int where "INT_MIN = -2147483648"
definition LONG_MAX :: int where "LONG_MAX = 9223372036854775807"
definition LONG_MIN :: int where "LONG_MIN = -9223372036854775808"

lemmas int_limits = INT_MAX_def INT_MIN_def LONG_MAX_def LONG_MIN_def

lemma to_int32_id [simp]: "INT_MIN \<le> v \<Longrightarrow> v \<le> INT_MAX \<Longrightarrow> to_int32 v = v"
  by (simp add: to_int32_def int_limits signed_take_bit_int_eq_self)

lemma to_int32_range: "INT_MIN \<le> to_int32 v" "to_int32 v \<le> INT_MAX"
proof -
  have "- (2 ^ 31) \<le> to_int32 v" "to_int32 v < 2 ^ 31"
    unfolding to_int32_def
    by (rule signed_take_bit_int_greater_eq_minus_exp, rule signed_take_bit_int_less_exp)
  then show "INT_MIN \<le> to_int32 v" "to_int32 v \<le> INT_MAX"
    by (simp_all add: int_limits)
qed

section \<open>Transition systems and their invariants\<close>

text \<open>
  The contract behind the concurrent components: an invariant holds initially and every step of
  every thread keeps it. The reachable states are the runs of the model's own step relation.
\<close>

inductive reach :: "('s \<Rightarrow> bool) \<Rightarrow> ('s \<Rightarrow> 's \<Rightarrow> bool) \<Rightarrow> 's \<Rightarrow> bool"
  for init :: "'s \<Rightarrow> bool" and step :: "'s \<Rightarrow> 's \<Rightarrow> bool" where
  reach_init: "init s \<Longrightarrow> reach init step s"
| reach_step: "reach init step s \<Longrightarrow> step s t \<Longrightarrow> reach init step t"

locale invariant_system =
  fixes init :: "'s \<Rightarrow> bool"
    and step :: "'s \<Rightarrow> 's \<Rightarrow> bool"
    and inv :: "'s \<Rightarrow> bool"
  assumes init_inv: "init s \<Longrightarrow> inv s"
    and step_inv: "inv s \<Longrightarrow> step s t \<Longrightarrow> inv t"
begin

lemma reach_inv: "reach init step s \<Longrightarrow> inv s"
  by (induction rule: reach.induct) (auto intro: init_inv step_inv)

lemma run_inv: "step\<^sup>*\<^sup>* s t \<Longrightarrow> inv s \<Longrightarrow> inv t"
  by (induction rule: rtranclp_induct) (auto intro: step_inv)

end

section \<open>Lists\<close>

definition field :: "int list \<Rightarrow> nat \<Rightarrow> int" where
  \<comment> \<open>a member of a structure that a call filled in\<close>
  "field ns i = (if i < length ns then ns ! i else 0)"

lemma field_simps [simp]: "field (n # ns) 0 = n" "field (n # ns) (Suc i) = field ns i" "field [] i = 0"
  by (simp_all add: field_def)

lemma field_numeral [simp]: "field (n # ns) (numeral k) = field ns (pred_numeral k)"
  by (simp add: numeral_eq_Suc)

lemma takeWhile_eq_take_length [simp]:
  "take (length (takeWhile P xs)) xs = takeWhile P xs"
  by (simp add: takeWhile_eq_take[symmetric])

lemma list_all_id_replicate [simp]: "list_all (\<lambda>b. b) (replicate n True)"
  by (simp add: list_all_iff)

text \<open>One element of a list replaced: what the proofs about a list of threads need.\<close>

lemma sum_map_update:
  "i < length xs \<Longrightarrow> sum_list (map f (xs[i := x])) = sum_list (map f xs) + f x - (f (xs ! i) :: int)"
  by (induction xs arbitrary: i) (auto split: nat.splits)

lemma list_all_update: "list_all P xs \<Longrightarrow> P x \<Longrightarrow> list_all P (xs[i := x])"
  by (auto simp: list_all_iff dest: set_update_subset_insert[THEN subsetD])

lemma list_all_nth: "list_all P xs \<Longrightarrow> i < length xs \<Longrightarrow> P (xs ! i)"
  by (simp add: list_all_iff)

lemma list_ex_kept: "list_ex P xs \<Longrightarrow> i < length xs \<Longrightarrow> \<not> P (xs ! i) \<Longrightarrow> list_ex P (xs[i := x])"
  by (induction xs arbitrary: i) (auto split: nat.splits)

lemma list_ex_new: "i < length xs \<Longrightarrow> P x \<Longrightarrow> list_ex P (xs[i := x])"
  by (induction xs arbitrary: i) (auto split: nat.splits)

end
