(* ===== verification/CStr.thy ===== *)
theory CStr
  imports Prelude "HOL-Library.Char_ord" "HOL-Library.List_Lexorder"
begin

text \<open>
  The string functions of the C library that the programs use. A C string is the list of its
  characters without the terminating null byte. \<open>strcmp\<close> gives only its sign (all that the
  standard promises), \<open>strtol\<close> gives the value, the rest of the text (\<open>endptr\<close>) and whether it set
  \<open>errno\<close> to \<open>ERANGE\<close>, \<open>show_int\<close> is the \<open>%d\<close> conversion.
\<close>

definition NUL :: char where "NUL = CHR 0x00"
definition NL :: char where "NL = CHR 0x0A"
definition TAB :: char where "TAB = CHR 0x09"

definition c_str :: "char list \<Rightarrow> string" where
  \<comment> \<open>the C string that starts a buffer\<close>
  "c_str buf = takeWhile (\<lambda>c. c \<noteq> NUL) buf"

lemma c_str_cstring [simp]: "NUL \<notin> set s \<Longrightarrow> c_str (s @ NUL # junk) = s"
  by (induction s) (auto simp: c_str_def)

section \<open>strcmp\<close>

fun strcmp :: "string \<Rightarrow> string \<Rightarrow> int" where
  "strcmp [] [] = 0"
| "strcmp [] (d # ds) = -1"
| "strcmp (c # cs) [] = 1"
| "strcmp (c # cs) (d # ds) =
     (if c < d then -1 else if d < c then 1 else strcmp cs ds)"

lemma strcmp_eq_0 [simp]: "strcmp s t = 0 \<longleftrightarrow> s = t"
  by (induction s t rule: strcmp.induct) auto

lemma strcmp_neg [simp]: "strcmp s t < 0 \<longleftrightarrow> s < t"
  by (induction s t rule: strcmp.induct) auto

lemma strcmp_pos [simp]: "0 < strcmp s t \<longleftrightarrow> t < s"
  by (induction s t rule: strcmp.induct) auto

lemma key_cases [case_names less eq greater]:
  fixes key s :: string
  obtains "key < s" "\<not> s < key" "key \<noteq> s" | "key = s" | "s < key" "\<not> key < s" "key \<noteq> s"
  by (metis less_imp_not_less linorder_less_linear)

section \<open>Decimal output\<close>

definition digit_char :: "nat \<Rightarrow> char" where
  "digit_char d = char_of (48 + d)"

function show_nat :: "nat \<Rightarrow> string" where
  "show_nat n = (if n < 10 then [digit_char n] else show_nat (n div 10) @ [digit_char (n mod 10)])"
  by pat_completeness auto
termination
  by (relation "measure id") auto

declare show_nat.simps [simp del]

definition show_int :: "int \<Rightarrow> string" where
  "show_int i = (if i < 0 then CHR ''-'' # show_nat (nat (- i)) else show_nat (nat i))"

section \<open>strtol\<close>

definition isspace :: "char \<Rightarrow> bool" where
  "isspace c = (c = CHR '' '' \<or> (9 \<le> (of_char c :: nat) \<and> (of_char c :: nat) \<le> 13))"

definition digit_val :: "char \<Rightarrow> nat option" where
  "digit_val c =
     (let n = (of_char c :: nat) in
      if 48 \<le> n \<and> n \<le> 57 then Some (n - 48)
      else if 97 \<le> n \<and> n \<le> 122 then Some (n - 87)
      else if 65 \<le> n \<and> n \<le> 90 then Some (n - 55)
      else None)"

definition is_digit :: "nat \<Rightarrow> char \<Rightarrow> bool" where
  "is_digit base c = (case digit_val c of None \<Rightarrow> False | Some d \<Rightarrow> d < base)"

fun scan_digits :: "nat \<Rightarrow> nat \<Rightarrow> string \<Rightarrow> nat \<times> string" where
  "scan_digits base acc [] = (acc, [])"
| "scan_digits base acc (c # cs) =
     (if is_digit base c then scan_digits base (acc * base + the (digit_val c)) cs
      else (acc, c # cs))"

definition strip_sign :: "string \<Rightarrow> bool \<times> string" where
  "strip_sign s = (case s of
      [] \<Rightarrow> (False, [])
    | c # cs \<Rightarrow> if c = CHR ''-'' then (True, cs) else if c = CHR ''+'' then (False, cs)
               else (False, s))"

definition strip_prefix :: "nat \<Rightarrow> string \<Rightarrow> nat \<times> string" where
  \<comment> \<open>the base in force and the digits, after an optional \<open>0x\<close>\<close>
  "strip_prefix base s =
     (case s of
        z # x # d # ds \<Rightarrow>
          if (base = 0 \<or> base = 16) \<and> z = CHR ''0'' \<and> (x = CHR ''x'' \<or> x = CHR ''X'')
             \<and> is_digit 16 d
          then (16, d # ds)
          else if base = 0 then (if z = CHR ''0'' then 8 else 10, s) else (base, s)
      | z # ds \<Rightarrow> if base = 0 then (if z = CHR ''0'' then 8 else 10, s) else (base, s)
      | [] \<Rightarrow> (if base = 0 then 10 else base, s))"

definition clamp_long :: "int \<Rightarrow> int" where
  "clamp_long v = (if LONG_MAX < v then LONG_MAX else if v < LONG_MIN then LONG_MIN else v)"

definition strtol :: "string \<Rightarrow> nat \<Rightarrow> int \<times> string \<times> bool" where
  "strtol s base =
     (let (neg, s1) = strip_sign (dropWhile isspace s);
          (b, s2) = strip_prefix base s1
      in if s2 = [] \<or> \<not> is_digit b (hd s2) then (0, s, False)
         else let (n, rest) = scan_digits b 0 s2;
                  v = (if neg then - int n else int n)
              in (clamp_long v, rest, clamp_long v \<noteq> v))"

definition atoi :: "string \<Rightarrow> int" where
  "atoi s = to_int32 (fst (strtol s 10))"

section \<open>Reading back what was printed\<close>

lemma of_char_digit_char: "d < 10 \<Longrightarrow> (of_char (digit_char d) :: nat) = 48 + d"
  by (simp add: digit_char_def)

lemma digit_val_digit_char [simp]: "d < 10 \<Longrightarrow> digit_val (digit_char d) = Some d"
  by (simp add: digit_val_def of_char_digit_char)

lemma is_digit_digit_char [simp]: "d < 10 \<Longrightarrow> is_digit 10 (digit_char d)"
  by (simp add: is_digit_def)

lemma char_neq_by_code: "(of_char c :: nat) \<noteq> of_char d \<Longrightarrow> c \<noteq> d"
  by auto

lemma digit_char_plain:
  assumes "d < 10"
  shows "\<not> isspace (digit_char d)" "digit_char d \<noteq> CHR ''-''" "digit_char d \<noteq> CHR ''+''"
    "digit_char d \<noteq> NUL" "digit_char d \<noteq> NL"
proof -
  have n: "(of_char (digit_char d) :: nat) = 48 + d" by (rule of_char_digit_char[OF assms])
  show "digit_char d \<noteq> CHR ''-''" "digit_char d \<noteq> CHR ''+''"
    "digit_char d \<noteq> NUL" "digit_char d \<noteq> NL"
    by (rule char_neq_by_code, simp add: n NUL_def NL_def)+
  have "digit_char d \<noteq> CHR '' ''" by (rule char_neq_by_code, simp add: n)
  then show "\<not> isspace (digit_char d)" by (simp add: isspace_def n)
qed

lemma show_nat_digits: "c \<in> set (show_nat n) \<Longrightarrow> \<exists>d < 10. c = digit_char d"
proof (induction n rule: show_nat.induct)
  case (1 n)
  show ?case
  proof (cases "n < 10")
    case True
    with "1.prems" show ?thesis by (auto simp: show_nat.simps[of n])
  next
    case False
    with "1.prems" have "c \<in> set (show_nat (n div 10)) \<or> c = digit_char (n mod 10)"
      by (auto simp: show_nat.simps[of n])
    then show ?thesis using "1.IH"[OF False] by (auto intro: exI[of _ "n mod 10"])
  qed
qed

lemma show_nat_not_Nil [simp]: "show_nat n \<noteq> []"
  by (simp add: show_nat.simps[of n])

lemma hd_show_nat: "\<exists>d < 10. hd (show_nat n) = digit_char d"
  using show_nat_digits[of "hd (show_nat n)" n] by simp

lemma scan_digits_append:
  assumes "\<forall>c \<in> set ds. is_digit b c"
  shows "scan_digits b acc (ds @ rest) = scan_digits b (fst (scan_digits b acc ds)) rest"
  using assms by (induction ds arbitrary: acc) auto

lemma scan_show_nat: "fst (scan_digits 10 0 (show_nat n)) = n"
proof (induction n rule: show_nat.induct)
  case (1 n)
  show ?case
  proof (cases "n < 10")
    case True
    then show ?thesis by (simp add: show_nat.simps[of n])
  next
    case False
    have all: "\<forall>c \<in> set (show_nat (n div 10)). is_digit 10 c"
      using show_nat_digits by fastforce
    have "scan_digits 10 0 (show_nat n)
        = scan_digits 10 (fst (scan_digits 10 0 (show_nat (n div 10)))) [digit_char (n mod 10)]"
      using False scan_digits_append[OF all] by (simp add: show_nat.simps[of n])
    also have "\<dots> = (n, [])" using "1.IH"[OF False] by simp
    finally show ?thesis by simp
  qed
qed

lemma scan_show_nat_rest:
  assumes "rest = [] \<or> \<not> is_digit 10 (hd rest)"
  shows "scan_digits 10 0 (show_nat n @ rest) = (n, rest)"
proof -
  have "\<forall>c \<in> set (show_nat n). is_digit 10 c" using show_nat_digits by fastforce
  then have "scan_digits 10 0 (show_nat n @ rest) = scan_digits 10 n rest"
    by (simp add: scan_digits_append scan_show_nat)
  also have "\<dots> = (n, rest)" using assms by (cases rest) auto
  finally show ?thesis .
qed

lemma strip_prefix_10 [simp]: "strip_prefix 10 s = (10, s)"
  by (simp add: strip_prefix_def split: list.splits)

lemma strip_sign_plain: "s \<noteq> [] \<Longrightarrow> hd s \<noteq> CHR ''-'' \<Longrightarrow> hd s \<noteq> CHR ''+'' \<Longrightarrow> strip_sign s = (False, s)"
  by (cases s) (auto simp: strip_sign_def)

lemma strtol_show_int:
  assumes "LONG_MIN \<le> i" "i \<le> LONG_MAX" "rest = [] \<or> \<not> is_digit 10 (hd rest)"
  shows "strtol (show_int i @ rest) 10 = (i, rest, False)"
proof (cases "i < 0")
  case True
  let ?ds = "show_nat (nat (- i))"
  obtain d where d: "d < 10" "hd ?ds = digit_char d" using hd_show_nat by blast
  have minus: "\<not> isspace (CHR ''-'')" by (simp add: isspace_def)
  have "dropWhile isspace (show_int i @ rest) = CHR ''-'' # ?ds @ rest"
    using True minus by (simp add: show_int_def)
  then show ?thesis
    using assms True d scan_show_nat_rest[OF assms(3), of "nat (- i)"]
    by (simp add: strtol_def strip_sign_def clamp_long_def)
next
  case False
  let ?ds = "show_nat (nat i)"
  obtain d where d: "d < 10" "hd ?ds = digit_char d" using hd_show_nat by blast
  have "dropWhile isspace (?ds @ rest) = ?ds @ rest"
    using digit_char_plain(1)[OF d(1)] d(2) by (cases ?ds) auto
  moreover have "strip_sign (?ds @ rest) = (False, ?ds @ rest)"
    using digit_char_plain[OF d(1)] d(2) by (intro strip_sign_plain) auto
  ultimately show ?thesis
    using assms False d scan_show_nat_rest[OF assms(3), of "nat i"]
    by (simp add: strtol_def show_int_def clamp_long_def)
qed

lemma clamp_long_range [simp]: "LONG_MIN \<le> clamp_long v" "clamp_long v \<le> LONG_MAX"
  by (simp_all add: clamp_long_def int_limits)

lemma strtol_range: "LONG_MIN \<le> fst (strtol s b)" "fst (strtol s b) \<le> LONG_MAX"
proof -
  have zero: "LONG_MIN \<le> 0" "0 \<le> LONG_MAX" by (simp_all add: int_limits)
  show "LONG_MIN \<le> fst (strtol s b)" "fst (strtol s b) \<le> LONG_MAX"
    by (simp_all add: strtol_def Let_def zero split: prod.splits)
qed

lemma scan_digits_bound:
  "fst (scan_digits b acc s) < (acc + 1) * b ^ length s \<or> b = 0"
proof (induction b acc s rule: scan_digits.induct)
  case (2 base acc c cs)
  show ?case
  proof (cases "is_digit base c")
    case True
    then have "the (digit_val c) < base" by (auto simp: is_digit_def split: option.splits)
    then have "(acc * base + the (digit_val c) + 1) * base ^ length cs \<le> (acc + 1) * base * base ^ length cs"
      by (intro mult_right_mono) (auto simp: algebra_simps)
    with True 2 show ?thesis by (auto simp: algebra_simps)
  next
    case False
    have "(acc + 1) * 1 \<le> (acc + 1) * (base * base ^ length cs)" if "0 < base"
      using that by (intro mult_le_mono2) simp
    with False show ?thesis by (cases "base = 0") auto
  qed
qed simp

lemma strip_sign_length: "length (snd (strip_sign s)) \<le> length s"
  by (auto simp: strip_sign_def split: list.splits)

lemma strtol_bound: "\<bar>fst (strtol s 10)\<bar> < 10 ^ length s"
proof -
  obtain neg s1 where s1: "strip_sign (dropWhile isspace s) = (neg, s1)" by fastforce
  have len: "length s1 \<le> length s"
    using strip_sign_length[of "dropWhile isspace s"] length_dropWhile_le[of isspace s] s1 by simp
  let ?n = "fst (scan_digits 10 0 s1)"
  have "?n < 10 ^ length s1" using scan_digits_bound[of 10 0 s1] by simp
  also have "(10 :: nat) ^ length s1 \<le> 10 ^ length s" using len by (intro power_increasing) auto
  finally have "int ?n < int (10 ^ length s)" by (simp only: of_nat_less_iff)
  then have n: "int ?n < 10 ^ length s" by simp
  have clamp: "\<bar>clamp_long v\<bar> \<le> \<bar>v\<bar>" for v by (auto simp: clamp_long_def int_limits)
  have "fst (strtol s 10) = 0 \<or> fst (strtol s 10) = clamp_long (if neg then - int ?n else int ?n)"
    by (simp add: strtol_def s1 Let_def split: prod.splits)
  moreover have "\<bar>clamp_long (if neg then - int ?n else int ?n)\<bar> \<le> int ?n"
    using clamp[of "if neg then - int ?n else int ?n"] by (simp split: if_splits)
  ultimately show ?thesis using n by (elim disjE) (simp, metis le_less_trans)
qed

lemma show_nat_length_le: "n < 10 ^ Suc k \<Longrightarrow> length (show_nat n) \<le> Suc k"
proof (induction k arbitrary: n)
  case 0
  then show ?case by (simp add: show_nat.simps[of n])
next
  case (Suc k)
  then have "n div 10 < 10 ^ Suc k" by (simp add: less_mult_imp_div_less)
  from Suc.IH[OF this] show ?case by (simp add: show_nat.simps[of n])
qed

lemma show_nat_length_ge: "10 ^ k \<le> n \<Longrightarrow> Suc k \<le> length (show_nat n)"
proof (induction k arbitrary: n)
  case 0
  show ?case by (cases "show_nat n") simp_all
next
  case (Suc k)
  then have "10 ^ k \<le> n div 10" by (simp add: less_eq_div_iff_mult_less_eq mult.commute)
  moreover have "1 \<le> (10 :: nat) ^ k" by simp
  then have "\<not> n < 10" using Suc.prems unfolding power_Suc by linarith
  ultimately show ?case using Suc.IH by (simp add: show_nat.simps[of n])
qed

lemma NUL_not_shown: "NUL \<notin> set (show_nat n)" "NUL \<notin> set (show_int i)"
proof -
  have d: "digit_char d \<noteq> NUL" if "d < 10" for d
    using that by (intro char_neq_by_code) (simp add: of_char_digit_char NUL_def)
  show *: "NUL \<notin> set (show_nat n)" for n using show_nat_digits[of NUL n] d by metis
  show "NUL \<notin> set (show_int i)" using *[of "nat i"] *[of "nat (- i)"] by (auto simp: show_int_def NUL_def)
qed

lemma c_str_id: "NUL \<notin> set s \<Longrightarrow> c_str s = s"
  by (auto simp: c_str_def takeWhile_eq_all_conv)

end
