(* ===== verification/BinaryTree.thy ===== *)
theory BinaryTree
  imports CStr
begin

text \<open>
  \<open>lib/binary_tree.c\<close>: the unbalanced search tree of strings. A node owns its children, so the
  pointer structure is a datatype; a \<open>BTNode **\<close> is the path to the slot it points to. A key is
  \<open>None\<close> where \<open>malloc\<close> failed to give the node its key buffer. The abstraction \<open>bt_map\<close> forgets
  the shape; the operations refine the operations of a finite map.
\<close>

section \<open>Data\<close>

datatype 'v btnode =
    NullNode
  | Node "'v btnode" "'v btnode" "string option" 'v

record 'v BTree =
  root :: "'v btnode"

datatype dir = GoLeft | GoRight

type_synonym slot = "dir list"

definition BT_KEY_MAX :: nat where "BT_KEY_MAX = 255"

fun is_null :: "'v btnode \<Rightarrow> bool" where
  "is_null NullNode = True"
| "is_null (Node l r k v) = False"

text \<open>Reading and writing through a \<open>BTNode **\<close>.\<close>

fun slot_get :: "slot \<Rightarrow> 'v btnode \<Rightarrow> 'v btnode" where
  "slot_get [] t = t"
| "slot_get (d # p) NullNode = NullNode"
| "slot_get (GoLeft # p) (Node l r k v) = slot_get p l"
| "slot_get (GoRight # p) (Node l r k v) = slot_get p r"

fun slot_set :: "slot \<Rightarrow> 'v btnode \<Rightarrow> 'v btnode \<Rightarrow> 'v btnode" where
  "slot_set [] s t = s"
| "slot_set (d # p) s NullNode = NullNode"
| "slot_set (GoLeft # p) s (Node l r k v) = Node (slot_set p s l) r k v"
| "slot_set (GoRight # p) s (Node l r k v) = Node l (slot_set p s r) k v"

definition key_cmp :: "string \<Rightarrow> string option \<Rightarrow> int c" where
  \<comment> \<open>\<open>strcmp(key, node->key)\<close>\<close>
  "key_cmp key k = (case k of None \<Rightarrow> Inl Null_deref | Some s \<Rightarrow> Inr (strcmp key s))"

section \<open>Operations\<close>

definition bt_create_node :: "string \<Rightarrow> 'v \<Rightarrow> cstate \<Rightarrow> ('v btnode \<times> int \<times> cstate) c" where
  "bt_create_node key value st =
     (let (node_ok, st1) = malloc_ok st in
      if \<not> node_ok then Inl Null_deref
      else let (key_ok, st2) = malloc_ok st1 in
        if \<not> key_ok then Inr (Node NullNode NullNode None value, -1, st2)
        else if BT_KEY_MAX < length key then Inl Buffer_overflow
        else Inr (Node NullNode NullNode (Some key) value, 0, st2))"

fun bt_add_rec :: "'v btnode \<Rightarrow> string \<Rightarrow> 'v \<Rightarrow> cstate \<Rightarrow> ('v btnode \<times> int \<times> cstate) c" where
  "bt_add_rec NullNode key value st = Inl Null_deref"
| "bt_add_rec (Node l r k v) key value st =
     bindC (key_cmp key k) (\<lambda>rv.
       if rv = 0 then Inr (Node l r k v, -1, st\<lparr>cerrno := EINVAL\<rparr>)
       else if rv < 0 then
         bindC (if is_null l then bt_create_node key value st else bt_add_rec l key value st)
           (\<lambda>(l', rc, st'). Inr (Node l' r k v, rc, st'))
       else
         bindC (if is_null r then bt_create_node key value st else bt_add_rec r key value st)
           (\<lambda>(r', rc, st'). Inr (Node l r' k v, rc, st')))"

definition bt_initialize :: "'v BTree" where
  "bt_initialize = \<lparr>root = NullNode\<rparr>"

definition bt_add :: "'v BTree \<Rightarrow> string \<Rightarrow> 'v \<Rightarrow> cstate \<Rightarrow> ('v BTree \<times> int \<times> cstate) c" where
  "bt_add tree key value st =
     bindC (if is_null (root tree) then bt_create_node key value st
            else bt_add_rec (root tree) key value st)
       (\<lambda>(t, rc, st'). Inr (tree\<lparr>root := t\<rparr>, rc, st'))"

fun bt_find_node :: "'v btnode \<Rightarrow> string \<Rightarrow> slot option c" where
  "bt_find_node NullNode key = Inl Null_deref"
| "bt_find_node (Node l r k v) key =
     bindC (key_cmp key k) (\<lambda>rv.
       if rv < 0 then
         (if is_null l then Inr None
          else bindC (bt_find_node l key) (\<lambda>p. Inr (map_option (\<lambda>q. GoLeft # q) p)))
       else if rv > 0 then
         (if is_null r then Inr None
          else bindC (bt_find_node r key) (\<lambda>p. Inr (map_option (\<lambda>q. GoRight # q) p)))
       else Inr (Some []))"

definition bt_lookup :: "'v BTree \<Rightarrow> string \<Rightarrow> ('v option \<times> int) c" where
  \<comment> \<open>what was stored through \<open>value\<close>, and the return code\<close>
  "bt_lookup tree key =
     (if is_null (root tree) then Inr (None, -1)
      else bindC (bt_find_node (root tree) key) (\<lambda>found.
        case found of
          None \<Rightarrow> Inl Null_deref
        | Some p \<Rightarrow> (case slot_get p (root tree) of
              NullNode \<Rightarrow> Inr (None, -1)
            | Node l r k v \<Rightarrow> Inr (Some v, 0))))"

fun bt_find_parent :: "'v btnode \<Rightarrow> string \<Rightarrow> slot option c" where
  "bt_find_parent NullNode child_key = Inl Null_deref"
| "bt_find_parent (Node l r k v) child_key =
     bindC (case l of NullNode \<Rightarrow> Inr False
            | Node ll lr lk lv \<Rightarrow> bindC (key_cmp child_key lk) (\<lambda>c. Inr (c = 0))) (\<lambda>in_left.
       if in_left then Inr (Some [])
       else bindC (case r of NullNode \<Rightarrow> Inr False
            | Node rl rr rk rv \<Rightarrow> bindC (key_cmp child_key rk) (\<lambda>c. Inr (c = 0))) (\<lambda>in_right.
         if in_right then Inr (Some [])
         else bindC (key_cmp child_key k) (\<lambda>rv.
           if rv < 0 then
             (if is_null l then Inr None
              else bindC (bt_find_parent l child_key) (\<lambda>p. Inr (map_option (\<lambda>q. GoLeft # q) p)))
           else if rv > 0 then
             (if is_null r then Inr None
              else bindC (bt_find_parent r child_key) (\<lambda>p. Inr (map_option (\<lambda>q. GoRight # q) p)))
           else Inr None)))"

fun bt_min_slot :: "'v btnode \<Rightarrow> slot" where
  \<comment> \<open>the loop of case 2 in \<open>bt_delete\<close>: follow \<open>left\<close> until it is null\<close>
  "bt_min_slot NullNode = []"
| "bt_min_slot (Node l r k v) = (if is_null l then [] else GoLeft # bt_min_slot l)"

definition num_children :: "'v btnode \<Rightarrow> 'v btnode \<Rightarrow> nat" where
  "num_children l r = (if is_null l then 0 else 1) + (if is_null r then 0 else 1)"

definition bt_delete :: "'v BTree \<Rightarrow> string \<Rightarrow> cstate \<Rightarrow> ('v BTree \<times> int \<times> cstate) c" where
  "bt_delete tree target_key st =
     (if is_null (root tree) then Inr (tree, -1, st)
      else bindC (bt_find_node (root tree) target_key) (\<lambda>target.
        case target of
          None \<Rightarrow> Inr (tree, -1, st\<lparr>cerrno := EINVAL\<rparr>)
        | Some p \<Rightarrow> (case slot_get p (root tree) of
            NullNode \<Rightarrow> Inl Null_deref
          | Node l r k v \<Rightarrow>
              if num_children l r = 0 then
                Inr (tree\<lparr>root := slot_set p NullNode (root tree)\<rparr>, 0, st)
              else if num_children l r = 1 then
                Inr (tree\<lparr>root := slot_set p (if is_null l then r else l) (root tree)\<rparr>, 0, st)
              else
                let q = p @ GoRight # bt_min_slot r in
                (case slot_get q (root tree) of
                   NullNode \<Rightarrow> Inl Null_deref
                 | Node dl dr dk dv \<Rightarrow>
                     if k = None \<or> dk = None then Inl Null_deref
                     else Inr (tree\<lparr>root :=
                       slot_set q dr (slot_set p (Node l r dk dv) (root tree))\<rparr>, 0, st)))))"

text \<open>
  \<open>bt_free\<close>: the nodes in the order in which \<open>bt_free_node\<close> is called on them (left subtree,
  right subtree, node), and the root pointer left behind.
\<close>

fun bt_free_rec :: "'v btnode \<Rightarrow> (string option \<times> 'v) list" where
  "bt_free_rec NullNode = []"
| "bt_free_rec (Node l r k v) = bt_free_rec l @ bt_free_rec r @ [(k, v)]"

definition bt_free :: "'v BTree \<Rightarrow> 'v BTree \<times> (string option \<times> 'v) list" where
  "bt_free tree =
     (if is_null (root tree) then (tree, [])
      else (tree\<lparr>root := NullNode\<rparr>, bt_free_rec (root tree)))"

datatype traversal = ROOT | LEFT_TRAVERSAL | RIGHT_TRAVERSAL

definition key_box :: "string \<Rightarrow> string" where
  "key_box k = ''['' @ CHR 0x27 # k @ CHR 0x27 # ''] ''"

text \<open>
  \<open>space_count\<close> is the static counter at the call; every call leaves it as it found it. A key of
  a node is printed with \<open>%s\<close>, so a null key faults.
\<close>

fun bt_print_rec :: "'v btnode \<Rightarrow> traversal \<Rightarrow> nat \<Rightarrow> cstate \<Rightarrow> (string \<times> cstate) c" where
  "bt_print_rec NullNode tr space_count st = Inl Null_deref"
| "bt_print_rec (Node l r k v) tr space_count st =
     (case k of None \<Rightarrow> Inl Null_deref
      | Some key \<Rightarrow>
        (let (ok, st0) = (if tr = LEFT_TRAVERSAL then malloc_ok st else (True, st)) in
         if \<not> ok then Inr ([], st0)
         else
           let here = (if tr = LEFT_TRAVERSAL
                       then NL # replicate space_count (CHR '' '') @ key_box key
                       else key_box key) in
           bindC (if is_null r then Inr ([], st0)
                  else bt_print_rec r RIGHT_TRAVERSAL (space_count + length (key_box key)) st0)
             (\<lambda>(right, st1).
               bindC (if is_null l then Inr ([], st1)
                      else bt_print_rec l LEFT_TRAVERSAL space_count st1)
                 (\<lambda>(left, st2). Inr (here @ right @ left, st2)))))"

definition bt_print :: "'v BTree \<Rightarrow> cstate \<Rightarrow> (string \<times> cstate) c" where
  "bt_print tree st =
     (if is_null (root tree) then Inr (''Tree is empty.'' @ [NL], st)
      else bindC (bt_print_rec (root tree) ROOT 0 st) (\<lambda>(out, st'). Inr (out @ [NL], st')))"

section \<open>Abstraction and invariant\<close>

fun bt_map :: "'v btnode \<Rightarrow> string \<Rightarrow> 'v option" where
  "bt_map NullNode = Map.empty"
| "bt_map (Node l r k v) =
     (case k of None \<Rightarrow> bt_map l ++ bt_map r | Some s \<Rightarrow> (bt_map l ++ bt_map r)(s \<mapsto> v))"

fun bt_keys :: "'v btnode \<Rightarrow> string list" where
  "bt_keys NullNode = []"
| "bt_keys (Node l r k v) =
     bt_keys l @ (case k of None \<Rightarrow> [] | Some s \<Rightarrow> [s]) @ bt_keys r"

fun bst :: "'v btnode \<Rightarrow> bool" where
  "bst NullNode = True"
| "bst (Node l r k v) = (case k of None \<Rightarrow> False
     | Some s \<Rightarrow> length s \<le> BT_KEY_MAX \<and> (\<forall>x \<in> set (bt_keys l). x < s)
                 \<and> (\<forall>x \<in> set (bt_keys r). s < x) \<and> bst l \<and> bst r)"

lemma dom_bt_map: "dom (bt_map t) = set (bt_keys t)"
  by (induction t) (auto split: option.splits)

lemma bt_map_None: "bt_map t x = None \<longleftrightarrow> x \<notin> set (bt_keys t)"
  using dom_bt_map[of t] by auto

lemma bt_keys_sorted: "bst t \<Longrightarrow> sorted (bt_keys t) \<and> distinct (bt_keys t)"
proof (induction t)
  case NullNode
  then show ?case by simp
next
  case (Node l r k v)
  then show ?case by (fastforce simp: sorted_append split: option.splits)
qed

lemma is_null_iff: "is_null t \<longleftrightarrow> t = NullNode"
  by (cases t) auto


section \<open>Insertion\<close>

lemma create_node_ok:
  assumes "no_alloc_failure st" "length key \<le> BT_KEY_MAX"
  shows "\<exists>st'. bt_create_node key v st = Inr (Node NullNode NullNode (Some key) v, 0, st')
    \<and> no_alloc_failure st' \<and> cerrno st' = cerrno st"
proof -
  obtain st1 where 1: "malloc_ok st = (True, st1)" "no_alloc_failure st1" "cerrno st1 = cerrno st"
    using malloc_ok_succeeds[OF assms(1)] by blast
  obtain st2 where "malloc_ok st1 = (True, st2)" "no_alloc_failure st2" "cerrno st2 = cerrno st1"
    using malloc_ok_succeeds[OF 1(2)] by blast
  with 1 assms(2) show ?thesis by (simp add: bt_create_node_def)
qed

lemma bt_map_dest: "bt_map t x = Some v \<Longrightarrow> x \<in> set (bt_keys t)"
  using dom_bt_map[of t] by auto

lemma bst_NodeD:
  assumes "bst (Node l r k v)"
  obtains s where "k = Some s" "length s \<le> BT_KEY_MAX" "bst l" "bst r"
    "\<forall>x \<in> set (bt_keys l). x < s" "\<forall>x \<in> set (bt_keys r). s < x"
  using assms by (auto split: option.splits)

lemma bt_map_search:
  \<comment> \<open>in a search tree the abstraction follows the comparisons of the code\<close>
  assumes "bst (Node l r (Some s) v)"
  shows "bt_map (Node l r (Some s) v) x
    = (if x < s then bt_map l x else if x = s then Some v else bt_map r x)"
proof (cases x s rule: key_cases)
  case less
  with assms have "bt_map r x = None" by (auto simp: bt_map_None)
  with less show ?thesis by (simp add: map_add_def)
next
  case eq
  then show ?thesis by simp
next
  case greater
  with assms have "bt_map l x = None" by (auto simp: bt_map_None)
  with greater show ?thesis by (simp add: map_add_def split: option.splits)
qed

declare bt_map.simps(2) [simp del]

lemma add_rec_present:
  "bst t \<Longrightarrow> key \<in> set (bt_keys t) \<Longrightarrow>
    bt_add_rec t key v st = Inr (t, -1, st\<lparr>cerrno := EINVAL\<rparr>)"
proof (induction t)
  case NullNode
  then show ?case by simp
next
  case (Node l r k w)
  from Node.prems(1) obtain s where k: "k = Some s" by (auto split: option.splits)
  show ?case
  proof (cases key s rule: key_cases)
    case less
    with Node.prems k have "key \<in> set (bt_keys l)" by auto
    with less Node k show ?thesis by (cases l) (auto simp: key_cmp_def)
  next
    case eq
    with k show ?thesis by (simp add: key_cmp_def)
  next
    case greater
    with Node.prems k have "key \<in> set (bt_keys r)" by auto
    with greater Node k show ?thesis by (cases r) (auto simp: key_cmp_def)
  qed
qed

lemma add_rec_absent:
  assumes "bst t" "t \<noteq> NullNode" "key \<notin> set (bt_keys t)" "no_alloc_failure st"
    "length key \<le> BT_KEY_MAX"
  shows "\<exists>t' st'. bt_add_rec t key v st = Inr (t', 0, st') \<and> bst t' \<and> no_alloc_failure st'
    \<and> cerrno st' = cerrno st \<and> set (bt_keys t') = insert key (set (bt_keys t))
    \<and> bt_map t' = (bt_map t)(key \<mapsto> v)"
  using assms(1-3)
proof (induction t)
  case NullNode
  then show ?case by simp
next
  case (Node l r k w)
  from Node.prems(1) obtain s where k: "k = Some s" by (rule bst_NodeD)
  note old = bt_map_search[OF Node.prems(1)[unfolded k]]
  have below: "\<exists>t' st'. (if is_null u then bt_create_node key v st else bt_add_rec u key v st)
        = Inr (t', 0, st') \<and> bst t' \<and> no_alloc_failure st' \<and> cerrno st' = cerrno st
        \<and> set (bt_keys t') = insert key (set (bt_keys u)) \<and> bt_map t' = (bt_map u)(key \<mapsto> v)"
    if "u = l \<or> u = r" for u
    using that create_node_ok[OF assms(4,5), of v] assms(5) Node.prems k Node.IH
    by (cases "u = NullNode") (auto simp: is_null_iff bt_map.simps(2) fun_eq_iff)
  from Node.prems(3) k have ne: "key \<noteq> s" by simp
  show ?case
  proof (cases key s rule: key_cases)
    case less
    obtain t' st' where t': "(if is_null l then bt_create_node key v st
        else bt_add_rec l key v st) = Inr (t', 0, st')" "bst t'" "no_alloc_failure st'"
      "cerrno st' = cerrno st" "set (bt_keys t') = insert key (set (bt_keys l))"
      "bt_map t' = (bt_map l)(key \<mapsto> v)"
      using below[of l] by blast
    have new: "bst (Node t' r (Some s) w)" using Node.prems(1) k less t' by auto
    have "bt_add_rec (Node l r k w) key v st = Inr (Node t' r (Some s) w, 0, st')"
      using less k t'(1) by (simp add: key_cmp_def)
    moreover have "bt_map (Node t' r (Some s) w) = (bt_map (Node l r k w))(key \<mapsto> v)"
      using less t'(6) by (auto simp: fun_eq_iff k old bt_map_search[OF new])
    ultimately show ?thesis using new t' k by auto
  next
    case eq
    with ne show ?thesis by simp
  next
    case greater
    obtain t' st' where t': "(if is_null r then bt_create_node key v st
        else bt_add_rec r key v st) = Inr (t', 0, st')" "bst t'" "no_alloc_failure st'"
      "cerrno st' = cerrno st" "set (bt_keys t') = insert key (set (bt_keys r))"
      "bt_map t' = (bt_map r)(key \<mapsto> v)"
      using below[of r] by blast
    have new: "bst (Node l t' (Some s) w)" using Node.prems(1) k greater t' by auto
    have "bt_add_rec (Node l r k w) key v st = Inr (Node l t' (Some s) w, 0, st')"
      using greater k t'(1) by (simp add: key_cmp_def)
    moreover have "bt_map (Node l t' (Some s) w) = (bt_map (Node l r k w))(key \<mapsto> v)"
      using greater t'(6) by (auto simp: fun_eq_iff k old bt_map_search[OF new])
    ultimately show ?thesis using new t' k by auto
  qed
qed

section \<open>Search\<close>

lemma find_node_present:
  "bst t \<Longrightarrow> key \<in> set (bt_keys t) \<Longrightarrow>
    \<exists>p l r v. bt_find_node t key = Inr (Some p) \<and> slot_get p t = Node l r (Some key) v
      \<and> bt_map t key = Some v \<and> bst (Node l r (Some key) v)"
proof (induction t)
  case NullNode
  then show ?case by simp
next
  case (Node l r k w)
  from Node.prems(1) obtain s where k: "k = Some s" by (rule bst_NodeD)
  note old = bt_map_search[OF Node.prems(1)[unfolded k], of key]
  show ?case
  proof (cases key s rule: key_cases)
    case less
    with Node.prems k have "key \<in> set (bt_keys l)" "bst l" "l \<noteq> NullNode" by auto
    with Node.IH(1) less k old show ?thesis by (fastforce simp: key_cmp_def is_null_iff)
  next
    case eq
    with k Node.prems old show ?thesis by (fastforce simp: key_cmp_def)
  next
    case greater
    with Node.prems k have "key \<in> set (bt_keys r)" "bst r" "r \<noteq> NullNode" by auto
    with Node.IH(2) greater k old show ?thesis by (fastforce simp: key_cmp_def is_null_iff)
  qed
qed

lemma find_node_absent:
  "bst t \<Longrightarrow> t \<noteq> NullNode \<Longrightarrow> key \<notin> set (bt_keys t) \<Longrightarrow> bt_find_node t key = Inr None"
proof (induction t)
  case NullNode
  then show ?case by simp
next
  case (Node l r k w)
  from Node.prems(1) obtain s where k: "k = Some s" by (rule bst_NodeD)
  with Node show ?case by (auto simp: key_cmp_def is_null_iff)
qed

section \<open>Replacing a subtree\<close>

lemma slot_get_Null [simp]: "slot_get p NullNode = NullNode"
  by (cases p) auto

lemma slot_get_append: "slot_get (p @ q) t = slot_get q (slot_get p t)"
  by (induction p t rule: slot_get.induct) auto

lemma slot_set_append:
  "slot_set (p @ q) s t = slot_set p (slot_set q s (slot_get p t)) t"
  by (induction p s t rule: slot_set.induct) auto

lemma slot_set_twice: "slot_set p s (slot_set p s' t) = slot_set p s t"
  by (induction p s' t rule: slot_set.induct) auto

lemma slot_get_set: "slot_get p t \<noteq> NullNode \<Longrightarrow> slot_get p (slot_set p s t) = s"
  by (induction p s t rule: slot_set.induct) auto

lemma slot_set_get [simp]: "slot_set p (slot_get p t) t = t"
  by (induction p t rule: slot_get.induct) auto

lemma slot_replace:
  assumes "bst t" "bt_find_node t key = Inr (Some p)" "bst s'"
    "set (bt_keys s') \<subseteq> set (bt_keys (slot_get p t))"
  shows "bst (slot_set p s' t) \<and> set (bt_keys (slot_set p s' t)) \<subseteq> set (bt_keys t)
    \<and> set (bt_keys (slot_get p t)) \<subseteq> set (bt_keys t)
    \<and> (\<forall>x. bt_map (slot_set p s' t) x
        = (if x \<in> set (bt_keys (slot_get p t)) then bt_map s' x else bt_map t x))"
  using assms(1,2,4)
proof (induction t arbitrary: p)
  case NullNode
  then show ?case by simp
next
  case (Node l r k w)
  from Node.prems(1) obtain s where s: "k = Some s" "length s \<le> BT_KEY_MAX"
    "bst l" "bst r" "\<forall>x \<in> set (bt_keys l). x < s"
    "\<forall>x \<in> set (bt_keys r). s < x"
    by (rule bst_NodeD)
  note old = bt_map_search[OF Node.prems(1)[unfolded s(1)]]
  show ?case
  proof (cases key s rule: key_cases)
    case less
    with Node.prems(2) s obtain q where q: "p = GoLeft # q" "bt_find_node l key = Inr (Some q)"
      by (auto simp: key_cmp_def bindC_eq_Inr split: if_splits)
    with Node.prems(3) have "set (bt_keys s') \<subseteq> set (bt_keys (slot_get q l))" by simp
    note IH = Node.IH(1)[OF s(3) q(2) this]
    then have new: "bst (Node (slot_set q s' l) r (Some s) w)"
      using Node.prems(1) s(1) by auto
    have "x < s" if "x \<in> set (bt_keys (slot_get q l))" for x using IH s(5) that by blast
    then have "bt_map (Node (slot_set q s' l) r (Some s) w) x =
        (if x \<in> set (bt_keys (slot_get q l)) then bt_map s' x
         else bt_map (Node l r (Some s) w) x)" for x
      using IH by (auto simp: old bt_map_search[OF new])
    with new IH q s(1) show ?thesis by auto
  next
    case eq
    with Node.prems s have "p = []" by (auto simp: key_cmp_def)
    moreover have "bt_map s' x = None \<and> bt_map (Node l r k w) x = None"
      if "x \<notin> set (bt_keys (Node l r k w))" for x
      using that Node.prems(3) \<open>p = []\<close> unfolding bt_map_None by auto
    ultimately show ?thesis using Node.prems assms(3) by auto
  next
    case greater
    with Node.prems(2) s obtain q where q: "p = GoRight # q" "bt_find_node r key = Inr (Some q)"
      by (auto simp: key_cmp_def bindC_eq_Inr split: if_splits)
    with Node.prems(3) have "set (bt_keys s') \<subseteq> set (bt_keys (slot_get q r))" by simp
    note IH = Node.IH(2)[OF s(4) q(2) this]
    then have new: "bst (Node l (slot_set q s' r) (Some s) w)"
      using Node.prems(1) s(1) by auto
    have "s < x" if "x \<in> set (bt_keys (slot_get q r))" for x using IH s(6) that by blast
    then have "bt_map (Node l (slot_set q s' r) (Some s) w) x =
        (if x \<in> set (bt_keys (slot_get q r)) then bt_map s' x
         else bt_map (Node l r (Some s) w) x)" for x
      using IH by (auto simp: old bt_map_search[OF new] dest: less_imp_not_less)
    with new IH q s(1) show ?thesis by auto
  qed
qed


section \<open>Deletion\<close>

lemma min_slot:
  "bst t \<Longrightarrow> t \<noteq> NullNode \<Longrightarrow>
    \<exists>dr s dv. slot_get (bt_min_slot t) t = Node NullNode dr (Some s) dv
      \<and> length s \<le> BT_KEY_MAX \<and> bst (slot_set (bt_min_slot t) dr t)
      \<and> (\<forall>x \<in> set (bt_keys (slot_set (bt_min_slot t) dr t)). s < x)
      \<and> set (bt_keys t) = insert s (set (bt_keys (slot_set (bt_min_slot t) dr t)))
      \<and> bt_map t = (bt_map (slot_set (bt_min_slot t) dr t))(s \<mapsto> dv)"
proof (induction t)
  case NullNode
  then show ?case by simp
next
  case (Node l r k w)
  from Node.prems(1) obtain s where s: "k = Some s" "length s \<le> BT_KEY_MAX" "bst l" "bst r"
    "\<forall>x \<in> set (bt_keys l). x < s" "\<forall>x \<in> set (bt_keys r). s < x"
    by (rule bst_NodeD)
  show ?case
  proof (cases "l = NullNode")
    case True
    with s show ?thesis by (auto simp: bt_map.simps(2))
  next
    case False
    let ?m = "bt_min_slot l"
    obtain dr z dv where z: "slot_get ?m l = Node NullNode dr (Some z) dv"
      "length z \<le> BT_KEY_MAX" "bst (slot_set ?m dr l)"
      "\<forall>x \<in> set (bt_keys (slot_set ?m dr l)). z < x"
      "set (bt_keys l) = insert z (set (bt_keys (slot_set ?m dr l)))"
      "bt_map l = (bt_map (slot_set ?m dr l))(z \<mapsto> dv)"
      using Node.IH(1)[OF s(3) False] by blast
    have zs: "z < s" using s(5) z(5) by blast
    have zr: "z < x" if "x \<in> set (bt_keys r)" for x using zs s(6) that by force
    have new: "bst (Node (slot_set ?m dr l) r (Some s) w)" using s z by auto
    have "bt_map (Node l r k w) = (bt_map (Node (slot_set ?m dr l) r (Some s) w))(z \<mapsto> dv)"
      using zs z(6) by (auto simp: fun_eq_iff bt_map_search[OF new] s(1)
          bt_map_search[OF Node.prems(1)[unfolded s(1)]])
    with False z s(1) zs zr new show ?thesis by (auto simp: is_null_iff)
  qed
qed

text \<open>What \<open>bt_delete\<close> puts in the slot of the node it deletes.\<close>

fun spliced :: "'v btnode \<Rightarrow> 'v btnode \<Rightarrow> 'v btnode" where
  "spliced l NullNode = l"
| "spliced NullNode r = r"
| "spliced l r = (case slot_get (bt_min_slot r) r of
      NullNode \<Rightarrow> NullNode
    | Node dl dr dk dv \<Rightarrow> Node l (slot_set (bt_min_slot r) dr r) dk dv)"

lemma spliced_sound:
  assumes "bst (Node l r (Some s) v)"
  shows "bst (spliced l r) \<and> set (bt_keys (spliced l r)) = set (bt_keys l) \<union> set (bt_keys r)
    \<and> (\<forall>x. bt_map (spliced l r) x = (if x = s then None else bt_map (Node l r (Some s) v) x))"
proof (cases "l = NullNode \<or> r = NullNode")
  case True
  then have "spliced l r = (if r = NullNode then l else r)" by (cases r) auto
  moreover have "bt_map u x = None" if "x \<notin> set (bt_keys u)" for u :: "'a btnode" and x
    using that by (simp add: bt_map_None)
  ultimately show ?thesis
    using True assms by (auto simp: bt_map_search dest: less_imp_not_less)
next
  case False
  from assms have b: "bst l" "bst r" "\<forall>x \<in> set (bt_keys l). x < s"
    "\<forall>x \<in> set (bt_keys r). s < x" by auto
  let ?m = "bt_min_slot r"
  obtain dr z dv where z: "slot_get ?m r = Node NullNode dr (Some z) dv"
    "length z \<le> BT_KEY_MAX" "bst (slot_set ?m dr r)"
    "\<forall>x \<in> set (bt_keys (slot_set ?m dr r)). z < x"
    "set (bt_keys r) = insert z (set (bt_keys (slot_set ?m dr r)))"
    "bt_map r = (bt_map (slot_set ?m dr r))(z \<mapsto> dv)"
    using min_slot[OF b(2)] False by blast
  have sz: "s < z" using b(4) z(5) by blast
  then have lz: "x < z" if "x \<in> set (bt_keys l)" for x using b(3) that by force
  have eq: "spliced l r = Node l (slot_set ?m dr r) (Some z) dv"
    using False z(1) by (cases l; cases r) auto
  have new: "bst (Node l (slot_set ?m dr r) (Some z) dv)" using b z lz by auto
  have "bt_map (Node l (slot_set ?m dr r) (Some z) dv) x
      = (if x = s then None else bt_map (Node l r (Some s) v) x)" for x
  proof (cases x z rule: key_cases)
    case less
    have "x \<notin> set (bt_keys r)" using less z(4,5) by (auto dest: less_imp_not_less)
    then have "bt_map r x = None" by (simp add: bt_map_None)
    moreover have "bt_map l s = None" "s < x \<Longrightarrow> bt_map l x = None"
      using b(3) by (auto simp: bt_map_None dest: less_imp_not_less)
    ultimately show ?thesis
      using less by (cases x s rule: key_cases) (simp_all add: bt_map_search[OF new] bt_map_search[OF assms])
  next
    case eq
    then show ?thesis using sz z(6) by (auto simp: bt_map_search[OF new] bt_map_search[OF assms])
  next
    case greater
    have "s < x" using sz greater(1) by simp
    then show ?thesis
      using greater z(6) by (auto simp: bt_map_search[OF new] bt_map_search[OF assms])
  qed
  with eq new z(5) show ?thesis by auto
qed

lemma delete_present:
  assumes "bst (root tree)" "key \<in> set (bt_keys (root tree))"
  shows "\<exists>tree'. bt_delete tree key st = Inr (tree', 0, st) \<and> bst (root tree')
    \<and> bt_map (root tree') = (bt_map (root tree))(key := None)"
proof -
  let ?t = "root tree"
  obtain p l r v where p: "bt_find_node ?t key = Inr (Some p)"
    "slot_get p ?t = Node l r (Some key) v" "bst (Node l r (Some key) v)"
    "bt_map ?t key = Some v"
    using find_node_present[OF assms] by blast
  have nonnull: "?t \<noteq> NullNode" using assms(2) by auto
  let ?t' = "slot_set p (spliced l r) ?t"
  note sp = spliced_sound[OF p(3)]
  have "\<not> is_null l \<Longrightarrow> \<not> is_null r \<Longrightarrow>
    \<exists>dl dr s dv. slot_get (bt_min_slot r) r = Node dl dr (Some s) dv"
    using min_slot[of r] p(3) by (auto simp: is_null_iff)
  then have run: "bt_delete tree key st = Inr (tree\<lparr>root := ?t'\<rparr>, 0, st)"
    using p nonnull
    by (cases l; cases r)
      (auto simp: bt_delete_def num_children_def is_null_iff Let_def slot_get_append
        slot_set_append slot_get_set slot_set_twice)
  note R = slot_replace[OF assms(1) p(1), of "spliced l r"]
  have sub: "set (bt_keys (spliced l r)) \<subseteq> set (bt_keys (slot_get p ?t))"
    using sp p(2) by auto
  have same: "bst (slot_get p ?t)" using p(2,3) by simp
  have at: "bt_map (Node l r (Some key) v) x = bt_map ?t x"
    if "x \<in> set (bt_keys (slot_get p ?t))" for x
  proof -
    have "bt_map ?t x = bt_map (slot_get p ?t) x"
      using slot_replace[OF assms(1) p(1) same order.refl, THEN conjunct2, THEN conjunct2,
          THEN conjunct2, rule_format, of x] that
      by (simp only: slot_set_get if_True)
    then show ?thesis by (simp only: p(2))
  qed
  have "bt_map ?t' x = ((bt_map ?t)(key := None)) x" for x
  proof -
    have "bt_map ?t' x = (if x \<in> set (bt_keys (slot_get p ?t)) then bt_map (spliced l r) x
        else bt_map ?t x)"
      using R[OF conjunct1[OF sp] sub] by blast
    moreover have "x = key \<Longrightarrow> x \<in> set (bt_keys (slot_get p ?t))" by (simp add: p(2))
    ultimately show ?thesis using sp at[of x] by (auto split: if_splits)
  qed
  then have "bt_map ?t' = (bt_map ?t)(key := None)" by (rule ext)
  with run R[OF conjunct1[OF sp] sub] show ?thesis by (intro exI[of _ "tree\<lparr>root := ?t'\<rparr>"]) simp
qed

section \<open>The operations refine a finite map\<close>

fun holds_key :: "'v btnode \<Rightarrow> string \<Rightarrow> bool" where
  "holds_key NullNode key = False"
| "holds_key (Node l r k v) key = (k = Some key)"

lemma root_holds_key: "holds_key t key \<Longrightarrow> key \<in> set (bt_keys t)"
  by (cases t) auto

lemma child_cmp:
  assumes "bst u"
  shows "(case u of NullNode \<Rightarrow> Inr False
      | Node ul ur uk uv \<Rightarrow> bindC (key_cmp key uk) (\<lambda>c. Inr (c = 0))) = Inr (holds_key u key)"
  using assms by (cases u) (auto simp: key_cmp_def split: option.splits)

text \<open>
  \<open>bt_find_parent\<close> finds the node above the one that holds the key, and reports that there is
  none for the root's key and for a key that is not in the tree.
\<close>

lemma find_parent_step:
  assumes "bst (Node l r (Some s) w)"
  shows "bt_find_parent (Node l r (Some s) w) key =
    (if holds_key l key \<or> holds_key r key then Inr (Some [])
     else if key < s then (if l = NullNode then Inr None
       else bindC (bt_find_parent l key) (\<lambda>p. Inr (map_option (\<lambda>q. GoLeft # q) p)))
     else if s < key then (if r = NullNode then Inr None
       else bindC (bt_find_parent r key) (\<lambda>p. Inr (map_option (\<lambda>q. GoRight # q) p)))
     else Inr None)"
  using assms child_cmp[of l key] child_cmp[of r key]
  by (simp add: key_cmp_def is_null_iff)

lemma find_parent_absent:
  "bst t \<Longrightarrow> t \<noteq> NullNode \<Longrightarrow> key \<notin> set (bt_keys t) \<or> holds_key t key \<Longrightarrow>
    bt_find_parent t key = Inr None"
proof (induction t)
  case NullNode
  then show ?case by simp
next
  case (Node l r k w)
  from Node.prems(1) obtain s where s: "k = Some s" "length s \<le> BT_KEY_MAX" "bst l" "bst r"
    "\<forall>x \<in> set (bt_keys l). x < s" "\<forall>x \<in> set (bt_keys r). s < x" by (rule bst_NodeD)
  have notin: "key \<notin> set (bt_keys l)" "key \<notin> set (bt_keys r)" using Node.prems(3) s by auto
  with Node s show ?case
    by (auto simp: find_parent_step simp del: bt_find_parent.simps dest: root_holds_key)
qed

lemma find_parent_present:
  "bst t \<Longrightarrow> key \<in> set (bt_keys t) \<Longrightarrow> \<not> holds_key t key \<Longrightarrow>
    \<exists>p pl pr pk pv. bt_find_parent t key = Inr (Some p) \<and> slot_get p t = Node pl pr pk pv
      \<and> (holds_key pl key \<or> holds_key pr key)"
proof (induction t)
  case NullNode
  then show ?case by simp
next
  case (Node l r k w)
  from Node.prems(1) obtain s where s: "k = Some s" "length s \<le> BT_KEY_MAX" "bst l" "bst r"
    "\<forall>x \<in> set (bt_keys l). x < s" "\<forall>x \<in> set (bt_keys r). s < x" by (rule bst_NodeD)
  note step = find_parent_step[OF Node.prems(1)[unfolded s(1)], of key]
  show ?case
  proof (cases "holds_key l key \<or> holds_key r key")
    case True
    with step s(1) show ?thesis by (intro exI[of _ "[]"]) (simp del: bt_find_parent.simps)
  next
    case False
    show ?thesis
    proof (cases key s rule: key_cases)
      case less
      then have "key \<in> set (bt_keys l)" using Node.prems(2) s by auto
      moreover from this have "l \<noteq> NullNode" by auto
      ultimately obtain p pl pr pk pv where "bt_find_parent l key = Inr (Some p)"
        "slot_get p l = Node pl pr pk pv" "holds_key pl key \<or> holds_key pr key"
        using Node.IH(1)[OF s(3)] False by blast
      with less step s(1) False \<open>l \<noteq> NullNode\<close> show ?thesis
        by (intro exI[of _ "GoLeft # p"]) (simp del: bt_find_parent.simps)
    next
      case eq
      with Node.prems(3) s(1) show ?thesis by simp
    next
      case greater
      then have "key \<in> set (bt_keys r)" using Node.prems(2) s by auto
      moreover from this have "r \<noteq> NullNode" by auto
      ultimately obtain p pl pr pk pv where "bt_find_parent r key = Inr (Some p)"
        "slot_get p r = Node pl pr pk pv" "holds_key pl key \<or> holds_key pr key"
        using Node.IH(2)[OF s(4)] False by blast
      with greater step s(1) False \<open>r \<noteq> NullNode\<close> show ?thesis
        by (intro exI[of _ "GoRight # p"]) (simp del: bt_find_parent.simps)
    qed
  qed
qed

definition tree_map :: "'v BTree \<Rightarrow> string \<Rightarrow> 'v option" where
  "tree_map tree = bt_map (root tree)"

definition tree_ok :: "'v BTree \<Rightarrow> bool" where
  "tree_ok tree = bst (root tree)"

lemma tree_map_empty: "tree_ok tree \<Longrightarrow> tree_map tree = Map.empty \<longleftrightarrow> root tree = NullNode"
  by (cases "root tree") (auto simp: tree_map_def tree_ok_def bt_map.simps(2) split: option.splits)

lemma tree_map_SomeD: "tree_map tree key = Some v \<Longrightarrow> key \<in> set (bt_keys (root tree))"
  by (simp add: tree_map_def bt_map_dest)

text \<open>
  The interface the name server and the telnet server use: a table of strings with error codes.
  \<open>lookup\<close> of a missing key is an error only in an empty table; in any other it dereferences
  the null pointer that the search returns.
\<close>

locale string_table =
  fixes empty :: "'t"
    and add :: "'t \<Rightarrow> string \<Rightarrow> 'v \<Rightarrow> cstate \<Rightarrow> ('t \<times> int \<times> cstate) c"
    and lookup :: "'t \<Rightarrow> string \<Rightarrow> ('v option \<times> int) c"
    and delete :: "'t \<Rightarrow> string \<Rightarrow> cstate \<Rightarrow> ('t \<times> int \<times> cstate) c"
    and contents :: "'t \<Rightarrow> string \<Rightarrow> 'v option"
    and ok :: "'t \<Rightarrow> bool"
    and max_key :: nat
  assumes empty_ok: "ok empty"
    and empty_contents: "contents empty = Map.empty"
    and add_absent: "ok t \<Longrightarrow> contents t k = None \<Longrightarrow> length k \<le> max_key \<Longrightarrow> no_alloc_failure st \<Longrightarrow>
      \<exists>t' st'. add t k v st = Inr (t', 0, st') \<and> ok t' \<and> contents t' = (contents t)(k \<mapsto> v)
        \<and> no_alloc_failure st' \<and> cerrno st' = cerrno st"
    and add_present: "ok t \<Longrightarrow> contents t k = Some w \<Longrightarrow>
      add t k v st = Inr (t, -1, st\<lparr>cerrno := EINVAL\<rparr>)"
    and lookup_present: "ok t \<Longrightarrow> contents t k = Some v \<Longrightarrow> lookup t k = Inr (Some v, 0)"
    and lookup_absent: "ok t \<Longrightarrow> contents t k = None \<Longrightarrow>
      lookup t k = (if contents t = Map.empty then Inr (None, -1) else Inl Null_deref)"
    and delete_present: "ok t \<Longrightarrow> contents t k = Some v \<Longrightarrow>
      \<exists>t'. delete t k st = Inr (t', 0, st) \<and> ok t' \<and> contents t' = (contents t)(k := None)"
    and delete_absent: "ok t \<Longrightarrow> contents t k = None \<Longrightarrow>
      \<exists>e. delete t k st = Inr (t, -1, st\<lparr>cerrno := e\<rparr>)"
begin

lemma add_then_lookup:
  assumes "ok t" "contents t k = None" "length k \<le> max_key" "no_alloc_failure st"
  shows "bindC (add t k v st) (\<lambda>(t', rc, st'). lookup t' k) = Inr (Some v, 0)"
proof -
  obtain t' st' where "add t k v st = Inr (t', 0, st')" "ok t'"
    "contents t' = (contents t)(k \<mapsto> v)"
    using add_absent[OF assms] by blast
  then show ?thesis using lookup_present[of t' k v] by simp
qed

lemma add_frame:
  assumes "ok t" "contents t k = None" "length k \<le> max_key" "no_alloc_failure st"
    "j \<noteq> k" "contents t j = Some w"
  shows "bindC (add t k v st) (\<lambda>(t', rc, st'). lookup t' j) = lookup t j"
proof -
  obtain t' st' where "add t k v st = Inr (t', 0, st')" "ok t'"
    "contents t' = (contents t)(k \<mapsto> v)"
    using add_absent[OF assms(1-4)] by blast
  then show ?thesis using lookup_present[of t' j w] lookup_present[of t j w] assms by simp
qed

lemma add_then_delete:
  assumes "ok t" "contents t k = None" "length k \<le> max_key" "no_alloc_failure st"
  shows "\<exists>t' st'. bindC (add t k v st) (\<lambda>(t1, rc, st1). delete t1 k st1) = Inr (t', 0, st')
    \<and> ok t' \<and> contents t' = contents t"
proof -
  obtain t1 st1 where t1: "add t k v st = Inr (t1, 0, st1)" "ok t1"
    "contents t1 = (contents t)(k \<mapsto> v)"
    using add_absent[OF assms] by blast
  then obtain t' where "delete t1 k st1 = Inr (t', 0, st1)" "ok t'"
    "contents t' = (contents t1)(k := None)"
    using delete_present[of t1 k v st1] by auto
  with t1 assms(2) show ?thesis by (auto simp: fun_upd_idem)
qed

lemma delete_total: "ok t \<Longrightarrow> \<exists>t' rc st'. delete t k st = Inr (t', rc, st') \<and> ok t'
    \<and> contents t' = (contents t)(k := None) \<and> (rc = 0 \<longleftrightarrow> contents t k \<noteq> None)"
  using delete_absent[of t k st] delete_present[of t k _ st]
  by (cases "contents t k") (auto simp: fun_upd_idem)

end

lemma tree_add_absent:
  assumes "tree_ok tree" "tree_map tree key = None" "length key \<le> BT_KEY_MAX" "no_alloc_failure st"
  shows "\<exists>tree' st'. bt_add tree key v st = Inr (tree', 0, st') \<and> tree_ok tree'
    \<and> tree_map tree' = (tree_map tree)(key \<mapsto> v) \<and> no_alloc_failure st'
    \<and> cerrno st' = cerrno st"
proof -
  have absent: "key \<notin> set (bt_keys (root tree))"
    using assms(2) by (simp add: tree_map_def bt_map_None)
  show ?thesis
  proof (cases "root tree = NullNode")
    case True
    then show ?thesis
      using create_node_ok[OF assms(4,3), of v] assms(3)
      by (auto simp: bt_add_def tree_ok_def tree_map_def bt_map.simps(2))
  next
    case False
    then show ?thesis
      using add_rec_absent[OF _ False absent assms(4,3), of v] assms(1)
      by (auto simp: bt_add_def tree_ok_def tree_map_def is_null_iff)
  qed
qed

lemma tree_add_present:
  assumes "tree_ok tree" "tree_map tree key = Some w"
  shows "bt_add tree key v st = Inr (tree, -1, st\<lparr>cerrno := EINVAL\<rparr>)"
proof -
  have "key \<in> set (bt_keys (root tree))" by (rule tree_map_SomeD[OF assms(2)])
  moreover from this have "root tree \<noteq> NullNode" by auto
  ultimately show ?thesis
    using assms(1) by (simp add: bt_add_def add_rec_present tree_ok_def is_null_iff)
qed

lemma tree_lookup:
  assumes "tree_ok tree"
  shows "bt_lookup tree key = (case tree_map tree key of
      Some v \<Rightarrow> Inr (Some v, 0)
    | None \<Rightarrow> if root tree = NullNode then Inr (None, -1) else Inl Null_deref)"
proof (cases "tree_map tree key")
  case None
  then have "key \<notin> set (bt_keys (root tree))" by (simp add: tree_map_def bt_map_None)
  then show ?thesis
    using assms find_node_absent[of "root tree" key] None
    by (auto simp: bt_lookup_def tree_map_def tree_ok_def is_null_iff)
next
  case (Some v)
  have "key \<in> set (bt_keys (root tree))" by (rule tree_map_SomeD[OF Some])
  then show ?thesis
    using assms find_node_present[of "root tree" key] Some
    by (auto simp: bt_lookup_def tree_map_def tree_ok_def is_null_iff)
qed

lemma tree_delete_absent:
  assumes "tree_ok tree" "tree_map tree key = None"
  shows "bt_delete tree key st
    = Inr (tree, -1, if root tree = NullNode then st else st\<lparr>cerrno := EINVAL\<rparr>)"
  using assms find_node_absent[of "root tree" key]
  by (auto simp: bt_delete_def tree_map_def tree_ok_def bt_map_None is_null_iff)

lemma tree_delete_present:
  assumes "tree_ok tree" "tree_map tree key = Some v"
  shows "\<exists>tree'. bt_delete tree key st = Inr (tree', 0, st) \<and> tree_ok tree'
    \<and> tree_map tree' = (tree_map tree)(key := None)"
  using delete_present[of tree key st] assms tree_map_SomeD[OF assms(2)]
  by (auto simp: tree_ok_def tree_map_def)

interpretation bt: string_table bt_initialize bt_add bt_lookup bt_delete tree_map tree_ok BT_KEY_MAX
proof unfold_locales
  show "tree_ok bt_initialize" "tree_map bt_initialize = Map.empty"
    by (simp_all add: bt_initialize_def tree_ok_def tree_map_def)
  show "\<exists>e. bt_delete t k st = Inr (t, -1, st\<lparr>cerrno := e\<rparr>)"
    if "tree_ok t" "tree_map t k = None" for t :: "'a BTree" and k st
    using tree_delete_absent[OF that, of st] by (cases "root t = NullNode") (auto intro: exI[of _ "cerrno st"])
qed (auto simp: tree_add_absent tree_add_present tree_lookup tree_map_empty tree_delete_present)

section \<open>Freeing and printing\<close>

fun bt_size :: "'v btnode \<Rightarrow> nat" where
  "bt_size NullNode = 0"
| "bt_size (Node l r k v) = Suc (bt_size l + bt_size r)"

lemma length_free_rec: "length (bt_free_rec t) = bt_size t"
  by (induction t) auto

lemma free_rec_entries: "bst t \<Longrightarrow> (Some x, v) \<in> set (bt_free_rec t) \<longleftrightarrow> bt_map t x = Some v"
proof (induction t)
  case NullNode
  then show ?case by simp
next
  case (Node l r k w)
  from Node.prems obtain s where s: "k = Some s" "length s \<le> BT_KEY_MAX" "bst l" "bst r"
    "\<forall>x \<in> set (bt_keys l). x < s" "\<forall>x \<in> set (bt_keys r). s < x" by (rule bst_NodeD)
  have "bt_map l y = Some v \<Longrightarrow> y < s" "bt_map r y = Some v \<Longrightarrow> s < y" for y v
    using s(5,6) bt_map_dest by fast+
  then show ?case
    using Node.IH s(3,4) unfolding s(1) bt_map_search[OF Node.prems[unfolded s(1)]]
    by (cases x s rule: key_cases) auto
qed

lemma print_rec_total:
  "bst t \<Longrightarrow> t \<noteq> NullNode \<Longrightarrow> no_alloc_failure st \<Longrightarrow>
    \<exists>out st'. bt_print_rec t tr sp st = Inr (out, st') \<and> no_alloc_failure st' \<and> cerrno st' = cerrno st"
proof (induction t arbitrary: tr sp st)
  case NullNode
  then show ?case by simp
next
  case (Node l r k w)
  from Node.prems(1) obtain s where s: "k = Some s" "length s \<le> BT_KEY_MAX" "bst l" "bst r"
    "\<forall>x \<in> set (bt_keys l). x < s" "\<forall>x \<in> set (bt_keys r). s < x" by (rule bst_NodeD)
  obtain st0 where st0: "(if tr = LEFT_TRAVERSAL then malloc_ok st else (True, st)) = (True, st0)"
    "no_alloc_failure st0" "cerrno st0 = cerrno st"
    using malloc_ok_succeeds[OF Node.prems(3)] Node.prems(3) by (cases "tr = LEFT_TRAVERSAL") auto
  obtain out1 st1 where 1: "(if is_null r then Inr ([], st0)
      else bt_print_rec r RIGHT_TRAVERSAL (sp + length (key_box s)) st0) = Inr (out1, st1)"
    "no_alloc_failure st1" "cerrno st1 = cerrno st"
    using Node.IH(2)[OF s(4) _ st0(2), of RIGHT_TRAVERSAL "sp + length (key_box s)"] st0
    by (cases "r = NullNode") (auto simp: is_null_iff)
  obtain out2 st2 where "(if is_null l then Inr ([], st1)
      else bt_print_rec l LEFT_TRAVERSAL sp st1) = Inr (out2, st2)"
    "no_alloc_failure st2" "cerrno st2 = cerrno st"
    using Node.IH(1)[OF s(3) _ 1(2), of LEFT_TRAVERSAL sp] 1
    by (cases "l = NullNode") (auto simp: is_null_iff)
  with st0 1 show ?case by (simp add: s(1))
qed

section \<open>Properties\<close>

definition demo_tree :: "int BTree" where
  \<comment> \<open>the keys m, c, t, e added in this order\<close>
  "demo_tree = \<lparr>root = Node
     (Node NullNode (Node NullNode NullNode (Some ''e'') 4) (Some ''c'') 2)
     (Node NullNode NullNode (Some ''t'') 3) (Some ''m'') 1\<rparr>"

lemma demo_tree_ok: "tree_ok demo_tree"
  by (simp add: demo_tree_def tree_ok_def BT_KEY_MAX_def)

lemma demo_tree_map: "tree_map demo_tree k
  = (if k = ''m'' then Some 1 else if k = ''c'' then Some 2 else if k = ''t'' then Some 3
     else if k = ''e'' then Some 4 else None)"
  by (simp add: demo_tree_def tree_map_def bt_map.simps(2))

text \<open>C1: \<open>bt_add\<close> is insertion into a finite map on every branch: a new key of at most
  \<open>BT_KEY_MAX\<close> characters is added, the search tree stays one and \<open>errno\<close> is untouched; a key
  that is there leaves the tree as it is, with -1 and \<open>EINVAL\<close>.\<close>

theorem bt_add_is_map_update:
  assumes "tree_ok tree" "length key \<le> BT_KEY_MAX" "no_alloc_failure st"
  shows "\<exists>tree' rc st'. bt_add tree key v st = Inr (tree', rc, st') \<and> tree_ok tree'
    \<and> (if tree_map tree key = None
       then rc = 0 \<and> tree_map tree' = (tree_map tree)(key \<mapsto> v) \<and> cerrno st' = cerrno st
       else rc = -1 \<and> tree' = tree \<and> cerrno st' = EINVAL)"
proof (cases "tree_map tree key")
  case None
  then show ?thesis using bt.add_absent[OF assms(1) None assms(2,3), of v] by auto
next
  case (Some w)
  then show ?thesis using bt.add_present[OF assms(1) Some, of v st] assms(1) by simp
qed

lemma bt_add_is_map_update_witness:
  "\<exists>tree' rc st'. bt_add demo_tree ''k'' 7 \<lparr>allocs = [True], cerrno = 0\<rparr> = Inr (tree', rc, st')
    \<and> tree_ok tree' \<and> rc = 0 \<and> tree_map tree' = (tree_map demo_tree)(''k'' \<mapsto> 7) \<and> cerrno st' = 0"
  using bt_add_is_map_update[OF demo_tree_ok, of "''k''" "\<lparr>allocs = [True], cerrno = 0\<rparr>" 7]
  by (simp add: BT_KEY_MAX_def no_alloc_failure_def demo_tree_map)

text \<open>C2: \<open>bt_delete\<close> never faults on a search tree and is deletion from the map in all three of
  its cases (leaf, one child, two children): the key is gone, every other binding stays, the tree
  stays a search tree, and the return code says whether the key was there.\<close>

theorem bt_delete_is_map_delete:
  assumes "tree_ok tree"
  shows "\<exists>tree' rc st'. bt_delete tree key st = Inr (tree', rc, st') \<and> tree_ok tree'
    \<and> tree_map tree' = (tree_map tree)(key := None) \<and> (rc = 0 \<longleftrightarrow> tree_map tree key \<noteq> None)"
  by (rule bt.delete_total[OF assms])

lemma bt_delete_is_map_delete_witness:
  "\<exists>tree' rc st'. bt_delete demo_tree ''m'' \<lparr>allocs = [], cerrno = 0\<rparr> = Inr (tree', rc, st')
    \<and> tree_ok tree' \<and> tree_map tree' = (tree_map demo_tree)(''m'' := None) \<and> rc = 0"
  using bt_delete_is_map_delete[OF demo_tree_ok, of "''m''" "\<lparr>allocs = [], cerrno = 0\<rparr>"]
  by (simp add: demo_tree_map)

text \<open>\<open>bt_lookup\<close> gives the value of a key that is there; a missing key is reported with -1 in
  an empty tree and dereferences a null pointer in any other.\<close>

theorem bt_lookup_cases:
  assumes "tree_ok tree"
  shows "bt_lookup tree key = (case tree_map tree key of
      Some v \<Rightarrow> Inr (Some v, 0)
    | None \<Rightarrow> if tree_map tree = Map.empty then Inr (None, -1) else Inl Null_deref)"
  using bt.lookup_present[OF assms] bt.lookup_absent[OF assms]
  by (cases "tree_map tree key") auto

lemma bt_lookup_cases_witness:
  "bt_lookup demo_tree ''e'' = Inr (Some 4, 0) \<and> bt_lookup demo_tree ''x'' = Inl Null_deref"
proof -
  have "tree_map demo_tree ''m'' \<noteq> None" by (simp add: demo_tree_map)
  then have "tree_map demo_tree \<noteq> Map.empty" by auto
  then show ?thesis
    using bt_lookup_cases[OF demo_tree_ok, of "''e''"] bt_lookup_cases[OF demo_tree_ok, of "''x''"]
    by (simp add: demo_tree_map)
qed

text \<open>\<open>bt_find_parent\<close> finds the parent: for every key below the root it gives the slot of the
  node one of whose children holds the key, for the root's own key and for a key that is not in
  the tree it gives null.\<close>

theorem bt_find_parent_sound:
  assumes "bst t" "t \<noteq> NullNode"
  shows "if key \<in> set (bt_keys t) \<and> \<not> holds_key t key
    then \<exists>p l r k v. bt_find_parent t key = Inr (Some p) \<and> slot_get p t = Node l r k v
           \<and> (holds_key l key \<or> holds_key r key)
    else bt_find_parent t key = Inr None"
  using find_parent_absent[OF assms, of key] find_parent_present[OF assms(1), of key] by auto

lemma bt_find_parent_sound_witness:
  "\<exists>p l r k v. bt_find_parent (root demo_tree) ''e'' = Inr (Some p)
    \<and> slot_get p (root demo_tree) = Node l r k v \<and> (holds_key l ''e'' \<or> holds_key r ''e'')"
  using bt_find_parent_sound[of "root demo_tree" "''e''"] demo_tree_ok
  by (simp add: tree_ok_def demo_tree_def)

text \<open>\<open>bt_free\<close> leaves a null root and frees every binding exactly once: as many nodes as the
  tree has, with exactly the bindings of the map.\<close>

theorem bt_free_frees_all:
  assumes "tree_ok tree"
  shows "root (fst (bt_free tree)) = NullNode
    \<and> length (snd (bt_free tree)) = bt_size (root tree)
    \<and> ((Some x, v) \<in> set (snd (bt_free tree)) \<longleftrightarrow> tree_map tree x = Some v)"
  using assms free_rec_entries[of "root tree" x v]
  by (auto simp: bt_free_def length_free_rec is_null_iff tree_ok_def tree_map_def)

lemma bt_free_frees_all_witness:
  "root (fst (bt_free demo_tree)) = NullNode \<and> length (snd (bt_free demo_tree)) = 4
    \<and> (Some ''e'', 4) \<in> set (snd (bt_free demo_tree))"
  using bt_free_frees_all[OF demo_tree_ok, of "''e''" 4]
  by (simp add: demo_tree_map) (simp add: demo_tree_def)

end
