(* ===== verification/DynArray.thy ===== *)
theory DynArray
  imports Prelude
begin

text \<open>
  \<open>lib/dynamic_array.c\<close>: a growable array of elements of \<open>dataSize\<close> bytes. The block is a list of
  bytes, \<open>None\<close> where nothing has been written; the sizes are \<open>size_t\<close>, so their products wrap. A
  pointer into the block is its byte offset. The abstraction \<open>da_elems\<close> is the list of elements.
\<close>

section \<open>Memory blocks\<close>

type_synonym byte = "8 word"
type_synonym block = "byte option list"
type_synonym size_t = "64 word"

definition malloc_block :: "size_t \<Rightarrow> cstate \<Rightarrow> block option \<times> cstate" where
  "malloc_block n st = (let (ok, st') = malloc_ok st in
     (if ok then Some (replicate (unat n) None) else None, st'))"

definition realloc_block :: "block option \<Rightarrow> size_t \<Rightarrow> cstate \<Rightarrow> block option \<times> cstate" where
  \<comment> \<open>a new block with the old bytes, as far as they fit; \<open>None\<close> leaves the old block alone\<close>
  "realloc_block old n st = (let (ok, st') = malloc_ok st; bytes = (case old of None \<Rightarrow> [] | Some b \<Rightarrow> b) in
     (if ok then Some (take (unat n) bytes @ replicate (unat n - length bytes) None) else None, st'))"

definition mem_write :: "block \<Rightarrow> nat \<Rightarrow> byte option list \<Rightarrow> block c" where
  "mem_write b off bs =
     (if off + length bs \<le> length b then Inr (take off b @ bs @ drop (off + length bs) b)
      else Inl Buffer_overflow)"

definition mem_read :: "block \<Rightarrow> nat \<Rightarrow> nat \<Rightarrow> byte option list c" where
  "mem_read b off n = (if off + n \<le> length b then Inr (take n (drop off b)) else Inl Out_of_bounds)"

section \<open>The array\<close>

record DynArray =
  data :: "block option"
  size :: size_t
  capacity :: size_t
  dataSize :: size_t

definition da_init :: "size_t \<Rightarrow> size_t \<Rightarrow> DynArray \<Rightarrow> cstate \<Rightarrow> DynArray \<times> int \<times> cstate" where
  "da_init sz dsize arr st =
     (if dsize = 0 then (arr, -1, st)
      else let (b, st') = malloc_block (sz * dsize) st in
        (arr\<lparr>size := sz, dataSize := dsize, capacity := sz, data := b\<rparr>,
         if b = None then 1 else 0, st'))"

definition da_reserve :: "DynArray \<Rightarrow> size_t \<Rightarrow> cstate \<Rightarrow> DynArray \<times> int \<times> cstate" where
  "da_reserve arr cap st =
     (if cap \<le> capacity arr then (arr, 0, st)
      else let (temp, st') = realloc_block (data arr) (cap * dataSize arr) st in
        if temp = None then (arr, -1, st')
        else (arr\<lparr>data := temp, capacity := cap\<rparr>, 1, st'))"

definition da_free :: "DynArray \<Rightarrow> DynArray" where
  \<comment> \<open>the block is released, the fields keep their values\<close>
  "da_free arr = arr"

definition da_detach :: "DynArray \<Rightarrow> DynArray \<times> block option" where
  "da_detach arr = (arr\<lparr>data := None, size := 0, capacity := 0, dataSize := 0\<rparr>, data arr)"

definition da_get :: "DynArray \<Rightarrow> size_t \<Rightarrow> size_t" where
  "da_get arr index = index * dataSize arr"

definition da_back :: "DynArray \<Rightarrow> size_t" where
  "da_back arr = (size arr - 1) * dataSize arr"

definition da_push :: "DynArray \<Rightarrow> cstate \<Rightarrow> DynArray \<times> size_t option \<times> cstate" where
  \<comment> \<open>the new array and the pointer to its new last element\<close>
  "da_push arr st =
     (if capacity arr \<le> size arr then
        let cap = (if capacity arr = 0 then 1 else capacity arr * 2);
            (temp, st') = realloc_block (data arr) (cap * dataSize arr) st in
        if temp = None then (arr, None, st')
        else let arr' = arr\<lparr>capacity := cap, data := temp, size := size arr + 1\<rparr> in
          (arr', Some (da_get arr' (size arr' - 1)), st')
      else let arr' = arr\<lparr>size := size arr + 1\<rparr> in
        (arr', Some (da_get arr' (size arr' - 1)), st))"

definition da_pop :: "DynArray \<Rightarrow> DynArray \<times> int" where
  "da_pop arr = (if size arr < 1 then (arr, -1) else (arr\<lparr>size := size arr - 1\<rparr>, 1))"

definition da_clear :: "DynArray \<Rightarrow> cstate \<Rightarrow> DynArray \<times> int \<times> cstate" where
  "da_clear arr st =
     (let arr' = (da_free arr)\<lparr>size := 0, capacity := 0\<rparr>;
          (b, st') = malloc_block (size arr' * dataSize arr') st in
      (arr'\<lparr>data := b\<rparr>, if b = None then -1 else 0, st'))"

text \<open>
  The loop of \<open>da_reverse\<close> counts a \<open>size_t\<close> down and stops when its \<open>int\<close> is negative, that is
  when it has wrapped past zero (or when its bit 31 is set).
\<close>

definition int_of_size :: "size_t \<Rightarrow> int" where
  "int_of_size i = signed_take_bit 31 (uint i)"

lemma int_of_size_wrapped: "i = - 1 \<Longrightarrow> int_of_size i < 0"
  by (simp add: int_of_size_def unsigned_minus_1_eq_mask bit_mask_iff)

function da_reverse_loop :: "block \<Rightarrow> size_t \<Rightarrow> size_t \<Rightarrow> size_t \<Rightarrow> block \<Rightarrow> block c" where
  "da_reverse_loop old dsize i y new =
     (if 0 \<le> int_of_size i then
        bindC (mem_read old (unat (i * dsize)) (unat dsize)) (\<lambda>element.
          bindC (mem_write new (unat (y * dsize)) element) (\<lambda>new'.
            da_reverse_loop old dsize (i - 1) (y + 1) new'))
      else Inr new)"
  by pat_completeness auto
termination
proof (relation "measure (\<lambda>(old, dsize, i, y, new). if i = - 1 then 0 else Suc (unat i))")
  fix old dsize i y new element new'
  assume "0 \<le> int_of_size i"
  then have "i \<noteq> - 1" using int_of_size_wrapped[of i] by auto
  moreover have "i \<noteq> 0 \<Longrightarrow> unat (i - 1) < unat i" by (simp add: unat_minus_one unat_gt_0)
  ultimately show "((old, dsize, i - 1, y + 1, new'), (old, dsize, i, y, new))
      \<in> measure (\<lambda>(old, dsize, i, y, new). if i = - 1 then 0 else Suc (unat i))"
    by auto
qed simp

declare da_reverse_loop.simps [simp del]

definition da_reverse :: "DynArray \<Rightarrow> cstate \<Rightarrow> (DynArray \<times> int \<times> cstate) c" where
  "da_reverse arr st =
     (if size arr = 0 then Inr (arr, -1, st)
      else let (b, st') = malloc_block (capacity arr * dataSize arr) st in
        case b of
          None \<Rightarrow> Inr (arr, -1, st')
        | Some newData \<Rightarrow> (case data arr of
              None \<Rightarrow> Inl Null_deref
            | Some old \<Rightarrow>
                bindC (da_reverse_loop old (dataSize arr) (size arr - 1) 0 newData)
                  (\<lambda>new. Inr (arr\<lparr>data := Some new\<rparr>, 1, st'))))"

definition read_int :: "block \<Rightarrow> nat \<Rightarrow> int c" where
  \<comment> \<open>the little-endian \<open>int\<close> at an offset\<close>
  "read_int b off = bindC (mem_read b off 4) (\<lambda>bs.
     if None \<in> set bs then Inl Uninitialised
     else Inr (signed_take_bit 31 (\<Sum>i<4. uint (the (bs ! i)) * 256 ^ i)))"

fun da_max_loop :: "block \<Rightarrow> nat \<Rightarrow> nat \<Rightarrow> int \<Rightarrow> int c" where
  "da_max_loop b i 0 m = Inr m"
| "da_max_loop b i (Suc n) m =
     bindC (read_int b (4 * i)) (\<lambda>e. da_max_loop b (Suc i) n (if m < e then e else m))"

definition da_intMax :: "DynArray \<Rightarrow> int c" where
  "da_intMax arr = (if size arr = 0 then Inr INT_MIN
     else case data arr of None \<Rightarrow> Inl Null_deref
       | Some b \<Rightarrow> da_max_loop b 0 (unat (size arr)) INT_MIN)"

text \<open>\<open>int_asc\<close> is given the addresses of two elements; it subtracts them as they are.\<close>

definition int_asc :: "int \<Rightarrow> int \<Rightarrow> int" where
  "int_asc elem0 elem1 = to_int32 ((elem0 - elem1) div 4)"

section \<open>Abstraction and invariant\<close>

definition seg :: "nat \<Rightarrow> block \<Rightarrow> nat \<Rightarrow> block" where
  \<comment> \<open>the bytes of element \<open>i\<close>\<close>
  "seg d b i = take d (drop (i * d) b)"

definition da_elems :: "DynArray \<Rightarrow> block list" where
  "da_elems arr = (case data arr of None \<Rightarrow> []
     | Some b \<Rightarrow> map (seg (unat (dataSize arr)) b) [0..<unat (size arr)])"

definition da_ok :: "DynArray \<Rightarrow> bool" where
  "da_ok arr = (case data arr of None \<Rightarrow> False
     | Some b \<Rightarrow> length b = unat (capacity arr) * unat (dataSize arr) \<and> 0 < unat (dataSize arr)
         \<and> unat (size arr) \<le> unat (capacity arr) \<and> length b < 2 ^ 64)"

definition da_room :: "DynArray \<Rightarrow> bool" where
  \<comment> \<open>doubling the block does not wrap around\<close>
  "da_room arr = (2 * unat (capacity arr) * unat (dataSize arr) < 2 ^ 64)"

lemma da_okE:
  assumes "da_ok arr"
  obtains b where "data arr = Some b" "length b = unat (capacity arr) * unat (dataSize arr)"
    "0 < unat (dataSize arr)" "unat (size arr) \<le> unat (capacity arr)" "length b < 2 ^ 64"
  using assms by (auto simp: da_ok_def split: option.splits)

lemma unat_mult_exact: "unat (a :: size_t) * unat b < 2 ^ 64 \<Longrightarrow> unat (a * b) = unat a * unat b"
  by (simp add: unat_word_ariths)

lemma unat_add_one: "unat (a :: size_t) < unat (b :: size_t) \<Longrightarrow> unat (a + 1) = Suc (unat a)"
proof -
  assume "unat a < unat b"
  moreover have "unat b < 2 ^ 64" using unsigned_less[of b] by simp
  ultimately have "unat a + 1 < 2 ^ 64" by linarith
  then show ?thesis by (simp add: unat_word_ariths)
qed

lemma seg_bounds: "i < n \<Longrightarrow> i * d + d \<le> n * (d :: nat)"
  by (metis Suc_leI add.commute mult_Suc mult_le_mono1)

lemma seg_prefix:
  assumes "take (n * d) c = take (n * d) b" "n * d \<le> length b" "n * d \<le> length c" "i < n"
  shows "seg d c i = seg d b i"
proof -
  have le: "i * d + d \<le> n * d" by (rule seg_bounds[OF assms(4)])
  have "seg d x i = take d (drop (i * d) (take (n * d) x))" for x :: block
    using le by (simp add: seg_def drop_take min_def)
  then show ?thesis using assms(1) by metis
qed

lemma seg_write_same:
  "n * d + d \<le> length b \<Longrightarrow> length bs = d \<Longrightarrow>
    seg d (take (n * d) b @ bs @ drop (n * d + d) b) n = bs"
  by (simp add: seg_def)

lemma map_seg_prefix:
  assumes "take (n * d) c = take (n * d) b" "n * d \<le> length b" "n * d \<le> length c"
  shows "map (seg d c) [0..<n] = map (seg d b) [0..<n]"
  using seg_prefix[OF assms] by simp

section \<open>Appending\<close>

text \<open>What a client does: it asks for a new element and writes its bytes through the pointer.\<close>

definition da_append :: "DynArray \<Rightarrow> block \<Rightarrow> cstate \<Rightarrow> (DynArray \<times> cstate) c" where
  "da_append arr bs st = (case da_push arr st of
      (arr', None, st') \<Rightarrow> Inl Null_deref
    | (arr', Some off, st') \<Rightarrow> (case data arr' of None \<Rightarrow> Inl Null_deref
        | Some b \<Rightarrow> bindC (mem_write b (unat off) bs) (\<lambda>b'. Inr (arr'\<lparr>data := Some b'\<rparr>, st'))))"

lemma realloc_block_succeeds:
  assumes "no_alloc_failure st"
  shows "\<exists>st'. realloc_block (Some b) n st
      = (Some (take (unat n) b @ replicate (unat n - length b) None), st') \<and> no_alloc_failure st'"
  using malloc_ok_succeeds[OF assms] by (auto simp: realloc_block_def)

lemma da_push_grows:
  assumes ok: "da_ok arr" and room: "da_room arr" and st: "no_alloc_failure st"
    "unat (dataSize arr) < 2 ^ 63"
  shows "\<exists>arr' st' b b'. da_push arr st = (arr', Some (size arr * dataSize arr), st')
    \<and> da_ok arr' \<and> data arr = Some b \<and> data arr' = Some b' \<and> size arr' = size arr + 1
    \<and> dataSize arr' = dataSize arr \<and> no_alloc_failure st' \<and> unat (size arr) < unat (capacity arr')
    \<and> take (length b) b' = b \<and> length b \<le> length b'"
proof -
  from ok obtain b where b: "data arr = Some b"
    "length b = unat (capacity arr) * unat (dataSize arr)" "0 < unat (dataSize arr)"
    "unat (size arr) \<le> unat (capacity arr)" "length b < 2 ^ 64" by (rule da_okE)
  show ?thesis
  proof (cases "capacity arr \<le> size arr")
    case False
    then have less: "unat (size arr) < unat (capacity arr)" by (simp add: word_le_nat_alt)
    then show ?thesis
      using b st False unat_add_one[OF less]
      by (auto simp: da_push_def da_get_def da_ok_def Let_def)
  next
    case True
    define cap where "cap = (if capacity arr = 0 then 1 else capacity arr * 2)"
    have two: "unat (capacity arr) * 2 < 2 ^ 64" if "capacity arr \<noteq> 0"
    proof -
      have "unat (capacity arr) * 2 \<le> 2 * unat (capacity arr) * unat (dataSize arr)"
        using b(3) by simp
      then show ?thesis using room unfolding da_room_def by linarith
    qed
    have ucap: "unat cap = (if capacity arr = 0 then 1 else 2 * unat (capacity arr))"
      using two by (simp add: cap_def unat_word_ariths)
    have bytes: "unat cap * unat (dataSize arr) < 2 ^ 64"
      using room st(2) ucap by (auto simp: da_room_def)
    have less: "unat (size arr) < unat cap"
    proof (cases "capacity arr = 0")
      case True
      with b(4) ucap show ?thesis by simp
    next
      case False
      then have "0 < unat (capacity arr)" by (simp add: unat_gt_0)
      with False b(4) ucap show ?thesis by simp
    qed
    have grow: "length b \<le> unat cap * unat (dataSize arr)" using ucap b(2) by simp
    obtain st' where r: "realloc_block (data arr) (cap * dataSize arr) st
      = (Some (take (unat cap * unat (dataSize arr)) b
          @ replicate (unat cap * unat (dataSize arr) - length b) None), st')" "no_alloc_failure st'"
      using realloc_block_succeeds[OF st(1), of b "cap * dataSize arr"] b(1)
      by (auto simp: unat_mult_exact[OF bytes])
    then show ?thesis
      using True b unat_add_one[OF less] less bytes grow
      by (auto simp: da_push_def da_get_def da_ok_def Let_def cap_def[symmetric])
  qed
qed

lemma da_append_elems:
  assumes "da_ok arr" "da_room arr" "no_alloc_failure st" "unat (dataSize arr) < 2 ^ 63"
    and len: "length bs = unat (dataSize arr)"
  shows "\<exists>arr' st'. da_append arr bs st = Inr (arr', st') \<and> da_ok arr'
    \<and> da_elems arr' = da_elems arr @ [bs] \<and> no_alloc_failure st' \<and> dataSize arr' = dataSize arr"
proof -
  from da_push_grows[OF assms(1-4)] obtain arr' st' b b'
    where p: "da_push arr st = (arr', Some (size arr * dataSize arr), st')" "da_ok arr'"
    "data arr = Some b" "data arr' = Some b'" "size arr' = size arr + 1"
    "dataSize arr' = dataSize arr" "no_alloc_failure st'" "unat (size arr) < unat (capacity arr')"
    "take (length b) b' = b" "length b \<le> length b'" by blast
  let ?n = "unat (size arr)" and ?d = "unat (dataSize arr)"
  from assms(1) p(3) have b: "length b = unat (capacity arr) * ?d" "?n \<le> unat (capacity arr)"
    by (auto simp: da_ok_def)
  from p(2,4,6) have b': "length b' = unat (capacity arr') * ?d" "length b' < 2 ^ 64"
    by (auto simp: da_ok_def)
  have nd: "?n * ?d + ?d \<le> length b'" using seg_bounds[OF p(8), of ?d] b'(1) by simp
  then have off: "unat (size arr * dataSize arr) = ?n * ?d"
    using b'(2) by (intro unat_mult_exact) simp
  let ?new = "take (?n * ?d) b' @ bs @ drop (?n * ?d + ?d) b'"
  have w: "mem_write b' (?n * ?d) bs = Inr ?new" using nd len by (simp add: mem_write_def)
  have nb: "?n * ?d \<le> length b" using b by simp
  have sz: "unat (size arr + 1) = Suc ?n" by (rule unat_add_one[OF p(8)])
  have "take (?n * ?d) b' = take (?n * ?d) b"
    using nb p(9) by (metis min.absorb1 take_take)
  then have "map (seg ?d ?new) [0..<?n] = map (seg ?d b) [0..<?n]"
    using nb nd by (intro map_seg_prefix) (auto simp: min_def)
  moreover have "seg ?d ?new ?n = bs" using nd len by (intro seg_write_same) auto
  ultimately have "da_elems (arr'\<lparr>data := Some ?new\<rparr>) = da_elems arr @ [bs]"
    using p(3,5,6) sz by (simp add: da_elems_def)
  moreover have "da_ok (arr'\<lparr>data := Some ?new\<rparr>)"
    using p(2,4) nd len p(6) by (auto simp: da_ok_def)
  ultimately show ?thesis
    using p w off by (simp add: da_append_def)
qed

section \<open>The interface of the clients\<close>

text \<open>
  \<open>room a n\<close>: the sizes stay in range for \<open>n\<close> more elements. Doubling keeps the capacity below
  twice the number of elements, so a bound on the final size is enough.
\<close>

definition da_room_for :: "DynArray \<Rightarrow> nat \<Rightarrow> bool" where
  "da_room_for arr n =
     (2 * max (unat (capacity arr)) (2 * (unat (size arr) + n)) * unat (dataSize arr) < 2 ^ 64)"

lemma da_room_for_now: "da_room_for arr (Suc n) \<Longrightarrow> da_room arr \<and> unat (dataSize arr) < 2 ^ 63"
proof -
  assume r: "da_room_for arr (Suc n)"
  let ?m = "max (unat (capacity arr)) (2 * (unat (size arr) + Suc n))"
  have "2 * unat (capacity arr) * unat (dataSize arr) \<le> 2 * ?m * unat (dataSize arr)"
    by (intro mult_le_mono) auto
  moreover have "2 * unat (dataSize arr) \<le> 2 * ?m * unat (dataSize arr)"
    by (intro mult_le_mono) auto
  moreover have "2 * ?m * unat (dataSize arr) < 2 ^ 64" using r by (simp only: da_room_for_def)
  ultimately have "2 * unat (capacity arr) * unat (dataSize arr) < 2 ^ 64"
    "2 * unat (dataSize arr) < 2 ^ 64" by linarith+
  then show ?thesis by (simp add: da_room_def)
qed

lemma da_push_capacity:
  assumes "da_push arr st = (arr', Some off, st')" "da_ok arr" "da_room arr"
  shows "unat (capacity arr') \<le> max (unat (capacity arr)) (2 * (unat (size arr) + 1))"
proof -
  have two: "unat (capacity arr * 2) \<le> 2 * unat (capacity arr)"
    by (simp add: unat_word_ariths)
  from assms(2) have "unat (size arr) \<le> unat (capacity arr)" by (auto simp: da_ok_def split: option.splits)
  with two assms(1) show ?thesis
    by (auto simp: da_push_def Let_def word_le_nat_alt split: if_splits prod.splits)
qed

locale growable_array =
  fixes append :: "'a \<Rightarrow> 'e \<Rightarrow> cstate \<Rightarrow> ('a \<times> cstate) c"
    and pop :: "'a \<Rightarrow> 'a \<times> int"
    and elems :: "'a \<Rightarrow> 'e list"
    and ok :: "'a \<Rightarrow> bool"
    and room :: "'a \<Rightarrow> nat \<Rightarrow> bool"
    and fits :: "'a \<Rightarrow> 'e \<Rightarrow> bool"
  assumes append_elems: "ok a \<Longrightarrow> room a (Suc n) \<Longrightarrow> fits a e \<Longrightarrow> no_alloc_failure st \<Longrightarrow>
      \<exists>a' st'. append a e st = Inr (a', st') \<and> ok a' \<and> room a' n \<and> elems a' = elems a @ [e]
        \<and> fits a' = fits a \<and> no_alloc_failure st'"
    and pop_elems: "ok a \<Longrightarrow> elems a \<noteq> [] \<Longrightarrow>
      \<exists>a'. pop a = (a', 1) \<and> ok a' \<and> elems a' = butlast (elems a)"
    and pop_empty: "ok a \<Longrightarrow> elems a = [] \<Longrightarrow> pop a = (a, -1)"
begin

primrec append_all :: "'a \<Rightarrow> 'e list \<Rightarrow> cstate \<Rightarrow> ('a \<times> cstate) c" where
  "append_all a [] st = Inr (a, st)"
| "append_all a (e # es) st = bindC (append a e st) (\<lambda>(a', st'). append_all a' es st')"

lemma append_all_elems:
  "ok a \<Longrightarrow> room a (length es) \<Longrightarrow> \<forall>e \<in> set es. fits a e \<Longrightarrow> no_alloc_failure st \<Longrightarrow>
    \<exists>a' st'. append_all a es st = Inr (a', st') \<and> ok a' \<and> elems a' = elems a @ es"
proof (induction es arbitrary: a st)
  case Nil
  then show ?case by simp
next
  case (Cons e es)
  from append_elems[OF Cons.prems(1), of "length es" e st] Cons.prems obtain a1 st1
    where 1: "append a e st = Inr (a1, st1)" "ok a1" "room a1 (length es)"
      "elems a1 = elems a @ [e]" "fits a1 = fits a" "no_alloc_failure st1"
    by auto
  with Cons.IH[OF 1(2,3) _ 1(6)] Cons.prems(3) show ?case by auto
qed

lemma append_then_pop:
  assumes "ok a" "room a (Suc n)" "fits a e" "no_alloc_failure st"
  shows "\<exists>a' st' a''. append a e st = Inr (a', st') \<and> pop a' = (a'', 1) \<and> elems a'' = elems a"
proof -
  obtain a' st' where "append a e st = Inr (a', st')" "ok a'" "elems a' = elems a @ [e]"
    using append_elems[OF assms] by auto
  then show ?thesis using pop_elems[of a'] by auto
qed

end

lemma da_elems_empty: "da_ok arr \<Longrightarrow> da_elems arr = [] \<longleftrightarrow> size arr = 0"
  by (auto simp: da_elems_def da_ok_def unat_eq_0 split: option.splits)

lemma da_pop_elems:
  assumes "da_ok arr" "da_elems arr \<noteq> []"
  shows "\<exists>arr'. da_pop arr = (arr', 1) \<and> da_ok arr' \<and> da_elems arr' = butlast (da_elems arr)"
proof -
  from assms have "size arr \<noteq> 0" by (simp add: da_elems_empty)
  then have pos: "0 < unat (size arr)" by (simp add: unat_gt_0)
  with \<open>size arr \<noteq> 0\<close> have u: "unat (size arr - 1) = unat (size arr) - 1" "1 \<le> size arr"
    by (simp_all add: unat_minus_one word_le_nat_alt)
  obtain n where n: "unat (size arr) = Suc n" using pos by (cases "unat (size arr)") auto
  have "\<not> size arr < 1" using \<open>size arr \<noteq> 0\<close> by (simp add: word_less_nat_alt unat_gt_0 not_less Suc_le_eq)
  with u pos n assms(1) show ?thesis
    by (auto simp: da_pop_def da_ok_def da_elems_def map_butlast[symmetric] split: option.splits)
qed

interpretation da: growable_array da_append da_pop da_elems da_ok da_room_for
  "\<lambda>arr e. length e = unat (dataSize arr)"
proof unfold_locales
  fix arr :: DynArray and n st and e :: block
  assume a: "da_ok arr" "da_room_for arr (Suc n)" "length e = unat (dataSize arr)"
    "no_alloc_failure st"
  note now = da_room_for_now[OF a(2)]
  obtain arr' st' where p: "da_append arr e st = Inr (arr', st')" "da_ok arr'"
    "da_elems arr' = da_elems arr @ [e]" "no_alloc_failure st'" "dataSize arr' = dataSize arr"
    using da_append_elems[OF a(1) _ a(4) _ a(3)] now by auto
  obtain arr1 off st1 where push: "da_push arr st = (arr1, Some off, st1)"
    "capacity arr' = capacity arr1" "size arr1 = size arr'"
    using p(1) by (auto simp: da_append_def bindC_eq_Inr split: prod.splits option.splits)
  have "length (da_elems arr') = Suc (length (da_elems arr))" using p(3) by simp
  then have sz: "unat (size arr') = Suc (unat (size arr))"
    using a(1) p(2) by (auto simp: da_elems_def da_ok_def split: option.splits)
  have "unat (capacity arr') \<le> max (unat (capacity arr)) (2 * (unat (size arr) + 1))"
    using da_push_capacity[OF push(1) a(1)] now push(2) by simp
  then have "2 * max (unat (capacity arr')) (2 * (unat (size arr') + n)) * unat (dataSize arr')
      \<le> 2 * max (unat (capacity arr)) (2 * (unat (size arr) + Suc n)) * unat (dataSize arr)"
    using p(5) sz by (intro mult_le_mono) auto
  from le_less_trans[OF this a(2)[unfolded da_room_for_def]] have "da_room_for arr' n"
    by (simp only: da_room_for_def p(5))
  then show "\<exists>arr' st'. da_append arr e st = Inr (arr', st') \<and> da_ok arr' \<and> da_room_for arr' n
      \<and> da_elems arr' = da_elems arr @ [e]
      \<and> (\<lambda>e. length e = unat (dataSize arr')) = (\<lambda>e. length e = unat (dataSize arr))
      \<and> no_alloc_failure st'"
    using p by auto
next
  show "\<exists>a'. da_pop a = (a', 1) \<and> da_ok a' \<and> da_elems a' = butlast (da_elems a)"
    if "da_ok a" "da_elems a \<noteq> []" for a
    by (rule da_pop_elems[OF that])
  show "da_pop a = (a, -1)" if "da_ok a" "da_elems a = []" for a
    using that da_elems_empty[of a] by (simp add: da_pop_def)
qed

section \<open>Reversing\<close>

lemma int_of_size_small: "unat i < 2 ^ 31 \<Longrightarrow> int_of_size i = int (unat i)"
proof -
  assume "unat i < 2 ^ 31"
  then have "int (unat i) < int (2 ^ 31)" by (simp only: of_nat_less_iff)
  then have "int (unat i) < 2 ^ 31" by (simp only: of_nat_power of_nat_numeral)
  then have "uint i < 2 ^ 31" by (simp only: of_nat_unat)
  moreover have "- (2 ^ 31) \<le> uint i" by (rule order_trans[OF _ unsigned_greater_eq]) simp
  ultimately have "signed_take_bit 31 (uint i) = uint i" by (intro signed_take_bit_int_eq_self)
  then show ?thesis by (simp only: int_of_size_def of_nat_unat)
qed

lemma unat_mult_below:
  "unat (i :: size_t) * unat d + unat d \<le> m \<Longrightarrow> m < 2 ^ 64 \<Longrightarrow> unat (i * d) = unat i * unat d"
  by (rule unat_mult_exact) linarith

text \<open>The copying loop fills the new block from \<open>y\<close> on with the old elements from \<open>i\<close> down to 0.\<close>

lemma da_reverse_loop_done:
  assumes "k = unat i" "unat i < 2 ^ 31" "n \<le> 2 ^ 31" "unat i + unat y + 1 = n"
    "n * unat dsize \<le> length old" "length old < 2 ^ 64" "length old = length new"
  shows "\<exists>new'. da_reverse_loop old dsize i y new = Inr new' \<and> length new' = length new
    \<and> take (unat y * unat dsize) new' = take (unat y * unat dsize) new
    \<and> map (seg (unat dsize) new') [unat y..<n] = rev (map (seg (unat dsize) old) [0..<Suc (unat i)])"
  using assms
proof (induction k arbitrary: i y new)
  case (0 i y new)
  let ?d = "unat dsize"
  have y: "unat y * ?d + ?d \<le> length new" using 0 seg_bounds[of "unat y" n ?d] by simp
  have yd: "unat (y * dsize) = unat y * ?d" using unat_mult_below[OF y] 0 by simp
  have i0: "i = 0" using 0(1) by (simp add: unat_eq_0)
  let ?new = "take (unat y * ?d) new @ take ?d old @ drop (unat y * ?d + ?d) new"
  have len: "length (take ?d old) = ?d" using y 0 by simp
  have "n = Suc (unat y)" using 0 i0 by simp
  moreover have "mem_read old 0 ?d = Inr (take ?d old)" using y 0 by (simp add: mem_read_def)
  moreover have "mem_write new (unat y * ?d) (take ?d old) = Inr ?new"
    using y len by (simp add: mem_write_def)
  moreover have "da_reverse_loop old dsize (- 1) (y + 1) ?new = Inr ?new"
    using int_of_size_wrapped[of "- 1"] by (simp add: da_reverse_loop.simps[of old dsize "- 1"])
  moreover have "seg ?d ?new (unat y) = take ?d old" using y len by (intro seg_write_same) auto
  ultimately show ?case
    using yd y len i0 int_of_size_small[of 0]
    by (simp add: da_reverse_loop.simps[of old dsize 0] seg_def)
next
  case (Suc k i y new)
  let ?d = "unat dsize"
  have i1: "unat (i - 1) = k"
  proof -
    have "i \<noteq> 0" using Suc.prems(1) by auto
    then show ?thesis using Suc.prems(1) by (simp add: unat_minus_one)
  qed
  have y: "unat y * ?d + ?d \<le> length new" and i: "unat i * ?d + ?d \<le> length old"
    using Suc.prems seg_bounds[of "unat y" n ?d] seg_bounds[of "unat i" n ?d] by simp_all
  have yd: "unat (y * dsize) = unat y * ?d" using unat_mult_below[OF y] Suc.prems by simp
  have idx: "unat (i * dsize) = unat i * ?d" using unat_mult_below[OF i] Suc.prems by simp
  have y1: "unat (y + 1) = unat y + 1" using Suc.prems by (simp add: unat_word_ariths)
  let ?new = "take (unat y * ?d) new @ seg ?d old (unat i) @ drop (unat y * ?d + ?d) new"
  have len: "length (seg ?d old (unat i)) = ?d" using i by (simp add: seg_def)
  have rd: "mem_read old (unat i * ?d) ?d = Inr (seg ?d old (unat i))"
    using i by (simp add: mem_read_def seg_def)
  have wr: "mem_write new (unat y * ?d) (seg ?d old (unat i)) = Inr ?new"
    using y len by (simp add: mem_write_def)
  have step: "da_reverse_loop old dsize i y new = da_reverse_loop old dsize (i - 1) (y + 1) ?new"
    using rd wr idx yd int_of_size_small[of i] Suc.prems
    by (simp add: da_reverse_loop.simps[of old dsize i])
  have lnew: "length old = length ?new" using y len Suc.prems by simp
  obtain new' where new': "da_reverse_loop old dsize (i - 1) (y + 1) ?new = Inr new'"
    "length new' = length ?new"
    "take (unat (y + 1) * ?d) new' = take (unat (y + 1) * ?d) ?new"
    "map (seg ?d new') [unat (y + 1)..<n] = rev (map (seg ?d old) [0..<Suc (unat (i - 1))])"
    using Suc.IH[of "i - 1" "y + 1" ?new] Suc.prems i1 y1 lnew by auto
  have "seg ?d new' (unat y) = seg ?d ?new (unat y)"
    by (rule seg_prefix[OF new'(3)]) (use y y1 new'(2) lnew Suc.prems in auto)
  also have "\<dots> = seg ?d old (unat i)" using y len by (intro seg_write_same) auto
  finally have head: "seg ?d new' (unat y) = seg ?d old (unat i)" .
  have "take (unat y * ?d) new' = take (unat y * ?d) (take (unat (y + 1) * ?d) new')"
    by (simp add: y1)
  also have "\<dots> = take (unat y * ?d) (take (unat (y + 1) * ?d) ?new)" by (simp only: new'(3))
  also have "\<dots> = take (unat y * ?d) new" using y by (simp add: y1)
  finally have kept: "take (unat y * ?d) new' = take (unat y * ?d) new" .
  have "[unat y..<n] = unat y # [unat (y + 1)..<n]"
    using Suc.prems y1 by (simp add: upt_conv_Cons)
  then have "map (seg ?d new') [unat y..<n] = rev (map (seg ?d old) [0..<Suc (unat i)])"
    using head new'(4) i1 Suc.prems(1) by simp
  then show ?case using step new'(1,2) lnew kept Suc.prems by simp
qed

lemma da_reverse_elems:
  assumes "da_ok arr" "size arr \<noteq> 0" "unat (size arr) \<le> 2 ^ 31" "no_alloc_failure st"
  shows "\<exists>arr' st'. da_reverse arr st = Inr (arr', 1, st') \<and> da_ok arr' \<and> da_elems arr' = rev (da_elems arr)"
proof -
  from assms(1) obtain b where b: "data arr = Some b"
    "length b = unat (capacity arr) * unat (dataSize arr)" "0 < unat (dataSize arr)"
    "unat (size arr) \<le> unat (capacity arr)" "length b < 2 ^ 64" by (rule da_okE)
  let ?new = "replicate (length b) None :: block"
  have bytes: "unat (capacity arr * dataSize arr) = length b"
    using b(2,5) by (simp add: unat_mult_exact)
  obtain st' where m: "malloc_block (capacity arr * dataSize arr) st = (Some ?new, st')"
    using malloc_ok_succeeds[OF assms(4)] by (auto simp: malloc_block_def bytes)
  have pos: "0 < unat (size arr)" using assms(2) by (simp add: unat_gt_0)
  have u: "unat (size arr - 1) = unat (size arr) - 1" using assms(2) by (simp add: unat_minus_one)
  have le: "unat (size arr) * unat (dataSize arr) \<le> length b" using b(2,4) by simp
  have "\<exists>new'. da_reverse_loop b (dataSize arr) (size arr - 1) 0 ?new = Inr new'
      \<and> length new' = length ?new
      \<and> map (seg (unat (dataSize arr)) new') [unat (0 :: size_t)..<unat (size arr)]
        = rev (map (seg (unat (dataSize arr)) b) [0..<Suc (unat (size arr - 1))])"
    using da_reverse_loop_done[OF refl, of "size arr - 1" "unat (size arr)" 0 "dataSize arr" b ?new]
      u pos assms(3) le b(5) by auto
  then obtain new' where "da_reverse_loop b (dataSize arr) (size arr - 1) 0 ?new = Inr new'"
    "length new' = length b" "map (seg (unat (dataSize arr)) new') [0..<unat (size arr)]
        = rev (map (seg (unat (dataSize arr)) b) [0..<unat (size arr)])"
    using pos u by auto
  then show ?thesis
    using m b assms(2) by (auto simp: da_reverse_def da_ok_def da_elems_def)
qed

section \<open>The largest element\<close>

fun read_ints :: "block \<Rightarrow> nat \<Rightarrow> nat \<Rightarrow> int list c" where
  "read_ints b i 0 = Inr []"
| "read_ints b i (Suc n) = bindC (read_int b (4 * i)) (\<lambda>x. bindC (read_ints b (Suc i) n) (\<lambda>xs. Inr (x # xs)))"

lemma max_loop: "read_ints b i n = Inr xs \<Longrightarrow> da_max_loop b i n m = Inr (foldl (\<lambda>m e. if m < e then e else m) m xs)"
  by (induction b i n arbitrary: xs m rule: read_ints.induct) (auto simp: bindC_eq_Inr)

lemma foldl_max: "foldl (\<lambda>m e. if m < e then e else m) (m :: int) xs = Max (insert m (set xs))"
proof (induction xs arbitrary: m)
  case Nil
  then show ?case by simp
next
  case (Cons x xs)
  have "(if m < x then x else m) = max m x" by simp
  then show ?case using Cons.IH[of "max m x"]
    by (simp only: foldl_Cons) (cases "xs = []"; simp add: Max_insert max.assoc max.left_commute)
qed

lemma read_int_range: "read_int b off = Inr x \<Longrightarrow> INT_MIN \<le> x"
proof -
  assume "read_int b off = Inr x"
  then obtain s where "x = signed_take_bit 31 s" by (auto simp: read_int_def bindC_eq_Inr split: if_splits)
  then show ?thesis using signed_take_bit_int_greater_eq_minus_exp[of 31 s] by (simp add: int_limits)
qed

lemma read_ints_range: "read_ints b i n = Inr xs \<Longrightarrow> \<forall>x \<in> set xs. INT_MIN \<le> x"
  by (induction b i n arbitrary: xs rule: read_ints.induct) (auto simp: bindC_eq_Inr dest: read_int_range)

section \<open>Properties\<close>

text \<open>Appending any list of elements to a dynamic array (each by \<open>da_push\<close> and a write through the
  pointer it returns) appends exactly these elements to the sequence the array stands for, through
  every reallocation, as long as the sizes stay in range and \<open>realloc\<close> succeeds.\<close>

theorem da_push_appends:
  assumes "da_ok arr" "da_room_for arr (length es)" "list_all (\<lambda>e. length e = unat (dataSize arr)) es"
    "no_alloc_failure st"
  shows "\<exists>arr' st'. da.append_all arr es st = Inr (arr', st') \<and> da_ok arr'
    \<and> da_elems arr' = da_elems arr @ es"
  using da.append_all_elems[OF assms(1,2) _ assms(4)] assms(3) by (simp add: list_all_iff)

definition demo_array :: DynArray where
  "demo_array = \<lparr>data = Some [Some 1, None], size = 1, capacity = 2, dataSize = 1\<rparr>"

lemma demo_array_ok: "da_ok demo_array" "da_room_for demo_array 2"
  by (simp_all add: demo_array_def da_ok_def da_room_for_def)

lemma da_push_appends_witness:
  "\<exists>arr' st'. da.append_all demo_array [[Some 7], [Some 9]] \<lparr>allocs = [], cerrno = 0\<rparr> = Inr (arr', st')
    \<and> da_ok arr' \<and> da_elems arr' = [[Some 1], [Some 7], [Some 9]]"
  using da_push_appends[OF demo_array_ok(1), of "[[Some 7], [Some 9]]" "\<lparr>allocs = [], cerrno = 0\<rparr>"] demo_array_ok(2)
  by (simp add: demo_array_def no_alloc_failure_def da_elems_def seg_def numeral_2_eq_2)

text \<open>\<open>da_reverse\<close> reverses a non-empty array of at most \<open>2 ^ 31\<close> elements (beyond that its \<open>int\<close>
  loop test fails at once); the array stays well-formed. The loop ends for every size.\<close>

theorem da_reverse_reverses:
  assumes "da_ok arr" "size arr \<noteq> 0" "unat (size arr) \<le> 2147483648" "no_alloc_failure st"
  shows "\<exists>arr' st'. da_reverse arr st = Inr (arr', 1, st') \<and> da_ok arr' \<and> da_elems arr' = rev (da_elems arr)"
  using da_reverse_elems[OF assms(1,2) _ assms(4)] assms(3) by simp

definition full_array :: DynArray where
  "full_array = \<lparr>data = Some [Some 1, Some 2], size = 2, capacity = 2, dataSize = 1\<rparr>"

lemma full_array_facts:
  "da_ok full_array" "size full_array \<noteq> 0" "unat (size full_array) \<le> 2147483648"
  "da_elems full_array = [[Some 1], [Some 2]]"
  by (simp_all add: full_array_def da_ok_def da_elems_def seg_def upt_rec)

lemma da_reverse_reverses_witness:
  "\<exists>arr' st'. da_reverse full_array \<lparr>allocs = [True], cerrno = 0\<rparr> = Inr (arr', 1, st')
    \<and> da_ok arr' \<and> da_elems arr' = [[Some 2], [Some 1]]"
  using da_reverse_reverses[OF full_array_facts(1-3), of "\<lparr>allocs = [True], cerrno = 0\<rparr>"]
  by (simp add: full_array_facts(4) no_alloc_failure_def)

text \<open>\<open>da_intMax\<close> is the largest of the \<open>int\<close>s of the array (\<open>INT_MIN\<close> for an empty one), if they
  have all been written.\<close>

theorem da_intMax_is_max:
  assumes "data arr = Some b" "read_ints b 0 (unat (size arr)) = Inr xs"
  shows "da_intMax arr = Inr (Max (insert INT_MIN (set xs)))"
proof (cases "size arr = 0")
  case True
  with assms(2) show ?thesis by (auto simp: da_intMax_def)
next
  case False
  with assms max_loop[OF assms(2), of INT_MIN] foldl_max[of INT_MIN xs] show ?thesis
    by (simp add: da_intMax_def)
qed

lemma da_intMax_is_max_witness:
  "da_intMax \<lparr>data = Some (map Some [5, 0, 0, 0, 255, 255, 255, 255]), size = 2, capacity = 2, dataSize = 4\<rparr>
    = Inr 5"
proof -
  have "read_ints (map Some [5, 0, 0, 0, 255, 255, 255, 255]) 0 2 = Inr [5, -1]"
    by code_simp
  then show ?thesis
    using da_intMax_is_max[of "\<lparr>data = Some (map Some [5, 0, 0, 0, 255, 255, 255, 255]), size = 2,
        capacity = 2, dataSize = 4\<rparr>" _ "[5, -1]"]
    by (simp add: INT_MIN_def)
qed

text \<open>\<open>int_asc\<close>, the comparison for sorting \<open>int\<close>s in ascending order, never reads them: it returns
  the difference of the two positions, so whatever the array holds an element compares as smaller
  than every element stored after it.\<close>

theorem int_asc_compares_positions:
  assumes "i < j" "j < 2147483648"
  shows "int_asc (base + 4 * int i) (base + 4 * int j) = int i - int j
    \<and> int_asc (base + 4 * int i) (base + 4 * int j) < 0"
proof -
  have "(base + 4 * int i - (base + 4 * int j)) div 4 = int i - int j" by simp
  moreover have "INT_MIN \<le> int i - int j" "int i - int j \<le> INT_MAX"
    using assms by (simp_all add: int_limits)
  ultimately show ?thesis using assms(1) by (simp add: int_asc_def)
qed

lemma int_asc_compares_positions_witness:
  "int_asc (1000 + 4 * int 0) (1000 + 4 * int 1) = -1"
  using int_asc_compares_positions[of 0 1 1000] by simp

end
