(* ===== verification/Kernel.thy ===== *)
theory Kernel
  imports CStr
begin

text \<open>
  The world a process sees and the programs that run in it. The kernel is a parameter: \<open>script\<close>
  holds the replies it gives to the calls still to come, so a statement about all worlds is a
  statement about every behaviour of the kernel. A call with no reply left blocks the process.
  \<open>trace\<close> is the list of the calls made, each with its reply.

  Output to \<open>stdout\<close> is buffered: \<open>obuf\<close> is what \<open>printf\<close> has put in the buffer, \<open>out\<close> what has
  been written. \<open>eout\<close> is what went to \<open>stderr\<close>. \<open>ename_tab\<close> is the table of the generated file
  \<open>ename.c.inc\<close>, \<open>err_text\<close> is \<open>strerror\<close>, \<open>getenv\<close> reads the environment,
  \<open>io_errno\<close> is what a write of stdio leaves in \<open>errno\<close> when it does not leave it alone.
\<close>

section \<open>Calls and replies\<close>

text \<open>The calls, by the kind of object they work on.\<close>

datatype fd_call =
    Read int nat
  | Write int string
  | Close int
  | Dup2 int int
  | Fcntl int string int
  | Lseek int int string
  | Ftruncate int int
  | Fstat int
  | Ioctl int string "int list"
  | Tcgetattr int
  | Tcsetattr int string "int list"

datatype path_call =
    Open string string nat           \<comment> \<open>path, flags, mode\<close>
  | Stat string
  | Lstat string
  | Chmod string nat
  | Unlink string
  | Readlink string nat
  | Mkfifo string nat
  | Chdir string
  | Getcwd nat
  | Opendir string
  | Readdir int
  | Closedir int

datatype proc_call =
    Fork
  | Setsid
  | Execve string "string list"
  | Waitpid int string
  | Getpid
  | Sleep int
  | Umask nat
  | Sysconf string
  | Sigaction string string
  | Sigpending
  | Sigprocmask string "int list"
  | Atexit string

datatype sock_call =
    Socket int int int
  | Connect int string
  | Bind int string
  | Listen int int
  | Accept int
  | Setsockopt int string int
  | Shutdown int string
  | Socketpair
  | Getaddrinfo "string option" string int
  | Getnameinfo string

datatype ipc_call =
    Pipe
  | Mq_open string string
  | Mq_close int
  | Mq_unlink string
  | Mq_send int string
  | Mq_receive int nat
  | Sem_open string string nat
  | Sem_wait int
  | Sem_post int
  | Sem_unlink string

datatype user_call =
    Getpwnam string
  | Getpwuid int
  | Getgrnam string
  | Getgrgid int
  | Getgroups nat
  | Setgroups "int list"
  | Getgrent
  | Getpriority
  | Setpriority int
  | Geteuid
  | Getegid

datatype tty_call =
    Posix_openpt
  | Grantpt int
  | Unlockpt int
  | Ptsname int

datatype syscall =
    Fd fd_call
  | Path path_call
  | Proc proc_call
  | Sock sock_call
  | Ipc ipc_call
  | User user_call
  | Tty tty_call
  | Lib string "int list"            \<comment> \<open>another function of the C library, by name\<close>

type_synonym addrinfo = "int \<times> int \<times> int \<times> string"  \<comment> \<open>family, type, protocol, address\<close>

datatype reply =
    RVal int                         \<comment> \<open>a result, \<open>errno\<close> unchanged\<close>
  | RErr int                         \<comment> \<open>-1 (or a null pointer), with this \<open>errno\<close>\<close>
  | RData string                     \<comment> \<open>the bytes a read delivered\<close>
  | RInts "int list"                 \<comment> \<open>a structure of integers\<close>
  | RStrs "string list"              \<comment> \<open>a list of strings\<close>
  | RAddrs "addrinfo list"           \<comment> \<open>the list that \<open>getaddrinfo\<close> made\<close>
  | RNull                            \<comment> \<open>a null pointer, \<open>errno\<close> unchanged\<close>

record world =
  script :: "reply list"
  trace :: "(syscall \<times> reply) list"
  errno :: int
  obuf :: string
  out :: string
  eout :: string
  ename_tab :: "string list"
  err_text :: "int \<Rightarrow> string"
  getenv :: "string \<Rightarrow> string option"
  io_errno :: "int option"

text \<open>How a computation ends: it returns, the process terminates, blocks or does something undefined.\<close>

datatype 'a result =
    Return 'a
  | Exited int         \<comment> \<open>by \<open>exit\<close>\<close>
  | UExited int        \<comment> \<open>by \<open>_exit\<close>\<close>
  | Aborted            \<comment> \<open>by \<open>abort\<close>\<close>
  | Blocked            \<comment> \<open>in a call the kernel has not answered\<close>
  | Fault fault
  | No_fuel

type_synonym 'a prog = "world \<Rightarrow> 'a result \<times> world"

section \<open>Programs\<close>

definition ret :: "'a \<Rightarrow> 'a prog" where
  "ret x w = (Return x, w)"

definition stop :: "'a result \<Rightarrow> 'a prog" where
  "stop r w = (r, w)"

definition seq :: "'a prog \<Rightarrow> ('a \<Rightarrow> 'b prog) \<Rightarrow> 'b prog" where
  \<comment> \<open>call a function, then go on with its result\<close>
  "seq p k w = (case p w of
      (Return x, w') \<Rightarrow> k x w'
    | (Exited n, w') \<Rightarrow> (Exited n, w')
    | (UExited n, w') \<Rightarrow> (UExited n, w')
    | (Aborted, w') \<Rightarrow> (Aborted, w')
    | (Blocked, w') \<Rightarrow> (Blocked, w')
    | (Fault f, w') \<Rightarrow> (Fault f, w')
    | (No_fuel, w') \<Rightarrow> (No_fuel, w'))"

definition reply_errno :: "reply \<Rightarrow> int \<Rightarrow> int" where
  "reply_errno r e = (case r of RErr e' \<Rightarrow> e' | _ \<Rightarrow> e)"

definition call :: "syscall \<Rightarrow> (reply \<Rightarrow> 'a prog) \<Rightarrow> 'a prog" where
  "call c k w = (case script w of
      [] \<Rightarrow> (Blocked, w)
    | r # rs \<Rightarrow> k r (w\<lparr>script := rs, trace := trace w @ [(c, r)],
                       errno := reply_errno r (errno w)\<rparr>))"

definition rv :: "reply \<Rightarrow> int" where
  \<comment> \<open>the integer the call returns\<close>
  "rv r = (case r of RVal n \<Rightarrow> n | RErr e \<Rightarrow> -1 | RData s \<Rightarrow> int (length s)
     | RInts ns \<Rightarrow> 0 | RStrs ss \<Rightarrow> 0 | RAddrs as \<Rightarrow> 0 | RNull \<Rightarrow> 0)"

definition event :: "syscall \<Rightarrow> 'a prog \<Rightarrow> 'a prog" where
  \<comment> \<open>a call that cannot fail and whose result is not used\<close>
  "event c k w = k (w\<lparr>trace := trace w @ [(c, RVal 0)]\<rparr>)"

definition bytes :: "reply \<Rightarrow> string" where
  "bytes r = (case r of RData s \<Rightarrow> s | _ \<Rightarrow> [])"

definition is_null_reply :: "reply \<Rightarrow> bool" where
  "is_null_reply r = (case r of RNull \<Rightarrow> True | RErr e \<Rightarrow> True | _ \<Rightarrow> False)"

definition after_io :: "world \<Rightarrow> world" where
  "after_io w = (case io_errno w of None \<Rightarrow> w | Some e \<Rightarrow> w\<lparr>errno := e\<rparr>)"

lemma after_io_simps [simp]:
  "script (after_io w) = script w" "trace (after_io w) = trace w" "obuf (after_io w) = obuf w"
  "out (after_io w) = out w" "eout (after_io w) = eout w" "getenv (after_io w) = getenv w"
  "ename_tab (after_io w) = ename_tab w" "err_text (after_io w) = err_text w"
  "io_errno (after_io w) = io_errno w" "io_errno w = None \<Longrightarrow> after_io w = w"
  by (simp_all add: after_io_def split: option.splits)

definition get :: "(world \<Rightarrow> 'b) \<Rightarrow> ('b \<Rightarrow> 'a prog) \<Rightarrow> 'a prog" where
  "get f k w = k (f w) w"

definition set_errno :: "int \<Rightarrow> 'a prog \<Rightarrow> 'a prog" where
  "set_errno e k w = k (w\<lparr>errno := e\<rparr>)"

definition printf :: "string \<Rightarrow> 'a prog \<Rightarrow> 'a prog" where
  "printf s k w = k (w\<lparr>obuf := obuf w @ s\<rparr>)"

definition fflush_stdout :: "'a prog \<Rightarrow> 'a prog" where
  "fflush_stdout k w = k (after_io (w\<lparr>out := out w @ obuf w, obuf := []\<rparr>))"

definition fprintf_stderr :: "string \<Rightarrow> 'a prog \<Rightarrow> 'a prog" where
  "fprintf_stderr s k w = k (after_io (w\<lparr>eout := eout w @ s\<rparr>))"

definition exit_prog :: "int \<Rightarrow> 'a prog" where
  \<comment> \<open>\<open>exit(3)\<close> flushes the buffers of stdio\<close>
  "exit_prog n = fflush_stdout (stop (Exited n))"

definition uexit_prog :: "int \<Rightarrow> 'a prog" where
  "uexit_prog n = stop (UExited n)"

definition PATH_MAX :: nat where "PATH_MAX = 4096"

definition EXIT_SUCCESS :: int where "EXIT_SUCCESS = 0"
definition EXIT_FAILURE :: int where "EXIT_FAILURE = 1"

section \<open>Loops\<close>

text \<open>
  A loop runs its body from a state: \<open>Inl\<close> goes round again, \<open>Inr\<close> leaves. The fuel is one more
  than the number of replies left: enough for a body that makes a call in every round
  (\<open>loop_no_fuel\<close>).
\<close>

primrec iter :: "nat \<Rightarrow> ('s \<Rightarrow> ('s + 'a) prog) \<Rightarrow> 's \<Rightarrow> 'a prog" where
  "iter 0 body s = stop No_fuel"
| "iter (Suc n) body s =
     seq (body s) (\<lambda>x. case x of Inl s' \<Rightarrow> iter n body s' | Inr a \<Rightarrow> ret a)"

definition loop :: "('s \<Rightarrow> ('s + 'a) prog) \<Rightarrow> 's \<Rightarrow> 'a prog" where
  "loop body s w = iter (Suc (length (script w))) body s w"

primrec each :: "('b \<Rightarrow> unit prog) \<Rightarrow> 'b list \<Rightarrow> unit prog" where
  \<comment> \<open>a \<open>for\<close> loop over a known list\<close>
  "each body [] = ret ()"
| "each body (x # xs) = seq (body x) (\<lambda>u. each body xs)"

definition again :: "'s \<Rightarrow> ('s + 'a) prog" where "again s = ret (Inl s)"
definition leave :: "'a \<Rightarrow> ('s + 'a) prog" where "leave a = ret (Inr a)"

section \<open>Weakest preconditions\<close>

definition wp :: "'a prog \<Rightarrow> ('a result \<Rightarrow> world \<Rightarrow> bool) \<Rightarrow> world \<Rightarrow> bool" where
  "wp p Q w = (case p w of (r, w') \<Rightarrow> Q r w')"

definition lift :: "('a \<Rightarrow> world \<Rightarrow> bool) \<Rightarrow> ('b result \<Rightarrow> world \<Rightarrow> bool) \<Rightarrow> 'a result \<Rightarrow> world \<Rightarrow> bool" where
  \<comment> \<open>the postcondition of a called function: go on when it returns, keep the end otherwise\<close>
  "lift P Q r w = (case r of Return x \<Rightarrow> P x w | Exited n \<Rightarrow> Q (Exited n) w
     | UExited n \<Rightarrow> Q (UExited n) w | Aborted \<Rightarrow> Q Aborted w | Blocked \<Rightarrow> Q Blocked w
     | Fault f \<Rightarrow> Q (Fault f) w | No_fuel \<Rightarrow> Q No_fuel w)"

lemma wp_ret [exec_simps]: "wp (ret x) Q w = Q (Return x) w"
  by (simp add: wp_def ret_def)

lemma wp_stop [exec_simps]: "wp (stop r) Q w = Q r w"
  by (simp add: wp_def stop_def)

lemma wp_seq [exec_simps]: "wp (seq p k) Q w = wp p (lift (\<lambda>x. wp (k x) Q) Q) w"
  by (auto simp: wp_def seq_def lift_def split: prod.splits result.splits)

lemma wp_call [exec_simps]: "wp (call c k) Q w \<longleftrightarrow>
    (script w = [] \<longrightarrow> Q Blocked w) \<and>
    (\<forall>r rs. script w = r # rs \<longrightarrow>
      wp (k r) Q (w\<lparr>script := rs, trace := trace w @ [(c, r)], errno := reply_errno r (errno w)\<rparr>))"
  by (auto simp: wp_def call_def split: list.splits)

lemma wp_event [exec_simps]: "wp (event c k) Q w = wp k Q (w\<lparr>trace := trace w @ [(c, RVal 0)]\<rparr>)"
  by (simp add: wp_def event_def)

lemma wp_get [exec_simps]: "wp (get f k) Q w = wp (k (f w)) Q w"
  by (simp add: wp_def get_def)

lemma wp_set_errno [exec_simps]: "wp (set_errno e k) Q w = wp k Q (w\<lparr>errno := e\<rparr>)"
  by (simp add: wp_def set_errno_def)

lemma wp_printf [exec_simps]: "wp (printf s k) Q w = wp k Q (w\<lparr>obuf := obuf w @ s\<rparr>)"
  by (simp add: wp_def printf_def)

lemma wp_fflush [exec_simps]:
  "wp (fflush_stdout k) Q w = wp k Q (after_io (w\<lparr>out := out w @ obuf w, obuf := []\<rparr>))"
  by (simp add: wp_def fflush_stdout_def)

lemma wp_stderr [exec_simps]: "wp (fprintf_stderr s k) Q w = wp k Q (after_io (w\<lparr>eout := eout w @ s\<rparr>))"
  by (simp add: wp_def fprintf_stderr_def)

lemma wp_exit [exec_simps]:
  "wp (exit_prog n) Q w = Q (Exited n) (after_io (w\<lparr>out := out w @ obuf w, obuf := []\<rparr>))"
  by (simp add: exit_prog_def exec_simps)

lemma wp_uexit [exec_simps]: "wp (uexit_prog n) Q w = Q (UExited n) w"
  by (simp add: uexit_prog_def exec_simps)

lemma wp_again [exec_simps]: "wp (again s) Q w = Q (Return (Inl s)) w"
  by (simp add: again_def exec_simps)

lemma wp_leave [exec_simps]: "wp (leave a) Q w = Q (Return (Inr a)) w"
  by (simp add: leave_def exec_simps)

lemma lift_simps [simp]:
  "lift P Q (Return x) w = P x w" "lift P Q (Exited n) w = Q (Exited n) w"
  "lift P Q (UExited n) w = Q (UExited n) w" "lift P Q Aborted w = Q Aborted w"
  "lift P Q Blocked w = Q Blocked w" "lift P Q (Fault f) w = Q (Fault f) w"
  "lift P Q No_fuel w = Q No_fuel w"
  by (simp_all add: lift_def)

lemma wp_mono: "wp p Q w \<Longrightarrow> (\<And>r w'. Q r w' \<Longrightarrow> Q' r w') \<Longrightarrow> wp p Q' w"
  by (auto simp: wp_def split: prod.splits)

lemma wp_conj: "wp p Q w \<Longrightarrow> wp p Q' w \<Longrightarrow> wp p (\<lambda>r w'. Q r w' \<and> Q' r w') w"
  by (auto simp: wp_def split: prod.splits)

lemma wpI: "(\<And>r w'. p w = (r, w') \<Longrightarrow> Q r w') \<Longrightarrow> wp p Q w"
  by (auto simp: wp_def split: prod.splits)

lemma wpD: "wp p Q w \<Longrightarrow> p w = (r, w') \<Longrightarrow> Q r w'"
  by (simp add: wp_def)

text \<open>To compute a run on a concrete script.\<close>

lemmas run_simps = ret_def stop_def seq_def call_def event_def get_def set_errno_def printf_def
  fflush_stdout_def fprintf_stderr_def exit_prog_def uexit_prog_def again_def leave_def
  reply_errno_def rv_def bytes_def is_null_reply_def loop_def

section \<open>Rules for loops\<close>

definition progress :: "world \<Rightarrow> 'a result \<Rightarrow> world \<Rightarrow> bool" where
  \<comment> \<open>a body that goes round again has used up a reply\<close>
  "progress w r w' \<longleftrightarrow> (\<forall>x. r = Return x \<longrightarrow> length (script w') < length (script w)) \<and> r \<noteq> No_fuel"

lemma iter_rule:
  assumes inv: "I s w"
    and fuel: "length (script w) < n"
    and body: "\<And>s w. I s w \<Longrightarrow> wp (body s)
      (\<lambda>r w'. (case r of
          Return (Inl s') \<Rightarrow> I s' w' \<and> length (script w') < length (script w)
        | Return (Inr a) \<Rightarrow> Q (Return a) w'
        | Exited m \<Rightarrow> Q (Exited m) w' | UExited m \<Rightarrow> Q (UExited m) w'
        | Aborted \<Rightarrow> Q Aborted w' | Blocked \<Rightarrow> Q Blocked w'
        | Fault f \<Rightarrow> Q (Fault f) w' | No_fuel \<Rightarrow> False)) w"
  shows "wp (iter n body s) Q w"
  using inv fuel
proof (induction n arbitrary: s w)
  case 0
  then show ?case by simp
next
  case (Suc n)
  have "wp (body s) (lift (\<lambda>x. wp (case x of Inl s' \<Rightarrow> iter n body s' | Inr a \<Rightarrow> ret a) Q) Q) w"
  proof (rule wp_mono[OF body[OF Suc.prems(1)]])
    fix r w'
    assume r: "case r of
          Return (Inl s') \<Rightarrow> I s' w' \<and> length (script w') < length (script w)
        | Return (Inr a) \<Rightarrow> Q (Return a) w'
        | Exited m \<Rightarrow> Q (Exited m) w' | UExited m \<Rightarrow> Q (UExited m) w'
        | Aborted \<Rightarrow> Q Aborted w' | Blocked \<Rightarrow> Q Blocked w'
        | Fault f \<Rightarrow> Q (Fault f) w' | No_fuel \<Rightarrow> False"
    show "lift (\<lambda>x. wp (case x of Inl s' \<Rightarrow> iter n body s' | Inr a \<Rightarrow> ret a) Q) Q r w'"
    proof (cases r)
      case (Return x)
      with r Suc show ?thesis by (cases x) (auto simp: exec_simps)
    qed (use r in auto)
  qed
  then show ?case by (simp add: exec_simps)
qed

lemma loop_rule:
  assumes inv: "I s w"
    and body: "\<And>s w. I s w \<Longrightarrow> wp (body s)
      (\<lambda>r w'. (case r of
          Return (Inl s') \<Rightarrow> I s' w' \<and> length (script w') < length (script w)
        | Return (Inr a) \<Rightarrow> Q (Return a) w'
        | Exited m \<Rightarrow> Q (Exited m) w' | UExited m \<Rightarrow> Q (UExited m) w'
        | Aborted \<Rightarrow> Q Aborted w' | Blocked \<Rightarrow> Q Blocked w'
        | Fault f \<Rightarrow> Q (Fault f) w' | No_fuel \<Rightarrow> False)) w"
  shows "wp (loop body s) Q w"
  using iter_rule[where I = I and n = "Suc (length (script w))", OF inv _ body]
  by (simp add: wp_def loop_def)

lemma each_rule:
  assumes "I [] xs w"
    and "\<And>ys x zs w. I ys (x # zs) w \<Longrightarrow>
      wp (body x) (\<lambda>r w'. case r of Return u \<Rightarrow> I (ys @ [x]) zs w'
        | Exited m \<Rightarrow> Q (Exited m) w' | UExited m \<Rightarrow> Q (UExited m) w' | Aborted \<Rightarrow> Q Aborted w'
        | Blocked \<Rightarrow> Q Blocked w' | Fault f \<Rightarrow> Q (Fault f) w' | No_fuel \<Rightarrow> Q No_fuel w') w"
    and "\<And>ys w. I ys [] w \<Longrightarrow> Q (Return ()) w"
  shows "wp (each body xs) Q w"
proof -
  have "wp (each body zs) Q w" if "I ys zs w" for ys zs w
    using that
  proof (induction zs arbitrary: ys w)
    case Nil
    then show ?case by (simp add: wp_ret assms(3))
  next
    case (Cons x zs)
    show ?case
      unfolding each.simps wp_seq
      by (rule wp_mono[OF assms(2)[OF Cons.prems]])
        (auto simp: lift_def dest: Cons.IH split: result.splits)
  qed
  then show ?thesis using assms(1) by blast
qed

text \<open>Enough fuel: a loop whose body makes a call in every round never runs out of it.\<close>

lemma loop_no_fuel:
  assumes "\<And>s w. wp (body s) (\<lambda>r w'. (case r of
      Return (Inl s') \<Rightarrow> length (script w') < length (script w) | No_fuel \<Rightarrow> False | _ \<Rightarrow> True)) w"
  shows "wp (loop body s) (\<lambda>r w'. r \<noteq> No_fuel) w"
  by (rule loop_rule[where I = "\<lambda>_ _. True"])
    (auto intro!: wp_mono[OF assms] split: result.splits sum.splits)

section \<open>Programs that return when the kernel answers\<close>

text \<open>
  \<open>shrinks p\<close>: the program never runs out of fuel and gives back no replies. \<open>rounds p\<close>: a body that
  in addition uses up a reply before it goes round again. These close under everything the
  programs are made of, so that a loop is known to end from the shape of its body.
\<close>

named_theorems fuel_intros "programs that end"

definition shrinks :: "'a prog \<Rightarrow> bool" where
  "shrinks p \<longleftrightarrow> (\<forall>w. wp p (\<lambda>r w'. r \<noteq> No_fuel \<and> length (script w') \<le> length (script w)) w)"

definition rounds :: "('s + 'a) prog \<Rightarrow> bool" where
  "rounds p \<longleftrightarrow> (\<forall>w. wp p (\<lambda>r w'. r \<noteq> No_fuel \<and> length (script w') \<le> length (script w)
     \<and> (\<forall>x. r = Return (Inl x) \<longrightarrow> length (script w') < length (script w))) w)"

lemma shrinksD: "shrinks p \<Longrightarrow> fst (p w) \<noteq> No_fuel"
proof -
  assume "shrinks p"
  then have "wp p (\<lambda>r w'. r \<noteq> No_fuel \<and> length (script w') \<le> length (script w)) w"
    by (simp add: shrinks_def)
  then show ?thesis by (cases "p w") (simp add: wp_def)
qed

lemma shrinks_ret [fuel_intros]: "shrinks (ret x)"
  by (simp add: shrinks_def exec_simps)

lemma shrinks_stop [fuel_intros]: "r \<noteq> No_fuel \<Longrightarrow> shrinks (stop r)"
  by (simp add: shrinks_def exec_simps)

lemma shrinks_again [fuel_intros]: "shrinks (again x)"
  by (simp add: shrinks_def exec_simps)

lemma shrinks_leave [fuel_intros]: "shrinks (leave x)"
  by (simp add: shrinks_def exec_simps)

lemma shrinks_exit [fuel_intros]: "shrinks (exit_prog n)" "shrinks (uexit_prog n)"
  by (simp_all add: shrinks_def exec_simps)

lemma rounds_exit [fuel_intros]: "rounds (exit_prog n)" "rounds (uexit_prog n)"
  by (simp_all add: rounds_def exec_simps)

lemma rounds_leave [fuel_intros]: "rounds (leave x)"
  by (simp add: rounds_def exec_simps)

lemma rounds_stop [fuel_intros]: "r \<noteq> No_fuel \<Longrightarrow> (\<forall>x. r \<noteq> Return x) \<Longrightarrow> rounds (stop r)"
  by (simp add: rounds_def exec_simps)

lemma shrinks_prefix:
  assumes "shrinks k" "\<And>w. p w = k (g w)" "\<And>w. script (g w) = script w"
  shows "shrinks p"
  unfolding shrinks_def wp_def assms(2)
proof
  fix w :: world
  from assms(1)[unfolded shrinks_def wp_def, rule_format, of "g w"]
  show "case k (g w) of (r, w') \<Rightarrow> r \<noteq> No_fuel \<and> length (script w') \<le> length (script w)"
    by (simp add: assms(3))
qed

lemma rounds_prefix:
  assumes "rounds k" "\<And>w. p w = k (g w)" "\<And>w. script (g w) = script w"
  shows "rounds p"
  unfolding rounds_def wp_def assms(2)
proof
  fix w :: world
  from assms(1)[unfolded rounds_def wp_def, rule_format, of "g w"]
  show "case k (g w) of (r, w') \<Rightarrow> r \<noteq> No_fuel \<and> length (script w') \<le> length (script w) \<and> (\<forall>x. r = Return (Inl x) \<longrightarrow> length (script w') < length (script w))"
    by (simp add: assms(3))
qed

lemma shrinks_printf [fuel_intros]: "shrinks k \<Longrightarrow> shrinks (printf s k)"
  by (rule shrinks_prefix[where k = k and g = "\<lambda>w. w\<lparr>obuf := obuf w @ s\<rparr>"]) (simp_all add: printf_def)

lemma shrinks_fflush [fuel_intros]: "shrinks k \<Longrightarrow> shrinks (fflush_stdout k)"
  by (rule shrinks_prefix[where k = k and g = "\<lambda>w. after_io (w\<lparr>out := out w @ obuf w, obuf := []\<rparr>)"])
    (simp_all add: fflush_stdout_def)

lemma shrinks_stderr [fuel_intros]: "shrinks k \<Longrightarrow> shrinks (fprintf_stderr s k)"
  by (rule shrinks_prefix[where k = k and g = "\<lambda>w. after_io (w\<lparr>eout := eout w @ s\<rparr>)"])
    (simp_all add: fprintf_stderr_def)

lemma shrinks_set_errno [fuel_intros]: "shrinks k \<Longrightarrow> shrinks (set_errno e k)"
  by (rule shrinks_prefix[where k = k and g = "\<lambda>w. w\<lparr>errno := e\<rparr>"]) (simp_all add: set_errno_def)

lemma shrinks_event [fuel_intros]: "shrinks k \<Longrightarrow> shrinks (event c k)"
  by (rule shrinks_prefix[where k = k and g = "\<lambda>w. w\<lparr>trace := trace w @ [(c, RVal 0)]\<rparr>"]) (simp_all add: event_def)

lemma rounds_printf [fuel_intros]: "rounds k \<Longrightarrow> rounds (printf s k)"
  by (rule rounds_prefix[where k = k and g = "\<lambda>w. w\<lparr>obuf := obuf w @ s\<rparr>"])
    (simp_all add: printf_def)

lemma rounds_event [fuel_intros]: "rounds k \<Longrightarrow> rounds (event c k)"
  by (rule rounds_prefix[where k = k and g = "\<lambda>w. w\<lparr>trace := trace w @ [(c, RVal 0)]\<rparr>"])
    (simp_all add: event_def)

lemma rounds_stderr [fuel_intros]: "rounds k \<Longrightarrow> rounds (fprintf_stderr s k)"
  by (rule rounds_prefix[where k = k and g = "\<lambda>w. after_io (w\<lparr>eout := eout w @ s\<rparr>)"])
    (simp_all add: fprintf_stderr_def)

lemma rounds_set_errno [fuel_intros]: "rounds k \<Longrightarrow> rounds (set_errno e k)"
  by (rule rounds_prefix[where k = k and g = "\<lambda>w. w\<lparr>errno := e\<rparr>"]) (simp_all add: set_errno_def)

lemma rounds_get [fuel_intros]: "(\<And>x. rounds (k x)) \<Longrightarrow> rounds (get f k)"
  by (simp add: rounds_def exec_simps)

lemma shrinks_get [fuel_intros]: "(\<And>x. shrinks (k x)) \<Longrightarrow> shrinks (get f k)"
  by (simp add: shrinks_def exec_simps)

lemma shrinks_call [fuel_intros]:
  assumes "\<And>r. shrinks (k r)"
  shows "shrinks (call c k)"
  unfolding shrinks_def
proof
  fix w :: world
  have "wp (k r) (\<lambda>r w'. r \<noteq> No_fuel \<and> length (script w') \<le> length (script w)) w1"
    if "length (script w1) \<le> length (script w)" for r and w1 :: world
    by (rule wp_mono[OF assms[unfolded shrinks_def, rule_format]]) (use that in auto)
  then show "wp (call c k) (\<lambda>r w'. r \<noteq> No_fuel \<and> length (script w') \<le> length (script w)) w"
    by (auto simp: wp_call)
qed

lemma rounds_call [fuel_intros]:
  assumes "\<And>r. shrinks (k r)"
  shows "rounds (call c k)"
  unfolding rounds_def
proof
  fix w :: world
  let ?Q = "\<lambda>r w'. r \<noteq> No_fuel \<and> length (script w') \<le> length (script w)
     \<and> (\<forall>x. r = Return (Inl x) \<longrightarrow> length (script w') < length (script w))"
  have "wp (k r) ?Q w1" if "length (script w1) < length (script w)" for r and w1 :: world
    by (rule wp_mono[OF assms[unfolded shrinks_def, rule_format]]) (use that in auto)
  then show "wp (call c k) ?Q w"
    by (auto simp: wp_call)
qed

lemma shrinks_seq [fuel_intros]:
  assumes "shrinks p" "\<And>x. shrinks (k x)"
  shows "shrinks (seq p k)"
  unfolding shrinks_def wp_seq
proof
  fix w :: world
  let ?Q = "\<lambda>r w'. r \<noteq> No_fuel \<and> length (script w') \<le> length (script w)"
  have k: "wp (k x) ?Q w1" if "length (script w1) \<le> length (script w)" for w1 :: world and x
    by (rule wp_mono[OF assms(2)[unfolded shrinks_def, rule_format]]) (use that in auto)
  show "wp p (lift (\<lambda>x. wp (k x) ?Q) ?Q) w"
    by (rule wp_mono[OF assms(1)[unfolded shrinks_def, rule_format]])
      (auto simp: lift_def k split: result.splits)
qed

lemma rounds_seq [fuel_intros]:
  assumes "shrinks p" "\<And>x. rounds (k x)"
  shows "rounds (seq p k)"
  unfolding rounds_def wp_seq
proof
  fix w :: world
  let ?Q = "\<lambda>r w'. r \<noteq> No_fuel \<and> length (script w') \<le> length (script w)
     \<and> (\<forall>x. r = Return (Inl x) \<longrightarrow> length (script w') < length (script w))"
  have k: "wp (k x) ?Q w1" if "length (script w1) \<le> length (script w)" for w1 :: world and x
    by (rule wp_mono[OF assms(2)[unfolded rounds_def, rule_format]]) (use that in auto)
  show "wp p (lift (\<lambda>x. wp (k x) ?Q) ?Q) w"
  proof (rule wp_mono[OF assms(1)[unfolded shrinks_def, rule_format]], goal_cases)
    case (1 r w1)
    with k[of w1] show ?case by (cases r) auto
  qed
qed

lemma rounds_seq_first:
  assumes "\<And>w. wp p (\<lambda>r w'. r \<noteq> No_fuel \<and> length (script w') \<le> length (script w)
      \<and> (\<forall>x. r = Return x \<longrightarrow> length (script w') < length (script w))) w"
    and "\<And>x. shrinks (k x)"
  shows "rounds (seq p k)"
  unfolding rounds_def wp_seq
proof
  fix w :: world
  let ?Q = "\<lambda>r w'. r \<noteq> No_fuel \<and> length (script w') \<le> length (script w)
     \<and> (\<forall>x. r = Return (Inl x) \<longrightarrow> length (script w') < length (script w))"
  have k: "wp (k x) ?Q w1" if "length (script w1) < length (script w)" for w1 :: world and x
    by (rule wp_mono[OF assms(2)[unfolded shrinks_def, rule_format]]) (use that in auto)
  show "wp p (lift (\<lambda>x. wp (k x) ?Q) ?Q) w"
  proof (rule wp_mono[OF assms(1)], goal_cases)
    case (1 r w1)
    with k[of w1] show ?case by (cases r) auto
  qed
qed

lemma shrinks_each [fuel_intros]: "(\<And>x. shrinks (body x)) \<Longrightarrow> shrinks (each body xs)"
  by (induction xs) (auto intro: fuel_intros)

lemma shrinks_loop [fuel_intros]:
  assumes "\<And>s. rounds (body s)"
  shows "shrinks (loop body s)"
  unfolding shrinks_def
proof
  fix w :: world
  show "wp (loop body s) (\<lambda>r w'. r \<noteq> No_fuel \<and> length (script w') \<le> length (script w)) w"
    by (rule loop_rule[where I = "\<lambda>s w'. length (script w') \<le> length (script w)"])
      (auto intro!: wp_mono[OF assms[unfolded rounds_def, rule_format]] split: result.splits sum.splits)
qed

lemma ends_if [fuel_intros]:
  "(b \<Longrightarrow> shrinks p) \<Longrightarrow> (\<not> b \<Longrightarrow> shrinks q) \<Longrightarrow> shrinks (if b then p else q)"
  "(b \<Longrightarrow> rounds p') \<Longrightarrow> (\<not> b \<Longrightarrow> rounds q') \<Longrightarrow> rounds (if b then p' else q')"
  by simp_all

lemma ends_option [fuel_intros]:
  "shrinks p \<Longrightarrow> (\<And>x. shrinks (q x)) \<Longrightarrow> shrinks (case m of None \<Rightarrow> p | Some x \<Rightarrow> q x)"
  "rounds p' \<Longrightarrow> (\<And>x. rounds (q' x)) \<Longrightarrow> rounds (case m of None \<Rightarrow> p' | Some x \<Rightarrow> q' x)"
  by (simp_all split: option.splits)

lemma ends_prod [fuel_intros]:
  "(\<And>x y. shrinks (k x y)) \<Longrightarrow> shrinks (case z of (x, y) \<Rightarrow> k x y)"
  "(\<And>x y. rounds (k' x y)) \<Longrightarrow> rounds (case z of (x, y) \<Rightarrow> k' x y)"
  by (simp_all split: prod.splits)

lemma ends_if_fun [fuel_intros]:
  "shrinks (if b then f k else g k) \<Longrightarrow> shrinks ((if b then f else g) k)"
  "rounds (if b then f' k' else g' k') \<Longrightarrow> rounds ((if b then f' else g') k')"
  by (simp_all split: if_splits)

lemma ends_list [fuel_intros]:
  "shrinks p \<Longrightarrow> (\<And>x xs. shrinks (q x xs)) \<Longrightarrow> shrinks (case m of [] \<Rightarrow> p | x # xs \<Rightarrow> q x xs)"
  "rounds p' \<Longrightarrow> (\<And>x xs. rounds (q' x xs)) \<Longrightarrow> rounds (case m of [] \<Rightarrow> p' | x # xs \<Rightarrow> q' x xs)"
  by (simp_all split: list.splits)

lemma ends_let [fuel_intros]: "shrinks (f x) \<Longrightarrow> shrinks (Let x f)" "rounds (f' x) \<Longrightarrow> rounds (Let x f')"
  by (simp_all add: Let_def)

lemma ends_reply [fuel_intros]:
  "(\<And>x. shrinks (a x)) \<Longrightarrow> (\<And>x. shrinks (b x)) \<Longrightarrow> (\<And>x. shrinks (c x)) \<Longrightarrow> (\<And>x. shrinks (d x)) \<Longrightarrow>
    (\<And>x. shrinks (e x)) \<Longrightarrow> (\<And>x. shrinks (f x)) \<Longrightarrow> shrinks g \<Longrightarrow> shrinks (case_reply a b c d e f g r)"
  by (cases r) simp_all

section \<open>Unfolding a loop\<close>

text \<open>More fuel does not change a result, so a loop unfolds like the loop of the source.\<close>

lemma iter_more_fuel:
  "iter n body s w = (r, w') \<Longrightarrow> r \<noteq> No_fuel \<Longrightarrow> n \<le> m \<Longrightarrow> iter m body s w = (r, w')"
proof (induction n arbitrary: m s w)
  case 0
  then show ?case by (simp add: stop_def)
next
  case (Suc n)
  then obtain m' where m: "m = Suc m'" "n \<le> m'" by (cases m) auto
  obtain q w1 where b: "body s w = (q, w1)" by (cases "body s w")
  show ?case
  proof (cases q)
    case (Return x)
    then show ?thesis
      using Suc.prems b m Suc.IH[of _ w1 m'] by (cases x) (auto simp: seq_def)
  qed (use Suc.prems b m in \<open>auto simp: seq_def\<close>)
qed

section \<open>Traces of descriptors\<close>

text \<open>The descriptors a stretch of the trace opened and closed, each in the order of the calls.\<close>

definition opens :: "syscall \<times> reply \<Rightarrow> int list" where
  "opens e = (case fst e of
      Sock (Socket a b c) \<Rightarrow> if rv (snd e) = -1 then [] else [rv (snd e)]
    | Sock (Accept a) \<Rightarrow> if rv (snd e) = -1 then [] else [rv (snd e)]
    | Path (Open a b c) \<Rightarrow> if rv (snd e) = -1 then [] else [rv (snd e)]
    | Tty Posix_openpt \<Rightarrow> if rv (snd e) = -1 then [] else [rv (snd e)]
    | _ \<Rightarrow> [])"

definition closes :: "syscall \<times> reply \<Rightarrow> int list" where
  "closes e = (case e of (Fd (Close fd), r) \<Rightarrow> [fd] | _ \<Rightarrow> [])"

definition opened :: "(syscall \<times> reply) list \<Rightarrow> int list" where
  "opened t = concat (map opens t)"

definition closed :: "(syscall \<times> reply) list \<Rightarrow> int list" where
  "closed t = concat (map closes t)"

lemma opened_simps [simp]:
  "opened [] = []" "opened (t @ u) = opened t @ opened u" "opened (e # t) = opens e @ opened t"
  by (simp_all add: opened_def)

lemma closed_simps [simp]:
  "closed [] = []" "closed (t @ u) = closed t @ closed u" "closed (e # t) = closes e @ closed t"
  by (simp_all add: closed_def)

section \<open>Descriptors left open\<close>

text \<open>
  \<open>leaves_open w w' fds\<close>: in the stretch of the trace from \<open>w\<close> to \<open>w'\<close> every descriptor that was
  opened was closed again, in the order of opening, except for the last ones, \<open>fds\<close>.
\<close>

definition leaves_open :: "world \<Rightarrow> world \<Rightarrow> int list \<Rightarrow> bool" where
  "leaves_open w w' fds \<longleftrightarrow> (\<exists>t. trace w' = trace w @ t \<and> opened t = closed t @ fds)"

lemma leaves_open_refl [simp]: "leaves_open w w []"
  by (simp add: leaves_open_def)

lemma leaves_open_step:
  "leaves_open w1 w' fds \<Longrightarrow> trace w1 = trace w @ t \<Longrightarrow> opened t = closed t \<Longrightarrow> leaves_open w w' fds"
  by (auto simp: leaves_open_def)

lemma leaves_openI:
  "trace w' = trace w @ t \<Longrightarrow> opened t = closed t @ fds \<Longrightarrow> leaves_open w w' fds"
  by (auto simp: leaves_open_def)

lemma opens_simps [simp]:
  "opens (Sock (Socket a b c), r) = (if rv r = -1 then [] else [rv r])"
  "opens (Sock (Accept a), r) = (if rv r = -1 then [] else [rv r])"
  "opens (Path (Open p f m), r) = (if rv r = -1 then [] else [rv r])"
  "opens (Tty Posix_openpt, r) = (if rv r = -1 then [] else [rv r])"
  "opens (Sock (Connect a s), r) = []" "opens (Sock (Bind a s), r) = []"
  "opens (Sock (Listen a n), r) = []" "opens (Sock (Setsockopt a s n), r) = []"
  "opens (Sock (Getaddrinfo h s n), r) = []" "opens (Fd c', r) = []" "opens (Lib l is, r) = []"
  "opens (Proc p', r) = []" "opens (Tty (Grantpt a), r) = []" "opens (Tty (Unlockpt a), r) = []"
  "opens (Tty (Ptsname a), r) = []" "opens (Sock (Getnameinfo s), r) = []" "opens (Sock (Shutdown a s), r) = []"
  "opens (Ipc i, r) = []" "opens (User u, r) = []"
  by (simp_all add: opens_def)

lemma closes_simps [simp]:
  "closes (Sock s, r) = []" "closes (Path p, r) = []" "closes (Proc c, r) = []"
  "closes (Tty t, r) = []" "closes (Lib n is, r) = []" "closes (Ipc i, r) = []" "closes (User u, r) = []" "closes (Fd f, r) = (case f of Close fd \<Rightarrow> [fd] | _ \<Rightarrow> [])"
  by (simp_all add: closes_def)


section \<open>A world to compute in\<close>

definition booted :: "reply list \<Rightarrow> world" where
  "booted rs = \<lparr>script = rs, trace = [], errno = 0, obuf = [], out = [], eout = [],
     ename_tab = ['''', ''EPERM'', ''ENOENT''], err_text = (\<lambda>e. ''error''), getenv = (\<lambda>n. None),
     io_errno = None\<rparr>"

lemma booted_simps [simp]:
  "script (booted rs) = rs" "trace (booted rs) = []" "errno (booted rs) = 0" "obuf (booted rs) = []"
  "out (booted rs) = []" "eout (booted rs) = []" "getenv (booted rs) n = None"
  "io_errno (booted rs) = None"
  by (simp_all add: booted_def)

end
