(* ===== verification/ErrorFunctions.thy ===== *)
theory ErrorFunctions
  imports Kernel
begin

text \<open>
  \<open>lib/error_functions.c\<close>: the diagnostics every program of the repository ends with. A message is
  given already formatted. \<open>ename\<close> is a table of a generated file, so it is read from the world.
\<close>

definition BUF_SIZE :: nat where "BUF_SIZE = 500"

definition snprintf :: "nat \<Rightarrow> string \<Rightarrow> string" where
  \<comment> \<open>what fits into a buffer of \<open>n\<close> bytes beside the null byte\<close>
  "snprintf n s = take (n - 1) s"

definition terminate :: "bool \<Rightarrow> 'a prog" where
  "terminate use_exit3 = get getenv (\<lambda>env.
     case env ''EF_DUMPCORE'' of
       Some (c # cs) \<Rightarrow> stop Aborted
     | _ \<Rightarrow> if use_exit3 then exit_prog EXIT_FAILURE else uexit_prog EXIT_FAILURE)"

definition ename_of :: "string list \<Rightarrow> int \<Rightarrow> string" where
  "ename_of tab err = (if 0 < err \<and> err < int (length tab) then tab ! nat err else ''?UNKNOWN?'')"

definition error_line :: "bool \<Rightarrow> int \<Rightarrow> string \<Rightarrow> world \<Rightarrow> string" where
  "error_line use_err err msg w =
     (let user_msg = snprintf BUF_SIZE msg;
          etext = snprintf BUF_SIZE
            (if use_err then '' ['' @ ename_of (ename_tab w) err @ '' '' @ err_text w err @ '']''
             else '':'')
      in snprintf BUF_SIZE (CHR 0x1B # ''[1;31mERROR'' @ CHR 0x1B # ''[m'' @ etext @ '' '' @ user_msg @ [NL]))"

definition outputError :: "bool \<Rightarrow> int \<Rightarrow> bool \<Rightarrow> string \<Rightarrow> 'a prog \<Rightarrow> 'a prog" where
  "outputError use_err err flush_stdout msg k =
     get (error_line use_err err msg) (\<lambda>buf.
       if flush_stdout then fflush_stdout (fprintf_stderr buf k) else fprintf_stderr buf k)"

definition errMsg :: "string \<Rightarrow> 'a prog \<Rightarrow> 'a prog" where
  "errMsg msg k = get errno (\<lambda>saved_errno.
     outputError True saved_errno True msg (set_errno saved_errno k))"

definition errExit :: "string \<Rightarrow> 'a prog" where
  "errExit msg = get errno (\<lambda>e. outputError True e True msg (terminate True))"

definition err_exit :: "string \<Rightarrow> 'a prog" where
  "err_exit msg = get errno (\<lambda>e. outputError True e False msg (terminate False))"

definition errExitEN :: "int \<Rightarrow> string \<Rightarrow> 'a prog" where
  "errExitEN errnum msg = outputError True errnum True msg (terminate True)"

definition fatal :: "string \<Rightarrow> 'a prog" where
  "fatal msg = outputError False 0 True msg (terminate True)"

definition usageErr :: "string \<Rightarrow> 'a prog" where
  "usageErr msg = fflush_stdout (fprintf_stderr ''Usage: '' (fprintf_stderr msg
     (fprintf_stderr [NL] (exit_prog EXIT_FAILURE))))"

definition cmdLineErr :: "string \<Rightarrow> 'a prog" where
  "cmdLineErr msg = fflush_stdout (fprintf_stderr ''Command-line usage error: '' (fprintf_stderr msg
     (fprintf_stderr [NL] (exit_prog EXIT_FAILURE))))"

text \<open>The idiom of the programs: \<open>if (f(...) == -1) errExit("...")\<close>, and one for null pointers.\<close>

definition or_die :: "syscall \<Rightarrow> string \<Rightarrow> (reply \<Rightarrow> 'a prog) \<Rightarrow> 'a prog" where
  "or_die c msg k = call c (\<lambda>r. if rv r = -1 then errExit msg else k r)"

definition or_die_null :: "syscall \<Rightarrow> string \<Rightarrow> (reply \<Rightarrow> 'a prog) \<Rightarrow> 'a prog" where
  "or_die_null c msg k = call c (\<lambda>r. if is_null_reply r then errExit msg else k r)"

definition lib :: "string \<Rightarrow> int list \<Rightarrow> (reply \<Rightarrow> 'a prog) \<Rightarrow> 'a prog" where
  "lib f args k = call (Lib f args) k"

section \<open>How they end\<close>

definition dump_core :: "world \<Rightarrow> bool" where
  "dump_core w = (case getenv w ''EF_DUMPCORE'' of Some (c # cs) \<Rightarrow> True | _ \<Rightarrow> False)"

definition end_of :: "bool \<Rightarrow> world \<Rightarrow> 'a result" where
  "end_of use_exit3 w = (if dump_core w then Aborted
     else if use_exit3 then Exited EXIT_FAILURE else UExited EXIT_FAILURE)"

definition is_end :: "'a result \<Rightarrow> bool" where
  \<comment> \<open>the process has terminated with a failure\<close>
  "is_end r = (r = Aborted \<or> r = Exited EXIT_FAILURE \<or> r = UExited EXIT_FAILURE)"

lemma is_end_simps [simp]:
  "is_end Aborted" "is_end (Exited EXIT_FAILURE)" "is_end (UExited EXIT_FAILURE)"
  "\<not> is_end (Return x)" "\<not> is_end Blocked" "\<not> is_end (Fault f)" "\<not> is_end No_fuel"
  by (simp_all add: is_end_def)

lemma is_end_end_of [simp]: "is_end (end_of b w)"
  by (simp add: is_end_def end_of_def)

lemma end_of_not [simp]:
  "end_of b w \<noteq> Return x" "end_of b w \<noteq> Blocked" "end_of b w \<noteq> Fault f" "end_of b w \<noteq> No_fuel"
  by (simp_all add: end_of_def)

lemma lift_end [simp]: "is_end r \<Longrightarrow> lift P Q r w = Q (case r of Aborted \<Rightarrow> Aborted
    | Exited n \<Rightarrow> Exited n | UExited n \<Rightarrow> UExited n | _ \<Rightarrow> Aborted) w"
  by (cases r) (auto simp: is_end_def)

definition flushed :: "world \<Rightarrow> world" where
  "flushed w = after_io (w\<lparr>out := out w @ obuf w, obuf := []\<rparr>)"

definition told :: "string \<Rightarrow> world \<Rightarrow> world" where
  "told s w = after_io (w\<lparr>eout := eout w @ s\<rparr>)"

definition ended :: "bool \<Rightarrow> world \<Rightarrow> world" where
  "ended use_exit3 w = (if \<not> dump_core w \<and> use_exit3 then flushed w else w)"

lemma flushed_simps [simp]:
  "script (flushed w) = script w" "trace (flushed w) = trace w" "obuf (flushed w) = []"
  "out (flushed w) = out w @ obuf w" "eout (flushed w) = eout w" "getenv (flushed w) = getenv w"
  "ename_tab (flushed w) = ename_tab w" "err_text (flushed w) = err_text w"
  "io_errno (flushed w) = io_errno w"
  by (simp_all add: flushed_def)

lemma told_simps [simp]:
  "script (told s w) = script w" "trace (told s w) = trace w" "obuf (told s w) = obuf w"
  "out (told s w) = out w" "eout (told s w) = eout w @ s" "getenv (told s w) = getenv w"
  "ename_tab (told s w) = ename_tab w" "err_text (told s w) = err_text w"
  "io_errno (told s w) = io_errno w"
  by (simp_all add: told_def)

lemma dump_core_simps [simp]:
  "dump_core (flushed w) = dump_core w" "dump_core (told s w) = dump_core w"
  "dump_core (w\<lparr>errno := e\<rparr>) = dump_core w" "dump_core (w\<lparr>obuf := b\<rparr>) = dump_core w"
  by (simp_all add: dump_core_def)

lemma ended_simps [simp]:
  "script (ended b w) = script w" "trace (ended b w) = trace w" "eout (ended b w) = eout w"
  "out (ended b w) @ obuf (ended b w) = out w @ obuf w"
  by (simp_all add: ended_def)

lemma error_line_simps [simp]:
  "error_line u e m (flushed w) = error_line u e m w"
  by (simp add: error_line_def)

lemma wp_terminate [exec_simps]: "wp (terminate b) Q w = Q (end_of b w) (ended b w)"
  by (simp add: terminate_def exec_simps end_of_def dump_core_def ended_def flushed_def
      split: option.splits list.splits)

lemma wp_outputError [exec_simps]: "wp (outputError u e f msg k) Q w
    = wp k Q (told (error_line u e msg w) (if f then flushed w else w))"
  by (simp add: outputError_def exec_simps told_def flushed_def)

text \<open>The state in which a program is left by the two families of diagnostics.\<close>

definition die :: "bool \<Rightarrow> int \<Rightarrow> bool \<Rightarrow> string \<Rightarrow> world \<Rightarrow> world" where
  "die u e f msg w = ended f (told (error_line u e msg w) (if f then flushed w else w))"

definition usage_die :: "string \<Rightarrow> string \<Rightarrow> world \<Rightarrow> world" where
  "usage_die head msg w = flushed (told [NL] (told msg (told head (flushed w))))"

lemma die_simps [simp]:
  "script (die u e f msg w) = script w" "trace (die u e f msg w) = trace w"
  "eout (die u e f msg w) = eout w @ error_line u e msg w"
  by (simp_all add: die_def)

lemma usage_die_simps [simp]:
  "script (usage_die h msg w) = script w" "trace (usage_die h msg w) = trace w"
  "eout (usage_die h msg w) = eout w @ h @ msg @ [NL]" "obuf (usage_die h msg w) = []"
  "out (usage_die h msg w) = out w @ obuf w"
  by (simp_all add: usage_die_def)

lemma wp_errExit [exec_simps]: "wp (errExit msg) Q w = Q (end_of True w) (die True (errno w) True msg w)"
  by (simp add: errExit_def exec_simps die_def end_of_def)

lemma wp_err_exit [exec_simps]: "wp (err_exit msg) Q w = Q (end_of False w) (die True (errno w) False msg w)"
  by (simp add: err_exit_def exec_simps die_def end_of_def)

lemma wp_errExitEN [exec_simps]: "wp (errExitEN e msg) Q w = Q (end_of True w) (die True e True msg w)"
  by (simp add: errExitEN_def exec_simps die_def end_of_def)

lemma wp_fatal [exec_simps]: "wp (fatal msg) Q w = Q (end_of True w) (die False 0 True msg w)"
  by (simp add: fatal_def exec_simps die_def end_of_def)

lemma wp_usageErr [exec_simps]: "wp (usageErr msg) Q w = Q (Exited EXIT_FAILURE) (usage_die ''Usage: '' msg w)"
  by (simp add: usageErr_def exec_simps usage_die_def told_def flushed_def)

lemma wp_cmdLineErr [exec_simps]:
  "wp (cmdLineErr msg) Q w = Q (Exited EXIT_FAILURE) (usage_die ''Command-line usage error: '' msg w)"
  by (simp add: cmdLineErr_def exec_simps usage_die_def told_def flushed_def)

lemma wp_errMsg [exec_simps]: "wp (errMsg msg k) Q w
    = wp k Q ((told (error_line True (errno w) msg w) (flushed w))\<lparr>errno := errno w\<rparr>)"
  by (simp add: errMsg_def exec_simps)

lemma wp_or_die [exec_simps]: "wp (or_die c msg k) Q w \<longleftrightarrow>
    (script w = [] \<longrightarrow> Q Blocked w) \<and>
    (\<forall>r rs. script w = r # rs \<longrightarrow> (let w1 = w\<lparr>script := rs, trace := trace w @ [(c, r)],
        errno := reply_errno r (errno w)\<rparr> in
      if rv r = -1 then Q (end_of True w1) (die True (errno w1) True msg w1) else wp (k r) Q w1))"
  by (auto simp: or_die_def exec_simps Let_def)

lemma wp_or_die_null [exec_simps]: "wp (or_die_null c msg k) Q w \<longleftrightarrow>
    (script w = [] \<longrightarrow> Q Blocked w) \<and>
    (\<forall>r rs. script w = r # rs \<longrightarrow> (let w1 = w\<lparr>script := rs, trace := trace w @ [(c, r)],
        errno := reply_errno r (errno w)\<rparr> in
      if is_null_reply r then Q (end_of True w1) (die True (errno w1) True msg w1) else wp (k r) Q w1))"
  by (auto simp: or_die_null_def exec_simps Let_def)

lemma wp_lib [exec_simps]: "wp (lib f args k) Q w = wp (call (Lib f args) k) Q w"
  by (simp add: lib_def)

lemma shrinks_diagnostics [fuel_intros]:
  "shrinks (errExit msg)" "shrinks (err_exit msg)" "shrinks (errExitEN e msg)" "shrinks (fatal msg)"
  "shrinks (usageErr msg)" "shrinks (cmdLineErr msg)"
  by (simp_all add: shrinks_def exec_simps)

lemma rounds_diagnostics [fuel_intros]:
  "rounds (errExit msg)" "rounds (err_exit msg)" "rounds (errExitEN e msg)" "rounds (fatal msg)"
  "rounds (usageErr msg)" "rounds (cmdLineErr msg)"
  by (simp_all add: rounds_def exec_simps)

lemma shrinks_errMsg [fuel_intros]: "shrinks k \<Longrightarrow> shrinks (errMsg msg k)"
  by (rule shrinks_prefix[where k = k and g = "\<lambda>w. (told (error_line True (errno w) msg w) (flushed w))\<lparr>errno := errno w\<rparr>"])
    (simp_all add: errMsg_def outputError_def get_def fflush_stdout_def fprintf_stderr_def set_errno_def told_def flushed_def)

lemma ends_or_die [fuel_intros]:
  "(\<And>r. shrinks (k r)) \<Longrightarrow> shrinks (or_die c msg k)" "(\<And>r. shrinks (k' r)) \<Longrightarrow> rounds (or_die c msg k')"
  "(\<And>r. shrinks (k r)) \<Longrightarrow> shrinks (or_die_null c msg k)"
  "(\<And>r. shrinks (k' r)) \<Longrightarrow> rounds (or_die_null c msg k')"
  "(\<And>r. shrinks (k r)) \<Longrightarrow> shrinks (lib f as k)" "(\<And>r. shrinks (k' r)) \<Longrightarrow> rounds (lib f as k')"
  unfolding or_die_def or_die_null_def lib_def by (auto intro!: fuel_intros)

lemma length_error_line: "length (error_line u e msg w) < BUF_SIZE"
  by (simp add: error_line_def snprintf_def BUF_SIZE_def)

section \<open>Properties\<close>

text \<open>\<open>errMsg\<close> is transparent: it goes on with the \<open>errno\<close> it was called with, whatever stdio did to
  it, after it flushed \<open>stdout\<close> and wrote one line of at most 499 characters that carries the
  message's error.\<close>

theorem errMsg_preserves_errno:
  "wp (errMsg msg (ret ())) (\<lambda>r w'. r = Return () \<and> errno w' = errno w \<and> trace w' = trace w
     \<and> out w' = out w @ obuf w \<and> obuf w' = []
     \<and> (\<exists>line. eout w' = eout w @ line \<and> length line < BUF_SIZE \<and> line = error_line True (errno w) msg w)) w"
  by (simp add: exec_simps length_error_line)

text \<open>The diagnostics that end the process: \<open>errExit\<close> ends it with \<open>EXIT_FAILURE\<close> after a flush of
  \<open>stdout\<close>, \<open>err_exit\<close> leaves the buffered output unwritten, as a child of \<open>fork\<close> needs it, and both
  abort instead when \<open>EF_DUMPCORE\<close> is set to a non-empty string.\<close>

theorem errExit_ends:
  "wp (errExit msg) (\<lambda>r w'. (if dump_core w then r = Aborted else r = Exited EXIT_FAILURE)
     \<and> out w' = out w @ obuf w \<and> eout w' = eout w @ error_line True (errno w) msg w) w
   \<and> wp (err_exit msg) (\<lambda>r w'. (if dump_core w then r = Aborted else r = UExited EXIT_FAILURE)
     \<and> out w' = out w \<and> obuf w' = obuf w \<and> eout w' = eout w @ error_line True (errno w) msg w) w"
  by (simp add: exec_simps end_of_def die_def ended_def)

end
