(* ===== verification/GetNum.thy ===== *)
theory GetNum
  imports ErrorFunctions
begin

text \<open>
  The conversions of numbers: \<open>lib/get_num.c\<close> with its flags, \<open>getNum\<close> of \<open>lib/utils.h\<close> and the
  numeric half of \<open>lib/ugid_functions.c\<close>. \<open>flags\<close> is an \<open>int\<close>; its bits are tested as in the code.
\<close>

unbundle bit_operations_syntax

definition GN_NONNEG :: int where "GN_NONNEG = 1"
definition GN_GT_0 :: int where "GN_GT_0 = 2"
definition GN_ANY_BASE :: int where "GN_ANY_BASE = 64"
definition GN_BASE_8 :: int where "GN_BASE_8 = 128"
definition GN_BASE_16 :: int where "GN_BASE_16 = 256"

lemmas gn_flags = GN_NONNEG_def GN_GT_0_def GN_ANY_BASE_def GN_BASE_8_def GN_BASE_16_def

definition has_flag :: "int \<Rightarrow> int \<Rightarrow> bool" where
  "has_flag flags f = (flags AND f \<noteq> 0)"

definition gnFail :: "string \<Rightarrow> string \<Rightarrow> string option \<Rightarrow> string option \<Rightarrow> 'a prog" where
  "gnFail fname msg arg name =
     fprintf_stderr (fname @ '' error'')
       ((case name of None \<Rightarrow> (\<lambda>k. k) | Some n \<Rightarrow> fprintf_stderr ('' (in '' @ n @ '')''))
         (fprintf_stderr ('': '' @ msg @ [NL])
           ((case arg of None \<Rightarrow> (\<lambda>k. k) | Some [] \<Rightarrow> (\<lambda>k. k)
              | Some (c # cs) \<Rightarrow> fprintf_stderr (''        offending text: '' @ (c # cs) @ [NL]))
             (exit_prog EXIT_FAILURE))))"

definition getNum :: "string \<Rightarrow> string option \<Rightarrow> int \<Rightarrow> string option \<Rightarrow> int prog" where
  "getNum fname arg flags name =
     (case arg of
        None \<Rightarrow> gnFail fname ''null or empty string'' arg name
      | Some s \<Rightarrow>
        (if s = [] then gnFail fname ''null or empty string'' arg name
         else
           let base = (if has_flag flags GN_ANY_BASE then 0 else if has_flag flags GN_BASE_8 then 8
                       else if has_flag flags GN_BASE_16 then 16 else 10);
               (num, endptr, erange) = strtol s base
           in set_errno (if erange then ERANGE else 0)
             (if erange then gnFail fname ''strtol() failed'' arg name
              else if endptr \<noteq> [] then gnFail fname ''nonnumeric characters'' arg name
              else if has_flag flags GN_NONNEG \<and> num < 0
                then gnFail fname ''negative value not allowed'' arg name
              else if has_flag flags GN_GT_0 \<and> num \<le> 0
                then gnFail fname ''value must be > 0'' arg name
              else ret num)))"

definition getLong :: "string option \<Rightarrow> int \<Rightarrow> string option \<Rightarrow> int prog" where
  "getLong arg flags name = getNum ''getLong'' arg flags name"

definition getInt :: "string option \<Rightarrow> int \<Rightarrow> string option \<Rightarrow> int prog" where
  "getInt arg flags name = seq (getNum ''getInt'' arg flags name) (\<lambda>res.
     if INT_MAX < res \<or> res < INT_MIN then gnFail ''getInt'' ''integer out of range'' arg name
     else ret (to_int32 res))"

text \<open>The older \<open>getNum\<close> of \<open>utils.h\<close>: the \<open>long\<close> of \<open>strtol\<close> is narrowed to \<open>int\<close> unchecked.\<close>

definition utils_getNum :: "string \<Rightarrow> string option \<Rightarrow> int prog" where
  "utils_getNum numStr msg =
     (let (v, rest, erange) = strtol numStr 10 in
      set_errno (if erange then ERANGE else 0)
        (if erange then errExit ''strtol''
         else if rest \<noteq> [] then errExit (case msg of None \<Rightarrow> ''strtol'' | Some m \<Rightarrow> m)
         else ret (to_int32 v)))"

section \<open>User and group identifiers\<close>

text \<open>A password or group entry is answered as its identifier and its name.\<close>

definition userNameFromId :: "int \<Rightarrow> string option prog" where
  "userNameFromId uid = call (User (Getpwuid uid)) (\<lambda>r.
     ret (case r of RStrs (n # ns) \<Rightarrow> Some n | _ \<Rightarrow> None))"

definition userIdFromName :: "string option \<Rightarrow> int prog" where
  "userIdFromName name =
     (case name of
        None \<Rightarrow> ret (to_uint32 (-1))
      | Some s \<Rightarrow>
        (if s = [] then ret (to_uint32 (-1))
         else let (u, endptr, erange) = strtol s 10 in
           (if erange then set_errno ERANGE else (\<lambda>k. k))
             (if endptr = [] then ret (to_uint32 u)
              else call (User (Getpwnam s)) (\<lambda>r.
                if is_null_reply r then ret (to_uint32 (-1)) else ret (to_uint32 (rv r))))))"

definition groupNameFromId :: "int \<Rightarrow> string option prog" where
  "groupNameFromId gid = call (User (Getgrgid gid)) (\<lambda>r.
     ret (case r of RStrs (n # ns) \<Rightarrow> Some n | _ \<Rightarrow> None))"

definition groupIdFromName :: "string option \<Rightarrow> int prog" where
  "groupIdFromName name =
     (case name of
        None \<Rightarrow> ret (to_uint32 (-1))
      | Some s \<Rightarrow>
        (if s = [] then ret (to_uint32 (-1))
         else let (g, endptr, erange) = strtol s 10 in
           (if erange then set_errno ERANGE else (\<lambda>k. k))
             (if endptr = [] then ret (to_uint32 g)
              else call (User (Getgrnam s)) (\<lambda>r.
                if is_null_reply r then ret (to_uint32 (-1)) else ret (to_uint32 (rv r))))))"

section \<open>Symbolic execution\<close>

definition gn_told :: "string \<Rightarrow> string \<Rightarrow> string option \<Rightarrow> string option \<Rightarrow> string" where
  "gn_told fname msg arg name = fname @ '' error''
     @ (case name of None \<Rightarrow> [] | Some n \<Rightarrow> '' (in '' @ n @ '')'') @ '': '' @ msg @ [NL]
     @ (case arg of None \<Rightarrow> [] | Some s \<Rightarrow>
          if s = [] then [] else ''        offending text: '' @ s @ [NL])"

lemma wp_gnFail: "wp (gnFail fname msg arg name) (\<lambda>r w'. r = Exited EXIT_FAILURE
    \<and> eout w' = eout w @ gn_told fname msg arg name \<and> script w' = script w \<and> trace w' = trace w) w"
  by (cases name; cases arg)
    (auto simp: gnFail_def gn_told_def exec_simps split: list.splits)

lemma wp_gnFail_any:
  assumes "\<And>w'. eout w' = eout w @ gn_told fname msg arg name \<Longrightarrow> script w' = script w \<Longrightarrow>
      trace w' = trace w \<Longrightarrow> Q (Exited EXIT_FAILURE) w'"
  shows "wp (gnFail fname msg arg name) Q w"
  by (rule wp_mono[OF wp_gnFail]) (auto intro: assms)

definition gn_base :: "int \<Rightarrow> nat" where
  "gn_base flags = (if has_flag flags GN_ANY_BASE then 0 else if has_flag flags GN_BASE_8 then 8
     else if has_flag flags GN_BASE_16 then 16 else 10)"

definition gn_allowed :: "int \<Rightarrow> int \<Rightarrow> bool" where
  "gn_allowed flags v \<longleftrightarrow> (has_flag flags GN_NONNEG \<longrightarrow> 0 \<le> v) \<and> (has_flag flags GN_GT_0 \<longrightarrow> 0 < v)"

definition gn_value :: "int \<Rightarrow> string option \<Rightarrow> int option" where
  \<comment> \<open>the number the flags let an argument stand for\<close>
  "gn_value flags arg = (case arg of None \<Rightarrow> None | Some s \<Rightarrow>
     (case strtol s (gn_base flags) of (v, rest, erange) \<Rightarrow>
       if s \<noteq> [] \<and> rest = [] \<and> \<not> erange \<and> gn_allowed flags v then Some v else None))"

lemma wp_getNum:
  assumes "\<And>v w'. gn_value flags arg = Some v \<Longrightarrow> trace w' = trace w \<Longrightarrow> script w' = script w \<Longrightarrow>
      eout w' = eout w \<Longrightarrow> Q (Return v) w'"
    and "\<And>w'. gn_value flags arg = None \<Longrightarrow> trace w' = trace w \<Longrightarrow> script w' = script w \<Longrightarrow>
      length (eout w) < length (eout w') \<Longrightarrow> Q (Exited EXIT_FAILURE) w'"
  shows "wp (getNum fname arg flags name) Q w"
proof (cases arg)
  case None
  then show ?thesis
    using assms(2) by (auto simp: getNum_def gn_value_def gn_told_def intro!: wp_gnFail_any)
next
  case (Some s)
  then show ?thesis
    using assms unfolding getNum_def gn_value_def gn_base_def[symmetric] gn_allowed_def
    by (cases "strtol s (gn_base flags)")
      (auto simp: exec_simps gn_told_def intro!: wp_gnFail_any)
qed

lemma wp_getInt:
  assumes "\<And>v w'. gn_value flags arg = Some v \<Longrightarrow> INT_MIN \<le> v \<Longrightarrow> v \<le> INT_MAX \<Longrightarrow>
      trace w' = trace w \<Longrightarrow> script w' = script w \<Longrightarrow> eout w' = eout w \<Longrightarrow> Q (Return v) w'"
    and "\<And>w'. (\<forall>v. gn_value flags arg = Some v \<longrightarrow> v < INT_MIN \<or> INT_MAX < v) \<Longrightarrow>
      trace w' = trace w \<Longrightarrow> script w' = script w \<Longrightarrow>
      length (eout w) < length (eout w') \<Longrightarrow> Q (Exited EXIT_FAILURE) w'"
  shows "wp (getInt arg flags name) Q w"
  unfolding getInt_def wp_seq
  using assms by (auto simp: exec_simps gn_told_def intro!: wp_getNum wp_gnFail_any)

section \<open>Properties\<close>

text \<open>C3: \<open>getInt\<close> is exact: it returns exactly the \<open>int\<close> that the whole argument denotes in the
  base the flags choose, if the flags allow it, without a call or a message; in every other case
  (null, empty, trailing text, out of range of \<open>long\<close> or of \<open>int\<close>, sign not allowed) it prints a
  diagnostic and exits with failure. It never returns a wrong number.\<close>

theorem getInt_exact:
  "wp (getInt arg flags name) (\<lambda>r w'. trace w' = trace w \<and>
     (case gn_value flags arg of
        Some v \<Rightarrow> if INT_MIN \<le> v \<and> v \<le> INT_MAX then r = Return v \<and> eout w' = eout w
                  else r = Exited EXIT_FAILURE \<and> length (eout w) < length (eout w')
      | None \<Rightarrow> r = Exited EXIT_FAILURE \<and> length (eout w) < length (eout w'))) w"
  by (rule wp_getInt) (auto split: option.splits)

text \<open>Printing and reading back: \<open>getInt\<close> with \<open>GN_ANY_BASE\<close> unset gives back every \<open>int\<close> that
  was printed with \<open>%d\<close>.\<close>

theorem getInt_show_int:
  assumes "INT_MIN \<le> i" "i \<le> INT_MAX"
  shows "\<exists>w'. getInt (Some (show_int i)) 0 name w = (Return i, w')"
proof -
  have "strtol (show_int i) 10 = (i, [], False)"
    using strtol_show_int[of i "[]"] assms by (simp add: int_limits)
  moreover have "show_int i \<noteq> []" by (simp add: show_int_def)
  ultimately have v: "gn_value 0 (Some (show_int i)) = Some i"
    by (simp add: gn_value_def gn_base_def gn_allowed_def has_flag_def)
  have "wp (getInt (Some (show_int i)) 0 name) (\<lambda>r w'. r = Return i) w"
    using assms v by (intro wp_getInt) auto
  then show ?thesis by (auto simp: wp_def split: prod.splits)
qed

lemma getInt_show_int_witness: "\<exists>w'. getInt (Some (show_int (-42))) 0 None (booted []) = (Return (-42), w')"
  by (rule getInt_show_int) (simp_all add: int_limits)

text \<open>The \<open>getNum\<close> of \<open>utils.h\<close> narrows silently: for every number in the range of \<open>long\<close> it
  returns that number reduced to 32 bits, so outside \<open>int\<close> it returns a number that was not
  typed, where \<open>getInt\<close> reports an error.\<close>

theorem utils_getNum_narrows:
  assumes "LONG_MIN \<le> i" "i \<le> LONG_MAX"
  shows "fst (utils_getNum (show_int i) msg w) = Return (to_int32 i)
    \<and> (INT_MAX < i \<longrightarrow> to_int32 i \<noteq> i
         \<and> (\<exists>w'. getInt (Some (show_int i)) 0 None w = (Exited EXIT_FAILURE, w')))"
proof -
  have s: "strtol (show_int i) 10 = (i, [], False)"
    using strtol_show_int[of i "[]"] assms by simp
  moreover have "show_int i \<noteq> []" by (simp add: show_int_def)
  ultimately have v: "gn_value 0 (Some (show_int i)) = Some i"
    by (simp add: gn_value_def gn_base_def gn_allowed_def has_flag_def)
  have "wp (getInt (Some (show_int i)) 0 None) (\<lambda>r w'. r = Exited EXIT_FAILURE) w" if "INT_MAX < i"
    using that v by (intro wp_getInt) auto
  moreover have "to_int32 i \<noteq> i" if "INT_MAX < i" using that to_int32_range(2)[of i] by linarith
  ultimately show ?thesis
    using s by (auto simp: utils_getNum_def set_errno_def ret_def wp_def split: prod.splits)
qed

lemma utils_getNum_narrows_witness:
  "fst (utils_getNum (show_int 4294967297) None (booted [])) = Return 1"
proof -
  have "to_int32 4294967297 = 1" by (simp add: to_int32_def signed_take_bit_eq_take_bit_shift take_bit_eq_mod)
  then show ?thesis
    using utils_getNum_narrows[of 4294967297 None "booted []"] by (simp add: int_limits)
qed

text \<open>A name that is a number never reaches the password database: \<open>userIdFromName\<close> reads back
  every identifier printed as a decimal number without making a call.\<close>

theorem userIdFromName_numeric:
  assumes "0 \<le> i" "i < 4294967296"
  shows "userIdFromName (Some (show_int i)) w = (Return i, w)"
proof -
  have "strtol (show_int i) 10 = (i, [], False)"
    using strtol_show_int[of i "[]"] assms by (simp add: int_limits)
  moreover have "show_int i \<noteq> []" by (simp add: show_int_def)
  ultimately show ?thesis using assms by (simp add: userIdFromName_def ret_def to_uint32_def)
qed

lemma userIdFromName_numeric_witness: "userIdFromName (Some (show_int 1000)) (booted []) = (Return 1000, booted [])"
  by (rule userIdFromName_numeric) simp_all

end
