(* ===== verification/Sockets.thy ===== *)
theory Sockets
  imports ErrorFunctions
begin

text \<open>
  \<open>lib/inet_sockets.c\<close> and \<open>lib/unix_sockets.c\<close>: making a connected, a bound or a listening socket.
  What the caller of these packages relies on is that a descriptor is either returned or closed;
  the properties say of every operation, for every behaviour of the kernel, which descriptors are
  left open.
\<close>

definition SOCK_STREAM :: int where "SOCK_STREAM = 1"
definition AF_UNIX :: int where "AF_UNIX = 1"

section \<open>Internet domain\<close>

fun connect_each :: "addrinfo list \<Rightarrow> int prog" where
  \<comment> \<open>the loop of \<open>inetConnect\<close>; -1 when the list is exhausted\<close>
  "connect_each [] = ret (-1)"
| "connect_each ((fam, ty, proto, addr) # rp) =
     call (Sock (Socket fam ty proto)) (\<lambda>r.
       if rv r = -1 then connect_each rp
       else call (Sock (Connect (rv r) addr)) (\<lambda>c.
         if rv c \<noteq> -1 then ret (rv r)
         else call (Fd (Close (rv r))) (\<lambda>_. connect_each rp)))"

definition freeaddrinfo :: "'a prog \<Rightarrow> 'a prog" where
  "freeaddrinfo k = event (Lib ''freeaddrinfo'' []) k"

definition inetConnect :: "string option \<Rightarrow> string \<Rightarrow> int \<Rightarrow> int prog" where
  "inetConnect host service ty =
     call (Sock (Getaddrinfo host service ty)) (\<lambda>s.
       case s of
         RAddrs result \<Rightarrow> seq (connect_each result) (\<lambda>sfd. freeaddrinfo (ret sfd))
       | _ \<Rightarrow> set_errno ENOSYS (ret (-1)))"

text \<open>
  The loop of \<open>inetPassiveSocket\<close> ends with the bound socket and its entry, at the end of the
  list, or at once when \<open>setsockopt\<close> fails.
\<close>

datatype bound = Bound int addrinfo | Nothing_bound | Gave_up

fun bind_each :: "addrinfo list \<Rightarrow> bool \<Rightarrow> bound prog" where
  "bind_each [] doListen = ret Nothing_bound"
| "bind_each ((fam, ty, proto, addr) # rp) doListen =
     call (Sock (Socket fam ty proto)) (\<lambda>r.
       if rv r = -1 then bind_each rp doListen
       else
         let try_bind = call (Sock (Bind (rv r) addr)) (\<lambda>b.
               if rv b = 0 then ret (Bound (rv r) (fam, ty, proto, addr))
               else call (Fd (Close (rv r))) (\<lambda>_. bind_each rp doListen))
         in if doListen
            then call (Sock (Setsockopt (rv r) ''SO_REUSEADDR'' 1)) (\<lambda>o'.
              if rv o' = -1 then call (Fd (Close (rv r))) (\<lambda>_. ret Gave_up) else try_bind)
            else try_bind)"

definition inetPassiveSocket :: "string \<Rightarrow> int \<Rightarrow> bool \<Rightarrow> int \<Rightarrow> (int \<times> string option) prog" where
  \<comment> \<open>the descriptor, and the address whose size goes to \<open>addrlen\<close>\<close>
  "inetPassiveSocket service ty doListen backlog =
     call (Sock (Getaddrinfo None service ty)) (\<lambda>s.
       case s of
         RAddrs result \<Rightarrow> seq (bind_each result doListen) (\<lambda>b.
           case b of
             Gave_up \<Rightarrow> freeaddrinfo (ret (-1, None))
           | Nothing_bound \<Rightarrow> freeaddrinfo (ret (-1, None))
           | Bound sfd (fam, t, proto, addr) \<Rightarrow>
               if doListen
               then call (Sock (Listen sfd backlog)) (\<lambda>l.
                 if rv l = -1 then freeaddrinfo (ret (-1, None))
                 else freeaddrinfo (ret (sfd, Some addr)))
               else freeaddrinfo (ret (sfd, Some addr)))
       | _ \<Rightarrow> ret (-1, None))"

definition inetListen :: "string \<Rightarrow> int \<Rightarrow> (int \<times> string option) prog" where
  "inetListen service backlog = inetPassiveSocket service SOCK_STREAM True backlog"

definition inetBind :: "string \<Rightarrow> int \<Rightarrow> (int \<times> string option) prog" where
  "inetBind service ty = inetPassiveSocket service ty False 0"

definition inetAddressStr :: "(int \<Rightarrow> string) \<Rightarrow> string \<Rightarrow> nat \<Rightarrow> string prog" where
  \<comment> \<open>\<open>gai_strerror\<close> is the table of the resolver's messages\<close>
  "inetAddressStr gai_strerror addr addrStrLen =
     call (Sock (Getnameinfo addr)) (\<lambda>r.
       case r of
         RStrs [host, service] \<Rightarrow>
           ret (snprintf addrStrLen (''('' @ host @ '', '' @ service @ '')''))
       | _ \<Rightarrow> ret (snprintf addrStrLen (gai_strerror (rv r))))"

section \<open>UNIX domain\<close>

definition unixConnect :: "string \<Rightarrow> int \<Rightarrow> int prog" where
  "unixConnect path ty =
     (if 108 \<le> length path then set_errno EINVAL (ret (-1))
      else call (Sock (Socket AF_UNIX ty 0)) (\<lambda>s.
        if rv s = -1 then ret (-1)
        else call (Sock (Connect (rv s) path)) (\<lambda>c.
          if rv c = -1 then ret (-1) else ret (rv s))))"

definition unixListen :: "string \<Rightarrow> int \<Rightarrow> int prog" where
  "unixListen path backlog =
     (if 108 \<le> length path then set_errno EINVAL (ret (-1))
      else call (Sock (Socket AF_UNIX SOCK_STREAM 0)) (\<lambda>s.
        if rv s = -1 then ret (-1)
        else call (Sock (Bind (rv s) path)) (\<lambda>b.
          if rv b = -1 then ret (-1)
          else call (Sock (Listen (rv s) backlog)) (\<lambda>l.
            if rv l = -1 then ret (-1) else ret (rv s)))))"

definition unixBind :: "string \<Rightarrow> int \<Rightarrow> int prog" where
  "unixBind path ty =
     (if 108 \<le> length path then set_errno EINVAL (ret (-1))
      else call (Sock (Socket AF_UNIX ty 0)) (\<lambda>s.
        if rv s = -1 then ret (-1)
        else call (Sock (Bind (rv s) path)) (\<lambda>b.
          if rv b = -1 then ret (-1) else ret (rv s))))"

section \<open>Which descriptors are left open\<close>

definition frees :: "(syscall \<times> reply) list \<Rightarrow> nat" where
  \<comment> \<open>how often the address list was freed\<close>
  "frees t = length (filter (\<lambda>e. fst e = Lib ''freeaddrinfo'' []) t)"

lemma frees_simps [simp]:
  "frees [] = 0" "frees (t @ u) = frees t + frees u"
  "frees (e # t) = (if fst e = Lib ''freeaddrinfo'' [] then 1 else 0) + frees t"
  by (simp_all add: frees_def)

definition sock_post :: "world \<Rightarrow> nat \<Rightarrow> int \<Rightarrow> world \<Rightarrow> bool" where
  \<comment> \<open>the descriptor is the only one left open; the list was freed \<open>n\<close> times\<close>
  "sock_post w n fd w' \<longleftrightarrow> (\<exists>t. trace w' = trace w @ t \<and> frees t = n
     \<and> opened t = closed t @ (if fd = -1 then [] else [fd]))"

lemma sock_post_step:
  "sock_post w1 n fd w' \<Longrightarrow> trace w1 = trace w @ t \<Longrightarrow> opened t = closed t \<Longrightarrow> frees t = 0
    \<Longrightarrow> sock_post w n fd w'"
  by (auto simp: sock_post_def)

lemma sock_postI:
  "trace w' = trace w @ t \<Longrightarrow> opened t = closed t @ (if fd = -1 then [] else [fd]) \<Longrightarrow> frees t = n
    \<Longrightarrow> sock_post w n fd w'"
  by (auto simp: sock_post_def)

lemma wp_connect_each:
  "wp (connect_each rp) (\<lambda>r w'. case r of Return fd \<Rightarrow> sock_post w 0 fd w' | Blocked \<Rightarrow> True | _ \<Rightarrow> False) w"
proof (induction rp arbitrary: w rule: connect_each.induct)
  case 1
  show ?case by (auto simp: exec_simps intro: sock_postI[of _ _ "[]"])
next
  case (2 fam ty proto addr rp)
  show ?case
    by (auto simp: exec_simps intro!: wp_mono[OF "2.IH"(1)] wp_mono[OF "2.IH"(2)]
        intro: sock_postI sock_post_step split: result.splits)
qed

text \<open>The sockets on which \<open>bind\<close>, \<open>connect\<close> or \<open>listen\<close> failed.\<close>

definition refused :: "(syscall \<times> reply) list \<Rightarrow> int list" where
  "refused t = concat (map (\<lambda>e. case fst e of
       Sock (Listen s n) \<Rightarrow> if rv (snd e) = -1 then [s] else []
     | Sock (Bind s a) \<Rightarrow> if rv (snd e) = -1 then [s] else []
     | Sock (Connect s a) \<Rightarrow> if rv (snd e) = -1 then [s] else []
     | _ \<Rightarrow> []) t)"

definition unlistened :: "(syscall \<times> reply) list \<Rightarrow> int list" where
  "unlistened t = concat (map (\<lambda>e. case fst e of
       Sock (Listen s n) \<Rightarrow> if rv (snd e) = -1 then [s] else [] | _ \<Rightarrow> []) t)"

lemma refused_simps [simp]:
  "refused [] = []" "refused (t @ u) = refused t @ refused u"
  by (simp_all add: refused_def)

lemma unlistened_simps [simp]:
  "unlistened [] = []" "unlistened (t @ u) = unlistened t @ unlistened u"
  by (simp_all add: unlistened_def)

definition bind_post :: "world \<Rightarrow> bound \<Rightarrow> world \<Rightarrow> bool" where
  "bind_post w b w' \<longleftrightarrow> (\<exists>t. trace w' = trace w @ t \<and> frees t = 0 \<and> unlistened t = []
     \<and> (case b of Bound sfd a \<Rightarrow> sfd \<noteq> -1 \<and> opened t = closed t @ [sfd] | _ \<Rightarrow> opened t = closed t))"

lemma bind_postI:
  "trace w' = trace w @ t \<Longrightarrow> frees t = 0 \<Longrightarrow> unlistened t = [] \<Longrightarrow>
    (case b of Bound sfd a \<Rightarrow> sfd \<noteq> -1 \<and> opened t = closed t @ [sfd] | _ \<Rightarrow> opened t = closed t) \<Longrightarrow>
    bind_post w b w'"
  by (auto simp: bind_post_def)

lemma bind_post_step:
  "bind_post w1 b w' \<Longrightarrow> trace w1 = trace w @ t \<Longrightarrow> opened t = closed t \<Longrightarrow> frees t = 0 \<Longrightarrow>
    unlistened t = [] \<Longrightarrow> bind_post w b w'"
  by (cases b) (auto simp: bind_post_def)

lemma unlistened_Cons [simp]:
  "unlistened ((Sock (Listen s n), r) # t) = (if rv r = -1 then [s] else []) @ unlistened t"
  "unlistened ((Sock (Socket a b c), r) # t) = unlistened t"
  "unlistened ((Sock (Bind s addr), r) # t) = unlistened t"
  "unlistened ((Sock (Setsockopt s q v), r) # t) = unlistened t"
  "unlistened ((Sock (Getaddrinfo h q v), r) # t) = unlistened t"
  "unlistened ((Fd f, r) # t) = unlistened t" "unlistened ((Lib l is, r) # t) = unlistened t"
  by (simp_all add: unlistened_def)

lemma refused_Cons [simp]:
  "refused ((Sock (Listen s n), r) # t) = (if rv r = -1 then [s] else []) @ refused t"
  "refused ((Sock (Bind s addr), r) # t) = (if rv r = -1 then [s] else []) @ refused t"
  "refused ((Sock (Connect s addr), r) # t) = (if rv r = -1 then [s] else []) @ refused t"
  "refused ((Sock (Socket a b c), r) # t) = refused t"
  by (simp_all add: refused_def)

lemma wp_bind_each:
  "wp (bind_each rp l) (\<lambda>r w'. case r of Return b \<Rightarrow> bind_post w b w' | Blocked \<Rightarrow> True | _ \<Rightarrow> False) w"
proof (induction rp arbitrary: l w)
  case Nil
  show ?case by (auto simp: exec_simps intro: bind_postI[of _ _ "[]"])
next
  case (Cons a rp)
  show ?case
    by (cases a) (auto simp: exec_simps Let_def intro!: wp_mono[OF Cons.IH]
        intro: bind_postI bind_post_step split: result.splits)
qed

text \<open>\<open>inetConnect\<close> leaks nothing: whatever the kernel answers, it returns or blocks, every
  socket it created and does not return was closed, and the address list was freed exactly once if
  there was one.\<close>

theorem inetConnect_no_leak:
  "wp (inetConnect host service ty) (\<lambda>r w'. case r of
     Return fd \<Rightarrow> (\<exists>s t. trace w' = trace w @ (Sock (Getaddrinfo host service ty), s) # t
       \<and> opened t = closed t @ (if fd = -1 then [] else [fd])
       \<and> frees t = (case s of RAddrs l \<Rightarrow> 1 | _ \<Rightarrow> 0))
   | Blocked \<Rightarrow> True | _ \<Rightarrow> False) w"
proof -
  have post: "\<exists>s u. trace (w'\<lparr>trace := trace w' @ [(Lib ''freeaddrinfo'' [], RVal 0)]\<rparr>) =
      trace w @ (c, s) # u \<and> opened u = closed u @ (if fd = -1 then [] else [fd])
      \<and> frees u = (case s of RAddrs l \<Rightarrow> 1 | _ \<Rightarrow> 0)"
    if "sock_post w1 0 fd w'" "trace w1 = trace w @ [(c, RAddrs l)]" for w1 w' fd c l
  proof -
    from that obtain t where "trace w' = trace w @ (c, RAddrs l) # t" "frees t = 0"
      "opened t = closed t @ (if fd = -1 then [] else [fd])"
      by (auto simp: sock_post_def)
    then show ?thesis
      by (intro exI[of _ "RAddrs l"] exI[of _ "t @ [(Lib ''freeaddrinfo'' [], RVal 0)]"]) auto
  qed
  have go: "wp (seq (connect_each l) (\<lambda>sfd. freeaddrinfo (ret sfd))) (\<lambda>r w'. case r of
     Return fd \<Rightarrow> (\<exists>s t. trace w' = trace w @ (c, s) # t
       \<and> opened t = closed t @ (if fd = -1 then [] else [fd])
       \<and> frees t = (case s of RAddrs l \<Rightarrow> 1 | _ \<Rightarrow> 0))
   | Blocked \<Rightarrow> True | _ \<Rightarrow> False) w1" if "trace w1 = trace w @ [(c, RAddrs l)]" for c l w1
    unfolding wp_seq
    by (rule wp_mono[OF wp_connect_each])
      (auto simp: exec_simps freeaddrinfo_def lift_def dest: post[OF _ that] split: result.splits)
  show ?thesis
    unfolding inetConnect_def wp_call
  proof (intro conjI allI impI, goal_cases)
    case (2 r rs)
    show ?case
    proof (cases r)
      case (RAddrs l)
      show ?thesis unfolding RAddrs reply.case by (intro go) simp
    qed (auto simp: exec_simps)
  qed simp
qed

text \<open>\<open>inetListen\<close> and \<open>inetBind\<close>: every socket that was created is returned or closed, except
  that a socket whose \<open>listen\<close> failed is neither: it is leaked on that error path.\<close>

theorem inetPassiveSocket_leak:
  "wp (inetPassiveSocket service ty doListen backlog) (\<lambda>r w'. case r of
     Return (fd, a) \<Rightarrow> (\<exists>t. trace w' = trace w @ t \<and> frees t \<le> 1
       \<and> (if fd = -1 then opened t = closed t @ unlistened t
          else opened t = closed t @ [fd] \<and> unlistened t = [])
       \<and> (doListen \<or> unlistened t = []))
   | Blocked \<Rightarrow> True | _ \<Rightarrow> False) w"
proof -
  have go: "wp (seq (bind_each l doListen) (\<lambda>b. case b of
             Gave_up \<Rightarrow> freeaddrinfo (ret (-1, None))
           | Nothing_bound \<Rightarrow> freeaddrinfo (ret (-1, None))
           | Bound sfd (fam, t, proto, addr) \<Rightarrow>
               if doListen
               then call (Sock (Listen sfd backlog)) (\<lambda>l.
                 if rv l = -1 then freeaddrinfo (ret (-1, None))
                 else freeaddrinfo (ret (sfd, Some addr)))
               else freeaddrinfo (ret (sfd, Some addr)))) (\<lambda>r w'. case r of
     Return (fd, a) \<Rightarrow> (\<exists>t. trace w' = trace w @ t \<and> frees t \<le> 1
       \<and> (if fd = -1 then opened t = closed t @ unlistened t
          else opened t = closed t @ [fd] \<and> unlistened t = [])
       \<and> (doListen \<or> unlistened t = []))
   | Blocked \<Rightarrow> True | _ \<Rightarrow> False) w1"
    if w1: "trace w1 = trace w @ [(Sock (Getaddrinfo h q v), RAddrs l)]" for l w1 h q v
    unfolding wp_seq
  proof (rule wp_mono[OF wp_bind_each], goal_cases)
    case (1 r w')
    show ?case
    proof (cases r)
      case (Return b)
      with 1 obtain t where t: "trace w' = trace w @ (Sock (Getaddrinfo h q v), RAddrs l) # t"
        "frees t = 0" "unlistened t = []"
        "case b of Bound sfd a \<Rightarrow> sfd \<noteq> -1 \<and> opened t = closed t @ [sfd] | _ \<Rightarrow> opened t = closed t"
        using w1 by (auto simp: bind_post_def)
      show ?thesis
        using t Return by (cases b) (auto simp: exec_simps freeaddrinfo_def)
    qed (use 1 in auto)
  qed
  show ?thesis
    unfolding inetPassiveSocket_def wp_call
  proof (intro conjI allI impI, goal_cases)
    case (2 r rs)
    show ?case
    proof (cases r)
      case (RAddrs l)
      show ?thesis unfolding RAddrs reply.case by (intro go) simp
    qed (auto simp: exec_simps)
  qed simp
qed

definition unix_post :: "string \<Rightarrow> world \<Rightarrow> int result \<Rightarrow> world \<Rightarrow> bool" where
  "unix_post path w r w' \<longleftrightarrow> (case r of
     Return fd \<Rightarrow> (\<exists>t. trace w' = trace w @ t
       \<and> (108 \<le> length path \<longrightarrow> fd = -1 \<and> t = [] \<and> errno w' = EINVAL)
       \<and> opened t = closed t @ (if fd = -1 then refused t else [fd])
       \<and> (fd \<noteq> -1 \<longrightarrow> refused t = []))
   | Blocked \<Rightarrow> True | _ \<Rightarrow> False)"

lemma unix_post_intros:
  "trace w' = trace w \<Longrightarrow> 108 \<le> length path \<Longrightarrow> errno w' = EINVAL \<Longrightarrow> unix_post path w (Return (-1)) w'"
  "trace w' = trace w @ t \<Longrightarrow> length path < 108 \<Longrightarrow> opened t = closed t @ refused t \<Longrightarrow>
    unix_post path w (Return (-1)) w'"
  "trace w' = trace w @ t \<Longrightarrow> length path < 108 \<Longrightarrow> opened t = closed t @ [fd] \<Longrightarrow> refused t = [] \<Longrightarrow>
    fd \<noteq> -1 \<Longrightarrow> unix_post path w (Return fd) w'"
  "unix_post path w Blocked w'"
  by (auto simp: unix_post_def)

text \<open>The UNIX domain routines refuse a path that does not fit \<open>sun_path\<close> with \<open>EINVAL\<close> before
  they create anything; otherwise the socket is returned or, when \<open>connect\<close>, \<open>bind\<close> or \<open>listen\<close>
  failed on it, left open although -1 is returned: each of the three routines leaks it.\<close>

theorem unix_sockets_leak:
  "wp (unixConnect path ty) (unix_post path w) w \<and> wp (unixBind path ty) (unix_post path w) w
    \<and> wp (unixListen path backlog) (unix_post path w) w"
  by (auto simp: unixConnect_def unixBind_def unixListen_def exec_simps
      intro: unix_post_intros unix_post_intros(2,3)[where t = "[x]" for x]
        unix_post_intros(2,3)[where t = "[x, y]" for x y]
        unix_post_intros(2,3)[where t = "[x, y, z]" for x y z])

section \<open>They end\<close>

lemma ends_sockets [fuel_intros]:
  "shrinks (connect_each l)" "shrinks (bind_each l b)" "shrinks (inetConnect h s t)" "shrinks (inetListen s n)"
  "shrinks (inetAddressStr g a k)"
proof -
  show c: "shrinks (connect_each l)" for l
    by (induction l rule: connect_each.induct) (auto intro!: fuel_intros)
  show b: "shrinks (bind_each l b)" for l b
    by (induction l b rule: bind_each.induct) (auto intro!: fuel_intros simp: Let_def)
  show "shrinks (inetConnect h s t)" "shrinks (inetListen s n)" "shrinks (inetAddressStr g a k)"
    unfolding inetConnect_def freeaddrinfo_def inetListen_def inetPassiveSocket_def inetAddressStr_def
    by (auto intro!: fuel_intros c b split: bound.splits)
qed

end
