(* ===== verification/Daemon.thy ===== *)
theory Daemon
  imports ErrorFunctions
begin

text \<open>
  \<open>lib/become_daemon.c\<close>, \<open>lib/pty_master_open.c\<close>, \<open>lib/pty_fork.c\<close>, \<open>lib/tty_functions.c\<close> and
  \<open>lib/signal_functions.c\<close>: processes that leave their session, pseudoterminals and terminal modes.
  \<open>fork\<close> is answered by what it returns, so a run of a model is the run of the parent or of the child.
\<close>

unbundle bit_operations_syntax

section \<open>becomeDaemon\<close>

definition BD_NO_CHDIR :: int where "BD_NO_CHDIR = 1"
definition BD_NO_CLOSE_FILES :: int where "BD_NO_CLOSE_FILES = 2"
definition BD_NO_REOPEN_STD_FDS :: int where "BD_NO_REOPEN_STD_FDS = 4"
definition BD_NO_UMASK0 :: int where "BD_NO_UMASK0 = 8"
definition BD_MAX_CLOSE :: int where "BD_MAX_CLOSE = 8192"

definition unless_flag :: "int \<Rightarrow> int \<Rightarrow> unit prog \<Rightarrow> unit prog" where
  "unless_flag flags f p = (if flags AND f = 0 then p else ret ())"

definition fork_to_child :: "int prog \<Rightarrow> int prog" where
  \<comment> \<open>the parent terminates, the child goes on\<close>
  "fork_to_child k = call (Proc Fork) (\<lambda>r.
     if rv r = -1 then ret (-1) else if rv r = 0 then k else uexit_prog EXIT_SUCCESS)"

definition reopen_std :: "int prog" where
  "reopen_std = call (Fd (Close 0)) (\<lambda>_.
     call (Path (Open ''/dev/null'' ''O_RDWR'' 0)) (\<lambda>fd.
       if rv fd \<noteq> 0 then ret (-1)
       else call (Fd (Dup2 0 1)) (\<lambda>d1.
         if rv d1 \<noteq> 1 then ret (-1)
         else call (Fd (Dup2 0 2)) (\<lambda>d2.
           if rv d2 \<noteq> 2 then ret (-1) else ret 0))))"

definition close_files :: "unit prog" where
  "close_files = call (Proc (Sysconf ''_SC_OPEN_MAX'')) (\<lambda>m.
     each (\<lambda>fd. call (Fd (Close (int fd))) (\<lambda>_. ret ()))
       [0..<nat (if to_int32 (rv m) = -1 then BD_MAX_CLOSE else to_int32 (rv m))])"

definition leave_session :: "int \<Rightarrow> int prog" where
  \<comment> \<open>what the grandchild does\<close>
  "leave_session flags =
     seq (unless_flag flags BD_NO_UMASK0 (call (Proc (Umask 0)) (\<lambda>_. ret ()))) (\<lambda>u.
     seq (unless_flag flags BD_NO_CHDIR (call (Path (Chdir ''/'')) (\<lambda>_. ret ()))) (\<lambda>u.
     seq (unless_flag flags BD_NO_CLOSE_FILES close_files) (\<lambda>u.
     if flags AND BD_NO_REOPEN_STD_FDS = 0 then reopen_std else ret 0)))"

definition becomeDaemon :: "int \<Rightarrow> int prog" where
  "becomeDaemon flags =
     fork_to_child (call (Proc Setsid) (\<lambda>s.
       if rv s = -1 then ret (-1) else fork_to_child (leave_session flags)))"

section \<open>Pseudoterminals\<close>

definition pty_fail :: "int \<Rightarrow> (int \<times> string) prog" where
  \<comment> \<open>close the master and return -1 with the \<open>errno\<close> of the call that failed\<close>
  "pty_fail masterFd = get errno (\<lambda>savedErrno.
     call (Fd (Close masterFd)) (\<lambda>_. set_errno savedErrno (ret (-1, []))))"

definition ptyMasterOpen :: "nat \<Rightarrow> (int \<times> string) prog" where
  \<comment> \<open>the descriptor and the name stored in \<open>slaveName\<close>\<close>
  "ptyMasterOpen snLen =
     call (Tty Posix_openpt) (\<lambda>m.
       if rv m = -1 then ret (-1, [])
       else call (Tty (Grantpt (rv m))) (\<lambda>g.
         if rv g = -1 then pty_fail (rv m)
         else call (Tty (Unlockpt (rv m))) (\<lambda>u.
           if rv u = -1 then pty_fail (rv m)
           else call (Tty (Ptsname (rv m))) (\<lambda>p.
             if is_null_reply p then pty_fail (rv m)
             else if length (bytes p) < snLen then ret (rv m, bytes p)
             else call (Fd (Close (rv m))) (\<lambda>_. set_errno EOVERFLOW (ret (-1, [])))))))"

definition MAX_SNAME :: nat where "MAX_SNAME = 1000"

definition or_err_exit :: "syscall \<Rightarrow> (int \<Rightarrow> bool) \<Rightarrow> string \<Rightarrow> 'a prog \<Rightarrow> 'a prog" where
  \<comment> \<open>go on when the call's result is good\<close>
  "or_err_exit c good msg k = call c (\<lambda>r. if good (rv r) then k else err_exit msg)"

definition pty_child :: "int \<Rightarrow> string \<Rightarrow> int list option \<Rightarrow> int list option \<Rightarrow> (int \<times> int option \<times> string) prog" where
  "pty_child mfd slname slaveTermios slaveWS =
     or_err_exit (Proc Setsid) (\<lambda>v. v \<noteq> -1) ''ptyFork:setsid''
       (call (Fd (Close mfd)) (\<lambda>_.
          call (Path (Open slname ''O_RDWR'' 0)) (\<lambda>s.
            if rv s = -1 then err_exit ''ptyFork:open-slave''
            else
              or_err_exit (Fd (Ioctl (rv s) ''TIOCSCTTY'' [0])) (\<lambda>v. v \<noteq> -1) ''ptyFork:ioctl-TIOCSCTTY''
              ((case slaveTermios of None \<Rightarrow> (\<lambda>k. k) | Some t \<Rightarrow>
                  or_err_exit (Fd (Tcsetattr (rv s) ''TCSANOW'' t)) (\<lambda>v. v \<noteq> -1) ''ptyFork:tcsetattr'')
              ((case slaveWS of None \<Rightarrow> (\<lambda>k. k) | Some ws \<Rightarrow>
                  or_err_exit (Fd (Ioctl (rv s) ''TIOCSWINSZ'' ws)) (\<lambda>v. v \<noteq> -1) ''ptyFork:ioctl-TIOCSWINSZ'')
              (or_err_exit (Fd (Dup2 (rv s) 0)) (\<lambda>v. v = 0) ''ptyFork:dup2-STDIN_FILENO''
              (or_err_exit (Fd (Dup2 (rv s) 1)) (\<lambda>v. v = 1) ''ptyFork:dup2-STDOUT_FILENO''
              (or_err_exit (Fd (Dup2 (rv s) 2)) (\<lambda>v. v = 2) ''ptyFork:dup2-STDERR_FILENO''
              (if rv s > 2 then call (Fd (Close (rv s))) (\<lambda>_. ret (0, None, slname))
               else ret (0, None, slname))))))))))"

definition ptyFork :: "nat option \<Rightarrow> int list option \<Rightarrow> int list option \<Rightarrow> (int \<times> int option \<times> string) prog" where
  \<comment> \<open>the result, the master stored in \<open>masterFd\<close> and the name of the slave; \<open>sn\<close> is the size of
    \<open>slaveName\<close> when it is not null\<close>
  "ptyFork sn slaveTermios slaveWS =
     seq (ptyMasterOpen MAX_SNAME) (\<lambda>(mfd, slname).
       if mfd = -1 then ret (-1, None, [])
       else if (case sn of None \<Rightarrow> False | Some snLen \<Rightarrow> snLen \<le> length slname)
       then call (Fd (Close mfd)) (\<lambda>_. set_errno EOVERFLOW (ret (-1, None, [])))
       else call (Proc Fork) (\<lambda>childPid.
         if rv childPid = -1 then get errno (\<lambda>savedErrno.
           call (Fd (Close mfd)) (\<lambda>_. set_errno savedErrno (ret (-1, None, []))))
         else if rv childPid \<noteq> 0 then ret (rv childPid, Some mfd, slname)
         else pty_child mfd slname slaveTermios slaveWS))"

section \<open>Terminal modes\<close>

text \<open>A \<open>struct termios\<close> in the kernel's replies: the four flag words, then \<open>VMIN\<close> and \<open>VTIME\<close>.\<close>

record termios =
  c_iflag :: "32 word"
  c_oflag :: "32 word"
  c_cflag :: "32 word"
  c_lflag :: "32 word"
  vmin :: int
  vtime :: int

definition termios_of :: "int list \<Rightarrow> termios" where
  "termios_of ns = (case ns of
      [i, o', c, l, m, t] \<Rightarrow> \<lparr>c_iflag = word_of_int i, c_oflag = word_of_int o',
        c_cflag = word_of_int c, c_lflag = word_of_int l, vmin = m, vtime = t\<rparr>
    | _ \<Rightarrow> \<lparr>c_iflag = 0, c_oflag = 0, c_cflag = 0, c_lflag = 0, vmin = 0, vtime = 0\<rparr>)"

definition ints_of :: "termios \<Rightarrow> int list" where
  "ints_of t = [uint (c_iflag t), uint (c_oflag t), uint (c_cflag t), uint (c_lflag t), vmin t, vtime t]"

definition ISIG :: "32 word" where "ISIG = 1"
definition ICANON :: "32 word" where "ICANON = 2"
definition ECHO :: "32 word" where "ECHO = 8"
definition IEXTEN :: "32 word" where "IEXTEN = 0x8000"
definition IGNBRK :: "32 word" where "IGNBRK = 1"
definition BRKINT :: "32 word" where "BRKINT = 2"
definition PARMRK :: "32 word" where "PARMRK = 8"
definition INPCK :: "32 word" where "INPCK = 16"
definition ISTRIP :: "32 word" where "ISTRIP = 32"
definition INLCR :: "32 word" where "INLCR = 64"
definition IGNCR :: "32 word" where "IGNCR = 128"
definition ICRNL :: "32 word" where "ICRNL = 256"
definition IXON :: "32 word" where "IXON = 1024"
definition OPOST :: "32 word" where "OPOST = 1"

lemmas tty_flags = ISIG_def ICANON_def ECHO_def IEXTEN_def IGNBRK_def BRKINT_def PARMRK_def
  INPCK_def ISTRIP_def INLCR_def IGNCR_def ICRNL_def IXON_def OPOST_def

definition cbreak_mode :: "termios \<Rightarrow> termios" where
  "cbreak_mode t = t\<lparr>c_lflag := (c_lflag t AND NOT (ICANON OR ECHO)) OR ISIG,
     c_iflag := c_iflag t AND NOT ICRNL, vmin := 1, vtime := 0\<rparr>"

definition raw_mode :: "termios \<Rightarrow> termios" where
  "raw_mode t = t\<lparr>c_lflag := c_lflag t AND NOT (ICANON OR ISIG OR IEXTEN OR ECHO),
     c_iflag := c_iflag t AND NOT (BRKINT OR ICRNL OR IGNBRK OR IGNCR OR INLCR OR INPCK OR ISTRIP OR IXON OR PARMRK),
     c_oflag := c_oflag t AND NOT OPOST, vmin := 1, vtime := 0\<rparr>"

definition tty_set :: "(termios \<Rightarrow> termios) \<Rightarrow> int \<Rightarrow> (int \<times> termios option) prog" where
  \<comment> \<open>the result and what is stored through \<open>prevTermios\<close>\<close>
  "tty_set mode fd = call (Fd (Tcgetattr fd)) (\<lambda>g.
     case g of
       RInts ns \<Rightarrow> call (Fd (Tcsetattr fd ''TCSAFLUSH'' (ints_of (mode (termios_of ns))))) (\<lambda>s.
         if rv s = -1 then ret (-1, Some (termios_of ns)) else ret (0, Some (termios_of ns)))
     | _ \<Rightarrow> ret (-1, None))"

definition ttySetCbreak :: "int \<Rightarrow> (int \<times> termios option) prog" where
  "ttySetCbreak fd = tty_set cbreak_mode fd"

definition ttySetRaw :: "int \<Rightarrow> (int \<times> termios option) prog" where
  "ttySetRaw fd = tty_set raw_mode fd"

section \<open>Signal sets\<close>

text \<open>A set of signals is the list of its members; \<open>strsignal\<close> is the library's table of names.\<close>

definition NSIG :: nat where "NSIG = 65"

definition sigset_text :: "(nat \<Rightarrow> string) \<Rightarrow> string \<Rightarrow> int list \<Rightarrow> string" where
  \<comment> \<open>what \<open>printSigset\<close> writes\<close>
  "sigset_text strsignal ldr members =
     (let shown = [sig. sig \<leftarrow> [1..<NSIG], int sig \<in> set members] in
      concat (map (\<lambda>sig. ldr @ show_nat sig @ '' ('' @ strsignal sig @ '')'' @ [NL]) shown)
      @ (if shown = [] then ldr @ ''<empty signal set>'' @ [NL] else []))"

definition printSigset :: "(nat \<Rightarrow> string) \<Rightarrow> string \<Rightarrow> int list \<Rightarrow> 'a prog \<Rightarrow> 'a prog" where
  "printSigset strsignal ldr members k = printf (sigset_text strsignal ldr members) k"

definition print_msg :: "string option \<Rightarrow> 'a prog \<Rightarrow> 'a prog" where
  "print_msg msg k = (case msg of None \<Rightarrow> k | Some m \<Rightarrow> printf m k)"

definition printSigMask :: "(nat \<Rightarrow> string) \<Rightarrow> string option \<Rightarrow> int prog" where
  "printSigMask strsignal msg = print_msg msg (call (Proc (Sigprocmask ''SIG_BLOCK'' [])) (\<lambda>r.
     case r of RInts m \<Rightarrow> printSigset strsignal [TAB, TAB] m (ret 0) | _ \<Rightarrow> ret (-1)))"

definition printPendingSigs :: "(nat \<Rightarrow> string) \<Rightarrow> string option \<Rightarrow> int prog" where
  "printPendingSigs strsignal msg = print_msg msg (call (Proc Sigpending) (\<lambda>r.
     case r of RInts m \<Rightarrow> printSigset strsignal [TAB, TAB] m (ret 0) | _ \<Rightarrow> ret (-1)))"

section \<open>Runs of calls\<close>

definition daemon_ok :: "syscall \<times> reply \<Rightarrow> bool" where
  \<comment> \<open>the replies with which \<open>becomeDaemon\<close> goes on\<close>
  "daemon_ok e = (case fst e of
      Proc Fork \<Rightarrow> rv (snd e) = 0 | Proc Setsid \<Rightarrow> rv (snd e) \<noteq> -1
    | Path (Open p flags m) \<Rightarrow> rv (snd e) = 0 | Fd (Dup2 s d) \<Rightarrow> rv (snd e) = d | _ \<Rightarrow> True)"

fun sticks_to :: "syscall list \<Rightarrow> int result \<Rightarrow> (syscall \<times> reply) list \<Rightarrow> bool" where
  \<comment> \<open>exactly these calls are made, as long as the replies are the expected ones; after another one there is no call, a parent
     terminates and everything else is an error\<close>
  "sticks_to [] r t \<longleftrightarrow> t = [] \<and> r = Return 0"
| "sticks_to (c # cs) r [] \<longleftrightarrow> r = Blocked"
| "sticks_to (c # cs) r (e # t) \<longleftrightarrow> fst e = c \<and> (if daemon_ok e then sticks_to cs r t
     else t = [] \<and> r = (if c = Proc Fork \<and> rv (snd e) \<noteq> -1 then UExited EXIT_SUCCESS else Return (-1)))"

definition limit_call :: syscall where
  "limit_call = Proc (Sysconf ''_SC_OPEN_MAX'')"

definition limit_is :: "int \<Rightarrow> (syscall \<times> reply) list \<Rightarrow> bool" where
  \<comment> \<open>\<open>n\<close> is the number of descriptors that the system names, 8192 if it names none\<close>
  "limit_is n t \<longleftrightarrow> list_all (\<lambda>(c, m). if c = limit_call then n = (if to_int32 (rv m) = -1 then 8192 else to_int32 (rv m)) else True) t"

definition daemon_calls :: "int \<Rightarrow> int \<Rightarrow> syscall list" where
  \<comment> \<open>what the daemon does after it has left its session\<close>
  "daemon_calls flags maxfd =
     (if flags AND BD_NO_UMASK0 = 0 then [Proc (Umask 0)] else [])
     @ (if flags AND BD_NO_CHDIR = 0 then [Path (Chdir ''/'')] else [])
     @ (if flags AND BD_NO_CLOSE_FILES = 0
        then limit_call # map (\<lambda>fd. Fd (Close (int fd))) [0..<nat maxfd] else [])
     @ (if flags AND BD_NO_REOPEN_STD_FDS = 0
        then [Fd (Close 0), Path (Open ''/dev/null'' ''O_RDWR'' 0), Fd (Dup2 0 1), Fd (Dup2 0 2)] else [])"

definition obeys :: "syscall list \<Rightarrow> int prog \<Rightarrow> bool" where
  \<comment> \<open>the program makes these calls and prints nothing\<close>
  "obeys cs p \<longleftrightarrow> (\<forall>w. wp p (\<lambda>r w'. out w' = out w \<and> (\<exists>t. trace w' = trace w @ t \<and> sticks_to cs r t)) w)"

definition obeys_limit :: "(int \<Rightarrow> syscall list) \<Rightarrow> int prog \<Rightarrow> bool" where
  \<comment> \<open>calls that depend on the number of descriptors\<close>
  "obeys_limit cs p \<longleftrightarrow> (\<forall>w. wp p (\<lambda>r w'. out w' = out w \<and> (\<exists>t n. trace w' = trace w @ t \<and> limit_is n t \<and> sticks_to (cs n) r t)) w)"

lemma sticks_to_calls: "sticks_to cs r t \<Longrightarrow> set (map fst t) \<subseteq> set cs"
  by (induction cs r t rule: sticks_to.induct) (auto split: if_splits)

lemma limit_is_simps [simp]:
  "limit_is n []"
  "limit_is n ((c, m) # t) \<longleftrightarrow> (if c = limit_call then n = (if to_int32 (rv m) = -1 then 8192 else to_int32 (rv m)) else True) \<and> limit_is n t"
  by (auto simp: limit_is_def)

lemma limit_is_none: "limit_call \<notin> set (map fst t) \<Longrightarrow> limit_is n t"
  by (induction t) (auto split: prod.splits)

lemma obeys_ret: "obeys [] (ret 0)"
  by (simp add: obeys_def exec_simps)

lemma wp_obeyed:
  assumes "obeys cs p" "trace w1 = trace w @ [e]" "out w1 = out w" "fst e = c" "daemon_ok e"
  shows "wp p (\<lambda>r w'. out w' = out w \<and> (\<exists>t. trace w' = trace w @ t \<and> sticks_to (c # cs) r t)) w1"
proof (rule wp_mono[OF assms(1)[unfolded obeys_def, rule_format]], elim conjE exE)
  fix r w' t
  assume "out w' = out w1" "trace w' = trace w1 @ t" "sticks_to cs r t"
  with assms(2-5) show "out w' = out w \<and> (\<exists>t. trace w' = trace w @ t \<and> sticks_to (c # cs) r t)"
    by (intro conjI exI[of _ "e # t"]) auto
qed

lemma obeys_call:
  assumes "\<And>r. daemon_ok (c, r) \<Longrightarrow> obeys cs (k r)"
    "\<And>r. \<not> daemon_ok (c, r) \<Longrightarrow> k r = (if c = Proc Fork \<and> rv r \<noteq> -1 then uexit_prog EXIT_SUCCESS else ret (-1))"
  shows "obeys (c # cs) (call c k)"
  unfolding obeys_def wp_call
proof (intro allI conjI impI)
  fix w :: world and r rs
  let ?w1 = "w\<lparr>script := rs, trace := trace w @ [(c, r)], errno := reply_errno r (errno w)\<rparr>"
  show "wp (k r) (\<lambda>r w'. out w' = out w \<and> (\<exists>t. trace w' = trace w @ t \<and> sticks_to (c # cs) r t)) ?w1"
  proof (cases "daemon_ok (c, r)")
    case True
    from wp_obeyed[OF assms(1)[OF True], of ?w1 w "(c, r)" c] True show ?thesis by simp
  next
    case False
    then show ?thesis
      unfolding assms(2)[OF False] by (auto simp: exec_simps intro!: exI[of _ "[(c, r)]"])
  qed
qed (auto intro!: exI[of _ "[]"])

lemma obeys_each:
  assumes "obeys cs (k ())" "\<And>x r. daemon_ok (f x, r)"
  shows "obeys (map f xs @ cs) (seq (each (\<lambda>x. call (f x) (\<lambda>_. ret ())) xs) k)"
proof (induction xs)
  case Nil
  have "seq (each (\<lambda>x. call (f x) (\<lambda>_. ret ())) []) k = k ()" by (rule ext) (simp add: seq_def ret_def)
  with assms(1) show ?case by simp
next
  case (Cons x xs)
  have "seq (each (\<lambda>x. call (f x) (\<lambda>_. ret ())) (x # xs)) k
      = call (f x) (\<lambda>_. seq (each (\<lambda>x. call (f x) (\<lambda>_. ret ())) xs) k)"
    by (rule ext) (simp add: seq_def call_def ret_def split: list.splits)
  with Cons obeys_call[of "f x" "map f xs @ cs"] assms(2) show ?case by simp
qed

lemma obeys_reopen: "obeys [Fd (Close 0), Path (Open ''/dev/null'' ''O_RDWR'' 0), Fd (Dup2 0 1), Fd (Dup2 0 2)] reopen_std"
  unfolding reopen_std_def by (rule obeys_call) (auto simp: daemon_ok_def obeys_ret intro!: obeys_call)

lemma obeys_fixed:
  assumes "obeys cs p" "limit_call \<notin> set cs"
  shows "obeys_limit (\<lambda>n. cs) p"
  unfolding obeys_limit_def
proof
  fix w
  show "wp p (\<lambda>r w'. out w' = out w \<and> (\<exists>t n. trace w' = trace w @ t \<and> limit_is n t \<and> sticks_to cs r t)) w"
  proof (rule wp_mono[OF assms(1)[unfolded obeys_def, rule_format]], elim conjE exE)
    fix r w' t
    assume t: "out w' = out w" "trace w' = trace w @ t" "sticks_to cs r t"
    then have "limit_is n t" for n using sticks_to_calls[OF t(3)] assms(2) by (intro limit_is_none) auto
    with t show "out w' = out w \<and> (\<exists>t n. trace w' = trace w @ t \<and> limit_is n t \<and> sticks_to cs r t)" by blast
  qed
qed

lemma obeys_limit_call:
  assumes "\<And>r. daemon_ok (c, r) \<Longrightarrow> obeys_limit cs (k r)" "c \<noteq> limit_call"
    "\<And>r. \<not> daemon_ok (c, r) \<Longrightarrow> k r = (if c = Proc Fork \<and> rv r \<noteq> -1 then uexit_prog EXIT_SUCCESS else ret (-1))"
  shows "obeys_limit (\<lambda>n. c # cs n) (call c k)"
  unfolding obeys_limit_def wp_call
proof (intro allI conjI impI)
  fix w :: world and r rs
  let ?w1 = "w\<lparr>script := rs, trace := trace w @ [(c, r)], errno := reply_errno r (errno w)\<rparr>"
  show "wp (k r) (\<lambda>r w'. out w' = out w \<and> (\<exists>t n. trace w' = trace w @ t \<and> limit_is n t \<and> sticks_to (c # cs n) r t)) ?w1"
  proof (cases "daemon_ok (c, r)")
    case True
    show ?thesis
    proof (rule wp_mono[OF assms(1)[OF True, unfolded obeys_limit_def, rule_format]], elim conjE exE)
      fix r' w' t n
      assume "out w' = out ?w1" "trace w' = trace ?w1 @ t" "limit_is n t" "sticks_to (cs n) r' t"
      with True assms(2) show "out w' = out w \<and> (\<exists>t n. trace w' = trace w @ t \<and> limit_is n t \<and> sticks_to (c # cs n) r' t)"
        by (intro conjI exI[of _ "(c, r) # t"] exI[of _ n]) auto
    qed
  next
    case False
    then show ?thesis
      unfolding assms(3)[OF False] using assms(2) by (auto simp: exec_simps intro!: exI[of _ "[(c, r)]"])
  qed
qed (auto intro!: exI[of _ "[]"])

lemma obeys_sysconf:
  assumes "\<And>m. obeys (cs (if to_int32 (rv m) = -1 then 8192 else to_int32 (rv m))) (k m)" "\<And>n. limit_call \<notin> set (cs n)"
  shows "obeys_limit (\<lambda>n. limit_call # cs n) (call limit_call k)"
  unfolding obeys_limit_def wp_call
proof (intro allI conjI impI)
  fix w :: world and m rs
  let ?w1 = "w\<lparr>script := rs, trace := trace w @ [(limit_call, m)], errno := reply_errno m (errno w)\<rparr>"
  let ?n = "if to_int32 (rv m) = -1 then 8192 else to_int32 (rv m)"
  show "wp (k m) (\<lambda>r w'. out w' = out w \<and> (\<exists>t n. trace w' = trace w @ t \<and> limit_is n t \<and> sticks_to (limit_call # cs n) r t)) ?w1"
  proof (rule wp_mono[OF assms(1)[of m, unfolded obeys_def, rule_format]], elim conjE exE)
    fix r w' t
    assume t: "out w' = out ?w1" "trace w' = trace ?w1 @ t" "sticks_to (cs ?n) r t"
    have "limit_call \<notin> set (map fst t)" using sticks_to_calls[OF t(3)] assms(2)[of ?n] by blast
    then have "limit_is ?n ((limit_call, m) # t)" using limit_is_none[of t ?n] by simp
    with t show "out w' = out w \<and> (\<exists>t n. trace w' = trace w @ t \<and> limit_is n t \<and> sticks_to (limit_call # cs n) r t)"
      by (intro conjI exI[of _ "(limit_call, m) # t"] exI[of _ ?n]) (auto simp: daemon_ok_def limit_call_def)
  qed
qed (auto intro!: exI[of _ "[]"])

lemma seq_unless:
  "seq (unless_flag flags f (call c (\<lambda>_. ret ()))) k = (if flags AND f = 0 then call c (\<lambda>_. k ()) else k ())"
  "seq (unless_flag flags f close_files) k = (if flags AND f = 0 then call limit_call (\<lambda>m. seq (each (\<lambda>fd. call (Fd (Close (int fd))) (\<lambda>_. ret ()))
       [0..<nat (if to_int32 (rv m) = -1 then BD_MAX_CLOSE else to_int32 (rv m))]) k) else k ())"
  by (auto simp: unless_flag_def close_files_def limit_call_def seq_def call_def ret_def fun_eq_iff split: list.splits)

lemma obeys_leave_session: "obeys_limit (daemon_calls flags) (leave_session flags)"
proof -
  have last: "obeys (if flags AND BD_NO_REOPEN_STD_FDS = 0 then [Fd (Close 0), Path (Open ''/dev/null'' ''O_RDWR'' 0), Fd (Dup2 0 1), Fd (Dup2 0 2)] else [])
      (if flags AND BD_NO_REOPEN_STD_FDS = 0 then reopen_std else ret 0)" (is "obeys ?std ?p")
    by (simp add: obeys_reopen obeys_ret)
  have std: "limit_call \<notin> set ?std" by (simp add: limit_call_def)
  have close: "obeys_limit (\<lambda>n. (if flags AND BD_NO_CLOSE_FILES = 0 then limit_call # map (\<lambda>fd. Fd (Close (int fd))) [0..<nat n] else []) @ ?std)
      (seq (unless_flag flags BD_NO_CLOSE_FILES close_files) (\<lambda>_. ?p))"
  proof (cases "flags AND BD_NO_CLOSE_FILES = 0")
    case True
    have "obeys_limit (\<lambda>n. limit_call # (map (\<lambda>fd. Fd (Close (int fd))) [0..<nat n] @ ?std))
        (call limit_call (\<lambda>m. seq (each (\<lambda>fd. call (Fd (Close (int fd))) (\<lambda>_. ret ()))
           [0..<nat (if to_int32 (rv m) = -1 then BD_MAX_CLOSE else to_int32 (rv m))]) (\<lambda>_. ?p)))"
      unfolding BD_MAX_CLOSE_def
      by (rule obeys_sysconf, rule obeys_each[OF last]) (auto simp: daemon_ok_def limit_call_def)
    with True show ?thesis by (simp add: seq_unless)
  next
    case False
    with obeys_fixed[OF last std] show ?thesis by (simp add: seq_unless)
  qed
  have ok: "daemon_ok (Path (Chdir d), r)" "daemon_ok (Proc (Umask m), r)" for d m r by (simp_all add: daemon_ok_def)
  have chdir: "obeys_limit (\<lambda>n. (if flags AND BD_NO_CHDIR = 0 then [Path (Chdir ''/'')] else [])
        @ (if flags AND BD_NO_CLOSE_FILES = 0 then limit_call # map (\<lambda>fd. Fd (Close (int fd))) [0..<nat n] else []) @ ?std)
      (seq (unless_flag flags BD_NO_CHDIR (call (Path (Chdir ''/'')) (\<lambda>_. ret ()))) (\<lambda>_. seq (unless_flag flags BD_NO_CLOSE_FILES close_files) (\<lambda>_. ?p)))"
    using obeys_limit_call[of "Path (Chdir ''/'')", OF close] close ok by (simp add: seq_unless(1) limit_call_def)
  show ?thesis
    unfolding leave_session_def daemon_calls_def
    using obeys_limit_call[of "Proc (Umask 0)", OF chdir] chdir ok by (simp add: seq_unless(1) limit_call_def)
qed

section \<open>Properties\<close>

text \<open>C4: \<open>becomeDaemon\<close> makes exactly the calls that the flags select, in this order and once each: it forks, becomes a session
  leader, forks again, and then sets the mask, changes the directory, closes every descriptor below the limit that the system
  names (8192 if it names none) and opens the standard descriptors again. It returns 0 exactly when it has made all of them
  with the replies that it needs; the first other reply is the last one: a parent terminates without flushing, and every
  other one makes it return -1.\<close>

theorem becomeDaemon_sound:
  "wp (becomeDaemon flags) (\<lambda>r w'. out w' = out w \<and> (\<exists>t n. trace w' = trace w @ t \<and> limit_is n t
     \<and> sticks_to ([Proc Fork, Proc Setsid, Proc Fork] @ daemon_calls flags n) r t)) w"
proof -
  have "obeys_limit (\<lambda>n. Proc Fork # Proc Setsid # Proc Fork # daemon_calls flags n) (becomeDaemon flags)"
    unfolding becomeDaemon_def fork_to_child_def
  proof (rule obeys_limit_call)
    fix r
    assume "daemon_ok (Proc Fork, r)"
    moreover have "obeys_limit (\<lambda>n. Proc Setsid # Proc Fork # daemon_calls flags n) (call (Proc Setsid) (\<lambda>s.
        if rv s = -1 then ret (-1) else call (Proc Fork) (\<lambda>r.
          if rv r = -1 then ret (-1) else if rv r = 0 then leave_session flags else uexit_prog EXIT_SUCCESS)))"
      by (rule obeys_limit_call) (auto simp: daemon_ok_def limit_call_def intro!: obeys_limit_call obeys_leave_session)
    ultimately show "obeys_limit (\<lambda>n. Proc Setsid # Proc Fork # daemon_calls flags n) (if rv r = -1 then ret (-1) else if rv r = 0
        then call (Proc Setsid) (\<lambda>s. if rv s = -1 then ret (-1) else call (Proc Fork) (\<lambda>r.
          if rv r = -1 then ret (-1) else if rv r = 0 then leave_session flags else uexit_prog EXIT_SUCCESS))
        else uexit_prog EXIT_SUCCESS)"
      by (simp add: daemon_ok_def)
  qed (auto simp: daemon_ok_def limit_call_def)
  then show ?thesis by (simp add: obeys_limit_def)
qed

lemma wp_pty_fail: "wp (pty_fail m) Q w \<longleftrightarrow>
    (script w = [] \<longrightarrow> Q Blocked w) \<and>
    (\<forall>r rs. script w = r # rs \<longrightarrow> Q (Return (-1, [])) (w\<lparr>script := rs,
       trace := trace w @ [(Fd (Close m), r)], errno := errno w\<rparr>))"
  by (simp add: pty_fail_def exec_simps)

definition errno_after :: "int \<Rightarrow> (syscall \<times> reply) list \<Rightarrow> int" where
  \<comment> \<open>what \<open>errno\<close> is after these calls\<close>
  "errno_after e t = fold (\<lambda>c. reply_errno (snd c)) t e"

lemma errno_after_simps [simp]:
  "errno_after e [] = e" "errno_after e (c # t) = errno_after (reply_errno (snd c) e) t"
  by (simp_all add: errno_after_def)

definition named :: "(syscall \<times> reply) list \<Rightarrow> bool" where
  \<comment> \<open>the last call gave the name of the slave\<close>
  "named t \<longleftrightarrow> t \<noteq> [] \<and> (case fst (last t) of Tty (Ptsname m) \<Rightarrow> \<not> is_null_reply (snd (last t)) | _ \<Rightarrow> False)"

definition before_close :: "(syscall \<times> reply) list \<Rightarrow> (syscall \<times> reply) list" where
  "before_close t = takeWhile (\<lambda>e. closes e = []) t"

lemma before_close_simps [simp]:
  "before_close [] = []" "before_close (e # t) = (if closes e = [] then e # before_close t else [])"
  by (simp_all add: before_close_def)

lemma wp_ptyMasterOpen:
  "wp (ptyMasterOpen snLen) (\<lambda>r w'. out w' = out w \<and> (case r of
     Return (fd, name) \<Rightarrow> (\<exists>t. trace w' = trace w @ t \<and>
       (if fd \<noteq> -1 then opened t = [fd] \<and> closed t = [] \<and> length name < snLen
        else opened t = closed t \<and> errno w' = (if named (before_close t) then EOVERFLOW
          else errno_after (errno w) (before_close t))))
   | Blocked \<Rightarrow> True | _ \<Rightarrow> False)) w"
  unfolding ptyMasterOpen_def
  by (auto simp: exec_simps wp_pty_fail named_def)

text \<open>C5: \<open>ptyMasterOpen\<close>: on every error path the master is closed again and \<open>errno\<close> is what the
  calls up to the failing one left there, whatever \<open>close\<close> did to it (\<open>EOVERFLOW\<close> for a name that
  does not fit); on success the master is the only descriptor left open and the name fits.\<close>

theorem ptyMasterOpen_errors:
  "wp (ptyMasterOpen snLen) (\<lambda>r w'. case r of
     Return (fd, name) \<Rightarrow> (\<exists>t. trace w' = trace w @ t \<and>
       (if fd \<noteq> -1 then opened t = [fd] \<and> closed t = [] \<and> length name < snLen
        else opened t = closed t \<and> errno w' = (if named (before_close t) then EOVERFLOW
          else errno_after (errno w) (before_close t))))
   | Blocked \<Rightarrow> True | _ \<Rightarrow> False) w"
  by (rule wp_mono[OF wp_ptyMasterOpen]) (simp split: result.splits)

lemma wp_or_err_exit [exec_simps]: "wp (or_err_exit c good msg k) Q w \<longleftrightarrow>
    (script w = [] \<longrightarrow> Q Blocked w) \<and>
    (\<forall>r rs. script w = r # rs \<longrightarrow>
      (let w1 = w\<lparr>script := rs, trace := trace w @ [(c, r)], errno := reply_errno r (errno w)\<rparr> in
       if good (rv r) then wp k Q w1 else Q (end_of False w1) (die True (errno w1) False msg w1)))"
  by (auto simp: or_err_exit_def exec_simps Let_def)

lemma out_die_quiet [simp]: "out (die u e False msg w) = out w"
  by (simp add: die_def ended_def)

definition pty_child_post :: "world \<Rightarrow> int \<Rightarrow> (int \<times> int option \<times> string) result \<Rightarrow> world \<Rightarrow> bool" where
  "pty_child_post w mfd r w' \<longleftrightarrow> out w' = out w \<and> (case r of
     Return (pid, m, name) \<Rightarrow> pid = 0 \<and> m = None \<and> (\<exists>t s. trace w' = trace w @ t \<and> opened t = [s]
       \<and> closed t = mfd # (if s > 2 then [s] else [])
       \<and> {Fd (Dup2 s 0), Fd (Dup2 s 1), Fd (Dup2 s 2)} \<subseteq> set (map fst t))
   | Blocked \<Rightarrow> True | Aborted \<Rightarrow> True | UExited n \<Rightarrow> n = EXIT_FAILURE | _ \<Rightarrow> False)"

lemma pty_child_post_end [simp]:
  "pty_child_post w mfd (end_of False w1) w' \<longleftrightarrow> out w' = out w"
  "pty_child_post w mfd Blocked w' \<longleftrightarrow> out w' = out w"
  by (simp_all add: pty_child_post_def end_of_def)

lemma wp_pty_child: "wp (pty_child mfd slname tio ws) (pty_child_post w mfd) w"
  unfolding pty_child_def
  by (cases tio; cases ws; simp add: exec_simps Let_def; simp add: pty_child_post_def)

definition pty_fork_post :: "world \<Rightarrow> (int \<times> int option \<times> string) result \<Rightarrow> world \<Rightarrow> bool" where
  "pty_fork_post w r w' \<longleftrightarrow> out w' = out w \<and> (case r of
     Return (pid, m, name) \<Rightarrow> (\<exists>t. trace w' = trace w @ t \<and>
       (if pid = -1 then m = None \<and> opened t = closed t
        else case m of
          Some mfd \<Rightarrow> pid \<noteq> 0 \<and> opened t = [mfd] \<and> closed t = []
        | None \<Rightarrow> pid = 0 \<and> (\<exists>mfd s. opened t = [mfd, s] \<and> closed t = mfd # (if s > 2 then [s] else [])
            \<and> {Fd (Dup2 s 0), Fd (Dup2 s 1), Fd (Dup2 s 2)} \<subseteq> set (map fst t))))
   | Blocked \<Rightarrow> True | Aborted \<Rightarrow> True | UExited n \<Rightarrow> n = EXIT_FAILURE | _ \<Rightarrow> False)"

lemma pty_fork_post_simps:
  "pty_fork_post w Blocked w' \<longleftrightarrow> out w' = out w"
  "pty_fork_post w (Return (-1, None, n)) w' \<longleftrightarrow> out w' = out w \<and> (\<exists>t. trace w' = trace w @ t \<and> opened t = closed t)"
  "pid \<noteq> -1 \<Longrightarrow> pty_fork_post w (Return (pid, Some mfd, n)) w' \<longleftrightarrow> out w' = out w \<and> pid \<noteq> 0 \<and>
     (\<exists>t. trace w' = trace w @ t \<and> opened t = [mfd] \<and> closed t = [])"
  by (auto simp: pty_fork_post_def)

text \<open>C6: \<open>ptyFork\<close>: the parent gets the child's pid with the master as the only descriptor left
  open; the child returns 0 with the master closed and the slave on its three standard descriptors
  and nowhere else; on an error -1 is returned and nothing is left open; a child that cannot set up
  its terminal ends without flushing what the parent had buffered.\<close>

theorem ptyFork_descriptors:
  "wp (ptyFork sn tio ws) (\<lambda>r w'. out w' = out w \<and> (case r of
     Return (pid, m, name) \<Rightarrow> (\<exists>t. trace w' = trace w @ t \<and>
       (if pid = -1 then m = None \<and> opened t = closed t
        else case m of
          Some mfd \<Rightarrow> pid \<noteq> 0 \<and> opened t = [mfd] \<and> closed t = []
        | None \<Rightarrow> pid = 0 \<and> (\<exists>mfd s. opened t = [mfd, s] \<and> closed t = mfd # (if s > 2 then [s] else [])
            \<and> {Fd (Dup2 s 0), Fd (Dup2 s 1), Fd (Dup2 s 2)} \<subseteq> set (map fst t))))
   | Blocked \<Rightarrow> True | Aborted \<Rightarrow> True | UExited n \<Rightarrow> n = EXIT_FAILURE | _ \<Rightarrow> False)) w"
proof -
  have child: "wp (pty_child mfd slname tio ws) (pty_fork_post w) w1"
    if w1: "trace w1 = trace w @ t" "opened t = [mfd]" "closed t = []" "out w1 = out w" for w1 t mfd slname
  proof (rule wp_mono[OF wp_pty_child], goal_cases)
    case (1 r w')
    show ?case
    proof (cases r)
      case (Return x)
      with 1 obtain u s where "fst x = 0" "fst (snd x) = None" "trace w' = trace w1 @ u" "opened u = [s]"
        "closed u = mfd # (if s > 2 then [s] else [])" "out w' = out w1"
        "{Fd (Dup2 s 0), Fd (Dup2 s 1), Fd (Dup2 s 2)} \<subseteq> set (map fst u)"
        by (cases x) (auto simp: pty_child_post_def)
      with w1 Return show ?thesis
        by (cases x) (auto simp: pty_fork_post_def intro!: exI[of _ "t @ u"])
    qed (use 1 w1 in \<open>auto simp: pty_child_post_def pty_fork_post_def\<close>)
  qed
  show ?thesis
    unfolding ptyFork_def wp_seq pty_fork_post_def[symmetric]
  proof (rule wp_mono[OF wp_ptyMasterOpen], goal_cases)
    case (1 r w')
    show ?case
    proof (cases r)
      case (Return x)
      obtain mfd slname where x: "x = (mfd, slname)" by (cases x)
      with 1 Return obtain t where t: "trace w' = trace w @ t" "out w' = out w"
        "if mfd \<noteq> -1 then opened t = [mfd] \<and> closed t = [] else opened t = closed t"
        by (auto split: if_splits)
      show ?thesis
      proof (cases "mfd = -1")
        case True
        with t Return x show ?thesis by (simp add: exec_simps pty_fork_post_simps)
      next
        case False
        with t Return x show ?thesis
          by (auto simp: exec_simps pty_fork_post_simps intro!: child[where t = "t @ u" for u])
      qed
    qed (use 1 in \<open>auto simp: pty_fork_post_def\<close>)
  qed
qed

lemma and_not_self [simp]: "(x AND NOT m) AND m = (0 :: 32 word)"
  by (rule bit_word_eqI) (auto simp: bit_simps)

lemma raw_after_cbreak: "raw_mode (cbreak_mode t) = raw_mode t"
  by (rule termios.equality)
    (auto simp: raw_mode_def cbreak_mode_def bit_simps intro!: bit_word_eqI)

text \<open>\<open>ttySetRaw\<close> asks for a mode in which every flag of canonical, signal, echo, input and output
  processing is off, changes no other flag, reads one byte at a time, and reports the old
  settings; it makes no difference whether the terminal was in cbreak mode before.\<close>

theorem ttySetRaw_flags:
  "wp (ttySetRaw fd) (\<lambda>r w'. case r of
     Return (v, prev) \<Rightarrow> v = -1 \<or> (\<exists>t s. v = 0 \<and> prev = Some t \<and> rv s \<noteq> -1
       \<and> (\<exists>ns. t = termios_of ns \<and> trace w' = trace w @ [(Fd (Tcgetattr fd), RInts ns),
          (Fd (Tcsetattr fd ''TCSAFLUSH'' (ints_of (raw_mode t))), s)])
       \<and> c_lflag (raw_mode t) AND (ICANON OR ISIG OR IEXTEN OR ECHO) = 0
       \<and> c_lflag (raw_mode t) OR (c_lflag t AND (ICANON OR ISIG OR IEXTEN OR ECHO)) = c_lflag t
       \<and> c_oflag (raw_mode t) AND OPOST = 0 \<and> c_iflag (raw_mode t) AND (ICRNL OR IXON) = 0
       \<and> c_cflag (raw_mode t) = c_cflag t \<and> vmin (raw_mode t) = 1 \<and> vtime (raw_mode t) = 0
       \<and> raw_mode (cbreak_mode t) = raw_mode t)
   | Blocked \<Rightarrow> True | _ \<Rightarrow> False) w"
proof -
  have flags: "c_lflag (raw_mode t) AND (ICANON OR ISIG OR IEXTEN OR ECHO) = 0
       \<and> c_lflag (raw_mode t) OR (c_lflag t AND (ICANON OR ISIG OR IEXTEN OR ECHO)) = c_lflag t
       \<and> c_oflag (raw_mode t) AND OPOST = 0 \<and> c_iflag (raw_mode t) AND (ICRNL OR IXON) = 0
       \<and> c_cflag (raw_mode t) = c_cflag t \<and> vmin (raw_mode t) = 1 \<and> vtime (raw_mode t) = 0
       \<and> raw_mode (cbreak_mode t) = raw_mode t" for t
    unfolding raw_after_cbreak
    by (simp add: raw_mode_def, intro conjI; (rule bit_word_eqI, auto simp: bit_simps)?)
  show ?thesis
    using flags by (auto simp: ttySetRaw_def tty_set_def exec_simps split: reply.splits)
qed

end
