(* ===== verification/ReadLine.thy ===== *)
theory ReadLine
  imports Kernel
begin

text \<open>
  Reading lines from a descriptor: \<open>lib/read_line.c\<close>, one byte at a time, and
  \<open>lib/read_line_buf.c\<close>, which reads large pieces into one of two buffers and copies a truncated
  line to the other one before it reads on. A read is answered with the bytes delivered
  (none at the end of the file) or with an error.
\<close>

section \<open>readLine\<close>

record rl_state =
  totRead :: nat
  stored :: string

definition read_line_body :: "int \<Rightarrow> nat \<Rightarrow> rl_state \<Rightarrow> (rl_state + int \<times> string option) prog" where
  "read_line_body fd n s =
     call (Fd (Read fd 1)) (\<lambda>r.
       case r of
         RErr e \<Rightarrow> if e = EINTR then again s else leave (-1, None)
       | RData (ch # cs) \<Rightarrow>
           let s' = (if totRead s < n - 1
                     then \<lparr>totRead = totRead s + 1, stored = stored s @ [ch]\<rparr> else s) in
           if ch = NL then leave (int (totRead s'), Some (stored s')) else again s'
       | _ \<Rightarrow> if totRead s = 0 then leave (0, None) else leave (int (totRead s), Some (stored s)))"

definition readLine :: "int \<Rightarrow> nat option \<Rightarrow> (int \<times> string option) prog" where
  \<comment> \<open>\<open>n\<close> is the size of the buffer, \<open>None\<close> a null pointer; the result is the count and the string
    left in the buffer, if one was stored\<close>
  "readLine fd n = (case n of
      None \<Rightarrow> set_errno EINVAL (ret (-1, None))
    | Some k \<Rightarrow> if k = 0 then set_errno EINVAL (ret (-1, None))
        else loop (read_line_body fd k) \<lparr>totRead = 0, stored = []\<rparr>)"

section \<open>read_line_buf\<close>

definition MAX_MSG_LEN :: nat where "MAX_MSG_LEN = 4096"
definition USE_BUF :: int where "USE_BUF = 1"
definition USE_SWAP :: int where "USE_SWAP = 0"

record rlbuf =
  rfd :: int
  buf_type :: int
  in_buf :: bool          \<comment> \<open>\<open>next_char\<close> points into \<open>buf\<close>, not into \<open>swap\<close>\<close>
  next_char :: nat        \<comment> \<open>and at this index\<close>
  buf :: string
  swap :: string

definition read_line_buf_init :: "int \<Rightarrow> rlbuf \<Rightarrow> rlbuf \<times> int" where
  "read_line_buf_init fd rlb =
     (rlb\<lparr>buf := (buf rlb)[0 := NUL], in_buf := True, next_char := 0, rfd := fd, buf_type := USE_BUF\<rparr>, 0)"

definition array_of :: "rlbuf \<Rightarrow> bool \<Rightarrow> string" where
  "array_of rlb b = (if b then buf rlb else swap rlb)"

definition with_array :: "rlbuf \<Rightarrow> bool \<Rightarrow> string \<Rightarrow> rlbuf" where
  "with_array rlb b a = (if b then rlb\<lparr>buf := a\<rparr> else rlb\<lparr>swap := a\<rparr>)"

definition patch :: "string \<Rightarrow> nat \<Rightarrow> string \<Rightarrow> string" where
  \<comment> \<open>the array after \<open>memcpy(a + i, s, length s)\<close>\<close>
  "patch a i s = take i a @ s @ drop (i + length s) a"

definition line_end :: "string \<Rightarrow> nat \<Rightarrow> nat" where
  \<comment> \<open>where the scan from index \<open>i\<close> stops: the next newline or null byte\<close>
  "line_end a i = i + length (takeWhile (\<lambda>c. c \<noteq> NL \<and> c \<noteq> NUL) (drop i a))"

type_synonym rl_out = "rlbuf \<times> int \<times> string option"

definition rl_swap :: "bool \<Rightarrow> string \<Rightarrow> rlbuf \<Rightarrow> (rlbuf + rl_out) prog" where
  \<comment> \<open>copy the truncated line into the other buffer and start again\<close>
  "rl_swap cur msg rlb =
     (let rlb' = rlb\<lparr>buf_type := (if cur then USE_SWAP else USE_BUF)\<rparr>;
          other = array_of rlb' (\<not> cur) in
      if length other \<le> length msg then stop (Fault Buffer_overflow)
      else again ((with_array rlb' (\<not> cur) (patch other 0 (msg @ [NUL])))
             \<lparr>in_buf := \<not> cur, next_char := length msg\<rparr>))"

definition rl_scan :: "nat \<Rightarrow> bool \<Rightarrow> rlbuf \<Rightarrow> (rlbuf + rl_out) prog" where
  "rl_scan line_size cur rlb =
     (let a = array_of rlb (in_buf rlb); start = next_char rlb; q = line_end a start;
          msg = take (q - start) (drop start a) in
      if length a \<le> q then stop (Fault Out_of_bounds)
      else if a ! q = NUL then
        (if q = 0 then stop (Fault Out_of_bounds)
         else if a ! (q - 1) \<noteq> NL then rl_swap cur msg rlb
         else if msg = [] then leave (rlb, 0, None)
         else if line_size \<le> length msg then stop (Fault Buffer_overflow)
         else leave ((with_array rlb cur ((array_of rlb cur)[0 := NUL]))
                \<lparr>in_buf := cur, next_char := 0\<rparr>, int (length msg), Some msg))
      else if line_size \<le> Suc (length msg) then stop (Fault Buffer_overflow)
      else if length a \<le> Suc q then stop (Fault Out_of_bounds)
      else
        let rlb' = (if a ! Suc q = NUL
                    then (with_array rlb cur ((array_of rlb cur)[0 := NUL]))\<lparr>in_buf := cur, next_char := 0\<rparr>
                    else rlb\<lparr>next_char := Suc q\<rparr>)
        in leave (rlb', int (Suc (length msg)), Some (msg @ [NL])))"

definition rl_round :: "nat \<Rightarrow> rlbuf \<Rightarrow> (rlbuf + rl_out) prog" where
  \<comment> \<open>one activation of \<open>read_line_buf\<close>\<close>
  "rl_round line_size rlb =
     (if buf_type rlb \<noteq> USE_BUF \<and> buf_type rlb \<noteq> USE_SWAP then set_errno EINVAL (leave (rlb, -1, None))
      else
        let cur = (buf_type rlb = USE_BUF); a = array_of rlb (in_buf rlb) in
        if length a \<le> next_char rlb then stop (Fault Out_of_bounds)
        else if a ! next_char rlb = NUL then
          call (Fd (Read (rfd rlb) MAX_MSG_LEN)) (\<lambda>r.
            case r of
              RData (c # cs) \<Rightarrow>
                if length a \<le> next_char rlb + length (c # cs) then stop (Fault Buffer_overflow)
                else rl_scan line_size cur
                  ((with_array rlb (in_buf rlb) (patch a (next_char rlb) ((c # cs) @ [NUL])))
                    \<lparr>in_buf := cur, next_char := 0\<rparr>)
            | _ \<Rightarrow> leave (rlb, rv r, None))
        else rl_scan line_size cur rlb)"

text \<open>
  The recursion is a tail call, hence a loop. Only its first round can go round again without a
  read, so two later rounds than there are replies are enough (\<open>read_line_buf_returns\<close>).
\<close>

definition read_line_buf :: "nat \<Rightarrow> rlbuf \<Rightarrow> rl_out prog" where
  \<comment> \<open>\<open>line_size\<close> is the size of the caller's buffer\<close>
  "read_line_buf line_size rlb w =
     iter (Suc (Suc (length (script w)))) (rl_round line_size) rlb w"

section \<open>readLine delivers lines\<close>

text \<open>\<open>delivers rs s\<close>: the replies deliver the bytes \<open>s\<close>, with interrupted reads in between.\<close>

inductive delivers :: "reply list \<Rightarrow> string \<Rightarrow> bool" where
  delivers_Nil: "delivers [] []"
| delivers_byte: "delivers rs s \<Longrightarrow> delivers (RData [c] # rs) (c # s)"
| delivers_intr: "delivers rs s \<Longrightarrow> delivers (RErr EINTR # rs) s"

lemma iter_again: "body s w = (Return (Inl s'), w') \<Longrightarrow> iter (Suc n) body s w = iter n body s' w'"
  by (simp add: seq_def)

lemma iter_leave: "body s w = (Return (Inr x), w') \<Longrightarrow> iter (Suc n) body s w = (Return x, w')"
  by (simp add: seq_def ret_def)

definition rl_stored :: "nat \<Rightarrow> string \<Rightarrow> rl_state" where
  "rl_stored n s = \<lparr>totRead = length (take (n - 1) s), stored = take (n - 1) s\<rparr>"

lemma rl_stored_snoc:
  "(if totRead (rl_stored n s) < n - 1
    then \<lparr>totRead = totRead (rl_stored n s) + 1, stored = stored (rl_stored n s) @ [c]\<rparr>
    else rl_stored n s) = rl_stored n (s @ [c])"
  by (auto simp: rl_stored_def min_def)

lemma readLine_iter:
  assumes "delivers rs s" "NL \<notin> set s" "script w = rs @ RData [NL] # rest" "length rs < k"
  shows "\<exists>w'. iter k (read_line_body fd n) (rl_stored n pre) w =
      (Return (int (length (take (n - 1) (pre @ s @ [NL]))), Some (take (n - 1) (pre @ s @ [NL]))), w')
      \<and> script w' = rest"
  using assms
proof (induction arbitrary: pre w k rule: delivers.induct)
  case delivers_Nil
  then obtain m where "k = Suc m" by (cases k) auto
  with delivers_Nil show ?case
    using rl_stored_snoc[of n pre NL]
    by (auto simp: seq_def read_line_body_def call_def Let_def leave_def ret_def)
      (auto simp: rl_stored_def)
next
  case (delivers_byte rs s c)
  then obtain m where m: "k = Suc m" by (cases k) auto
  have "read_line_body fd n (rl_stored n pre) w = (Return (Inl (rl_stored n (pre @ [c]))),
      w\<lparr>script := rs @ RData [NL] # rest, trace := trace w @ [(Fd (Read fd 1), RData [c])], errno := errno w\<rparr>)"
    using delivers_byte.prems rl_stored_snoc[of n pre c]
    by (auto simp: read_line_body_def call_def again_def ret_def reply_errno_def Let_def)
  then show ?case
    using delivers_byte.IH[of _ m "pre @ [c]"] delivers_byte.prems m
    by (simp add: iter_again del: iter.simps)
next
  case (delivers_intr rs s)
  then obtain m where m: "k = Suc m" by (cases k) auto
  have "read_line_body fd n (rl_stored n pre) w = (Return (Inl (rl_stored n pre)),
      w\<lparr>script := rs @ RData [NL] # rest, trace := trace w @ [(Fd (Read fd 1), RErr EINTR)], errno := EINTR\<rparr>)"
    using delivers_intr.prems
    by (simp add: read_line_body_def call_def again_def ret_def reply_errno_def)
  then show ?case
    using delivers_intr.IH[of _ m pre] delivers_intr.prems m
    by (simp add: iter_again del: iter.simps)
qed

text \<open>C7: \<open>readLine\<close> delivers exactly the next line of a stream that arrives byte by byte with any
  interruptions: the first \<open>n - 1\<close> bytes of the line with its newline are stored, the rest of the
  line is discarded, and not one byte beyond the newline is taken from the descriptor.\<close>

theorem readLine_next_line:
  assumes "delivers rs line" "NL \<notin> set line" "0 < n" "script w = rs @ RData [NL] # rest"
  shows "\<exists>w'. readLine fd (Some n) w =
      (Return (int (length (take (n - 1) (line @ [NL]))), Some (take (n - 1) (line @ [NL]))), w')
      \<and> script w' = rest"
  using readLine_iter[OF assms(1,2,4), of "Suc (length (script w))" fd n "[]"] assms(3,4)
  by (simp add: readLine_def loop_def rl_stored_def del: iter.simps take_append length_take)

lemma readLine_next_line_witness:
  "\<exists>w'. readLine 3 (Some 3) (booted [RData ''a'', RErr EINTR, RData ''b'', RData ''c'', RData [NL], RData ''x''])
    = (Return (2, Some ''ab''), w') \<and> script w' = [RData ''x'']"
proof -
  have "delivers [RData ''a'', RErr EINTR, RData ''b'', RData ''c''] ''abc''"
    by (intro delivers.intros)
  moreover have "NL \<notin> set ''abc''" by (simp add: NL_def)
  ultimately show ?thesis
    using readLine_next_line[of "[RData ''a'', RErr EINTR, RData ''b'', RData ''c'']" "''abc''" 3
      "booted [RData ''a'', RErr EINTR, RData ''b'', RData ''c'', RData [NL], RData ''x'']"
      "[RData ''x'']" 3] by simp
qed

section \<open>read_line_buf delivers lines\<close>

definition RL_SIZE :: nat where "RL_SIZE = 2 * MAX_MSG_LEN"

definition holds :: "string \<Rightarrow> nat \<Rightarrow> string \<Rightarrow> bool" where
  \<comment> \<open>the C string at index \<open>i\<close> of the array is \<open>d\<close>\<close>
  "holds a i d \<longleftrightarrow> NUL \<notin> set d \<and> (\<exists>pre post. a = pre @ d @ NUL # post \<and> length pre = i)"

definition rl_wf :: "rlbuf \<Rightarrow> bool" where
  "rl_wf rlb \<longleftrightarrow> (buf_type rlb = USE_BUF \<or> buf_type rlb = USE_SWAP)
     \<and> in_buf rlb = (buf_type rlb = USE_BUF) \<and> length (buf rlb) = RL_SIZE \<and> length (swap rlb) = RL_SIZE"

definition rl_at :: "rlbuf \<Rightarrow> nat \<Rightarrow> string \<Rightarrow> bool" where
  "rl_at rlb i d \<longleftrightarrow> rl_wf rlb \<and> next_char rlb = i \<and> holds (array_of rlb (in_buf rlb)) i d"

definition rl_ready :: "rlbuf \<Rightarrow> string \<Rightarrow> bool" where
  \<comment> \<open>between two calls: \<open>d\<close> has been read and not delivered yet\<close>
  "rl_ready rlb d \<longleftrightarrow> (\<exists>i. rl_at rlb i d \<and> (d = [] \<longrightarrow> i = 0))"

definition rl_part :: "rlbuf \<Rightarrow> string \<Rightarrow> bool" where
  \<comment> \<open>the start \<open>d\<close> of a line is held, the next round will read on\<close>
  "rl_part rlb d \<longleftrightarrow> rl_wf rlb \<and> next_char rlb = length d \<and> holds (array_of rlb (in_buf rlb)) 0 d \<and> NL \<notin> set d"

lemma buf_types [simp]: "USE_BUF \<noteq> USE_SWAP" "USE_SWAP \<noteq> USE_BUF"
  by (simp_all add: USE_BUF_def USE_SWAP_def)

lemma array_of_with [simp]:
  "array_of (with_array rlb b a) b' = (if b = b' then a else array_of rlb b')"
  "buf_type (with_array rlb b a) = buf_type rlb" "in_buf (with_array rlb b a) = in_buf rlb"
  "rfd (with_array rlb b a) = rfd rlb" "next_char (with_array rlb b a) = next_char rlb"
  by (simp_all add: array_of_def with_array_def)

lemma array_of_upd [simp]:
  "array_of (rlb\<lparr>next_char := n\<rparr>) b = array_of rlb b" "array_of (rlb\<lparr>in_buf := x\<rparr>) b = array_of rlb b"
  "array_of (rlb\<lparr>buf_type := t\<rparr>) b = array_of rlb b"
  by (simp_all add: array_of_def)

lemma rl_wf_lengths: "rl_wf rlb \<Longrightarrow> length (array_of rlb b) = RL_SIZE"
  by (simp add: rl_wf_def array_of_def)

lemma rl_wf_upd [simp]: "rl_wf (rlb\<lparr>next_char := n\<rparr>) = rl_wf rlb"
  by (simp add: rl_wf_def)

lemma rl_wf_with:
  "rl_wf rlb \<Longrightarrow> length a = RL_SIZE \<Longrightarrow> rl_wf (with_array rlb b a)"
  by (simp add: rl_wf_def with_array_def)

lemma rl_wf_cur: "rl_wf rlb \<Longrightarrow> in_buf rlb = (buf_type rlb = USE_BUF)"
  by (simp add: rl_wf_def)

lemma holds_length: "holds a i d \<Longrightarrow> i + length d < length a"
  by (auto simp: holds_def)

lemma holds_nth:
  assumes "holds a i d"
  shows "a ! (i + length d) = NUL" "d \<noteq> [] \<Longrightarrow> a ! i = hd d" "d \<noteq> [] \<Longrightarrow> a ! (i + length d - 1) = last d"
proof -
  obtain pre post where a: "a = pre @ d @ NUL # post" "length pre = i"
    using assms by (auto simp: holds_def)
  show "a ! (i + length d) = NUL" using a by (simp add: nth_append)
  show "d \<noteq> [] \<Longrightarrow> a ! i = hd d" using a by (simp add: nth_append hd_conv_nth)
  show "d \<noteq> [] \<Longrightarrow> a ! (i + length d - 1) = last d"
    using a by (cases d rule: rev_cases) (auto simp: nth_append)
qed

lemma holds_take: "holds a i d \<Longrightarrow> n \<le> length d \<Longrightarrow> take n (drop i a) = take n d"
  by (auto simp: holds_def)

lemma line_end_newline:
  assumes "holds a i (l @ NL # rest)" "NL \<notin> set l"
  shows "line_end a i = i + length l"
proof -
  obtain pre post where a: "a = pre @ l @ NL # rest @ NUL # post" "length pre = i" "NUL \<notin> set l"
    using assms(1) by (auto simp: holds_def)
  have "takeWhile (\<lambda>c. c \<noteq> NL \<and> c \<noteq> NUL) (l @ NL # rest @ NUL # post) = l"
    using assms(2) a(3) by (subst takeWhile_append2) auto
  then show ?thesis using a by (simp add: line_end_def)
qed

lemma line_end_nul:
  assumes "holds a i d" "NL \<notin> set d"
  shows "line_end a i = i + length d"
proof -
  obtain pre post where a: "a = pre @ d @ NUL # post" "length pre = i" "NUL \<notin> set d"
    using assms(1) by (auto simp: holds_def)
  have "takeWhile (\<lambda>c. c \<noteq> NL \<and> c \<noteq> NUL) (d @ NUL # post) = d"
    using assms(2) a(3) by (subst takeWhile_append2) auto
  then show ?thesis using a by (simp add: line_end_def)
qed

lemma holds_tail: "holds a i (l @ c # rest) \<Longrightarrow> holds a (Suc (i + length l)) rest"
proof -
  assume h: "holds a i (l @ c # rest)"
  then obtain pre post where "a = pre @ (l @ c # rest) @ NUL # post" "length pre = i"
    by (auto simp: holds_def)
  then have "a = (pre @ l @ [c]) @ rest @ NUL # post \<and> length (pre @ l @ [c]) = Suc (i + length l)"
    by simp
  with h show ?thesis unfolding holds_def by (metis Un_iff set_append set_ConsD list.set_intros(2))
qed

lemma holds_zero: "length a = RL_SIZE \<Longrightarrow> holds (a[0 := NUL]) 0 []"
  by (cases a) (auto simp: holds_def RL_SIZE_def MAX_MSG_LEN_def)

lemma holds_patch:
  "length d + length c < length a \<Longrightarrow> take (length d) a = d \<Longrightarrow> NUL \<notin> set (d @ c) \<Longrightarrow>
    holds (patch a (length d) (c @ [NUL])) 0 (d @ c)"
  by (auto simp: holds_def patch_def)

lemma length_patch [simp]: "i + length s \<le> length a \<Longrightarrow> length (patch a i s) = length a"
  by (simp add: patch_def)

lemma NL_not_NUL [simp]: "NL \<noteq> NUL" "NUL \<noteq> NL"
  by (simp_all add: NL_def NUL_def)

text \<open>A scan that finds the newline delivers the line and keeps the rest.\<close>

lemma scan_delivers:
  assumes at: "rl_at rlb i (l @ NL # rest)" and l: "NL \<notin> set l" and size: "Suc (length l) < line_size"
    and cur: "cur = in_buf rlb"
  shows "\<exists>rlb'. rl_scan line_size cur rlb w
      = (Return (Inr (rlb', int (Suc (length l)), Some (l @ [NL]))), w) \<and> rl_ready rlb' rest"
proof -
  let ?a = "array_of rlb (in_buf rlb)"
  from at have h: "holds ?a i (l @ NL # rest)" and i: "next_char rlb = i" and wf: "rl_wf rlb"
    by (auto simp: rl_at_def)
  note q = line_end_newline[OF h l]
  have len: "Suc (i + length l) < length ?a" using holds_length[OF h] by simp
  obtain pre post where a: "?a = pre @ l @ NL # rest @ NUL # post" "length pre = i"
    using h by (auto simp: holds_def)
  have at_q: "?a ! (i + length l) = NL" using a by (simp add: nth_append)
  have msg: "take (i + length l - i) (drop i ?a) = l" using a by simp
  have next_nul: "?a ! Suc (i + length l) = NUL \<longleftrightarrow> rest = []"
    using a h by (cases rest) (auto simp: nth_append holds_def)
  note tail = holds_tail[OF h]
  show ?thesis
  proof (cases "rest = []")
    case True
    have "rl_ready ((with_array rlb cur ((array_of rlb cur)[0 := NUL]))\<lparr>in_buf := cur, next_char := 0\<rparr>) rest"
      using True cur wf rl_wf_lengths[OF wf]
      by (auto simp: rl_ready_def rl_at_def holds_zero rl_wf_def with_array_def array_of_def)
    then show ?thesis
      using True i q len at_q msg next_nul size cur
      by (simp add: rl_scan_def Let_def leave_def ret_def)
  next
    case False
    have "rl_ready (rlb\<lparr>next_char := Suc (i + length l)\<rparr>) rest"
      using False tail wf by (auto simp: rl_ready_def rl_at_def)
    then show ?thesis
      using False i q len at_q msg next_nul size
      by (simp add: rl_scan_def Let_def leave_def ret_def)
  qed
qed

text \<open>A scan that finds the end of what was read moves the start of the line to the other buffer.\<close>

lemma scan_swaps:
  assumes at: "rl_at rlb i d" and d: "d \<noteq> []" "NL \<notin> set d" and cur: "cur = in_buf rlb"
  shows "\<exists>rlb'. rl_scan line_size cur rlb w = (Return (Inl rlb'), w) \<and> rl_part rlb' d"
proof -
  let ?a = "array_of rlb (in_buf rlb)"
  from at have h: "holds ?a i d" and i: "next_char rlb = i" and wf: "rl_wf rlb"
    by (auto simp: rl_at_def)
  note q = line_end_nul[OF h d(2)]
  have len: "i + length d < RL_SIZE" using holds_length[OF h] rl_wf_lengths[OF wf] by simp
  have pos: "0 < i + length d" using d(1) by simp
  have prev: "?a ! (i + length d - 1) \<noteq> NL"
    using holds_nth(3)[OF h d(1)] d by (metis last_in_set)
  have msg: "take (i + length d - i) (drop i ?a) = d" using holds_take[OF h, of "length d"] by simp
  have other: "length (array_of rlb (\<not> cur)) = RL_SIZE" by (rule rl_wf_lengths[OF wf])
  define t where "t = (if cur then USE_SWAP else USE_BUF)"
  let ?r = "(with_array (rlb\<lparr>buf_type := t\<rparr>) (\<not> cur) (patch (array_of rlb (\<not> cur)) 0 (d @ [NUL])))
      \<lparr>in_buf := \<not> cur, next_char := length d\<rparr>"
  have "holds (patch (array_of rlb (\<not> cur)) 0 (d @ [NUL])) 0 d"
    using holds_patch[of "[]" d "array_of rlb (\<not> cur)"] other len h by (simp add: holds_def)
  moreover have "rl_wf ?r"
    using wf other len by (auto simp: rl_wf_def t_def with_array_def array_of_def)
  ultimately have "rl_part ?r d" using d by (simp add: rl_part_def)
  moreover have "rl_scan line_size cur rlb w = (Return (Inl ?r), w)"
    using i q len pos prev msg other rl_wf_lengths[OF wf] holds_nth(1)[OF h] d(1)
    by (simp add: rl_scan_def rl_swap_def Let_def again_def ret_def t_def)
  ultimately show ?thesis by blast
qed

lemma append_NL_unique:
  "xs @ NL # ys = us @ NL # vs \<Longrightarrow> NL \<notin> set xs \<Longrightarrow> NL \<notin> set us \<Longrightarrow> xs = us \<and> ys = vs"
proof (induction xs arbitrary: us)
  case Nil
  then show ?case by (cases us) auto
next
  case (Cons x xs)
  then show ?case by (cases us) auto
qed

lemma round_reads:
  assumes p: "rl_part rlb d" and w: "script w = RData c # rs" and c: "c \<noteq> []" "NUL \<notin> set c"
    and room: "length d + length c < RL_SIZE"
  shows "\<exists>rlb1 w1. rl_round line_size rlb w = rl_scan line_size (in_buf rlb1) rlb1 w1
    \<and> rl_at rlb1 0 (d @ c) \<and> script w1 = rs"
proof -
  let ?a = "array_of rlb (in_buf rlb)"
  from p have wf: "rl_wf rlb" and i: "next_char rlb = length d" and h: "holds ?a 0 d"
    by (auto simp: rl_part_def)
  have len: "length ?a = RL_SIZE" by (rule rl_wf_lengths[OF wf])
  let ?r = "(with_array rlb (in_buf rlb) (patch ?a (length d) (c @ [NUL])))
      \<lparr>in_buf := in_buf rlb, next_char := 0\<rparr>"
  obtain x xs where x: "c = x # xs" using c(1) by (cases c) auto
  have "take (length d) ?a = d" using holds_take[OF h, of "length d"] by simp
  moreover have "NUL \<notin> set d" using h by (simp add: holds_def)
  ultimately have "holds (patch ?a (length d) (c @ [NUL])) 0 (d @ c)"
    using room len c(2) by (intro holds_patch) auto
  moreover have "rl_wf ?r"
    using wf len room by (auto simp: rl_wf_def with_array_def array_of_def)
  ultimately have "rl_at ?r 0 (d @ c)" by (simp add: rl_at_def)
  moreover have "rl_round line_size rlb w = rl_scan line_size (in_buf ?r) ?r
      (w\<lparr>script := rs, trace := trace w @ [(Fd (Read (rfd rlb) MAX_MSG_LEN), RData c)]\<rparr>)"
    using wf i len room w holds_nth(1)[OF h] x rl_wf_cur[OF wf, symmetric]
    by (auto simp: rl_round_def Let_def call_def reply_errno_def rl_wf_def)
  ultimately show ?thesis by fastforce
qed

definition rl_result :: "string \<Rightarrow> string \<Rightarrow> reply list \<Rightarrow> string list \<Rightarrow> rl_out result \<times> world \<Rightarrow> bool" where
  \<comment> \<open>the line was delivered; some of the pieces \<open>cs\<close> are still unread, the rest is kept\<close>
  "rl_result line rest later cs res \<longleftrightarrow> (\<exists>used unused rlb' w' r. cs = used @ unused
     \<and> res = (Return (rlb', int (Suc (length line)), Some (line @ [NL])), w')
     \<and> script w' = map RData unused @ later \<and> rl_ready rlb' r \<and> r @ concat unused = rest)"

lemma rl_part_run:
  assumes "rl_part rlb d" "d @ concat cs = line @ NL # rest" "NL \<notin> set line" "length line < MAX_MSG_LEN"
    "Suc (length line) < line_size" "list_all (\<lambda>c. c \<noteq> [] \<and> NUL \<notin> set c \<and> length c \<le> MAX_MSG_LEN) cs"
    "script w = map RData cs @ later" "length cs < n"
  shows "rl_result line rest later cs (iter n (rl_round line_size) rlb w)"
  using assms
proof (induction cs arbitrary: rlb d w n)
  case Nil
  then have "NL \<in> set d" by simp
  with Nil show ?case by (simp add: rl_part_def)
next
  case (Cons c cs)
  from Cons.prems(8) obtain m where m: "n = Suc m" "length cs < m" by (cases n) auto
  have nd: "NL \<notin> set d" using Cons.prems(1) by (simp add: rl_part_def)
  have ld: "length d \<le> length line"
  proof (rule ccontr)
    assume "\<not> length d \<le> length line"
    then have "(d @ concat (c # cs)) ! length line = d ! length line" by (simp add: nth_append)
    then have "NL = d ! length line" using Cons.prems(2) by simp
    with \<open>\<not> length d \<le> length line\<close> nd show False by (metis not_le nth_mem)
  qed
  have c: "c \<noteq> []" "NUL \<notin> set c" "length c \<le> MAX_MSG_LEN" using Cons.prems(6) by auto
  have room: "length d + length c < RL_SIZE" using c(3) ld Cons.prems(4) by (simp add: RL_SIZE_def)
  obtain rlb1 w1 where r: "rl_round line_size rlb w = rl_scan line_size (in_buf rlb1) rlb1 w1"
    "rl_at rlb1 0 (d @ c)" "script w1 = map RData cs @ later"
    using round_reads[OF Cons.prems(1) _ c(1,2) room, of w "map RData cs @ later" line_size] Cons.prems(7)
    by auto
  show ?case
  proof (cases "NL \<in> set c")
    case True
    then obtain c1 c2 where c12: "c = c1 @ NL # c2" "NL \<notin> set c1" by (meson split_list_first)
    then have "(d @ c1) @ NL # (c2 @ concat cs) = line @ NL # rest" using Cons.prems(2) by simp
    then have eq: "d @ c1 = line" "c2 @ concat cs = rest"
      using append_NL_unique nd c12(2) Cons.prems(3) by (metis Un_iff set_append)+
    then have "rl_at rlb1 0 (line @ NL # c2)" using r(2) c12(1) by (simp add: eq(1)[symmetric])
    from scan_delivers[OF this Cons.prems(3,5) refl, of w1] obtain rlb'
      where "rl_scan line_size (in_buf rlb1) rlb1 w1
        = (Return (Inr (rlb', int (Suc (length line)), Some (line @ [NL]))), w1)" "rl_ready rlb' c2"
      by blast
    then show ?thesis
      using r eq(2) m(1) unfolding rl_result_def
      by (intro exI[of _ "[c]"] exI[of _ cs] exI[of _ rlb'] exI[of _ w1] exI[of _ c2])
        (simp add: iter_leave del: iter.simps)
  next
    case False
    obtain rlb' where s: "rl_scan line_size (in_buf rlb1) rlb1 w1 = (Return (Inl rlb'), w1)"
      "rl_part rlb' (d @ c)"
      using scan_swaps[OF r(2) _ _ refl, of line_size w1] c(1) nd False by auto
    have "rl_result line rest later cs (iter m (rl_round line_size) rlb' w1)"
      using Cons.IH[OF s(2) _ Cons.prems(3-5) _ r(3) m(2)] Cons.prems(2,6) by simp
    moreover have "iter n (rl_round line_size) rlb w = iter m (rl_round line_size) rlb' w1"
      using r(1) s(1) m(1) by (simp add: iter_again del: iter.simps)
    ultimately show ?thesis
      unfolding rl_result_def by (metis append_Cons)
  qed
qed

text \<open>C8: \<open>read_line_buf\<close> delivers lines however the stream is cut into reads: from a buffer that
  holds \<open>d\<close>, if \<open>d\<close> and the pieces still to be read make up a line of less than 4096 bytes and a
  rest, the call returns that line with its newline, reads no piece later than it needs, and what
  it keeps together with the unread pieces is exactly the rest.\<close>

theorem read_line_buf_delivers:
  assumes "rl_ready rlb d" "d @ concat cs = line @ NL # rest" "NL \<notin> set line"
    "length line < MAX_MSG_LEN" "Suc (length line) < line_size"
    "list_all (\<lambda>c. c \<noteq> [] \<and> NUL \<notin> set c \<and> length c \<le> MAX_MSG_LEN) cs"
    "script w = map RData cs @ later"
  shows "\<exists>used unused rlb' w' r. cs = used @ unused
     \<and> read_line_buf line_size rlb w
       = (Return (rlb', int (Suc (length line)), Some (line @ [NL])), w')
     \<and> script w' = map RData unused @ later \<and> rl_ready rlb' r \<and> r @ concat unused = rest"
proof -
  obtain i where at: "rl_at rlb i d" "d = [] \<longrightarrow> i = 0" using assms(1) by (auto simp: rl_ready_def)
  let ?n = "Suc (length (script w))"
  have enough: "length cs < ?n" using assms(7) by simp
  have "rl_result line rest later cs (iter (Suc ?n) (rl_round line_size) rlb w)"
  proof (cases "d = []")
    case True
    then have "rl_part rlb []" using at by (simp add: rl_part_def rl_at_def)
    from rl_part_run[OF this _ assms(3-7), of rest "Suc ?n"] assms(2) True enough
    show ?thesis by (simp del: iter.simps)
  next
    case False
    let ?a = "array_of rlb (in_buf rlb)"
    from at have h: "holds ?a i d" and i: "next_char rlb = i" and wf: "rl_wf rlb"
      by (auto simp: rl_at_def)
    have "?a ! i \<noteq> NUL" using holds_nth(2)[OF h False] h False by (metis holds_def hd_in_set)
    then have scan: "rl_round line_size rlb w = rl_scan line_size (in_buf rlb) rlb w"
      using wf i holds_length[OF h] by (auto simp: rl_round_def Let_def rl_wf_def)
    show ?thesis
    proof (cases "NL \<in> set d")
      case True
      then obtain d1 d2 where d12: "d = d1 @ NL # d2" "NL \<notin> set d1" by (meson split_list_first)
      then have "d1 @ NL # (d2 @ concat cs) = line @ NL # rest" using assms(2) by simp
      then have eq: "d1 = line" "d2 @ concat cs = rest"
        using append_NL_unique d12(2) assms(3) by blast+
      then have "rl_at rlb i (line @ NL # d2)" using at(1) d12(1) by simp
      from scan_delivers[OF this assms(3,5) refl, of w] obtain rlb'
        where "rl_scan line_size (in_buf rlb) rlb w
          = (Return (Inr (rlb', int (Suc (length line)), Some (line @ [NL]))), w)" "rl_ready rlb' d2"
        by blast
      then show ?thesis
        using scan eq(2) assms(7) unfolding rl_result_def
        by (intro exI[of _ "[]"] exI[of _ cs] exI[of _ rlb'] exI[of _ w] exI[of _ d2])
          (simp add: iter_leave del: iter.simps)
    next
      case nl: False
      obtain rlb' where s: "rl_scan line_size (in_buf rlb) rlb w = (Return (Inl rlb'), w)"
        "rl_part rlb' d"
        using scan_swaps[OF at(1) False nl refl, of line_size w] by auto
      have "rl_result line rest later cs (iter ?n (rl_round line_size) rlb' w)"
        by (rule rl_part_run[OF s(2) assms(2-7) enough])
      then show ?thesis using scan s(1) by (simp add: iter_again del: iter.simps)
    qed
  qed
  then show ?thesis by (simp add: rl_result_def read_line_buf_def del: iter.simps)
qed

lemma init_ready:
  assumes "length (buf rlb) = RL_SIZE" "length (swap rlb) = RL_SIZE"
  shows "rl_ready (fst (read_line_buf_init fd rlb)) []"
  using assms holds_zero[OF assms(1)]
  by (auto simp: rl_ready_def rl_at_def read_line_buf_init_def rl_wf_def array_of_def)

definition fresh_rlbuf :: rlbuf where
  "fresh_rlbuf = fst (read_line_buf_init 5 \<lparr>rfd = 0, buf_type = 0, in_buf = False, next_char = 0,
     buf = replicate RL_SIZE (CHR ''?''), swap = replicate RL_SIZE (CHR ''!'')\<rparr>)"

lemma fresh_ready: "rl_ready fresh_rlbuf []"
  by (auto simp: fresh_rlbuf_def intro: init_ready)

lemma read_line_buf_delivers_witness:
  "\<exists>used unused rlb' w' r. [''ab'', ''c'' @ NL # ''d'', ''e''] = used @ unused
     \<and> read_line_buf 100 fresh_rlbuf (booted [RData ''ab'', RData (''c'' @ NL # ''d''), RData ''e''])
       = (Return (rlb', 4, Some (''abc'' @ [NL])), w')
     \<and> script w' = map RData unused \<and> rl_ready rlb' r \<and> r @ concat unused = ''de''"
proof -
  have "NL \<notin> set ''abc''" by (simp add: NL_def)
  moreover have "list_all (\<lambda>c. c \<noteq> [] \<and> NUL \<notin> set c \<and> length c \<le> MAX_MSG_LEN)
      [''ab'', ''c'' @ NL # ''d'', ''e'']"
    by (simp add: NUL_def NL_def MAX_MSG_LEN_def)
  ultimately show ?thesis
    using read_line_buf_delivers[OF fresh_ready, of "[''ab'', ''c'' @ NL # ''d'', ''e'']" "''abc''" "''de''" 100
      "booted [RData ''ab'', RData (''c'' @ NL # ''d''), RData ''e'']" "[]"]
    by (simp add: MAX_MSG_LEN_def)
qed

text \<open>There is no check on the length of a line: a line that fills two reads of 4096 bytes makes
  \<open>read_line_buf\<close> write its terminating null byte past the end of its buffer.\<close>

theorem read_line_buf_overflows:
  assumes "rl_ready rlb []" "script w = RData c1 # RData c2 # later" "length c1 = MAX_MSG_LEN"
    "length c2 = MAX_MSG_LEN" "NUL \<notin> set c1" "NL \<notin> set c1"
  shows "fst (read_line_buf line_size rlb w) = Fault Buffer_overflow"
proof -
  have size: "c1 \<noteq> []" "length c1 < RL_SIZE" "c2 \<noteq> []"
    using assms(3,4) by (auto simp: RL_SIZE_def MAX_MSG_LEN_def)
  have "rl_part rlb []" using assms(1) by (auto simp: rl_ready_def rl_at_def rl_part_def)
  from round_reads[OF this assms(2) size(1) assms(5), of line_size] size(2) obtain rlb1 w1
    where 1: "rl_round line_size rlb w = rl_scan line_size (in_buf rlb1) rlb1 w1"
      "rl_at rlb1 0 c1" "script w1 = RData c2 # later"
    by auto
  obtain rlb2 where 2: "rl_scan line_size (in_buf rlb1) rlb1 w1 = (Return (Inl rlb2), w1)" "rl_part rlb2 c1"
    using scan_swaps[OF 1(2) size(1) assms(6) refl] by blast
  from 2(2) have wf: "rl_wf rlb2" and i: "next_char rlb2 = MAX_MSG_LEN"
    and h: "holds (array_of rlb2 (in_buf rlb2)) 0 c1"
    using assms(3) by (auto simp: rl_part_def)
  have "array_of rlb2 (in_buf rlb2) ! MAX_MSG_LEN = NUL" using holds_nth(1)[OF h] assms(3) by simp
  moreover have "length (array_of rlb2 (in_buf rlb2)) = RL_SIZE" by (rule rl_wf_lengths[OF wf])
  ultimately have "fst (rl_round line_size rlb2 w1) = Fault Buffer_overflow"
    using wf i 1(3) size(3) assms(4)
    by (auto simp: rl_round_def Let_def call_def rl_wf_def stop_def RL_SIZE_def MAX_MSG_LEN_def neq_Nil_conv)
  then have "fst (iter (Suc m) (rl_round line_size) rlb2 w1) = Fault Buffer_overflow" for m
    by (cases "rl_round line_size rlb2 w1") (simp add: seq_def)
  then show ?thesis
    using 1(1) 2(1) by (simp add: read_line_buf_def iter_again del: iter.simps)
qed

lemma read_line_buf_overflows_witness:
  "fst (read_line_buf 9000 fresh_rlbuf
     (booted [RData (replicate 4096 (CHR ''a'')), RData (replicate 4096 (CHR ''a''))]))
   = Fault Buffer_overflow"
  by (rule read_line_buf_overflows[OF fresh_ready])
    (auto simp: MAX_MSG_LEN_def NUL_def NL_def)

end
