(* ===== verification/Access.thy ===== *)
theory Access
  imports GetNum
begin

text \<open>
  Credentials and permissions: \<open>effective_access.c\<close>, \<open>imp_chattr.c\<close>, \<open>initgroups_imp.c\<close>,
  \<open>getpwnam_imp.c\<close> and the walkers over access control lists \<open>acl_view.c\<close> and
  \<open>get_named_acl_entry.c\<close>. A \<open>struct stat\<close> is answered as mode, owner, group; the handles of the
  ACL library are answered by what the accessors return for the current entry.
\<close>

unbundle bit_operations_syntax

section \<open>effective_access\<close>

definition EXIST :: int where "EXIST = 1"
definition HAS_R :: int where "HAS_R = 2"
definition HAS_W :: int where "HAS_W = 4"
definition HAS_X :: int where "HAS_X = 8"

lemmas access_flags = EXIST_def HAS_R_def HAS_W_def HAS_X_def

record PermGroup =
  pg_user :: int
  pg_group :: int
  pg_other :: int

definition perm_groups :: "PermGroup list" where
  "perm_groups =
     [\<lparr>pg_user = 256, pg_group = 32, pg_other = 4\<rparr>,
      \<lparr>pg_user = 128, pg_group = 16, pg_other = 2\<rparr>,
      \<lparr>pg_user = 64, pg_group = 8, pg_other = 1\<rparr>]"

record stat_info =
  st_mode :: int
  st_uid :: int
  st_gid :: int

definition stat_of :: "reply \<Rightarrow> stat_info" where
  "stat_of r = (case r of RInts ns \<Rightarrow> \<lparr>st_mode = field ns 0, st_uid = field ns 1, st_gid = field ns 2\<rparr>
     | _ \<Rightarrow> \<lparr>st_mode = 0, st_uid = 0, st_gid = 0\<rparr>)"

definition NGROUPS_MAX :: nat where "NGROUPS_MAX = 65536"

definition groupAccess :: "stat_info \<Rightarrow> int prog" where
  "groupAccess sb = call (User (Getgroups (NGROUPS_MAX + 1))) (\<lambda>r.
     case r of
       RInts grouplist \<Rightarrow> if st_gid sb \<in> set grouplist then ret 1 else ret 0
     | _ \<Rightarrow> ret 0)"

definition perm_result :: "int \<Rightarrow> int \<Rightarrow> int" where
  "perm_result mode want = (if mode AND want = 0 then -1 else 0)"

definition checkPermGroup :: "PermGroup \<Rightarrow> stat_info \<Rightarrow> int prog" where
  "checkPermGroup permGroup sb =
     call (User Geteuid) (\<lambda>u. call (User Getegid) (\<lambda>g.
       if rv u = st_uid sb then ret (perm_result (st_mode sb) (pg_user permGroup))
       else if rv g = st_gid sb
       then seq (groupAccess sb) (\<lambda>in_group.
         if in_group \<noteq> 0 then ret (perm_result (st_mode sb) (pg_group permGroup))
         else ret (perm_result (st_mode sb) (pg_other permGroup)))
       else ret (perm_result (st_mode sb) (pg_other permGroup))))"

definition check_if :: "int \<Rightarrow> int \<Rightarrow> nat \<Rightarrow> stat_info \<Rightarrow> int prog" where
  "check_if flags f i sb = (if flags AND f \<noteq> 0 then checkPermGroup (perm_groups ! i) sb else ret 0)"

definition effective_access :: "string \<Rightarrow> int \<Rightarrow> int prog" where
  "effective_access filename flags =
     (if flags = 0 then ret (-1)
      else call (Path (Stat filename)) (\<lambda>s.
        if rv s = -1 then ret (-1)
        else if flags AND EXIST \<noteq> 0 then ret 1
        else
          seq (check_if flags HAS_R 0 (stat_of s)) (\<lambda>r.
          seq (check_if flags HAS_W 1 (stat_of s)) (\<lambda>w.
          seq (check_if flags HAS_X 2 (stat_of s)) (\<lambda>x.
            ret (if r + w + x \<noteq> 0 then -1 else 0))))))"

fun access_options :: "string \<Rightarrow> int \<Rightarrow> int option" where
  \<comment> \<open>the option letters after the first character; \<open>None\<close> for an unknown one\<close>
  "access_options [] flags = Some flags"
| "access_options (c # cs) flags =
     (if c = CHR ''e'' then access_options cs (flags OR EXIST)
      else if c = CHR ''r'' then access_options cs (flags OR HAS_R)
      else if c = CHR ''w'' then access_options cs (flags OR HAS_W)
      else if c = CHR ''x'' then access_options cs (flags OR HAS_X)
      else None)"

definition access_main :: "string list \<Rightarrow> int prog" where
  "access_main argv =
     (if length argv \<noteq> 2 \<and> length argv \<noteq> 3
      then usageErr ''effective_access.bin [-erwx] <FILE>''
      else case (if length argv = 3 then access_options (tl (argv ! 1)) 0
                 else Some (HAS_R OR HAS_W OR HAS_X)) of
        None \<Rightarrow> usageErr ''effective_access.bin [erwx] <FILE>''
      | Some flags \<Rightarrow>
          seq (effective_access (argv ! (length argv - 1)) flags) (\<lambda>v.
            if v = -1
            then printf (''One or more permission checks failed!'' @ [NL]) (ret EXIT_FAILURE)
            else printf (''Success!'' @ [NL]) (ret EXIT_SUCCESS)))"

section \<open>imp_chattr\<close>

fun chattr_flag :: "char \<Rightarrow> int option" where
  "chattr_flag c =
     (if c = CHR ''a'' then Some 32 else if c = CHR ''c'' then Some 4
      else if c = CHR ''D'' then Some 65536 else if c = CHR ''i'' then Some 16
      else if c = CHR ''j'' then Some 16384 else if c = CHR ''A'' then Some 128
      else if c = CHR ''d'' then Some 64 else if c = CHR ''t'' then Some 32768
      else if c = CHR ''s'' then Some 1 else if c = CHR ''S'' then Some 8
      else if c = CHR ''T'' then Some 131072 else if c = CHR ''u'' then Some 2
      else None)"

fun chattr_mode :: "string \<Rightarrow> int \<Rightarrow> int option" where
  "chattr_mode [] flags = Some flags"
| "chattr_mode (c # cs) flags =
     (case chattr_flag c of None \<Rightarrow> None | Some f \<Rightarrow> chattr_mode cs (flags OR f))"

definition chattr_apply :: "char \<Rightarrow> int \<Rightarrow> int \<Rightarrow> int option" where
  "chattr_apply op flags current =
     (if op = CHR ''+'' then Some (current OR flags)
      else if op = CHR ''-'' then Some (current AND NOT flags)
      else if op = CHR ''='' then Some flags
      else None)"

definition perror :: "string \<Rightarrow> 'a prog \<Rightarrow> 'a prog" where
  "perror s k = get (\<lambda>w. (if s = [] then [] else s @ '': '') @ err_text w (errno w) @ [NL])
     (\<lambda>line. fprintf_stderr line k)"

definition chattr_file :: "char \<Rightarrow> int \<Rightarrow> string \<Rightarrow> (int \<Rightarrow> int) \<Rightarrow> bool prog" where
  \<comment> \<open>one round of the loop; true when an error was found. \<open>junk\<close> gives the indeterminate value of
    \<open>currentFlags\<close> when the first \<open>ioctl\<close> failed\<close>
  "chattr_file op flags file junk =
     call (Path (Open file ''O_RDONLY'' 0)) (\<lambda>fd.
       if rv fd = -1
       then fprintf_stderr (''open->'' @ file @ '': '') (perror [] (ret True))
       else call (Fd (Ioctl (rv fd) ''FS_IOC_GETFLAGS'' [])) (\<lambda>g.
         (if rv g = -1 then perror ''ioctl'' else (\<lambda>k. k))
           (case chattr_apply op flags
                  (case g of RInts ns \<Rightarrow> field ns 0 | _ \<Rightarrow> junk (rv fd)) of
              None \<Rightarrow> usageErr ''./imp_chattr [mode] files...''
            | Some currentFlags \<Rightarrow>
                call (Fd (Ioctl (rv fd) ''FS_IOC_SETFLAGS'' [currentFlags])) (\<lambda>s.
                  (if rv s = -1 then perror ''ioctl'' else (\<lambda>k. k))
                    (call (Fd (Close (rv fd))) (\<lambda>_. ret (rv g = -1 \<or> rv s = -1)))))))"

primrec chattr_files :: "char \<Rightarrow> int \<Rightarrow> (int \<Rightarrow> int) \<Rightarrow> string list \<Rightarrow> bool \<Rightarrow> bool prog" where
  "chattr_files op flags junk [] errFnd = ret errFnd"
| "chattr_files op flags junk (f # fs) errFnd =
     seq (chattr_file op flags f junk) (\<lambda>e. chattr_files op flags junk fs (errFnd \<or> e))"

definition chattr_main :: "(int \<Rightarrow> int) \<Rightarrow> string list \<Rightarrow> int prog" where
  "chattr_main junk argv =
     (if length argv < 3 then usageErr ''./imp_chattr [mode] files...''
      else if length (argv ! 1) = 1 then usageErr ''No flags specified''
      else case chattr_mode (tl (argv ! 1)) 0 of
        None \<Rightarrow> usageErr ''./imp_chattr [mode] files...''
      | Some flags \<Rightarrow>
          seq (chattr_files (if argv ! 1 = [] then NUL else hd (argv ! 1)) flags junk (drop 2 argv) False)
            (\<lambda>errFnd. ret (if errFnd then EXIT_FAILURE else EXIT_SUCCESS)))"

section \<open>initgroups and getpwnam\<close>

text \<open>
  \<open>getgrent\<close> is answered with the name of the group followed by its members; its identifier is
  the function \<open>gid\<close> of the entry. The loop of \<open>initgroups_clone\<close> stores one identifier for every
  group that has the user; \<open>setgroups\<close> gets a pointer to the array and the count 1.
\<close>

definition grouplist_body :: "(string \<Rightarrow> int) \<Rightarrow> string \<Rightarrow> int list \<Rightarrow> (int list + int list option) prog" where
  "grouplist_body gid user grouplist =
     call (User Getgrent) (\<lambda>r.
       case r of
         RStrs (name # members) \<Rightarrow>
           let grouplist' = (if user \<in> set members then grouplist @ [gid name] else grouplist) in
           if length grouplist' = NGROUPS_MAX then leave None else again grouplist'
       | _ \<Rightarrow> leave (Some grouplist))"

definition initgroups_clone :: "(string \<Rightarrow> int) \<Rightarrow> string \<Rightarrow> int \<Rightarrow> int prog" where
  "initgroups_clone gid_of user grp =
     event (Lib ''setgrent'' []) (seq (loop (grouplist_body gid_of user) [grp]) (\<lambda>res.
       case res of
         None \<Rightarrow> ret (-1)
       | Some grouplist \<Rightarrow>
           event (Lib ''endgrent'' [])
             (call (User (Setgroups (take 1 grouplist))) (\<lambda>r. ret (rv r)))))"

definition getpwnam_body :: "string \<Rightarrow> unit \<Rightarrow> (unit + string list option) prog" where
  "getpwnam_body name u =
     lib ''getpwent'' [] (\<lambda>r.
       case r of
         RStrs (pw_name # entry) \<Rightarrow>
           if pw_name = name then leave (Some (pw_name # entry)) else again ()
       | _ \<Rightarrow> leave None)"

definition getpwnam_clone :: "string option \<Rightarrow> string list option prog" where
  "getpwnam_clone name = event (Lib ''setpwent'' []) (case name of
      None \<Rightarrow> ret None
    | Some n \<Rightarrow> seq (loop (getpwnam_body n) ()) (\<lambda>out. event (Lib ''endpwent'' []) (ret out)))"

section \<open>Properties\<close>

text \<open>A trace in which the credentials and the file are the given ones.\<close>

definition creds_consistent ::
  "int \<Rightarrow> int \<Rightarrow> int list \<Rightarrow> stat_info \<Rightarrow> (syscall \<times> reply) list \<Rightarrow> bool" where
  "creds_consistent euid egid groups sb t \<longleftrightarrow> list_all (\<lambda>(c, r). case c of
       User Geteuid \<Rightarrow> r = RVal euid
     | User Getegid \<Rightarrow> r = RVal egid
     | User (Getgroups n) \<Rightarrow> r = RInts groups
     | Path (Stat f) \<Rightarrow> r = RInts [st_mode sb, st_uid sb, st_gid sb]
     | _ \<Rightarrow> True) t"

lemma creds_consistent_simps [simp]:
  "creds_consistent u g gs sb []"
  "creds_consistent u g gs sb (t @ t') \<longleftrightarrow> creds_consistent u g gs sb t \<and> creds_consistent u g gs sb t'"
  "creds_consistent u g gs sb ((User Geteuid, r) # t) \<longleftrightarrow> r = RVal u \<and> creds_consistent u g gs sb t"
  "creds_consistent u g gs sb ((User Getegid, r) # t) \<longleftrightarrow> r = RVal g \<and> creds_consistent u g gs sb t"
  "creds_consistent u g gs sb ((User (Getgroups n), r) # t) \<longleftrightarrow> r = RInts gs \<and> creds_consistent u g gs sb t"
  "creds_consistent u g gs sb ((Path (Stat f), r) # t) \<longleftrightarrow>
     r = RInts [st_mode sb, st_uid sb, st_gid sb] \<and> creds_consistent u g gs sb t"
  by (simp_all add: creds_consistent_def)

definition class_bits :: "int \<Rightarrow> int \<Rightarrow> int list \<Rightarrow> stat_info \<Rightarrow> PermGroup \<Rightarrow> int" where
  \<comment> \<open>the permission bit the code consults\<close>
  "class_bits euid egid groups sb p =
     (if euid = st_uid sb then pg_user p
      else if egid = st_gid sb \<and> st_gid sb \<in> set groups then pg_group p
      else pg_other p)"

definition kernel_bits :: "int \<Rightarrow> int \<Rightarrow> int list \<Rightarrow> stat_info \<Rightarrow> PermGroup \<Rightarrow> int" where
  \<comment> \<open>the bit the kernel consults for a process that is not privileged\<close>
  "kernel_bits euid egid groups sb p =
     (if euid = st_uid sb then pg_user p
      else if egid = st_gid sb \<or> st_gid sb \<in> set groups then pg_group p
      else pg_other p)"

definition answers :: "((syscall \<times> reply) list \<Rightarrow> bool) \<Rightarrow> 'a prog \<Rightarrow> 'a \<Rightarrow> bool" where
  \<comment> \<open>on every trace that is as assumed, the program returns this value or waits for a reply\<close>
  "answers ok p v \<longleftrightarrow> (\<forall>w. wp p (\<lambda>r w'. \<exists>t. trace w' = trace w @ t
     \<and> (ok t \<longrightarrow> r = Blocked \<or> r = Return v)) w)"

definition extends :: "'a prog \<Rightarrow> bool" where
  "extends p \<longleftrightarrow> (\<forall>w. wp p (\<lambda>r w'. \<exists>t. trace w' = trace w @ t) w)"

lemma answers_extends: "answers ok p v \<Longrightarrow> extends p"
  unfolding answers_def extends_def by (blast intro: wp_mono)

lemma answers_ret: "answers ok (ret v) v"
  by (auto simp: answers_def exec_simps)

lemma extends_ret: "extends (ret v)"
  by (auto simp: extends_def exec_simps)

lemma extends_seq: "extends p \<Longrightarrow> (\<And>x. extends (k x)) \<Longrightarrow> extends (seq p k)"
  unfolding extends_def wp_seq
proof (intro allI)
  fix w :: world
  assume p: "\<forall>w. wp p (\<lambda>r w'. \<exists>t. trace w' = trace w @ t) w"
    and k: "\<And>x. \<forall>w. wp (k x) (\<lambda>r w'. \<exists>t. trace w' = trace w @ t) w"
  show "wp p (lift (\<lambda>x. wp (k x) (\<lambda>r w'. \<exists>t. trace w' = trace w @ t))
      (\<lambda>r w'. \<exists>t. trace w' = trace w @ t)) w"
  proof (rule wp_mono[OF p[rule_format]])
    fix r and w1 :: world
    assume "\<exists>t. trace w1 = trace w @ t"
    then obtain t where t: "trace w1 = trace w @ t" ..
    have "wp (k x) (\<lambda>r w'. \<exists>t. trace w' = trace w @ t) w1" for x
      by (rule wp_mono[OF k[rule_format]]) (use t in auto)
    with t show "lift (\<lambda>x. wp (k x) (\<lambda>r w'. \<exists>t. trace w' = trace w @ t))
      (\<lambda>r w'. \<exists>t. trace w' = trace w @ t) r w1"
      by (cases r) auto
  qed
qed

definition splits :: "((syscall \<times> reply) list \<Rightarrow> bool) \<Rightarrow> bool" where
  "splits ok \<longleftrightarrow> (\<forall>t t'. ok (t @ t') \<longrightarrow> ok t \<and> ok t')"

lemma answers_from:
  assumes "answers ok p u" "splits ok" "trace w1 = trace w @ pre"
  shows "wp p (\<lambda>r w'. \<exists>t. trace w' = trace w @ t \<and> (ok t \<longrightarrow> r = Blocked \<or> r = Return u)) w1"
proof (rule wp_mono[OF assms(1)[unfolded answers_def, rule_format]])
  fix r w'
  assume "\<exists>t. trace w' = trace w1 @ t \<and> (ok t \<longrightarrow> r = Blocked \<or> r = Return u)"
  then obtain t where "trace w' = trace w @ pre @ t" "ok t \<longrightarrow> r = Blocked \<or> r = Return u"
    using assms(3) by auto
  moreover have "ok (pre @ t) \<longrightarrow> ok t" using assms(2) unfolding splits_def by blast
  ultimately show "\<exists>t. trace w' = trace w @ t \<and> (ok t \<longrightarrow> r = Blocked \<or> r = Return u)" by blast
qed

lemma extends_from:
  assumes "extends p" "splits ok" "trace w1 = trace w @ pre" "\<not> ok pre"
  shows "wp p (\<lambda>r w'. \<exists>t. trace w' = trace w @ t \<and> (ok t \<longrightarrow> r = Blocked \<or> r = Return u)) w1"
proof (rule wp_mono[OF assms(1)[unfolded extends_def, rule_format]])
  fix r :: "'a result" and w'
  assume "\<exists>t. trace w' = trace w1 @ t"
  then obtain t where "trace w' = trace w @ pre @ t" using assms(3) by auto
  moreover have "\<not> ok (pre @ t)" using assms(2,4) unfolding splits_def by blast
  ultimately show "\<exists>t. trace w' = trace w @ t \<and> (ok t \<longrightarrow> r = Blocked \<or> r = Return u)" by blast
qed

lemma answers_seq:
  assumes p: "answers ok p v" and k: "answers ok (k v) u" and ext: "\<And>x. extends (k x)" and ok: "splits ok"
  shows "answers ok (seq p k) u"
  unfolding answers_def wp_seq
proof (intro allI)
  fix w :: world
  let ?Q = "\<lambda>r w'. \<exists>t. trace w' = trace w @ t \<and> (ok t \<longrightarrow> r = Blocked \<or> r = Return u)"
  show "wp p (lift (\<lambda>x. wp (k x) ?Q) ?Q) w"
  proof (rule wp_mono[OF p[unfolded answers_def, rule_format]])
    fix r and w1 :: world
    assume "\<exists>t. trace w1 = trace w @ t \<and> (ok t \<longrightarrow> r = Blocked \<or> r = Return v)"
    then obtain t where t: "trace w1 = trace w @ t" "ok t \<longrightarrow> r = Blocked \<or> r = Return v" by blast
    show "lift (\<lambda>x. wp (k x) ?Q) ?Q r w1"
    proof (cases r)
      case (Return x)
      show ?thesis
      proof (cases "ok t")
        case True
        with t(2) Return answers_from[OF k ok t(1)] show ?thesis by simp
      next
        case False
        with Return extends_from[OF ext ok t(1)] show ?thesis by simp
      qed
    qed (use t in auto)
  qed
qed

lemma extends_call: "(\<And>r. extends (k r)) \<Longrightarrow> extends (call c k)"
  unfolding extends_def wp_call
proof (intro allI conjI impI, goal_cases)
  case (2 w r rs)
  show ?case by (rule wp_mono[OF 2(1)[rule_format]]) auto
qed auto

lemma answers_call:
  assumes v: "\<And>r. ok [(c, r)] \<Longrightarrow> r = v" and k: "answers ok (k v) u" and ext: "\<And>r. extends (k r)"
    and ok: "splits ok"
  shows "answers ok (call c k) u"
  unfolding answers_def wp_call
proof (intro allI conjI impI, goal_cases)
  case (1 w)
  then show ?case by auto
next
  case (2 w r rs)
  show ?case
  proof (cases "ok [(c, r)]")
    case True
    then have "r = v" by (rule v)
    with k show ?thesis by (intro answers_from[where pre = "[(c, r)]"] ok) auto
  next
    case False
    with ext show ?thesis by (intro extends_from[where pre = "[(c, r)]"] ok) auto
  qed
qed

lemma extends_groupAccess: "extends (groupAccess sb)"
  unfolding groupAccess_def
  by (intro extends_call) (simp add: extends_ret split: reply.splits)

lemma creds_split [simp]: "splits (creds_consistent u g gs sb)"
  by (simp add: splits_def)

lemma answers_groupAccess:
  "answers (creds_consistent u g gs sb) (groupAccess sb) (if st_gid sb \<in> set gs then 1 else 0)"
  unfolding groupAccess_def
proof (rule answers_call[where v = "RInts gs"])
  show "extends (case r of RInts grouplist \<Rightarrow>
      if st_gid sb \<in> set grouplist then ret 1 else ret 0 | _ \<Rightarrow> ret 0)" for r
    by (simp add: extends_ret split: reply.splits)
qed (auto simp: answers_ret)

lemma extends_checkPermGroup: "extends (checkPermGroup p sb)"
  unfolding checkPermGroup_def
  by (intro extends_call) (simp add: extends_ret extends_seq extends_groupAccess)

lemma answers_checkPermGroup:
  "answers (creds_consistent u g gs sb) (checkPermGroup p sb) (perm_result (st_mode sb) (class_bits u g gs sb p))"
proof -
  let ?ok = "creds_consistent u g gs sb" and ?r = "\<lambda>b. perm_result (st_mode sb) b"
  let ?grp = "seq (groupAccess sb) (\<lambda>in_group. if in_group \<noteq> 0 then ret (?r (pg_group p)) else ret (?r (pg_other p)))"
  have grp: "answers ?ok ?grp (?r (if st_gid sb \<in> set gs then pg_group p else pg_other p))"
    by (rule answers_seq[OF answers_groupAccess _ _ creds_split]) (auto simp: answers_ret extends_ret)
  have ext: "extends ?grp" by (rule answers_extends[OF grp])
  have inner: "answers ?ok (if u = st_uid sb then ret (?r (pg_user p))
      else if g = st_gid sb then ?grp else ret (?r (pg_other p))) (?r (class_bits u g gs sb p))"
    using grp by (cases "u = st_uid sb"; cases "g = st_gid sb"; cases "st_gid sb \<in> set gs")
      (simp_all only: class_bits_def answers_ret if_True if_False simp_thms)
  show ?thesis
    unfolding checkPermGroup_def
  proof (rule answers_call[where v = "RVal u", OF _ answers_call[where v = "RVal g"]], goal_cases)
    case 3
    show ?case using inner by (simp only: rv_def reply.case)
  next
    case 4
    show ?case using ext by (simp add: extends_ret)
  next
    case 6
    show ?case by (rule extends_call) (simp add: ext extends_ret)
  qed auto
qed

definition check_value :: "int \<Rightarrow> int \<Rightarrow> int list \<Rightarrow> stat_info \<Rightarrow> int \<Rightarrow> int \<Rightarrow> nat \<Rightarrow> int" where
  "check_value u g gs sb flags f i =
     (if flags AND f \<noteq> 0 then perm_result (st_mode sb) (class_bits u g gs sb (perm_groups ! i)) else 0)"

lemma answers_check_if:
  "answers (creds_consistent u g gs sb) (check_if flags f i sb) (check_value u g gs sb flags f i)"
  using answers_checkPermGroup[of u g gs sb "perm_groups ! i"] answers_ret[of "creds_consistent u g gs sb" "0 :: int"]
  by (simp add: check_if_def check_value_def)

lemma extends_check_if: "extends (check_if flags f i sb)"
  by (rule answers_extends[OF answers_check_if[where u = 0 and g = 0 and gs = "[]"]])

definition all_checks :: "int \<Rightarrow> stat_info \<Rightarrow> int prog" where
  "all_checks flags sb = seq (check_if flags HAS_R 0 sb) (\<lambda>r. seq (check_if flags HAS_W 1 sb) (\<lambda>w.
     seq (check_if flags HAS_X 2 sb) (\<lambda>x. ret (if r + w + x \<noteq> 0 then -1 else 0))))"

lemma extends_all_checks: "extends (all_checks flags sb)"
  unfolding all_checks_def by (intro extends_seq extends_check_if extends_ret)

lemma answers_all_checks:
  "answers (creds_consistent u g gs sb) (all_checks flags sb)
     (if check_value u g gs sb flags HAS_R 0 + check_value u g gs sb flags HAS_W 1
         + check_value u g gs sb flags HAS_X 2 \<noteq> 0 then -1 else 0)"
  unfolding all_checks_def
  by (intro answers_seq[OF answers_check_if _ _ creds_split] answers_ret extends_seq extends_check_if extends_ret)

lemma effective_access_checks:
  "flags \<noteq> 0 \<Longrightarrow> flags AND EXIST = 0 \<Longrightarrow> effective_access filename flags =
     call (Path (Stat filename)) (\<lambda>s. if rv s = -1 then ret (-1) else all_checks flags (stat_of s))"
  by (simp add: effective_access_def all_checks_def cong: if_cong)

lemma answers_access:
  assumes "flags \<noteq> 0" "flags AND EXIST = 0"
  shows "answers (creds_consistent u g gs sb) (effective_access filename flags)
    (if check_value u g gs sb flags HAS_R 0 + check_value u g gs sb flags HAS_W 1
         + check_value u g gs sb flags HAS_X 2 \<noteq> 0 then -1 else 0)"
  unfolding effective_access_checks[OF assms]
proof (rule answers_call[where v = "RInts [st_mode sb, st_uid sb, st_gid sb]"], goal_cases)
  case 2
  have "stat_of (RInts [st_mode sb, st_uid sb, st_gid sb]) = sb" by (simp add: stat_of_def)
  then show ?case using answers_all_checks[of u g gs sb flags] by (simp add: rv_def)
next
  case 3
  show ?case by (simp add: extends_ret extends_all_checks)
qed auto

lemma perm_result_value: "perm_result m b = (if m AND b = 0 then -1 else 0)"
  by (rule perm_result_def)

lemma check_sum: "check_value u g gs sb flags HAS_R 0 + check_value u g gs sb flags HAS_W 1
    + check_value u g gs sb flags HAS_X 2 \<noteq> 0 \<longleftrightarrow>
    (\<exists>(f, i) \<in> set [(HAS_R, 0), (HAS_W, 1), (HAS_X, 2)]. flags AND f \<noteq> 0
      \<and> st_mode sb AND class_bits u g gs sb (perm_groups ! i) = 0)"
  by (simp add: check_value_def perm_result_def)

definition access_consistent ::
  "int \<Rightarrow> int \<Rightarrow> int list \<Rightarrow> stat_info option \<Rightarrow> (syscall \<times> reply) list \<Rightarrow> bool" where
  \<comment> \<open>the credentials and the file are the given ones; with \<open>None\<close> the file cannot be found\<close>
  "access_consistent euid egid groups fsb t = (case fsb of
      Some sb \<Rightarrow> creds_consistent euid egid groups sb t
    | None \<Rightarrow> list_all (\<lambda>(c, r). case c of Path (Stat f) \<Rightarrow> rv r = -1 | _ \<Rightarrow> True) t)"

definition access_missing :: "int \<Rightarrow> int \<Rightarrow> int list \<Rightarrow> stat_info \<Rightarrow> int \<Rightarrow> bool" where
  \<comment> \<open>a permission that is asked for is not set for the class\<close>
  "access_missing euid egid groups sb flags \<longleftrightarrow> (\<exists>(f, i) \<in> set [(HAS_R, 0), (HAS_W, 1), (HAS_X, 2)]. flags AND f \<noteq> 0
      \<and> st_mode sb AND class_bits euid egid groups sb (perm_groups ! i) = 0)"

lemma effective_access_file:
  assumes "effective_access filename flags w = (r, w')" "trace w' = trace w @ t" "flags \<noteq> 0" "r \<noteq> Blocked"
  obtains s w1 t1 where "t = (Path (Stat filename), s) # t1" "rv s = -1 \<Longrightarrow> r = Return (-1)"
    "rv s \<noteq> -1 \<Longrightarrow> flags AND EXIST \<noteq> 0 \<Longrightarrow> r = Return 1"
proof (cases "script w")
  case Nil
  with assms show ?thesis by (simp add: effective_access_def call_def)
next
  case (Cons s rs)
  let ?w1 = "w\<lparr>script := rs, trace := trace w @ [(Path (Stat filename), s)], errno := reply_errno s (errno w)\<rparr>"
  let ?p = "seq (check_if flags HAS_R 0 (stat_of s)) (\<lambda>r. seq (check_if flags HAS_W 1 (stat_of s)) (\<lambda>w.
      seq (check_if flags HAS_X 2 (stat_of s)) (\<lambda>x. ret (if r + w + x \<noteq> 0 then -1 else 0))))"
  let ?k = "if rv s = -1 then ret (-1) else if flags AND EXIST \<noteq> 0 then ret 1 else ?p"
  have k: "?k ?w1 = (r, w')" using assms(1,3) Cons by (simp add: effective_access_def call_def)
  have "extends ?k" by (auto intro!: extends_ret extends_seq extends_check_if)
  then have "wp ?k (\<lambda>r w'. \<exists>t. trace w' = trace ?w1 @ t) ?w1" unfolding extends_def by (rule spec)
  from wpD[OF this k] obtain t1 where "trace w' = trace w @ (Path (Stat filename), s) # t1" by auto
  with assms(2) have "t = (Path (Stat filename), s) # t1" by simp
  then show ?thesis by (rule that) (use k in \<open>auto simp: ret_def\<close>)
qed

text \<open>C9: On every trace in which the credentials and the file are the given ones, the result is: without flags, or when the file
  cannot be found, -1; with the flag for existence 1, whatever permissions are asked for besides; otherwise -1 exactly if a
  permission that is asked for is not set for the one class of the file mode that is consulted: owner, group or other.\<close>

theorem effective_access_decides:
  assumes "effective_access filename flags w = (r, w')"
    "trace w' = trace w @ t" "access_consistent euid egid groups fsb t" "r \<noteq> Blocked"
  shows "r = Return (if flags = 0 then -1 else case fsb of None \<Rightarrow> -1
    | Some sb \<Rightarrow> if flags AND EXIST \<noteq> 0 then 1 else if access_missing euid egid groups sb flags then -1 else 0)"
proof (cases "flags = 0")
  case True
  with assms(1) show ?thesis by (simp add: effective_access_def ret_def)
next
  case False
  from effective_access_file[OF assms(1,2) False assms(4)] obtain s t1 where s: "t = (Path (Stat filename), s) # t1"
      "rv s = -1 \<Longrightarrow> r = Return (-1)" "rv s \<noteq> -1 \<Longrightarrow> flags AND EXIST \<noteq> 0 \<Longrightarrow> r = Return 1" by metis
  show ?thesis
  proof (cases fsb)
    case None
    with assms(3) s(1) have "rv s = -1" by (simp add: access_consistent_def)
    with s(2) None False show ?thesis by simp
  next
    case (Some sb)
    show ?thesis
    proof (cases "flags AND EXIST = 0")
      case True
      have "wp (effective_access filename flags) (\<lambda>r w'. \<exists>t. trace w' = trace w @ t
          \<and> (creds_consistent euid egid groups sb t \<longrightarrow> r = Blocked \<or> r = Return
          (if access_missing euid egid groups sb flags then -1 else 0))) w"
        using answers_access[OF False True, of euid egid groups sb filename]
        unfolding answers_def check_sum access_missing_def by (rule spec)
      from wpD[OF this assms(1)] have "r = Return (if access_missing euid egid groups sb flags then -1 else 0)"
        using assms(2-4) Some by (metis access_consistent_def option.simps(5) same_append_eq)
      with Some True False show ?thesis by simp
    next
      case exist: False
      from assms(3) Some s(1) have "rv s = 0" by (simp add: access_consistent_def creds_consistent_def rv_def)
      with s(3) exist Some False show ?thesis by simp
    qed
  qed
qed

lemma effective_access_decides_witness:
  "fst (effective_access ''f'' 2 (booted [RInts [400, 7, 50], RVal 1000, RVal 50, RInts [50, 60]]))
    = Return (-1)"
proof -
  let ?w = "booted [RInts [400, 7, 50], RVal 1000, RVal 50, RInts [50, 60]]"
  let ?t = "[(Path (Stat ''f''), RInts [400, 7, 50]), (User Geteuid, RVal 1000), (User Getegid, RVal 50),
      (User (Getgroups (NGROUPS_MAX + 1)), RInts [50, 60])]"
  let ?sb = "\<lparr>st_mode = 400, st_uid = 7, st_gid = 50\<rparr>"
  obtain r w' where e: "effective_access ''f'' 2 ?w = (r, w')" by fastforce
  moreover from e have "trace w' = trace ?w @ ?t" "r \<noteq> Blocked"
    by (auto simp: effective_access_def run_simps check_if_def access_flags checkPermGroup_def
        perm_groups_def groupAccess_def stat_of_def perm_result_def)
  moreover have "access_consistent 1000 50 [50, 60] (Some ?sb) ?t" by (simp add: access_consistent_def creds_consistent_def)
  ultimately have "r = Return (if (2 :: int) = 0 then -1 else case Some ?sb of None \<Rightarrow> -1
      | Some sb \<Rightarrow> if 2 AND EXIST \<noteq> 0 then 1 else if access_missing 1000 50 [50, 60] sb 2 then -1 else 0)"
    by (intro effective_access_decides[where t = ?t and w' = w'])
  with e show ?thesis by (simp add: access_missing_def access_flags perm_groups_def class_bits_def)
qed

text \<open>The class is not the kernel's: a process that is in the file's group only by a supplementary
  group, or only by its effective group, is checked against the bits for others, although the
  kernel applies the group bits.\<close>

theorem effective_access_group_class:
  assumes "euid \<noteq> st_uid sb" "(egid = st_gid sb) \<noteq> (st_gid sb \<in> set groups)"
  shows "class_bits euid egid groups sb p = pg_other p \<and> kernel_bits euid egid groups sb p = pg_group p"
  using assms by (auto simp: class_bits_def kernel_bits_def)

lemma effective_access_group_class_witness:
  "class_bits 1000 1000 [1000, 50] \<lparr>st_mode = 432, st_uid = 0, st_gid = 50\<rparr> (perm_groups ! 0) = 4"
  using effective_access_group_class[of 1000 "\<lparr>st_mode = 432, st_uid = 0, st_gid = 50\<rparr>" 1000 "[1000, 50]" "perm_groups ! 0"]
  by (simp add: perm_groups_def)

text \<open>\<open>initgroups_clone\<close> never installs a group it looked up: whatever the group file says, the only
  list it can hand to \<open>setgroups\<close> is the single group of its argument, because it passes the
  count 1.\<close>

theorem initgroups_sets_one_group:
  "wp (initgroups_clone gid_of user grp) (\<lambda>r w'. \<exists>t. trace w' = trace w @ t
     \<and> [gs. (User (Setgroups gs), x) \<leftarrow> t] \<in> {[], [[grp]]}) w"
proof -
  let ?sets = "\<lambda>t. [gs. (User (Setgroups gs), x) \<leftarrow> t]"
  let ?w = "w\<lparr>trace := trace w @ [(Lib ''setgrent'' [], RVal 0)]\<rparr>"
  have "wp (loop (grouplist_body gid_of user) [grp]) (\<lambda>r w'. \<exists>t. trace w' = trace w @ t \<and> ?sets t = []
      \<and> (case r of Return (Some gs) \<Rightarrow> gs \<noteq> [] \<and> hd gs = grp | _ \<Rightarrow> True)) ?w"
    by (rule loop_rule[where I = "\<lambda>gs w'. gs \<noteq> [] \<and> hd gs = grp \<and> (\<exists>t. trace w' = trace w @ t \<and> ?sets t = [])"])
      (auto simp: grouplist_body_def exec_simps Let_def split: reply.splits list.splits)
  then show ?thesis
    unfolding initgroups_clone_def
    by (simp add: exec_simps) (erule wp_mono, auto simp: exec_simps neq_Nil_conv split: option.splits result.splits)
qed

end
