(* ===== verification/Acl.thy ===== *)
theory Acl
  imports Access
begin

text \<open>
  The walkers over access control lists: \<open>acl_view.c\<close> and \<open>get_named_acl_entry.c\<close>. The handles of
  the ACL library are opaque: \<open>acl_get_entry\<close> advances to the next entry and is answered with 1
  while there is one, the accessors are answered with what they return for that entry. \<open>getopt\<close>
  is a parameter: the options it delivers, each with its argument, and the operand after them.
\<close>

definition ACL_USER_OBJ :: int where "ACL_USER_OBJ = 1"
definition ACL_USER :: int where "ACL_USER = 2"
definition ACL_GROUP_OBJ :: int where "ACL_GROUP_OBJ = 4"
definition ACL_GROUP :: int where "ACL_GROUP = 8"
definition ACL_MASK :: int where "ACL_MASK = 16"
definition ACL_OTHER :: int where "ACL_OTHER = 32"
definition ACL_READ :: int where "ACL_READ = 4"
definition ACL_WRITE :: int where "ACL_WRITE = 2"
definition ACL_EXECUTE :: int where "ACL_EXECUTE = 1"
definition ACL_FIRST_ENTRY :: int where "ACL_FIRST_ENTRY = 0"
definition ACL_NEXT_ENTRY :: int where "ACL_NEXT_ENTRY = 1"

lemmas acl_tags = ACL_USER_OBJ_def ACL_USER_def ACL_GROUP_OBJ_def ACL_GROUP_def ACL_MASK_def ACL_OTHER_def

definition pad_right :: "nat \<Rightarrow> string \<Rightarrow> string" where
  \<comment> \<open>the conversion \<open>%-ns\<close>\<close>
  "pad_right n s = s @ replicate (n - length s) (CHR '' '')"

definition perm_char :: "bool \<Rightarrow> char \<Rightarrow> char" where
  "perm_char b c = (if b then c else CHR ''-'')"

section \<open>acl_view\<close>

definition acl_tag_name :: "int \<Rightarrow> string" where
  "acl_tag_name tag =
     (if tag = ACL_USER_OBJ then ''user_obj'' else if tag = ACL_USER then ''user''
      else if tag = ACL_GROUP_OBJ then ''group_obj'' else if tag = ACL_GROUP then ''group''
      else if tag = ACL_MASK then ''mask'' else if tag = ACL_OTHER then ''other'' else ''???'')"

definition acl_usage :: "string \<Rightarrow> 'a prog" where
  "acl_usage progName = fprintf_stderr (''Usage: '' @ progName @ '' [-d] filename'' @ [NL])
     (exit_prog EXIT_FAILURE)"

definition show_qualifier :: "int \<Rightarrow> unit prog" where
  "show_qualifier tag =
     (if tag = ACL_USER \<or> tag = ACL_GROUP
      then or_die_null (Lib ''acl_get_qualifier'' []) ''acl_get_qualifier'' (\<lambda>q.
        seq (if tag = ACL_USER then userNameFromId (rv q) else groupNameFromId (rv q)) (\<lambda>name.
          printf (pad_right 8 (case name of None \<Rightarrow> show_int (to_int32 (rv q)) | Some n \<Rightarrow> n) @ '' '')
            (or_die (Lib ''acl_free'' []) ''acl_free'' (\<lambda>_. ret ()))))
      else printf ''         '' (ret ()))"

definition show_one_perm :: "int \<Rightarrow> string \<Rightarrow> char \<Rightarrow> 'a prog \<Rightarrow> 'a prog" where
  "show_one_perm perm msg c k =
     or_die (Lib ''acl_get_perm'' [perm]) msg (\<lambda>v. printf [perm_char (rv v = 1) c] k)"

definition acl_view_entry :: "int \<Rightarrow> (int + unit) prog" where
  "acl_view_entry entryId =
     lib ''acl_get_entry'' [entryId] (\<lambda>r.
       if rv r \<noteq> 1 then leave ()
       else or_die (Lib ''acl_get_tag_type'' []) ''acl_get_tag_type'' (\<lambda>tag.
         printf (pad_right 12 (acl_tag_name (rv tag)))
           (seq (show_qualifier (rv tag)) (\<lambda>u.
             or_die (Lib ''acl_get_permset'' []) ''acl_get_permset'' (\<lambda>p.
               show_one_perm ACL_READ ''acl_get_perm - ACL_READ'' (CHR ''r'')
               (show_one_perm ACL_WRITE ''acl_get_perm - ACL_WRITE'' (CHR ''w'')
               (show_one_perm ACL_EXECUTE ''acl_get_perm - ACL_EXECUTE'' (CHR ''x'')
               (printf [NL] (again ACL_NEXT_ENTRY)))))))))"

definition acl_view_main :: "string \<Rightarrow> char list \<Rightarrow> string list \<Rightarrow> int prog" where
  \<comment> \<open>\<open>opts\<close>: what \<open>getopt\<close> returns, \<open>?\<close> for an unknown option; \<open>operands\<close>: the rest of the arguments\<close>
  "acl_view_main prog opts operands =
     (if CHR ''?'' \<in> set opts then acl_usage prog
      else if length operands \<noteq> 1 then acl_usage prog
      else
        or_die_null (Lib (''acl_get_file '' @ hd operands)
            [if CHR ''d'' \<in> set opts then 1 else 0]) ''acl_get_file'' (\<lambda>acl.
          seq (loop acl_view_entry ACL_FIRST_ENTRY) (\<lambda>u.
            or_die (Lib ''acl_free'' []) ''acl_free'' (\<lambda>_. exit_prog EXIT_SUCCESS))))"

section \<open>get_named_acl_entry\<close>

definition getPermChar :: "bool \<Rightarrow> int \<Rightarrow> bool prog" where
  \<comment> \<open>\<open>masked\<close>: a mask was given\<close>
  "getPermChar masked perm =
     or_die (Lib ''acl_get_perm permset'' [perm]) ''acl_get_perm'' (\<lambda>permVal.
       if masked
       then or_die (Lib ''acl_get_perm mask'' [perm]) ''acl_get_perm'' (\<lambda>maskVal.
         ret (rv permVal = 1 \<and> rv maskVal = 1))
       else ret (rv permVal = 1))"

definition getPermString :: "bool \<Rightarrow> string prog" where
  "getPermString masked =
     seq (getPermChar masked ACL_READ) (\<lambda>r.
     seq (getPermChar masked ACL_WRITE) (\<lambda>w.
     seq (getPermChar masked ACL_EXECUTE) (\<lambda>x.
       ret [perm_char r (CHR ''r''), perm_char w (CHR ''w''), perm_char x (CHR ''x'')])))"

definition mask_entry :: "int \<Rightarrow> (int + bool) prog" where
  "mask_entry entryId =
     lib ''acl_get_entry'' [entryId] (\<lambda>r.
       if rv r \<noteq> 1
       then (if rv r = -1 then errExit ''acl_get_entry'' else leave False)
       else lib ''acl_get_tag_type'' [] (\<lambda>tag.
         if rv tag = -1 then errExit ''acl_get_tag_type''
         else if rv tag = ACL_MASK
         then or_die (Lib ''acl_get_permset mask'' []) ''acl_get_permset'' (\<lambda>_. leave True)
         else again ACL_NEXT_ENTRY))"

definition getMaskPermset :: "string \<Rightarrow> bool prog" where
  \<comment> \<open>whether there is a mask; its permission set is what \<open>acl_get_perm mask\<close> reads\<close>
  "getMaskPermset filePath =
     or_die_null (Lib (''acl_get_file '' @ filePath) [0]) ''acl_get_file'' (\<lambda>acl.
       loop mask_entry ACL_FIRST_ENTRY)"

record named_state =
  entry_id :: int
  hasNamedEntry :: bool
  otherPermString :: "string option"

definition named_line :: "string \<Rightarrow> string \<Rightarrow> unit prog" where
  \<comment> \<open>the permissions of an entry of the group class, and what the mask leaves of them\<close>
  "named_line title file =
     or_die (Lib ''acl_get_permset'' []) ''acl_get_permset'' (\<lambda>p.
       seq (getPermString False) (\<lambda>permString.
         printf (title @ '': '' @ permString @ ''   '')
           (seq (getMaskPermset file) (\<lambda>masked.
             seq (getPermString masked) (\<lambda>maskedString.
               printf (''effective: '' @ maskedString @ [NL]) (ret ()))))))"

definition if_qualifier :: "int \<Rightarrow> 'a prog \<Rightarrow> 'a prog \<Rightarrow> 'a prog" where
  \<comment> \<open>whether the entry is the one of this identifier\<close>
  "if_qualifier ident yes no =
     or_die_null (Lib ''acl_get_qualifier'' []) ''acl_get_qualifier'' (\<lambda>q.
       event (Lib ''acl_free'' []) (if to_uint32 (rv q) = ident then yes else no))"

definition named_entry ::
  "string \<Rightarrow> int \<Rightarrow> int \<Rightarrow> bool \<Rightarrow> bool \<Rightarrow> named_state \<Rightarrow> (named_state + named_state) prog" where
  "named_entry file uid gid isFileOwner isGroupOwner s =
     (let next = again (s\<lparr>entry_id := ACL_NEXT_ENTRY\<rparr>);
          named = again (s\<lparr>entry_id := ACL_NEXT_ENTRY, hasNamedEntry := True\<rparr>) in
      lib ''acl_get_entry'' [entry_id s] (\<lambda>r.
       if rv r \<noteq> 1 then leave s
       else or_die (Lib ''acl_get_tag_type'' []) ''acl_get_tag_type'' (\<lambda>t.
         let tag = rv t in
         if tag = ACL_USER_OBJ \<and> isFileOwner
         then or_die (Lib ''acl_get_permset'' []) ''acl_get_permset'' (\<lambda>p.
           seq (getPermString False) (\<lambda>permString.
             printf (''ACL_USER_OBJ: '' @ permString @ [NL]) next))
         else if tag = ACL_USER
         then if_qualifier uid (seq (named_line ''ACL_USER'' file) (\<lambda>u. named)) next
         else if tag = ACL_GROUP_OBJ \<and> isGroupOwner
         then seq (named_line ''ACL_GROUP_OBJ'' file) (\<lambda>u. next)
         else if tag = ACL_GROUP
         then if_qualifier gid (seq (named_line ''ACL_GROUP'' file) (\<lambda>u. named)) next
         else if tag = ACL_OTHER
         then or_die (Lib ''acl_get_permset'' []) ''acl_get_permset'' (\<lambda>p.
           seq (getPermString False) (\<lambda>permString.
             again (s\<lparr>entry_id := ACL_NEXT_ENTRY, otherPermString := Some permString\<rparr>)))
         else next)))"

fun named_options :: "(char \<times> string) list \<Rightarrow> int \<Rightarrow> int \<Rightarrow> (int \<times> int) prog" where
  "named_options [] uid gid = ret (uid, gid)"
| "named_options ((opt, optarg) # os) uid gid =
     (if opt = CHR ''u'' then
        (case strtol optarg 10 of (v, rest, erange) \<Rightarrow>
          if rest \<noteq> [] then errExit ''Bad conversion'' else named_options os (to_uint32 v) gid)
      else if opt = CHR ''g'' then
        (case strtol optarg 10 of (v, rest, erange) \<Rightarrow>
          if rest \<noteq> [] then errExit ''strol'' else named_options os uid (to_uint32 v))
      else if opt = CHR ''?'' then usageErr ''get_named_acl_entry.bin [ug] name file''
      else named_options os uid gid)"

definition named_acl_main :: "nat \<Rightarrow> (char \<times> string) list \<Rightarrow> string \<Rightarrow> int prog" where
  "named_acl_main argc opts file =
     (if argc \<noteq> 4 then usageErr ''get_named_acl_entry.bin [ug] name file''
      else seq (named_options opts (to_uint32 (-1)) (to_uint32 (-1))) (\<lambda>(uid, gid).
        or_die (Path (Stat file)) ''stat'' (\<lambda>st.
          let isFileOwner = (st_uid (stat_of st) = uid); isGroupOwner = (st_gid (stat_of st) = gid) in
          or_die_null (Lib (''acl_get_file '' @ file) [0]) ''acl_get_file'' (\<lambda>acl.
            seq (loop (named_entry file uid gid isFileOwner isGroupOwner)
                   \<lparr>entry_id = ACL_FIRST_ENTRY, hasNamedEntry = False, otherPermString = None\<rparr>) (\<lambda>s.
              case otherPermString s of
                None \<Rightarrow> stop (Fault Uninitialised)
              | Some other \<Rightarrow>
                  (if \<not> isFileOwner \<and> \<not> isGroupOwner \<and> \<not> hasNamedEntry s
                   then printf (''ACL_OTHER: '' @ other @ [NL]) else (\<lambda>k. k))
                    (event (Lib ''acl_free'' []) (exit_prog EXIT_SUCCESS)))))))"

section \<open>The walks end\<close>

text \<open>
  Every round of a walk asks for the next entry, so none of them runs out of fuel, whatever the
  library answers.
\<close>

lemma ends_names [fuel_intros]: "shrinks (userNameFromId i)" "shrinks (groupNameFromId i)"
  unfolding userNameFromId_def groupNameFromId_def by (intro fuel_intros)+

lemma ends_acl_view [fuel_intros]:
  "shrinks (acl_usage p)" "shrinks (show_qualifier tag)" "shrinks k \<Longrightarrow> shrinks (show_one_perm perm msg c k)"
  "rounds (acl_view_entry e)"
  unfolding acl_usage_def show_qualifier_def show_one_perm_def acl_view_entry_def
  by (intro fuel_intros | assumption)+

lemma ends_acl_view_main [fuel_intros]: "shrinks (acl_view_main prog opts operands)"
  unfolding acl_view_main_def by (intro fuel_intros)

lemma ends_perms [fuel_intros]:
  "shrinks (getPermChar masked perm)" "shrinks (getPermString masked)" "rounds (mask_entry e)"
  unfolding getPermChar_def getPermString_def mask_entry_def by (intro fuel_intros)+

lemma ends_mask [fuel_intros]: "shrinks (getMaskPermset f)"
  unfolding getMaskPermset_def by (intro fuel_intros)

lemma ends_named_line [fuel_intros]:
  "shrinks (named_line title f)" "shrinks yes \<Longrightarrow> shrinks no \<Longrightarrow> shrinks (if_qualifier i yes no)"
  unfolding named_line_def if_qualifier_def by (intro fuel_intros | assumption)+

lemma ends_named [fuel_intros]: "rounds (named_entry f uid gid o1 o2 s)" "shrinks (named_options opts uid gid)"
proof -
  show "rounds (named_entry f uid gid o1 o2 s)"
    unfolding named_entry_def by (intro fuel_intros)
  show "shrinks (named_options opts uid gid)"
  proof (induction opts arbitrary: uid gid)
    case (Cons a opts)
    then show ?case by (cases a) (auto intro!: fuel_intros)
  qed (simp add: fuel_intros)
qed

lemma ends_named_main [fuel_intros]: "shrinks (named_acl_main argc opts file)"
  unfolding named_acl_main_def by (intro fuel_intros) simp

end
