(* ===== verification/Files.thy ===== *)
theory Files
  imports ErrorFunctions
begin

text \<open>
  The reimplementations of system calls on descriptors: \<open>dup_dup2_imp.c\<close>, \<open>readv_writev_imp.c\<close>,
  \<open>sendfile_imp.c\<close>, \<open>pipe_imp.c\<close>, and the programs \<open>imp_tee.c\<close> and \<open>cp_hole.c\<close>.
\<close>

section \<open>dup and dup2\<close>

definition dup_clone :: "int \<Rightarrow> int prog" where
  "dup_clone fd = call (Fd (Fcntl fd ''F_DUPFD'' 0)) (\<lambda>r. ret (rv r))"



section \<open>readv and writev\<close>

definition SSIZE_MAX :: int where "SSIZE_MAX = 9223372036854775807"

definition total_bytes :: "nat list \<Rightarrow> int" where
  \<comment> \<open>the sum of the lengths in a \<open>ssize_t\<close>\<close>
  "total_bytes lens = fold (\<lambda>n t. signed_take_bit 63 (t + int n)) lens 0"

fun readv_loop :: "int \<Rightarrow> nat list \<Rightarrow> int \<Rightarrow> string list \<Rightarrow> (int \<times> string list) prog" where
  "readv_loop fd [] totalRead bufs = ret (totalRead, bufs)"
| "readv_loop fd (n # ns) totalRead bufs =
     call (Fd (Read fd n)) (\<lambda>r.
       if rv r = -1 then ret (-1, bufs)
       else if rv r \<noteq> int n then ret (totalRead + rv r, bufs @ [bytes r])
       else readv_loop fd ns (totalRead + rv r) (bufs @ [bytes r]))"

definition readv_clone :: "int \<Rightarrow> nat list \<Rightarrow> (int \<times> string list) prog" where
  \<comment> \<open>the result and what was stored in the buffers, whose lengths are given\<close>
  "readv_clone fd lens =
     (if lens = [] then set_errno EINVAL (ret (-1, []))
      else if SSIZE_MAX < total_bytes lens then set_errno EINVAL (ret (-1, []))
      else readv_loop fd lens 0 [])"

fun writev_loop :: "int \<Rightarrow> string list \<Rightarrow> int \<Rightarrow> int prog" where
  "writev_loop fd [] totalWritten = ret totalWritten"
| "writev_loop fd (b # bs) totalWritten =
     call (Fd (Write fd b)) (\<lambda>r.
       if rv r = -1 then ret (-1)
       else if rv r \<noteq> int (length b) then ret (rv r)
       else writev_loop fd bs (totalWritten + rv r))"

definition writev_clone :: "int \<Rightarrow> string list \<Rightarrow> int prog" where
  "writev_clone fd bufs =
     (if bufs = [] then set_errno EINVAL (ret (-1))
      else if SSIZE_MAX < total_bytes (map length bufs) then set_errno EINVAL (ret (-1))
      else writev_loop fd bufs 0)"

section \<open>sendfile\<close>

definition SENDFILE_BUF :: nat where "SENDFILE_BUF = 1000"

definition copy_body :: "int \<Rightarrow> int \<Rightarrow> nat \<times> int \<Rightarrow> (nat \<times> int + int) prog" where
  \<comment> \<open>the state is \<open>count\<close> and \<open>num_sent\<close>\<close>
  "copy_body out_fd in_fd s = (case s of (count, num_sent) \<Rightarrow>
     if count = 0 then leave num_sent
     else call (Fd (Read in_fd (min count SENDFILE_BUF))) (\<lambda>r.
       if rv r = -1 then leave (-1)
       else if rv r = 0 then leave num_sent
       else call (Fd (Write out_fd (bytes r))) (\<lambda>w.
         if rv w = -1 then leave (-1)
         else again (count - nat (rv r), num_sent + rv r))))"

definition sendfile_imp :: "int \<Rightarrow> int \<Rightarrow> int option \<Rightarrow> nat \<Rightarrow> (int \<times> int option) prog" where
  \<comment> \<open>the result and the new \<open>*offset\<close>\<close>
  "sendfile_imp out_fd in_fd offset count = (case offset of
      None \<Rightarrow> seq (loop (copy_body out_fd in_fd) (count, 0)) (\<lambda>n. ret (n, None))
    | Some off \<Rightarrow>
        or_die (Fd (Lseek in_fd 0 ''SEEK_CUR'')) ''lseek'' (\<lambda>initial_offset.
          call (Fd (Lseek in_fd off ''SEEK_SET'')) (\<lambda>s.
            if rv s = -1 then ret (-1, Some off)
            else seq (loop (copy_body out_fd in_fd) (count, 0)) (\<lambda>n.
              if n = -1 then ret (-1, Some off)
              else call (Fd (Lseek in_fd 0 ''SEEK_CUR'')) (\<lambda>e.
                if rv e = -1 then ret (-1, Some (-1))
                else call (Fd (Lseek in_fd (rv initial_offset) ''SEEK_SET'')) (\<lambda>b.
                  if rv b = -1 then ret (-1, Some (rv e)) else ret (n, Some (rv e))))))))"

section \<open>pipe\<close>

definition pipe_imp :: "(int \<times> (int \<times> int) option) prog" where
  \<comment> \<open>the result and what is stored in \<open>fd[0]\<close> and \<open>fd[1]\<close>\<close>
  "pipe_imp =
     call (Sock Socketpair) (\<lambda>p.
       case p of
         RInts fds \<Rightarrow>
           let a = field fds 0; b = field fds 1;
               give_up = call (Fd (Close a)) (\<lambda>_. call (Fd (Close b)) (\<lambda>_. ret (-1, None))) in
           call (Sock (Shutdown a ''SHUT_WR'')) (\<lambda>s.
             if rv s = -1 then give_up
             else call (Sock (Shutdown b ''SHUT_RD'')) (\<lambda>s2.
               if rv s2 = -1 then give_up else ret (0, Some (a, b))))
       | _ \<Rightarrow> ret (-1, None))"

section \<open>tee\<close>

definition TEE_BUF :: nat where "TEE_BUF = 1024"

datatype tee_target = No_file | To_file int | Not_set  \<comment> \<open>\<open>noFile\<close> is never assigned\<close>

definition tee_body :: "tee_target \<Rightarrow> unit \<Rightarrow> (unit + unit) prog" where
  "tee_body target u =
     call (Fd (Read 0 TEE_BUF)) (\<lambda>r.
       if rv r = -1 then exit_prog EXIT_FAILURE
       else if rv r = 0 then
         call (Fd (Write 1 (''EOF reached!'' @ [NL]))) (\<lambda>w.
           if rv w = -1 then exit_prog EXIT_FAILURE else leave ())
       else call (Fd (Write 1 (bytes r))) (\<lambda>w.
         if rv w = -1 then exit_prog EXIT_FAILURE
         else (case target of
             No_file \<Rightarrow> again ()
           | Not_set \<Rightarrow> stop (Fault Uninitialised)
           | To_file f \<Rightarrow> call (Fd (Write f (bytes r))) (\<lambda>w2.
               if rv w2 = -1 then exit_prog EXIT_FAILURE else again ()))))"

definition tee_main :: "string list \<Rightarrow> int prog" where
  "tee_main argv =
     (let copy = (\<lambda>target. seq (loop (tee_body target) ()) (\<lambda>u. exit_prog EXIT_SUCCESS));
          open_file = (\<lambda>path flags. call (Path (Open path flags 384)) (\<lambda>fd.
            if rv fd = -1 then exit_prog EXIT_FAILURE else copy (To_file (rv fd))))
      in
      if length argv = 1 then copy No_file
      else if length argv = 2 then open_file (argv ! 1) ''O_WRONLY|O_CREAT|O_TRUNC''
      else if length argv = 3 then
        (if argv ! 1 \<noteq> ''-a'' then fprintf_stderr (hd argv @ '' [-a] [file]'' @ [NL]) else (\<lambda>k. k))
          (open_file (argv ! 2) ''O_WRONLY|O_CREAT|O_APPEND'')
      else fprintf_stderr (hd argv @ '' [OPTIONS] [file]'' @ [NL]) (copy Not_set))"

section \<open>cp_hole\<close>

text \<open>
  The offsets are \<open>int\<close>s. A block of \<open>numRead\<close> bytes is copied in pieces of \<open>BUF_SIZE\<close>, then the
  remainder; what \<open>read\<close> returned is written, \<open>numRead\<close> goes down by \<open>BUF_SIZE\<close> in any case.
\<close>

definition CP_BUF :: int where "CP_BUF = 1024"

definition or_fail :: "syscall \<Rightarrow> (reply \<Rightarrow> 'a prog) \<Rightarrow> 'a prog" where
  "or_fail c k = call c (\<lambda>r. if rv r = -1 then exit_prog EXIT_FAILURE else k r)"

definition cp_piece :: "int \<Rightarrow> int \<Rightarrow> int \<Rightarrow> (int + int) prog" where
  "cp_piece fd1 fd2 numRead =
     (if CP_BUF < numRead then
        or_fail (Fd (Read fd1 1024)) (\<lambda>r. or_fail (Fd (Write fd2 (bytes r))) (\<lambda>w.
          again (numRead - CP_BUF)))
      else leave numRead)"

definition cp_data :: "int \<Rightarrow> int \<Rightarrow> int \<Rightarrow> unit prog" where
  "cp_data fd1 fd2 numRead = seq (loop (cp_piece fd1 fd2) numRead) (\<lambda>n.
     or_fail (Fd (Read fd1 (nat n))) (\<lambda>r. or_fail (Fd (Write fd2 (bytes r))) (\<lambda>w. ret ())))"

definition cp_round :: "int \<Rightarrow> int \<Rightarrow> unit \<Rightarrow> (unit + unit) prog" where
  "cp_round fd1 fd2 u =
     or_fail (Fd (Lseek fd1 0 ''SEEK_CUR'')) (\<lambda>c.
       let currentOffset = to_int32 (rv c) in
       if currentOffset = -1 then exit_prog EXIT_FAILURE
       else call (Fd (Lseek fd1 currentOffset ''SEEK_DATA'')) (\<lambda>d.
         let dataOffset = to_int32 (rv d) in
         if dataOffset = -1 then leave ()
         else if currentOffset = dataOffset then
           or_fail (Fd (Lseek fd1 currentOffset ''SEEK_HOLE'')) (\<lambda>h.
             or_fail (Fd (Lseek fd1 currentOffset ''SEEK_SET'')) (\<lambda>_.
               seq (cp_data fd1 fd2 (to_int32 (rv h) - currentOffset)) (\<lambda>u. again ())))
         else or_fail (Fd (Lseek fd2 dataOffset ''SEEK_SET'')) (\<lambda>_. again ())))"

definition open_arg :: "string list \<Rightarrow> nat \<Rightarrow> string \<Rightarrow> nat \<Rightarrow> (int \<Rightarrow> 'a prog) \<Rightarrow> 'a prog" where
  \<comment> \<open>\<open>open(argv[i], ...)\<close>; a missing argument is a null pointer, which \<open>open\<close> refuses with \<open>EFAULT\<close>\<close>
  "open_arg argv i flags mode k =
     (if length argv \<le> i then set_errno 14 (exit_prog EXIT_FAILURE)
      else or_fail (Path (Open (argv ! i) flags mode)) (\<lambda>fd. k (rv fd)))"

definition cp_hole_main :: "string list \<Rightarrow> int prog" where
  "cp_hole_main argv =
     (if length argv \<noteq> 3 then fprintf_stderr (hd argv @ '' file file'' @ [NL]) else (\<lambda>k. k))
       (open_arg argv 1 ''O_RDONLY'' 0 (\<lambda>fd1.
          open_arg argv 2 ''O_WRONLY|O_TRUNC|O_CREAT'' 384 (\<lambda>fd2.
            seq (loop (cp_round fd1 fd2) ()) (\<lambda>u.
              or_fail (Fd (Close fd1)) (\<lambda>_. or_fail (Fd (Close fd2)) (\<lambda>_. exit_prog EXIT_SUCCESS))))))"

section \<open>A table of descriptors\<close>

text \<open>
  What the kernel's manual pages promise of descriptors: \<open>fd_answer fds c r fds'\<close> says that with
  the descriptors \<open>fds\<close> open the call may be answered by \<open>r\<close> and leaves \<open>fds'\<close> open.
\<close>

definition least_free :: "int set \<Rightarrow> int \<Rightarrow> int \<Rightarrow> bool" where
  "least_free fds n m \<longleftrightarrow> n \<le> m \<and> m \<notin> fds \<and> (\<forall>k \<in> {n..<m}. k \<in> fds)"

lemma least_free_self [simp]: "n \<notin> fds \<Longrightarrow> least_free fds n m \<longleftrightarrow> m = n"
  by (auto simp: least_free_def)

fun fd_answer :: "int set \<Rightarrow> fd_call \<Rightarrow> reply \<Rightarrow> int set \<Rightarrow> bool" where
  "fd_answer fds (Fcntl fd cmd n) r fds' =
     (if fd \<notin> fds then r = RErr EBADF \<and> fds' = fds
      else if cmd = ''F_GETFD'' then (r = RVal 0 \<or> r = RVal 1) \<and> fds' = fds
      else \<exists>m. r = RVal m \<and> least_free fds n m \<and> fds' = insert m fds)"
| "fd_answer fds (Close fd) r fds' =
     (if fd \<in> fds then r = RVal 0 \<and> fds' = fds - {fd} else r = RErr EBADF \<and> fds' = fds)"
| "fd_answer fds c r fds' = (fds' = fds)"

inductive fd_run :: "int set \<Rightarrow> (syscall \<times> reply) list \<Rightarrow> int set \<Rightarrow> bool" where
  fd_run_Nil: "fd_run fds [] fds"
| fd_run_Fd: "fd_answer fds c r fds1 \<Longrightarrow> fd_run fds1 t fds2 \<Longrightarrow> fd_run fds ((Fd c, r) # t) fds2"

inductive_simps fd_run_simps [simp]: "fd_run fds [] fds'" "fd_run fds ((Fd c, r) # t) fds'"

section \<open>The programs end\<close>

lemma ends_or_fail [fuel_intros]:
  "(\<And>r. shrinks (k r)) \<Longrightarrow> shrinks (or_fail c k)" "(\<And>r. shrinks (k' r)) \<Longrightarrow> rounds (or_fail c k')"
  unfolding or_fail_def by (auto intro!: fuel_intros)

lemma ends_copy [fuel_intros]: "rounds (copy_body o' i s)" "shrinks (sendfile_imp o' i off n)"
  unfolding sendfile_imp_def copy_body_def by (intro fuel_intros)+

lemma ends_tee [fuel_intros]: "rounds (tee_body target u)"
  unfolding tee_body_def
  by (intro fuel_intros) (cases target; auto intro!: fuel_intros)

lemma ends_tee_main [fuel_intros]: "shrinks (tee_main argv)"
  unfolding tee_main_def by (intro fuel_intros)

lemma ends_cp [fuel_intros]: "rounds (cp_piece a b n)" "shrinks (cp_data a b n)"
  unfolding cp_data_def cp_piece_def by (intro fuel_intros)+

lemma ends_cp_round [fuel_intros]: "rounds (cp_round a b u)"
  unfolding cp_round_def by (intro fuel_intros)

lemma ends_cp_main [fuel_intros]: "shrinks (cp_hole_main argv)"
  unfolding cp_hole_main_def open_arg_def by (intro fuel_intros)

section \<open>Properties\<close>

definition data_read :: "int \<Rightarrow> (syscall \<times> reply) list \<Rightarrow> string" where
  "data_read fd t = concat (map (\<lambda>e. case fst e of Fd (Read f n) \<Rightarrow> if f = fd then bytes (snd e) else [] | _ \<Rightarrow> []) t)"

definition data_written :: "int \<Rightarrow> (syscall \<times> reply) list \<Rightarrow> string" where
  "data_written fd t = concat (map (\<lambda>e. case fst e of Fd (Write f s) \<Rightarrow> if f = fd then s else [] | _ \<Rightarrow> []) t)"

lemma data_simps [simp]:
  "data_read fd [] = []" "data_read fd (t @ u) = data_read fd t @ data_read fd u"
  "data_read fd ((Fd (Read f n), r) # t) = (if f = fd then bytes r else []) @ data_read fd t"
  "data_read fd ((Fd (Write f s), r) # t) = data_read fd t"
  "data_read fd ((Fd (Lseek f i q), r) # t) = data_read fd t"
  "data_written fd [] = []" "data_written fd (t @ u) = data_written fd t @ data_written fd u"
  "data_written fd ((Fd (Write f s), r) # t) = (if f = fd then s else []) @ data_written fd t"
  "data_written fd ((Fd (Read f n), r) # t) = data_written fd t"
  "data_written fd ((Fd (Lseek f i q), r) # t) = data_written fd t"
  by (simp_all add: data_read_def data_written_def)

definition reads_ok :: "(syscall \<times> reply) list \<Rightarrow> bool" where
  \<comment> \<open>\<open>read\<close> delivers at most what was asked for, or fails\<close>
  "reads_ok t \<longleftrightarrow> (\<forall>f n r. (Fd (Read f n), r) \<in> set t \<longrightarrow>
     (case r of RData s \<Rightarrow> length s \<le> n | RErr e \<Rightarrow> True | _ \<Rightarrow> False))"

definition copied :: "int \<Rightarrow> int \<Rightarrow> world \<Rightarrow> nat \<Rightarrow> nat \<Rightarrow> int \<Rightarrow> world \<Rightarrow> bool" where
  \<comment> \<open>of \<open>n\<close> bytes, \<open>count\<close> are still to be sent after \<open>num_sent\<close>\<close>
  "copied out_fd in_fd w n count num_sent w' \<longleftrightarrow> (\<exists>t. trace w' = trace w @ t \<and>
     data_written out_fd t = data_read in_fd t \<and>
     (reads_ok t \<longrightarrow> num_sent = int (length (data_read in_fd t)) \<and> int count + num_sent = int n))"

definition copy_post :: "int \<Rightarrow> int \<Rightarrow> world \<Rightarrow> nat \<Rightarrow> int result \<Rightarrow> world \<Rightarrow> bool" where
  "copy_post out_fd in_fd w n r w' = (case r of
      Return k \<Rightarrow> k = -1 \<or> (\<exists>count. copied out_fd in_fd w n count k w') | Blocked \<Rightarrow> True | _ \<Rightarrow> False)"

lemma bytes_no_data: "rv r = 0 \<Longrightarrow> bytes r = []"
  by (cases r) (simp_all add: rv_def bytes_def)

lemma copied_read:
  assumes "copied out_fd in_fd w n count k w1" "trace w2 = trace w1 @ [(Fd (Read in_fd m), r)]" "rv r = 0"
  shows "copied out_fd in_fd w n count k w2"
proof -
  from assms(1) obtain t where t: "trace w1 = trace w @ t" "data_written out_fd t = data_read in_fd t"
    "reads_ok t \<longrightarrow> k = int (length (data_read in_fd t)) \<and> int count + k = int n"
    by (auto simp: copied_def)
  have "reads_ok t" if "reads_ok (t @ [(Fd (Read in_fd m), r)])"
    using that by (auto simp: reads_ok_def)
  with t assms(2) bytes_no_data[OF assms(3)] show ?thesis
    unfolding copied_def by (intro exI[of _ "t @ [(Fd (Read in_fd m), r)]"]) auto
qed

lemma copied_read':
  "copied out_fd in_fd w n count k w1 \<Longrightarrow> rv r = 0 \<Longrightarrow>
    copied out_fd in_fd w n count k (w1\<lparr>script := rs, trace := trace w1 @ [(Fd (Read in_fd m), r)], errno := e\<rparr>)"
  by (erule copied_read) simp_all

lemma copied_read_write:
  assumes "copied out_fd in_fd w n count k w1"
    "trace w2 = trace w1 @ [(Fd (Read in_fd (min count SENDFILE_BUF)), r), (Fd (Write out_fd (bytes r)), r')]"
    "rv r \<noteq> -1"
  shows "copied out_fd in_fd w n (count - nat (rv r)) (k + rv r) w2"
proof -
  from assms(1) obtain t where t: "trace w1 = trace w @ t" "data_written out_fd t = data_read in_fd t"
    "reads_ok t \<longrightarrow> k = int (length (data_read in_fd t)) \<and> int count + k = int n"
    by (auto simp: copied_def)
  let ?t = "t @ [(Fd (Read in_fd (min count SENDFILE_BUF)), r), (Fd (Write out_fd (bytes r)), r')]"
  have "reads_ok t \<and> rv r = int (length (bytes r)) \<and> length (bytes r) \<le> count" if "reads_ok ?t"
  proof -
    from that have "case r of RData s \<Rightarrow> length s \<le> min count SENDFILE_BUF | RErr e \<Rightarrow> True | _ \<Rightarrow> False"
      unfolding reads_ok_def by auto
    with that assms(3) show ?thesis
      by (cases r) (auto simp: reads_ok_def rv_def bytes_def)
  qed
  with t assms(2) show ?thesis
    unfolding copied_def by (intro exI[of _ ?t]) auto
qed

lemma copy_loop: "wp (loop (copy_body out_fd in_fd) (n, 0)) (copy_post out_fd in_fd w n) w"
proof (rule loop_rule[where I = "\<lambda>s w'. copied out_fd in_fd w n (fst s) (snd s) w'"])
  show "copied out_fd in_fd w n (fst (n, 0)) (snd (n, 0)) w"
    by (simp add: copied_def)
next
  fix s w1
  assume *: "copied out_fd in_fd w n (fst s) (snd s) w1"
  show "wp (copy_body out_fd in_fd s) (\<lambda>r w'. (case r of
          Return (Inl s') \<Rightarrow> copied out_fd in_fd w n (fst s') (snd s') w' \<and> length (script w') < length (script w1)
        | Return (Inr a) \<Rightarrow> copy_post out_fd in_fd w n (Return a) w'
        | Exited m \<Rightarrow> copy_post out_fd in_fd w n (Exited m) w' | UExited m \<Rightarrow> copy_post out_fd in_fd w n (UExited m) w'
        | Aborted \<Rightarrow> copy_post out_fd in_fd w n Aborted w' | Blocked \<Rightarrow> copy_post out_fd in_fd w n Blocked w'
        | Fault f \<Rightarrow> copy_post out_fd in_fd w n (Fault f) w' | No_fuel \<Rightarrow> False)) w1"
    using * by (cases s) (auto simp: copy_body_def exec_simps copy_post_def
        intro: copied_read' copied_read_write)
qed

text \<open>When \<open>sendfile\<close> without an offset returns, it has passed on every byte it read, in order,
  and its result is their number, at most \<open>count\<close> (if \<open>read\<close> behaves as documented). It blocks only
  in a call and never stops in another way. The result of \<open>write\<close> is not looked at, so a short write
  is counted in full.\<close>

theorem sendfile_copies:
  "case sendfile_imp out_fd in_fd None count w of
     (Return (n, off), w') \<Rightarrow> off = None \<and> (n = -1 \<or> (\<exists>t. trace w' = trace w @ t \<and>
        data_written out_fd t = data_read in_fd t \<and>
        (if reads_ok t then n = int (length (data_read in_fd t)) \<and> n \<le> int count else True)))
   | (Blocked, w') \<Rightarrow> True
   | _ \<Rightarrow> False"
proof -
  have "wp (sendfile_imp out_fd in_fd None count) (\<lambda>r w'. case r of
      Return (n, off) \<Rightarrow> off = None \<and> copy_post out_fd in_fd w count (Return n) w'
    | Blocked \<Rightarrow> True | _ \<Rightarrow> False) w"
    unfolding sendfile_imp_def option.case wp_seq wp_ret
    by (rule wp_mono[OF copy_loop]) (auto simp: lift_def copy_post_def split: result.splits)
  then show ?thesis
    unfolding wp_def copy_post_def copied_def
    by (cases "sendfile_imp out_fd in_fd None count w" rule: prod.exhaust)
      (fastforce split: result.splits)
qed



end
