(* ===== verification/TsTree.thy ===== *)
theory TsTree
  imports BinaryTree
begin

text \<open>
  \<open>30_Thread_Synchronhization/ts_btree.h\<close>: the search tree with a mutex in every node, locked hand
  over hand. A mutex is a number, \<open>held\<close> the set of the locked ones. The operations are those of one
  thread: it waits for ever at a mutex that is already held (\<open>Stuck\<close>), by another thread or by
  itself (the mutexes are of the default kind). On an initialised mutex \<open>pthread_mutex_lock\<close> and
  \<open>pthread_mutex_unlock\<close> do not fail. A node whose mutex could not be allocated is left without any
  of its members set (\<open>TsBroken\<close>).
\<close>

section \<open>Data\<close>

datatype 'v ts_node =
    TsNull
  | TsBroken
  | TsNode nat "'v ts_node" "'v ts_node" "string option" 'v   \<comment> \<open>mtx, left, right, key, value\<close>

record 'v BTree_ts =
  ts_root :: "'v ts_node"
  ts_mtx :: nat

record ts_state =
  mem :: cstate
  held :: "nat set"
  next_mtx :: nat

datatype 'a thr = Done 'a | Stuck nat | Crash fault

definition bindT :: "'a thr \<Rightarrow> ('a \<Rightarrow> 'b thr) \<Rightarrow> 'b thr" where
  "bindT m f = (case m of Done x \<Rightarrow> f x | Stuck n \<Rightarrow> Stuck n | Crash e \<Rightarrow> Crash e)"

lemma bindT_simps [simp]:
  "bindT (Done x) f = f x" "bindT (Stuck n) f = Stuck n" "bindT (Crash e) f = Crash e"
  by (simp_all add: bindT_def)

definition LOCK :: "nat \<Rightarrow> ts_state \<Rightarrow> (ts_state \<Rightarrow> 'a thr) \<Rightarrow> 'a thr" where
  "LOCK m st k = (if m \<in> held st then Stuck m else k (st\<lparr>held := insert m (held st)\<rparr>))"

definition UNLOCK :: "nat \<Rightarrow> ts_state \<Rightarrow> ts_state" where
  "UNLOCK m st = st\<lparr>held := held st - {m}\<rparr>"

definition set_einval :: "ts_state \<Rightarrow> ts_state" where
  "set_einval st = st\<lparr>mem := (mem st)\<lparr>cerrno := EINVAL\<rparr>\<rparr>"

definition new_mtx :: "ts_state \<Rightarrow> nat option \<times> ts_state" where
  \<comment> \<open>\<open>malloc\<close> and \<open>pthread_mutex_init\<close>\<close>
  "new_mtx st = (case malloc_ok (mem st) of (ok, m') \<Rightarrow>
     if ok then (Some (next_mtx st), st\<lparr>mem := m', next_mtx := Suc (next_mtx st), held := held st - {next_mtx st}\<rparr>)
     else (None, st\<lparr>mem := m'\<rparr>))"

fun ts_null :: "'v ts_node \<Rightarrow> bool" where
  "ts_null TsNull = True"
| "ts_null t = False"

fun ts_get :: "slot \<Rightarrow> 'v ts_node \<Rightarrow> 'v ts_node" where
  "ts_get [] t = t"
| "ts_get (GoLeft # p) (TsNode m l r k v) = ts_get p l"
| "ts_get (GoRight # p) (TsNode m l r k v) = ts_get p r"
| "ts_get (d # p) t = t"

fun ts_set :: "slot \<Rightarrow> 'v ts_node \<Rightarrow> 'v ts_node \<Rightarrow> 'v ts_node" where
  "ts_set [] s t = s"
| "ts_set (GoLeft # p) s (TsNode m l r k v) = TsNode m (ts_set p s l) r k v"
| "ts_set (GoRight # p) s (TsNode m l r k v) = TsNode m l (ts_set p s r) k v"
| "ts_set (d # p) s t = t"

section \<open>Operations\<close>

definition bt_initialize_ts :: "ts_state \<Rightarrow> 'v BTree_ts option \<times> int \<times> ts_state" where
  \<comment> \<open>no tree: its mutex is a null pointer\<close>
  "bt_initialize_ts st = (case new_mtx st of
      (Some m, st') \<Rightarrow> (Some \<lparr>ts_root = TsNull, ts_mtx = m\<rparr>, 0, st')
    | (None, st') \<Rightarrow> (None, -1, st'))"

definition bt_create_node_ts :: "string \<Rightarrow> 'v \<Rightarrow> ts_state \<Rightarrow> ('v ts_node \<times> int \<times> ts_state) thr" where
  "bt_create_node_ts key value st =
     (case malloc_ok (mem st) of (node_ok, m1) \<Rightarrow>
       if \<not> node_ok then Crash Null_deref
       else (case new_mtx (st\<lparr>mem := m1\<rparr>) of
           (None, st2) \<Rightarrow> Done (TsBroken, -1, st2)
         | (Some m, st2) \<Rightarrow>
             (case malloc_ok (mem st2) of (key_ok, m3) \<Rightarrow>
               let st3 = st2\<lparr>mem := m3\<rparr> in
               if \<not> key_ok then Done (TsNode m TsNull TsNull None value, -1, st3)
               else if BT_KEY_MAX < length key then Crash Buffer_overflow
               else Done (TsNode m TsNull TsNull (Some key) value, 0, st3))))"

fun bt_add_rec_ts ::
  "'v ts_node \<Rightarrow> nat \<Rightarrow> string \<Rightarrow> 'v \<Rightarrow> ts_state \<Rightarrow> ('v ts_node \<times> int \<times> ts_state) thr" where
  "bt_add_rec_ts TsNull mtx key value st = Crash Null_deref"
| "bt_add_rec_ts TsBroken mtx key value st = Crash Null_deref"
| "bt_add_rec_ts (TsNode m l r k v) mtx key value st =
     LOCK m st (\<lambda>st1.
       let st2 = UNLOCK mtx st1 in
       case k of
         None \<Rightarrow> Crash Null_deref
       | Some s \<Rightarrow>
           let strcmp_rv = strcmp key s in
           if strcmp_rv = 0 then Done (TsNode m l r k v, -1, set_einval st2)
           else if strcmp_rv < 0 then
             (if ts_null l
              then bindT (bt_create_node_ts key value st2) (\<lambda>(l', rv, st3). Done (TsNode m l' r k v, rv, UNLOCK m st3))
              else bindT (bt_add_rec_ts l m key value st2) (\<lambda>(l', rv, st3). Done (TsNode m l' r k v, rv, st3)))
           else
             (if ts_null r
              then bindT (bt_create_node_ts key value st2) (\<lambda>(r', rv, st3). Done (TsNode m l r' k v, rv, UNLOCK m st3))
              else bindT (bt_add_rec_ts r m key value st2) (\<lambda>(r', rv, st3). Done (TsNode m l r' k v, rv, st3))))"

definition bt_add_ts ::
  "'v BTree_ts \<Rightarrow> string \<Rightarrow> 'v \<Rightarrow> ts_state \<Rightarrow> ('v BTree_ts \<times> int \<times> ts_state) thr" where
  "bt_add_ts tree key value st =
     LOCK (ts_mtx tree) st (\<lambda>st1.
       if ts_null (ts_root tree)
       then bindT (bt_create_node_ts key value st1) (\<lambda>(t, rv, st2).
         Done (tree\<lparr>ts_root := t\<rparr>, rv, UNLOCK (ts_mtx tree) st2))
       else bindT (bt_add_rec_ts (ts_root tree) (ts_mtx tree) key value st1) (\<lambda>(t, rv, st2).
         Done (tree\<lparr>ts_root := t\<rparr>, rv, st2)))"

fun bt_find_node_ts ::
  "'v ts_node \<Rightarrow> nat \<Rightarrow> string \<Rightarrow> ts_state \<Rightarrow> ((slot \<times> nat) option \<times> ts_state) thr" where
  \<comment> \<open>a \<open>NodeMutex\<close>: the slot of the node and the mutex of its parent\<close>
  "bt_find_node_ts TsNull mtx key st = Crash Null_deref"
| "bt_find_node_ts TsBroken mtx key st = Crash Null_deref"
| "bt_find_node_ts (TsNode m l r k v) mtx key st =
     LOCK m st (\<lambda>st1.
       let st2 = UNLOCK mtx st1 in
       case k of
         None \<Rightarrow> Crash Null_deref
       | Some s \<Rightarrow>
           let rv = strcmp key s in
           if rv < 0 then
             (if ts_null l then Done (None, UNLOCK m st2)
              else bindT (bt_find_node_ts l m key st2) (\<lambda>(out, st3).
                Done (map_option (\<lambda>(p, par). (GoLeft # p, par)) out, st3)))
           else if 0 < rv then
             (if ts_null r then Done (None, UNLOCK m st2)
              else bindT (bt_find_node_ts r m key st2) (\<lambda>(out, st3).
                Done (map_option (\<lambda>(p, par). (GoRight # p, par)) out, st3)))
           else (case malloc_ok (mem st2) of (ok, m') \<Rightarrow>
             Done (if ok then Some ([], mtx) else None, st2\<lparr>mem := m'\<rparr>)))"

definition node_mtx :: "'v ts_node \<Rightarrow> nat c" where
  \<comment> \<open>\<open>node->mtx\<close>, about to be locked or unlocked\<close>
  "node_mtx t = (case t of TsNode m l r k v \<Rightarrow> Inr m | _ \<Rightarrow> Inl Null_deref)"

definition with_mtx :: "'v ts_node \<Rightarrow> (nat \<Rightarrow> 'a thr) \<Rightarrow> 'a thr" where
  "with_mtx t k = (case node_mtx t of Inl e \<Rightarrow> Crash e | Inr m \<Rightarrow> k m)"

definition bt_lookup_ts :: "'v BTree_ts \<Rightarrow> string \<Rightarrow> ts_state \<Rightarrow> ('v option \<times> int \<times> ts_state) thr" where
  "bt_lookup_ts tree key st =
     LOCK (ts_mtx tree) st (\<lambda>st1.
       if ts_null (ts_root tree) then Done (None, -1, UNLOCK (ts_mtx tree) st1)
       else bindT (bt_find_node_ts (ts_root tree) (ts_mtx tree) key st1) (\<lambda>(target, st2).
         case target of
           None \<Rightarrow> Crash Null_deref  \<comment> \<open>\<open>UNLOCK((*target->node)->mtx, ...)\<close> in every case\<close>
         | Some (p, par) \<Rightarrow>
             (case ts_get p (ts_root tree) of
                TsNode m l r k v \<Rightarrow> Done (Some v, 0, UNLOCK m st2)
              | _ \<Rightarrow> Crash Null_deref)))"

text \<open>\<open>bt_free_node_ts\<close>: the node is gone and the slot null.\<close>

definition bt_free_node_ts :: "'v ts_node \<Rightarrow> ((string option \<times> 'v) \<times> 'v ts_node) c" where
  \<comment> \<open>what was freed, and the null pointer left in the slot\<close>
  "bt_free_node_ts t = (case t of
      TsNull \<Rightarrow> Inl Null_deref | TsBroken \<Rightarrow> Inl Null_deref
    | TsNode m l r k v \<Rightarrow> Inr ((k, v), TsNull))"

definition ts_children :: "'v ts_node \<Rightarrow> 'v ts_node \<Rightarrow> nat" where
  "ts_children l r = (if ts_null l then 0 else 1) + (if ts_null r then 0 else 1)"

definition bt_delete_ts :: "'v BTree_ts \<Rightarrow> string \<Rightarrow> ts_state \<Rightarrow> ('v BTree_ts \<times> int \<times> ts_state) thr" where
  "bt_delete_ts tree target_key st =
     LOCK (ts_mtx tree) st (\<lambda>st1.
       if ts_null (ts_root tree) then Done (tree, -1, UNLOCK (ts_mtx tree) st1)
       else bindT (bt_find_node_ts (ts_root tree) (ts_mtx tree) target_key st1) (\<lambda>(target, st2).
         case target of
           None \<Rightarrow> Done (tree, -1, set_einval st2)
         | Some (p, par_mtx) \<Rightarrow>
             (case ts_get p (ts_root tree) of
                TsNode m target_left target_right k v \<Rightarrow>
                  with_mtx target_left (\<lambda>ml. LOCK ml st2 (\<lambda>st3.
                  with_mtx target_right (\<lambda>mr. LOCK mr st3 (\<lambda>st4.
                    let finish = (\<lambda>t st5. Done (tree\<lparr>ts_root := t\<rparr>, 0, UNLOCK mr (UNLOCK ml st5))) in
                    if ts_children target_left target_right = 0 then
                      LOCK par_mtx st4 (\<lambda>st5. finish (ts_set p TsNull (ts_root tree)) (UNLOCK par_mtx st5))
                    else if ts_children target_left target_right = 1 then
                      LOCK par_mtx st4 (\<lambda>st5.
                        finish (ts_set p (if ts_null target_left then target_right else target_left) (ts_root tree))
                          (UNLOCK par_mtx st5))
                    else finish (ts_root tree) st4))))
              | _ \<Rightarrow> Crash Null_deref)))"

fun bt_free_rec_ts :: "'v ts_node \<Rightarrow> (string option \<times> 'v) list c" where
  "bt_free_rec_ts TsNull = Inl Null_deref"
| "bt_free_rec_ts TsBroken = Inl Uninitialised"
| "bt_free_rec_ts (TsNode m l r k v) =
     bindC (if ts_null l then Inr [] else bt_free_rec_ts l) (\<lambda>fl.
     bindC (if ts_null r then Inr [] else bt_free_rec_ts r) (\<lambda>fr.
     bindC (bt_free_node_ts (TsNode m l r k v)) (\<lambda>(f, null). Inr (fl @ fr @ [f]))))"

definition bt_free_ts :: "'v BTree_ts \<Rightarrow> ts_state \<Rightarrow> ('v BTree_ts \<times> (string option \<times> 'v) list \<times> int) c" where
  \<comment> \<open>\<open>pthread_mutex_destroy\<close> refuses a locked mutex\<close>
  "bt_free_ts tree st =
     bindC (if ts_null (ts_root tree) then Inr [] else bt_free_rec_ts (ts_root tree)) (\<lambda>freed.
       Inr (tree\<lparr>ts_root := TsNull\<rparr>, freed, if ts_mtx tree \<in> held st then -1 else 0))"

fun bt_print_rec_ts :: "'v ts_node \<Rightarrow> traversal \<Rightarrow> nat \<Rightarrow> cstate \<Rightarrow> (string \<times> cstate) c" where
  "bt_print_rec_ts TsNull tr space_count st = Inl Null_deref"
| "bt_print_rec_ts TsBroken tr space_count st = Inl Uninitialised"
| "bt_print_rec_ts (TsNode m l r k v) tr space_count st =
     (case k of None \<Rightarrow> Inl Null_deref
      | Some key \<Rightarrow>
        (let (ok, st0) = (if tr = LEFT_TRAVERSAL then malloc_ok st else (True, st)) in
         if \<not> ok then Inr ([], st0)
         else
           let here = (if tr = LEFT_TRAVERSAL
                       then NL # replicate space_count (CHR '' '') @ key_box key
                       else key_box key) in
           bindC (if ts_null r then Inr ([], st0)
                  else bt_print_rec_ts r RIGHT_TRAVERSAL (space_count + length (key_box key)) st0)
             (\<lambda>(right, st1).
               bindC (if ts_null l then Inr ([], st1)
                      else bt_print_rec_ts l LEFT_TRAVERSAL space_count st1)
                 (\<lambda>(left, st2). Inr (here @ right @ left, st2)))))"

definition bt_print_ts :: "'v BTree_ts \<Rightarrow> ts_state \<Rightarrow> (string \<times> ts_state) thr" where
  "bt_print_ts tree st =
     LOCK (ts_mtx tree) st (\<lambda>st1.
       if ts_null (ts_root tree) then Done (''Tree is empty.'' @ [NL], UNLOCK (ts_mtx tree) st1)
       else (case bt_print_rec_ts (ts_root tree) ROOT 0 (mem st1) of
           Inl e \<Rightarrow> Crash e
         | Inr (out, m') \<Rightarrow> Done (out @ [NL], UNLOCK (ts_mtx tree) (st1\<lparr>mem := m'\<rparr>))))"

section \<open>Abstraction and invariant\<close>

text \<open>\<open>erase\<close> forgets the mutexes: the tree of \<open>binary_tree.c\<close>.\<close>

fun erase :: "'v ts_node \<Rightarrow> 'v btnode" where
  "erase TsNull = NullNode"
| "erase TsBroken = NullNode"
| "erase (TsNode m l r k v) = Node (erase l) (erase r) k v"

fun whole :: "'v ts_node \<Rightarrow> bool" where
  "whole TsNull = True"
| "whole TsBroken = False"
| "whole (TsNode m l r k v) = (whole l \<and> whole r)"

fun mtxs :: "'v ts_node \<Rightarrow> nat list" where
  "mtxs TsNull = []"
| "mtxs TsBroken = []"
| "mtxs (TsNode m l r k v) = m # mtxs l @ mtxs r"

fun key_mtx :: "'v ts_node \<Rightarrow> string \<Rightarrow> nat" where
  \<comment> \<open>the mutex of the node that holds a key\<close>
  "key_mtx (TsNode m l r k v) key = (case k of None \<Rightarrow> m | Some s \<Rightarrow>
     if key < s then key_mtx l key else if s < key then key_mtx r key else m)"
| "key_mtx t key = 0"

definition mem_ok :: "ts_state \<Rightarrow> bool" where
  "mem_ok st \<longleftrightarrow> no_alloc_failure (mem st) \<and> held st \<subseteq> {..<next_mtx st}"

definition sub_ok :: "'v ts_node \<Rightarrow> ts_state \<Rightarrow> bool" where
  \<comment> \<open>a subtree of which no mutex is held\<close>
  "sub_ok t st \<longleftrightarrow> whole t \<and> distinct (mtxs t) \<and> set (mtxs t) \<subseteq> {..<next_mtx st} - held st
     \<and> bst (erase t)"

definition ts_ok :: "'v BTree_ts \<Rightarrow> ts_state \<Rightarrow> bool" where
  "ts_ok tree st \<longleftrightarrow> sub_ok (ts_root tree) st \<and> mem_ok st \<and>
     ts_mtx tree \<in> {..<next_mtx st} - held st - set (mtxs (ts_root tree))"

definition ts_map :: "'v BTree_ts \<Rightarrow> string \<Rightarrow> 'v option" where
  "ts_map tree = bt_map (erase (ts_root tree))"

lemma ts_root_same [simp]: "tree\<lparr>ts_root := ts_root tree\<rparr> = tree"
  by (cases tree) simp

lemma ts_null_iff: "ts_null t \<longleftrightarrow> t = TsNull"
  by (cases t) auto

lemma erase_null: "whole t \<Longrightarrow> is_null (erase t) \<longleftrightarrow> t = TsNull"
  by (cases t) auto

lemma UNLOCK_simps [simp]:
  "held (UNLOCK m st) = held st - {m}" "mem (UNLOCK m st) = mem st" "next_mtx (UNLOCK m st) = next_mtx st"
  by (simp_all add: UNLOCK_def)

lemma set_einval_simps [simp]:
  "held (set_einval st) = held st" "next_mtx (set_einval st) = next_mtx st"
  "cerrno (mem (set_einval st)) = EINVAL" "allocs (mem (set_einval st)) = allocs (mem st)"
  "no_alloc_failure (mem (set_einval st)) = no_alloc_failure (mem st)"
  by (simp_all add: set_einval_def no_alloc_failure_def)

lemma LOCK_free: "m \<notin> held st \<Longrightarrow> LOCK m st k = k (st\<lparr>held := insert m (held st)\<rparr>)"
  by (simp add: LOCK_def)

lemma mem_ok_lock: "mem_ok st \<Longrightarrow> m < next_mtx st \<Longrightarrow> mem_ok (st\<lparr>held := insert m (held st)\<rparr>)"
  by (simp add: mem_ok_def)

lemma mem_ok_unlock: "mem_ok st \<Longrightarrow> mem_ok (UNLOCK m st)"
  by (auto simp: mem_ok_def)

lemma create_ts:
  assumes "mem_ok st" "length key \<le> BT_KEY_MAX"
  obtains st' where
    "bt_create_node_ts key v st = Done (TsNode (next_mtx st) TsNull TsNull (Some key) v, 0, st')"
    "mem_ok st'" "held st' = held st" "next_mtx st' = Suc (next_mtx st)"
proof -
  have a: "no_alloc_failure (mem st)" "next_mtx st \<notin> held st" "held st \<subseteq> {..<next_mtx st}"
    using assms(1) by (auto simp: mem_ok_def)
  obtain m1 where 1: "malloc_ok (mem st) = (True, m1)" "no_alloc_failure m1"
    using malloc_ok_succeeds[OF a(1)] by blast
  obtain m2 where 2: "malloc_ok m1 = (True, m2)" "no_alloc_failure m2"
    using malloc_ok_succeeds[OF 1(2)] by blast
  obtain m3 where 3: "malloc_ok m2 = (True, m3)" "no_alloc_failure m3"
    using malloc_ok_succeeds[OF 2(2)] by blast
  let ?st' = "st\<lparr>mem := m3, next_mtx := Suc (next_mtx st), held := held st - {next_mtx st}\<rparr>"
  have "bt_create_node_ts key v st = Done (TsNode (next_mtx st) TsNull TsNull (Some key) v, 0, ?st')"
    using assms(2) 1 2 3 by (simp add: bt_create_node_ts_def new_mtx_def)
  moreover have "mem_ok ?st'" "held ?st' = held st"
    using a 3 by (auto simp: mem_ok_def)
  ultimately show ?thesis using that[of ?st'] by simp
qed

section \<open>Insertion\<close>

text \<open>The state when the parent's mutex has been handed over to the node.\<close>

definition crab :: "nat \<Rightarrow> nat \<Rightarrow> ts_state \<Rightarrow> ts_state" where
  "crab m mtx st = UNLOCK mtx (st\<lparr>held := insert m (held st)\<rparr>)"

lemma crab_simps [simp]:
  "held (crab m mtx st) = insert m (held st) - {mtx}" "mem (crab m mtx st) = mem st"
  "next_mtx (crab m mtx st) = next_mtx st"
  by (simp_all add: crab_def)

lemma crab_child:
  assumes "sub_ok (TsNode m l r k v) st" "mtx \<notin> set (mtxs (TsNode m l r k v))"
  shows "sub_ok l (crab m mtx st)" "sub_ok r (crab m mtx st)"
    "m \<notin> set (mtxs l)" "m \<notin> set (mtxs r)" "m \<notin> held st" "m \<noteq> mtx" "m < next_mtx st"
  using assms by (auto simp: sub_ok_def split: option.splits)

lemma mem_ok_crab: "mem_ok st \<Longrightarrow> m < next_mtx st \<Longrightarrow> mem_ok (crab m mtx st)"
  by (auto simp: mem_ok_def)

lemma add_ts_step:
  assumes "m \<notin> held st"
  shows "bt_add_rec_ts (TsNode m l r (Some s) w) mtx key v st =
    (let st2 = crab m mtx st in
     if key = s then Done (TsNode m l r (Some s) w, -1, set_einval st2)
     else if key < s then
       (if l = TsNull
        then bindT (bt_create_node_ts key v st2) (\<lambda>(l', rv, st3). Done (TsNode m l' r (Some s) w, rv, UNLOCK m st3))
        else bindT (bt_add_rec_ts l m key v st2) (\<lambda>(l', rv, st3). Done (TsNode m l' r (Some s) w, rv, st3)))
     else
       (if r = TsNull
        then bindT (bt_create_node_ts key v st2) (\<lambda>(r', rv, st3). Done (TsNode m l r' (Some s) w, rv, UNLOCK m st3))
        else bindT (bt_add_rec_ts r m key v st2) (\<lambda>(r', rv, st3). Done (TsNode m l r' (Some s) w, rv, st3))))"
  unfolding bt_add_rec_ts.simps LOCK_free[OF assms] crab_def[symmetric] Let_def option.case
    strcmp_eq_0 strcmp_neg ts_null_iff ..

declare bt_add_rec_ts.simps(3) [simp del]

lemma sub_ok_NodeE:
  assumes "sub_ok (TsNode m l r k v) st"
  obtains s where "k = Some s" "\<forall>x \<in> set (bt_keys (erase l)). x < s" "\<forall>x \<in> set (bt_keys (erase r)). s < x"
    "length s \<le> BT_KEY_MAX"
  using assms by (auto simp: sub_ok_def split: option.splits)

lemma ts_add_rec_present:
  "sub_ok t st \<Longrightarrow> mtx \<notin> set (mtxs t) \<Longrightarrow> key \<in> set (bt_keys (erase t)) \<Longrightarrow>
    \<exists>st'. bt_add_rec_ts t mtx key v st = Done (t, -1, st') \<and> cerrno (mem st') = EINVAL
      \<and> allocs (mem st') = allocs (mem st) \<and> next_mtx st' = next_mtx st
      \<and> held st' = insert (key_mtx t key) (held st - {mtx})"
proof (induction t arbitrary: mtx st)
  case (TsNode m l r k w)
  from TsNode.prems(1) obtain s where k: "k = Some s"
    and lo: "\<forall>x \<in> set (bt_keys (erase l)). x < s" and hi: "\<forall>x \<in> set (bt_keys (erase r)). s < x"
    by (rule sub_ok_NodeE)
  note c = crab_child[OF TsNode.prems(1,2)]
  have h: "insert x (insert m (held st) - {mtx} - {m}) = insert x (held st - {mtx})" for x
    using c(5) by auto
  show ?case
  proof (cases key s rule: key_cases)
    case less
    then have key: "key \<in> set (bt_keys (erase l))" using TsNode.prems(3) k hi by fastforce
    then have "l \<noteq> TsNull" by auto
    with TsNode.IH(1)[OF c(1,3) key] less show ?thesis
      by (auto simp: k add_ts_step[OF c(5)] Let_def h)
  next
    case eq
    then show ?thesis using c(5,6) by (auto simp: k add_ts_step[OF c(5)] Let_def)
  next
    case greater
    then have key: "key \<in> set (bt_keys (erase r))" using TsNode.prems(3) k lo by fastforce
    then have "r \<noteq> TsNull" by auto
    with TsNode.IH(2)[OF c(2,4) key] greater show ?thesis
      by (auto simp: k add_ts_step[OF c(5)] Let_def h)
  qed
qed simp_all

text \<open>A new key: the tree of \<open>binary_tree.c\<close> with the key added, and no lock left behind.\<close>

definition added :: "'v ts_node \<Rightarrow> string \<Rightarrow> 'v \<Rightarrow> nat \<Rightarrow> ts_state \<Rightarrow> 'v ts_node \<Rightarrow> ts_state \<Rightarrow> bool" where
  "added t key v mtx st t' st' \<longleftrightarrow>
     mem_ok st' \<and> held st' = held st - {mtx} \<and> next_mtx st' = Suc (next_mtx st) \<and>
     whole t' \<and> set (mtxs t') = insert (next_mtx st) (set (mtxs t)) \<and> distinct (mtxs t') \<and>
     (\<forall>c. no_alloc_failure c \<longrightarrow> (\<exists>c'. (if t = TsNull then bt_create_node key v c
        else bt_add_rec (erase t) key v c) = Inr (erase t', 0, c')))"

lemma added_leaf:
  assumes "mem_ok st" "length key \<le> BT_KEY_MAX"
  shows "\<exists>t' st'. bt_create_node_ts key v st = Done (t', 0, st') \<and> added TsNull key v mtx st t' (UNLOCK mtx st')"
proof -
  obtain st' where st': "bt_create_node_ts key v st = Done (TsNode (next_mtx st) TsNull TsNull (Some key) v, 0, st')"
    "mem_ok st'" "held st' = held st" "next_mtx st' = Suc (next_mtx st)"
    by (rule create_ts[OF assms])
  have "\<exists>c'. bt_create_node key v c = Inr (Node NullNode NullNode (Some key) v, 0, c')"
    if "no_alloc_failure c" for c
    using create_node_ok[OF that assms(2), of v] by blast
  with st' show ?thesis by (auto simp: added_def mem_ok_unlock)
qed

lemma added_child:
  assumes t: "sub_ok (TsNode m l r (Some s) w) st" "mtx \<notin> set (mtxs (TsNode m l r (Some s) w))"
    and new: "added l key v m (crab m mtx st) l' st'" and dir: "key < s"
  shows "added (TsNode m l r (Some s) w) key v mtx st (TsNode m l' r (Some s) w) st'"
proof -
  note c = crab_child[OF t]
  have "next_mtx st \<notin> set (m # mtxs l @ mtxs r)" using t(1) by (auto simp: sub_ok_def)
  moreover have "whole l" "whole r" using t(1) by (auto simp: sub_ok_def)
  moreover have "key \<noteq> s" using dir by auto
  ultimately show ?thesis
    using new t c dir unfolding added_def
    by (auto simp: sub_ok_def key_cmp_def erase_null)
qed

lemma added_child_right:
  assumes t: "sub_ok (TsNode m l r (Some s) w) st" "mtx \<notin> set (mtxs (TsNode m l r (Some s) w))"
    and new: "added r key v m (crab m mtx st) r' st'" and dir: "s < key"
  shows "added (TsNode m l r (Some s) w) key v mtx st (TsNode m l r' (Some s) w) st'"
proof -
  note c = crab_child[OF t]
  have "next_mtx st \<notin> set (m # mtxs l @ mtxs r)" using t(1) by (auto simp: sub_ok_def)
  moreover have "whole l" "whole r" using t(1) by (auto simp: sub_ok_def)
  moreover have "key \<noteq> s" "\<not> key < s" using dir by auto
  ultimately show ?thesis
    using new t c dir unfolding added_def
    by (auto simp: sub_ok_def key_cmp_def erase_null)
qed

lemma ts_add_rec_absent:
  assumes "length key \<le> BT_KEY_MAX"
  shows "sub_ok t st \<Longrightarrow> mem_ok st \<Longrightarrow> t \<noteq> TsNull \<Longrightarrow> mtx \<notin> set (mtxs t) \<Longrightarrow> key \<notin> set (bt_keys (erase t)) \<Longrightarrow>
    \<exists>t' st'. bt_add_rec_ts t mtx key v st = Done (t', 0, st') \<and> added t key v mtx st t' st'"
proof (induction t arbitrary: mtx st)
  case (TsNode m l r k w)
  from TsNode.prems(1) obtain s where k: "k = Some s" by (rule sub_ok_NodeE)
  note c = crab_child[OF TsNode.prems(1,4)] and mem = mem_ok_crab[OF TsNode.prems(2), of m mtx]
  have absent: "key \<notin> set (bt_keys (erase l))" "key \<notin> set (bt_keys (erase r))" "key \<noteq> s"
    using TsNode.prems(5) k by auto
  show ?case
  proof (cases key s rule: key_cases)
    case less
    have "\<exists>l' st'. (if l = TsNull then bindT (bt_create_node_ts key v (crab m mtx st))
          (\<lambda>(l', rv, st3). Done (TsNode m l' r (Some s) w, rv, UNLOCK m st3))
        else bindT (bt_add_rec_ts l m key v (crab m mtx st)) (\<lambda>(l', rv, st3). Done (TsNode m l' r (Some s) w, rv, st3)))
        = Done (TsNode m l' r (Some s) w, 0, st') \<and> added l key v m (crab m mtx st) l' st'"
      using added_leaf[OF mem[OF c(7)] assms, of v m] TsNode.IH(1)[OF c(1) mem[OF c(7)] _ c(3) absent(1)]
      by (cases "l = TsNull") auto
    then obtain l' st' where new: "bt_add_rec_ts (TsNode m l r (Some s) w) mtx key v st = Done (TsNode m l' r (Some s) w, 0, st')"
      "added l key v m (crab m mtx st) l' st'"
      using less by (auto simp: add_ts_step[OF c(5)] Let_def)
    from added_child[OF TsNode.prems(1,4)[unfolded k] new(2) less(1)] new(1) show ?thesis
      unfolding k by blast
  next
    case eq
    with absent show ?thesis by simp
  next
    case greater
    have "\<exists>r' st'. (if r = TsNull then bindT (bt_create_node_ts key v (crab m mtx st))
          (\<lambda>(r', rv, st3). Done (TsNode m l r' (Some s) w, rv, UNLOCK m st3))
        else bindT (bt_add_rec_ts r m key v (crab m mtx st)) (\<lambda>(r', rv, st3). Done (TsNode m l r' (Some s) w, rv, st3)))
        = Done (TsNode m l r' (Some s) w, 0, st') \<and> added r key v m (crab m mtx st) r' st'"
      using added_leaf[OF mem[OF c(7)] assms, of v m] TsNode.IH(2)[OF c(2) mem[OF c(7)] _ c(4) absent(2)]
      by (cases "r = TsNull") auto
    then obtain r' st' where new: "bt_add_rec_ts (TsNode m l r (Some s) w) mtx key v st = Done (TsNode m l r' (Some s) w, 0, st')"
      "added r key v m (crab m mtx st) r' st'"
      using greater by (auto simp: add_ts_step[OF c(5)] Let_def)
    from added_child_right[OF TsNode.prems(1,4)[unfolded k] new(2) greater(1)] new(1) show ?thesis
      unfolding k by blast
  qed
qed (simp_all add: sub_ok_def)

section \<open>Search\<close>

fun key_node :: "'v ts_node \<Rightarrow> string \<Rightarrow> 'v ts_node" where
  "key_node (TsNode m l r k v) key = (case k of None \<Rightarrow> TsNode m l r k v | Some s \<Rightarrow>
     if key < s then key_node l key else if s < key then key_node r key else TsNode m l r k v)"
| "key_node t key = t"

lemma find_ts_step:
  assumes "m \<notin> held st"
  shows "bt_find_node_ts (TsNode m l r (Some s) w) mtx key st =
    (let st2 = crab m mtx st in
     if key < s then
       (if l = TsNull then Done (None, UNLOCK m st2)
        else bindT (bt_find_node_ts l m key st2) (\<lambda>(out, st3). Done (map_option (\<lambda>(p, par). (GoLeft # p, par)) out, st3)))
     else if s < key then
       (if r = TsNull then Done (None, UNLOCK m st2)
        else bindT (bt_find_node_ts r m key st2) (\<lambda>(out, st3). Done (map_option (\<lambda>(p, par). (GoRight # p, par)) out, st3)))
     else (case malloc_ok (mem st2) of (ok, m') \<Rightarrow> Done (if ok then Some ([], mtx) else None, st2\<lparr>mem := m'\<rparr>)))"
  unfolding bt_find_node_ts.simps LOCK_free[OF assms] crab_def[symmetric] Let_def option.case
    strcmp_pos strcmp_neg ts_null_iff ..

declare bt_find_node_ts.simps(3) [simp del]

definition found :: "'v ts_node \<Rightarrow> string \<Rightarrow> nat \<Rightarrow> ts_state \<Rightarrow> slot \<Rightarrow> ts_state \<Rightarrow> bool" where
  \<comment> \<open>the node of the key has been reached and only its mutex is held\<close>
  "found t key mtx st p st' \<longleftrightarrow> ts_get p t = key_node t key \<and> mem_ok st' \<and> next_mtx st' = next_mtx st \<and>
     held st' = insert (key_mtx t key) (held st - {mtx})"

lemma ts_find_present:
  "sub_ok t st \<Longrightarrow> mem_ok st \<Longrightarrow> mtx \<notin> set (mtxs t) \<Longrightarrow> key \<in> set (bt_keys (erase t)) \<Longrightarrow>
    \<exists>p par st'. bt_find_node_ts t mtx key st = Done (Some (p, par), st') \<and> found t key mtx st p st'"
proof (induction t arbitrary: mtx st)
  case (TsNode m l r k w)
  from TsNode.prems(1) obtain s where k: "k = Some s"
    and lo: "\<forall>x \<in> set (bt_keys (erase l)). x < s" and hi: "\<forall>x \<in> set (bt_keys (erase r)). s < x"
    by (rule sub_ok_NodeE)
  note c = crab_child[OF TsNode.prems(1,3)] and mem = mem_ok_crab[OF TsNode.prems(2), of m mtx]
  have h: "insert x (insert m (held st) - {mtx} - {m}) = insert x (held st - {mtx})" for x
    using c(5) by auto
  show ?case
  proof (cases key s rule: key_cases)
    case less
    then have key: "key \<in> set (bt_keys (erase l))" using TsNode.prems(4) k hi by fastforce
    then have "l \<noteq> TsNull" by auto
    with TsNode.IH(1)[OF c(1) mem[OF c(7)] c(3) key] less show ?thesis
      by (fastforce simp: k find_ts_step[OF c(5)] Let_def found_def h)
  next
    case eq
    obtain m' where "malloc_ok (mem st) = (True, m')" "no_alloc_failure m'"
      using TsNode.prems(2) malloc_ok_succeeds unfolding mem_ok_def by blast
    with eq c mem[OF c(7)] show ?thesis
      by (auto simp: k find_ts_step[OF c(5)] Let_def found_def mem_ok_def)
  next
    case greater
    then have key: "key \<in> set (bt_keys (erase r))" using TsNode.prems(4) k lo by fastforce
    then have "r \<noteq> TsNull" by auto
    with TsNode.IH(2)[OF c(2) mem[OF c(7)] c(4) key] greater show ?thesis
      by (fastforce simp: k find_ts_step[OF c(5)] Let_def found_def h)
  qed
qed simp_all

lemma ts_find_absent:
  "sub_ok t st \<Longrightarrow> t \<noteq> TsNull \<Longrightarrow> mtx \<notin> set (mtxs t) \<Longrightarrow> key \<notin> set (bt_keys (erase t)) \<Longrightarrow>
    \<exists>st'. bt_find_node_ts t mtx key st = Done (None, st') \<and> held st' = held st - {mtx} \<and>
      mem st' = mem st \<and> next_mtx st' = next_mtx st"
proof (induction t arbitrary: mtx st)
  case (TsNode m l r k w)
  from TsNode.prems(1) obtain s where k: "k = Some s" by (rule sub_ok_NodeE)
  note c = crab_child[OF TsNode.prems(1,3)]
  have absent: "key \<notin> set (bt_keys (erase l))" "key \<notin> set (bt_keys (erase r))" "key \<noteq> s"
    using TsNode.prems(4) k by auto
  show ?case
  proof (cases key s rule: key_cases)
    case less
    with TsNode.IH(1)[OF c(1) _ c(3) absent(1)] c(5,6) show ?thesis
      by (cases "l = TsNull") (auto simp: k find_ts_step[OF c(5)] Let_def)
  next
    case eq
    with absent show ?thesis by simp
  next
    case greater
    with TsNode.IH(2)[OF c(2) _ c(4) absent(2)] c(5,6) show ?thesis
      by (cases "r = TsNull") (auto simp: k find_ts_step[OF c(5)] Let_def)
  qed
qed (simp_all add: sub_ok_def)

lemma ts_find_stuck:
  \<comment> \<open>a key whose node was left locked\<close>
  "whole t \<Longrightarrow> bst (erase t) \<Longrightarrow> distinct (mtxs t) \<Longrightarrow> key \<in> set (bt_keys (erase t)) \<Longrightarrow> mtx \<notin> set (mtxs t) \<Longrightarrow>
    set (mtxs t) \<inter> held st = {key_mtx t key} \<Longrightarrow> bt_find_node_ts t mtx key st = Stuck (key_mtx t key)"
proof (induction t arbitrary: mtx st)
  case (TsNode m l r k w)
  from TsNode.prems(2) obtain s where k: "k = Some s"
    and lo: "\<forall>x \<in> set (bt_keys (erase l)). x < s" and hi: "\<forall>x \<in> set (bt_keys (erase r)). s < x"
    by (auto split: option.splits)
  have sub: "key_mtx u key \<in> set (mtxs u)" if "key \<in> set (bt_keys (erase u))" "bst (erase u)" for u :: "'a ts_node"
    using that by (induction u) (fastforce split: option.splits)+
  show ?case
  proof (cases key s rule: key_cases)
    case less
    then have key: "key \<in> set (bt_keys (erase l))" using TsNode.prems(4) k hi by fastforce
    then have l: "l \<noteq> TsNull" by auto
    from sub[OF key] have in_l: "key_mtx l key \<in> set (mtxs l)" using TsNode.prems(2) k by simp
    then have m: "m \<notin> held st" using TsNode.prems(3,6) less k by auto
    have "set (mtxs l) \<inter> held (crab m mtx st) = {key_mtx l key}"
      using in_l TsNode.prems(3,5,6) less k by auto
    with TsNode.IH(1)[of m "crab m mtx st"] TsNode.prems key have "bt_find_node_ts l m key (crab m mtx st) = Stuck (key_mtx l key)"
      by (auto simp: k)
    with less l show ?thesis by (simp add: k find_ts_step[OF m] Let_def)
  next
    case eq
    with TsNode.prems(6) k show ?thesis by (auto simp: bt_find_node_ts.simps LOCK_def)
  next
    case greater
    then have key: "key \<in> set (bt_keys (erase r))" using TsNode.prems(4) k lo by fastforce
    then have r: "r \<noteq> TsNull" by auto
    from sub[OF key] have in_r: "key_mtx r key \<in> set (mtxs r)" using TsNode.prems(2) k by simp
    then have m: "m \<notin> held st" using TsNode.prems(3,6) greater k by auto
    have "set (mtxs r) \<inter> held (crab m mtx st) = {key_mtx r key}"
      using in_r TsNode.prems(3,5,6) greater k by auto
    with TsNode.IH(2)[of m "crab m mtx st"] TsNode.prems key have "bt_find_node_ts r m key (crab m mtx st) = Stuck (key_mtx r key)"
      by (auto simp: k)
    with greater r show ?thesis by (simp add: k find_ts_step[OF m] Let_def)
  qed
qed simp_all

lemma key_node_ok:
  "sub_ok t st \<Longrightarrow> (case key_node t key of
      TsNull \<Rightarrow> key \<notin> set (bt_keys (erase t))
    | TsBroken \<Rightarrow> False
    | TsNode m l r k v \<Rightarrow> key \<in> set (bt_keys (erase t)) \<and> m = key_mtx t key \<and> bt_map (erase t) key = Some v \<and>
        sub_ok (TsNode m l r k v) st \<and> set (mtxs (TsNode m l r k v)) \<subseteq> set (mtxs t))"
proof (induction t)
  case (TsNode m l r k w)
  from TsNode.prems obtain s where k: "k = Some s"
    and lo: "\<forall>x \<in> set (bt_keys (erase l)). x < s" and hi: "\<forall>x \<in> set (bt_keys (erase r)). s < x"
    by (rule sub_ok_NodeE)
  have "sub_ok l st" "sub_ok r st" using TsNode.prems by (auto simp: sub_ok_def split: option.splits)
  note IH = TsNode.IH(1)[OF this(1)] TsNode.IH(2)[OF this(2)]
  have map: "bt_map (erase (TsNode m l r k w)) key
      = (if key < s then bt_map (erase l) key else if key = s then Some w else bt_map (erase r) key)"
    using TsNode.prems bt_map_search[of "erase l" "erase r" s w key] by (simp add: k sub_ok_def)
  show ?case
    using IH lo hi TsNode.prems map by (cases key s rule: key_cases) (auto simp: k split: ts_node.splits)
qed (simp_all add: sub_ok_def)

section \<open>The operations on a tree no thread works on\<close>

lemma locked_tree:
  assumes "ts_ok tree st"
  shows "ts_mtx tree \<notin> held st" "ts_mtx tree \<notin> set (mtxs (ts_root tree))"
    "sub_ok (ts_root tree) (st\<lparr>held := insert (ts_mtx tree) (held st)\<rparr>)"
    "mem_ok (st\<lparr>held := insert (ts_mtx tree) (held st)\<rparr>)"
    "insert (ts_mtx tree) (held st) - {ts_mtx tree} = held st"
  using assms by (auto simp: ts_ok_def sub_ok_def mem_ok_def)

lemma ts_map_None: "ts_map tree key = None \<longleftrightarrow> key \<notin> set (bt_keys (erase (ts_root tree)))"
  by (simp add: ts_map_def bt_map_None)

lemma bt_add_ts_new:
  assumes ok: "ts_ok tree st" and len: "length key \<le> BT_KEY_MAX" and new: "ts_map tree key = None"
  shows "\<exists>tree' st'. bt_add_ts tree key v st = Done (tree', 0, st') \<and> ts_ok tree' st' \<and> held st' = held st \<and>
    ts_map tree' = (ts_map tree)(key \<mapsto> v)"
proof -
  note l = locked_tree[OF ok]
  let ?t = "ts_root tree" and ?st = "st\<lparr>held := insert (ts_mtx tree) (held st)\<rparr>"
  have absent: "key \<notin> set (bt_keys (erase ?t))" using new by (simp add: ts_map_None)
  have "\<exists>t' st'. bt_add_ts tree key v st = Done (tree\<lparr>ts_root := t'\<rparr>, 0, st') \<and> added ?t key v (ts_mtx tree) ?st t' st'"
  proof (cases "?t = TsNull")
    case True
    with added_leaf[OF l(4) len, of v "ts_mtx tree"] show ?thesis
      by (auto simp: bt_add_ts_def LOCK_free[OF l(1)] ts_null_iff)
  next
    case False
    from ts_add_rec_absent[OF len l(3,4) False l(2) absent, of v] False show ?thesis
      by (auto simp: bt_add_ts_def LOCK_free[OF l(1)] ts_null_iff)
  qed
  then obtain t' st' where t': "bt_add_ts tree key v st = Done (tree\<lparr>ts_root := t'\<rparr>, 0, st')"
    and added: "added ?t key v (ts_mtx tree) ?st t' st'" by blast
  have bst: "bst (erase ?t)" using ok by (simp add: ts_ok_def sub_ok_def)
  obtain c' where "(if ?t = TsNull then bt_create_node key v \<lparr>allocs = [], cerrno = 0\<rparr>
      else bt_add_rec (erase ?t) key v \<lparr>allocs = [], cerrno = 0\<rparr>) = Inr (erase t', 0, c')"
    using added unfolding added_def by (force simp: no_alloc_failure_def)
  then have "bst (erase t') \<and> bt_map (erase t') = (bt_map (erase ?t))(key \<mapsto> v)"
    using create_node_ok[of "\<lparr>allocs = [], cerrno = 0\<rparr>" key v]
      add_rec_absent[OF bst _ absent _ len, of "\<lparr>allocs = [], cerrno = 0\<rparr>" v] len
      erase_null[of ?t] is_null_iff[of "erase ?t"] ok
    by (cases "?t = TsNull") (auto simp: no_alloc_failure_def bt_map.simps(2) ts_ok_def sub_ok_def)
  moreover have "sub_ok t' st' \<and> ts_mtx tree \<notin> set (mtxs t') \<and> ts_mtx tree < next_mtx st'"
    if "bst (erase t')"
    using added that ok l unfolding added_def sub_ok_def ts_ok_def mem_ok_def by fastforce
  ultimately show ?thesis
    using t' added l(1,5) by (auto simp: ts_ok_def added_def ts_map_def)
qed

definition demo_ts :: "nat BTree_ts" where
  "demo_ts = \<lparr>ts_root = TsNode 1 (TsNode 2 TsNull TsNull (Some ''a'') 1)
     (TsNode 3 TsNull TsNull (Some ''c'') 3) (Some ''b'') 2, ts_mtx = 0\<rparr>"

definition demo_ts_state :: ts_state where
  "demo_ts_state = \<lparr>mem = \<lparr>allocs = [], cerrno = 0\<rparr>, held = {}, next_mtx = 4\<rparr>"

lemma demo_ts_ok: "ts_ok demo_ts demo_ts_state"
  by (auto simp: ts_ok_def sub_ok_def mem_ok_def demo_ts_def demo_ts_state_def no_alloc_failure_def BT_KEY_MAX_def)

lemma demo_ts_map: "ts_map demo_ts ''b'' = Some 2" "ts_map demo_ts ''d'' = None"
  by (simp_all add: ts_map_def demo_ts_def bt_map.simps(2))

text \<open>C12: With memory available and no lock held, inserting a new key leaves a search tree that is the old
  finite map with the key added, and every mutex on the way (each locked before its parent's is
  released) unlocked again. Inserting a key that is there is refused with \<open>EINVAL\<close> and leaves the
  tree alone, but the mutex of the node with that key stays locked.\<close>

theorem bt_add_ts_refines_map:
  assumes "ts_ok tree st" "length key \<le> BT_KEY_MAX"
  shows "case ts_map tree key of
      None \<Rightarrow> \<exists>tree' st'. bt_add_ts tree key v st = Done (tree', 0, st') \<and> ts_ok tree' st' \<and>
        held st' = held st \<and> ts_map tree' = (ts_map tree)(key \<mapsto> v)
    | Some w \<Rightarrow> \<exists>st'. bt_add_ts tree key v st = Done (tree, -1, st') \<and> cerrno (mem st') = EINVAL \<and>
        held st' = insert (key_mtx (ts_root tree) key) (held st)"
proof (cases "ts_map tree key")
  case None
  with bt_add_ts_new[OF assms] show ?thesis by simp
next
  case (Some w)
  note l = locked_tree[OF assms(1)]
  have key: "key \<in> set (bt_keys (erase (ts_root tree)))" using Some ts_map_None[of tree key] by auto
  then have "ts_root tree \<noteq> TsNull" by auto
  with ts_add_rec_present[OF l(3,2) key, of v] l(5) Some show ?thesis
    by (auto simp: bt_add_ts_def LOCK_free[OF l(1)] ts_null_iff)
qed

lemma bt_add_ts_refines_map_witness:
  "(\<exists>tree' st'. bt_add_ts demo_ts ''d'' 4 demo_ts_state = Done (tree', 0, st') \<and> ts_ok tree' st' \<and>
      held st' = held demo_ts_state \<and> ts_map tree' = (ts_map demo_ts)(''d'' \<mapsto> 4)) \<and>
   (\<exists>st'. bt_add_ts demo_ts ''b'' 4 demo_ts_state = Done (demo_ts, -1, st') \<and> cerrno (mem st') = EINVAL \<and>
      held st' = insert (key_mtx (ts_root demo_ts) ''b'') (held demo_ts_state))"
  using bt_add_ts_refines_map[OF demo_ts_ok, of "''d''" 4] bt_add_ts_refines_map[OF demo_ts_ok, of "''b''" 4]
  by (simp add: demo_ts_map BT_KEY_MAX_def)

text \<open>The consequence of the forgotten unlock: after a refused insertion every lookup and every
  insertion of the same key waits for ever, in the same thread as in any other.\<close>

theorem bt_add_ts_duplicate_blocks:
  assumes "ts_ok tree st" "ts_map tree key = Some w"
  shows "case bt_add_ts tree key v st of
      Done (tree', rc, st') \<Rightarrow> bt_lookup_ts tree' key st' = Stuck (key_mtx (ts_root tree) key) \<and>
        bt_delete_ts tree' key st' = Stuck (key_mtx (ts_root tree) key)
    | _ \<Rightarrow> False"
proof -
  note l = locked_tree[OF assms(1)]
  let ?t = "ts_root tree" and ?m = "key_mtx (ts_root tree) key"
  have key: "key \<in> set (bt_keys (erase ?t))" using assms(2) ts_map_None[of tree key] by auto
  then have t: "?t \<noteq> TsNull" by auto
  obtain st' where st': "bt_add_ts tree key v st = Done (tree, -1, st')" "held st' = insert ?m (held st)"
    using ts_add_rec_present[OF l(3,2) key, of v] l(5) t
    by (auto simp: bt_add_ts_def LOCK_free[OF l(1)] ts_null_iff)
  have ok: "whole ?t" "bst (erase ?t)" "distinct (mtxs ?t)" and disj: "set (mtxs ?t) \<inter> held st = {}"
    using assms(1) by (auto simp: ts_ok_def sub_ok_def)
  have m: "?m \<in> set (mtxs ?t)"
    using key_node_ok[of ?t st key] assms(1) key by (auto simp: ts_ok_def split: ts_node.splits)
  then have free: "ts_mtx tree \<notin> held st'" using st'(2) l(1,2) by auto
  have "set (mtxs ?t) \<inter> held (st'\<lparr>held := insert (ts_mtx tree) (held st')\<rparr>) = {?m}"
    using m l(2) disj st'(2) by auto
  from ts_find_stuck[OF ok key l(2) this] st'(1) t show ?thesis
    by (simp add: bt_lookup_ts_def bt_delete_ts_def LOCK_free[OF free] ts_null_iff)
qed

lemma bt_add_ts_duplicate_blocks_witness:
  "case bt_add_ts demo_ts ''b'' 4 demo_ts_state of
      Done (tree', rc, st') \<Rightarrow> bt_lookup_ts tree' ''b'' st' = Stuck (key_mtx (ts_root demo_ts) ''b'') \<and>
        bt_delete_ts tree' ''b'' st' = Stuck (key_mtx (ts_root demo_ts) ''b'')
    | _ \<Rightarrow> False"
  by (rule bt_add_ts_duplicate_blocks[OF demo_ts_ok demo_ts_map(1)])

text \<open>\<open>bt_lookup_ts\<close> on a tree no thread works on: the value of a present key, with every mutex
  released; a missing key is noticed only in an empty tree and otherwise ends in the null pointer
  whose mutex is to be unlocked.\<close>

theorem bt_lookup_ts_cases:
  assumes "ts_ok tree st"
  shows "case ts_map tree key of
      Some v \<Rightarrow> \<exists>st'. bt_lookup_ts tree key st = Done (Some v, 0, st') \<and> held st' = held st
    | None \<Rightarrow> if ts_root tree = TsNull then \<exists>st'. bt_lookup_ts tree key st = Done (None, -1, st') \<and> held st' = held st
        else bt_lookup_ts tree key st = Crash Null_deref"
proof -
  note l = locked_tree[OF assms]
  let ?t = "ts_root tree"
  have node: "sub_ok ?t st" using assms by (simp add: ts_ok_def)
  show ?thesis
  proof (cases "ts_map tree key")
    case None
    then have key: "key \<notin> set (bt_keys (erase ?t))" using ts_map_None[of tree key] by simp
    show ?thesis
    proof (cases "?t = TsNull")
      case True
      with None l(5) show ?thesis by (simp add: bt_lookup_ts_def LOCK_free[OF l(1)])
    next
      case False
      from ts_find_absent[OF l(3) False l(2) key] obtain st' where
        "bt_find_node_ts ?t (ts_mtx tree) key (st\<lparr>held := insert (ts_mtx tree) (held st)\<rparr>) = Done (None, st')" by blast
      with None False show ?thesis by (simp add: bt_lookup_ts_def LOCK_free[OF l(1)] ts_null_iff)
    qed
  next
    case (Some v)
    then have key: "key \<in> set (bt_keys (erase ?t))" using ts_map_None[of tree key] by auto
    then have t: "?t \<noteq> TsNull" by auto
    obtain m a b k where n: "key_node ?t key = TsNode m a b k v" "m = key_mtx ?t key" "m \<in> set (mtxs ?t)"
      using key_node_ok[OF node, of key] key Some by (auto simp: ts_map_def split: ts_node.splits)
    then have "m \<notin> held st" using node by (auto simp: sub_ok_def)
    then have m: "insert m (held st) - {m} = held st" by auto
    obtain p par st' where p: "bt_find_node_ts ?t (ts_mtx tree) key (st\<lparr>held := insert (ts_mtx tree) (held st)\<rparr>)
        = Done (Some (p, par), st')" "ts_get p ?t = TsNode m a b k v" "held st' = insert m (held st)"
      using ts_find_present[OF l(3,4,2) key] n l(5) by (auto simp: found_def)
    have "bt_lookup_ts tree key st = Done (Some v, 0, UNLOCK m st')"
      by (simp add: bt_lookup_ts_def LOCK_free[OF l(1)] ts_null_iff t p(1,2))
    with m p(3) Some show ?thesis by simp
  qed
qed

lemma bt_lookup_ts_cases_witness:
  "(\<exists>st'. bt_lookup_ts demo_ts ''b'' demo_ts_state = Done (Some 2, 0, st') \<and> held st' = held demo_ts_state) \<and>
   bt_lookup_ts demo_ts ''d'' demo_ts_state = Crash Null_deref"
  using bt_lookup_ts_cases[OF demo_ts_ok, of "''b''"] bt_lookup_ts_cases[OF demo_ts_ok, of "''d''"]
  by (simp add: demo_ts_map) (simp add: demo_ts_def)

text \<open>\<open>bt_delete_ts\<close> deletes nothing. A missing key is refused with nothing locked. A node with two
  children is reported as deleted and is left in the tree with its mutex locked; for a node that
  lacks a child the mutex of the missing child is locked through a null pointer.\<close>

theorem bt_delete_ts_deletes_nothing:
  assumes "ts_ok tree st"
  shows "case bt_delete_ts tree key st of
      Done (tree', rc, st') \<Rightarrow> tree' = tree \<and>
        (case key_node (ts_root tree) key of
           TsNode m l r k v \<Rightarrow> l \<noteq> TsNull \<and> r \<noteq> TsNull \<and> rc = 0 \<and> held st' = insert m (held st)
         | _ \<Rightarrow> rc = -1 \<and> held st' = held st)
    | Stuck m \<Rightarrow> False
    | Crash e \<Rightarrow> e = Null_deref \<and>
        (case key_node (ts_root tree) key of TsNode m l r k v \<Rightarrow> l = TsNull \<or> r = TsNull | _ \<Rightarrow> False)"
proof -
  note l = locked_tree[OF assms]
  let ?t = "ts_root tree"
  have node: "sub_ok ?t st" using assms by (simp add: ts_ok_def)
  show ?thesis
  proof (cases "key \<in> set (bt_keys (erase ?t))")
    case False
    then have n: "key_node ?t key = TsNull"
      using key_node_ok[OF node, of key] by (auto split: ts_node.splits)
    show ?thesis
    proof (cases "?t = TsNull")
      case True
      with n l(5) show ?thesis by (simp add: bt_delete_ts_def LOCK_free[OF l(1)])
    next
      case t: False
      from ts_find_absent[OF l(3) t l(2) False] obtain st' where
        "bt_find_node_ts ?t (ts_mtx tree) key (st\<lparr>held := insert (ts_mtx tree) (held st)\<rparr>) = Done (None, st')"
        "held st' = held st" using l(5) by auto
      with n t show ?thesis by (simp add: bt_delete_ts_def LOCK_free[OF l(1)] ts_null_iff)
    qed
  next
    case True
    then have t: "?t \<noteq> TsNull" by auto
    obtain m a b k v where n: "key_node ?t key = TsNode m a b k v" "m = key_mtx ?t key"
      "sub_ok (TsNode m a b k v) st"
      using key_node_ok[OF node, of key] True by (auto split: ts_node.splits)
    obtain p par st' where p: "bt_find_node_ts ?t (ts_mtx tree) key (st\<lparr>held := insert (ts_mtx tree) (held st)\<rparr>)
        = Done (Some (p, par), st')" "ts_get p ?t = TsNode m a b k v" "held st' = insert m (held st)"
      using ts_find_present[OF l(3,4,2) True] n l(5) by (auto simp: found_def)
    have run: "bt_delete_ts tree key st = with_mtx a (\<lambda>ml. LOCK ml st' (\<lambda>st3. with_mtx b (\<lambda>mr. LOCK mr st3 (\<lambda>st4.
        if ts_children a b = 0 then LOCK par st4 (\<lambda>st5.
          Done (tree\<lparr>ts_root := ts_set p TsNull ?t\<rparr>, 0, UNLOCK mr (UNLOCK ml (UNLOCK par st5))))
        else if ts_children a b = 1 then LOCK par st4 (\<lambda>st5.
          Done (tree\<lparr>ts_root := ts_set p (if ts_null a then b else a) ?t\<rparr>, 0, UNLOCK mr (UNLOCK ml (UNLOCK par st5))))
        else Done (tree\<lparr>ts_root := ?t\<rparr>, 0, UNLOCK mr (UNLOCK ml st4))))))"
      by (simp add: bt_delete_ts_def LOCK_free[OF l(1)] ts_null_iff t p(1,2) Let_def)
    have "whole a" "whole b" using n(3) by (auto simp: sub_ok_def)
    then show ?thesis
    proof (cases a; cases b)
      fix ml la ra ka va mr lb rb kb vb
      assume ab: "a = TsNode ml la ra ka va" "b = TsNode mr lb rb kb vb"
      with n(3) have free: "ml \<notin> held st'" "mr \<notin> insert ml (held st')"
        by (auto simp: sub_ok_def p(3))
      then have "bt_delete_ts tree key st = Done (tree, 0, UNLOCK mr (UNLOCK ml
          (st'\<lparr>held := insert mr (insert ml (held st'))\<rparr>)))"
        by (simp add: run ab with_mtx_def node_mtx_def LOCK_free ts_children_def)
      moreover have "insert mr (insert ml (held st')) - {ml} - {mr} = insert m (held st)"
        using free p(3) by auto
      ultimately show ?thesis by (simp add: n(1) ab)
    next
      fix ml la ra ka va
      assume ab: "a = TsNode ml la ra ka va" "b = TsNull"
      with n(3) have "ml \<notin> held st'" by (auto simp: sub_ok_def p(3))
      then show ?thesis by (simp add: run ab n(1) with_mtx_def node_mtx_def LOCK_free)
    qed (simp_all add: run n(1) with_mtx_def node_mtx_def)
  qed
qed

lemma bt_delete_ts_deletes_nothing_witness:
  "case bt_delete_ts demo_ts ''b'' demo_ts_state of
      Done (tree', rc, st') \<Rightarrow> tree' = demo_ts \<and> rc = 0 \<and> held st' = insert 1 (held demo_ts_state)
    | _ \<Rightarrow> False"
  using bt_delete_ts_deletes_nothing[OF demo_ts_ok, of "''b''"]
  by (simp add: demo_ts_def split: thr.splits prod.splits)

end
