(* ===== verification/Threads.thy ===== *)
theory Threads
  imports Prelude
begin

text \<open>
  \<open>30_Thread_Synchronhization/prod_consumer.c\<close> and \<open>prod_consumer_2.c\<close>: producers that increment a
  counter and a consumer that waits for it on a condition variable, as a step relation. A step is
  what a thread does between two points at which another thread can take over: a call of the thread
  library, or an access to the shared counter. \<open>pthread_create\<close> may fail; the other calls succeed (on
  initialised objects the library gives them no error to return). \<open>pthread_cond_wait\<close> may return without a
  signal. An addition whose result is not an \<open>int\<close> is undefined: it is recorded in \<open>overflow\<close>, and nothing
  that the model does after it is meant.
\<close>

section \<open>State\<close>

text \<open>The program counter of a producer, with the iterations left.\<close>

datatype prod_pc =
    P_Loop int      \<comment> \<open>at the test of the loop\<close>
  | P_Lock int      \<comment> \<open>has slept, about to lock\<close>
  | P_Inc int       \<comment> \<open>holds the mutex\<close>
  | P_Unlock int    \<comment> \<open>has incremented \<open>avail\<close>\<close>
  | P_Signal int    \<comment> \<open>has released the mutex\<close>
  | P_Done

datatype cons_pc =
    C_Create        \<comment> \<open>creating the threads\<close>
  | C_Lock
  | C_Test          \<comment> \<open>holds the mutex, at \<open>while (avail == 0)\<close>\<close>
  | C_Waiting       \<comment> \<open>in \<open>pthread_cond_wait\<close>, the mutex released\<close>
  | C_Woken         \<comment> \<open>in \<open>pthread_cond_wait\<close>, to take the mutex again\<close>
  | C_Consume       \<comment> \<open>holds the mutex, at \<open>while (avail > 0)\<close>\<close>
  | C_Unlock
  | C_Check         \<comment> \<open>\<open>if (done) break;\<close>\<close>
  | C_Exit
  | C_Failed        \<comment> \<open>a thread could not be created, the process has ended\<close>

datatype tid = Main | Prod nat

record pc_state =
  avail :: int
  owner :: "tid option"
  producers :: "prod_pc list"
  consumer :: cons_pc
  to_create :: "int list"     \<comment> \<open>the arguments for which no thread was created yet\<close>
  totalRequired :: int
  numConsumed :: int
  finished :: bool            \<comment> \<open>the variable \<open>done\<close>\<close>
  overflow :: bool            \<comment> \<open>a counter has left the range of \<open>int\<close>\<close>

definition pc_init :: "int list \<Rightarrow> pc_state \<Rightarrow> bool" where
  "pc_init args s \<longleftrightarrow> s = \<lparr>avail = 0, owner = None, producers = [], consumer = C_Create,
     to_create = args, totalRequired = 0, numConsumed = 0, finished = False, overflow = False\<rparr>"

section \<open>Steps\<close>

text \<open>
  \<open>keeps_lock\<close> tells the two programs apart: \<open>prod_consumer_2.c\<close> checks whether it is done, and
  leaves, with the mutex held; it does not look at the result of \<open>pthread_create\<close>.
\<close>

definition is_int :: "int \<Rightarrow> bool" where
  "is_int x \<longleftrightarrow> INT_MIN \<le> x \<and> x \<le> INT_MAX"

inductive cons_step :: "bool \<Rightarrow> pc_state \<Rightarrow> pc_state \<Rightarrow> bool" for keeps_lock :: bool where
  create: "consumer s = C_Create \<Longrightarrow> to_create s = n # ns \<Longrightarrow>
    cons_step keeps_lock s (s\<lparr>to_create := ns, totalRequired := totalRequired s + n,
      overflow := overflow s \<or> \<not> is_int (totalRequired s + n), producers := producers s @ [P_Loop n]\<rparr>)"
| create_fails: "consumer s = C_Create \<Longrightarrow> to_create s = n # ns \<Longrightarrow>
    cons_step keeps_lock s (s\<lparr>to_create := ns, totalRequired := totalRequired s + n,
      overflow := overflow s \<or> \<not> is_int (totalRequired s + n), consumer := (if keeps_lock then C_Create else C_Failed)\<rparr>)"
| created: "consumer s = C_Create \<Longrightarrow> to_create s = [] \<Longrightarrow> cons_step keeps_lock s (s\<lparr>consumer := C_Lock\<rparr>)"
| lock: "consumer s = C_Lock \<Longrightarrow> owner s = None \<Longrightarrow>
    cons_step keeps_lock s (s\<lparr>owner := Some Main, consumer := C_Test\<rparr>)"
| wait: "consumer s = C_Test \<Longrightarrow> avail s = 0 \<Longrightarrow>
    cons_step keeps_lock s (s\<lparr>owner := None, consumer := C_Waiting\<rparr>)"
| relock: "consumer s = C_Woken \<Longrightarrow> owner s = None \<Longrightarrow>
    cons_step keeps_lock s (s\<lparr>owner := Some Main, consumer := C_Test\<rparr>)"
| avail: "consumer s = C_Test \<Longrightarrow> avail s \<noteq> 0 \<Longrightarrow> cons_step keeps_lock s (s\<lparr>consumer := C_Consume\<rparr>)"
| consume: "consumer s = C_Consume \<Longrightarrow> 0 < avail s \<Longrightarrow>
    cons_step keeps_lock s (s\<lparr>numConsumed := numConsumed s + 1, avail := avail s - 1,
      overflow := overflow s \<or> \<not> is_int (numConsumed s + 1), finished := (totalRequired s \<le> numConsumed s + 1)\<rparr>)"
| consumed: "consumer s = C_Consume \<Longrightarrow> \<not> 0 < avail s \<Longrightarrow>
    cons_step keeps_lock s (s\<lparr>consumer := (if keeps_lock then C_Check else C_Unlock)\<rparr>)"
| unlock: "consumer s = C_Unlock \<Longrightarrow>
    cons_step keeps_lock s (s\<lparr>owner := None, consumer := (if keeps_lock then C_Lock else C_Check)\<rparr>)"
| leave_loop: "consumer s = C_Check \<Longrightarrow> finished s \<Longrightarrow> cons_step keeps_lock s (s\<lparr>consumer := C_Exit\<rparr>)"
| go_round: "consumer s = C_Check \<Longrightarrow> \<not> finished s \<Longrightarrow>
    cons_step keeps_lock s (s\<lparr>consumer := (if keeps_lock then C_Unlock else C_Lock)\<rparr>)"

inductive prod_step :: "pc_state \<Rightarrow> pc_state \<Rightarrow> bool" where
  sleep: "i < length (producers s) \<Longrightarrow> producers s ! i = P_Loop n \<Longrightarrow> 0 < n \<Longrightarrow>
    prod_step s (s\<lparr>producers := (producers s)[i := P_Lock n]\<rparr>)"
| return: "i < length (producers s) \<Longrightarrow> producers s ! i = P_Loop n \<Longrightarrow> \<not> 0 < n \<Longrightarrow>
    prod_step s (s\<lparr>producers := (producers s)[i := P_Done]\<rparr>)"
| lock_mtx: "i < length (producers s) \<Longrightarrow> producers s ! i = P_Lock n \<Longrightarrow> owner s = None \<Longrightarrow>
    prod_step s (s\<lparr>owner := Some (Prod i), producers := (producers s)[i := P_Inc n]\<rparr>)"
| produce: "i < length (producers s) \<Longrightarrow> producers s ! i = P_Inc n \<Longrightarrow>
    prod_step s (s\<lparr>avail := avail s + 1, overflow := overflow s \<or> \<not> is_int (avail s + 1), producers := (producers s)[i := P_Unlock n]\<rparr>)"
| unlock_mtx: "i < length (producers s) \<Longrightarrow> producers s ! i = P_Unlock n \<Longrightarrow>
    prod_step s (s\<lparr>owner := None, producers := (producers s)[i := P_Signal n]\<rparr>)"
| signal: "i < length (producers s) \<Longrightarrow> producers s ! i = P_Signal n \<Longrightarrow>
    prod_step s (s\<lparr>consumer := (if consumer s = C_Waiting then C_Woken else consumer s),
      producers := (producers s)[i := P_Loop (n - 1)]\<rparr>)"

inductive spurious :: "pc_state \<Rightarrow> pc_state \<Rightarrow> bool" where
  wake: "consumer s = C_Waiting \<Longrightarrow> spurious s (s\<lparr>consumer := C_Woken\<rparr>)"

definition pc_step :: "bool \<Rightarrow> pc_state \<Rightarrow> pc_state \<Rightarrow> bool" where
  \<comment> \<open>\<open>exit\<close> in \<open>main\<close> ends the producers\<close>
  "pc_step keeps_lock s t \<longleftrightarrow> consumer s \<notin> {C_Exit, C_Failed} \<and> (cons_step keeps_lock s t \<or> prod_step s t)"

definition pc_any :: "bool \<Rightarrow> pc_state \<Rightarrow> pc_state \<Rightarrow> bool" where
  "pc_any keeps_lock s t \<longleftrightarrow> pc_step keeps_lock s t \<or> spurious s t"

definition prod_consumer :: "int list \<Rightarrow> pc_state \<Rightarrow> bool" where
  \<comment> \<open>the states of \<open>prod_consumer.c\<close>\<close>
  "prod_consumer args = reach (pc_init args) (pc_any False)"

definition prod_consumer_2_step :: "pc_state \<Rightarrow> pc_state \<Rightarrow> bool" where
  "prod_consumer_2_step = pc_any True"

definition prod_consumer_2 :: "int list \<Rightarrow> pc_state \<Rightarrow> bool" where
  "prod_consumer_2 args = reach (pc_init args) prod_consumer_2_step"

section \<open>Invariant\<close>

fun to_produce :: "prod_pc \<Rightarrow> int" where
  "to_produce (P_Loop n) = max 0 n"
| "to_produce (P_Lock n) = n"
| "to_produce (P_Inc n) = n"
| "to_produce (P_Unlock n) = n - 1"
| "to_produce (P_Signal n) = n - 1"
| "to_produce P_Done = 0"

fun pc_pos :: "prod_pc \<Rightarrow> bool" where
  "pc_pos (P_Loop n) = True"
| "pc_pos P_Done = True"
| "pc_pos (P_Lock n) = (0 < n)"
| "pc_pos (P_Inc n) = (0 < n)"
| "pc_pos (P_Unlock n) = (0 < n)"
| "pc_pos (P_Signal n) = (0 < n)"

fun in_section :: "prod_pc \<Rightarrow> bool" where
  "in_section (P_Inc n) = True"
| "in_section (P_Unlock n) = True"
| "in_section p = False"

fun will_signal :: "prod_pc \<Rightarrow> bool" where
  "will_signal (P_Unlock n) = True"
| "will_signal (P_Signal n) = True"
| "will_signal p = False"

definition main_holds :: "bool \<Rightarrow> pc_state \<Rightarrow> bool" where
  "main_holds keeps_lock s \<longleftrightarrow> consumer s \<in> {C_Test, C_Consume, C_Unlock} \<or>
     keeps_lock \<and> consumer s \<in> {C_Check, C_Exit}"

definition mutex_ok :: "bool \<Rightarrow> pc_state \<Rightarrow> bool" where
  "mutex_ok keeps_lock s \<longleftrightarrow> (owner s = Some Main \<longleftrightarrow> main_holds keeps_lock s) \<and>
     (\<forall>i < length (producers s). in_section (producers s ! i) \<longleftrightarrow> owner s = Some (Prod i)) \<and>
     (\<forall>i. owner s = Some (Prod i) \<longrightarrow> i < length (producers s))"

definition counts_ok :: "bool \<Rightarrow> int list \<Rightarrow> pc_state \<Rightarrow> bool" where
  \<comment> \<open>a thread that \<open>prod_consumer_2.c\<close> could not create produces nothing\<close>
  "counts_ok keeps_lock args s \<longleftrightarrow> (\<exists>tried. args = tried @ to_create s \<and> totalRequired s = sum_list tried
       \<and> numConsumed s + avail s + sum_list (map to_produce (producers s)) \<le> sum_list (map (max 0) tried)
       \<and> (keeps_lock \<or> consumer s = C_Failed \<or>
          numConsumed s + avail s + sum_list (map to_produce (producers s)) = sum_list (map (max 0) tried))) \<and>
     0 \<le> avail s \<and> 0 \<le> numConsumed s \<and> list_all pc_pos (producers s) \<and>
     (consumer s = C_Create \<or> consumer s = C_Failed \<or> to_create s = [])"

definition in_range :: "int list \<Rightarrow> pc_state \<Rightarrow> bool" where
  \<comment> \<open>nothing has overflowed, for arguments whose sum is an \<open>int\<close>\<close>
  "in_range args s \<longleftrightarrow> (if list_all (\<lambda>n. 0 \<le> n) args \<and> sum_list args \<le> INT_MAX then \<not> overflow s else True)"

definition done_ok :: "bool \<Rightarrow> pc_state \<Rightarrow> bool" where
  "done_ok keeps_lock s \<longleftrightarrow> (case consumer s of
      C_Create \<Rightarrow> numConsumed s = 0
    | C_Consume \<Rightarrow> if avail s = 0 then 0 < numConsumed s \<and> finished s = (totalRequired s \<le> numConsumed s) else True
    | C_Unlock \<Rightarrow> 0 < numConsumed s \<and> finished s = (totalRequired s \<le> numConsumed s) \<and> (keeps_lock \<longrightarrow> \<not> finished s)
    | C_Check \<Rightarrow> 0 < numConsumed s \<and> finished s = (totalRequired s \<le> numConsumed s)
    | C_Exit \<Rightarrow> 0 < numConsumed s \<and> totalRequired s \<le> numConsumed s
    | _ \<Rightarrow> numConsumed s = 0 \<or> numConsumed s < totalRequired s)"

definition wait_ok :: "pc_state \<Rightarrow> bool" where
  "wait_ok s \<longleftrightarrow> (if consumer s = C_Waiting \<and> 0 < avail s then list_ex will_signal (producers s) else True)"

definition pc_inv :: "bool \<Rightarrow> int list \<Rightarrow> pc_state \<Rightarrow> bool" where
  "pc_inv keeps_lock args s \<longleftrightarrow> mutex_ok keeps_lock s \<and> counts_ok keeps_lock args s \<and> done_ok keeps_lock s \<and> wait_ok s
     \<and> in_range args s"

lemma counts_okI:
  assumes "args = tried @ to_create s" "totalRequired s = sum_list tried"
    "numConsumed s + avail s + sum_list (map to_produce (producers s)) \<le> sum_list (map (max 0) tried)"
    "k \<or> consumer s = C_Failed \<or> numConsumed s + avail s + sum_list (map to_produce (producers s)) = sum_list (map (max 0) tried)"
    "0 \<le> avail s" "0 \<le> numConsumed s" "list_all pc_pos (producers s)" "consumer s = C_Create \<or> consumer s = C_Failed \<or> to_create s = []"
  shows "counts_ok k args s"
  using assms unfolding counts_ok_def by blast

lemma counts_okE:
  assumes "counts_ok k args s"
  obtains tried where "args = tried @ to_create s" "totalRequired s = sum_list tried"
    "numConsumed s + avail s + sum_list (map to_produce (producers s)) \<le> sum_list (map (max 0) tried)"
    "k \<or> consumer s = C_Failed \<or> numConsumed s + avail s + sum_list (map to_produce (producers s)) = sum_list (map (max 0) tried)"
    "0 \<le> avail s" "0 \<le> numConsumed s" "list_all pc_pos (producers s)" "consumer s = C_Create \<or> consumer s = C_Failed \<or> to_create s = []"
  using assms unfolding counts_ok_def by blast

lemma cons_counts: "cons_step k s t \<Longrightarrow> counts_ok k args s \<Longrightarrow> counts_ok k args t"
proof (induction rule: cons_step.induct)
  case (create s n ns)
  from create(3) show ?case
    by (rule counts_okE) (rule counts_okI[where tried = "tried @ [n]" for tried], (use create in auto)+)
next
  case (create_fails s n ns)
  from create_fails(3) show ?case
    by (rule counts_okE, intro counts_okI[where tried = "_ @ [n]"]) (use create_fails in auto)
qed (erule counts_okE, rule counts_okI, auto)+

lemma prod_counts: "prod_step s t \<Longrightarrow> counts_ok k args s \<Longrightarrow> counts_ok k args t"
proof (induction rule: prod_step.induct)
  case (sleep i s n)
  then show ?case by (elim counts_okE) (rule counts_okI, auto simp: sum_map_update list_all_update)
next
  case (return i s n)
  then show ?case by (elim counts_okE) (rule counts_okI, auto simp: sum_map_update list_all_update)
next
  case (lock_mtx i s n)
  then show ?case using list_all_nth[of pc_pos "producers s" i]
    by (elim counts_okE) (rule counts_okI, auto simp: sum_map_update list_all_update)
next
  case (produce i s n)
  then show ?case using list_all_nth[of pc_pos "producers s" i]
    by (elim counts_okE) (rule counts_okI, auto simp: sum_map_update list_all_update)
next
  case (unlock_mtx i s n)
  then show ?case using list_all_nth[of pc_pos "producers s" i]
    by (elim counts_okE) (rule counts_okI, auto simp: sum_map_update list_all_update)
next
  case (signal i s n)
  then show ?case using list_all_nth[of pc_pos "producers s" i]
    by (elim counts_okE) (rule counts_okI, auto simp: sum_map_update list_all_update)
qed

lemma cons_mutex: "cons_step k s t \<Longrightarrow> mutex_ok k s \<Longrightarrow> mutex_ok k t"
proof (induction rule: cons_step.induct)
  case (create s n ns)
  then show ?case by (auto simp: mutex_ok_def main_holds_def nth_append less_Suc_eq)
qed (auto simp: mutex_ok_def main_holds_def split: if_splits)

lemma prod_mutex: "prod_step s t \<Longrightarrow> mutex_ok k s \<Longrightarrow> mutex_ok k t"
  by (induction rule: prod_step.induct)
    (fastforce simp: mutex_ok_def main_holds_def nth_list_update split: if_splits)+

lemma prod_done:
  assumes "prod_step s t" "mutex_ok k s" "done_ok k s"
  shows "done_ok k t"
  using assms
proof (induction rule: prod_step.induct)
  case (produce i s n)
  then have "owner s = Some (Prod i)" by (auto simp: mutex_ok_def)
  then have "consumer s \<notin> {C_Test, C_Consume, C_Unlock}" using produce.prems(1)
    by (auto simp: mutex_ok_def main_holds_def)
  with produce show ?case by (auto simp: done_ok_def split: cons_pc.splits)
qed (auto simp: done_ok_def split: cons_pc.splits)

lemma cons_done: "cons_step k s t \<Longrightarrow> counts_ok k args s \<Longrightarrow> done_ok k s \<Longrightarrow> done_ok k t"
  by (induction rule: cons_step.induct) (auto simp: done_ok_def counts_ok_def)

lemma prod_wait: "prod_step s t \<Longrightarrow> wait_ok s \<Longrightarrow> wait_ok t"
  by (induction rule: prod_step.induct)
    (auto simp: wait_ok_def list_ex_new list_ex_kept)

lemma cons_wait: "cons_step k s t \<Longrightarrow> wait_ok s \<Longrightarrow> wait_ok t"
  by (induction rule: cons_step.induct) (auto simp: wait_ok_def)

lemma to_produce_nonneg: "list_all pc_pos ps \<Longrightarrow> 0 \<le> sum_list (map to_produce ps)"
proof (induction ps)
  case (Cons p ps)
  have "pc_pos p \<Longrightarrow> 0 \<le> to_produce p" by (cases p) auto
  with Cons show ?case by auto
qed simp

lemma to_produce_le:
  assumes "list_all pc_pos ps" "i < length ps"
  shows "to_produce (ps ! i) \<le> sum_list (map to_produce ps)"
  using assms
proof (induction ps arbitrary: i)
  case (Cons p ps)
  have "pc_pos p \<Longrightarrow> 0 \<le> to_produce p" by (cases p) auto
  with Cons.prems to_produce_nonneg[of ps] Cons.IH show ?case by (cases i) fastforce+
qed simp

lemma max_id: "list_all (\<lambda>n. 0 \<le> n) ns \<Longrightarrow> map (max 0) ns = (ns :: int list)"
  by (induction ns) auto

lemma sum_nonneg: "list_all (\<lambda>n. 0 \<le> n) ns \<Longrightarrow> 0 \<le> sum_list (ns :: int list)"
  by (induction ns) auto

lemma counts_fit:
  assumes "counts_ok k args s" "list_all (\<lambda>n. 0 \<le> n) args" "sum_list args \<le> INT_MAX"
  shows "0 \<le> numConsumed s" "0 \<le> avail s" "numConsumed s + avail s + sum_list (map to_produce (producers s)) \<le> INT_MAX"
    "to_create s = n # ns \<Longrightarrow> is_int (totalRequired s + n)"
proof -
  from assms(1) obtain tried where t: "args = tried @ to_create s" "totalRequired s = sum_list tried"
    "numConsumed s + avail s + sum_list (map to_produce (producers s)) \<le> sum_list (map (max 0) tried)" "0 \<le> avail s" "0 \<le> numConsumed s"
    by (rule counts_okE)
  have n: "list_all (\<lambda>n. 0 \<le> n) tried" "list_all (\<lambda>n. 0 \<le> n) (to_create s)" using assms(2) t(1) by auto
  have sum: "sum_list args = sum_list tried + sum_list (to_create s)" using t(1) by simp
  show "0 \<le> numConsumed s" "0 \<le> avail s" using t(4,5) by simp_all
  show "numConsumed s + avail s + sum_list (map to_produce (producers s)) \<le> INT_MAX"
    using t(3) assms(3) sum_nonneg[OF n(2)] sum max_id[OF n(1)] by simp
  show "is_int (totalRequired s + n)" if "to_create s = n # ns"
    using that n sum assms(3) sum_nonneg[OF n(1)] sum_nonneg[of ns] t(2) by (auto simp: is_int_def int_limits)
qed

lemma cons_range:
  assumes "cons_step k s t" "counts_ok k args s" "in_range args s"
  shows "in_range args t"
proof (cases "list_all (\<lambda>n. 0 \<le> n) args \<and> sum_list args \<le> INT_MAX")
  case True
  note fit = counts_fit[OF assms(2) True[THEN conjunct1] True[THEN conjunct2]]
  have pos: "0 \<le> sum_list (map to_produce (producers s))" using assms(2) to_produce_nonneg by (auto simp: counts_ok_def)
  from assms(1) have "\<not> overflow t"
  proof cases
    case consume
    with fit(1,3) pos have "is_int (numConsumed s + 1)" by (simp add: is_int_def int_limits)
    with consume True assms(3) show ?thesis by (simp add: in_range_def)
  qed (use True assms(3) fit(4) in \<open>auto simp: in_range_def\<close>)
  then show ?thesis by (simp add: in_range_def)
qed (auto simp: in_range_def)

lemma prod_range:
  assumes "prod_step s t" "counts_ok k args s" "in_range args s"
  shows "in_range args t"
proof (cases "list_all (\<lambda>n. 0 \<le> n) args \<and> sum_list args \<le> INT_MAX")
  case True
  note fit = counts_fit[OF assms(2) True[THEN conjunct1] True[THEN conjunct2]]
  have pos: "list_all pc_pos (producers s)" using assms(2) by (auto simp: counts_ok_def)
  from assms(1) have "\<not> overflow t"
  proof cases
    case (produce i n)
    have "0 < n" using list_all_nth[of pc_pos "producers s" i] pos produce by auto
    with to_produce_le[OF pos produce(2)] produce(3) fit(1-3) have "is_int (avail s + 1)" by (simp add: is_int_def int_limits)
    with produce True assms(3) show ?thesis by (simp add: in_range_def)
  qed (use True assms(3) in \<open>auto simp: in_range_def\<close>)
  then show ?thesis by (simp add: in_range_def)
qed (auto simp: in_range_def)

lemma pc_inv_init: "pc_init args s \<Longrightarrow> pc_inv k args s"
  by (simp add: pc_init_def pc_inv_def mutex_ok_def main_holds_def counts_ok_def done_ok_def wait_ok_def in_range_def)

lemma spurious_inv:
  assumes "spurious s t" "pc_inv k args s"
  shows "pc_inv k args t"
  using assms by cases (auto simp: pc_inv_def mutex_ok_def main_holds_def counts_ok_def done_ok_def wait_ok_def in_range_def)

lemma pc_inv_step: "pc_inv k args s \<Longrightarrow> pc_any k s t \<Longrightarrow> pc_inv k args t"
  unfolding pc_any_def pc_step_def
  by (elim disjE conjE; (rule spurious_inv; assumption)?)
    (auto simp: pc_inv_def intro: cons_mutex cons_counts cons_done cons_wait cons_range prod_mutex prod_counts prod_done prod_wait prod_range)

interpretation pc: invariant_system "pc_init args" "pc_any k" "pc_inv k args" for k args
  by unfold_locales (auto intro: pc_inv_init pc_inv_step)

lemma prod_consumer_inv: "prod_consumer args s \<Longrightarrow> pc_inv False args s"
  unfolding prod_consumer_def by (rule pc.reach_inv)

lemma prod_consumer_2_inv: "prod_consumer_2 args s \<Longrightarrow> pc_inv True args s"
  unfolding prod_consumer_2_def prod_consumer_2_step_def by (rule pc.reach_inv)

section \<open>Everything is consumed\<close>

lemma exit_consumed:
  assumes inv: "pc_inv k args s" and args: "list_all (\<lambda>n. 0 \<le> n) args" and ex: "consumer s = C_Exit"
  shows "numConsumed s = sum_list args \<and> avail s = 0 \<and> sum_list (map to_produce (producers s)) = 0"
proof -
  from inv have c: "counts_ok k args s" "done_ok k s" by (simp_all add: pc_inv_def)
  from c(1) obtain tried where t: "args = tried @ to_create s" "totalRequired s = sum_list tried"
    "numConsumed s + avail s + sum_list (map to_produce (producers s)) \<le> sum_list (map (max 0) tried)" "0 \<le> avail s" "0 \<le> numConsumed s"
    "list_all pc_pos (producers s)" "consumer s = C_Create \<or> consumer s = C_Failed \<or> to_create s = []"
    by (rule counts_okE)
  with ex have "tried = args" by simp
  with t c(2) ex to_produce_nonneg[OF t(6)] max_id[OF args] show ?thesis by (simp add: done_ok_def)
qed

text \<open>The consumer is stuck in \<open>pthread_cond_wait\<close> only as long as nothing is produced.\<close>

lemma producer_moves:
  assumes "i < length (producers s)" "producers s ! i \<noteq> P_Done"
    "\<forall>n. producers s ! i = P_Lock n \<longrightarrow> owner s = None"
  shows "\<exists>t. prod_step s t"
  using assms by (cases "producers s ! i") (metis prod_step.intros)+

lemma owner_moves:
  assumes "mutex_ok k s" "owner s = Some (Prod i)"
  shows "\<exists>t. prod_step s t"
proof -
  have "i < length (producers s)" "in_section (producers s ! i)"
    using assms by (auto simp: mutex_ok_def)
  then show ?thesis using producer_moves[of i s] by (cases "producers s ! i") auto
qed

lemma all_done_produce: "\<forall>p \<in> set ps. p = P_Done \<Longrightarrow> sum_list (map to_produce ps) = 0"
  by (induction ps) auto

lemma waiting_moves:
  assumes inv: "pc_inv False args s" and own: "owner s = None"
    and args: "list_all (\<lambda>n. 0 \<le> n) args" "0 < sum_list args" and cons: "consumer s = C_Waiting"
  shows "\<exists>t. prod_step s t"
proof (rule ccontr)
  assume no: "\<nexists>t. prod_step s t"
  then have dn: "\<forall>p \<in> set (producers s). p = P_Done"
    using producer_moves[of _ s] own by (metis in_set_conv_nth)
  then have "\<not> list_ex will_signal (producers s)" by (auto simp: list_ex_iff)
  with inv cons have av: "avail s = 0" by (auto simp: pc_inv_def wait_ok_def counts_ok_def split: if_splits)
  from inv cons have "numConsumed s + avail s + sum_list (map to_produce (producers s)) = sum_list (map (max 0) args)"
      "totalRequired s = sum_list args" "numConsumed s = 0 \<or> numConsumed s < totalRequired s"
    by (auto simp: pc_inv_def counts_ok_def done_ok_def)
  with all_done_produce[OF dn] av max_id[OF args(1)] args(2) show False by auto
qed

lemma someone_moves:
  assumes inv: "pc_inv False args s" and args: "list_all (\<lambda>n. 0 \<le> n) args" "0 < sum_list args"
    and ex: "consumer s \<noteq> C_Exit" "consumer s \<noteq> C_Failed"
  shows "\<exists>t. cons_step False s t \<or> prod_step s t"
proof (cases "owner s")
  case None
  show ?thesis
  proof (cases "consumer s")
    case C_Create
    then show ?thesis by (cases "to_create s") (blast intro: cons_step.created cons_step.create)+
  next
    case C_Waiting
    with waiting_moves[OF inv None args] show ?thesis by auto
  next
    case C_Check
    then show ?thesis by (cases "finished s") (blast intro: cons_step.leave_loop cons_step.go_round)+
  next
    case C_Lock
    with None show ?thesis by (blast intro: cons_step.lock)
  next
    case C_Woken
    with None show ?thesis by (blast intro: cons_step.relock)
  qed (use None ex inv in \<open>auto simp: pc_inv_def mutex_ok_def main_holds_def\<close>)
next
  case (Some h)
  show ?thesis
  proof (cases h)
    case (Prod i)
    with Some inv owner_moves[of False s i] show ?thesis by (auto simp: pc_inv_def)
  next
    case Main
    with Some inv have "main_holds False s" by (auto simp: pc_inv_def mutex_ok_def)
    then consider "consumer s = C_Test" | "consumer s = C_Consume" | "consumer s = C_Unlock" by (auto simp: main_holds_def)
    then show ?thesis
    proof cases
      case 1
      then show ?thesis by (cases "avail s = 0") (blast intro: cons_step.wait cons_step.avail)+
    next
      case 2
      then show ?thesis by (cases "0 < avail s") (blast intro: cons_step.consume cons_step.consumed)+
    qed (blast intro: cons_step.unlock)
  qed
qed

lemma consumer_moves:
  assumes "pc_inv False args s" "list_all (\<lambda>n. 0 \<le> n) args" "0 < sum_list args" "consumer s \<noteq> C_Exit" "consumer s \<noteq> C_Failed"
  shows "\<exists>t. pc_step False s t"
  using someone_moves[OF assms] assms(4,5) by (auto simp: pc_step_def)

section \<open>A run\<close>

text \<open>One producer of one unit, which the consumer finds without waiting.\<close>

definition pc_run :: "bool \<Rightarrow> int \<Rightarrow> cons_pc \<Rightarrow> tid option \<Rightarrow> prod_pc \<Rightarrow> int \<Rightarrow> bool \<Rightarrow> pc_state" where
  "pc_run k av c ow p m fin = \<lparr>avail = av, owner = ow, producers = [p], consumer = c, to_create = [],
     totalRequired = 1, numConsumed = m, finished = fin, overflow = False\<rparr>"

lemma run_cons: "reach (pc_init args) (pc_any k) s \<Longrightarrow> cons_step k s t \<Longrightarrow> consumer s \<notin> {C_Exit, C_Failed} \<Longrightarrow> reach (pc_init args) (pc_any k) t"
  by (erule reach_step) (simp add: pc_any_def pc_step_def)

lemma run_prod: "reach (pc_init args) (pc_any k) s \<Longrightarrow> prod_step s t \<Longrightarrow> consumer s \<notin> {C_Exit, C_Failed} \<Longrightarrow> reach (pc_init args) (pc_any k) t"
  by (erule reach_step) (simp add: pc_any_def pc_step_def)

definition pc_boot :: "int list \<Rightarrow> pc_state" where
  "pc_boot args = \<lparr>avail = 0, owner = None, producers = [], consumer = C_Create,
     to_create = args, totalRequired = 0, numConsumed = 0, finished = False, overflow = False\<rparr>"

lemma pc_boot: "reach (pc_init args) (pc_any k) (pc_boot args)"
  by (rule reach_init) (simp add: pc_init_def pc_boot_def)

lemma pc_run_produced:
  "reach (pc_init [1]) (pc_any k) (pc_run k 1 C_Lock None (P_Signal 1) 0 False)"
proof -
  have 1: "reach (pc_init [1]) (pc_any k) (pc_run k 0 C_Create None (P_Loop 1) 0 False)"
    using run_cons[OF pc_boot cons_step.create[of "pc_boot [1]" 1 "[]" k]] by (simp add: pc_boot_def pc_run_def is_int_def int_limits)
  have 2: "reach (pc_init [1]) (pc_any k) (pc_run k 0 C_Lock None (P_Loop 1) 0 False)"
    using run_cons[OF 1 cons_step.created] by (simp add: pc_run_def is_int_def int_limits)
  have 3: "reach (pc_init [1]) (pc_any k) (pc_run k 0 C_Lock None (P_Lock 1) 0 False)"
    using run_prod[OF 2 prod_step.sleep[of 0 _ 1]] by (simp add: pc_run_def is_int_def int_limits)
  have 4: "reach (pc_init [1]) (pc_any k) (pc_run k 0 C_Lock (Some (Prod 0)) (P_Inc 1) 0 False)"
    using run_prod[OF 3 prod_step.lock_mtx[of 0 _ 1]] by (simp add: pc_run_def is_int_def int_limits)
  have 5: "reach (pc_init [1]) (pc_any k) (pc_run k 1 C_Lock (Some (Prod 0)) (P_Unlock 1) 0 False)"
    using run_prod[OF 4 prod_step.produce[of 0 _ 1]] by (simp add: pc_run_def is_int_def int_limits)
  show ?thesis
    using run_prod[OF 5 prod_step.unlock_mtx[of 0 _ 1]] by (simp add: pc_run_def is_int_def int_limits)
qed

lemma pc_run_consumed:
  "reach (pc_init [1]) (pc_any k) (pc_run k 0 (if k then C_Check else C_Unlock) (Some Main) (P_Signal 1) 1 True)"
proof -
  have 1: "reach (pc_init [1]) (pc_any k) (pc_run k 1 C_Test (Some Main) (P_Signal 1) 0 False)"
    using run_cons[OF pc_run_produced cons_step.lock] by (simp add: pc_run_def is_int_def int_limits)
  have 2: "reach (pc_init [1]) (pc_any k) (pc_run k 1 C_Consume (Some Main) (P_Signal 1) 0 False)"
    using run_cons[OF 1 cons_step.avail] by (simp add: pc_run_def is_int_def int_limits)
  have 3: "reach (pc_init [1]) (pc_any k) (pc_run k 0 C_Consume (Some Main) (P_Signal 1) 1 True)"
    using run_cons[OF 2 cons_step.consume] by (simp add: pc_run_def is_int_def int_limits)
  show ?thesis using run_cons[OF 3 cons_step.consumed] by (simp add: pc_run_def is_int_def int_limits)
qed

lemma prod_consumer_exits: "prod_consumer [1] (pc_run False 0 C_Exit None (P_Signal 1) 1 True)"
proof -
  have "reach (pc_init [1]) (pc_any False) (pc_run False 0 C_Check None (P_Signal 1) 1 True)"
    using run_cons[OF pc_run_consumed[of False] cons_step.unlock] by (simp add: pc_run_def is_int_def int_limits)
  from run_cons[OF this cons_step.leave_loop] show ?thesis
    by (simp add: pc_run_def prod_consumer_def)
qed

lemma prod_consumer_2_exits: "prod_consumer_2 [1] (pc_run True 0 C_Exit (Some Main) (P_Signal 1) 1 True)"
  using run_cons[OF pc_run_consumed[of True] cons_step.leave_loop]
  by (simp add: pc_run_def prod_consumer_2_def prod_consumer_2_step_def)

section \<open>Properties\<close>

text \<open>C13: When the consumer of \<open>prod_consumer.c\<close> leaves, whatever the interleaving, it has consumed
  every unit its arguments announced and no producer has one left to make, for arguments that are not negative and whose
  sum is an \<open>int\<close>; the mutex is released. No counter overflows in any state before.\<close>

theorem prod_consumer_consumes_all:
  assumes "prod_consumer args s" "list_all (\<lambda>n. 0 \<le> n) args" "sum_list args \<le> INT_MAX"
  shows "\<not> overflow s \<and> (if consumer s = C_Exit then numConsumed s = sum_list args \<and> avail s = 0
    \<and> sum_list (map to_produce (producers s)) = 0 \<and> owner s \<noteq> Some Main else True)"
proof -
  note inv = prod_consumer_inv[OF assms(1)]
  then have "\<not> overflow s" using assms(2,3) by (simp add: pc_inv_def in_range_def)
  moreover have "owner s \<noteq> Some Main" if "consumer s = C_Exit"
    using inv that by (auto simp: pc_inv_def mutex_ok_def main_holds_def)
  ultimately show ?thesis using exit_consumed[OF inv assms(2)] by simp
qed

lemma prod_consumer_consumes_all_witness:
  "prod_consumer [1] (pc_run False 0 C_Exit None (P_Signal 1) 1 True) \<and>
   numConsumed (pc_run False 0 C_Exit None (P_Signal 1) 1 True) = sum_list [1]"
  using prod_consumer_consumes_all[OF prod_consumer_exits] prod_consumer_exits by (simp add: pc_run_def int_limits)

text \<open>\<open>prod_consumer_2.c\<close> consumes everything too, but its \<open>main\<close> leaves with the mutex locked.\<close>

theorem prod_consumer_2_consumes_all:
  assumes "prod_consumer_2 args s" "list_all (\<lambda>n. 0 \<le> n) args" "consumer s = C_Exit"
  shows "numConsumed s = sum_list args \<and> avail s = 0 \<and> owner s = Some Main"
proof -
  note inv = prod_consumer_2_inv[OF assms(1)]
  then have "owner s = Some Main" using assms(3) by (auto simp: pc_inv_def mutex_ok_def main_holds_def)
  with exit_consumed[OF inv assms(2,3)] show ?thesis by simp
qed

lemma prod_consumer_2_consumes_all_witness:
  "numConsumed (pc_run True 0 C_Exit (Some Main) (P_Signal 1) 1 True) = sum_list [1]"
  using prod_consumer_2_consumes_all[OF prod_consumer_2_exits] by (simp add: pc_run_def is_int_def int_limits)

text \<open>C14: No wakeup is lost: with something to produce, in every reachable state of \<open>prod_consumer.c\<close>
  before the process ends (the consumer leaves, or a thread cannot be created), some thread can take a step
  that is not a spurious wakeup.\<close>

theorem prod_consumer_no_deadlock:
  assumes "prod_consumer args s" "list_all (\<lambda>n. 0 \<le> n) args" "0 < sum_list args"
    "consumer s \<noteq> C_Exit" "consumer s \<noteq> C_Failed"
  shows "\<exists>t. pc_step False s t"
  by (rule consumer_moves[OF prod_consumer_inv[OF assms(1)] assms(2-5)])

lemma prod_consumer_no_deadlock_witness: "\<exists>t. pc_step False (pc_run False 1 C_Lock None (P_Signal 1) 0 False) t"
  using prod_consumer_no_deadlock[of "[1]" "pc_run False 1 C_Lock None (P_Signal 1) 0 False"]
    pc_run_produced[of False] by (simp add: prod_consumer_def pc_run_def)

text \<open>With nothing to produce the consumer never leaves: it waits before it looks at the number of
  units required.\<close>

theorem prod_consumer_nothing_to_do:
  assumes "prod_consumer args s" "list_all (\<lambda>n. n \<le> 0) args"
  shows "consumer s \<noteq> C_Exit \<and> numConsumed s = 0"
proof -
  from prod_consumer_inv[OF assms(1)] have c: "counts_ok False args s" "done_ok False s" by (auto simp: pc_inv_def)
  from c(1) obtain tried where t: "args = tried @ to_create s"
    "numConsumed s + avail s + sum_list (map to_produce (producers s)) \<le> sum_list (map (max 0) tried)" "0 \<le> avail s" "0 \<le> numConsumed s"
    "list_all pc_pos (producers s)"
    by (rule counts_okE)
  have "sum_list (map (max 0) ns) = 0" if "list_all (\<lambda>n. n \<le> 0) ns" for ns :: "int list"
    using that by (induction ns) auto
  moreover have "list_all (\<lambda>n. n \<le> 0) tried" using assms(2) t(1) by simp
  ultimately have "numConsumed s = 0" using t(2-4) to_produce_nonneg[OF t(5)] by simp
  with c(2) show ?thesis by (auto simp: done_ok_def)
qed

lemma prod_consumer_nothing_to_do_witness: "prod_consumer [0] (pc_boot [0]) \<and> consumer (pc_boot [0]) \<noteq> C_Exit"
  using prod_consumer_nothing_to_do[of "[0]" "pc_boot [0]"] pc_boot[of "[0]" False] by (simp add: prod_consumer_def)

end
