(* ===== verification/Joins.thy ===== *)
theory Joins
  imports Prelude
begin

text \<open>
  The two programs of chapter 30 that join whichever thread ends first, as step relations:
  \<open>join_any.c\<close>, with a mutex for the counter and one for every thread's entry, and
  \<open>thread_multijoin.c\<close>, with one mutex for both. A step is what a thread does between two calls of
  the thread library; \<open>pthread_join\<close> waits until the thread has returned. The entries of the
  array of threads are the list \<open>workers\<close>.
\<close>

section \<open>join_any\<close>

datatype ThreadState = UNJOINED | JOINED | ALIVE

datatype any_pc =
    A_Sleep | A_Lock | A_Count | A_Unlock | A_Lock_own | A_Mark | A_Unlock_own | A_Signal | A_End

datatype holder = By_main | By_thread

record ThreadInfo =
  ti_pc :: any_pc
  ti_state :: ThreadState
  ti_mtx :: "holder option"       \<comment> \<open>who holds the mutex of this entry\<close>

datatype any_main_pc =
    B_Create            \<comment> \<open>creating the threads\<close>
  | B_Lock
  | B_Test              \<comment> \<open>holds \<open>mtx\<close>, at \<open>while (total_unjoined == 0)\<close>\<close>
  | B_Waiting
  | B_Woken
  | B_Scan nat          \<comment> \<open>to lock the entry of this index\<close>
  | B_Entry nat         \<comment> \<open>has locked it\<close>
  | B_Join nat          \<comment> \<open>in \<open>pthread_join\<close>\<close>
  | B_Release nat       \<comment> \<open>to unlock it\<close>
  | B_Unlock
  | B_Check
  | B_Exit

datatype any_tid = Any_main | Any_worker nat

record any_state =
  workers :: "ThreadInfo list"
  amain :: any_main_pc
  amtx :: "any_tid option"
  total_unjoined :: int
  total_joined :: int

definition new_thread :: ThreadInfo where
  "new_thread = \<lparr>ti_pc = A_Sleep, ti_state = ALIVE, ti_mtx = None\<rparr>"

definition any_init :: "any_state \<Rightarrow> bool" where
  "any_init s \<longleftrightarrow> s = \<lparr>workers = [], amain = B_Create, amtx = None, total_unjoined = 0, total_joined = 0\<rparr>"

definition set_worker :: "any_state \<Rightarrow> nat \<Rightarrow> ThreadInfo \<Rightarrow> any_state" where
  "set_worker s i t = s\<lparr>workers := (workers s)[i := t]\<rparr>"

inductive worker_step :: "any_state \<Rightarrow> any_state \<Rightarrow> bool" where
  slept: "i < length (workers s) \<Longrightarrow> workers s ! i = w \<Longrightarrow> ti_pc w = A_Sleep \<Longrightarrow>
    worker_step s (set_worker s i (w\<lparr>ti_pc := A_Lock\<rparr>))"
| lock: "i < length (workers s) \<Longrightarrow> workers s ! i = w \<Longrightarrow> ti_pc w = A_Lock \<Longrightarrow> amtx s = None \<Longrightarrow>
    worker_step s (set_worker (s\<lparr>amtx := Some (Any_worker i)\<rparr>) i (w\<lparr>ti_pc := A_Count\<rparr>))"
| count: "i < length (workers s) \<Longrightarrow> workers s ! i = w \<Longrightarrow> ti_pc w = A_Count \<Longrightarrow>
    worker_step s (set_worker (s\<lparr>total_unjoined := total_unjoined s + 1\<rparr>) i (w\<lparr>ti_pc := A_Unlock\<rparr>))"
| unlock: "i < length (workers s) \<Longrightarrow> workers s ! i = w \<Longrightarrow> ti_pc w = A_Unlock \<Longrightarrow>
    worker_step s (set_worker (s\<lparr>amtx := None\<rparr>) i (w\<lparr>ti_pc := A_Lock_own\<rparr>))"
| lock_own: "i < length (workers s) \<Longrightarrow> workers s ! i = w \<Longrightarrow> ti_pc w = A_Lock_own \<Longrightarrow> ti_mtx w = None \<Longrightarrow>
    worker_step s (set_worker s i (w\<lparr>ti_pc := A_Mark, ti_mtx := Some By_thread\<rparr>))"
| mark: "i < length (workers s) \<Longrightarrow> workers s ! i = w \<Longrightarrow> ti_pc w = A_Mark \<Longrightarrow>
    worker_step s (set_worker s i (w\<lparr>ti_pc := A_Unlock_own, ti_state := UNJOINED\<rparr>))"
| unlock_own: "i < length (workers s) \<Longrightarrow> workers s ! i = w \<Longrightarrow> ti_pc w = A_Unlock_own \<Longrightarrow>
    worker_step s (set_worker s i (w\<lparr>ti_pc := A_Signal, ti_mtx := None\<rparr>))"
| signal: "i < length (workers s) \<Longrightarrow> workers s ! i = w \<Longrightarrow> ti_pc w = A_Signal \<Longrightarrow>
    worker_step s (set_worker (s\<lparr>amain := (if amain s = B_Waiting then B_Woken else amain s)\<rparr>) i
      (w\<lparr>ti_pc := A_End\<rparr>))"

inductive main_step :: "nat \<Rightarrow> any_state \<Rightarrow> any_state \<Rightarrow> bool" for total_threads :: nat where
  create: "amain s = B_Create \<Longrightarrow> length (workers s) < total_threads \<Longrightarrow>
    main_step total_threads s (s\<lparr>workers := workers s @ [new_thread]\<rparr>)"
| created: "amain s = B_Create \<Longrightarrow> length (workers s) = total_threads \<Longrightarrow>
    main_step total_threads s (s\<lparr>amain := B_Lock\<rparr>)"
| main_lock: "amain s = B_Lock \<Longrightarrow> amtx s = None \<Longrightarrow>
    main_step total_threads s (s\<lparr>amtx := Some Any_main, amain := B_Test\<rparr>)"
| main_wait: "amain s = B_Test \<Longrightarrow> total_unjoined s = 0 \<Longrightarrow>
    main_step total_threads s (s\<lparr>amtx := None, amain := B_Waiting\<rparr>)"
| main_relock: "amain s = B_Woken \<Longrightarrow> amtx s = None \<Longrightarrow>
    main_step total_threads s (s\<lparr>amtx := Some Any_main, amain := B_Test\<rparr>)"
| main_scan: "amain s = B_Test \<Longrightarrow> total_unjoined s \<noteq> 0 \<Longrightarrow> main_step total_threads s (s\<lparr>amain := B_Scan 0\<rparr>)"
| lock_entry: "amain s = B_Scan i \<Longrightarrow> i < total_threads \<Longrightarrow> i < length (workers s) \<Longrightarrow> workers s ! i = w \<Longrightarrow>
    ti_mtx w = None \<Longrightarrow>
    main_step total_threads s (set_worker (s\<lparr>amain := B_Entry i\<rparr>) i (w\<lparr>ti_mtx := Some By_main\<rparr>))"
| scanned: "amain s = B_Scan i \<Longrightarrow> \<not> i < total_threads \<Longrightarrow> main_step total_threads s (s\<lparr>amain := B_Unlock\<rparr>)"
| unjoined: "amain s = B_Entry i \<Longrightarrow> i < length (workers s) \<Longrightarrow> workers s ! i = w \<Longrightarrow> ti_state w = UNJOINED \<Longrightarrow>
    main_step total_threads s (s\<lparr>amain := B_Join i\<rparr>)"
| skip: "amain s = B_Entry i \<Longrightarrow> i < length (workers s) \<Longrightarrow> workers s ! i = w \<Longrightarrow> ti_state w \<noteq> UNJOINED \<Longrightarrow>
    main_step total_threads s (s\<lparr>amain := B_Release i\<rparr>)"
| join: "amain s = B_Join i \<Longrightarrow> i < length (workers s) \<Longrightarrow> workers s ! i = w \<Longrightarrow> ti_pc w = A_End \<Longrightarrow>
    main_step total_threads s (set_worker (s\<lparr>amain := B_Release i, total_unjoined := total_unjoined s - 1,
      total_joined := total_joined s + 1\<rparr>) i (w\<lparr>ti_state := JOINED\<rparr>))"
| release: "amain s = B_Release i \<Longrightarrow> i < length (workers s) \<Longrightarrow> workers s ! i = w \<Longrightarrow>
    main_step total_threads s (set_worker (s\<lparr>amain := B_Scan (Suc i)\<rparr>) i (w\<lparr>ti_mtx := None\<rparr>))"
| main_unlock: "amain s = B_Unlock \<Longrightarrow> main_step total_threads s (s\<lparr>amtx := None, amain := B_Check\<rparr>)"
| all_joined: "amain s = B_Check \<Longrightarrow> total_joined s = int total_threads \<Longrightarrow>
    main_step total_threads s (s\<lparr>amain := B_Exit\<rparr>)"
| go_on: "amain s = B_Check \<Longrightarrow> total_joined s \<noteq> int total_threads \<Longrightarrow>
    main_step total_threads s (s\<lparr>amain := B_Lock\<rparr>)"

definition any_step :: "nat \<Rightarrow> any_state \<Rightarrow> any_state \<Rightarrow> bool" where
  "any_step total_threads s t \<longleftrightarrow> amain s \<noteq> B_Exit \<and> (main_step total_threads s t \<or> worker_step s t)"

definition any_spurious :: "any_state \<Rightarrow> any_state \<Rightarrow> bool" where
  \<comment> \<open>\<open>pthread_cond_wait\<close> returns without a signal\<close>
  "any_spurious s t \<longleftrightarrow> amain s = B_Waiting \<and> t = s\<lparr>amain := B_Woken\<rparr>"

definition any_all :: "nat \<Rightarrow> any_state \<Rightarrow> any_state \<Rightarrow> bool" where
  "any_all total_threads s t \<longleftrightarrow> any_step total_threads s t \<or> any_spurious s t"

definition join_any :: "nat \<Rightarrow> any_state \<Rightarrow> bool" where
  "join_any total_threads = reach any_init (any_all total_threads)"

section \<open>Invariant of join_any\<close>

definition counted :: "ThreadInfo \<Rightarrow> int" where
  \<comment> \<open>has incremented \<open>total_unjoined\<close> and was not joined\<close>
  "counted w = (if ti_pc w \<in> {A_Sleep, A_Lock, A_Count} \<or> ti_state w = JOINED then 0 else 1)"

definition joined :: "ThreadInfo \<Rightarrow> int" where
  "joined w = (if ti_state w = JOINED then 1 else 0)"

definition entry_ok :: "ThreadInfo \<Rightarrow> bool" where
  "entry_ok w \<longleftrightarrow> (ti_mtx w = Some By_thread \<longleftrightarrow> ti_pc w \<in> {A_Mark, A_Unlock_own}) \<and>
     (ti_state w = ALIVE \<longleftrightarrow> ti_pc w \<in> {A_Sleep, A_Lock, A_Count, A_Unlock, A_Lock_own, A_Mark}) \<and>
     (ti_state w = JOINED \<longrightarrow> ti_pc w = A_End)"

definition to_signal :: "ThreadInfo \<Rightarrow> bool" where
  "to_signal w \<longleftrightarrow> ti_pc w \<in> {A_Unlock, A_Lock_own, A_Mark, A_Unlock_own, A_Signal}"

fun main_in :: "any_main_pc \<Rightarrow> bool" where
  \<comment> \<open>\<open>main\<close> holds \<open>mtx\<close>\<close>
  "main_in B_Test = True" | "main_in (B_Scan i) = True" | "main_in (B_Entry i) = True"
| "main_in (B_Join i) = True" | "main_in (B_Release i) = True" | "main_in B_Unlock = True"
| "main_in pc = False"

fun entry_of :: "any_main_pc \<Rightarrow> nat option" where
  \<comment> \<open>the entry whose mutex \<open>main\<close> holds\<close>
  "entry_of (B_Entry i) = Some i" | "entry_of (B_Join i) = Some i" | "entry_of (B_Release i) = Some i"
| "entry_of pc = None"

definition any_locks :: "any_state \<Rightarrow> bool" where
  "any_locks s \<longleftrightarrow> (amtx s = Some Any_main \<longleftrightarrow> main_in (amain s)) \<and>
     (\<forall>i < length (workers s). ti_pc (workers s ! i) \<in> {A_Count, A_Unlock} \<longleftrightarrow> amtx s = Some (Any_worker i)) \<and>
     (\<forall>i. amtx s = Some (Any_worker i) \<longrightarrow> i < length (workers s)) \<and>
     (\<forall>i < length (workers s). ti_mtx (workers s ! i) = Some By_main \<longleftrightarrow> entry_of (amain s) = Some i)"

definition any_counts :: "nat \<Rightarrow> any_state \<Rightarrow> bool" where
  "any_counts n s \<longleftrightarrow> list_all entry_ok (workers s) \<and>
     total_unjoined s = sum_list (map counted (workers s)) \<and> total_joined s = sum_list (map joined (workers s)) \<and>
     length (workers s) \<le> n \<and> (amain s \<noteq> B_Create \<longrightarrow> length (workers s) = n) \<and>
     (\<forall>i. entry_of (amain s) = Some i \<longrightarrow> i < length (workers s)) \<and>
     (\<forall>i. amain s = B_Join i \<longrightarrow> ti_state (workers s ! i) = UNJOINED)"

definition any_main_ok :: "nat \<Rightarrow> any_state \<Rightarrow> bool" where
  "any_main_ok n s \<longleftrightarrow>
     (amain s = B_Create \<longrightarrow> total_joined s = 0) \<and>
     (0 < n \<and> amain s \<in> {B_Lock, B_Test, B_Waiting, B_Woken} \<longrightarrow> total_joined s \<noteq> int n) \<and>
     (amain s = B_Exit \<longrightarrow> total_joined s = int n) \<and>
     (amain s = B_Waiting \<and> total_unjoined s \<noteq> 0 \<longrightarrow> list_ex to_signal (workers s))"

lemma set_worker_simps [simp]:
  "workers (set_worker s i t) = (workers s)[i := t]" "amain (set_worker s i t) = amain s"
  "amtx (set_worker s i t) = amtx s" "total_unjoined (set_worker s i t) = total_unjoined s"
  "total_joined (set_worker s i t) = total_joined s"
  by (simp_all add: set_worker_def)

lemma worker_locks: "worker_step s t \<Longrightarrow> list_all entry_ok (workers s) \<Longrightarrow> any_locks s \<Longrightarrow> any_locks t"
proof (induction rule: worker_step.induct)
  case (signal i s w)
  then show ?case by (auto simp: any_locks_def nth_list_update)
next
  case (unlock_own i s w)
  then have "ti_mtx w = Some By_thread" by (auto simp: list_all_iff entry_ok_def)
  with unlock_own show ?case by (auto simp: any_locks_def nth_list_update)
next
  case (unlock i s w)
  then have "amtx s = Some (Any_worker i)" by (auto simp: any_locks_def)
  with unlock show ?case by (auto simp: any_locks_def nth_list_update)
qed (auto simp: any_locks_def nth_list_update)

lemma main_locks:
  "main_step n s t \<Longrightarrow> (\<forall>i. entry_of (amain s) = Some i \<longrightarrow> i < length (workers s)) \<Longrightarrow> any_locks s \<Longrightarrow> any_locks t"
proof (induction rule: main_step.induct)
  case (create s)
  then show ?case by (auto simp: any_locks_def nth_append less_Suc_eq new_thread_def)
qed (auto simp: any_locks_def nth_list_update)

lemmas counts_simps = any_counts_def sum_map_update counted_def joined_def entry_ok_def nth_list_update

lemma entry_nth: "any_counts n s \<Longrightarrow> i < length (workers s) \<Longrightarrow> entry_ok (workers s ! i)"
  by (simp add: any_counts_def list_all_iff)

lemma worker_counts: "worker_step s t \<Longrightarrow> any_counts n s \<Longrightarrow> any_counts n t"
  by (induction rule: worker_step.induct; frule (1) entry_nth; auto simp: counts_simps intro!: list_all_update)

lemma main_counts: "main_step n s t \<Longrightarrow> any_locks s \<Longrightarrow> any_counts n s \<Longrightarrow> any_counts n t"
proof (induction rule: main_step.induct)
  case (lock_entry s i w)
  then show ?case by (frule_tac entry_nth[of n s i]) (auto simp: counts_simps intro!: list_all_update)
next
  case (join s i w)
  then show ?case by (frule_tac entry_nth[of n s i]) (auto simp: counts_simps intro!: list_all_update)
next
  case (release s i w)
  then have "ti_mtx w = Some By_main" by (auto simp: any_locks_def)
  with release show ?case by (frule_tac entry_nth[of n s i]) (auto simp: counts_simps intro!: list_all_update)
qed (auto simp: any_counts_def new_thread_def entry_ok_def counted_def joined_def)

lemma worker_main_ok: "worker_step s t \<Longrightarrow> any_main_ok n s \<Longrightarrow> any_main_ok n t"
  by (induction rule: worker_step.induct) (auto simp: any_main_ok_def to_signal_def list_ex_new list_ex_kept)

lemma main_main_ok: "main_step n s t \<Longrightarrow> any_main_ok n s \<Longrightarrow> any_main_ok n t"
  by (induction rule: main_step.induct) (auto simp: any_main_ok_def)

definition any_inv :: "nat \<Rightarrow> any_state \<Rightarrow> bool" where
  "any_inv n s \<longleftrightarrow> any_locks s \<and> any_counts n s \<and> any_main_ok n s"

lemma any_inv_init: "any_init s \<Longrightarrow> any_inv n s"
  by (simp add: any_init_def any_inv_def any_locks_def any_counts_def any_main_ok_def)

lemma any_inv_step: "any_inv n s \<Longrightarrow> any_all n s t \<Longrightarrow> any_inv n t"
  unfolding any_all_def any_step_def any_inv_def
proof (elim disjE conjE)
  assume "any_spurious s t" "any_locks s" "any_counts n s" "any_main_ok n s"
  then show "any_locks t \<and> any_counts n t \<and> any_main_ok n t"
    by (auto simp: any_spurious_def any_locks_def any_counts_def any_main_ok_def)
next
  assume a: "main_step n s t" "any_locks s" "any_counts n s" "any_main_ok n s"
  then have "\<forall>i. entry_of (amain s) = Some i \<longrightarrow> i < length (workers s)" by (simp add: any_counts_def)
  with a show "any_locks t \<and> any_counts n t \<and> any_main_ok n t"
    by (blast intro: main_locks main_counts main_main_ok)
next
  assume a: "worker_step s t" "any_locks s" "any_counts n s" "any_main_ok n s"
  then have "list_all entry_ok (workers s)" by (simp add: any_counts_def)
  with a show "any_locks t \<and> any_counts n t \<and> any_main_ok n t"
    by (blast intro: worker_locks worker_counts worker_main_ok)
qed

interpretation ja: invariant_system any_init "any_all n" "any_inv n" for n
  by unfold_locales (auto intro: any_inv_init any_inv_step)

lemma join_any_inv: "join_any n s \<Longrightarrow> any_inv n s"
  unfolding join_any_def by (rule ja.reach_inv)

section \<open>join_any joins every thread\<close>

lemma joined_le: "sum_list (map joined ws) \<le> int (length ws)"
  by (induction ws) (auto simp: joined_def)

lemma all_joined_iff: "sum_list (map joined ws) = int (length ws) \<longleftrightarrow> list_all (\<lambda>w. ti_state w = JOINED) ws"
proof (induction ws)
  case (Cons w ws)
  have "joined w = (if ti_state w = JOINED then 1 else 0)" by (simp add: joined_def)
  then show ?case using joined_le[of ws] Cons by auto
qed simp

lemma counted_zero: "sum_list (map counted ws) = 0 \<longleftrightarrow> list_all (\<lambda>w. counted w = 0) ws"
proof (induction ws)
  case (Cons w ws)
  have "0 \<le> counted w" for w by (simp add: counted_def)
  moreover from this have "0 \<le> sum_list (map counted ws)" by (induction ws) auto
  ultimately show ?case using Cons by (auto simp: add_nonneg_eq_0_iff)
qed simp

lemma worker_moves:
  assumes "i < length (workers s)" "ti_pc (workers s ! i) \<noteq> A_End"
    "ti_pc (workers s ! i) = A_Lock \<longrightarrow> amtx s = None" "ti_pc (workers s ! i) = A_Lock_own \<longrightarrow> ti_mtx (workers s ! i) = None"
  shows "\<exists>t. worker_step s t"
  using assms by (cases "ti_pc (workers s ! i)") (metis worker_step.intros)+

lemma own_mutex_free:
  assumes "any_inv n s" "entry_of (amain s) = None" "i < length (workers s)"
  shows "ti_mtx (workers s ! i) = None \<or> ti_pc (workers s ! i) \<in> {A_Mark, A_Unlock_own}"
proof (cases "ti_mtx (workers s ! i)")
  case (Some h)
  with assms have "h = By_thread" by (cases h) (auto simp: any_inv_def any_locks_def)
  with Some assms show ?thesis using entry_nth[of n s i] by (auto simp: any_inv_def entry_ok_def)
qed simp

lemma waiting_worker_moves:
  assumes inv: "any_inv n s" and n: "0 < n" and w: "amain s = B_Waiting" and free: "amtx s = None"
  shows "\<exists>t. worker_step s t"
proof (rule ccontr)
  assume no: "\<nexists>t. worker_step s t"
  have e: "ti_pc v = A_End" if "v \<in> set (workers s)" for v
  proof (rule ccontr)
    assume v: "ti_pc v \<noteq> A_End"
    from that obtain i where i: "i < length (workers s)" "workers s ! i = v" by (auto simp: in_set_conv_nth)
    with own_mutex_free[OF inv _ i(1)] w have "ti_pc v = A_Lock_own \<longrightarrow> ti_mtx v = None" by auto
    with worker_moves[OF i(1)] i(2) v free no show False by auto
  qed
  then have "\<not> list_ex to_signal (workers s)" by (auto simp: list_ex_iff to_signal_def)
  then have "sum_list (map counted (workers s)) = 0"
    using inv w by (auto simp: any_inv_def any_main_ok_def any_counts_def)
  then have "list_all (\<lambda>v. ti_state v = JOINED) (workers s)"
    unfolding counted_zero using e by (auto simp: list_all_iff counted_def split: if_splits)
  then have "total_joined s = int n"
    using inv w unfolding all_joined_iff[symmetric] by (auto simp: any_inv_def any_counts_def)
  with inv n w show False by (auto simp: any_inv_def any_main_ok_def)
qed

lemma main_in_moves:
  assumes inv: "any_inv n s" and m: "main_in (amain s)"
  shows "\<exists>t. main_step n s t \<or> worker_step s t"
proof (cases "amain s")
  case B_Test
  then show ?thesis by (metis main_step.main_wait main_step.main_scan)
next
  case (B_Scan i)
  show ?thesis
  proof (cases "i < n")
    case True
    with inv B_Scan have i: "i < length (workers s)" by (auto simp: any_inv_def any_counts_def)
    from own_mutex_free[OF inv _ i] B_Scan show ?thesis
      using main_step.lock_entry[OF B_Scan True i refl] worker_moves[OF i] by auto
  next
    case False
    with B_Scan show ?thesis by (metis main_step.scanned)
  qed
next
  case (B_Entry i)
  with inv have "i < length (workers s)" by (auto simp: any_inv_def any_counts_def)
  with B_Entry show ?thesis by (metis main_step.unjoined main_step.skip)
next
  case (B_Join i)
  with inv have i: "i < length (workers s)" "ti_mtx (workers s ! i) = Some By_main" "ti_state (workers s ! i) = UNJOINED"
    by (auto simp: any_inv_def any_counts_def any_locks_def)
  with inv have "ti_pc (workers s ! i) \<in> {A_Signal, A_End}"
    using entry_nth[of n s i] by (cases "ti_pc (workers s ! i)") (auto simp: any_inv_def entry_ok_def)
  with main_step.join[OF B_Join i(1) refl] worker_moves[OF i(1)] show ?thesis by auto
next
  case (B_Release i)
  with inv have "i < length (workers s)" by (auto simp: any_inv_def any_counts_def)
  with B_Release show ?thesis by (metis main_step.release)
next
  case B_Unlock
  then show ?thesis by (metis main_step.main_unlock)
qed (use m in auto)

lemma any_moves:
  assumes inv: "any_inv n s" and n: "0 < n" and ex: "amain s \<noteq> B_Exit"
  shows "\<exists>t. main_step n s t \<or> worker_step s t"
proof (cases "amtx s")
  case (Some h)
  show ?thesis
  proof (cases h)
    case Any_main
    with Some inv main_in_moves[OF inv] show ?thesis by (auto simp: any_inv_def any_locks_def)
  next
    case (Any_worker i)
    with Some inv have "i < length (workers s)" "ti_pc (workers s ! i) \<in> {A_Count, A_Unlock}"
      by (auto simp: any_inv_def any_locks_def)
    with worker_moves[of i s] show ?thesis by auto
  qed
next
  case None
  show ?thesis
  proof (cases "amain s")
    case B_Create
    with inv have "length (workers s) \<le> n" by (simp add: any_inv_def any_counts_def)
    with B_Create show ?thesis by (metis le_neq_implies_less main_step.create main_step.created)
  next
    case B_Waiting
    with waiting_worker_moves[OF inv n _ None] show ?thesis by blast
  next
    case B_Lock
    with None show ?thesis by (metis main_step.main_lock)
  next
    case B_Woken
    with None show ?thesis by (metis main_step.main_relock)
  next
    case B_Check
    then show ?thesis by (metis main_step.all_joined main_step.go_on)
  qed (use main_in_moves[OF inv] ex in auto)
qed

section \<open>A run of join_any\<close>

definition any_run :: "any_pc \<Rightarrow> ThreadState \<Rightarrow> holder option \<Rightarrow> any_main_pc \<Rightarrow> any_tid option \<Rightarrow> int \<Rightarrow> int \<Rightarrow> any_state" where
  "any_run p st own m mtx unj jnd = \<lparr>workers = [\<lparr>ti_pc = p, ti_state = st, ti_mtx = own\<rparr>], amain = m, amtx = mtx,
     total_unjoined = unj, total_joined = jnd\<rparr>"

lemma any_run_main: "join_any 1 s \<Longrightarrow> main_step 1 s t \<Longrightarrow> amain s \<noteq> B_Exit \<Longrightarrow> join_any 1 t"
  unfolding join_any_def by (erule reach_step) (simp add: any_all_def any_step_def)

lemma any_run_worker: "join_any 1 s \<Longrightarrow> worker_step s t \<Longrightarrow> amain s \<noteq> B_Exit \<Longrightarrow> join_any 1 t"
  unfolding join_any_def by (erule reach_step) (simp add: any_all_def any_step_def)

lemma any_run_start: "join_any 1 (any_run A_Sleep ALIVE None B_Create None 0 0)"
proof -
  let ?s = "\<lparr>workers = [], amain = B_Create, amtx = None, total_unjoined = 0, total_joined = 0\<rparr>"
  have "join_any 1 ?s" unfolding join_any_def by (rule reach_init) (simp add: any_init_def)
  from any_run_main[OF this main_step.create] show ?thesis by (simp add: any_run_def new_thread_def)
qed

lemma any_run_thread: "join_any 1 (any_run A_End UNJOINED None B_Lock None 1 0)"
proof -
  have 1: "join_any 1 (any_run A_Sleep ALIVE None B_Lock None 0 0)"
    using any_run_main[OF any_run_start main_step.created] by (simp add: any_run_def set_worker_def)
  have 2: "join_any 1 (any_run A_Lock ALIVE None B_Lock None 0 0)"
    using any_run_worker[OF 1 worker_step.slept[of 0]] by (simp add: any_run_def set_worker_def)
  have 3: "join_any 1 (any_run A_Count ALIVE None B_Lock (Some (Any_worker 0)) 0 0)"
    using any_run_worker[OF 2 worker_step.lock[of 0]] by (simp add: any_run_def set_worker_def)
  have 4: "join_any 1 (any_run A_Unlock ALIVE None B_Lock (Some (Any_worker 0)) 1 0)"
    using any_run_worker[OF 3 worker_step.count[of 0]] by (simp add: any_run_def set_worker_def)
  have 5: "join_any 1 (any_run A_Lock_own ALIVE None B_Lock None 1 0)"
    using any_run_worker[OF 4 worker_step.unlock[of 0]] by (simp add: any_run_def set_worker_def)
  have 6: "join_any 1 (any_run A_Mark ALIVE (Some By_thread) B_Lock None 1 0)"
    using any_run_worker[OF 5 worker_step.lock_own[of 0]] by (simp add: any_run_def set_worker_def)
  have 7: "join_any 1 (any_run A_Unlock_own UNJOINED (Some By_thread) B_Lock None 1 0)"
    using any_run_worker[OF 6 worker_step.mark[of 0]] by (simp add: any_run_def set_worker_def)
  have 8: "join_any 1 (any_run A_Signal UNJOINED None B_Lock None 1 0)"
    using any_run_worker[OF 7 worker_step.unlock_own[of 0]] by (simp add: any_run_def set_worker_def)
  show ?thesis
    using any_run_worker[OF 8 worker_step.signal[of 0]] by (simp add: any_run_def set_worker_def)
qed

lemma any_run_exit: "join_any 1 (any_run A_End JOINED None B_Exit None 0 1)"
proof -
  have 1: "join_any 1 (any_run A_End UNJOINED None B_Test (Some Any_main) 1 0)"
    using any_run_main[OF any_run_thread main_step.main_lock] by (simp add: any_run_def set_worker_def)
  have 2: "join_any 1 (any_run A_End UNJOINED None (B_Scan 0) (Some Any_main) 1 0)"
    using any_run_main[OF 1 main_step.main_scan] by (simp add: any_run_def set_worker_def)
  have 3: "join_any 1 (any_run A_End UNJOINED (Some By_main) (B_Entry 0) (Some Any_main) 1 0)"
    using any_run_main[OF 2 main_step.lock_entry[OF _ _ _ refl]] by (simp add: any_run_def set_worker_def)
  have 4: "join_any 1 (any_run A_End UNJOINED (Some By_main) (B_Join 0) (Some Any_main) 1 0)"
    using any_run_main[OF 3 main_step.unjoined] by (simp add: any_run_def set_worker_def)
  have 5: "join_any 1 (any_run A_End JOINED (Some By_main) (B_Release 0) (Some Any_main) 0 1)"
    using any_run_main[OF 4 main_step.join[OF _ _ refl]] by (simp add: any_run_def set_worker_def)
  have 6: "join_any 1 (any_run A_End JOINED None (B_Scan 1) (Some Any_main) 0 1)"
    using any_run_main[OF 5 main_step.release[OF _ _ refl]] by (simp add: any_run_def set_worker_def)
  have 7: "join_any 1 (any_run A_End JOINED None B_Unlock (Some Any_main) 0 1)"
    using any_run_main[OF 6 main_step.scanned] by (simp add: any_run_def set_worker_def)
  have 8: "join_any 1 (any_run A_End JOINED None B_Check None 0 1)"
    using any_run_main[OF 7 main_step.main_unlock] by (simp add: any_run_def set_worker_def)
  show ?thesis
    using any_run_main[OF 8 main_step.all_joined] by (simp add: any_run_def set_worker_def)
qed

section \<open>Properties of join_any\<close>

text \<open>\<open>main\<close> of \<open>join_any.c\<close> leaves only after it has joined every thread, each once, and the counter
  is back at zero, whatever the interleaving of the two kinds of mutex.\<close>

theorem join_any_joins_all:
  assumes "join_any n s" "amain s = B_Exit"
  shows "list_all (\<lambda>w. ti_state w = JOINED) (workers s) \<and> length (workers s) = n \<and> total_joined s = int n
    \<and> total_unjoined s = 0 \<and> amtx s \<noteq> Some Any_main"
proof -
  note inv = join_any_inv[OF assms(1)]
  then have c: "total_joined s = int n" "length (workers s) = n" "total_joined s = sum_list (map joined (workers s))"
    "total_unjoined s = sum_list (map counted (workers s))"
    using assms(2) by (auto simp: any_inv_def any_main_ok_def any_counts_def)
  then have j: "list_all (\<lambda>w. ti_state w = JOINED) (workers s)" by (simp add: all_joined_iff[symmetric])
  then have "list_all (\<lambda>w. counted w = 0) (workers s)" by (auto simp: list_all_iff counted_def)
  with c j show ?thesis using inv assms(2) by (auto simp: counted_zero any_inv_def any_locks_def)
qed

lemma join_any_joins_all_witness:
  "join_any 1 (any_run A_End JOINED None B_Exit None 0 1) \<and>
   total_unjoined (any_run A_End JOINED None B_Exit None 0 1) = 0"
  using join_any_joins_all[OF any_run_exit] any_run_exit by (simp add: any_run_def)

text \<open>C15: It cannot get stuck: with at least one thread, in every reachable state before \<open>main\<close> leaves
  some thread can take a step that is not a spurious wakeup, although \<open>main\<close> joins with both mutexes
  held.\<close>

theorem join_any_no_deadlock:
  assumes "join_any n s" "0 < n" "amain s \<noteq> B_Exit"
  shows "\<exists>t. any_step n s t"
  using any_moves[OF join_any_inv[OF assms(1)] assms(2,3)] assms(3) by (auto simp: any_step_def)

lemma join_any_no_deadlock_witness: "\<exists>t. any_step 1 (any_run A_End UNJOINED None B_Lock None 1 0) t"
  using join_any_no_deadlock[OF any_run_thread] by (simp add: any_run_def)

end
