(* ===== verification/Multijoin.thy ===== *)
theory Multijoin
  imports Prelude
begin

text \<open>
  \<open>30_Thread_Synchronhization/thread_multijoin.c\<close> as a step relation. One mutex protects the counter
  and the table of threads. The result of \<open>pthread_cond_wait\<close> is compared with \<open>s\<close> instead of
  being assigned to it: \<open>s\<close> is 0 from the lock before, so a wait that succeeds is taken for a failure
  and ends the process.
\<close>

datatype tstate = TS_ALIVE | TS_TERMINATED | TS_JOINED

datatype mj_pc = M_Sleep | M_Lock | M_Count | M_Mark | M_Unlock | M_Signal | M_End

record mj_thread =
  mj_pc :: mj_pc
  mj_state :: tstate

datatype mj_main =
    J_Create
  | J_Head              \<comment> \<open>\<open>while (numLive > 0)\<close>\<close>
  | J_Lock
  | J_Test              \<comment> \<open>holds the mutex, at \<open>while (numUnjoined == 0)\<close>\<close>
  | J_Waiting
  | J_Woken
  | J_Scan nat
  | J_Join nat          \<comment> \<open>in \<open>pthread_join\<close>\<close>
  | J_Unlock
  | J_Exit
  | J_Died              \<comment> \<open>by \<open>errExitEN\<close>\<close>

datatype mj_tid = Mj_main | Mj_thread nat

record mj =
  thread :: "mj_thread list"
  mmain :: mj_main
  threadMutex :: "mj_tid option"
  numLive :: int
  numUnjoined :: int

definition mj_init :: "mj \<Rightarrow> bool" where
  "mj_init s \<longleftrightarrow> s = \<lparr>thread = [], mmain = J_Create, threadMutex = None, numLive = 0, numUnjoined = 0\<rparr>"

definition set_thread :: "mj \<Rightarrow> nat \<Rightarrow> mj_thread \<Rightarrow> mj" where
  "set_thread s i t = s\<lparr>thread := (thread s)[i := t]\<rparr>"

lemma set_thread_simps [simp]:
  "thread (set_thread s i t) = (thread s)[i := t]" "mmain (set_thread s i t) = mmain s"
  "threadMutex (set_thread s i t) = threadMutex s" "numLive (set_thread s i t) = numLive s"
  "numUnjoined (set_thread s i t) = numUnjoined s"
  by (simp_all add: set_thread_def)

inductive mj_thread_step :: "mj \<Rightarrow> mj \<Rightarrow> bool" where
  slept: "i < length (thread s) \<Longrightarrow> thread s ! i = w \<Longrightarrow> mj_pc w = M_Sleep \<Longrightarrow>
    mj_thread_step s (set_thread s i (w\<lparr>mj_pc := M_Lock\<rparr>))"
| lock: "i < length (thread s) \<Longrightarrow> thread s ! i = w \<Longrightarrow> mj_pc w = M_Lock \<Longrightarrow> threadMutex s = None \<Longrightarrow>
    mj_thread_step s (set_thread (s\<lparr>threadMutex := Some (Mj_thread i)\<rparr>) i (w\<lparr>mj_pc := M_Count\<rparr>))"
| count: "i < length (thread s) \<Longrightarrow> thread s ! i = w \<Longrightarrow> mj_pc w = M_Count \<Longrightarrow>
    mj_thread_step s (set_thread (s\<lparr>numUnjoined := numUnjoined s + 1\<rparr>) i (w\<lparr>mj_pc := M_Mark\<rparr>))"
| mark: "i < length (thread s) \<Longrightarrow> thread s ! i = w \<Longrightarrow> mj_pc w = M_Mark \<Longrightarrow>
    mj_thread_step s (set_thread s i (w\<lparr>mj_pc := M_Unlock, mj_state := TS_TERMINATED\<rparr>))"
| unlock: "i < length (thread s) \<Longrightarrow> thread s ! i = w \<Longrightarrow> mj_pc w = M_Unlock \<Longrightarrow>
    mj_thread_step s (set_thread (s\<lparr>threadMutex := None\<rparr>) i (w\<lparr>mj_pc := M_Signal\<rparr>))"
| signal: "i < length (thread s) \<Longrightarrow> thread s ! i = w \<Longrightarrow> mj_pc w = M_Signal \<Longrightarrow>
    mj_thread_step s (set_thread (s\<lparr>mmain := (if mmain s = J_Waiting then J_Woken else mmain s)\<rparr>) i
      (w\<lparr>mj_pc := M_End\<rparr>))"

inductive mj_main_step :: "nat \<Rightarrow> mj \<Rightarrow> mj \<Rightarrow> bool" for totThreads :: nat where
  create: "mmain s = J_Create \<Longrightarrow> length (thread s) < totThreads \<Longrightarrow>
    mj_main_step totThreads s (s\<lparr>thread := thread s @ [\<lparr>mj_pc = M_Sleep, mj_state = TS_ALIVE\<rparr>]\<rparr>)"
| created: "mmain s = J_Create \<Longrightarrow> length (thread s) = totThreads \<Longrightarrow>
    mj_main_step totThreads s (s\<lparr>mmain := J_Head, numLive := int totThreads\<rparr>)"
| live: "mmain s = J_Head \<Longrightarrow> 0 < numLive s \<Longrightarrow> mj_main_step totThreads s (s\<lparr>mmain := J_Lock\<rparr>)"
| none_live: "mmain s = J_Head \<Longrightarrow> \<not> 0 < numLive s \<Longrightarrow> mj_main_step totThreads s (s\<lparr>mmain := J_Exit\<rparr>)"
| main_lock: "mmain s = J_Lock \<Longrightarrow> threadMutex s = None \<Longrightarrow>
    mj_main_step totThreads s (s\<lparr>threadMutex := Some Mj_main, mmain := J_Test\<rparr>)"
| main_wait: "mmain s = J_Test \<Longrightarrow> numUnjoined s = 0 \<Longrightarrow>
    mj_main_step totThreads s (s\<lparr>threadMutex := None, mmain := J_Waiting\<rparr>)"
| wait_returns: "mmain s = J_Woken \<Longrightarrow> threadMutex s = None \<Longrightarrow>
    mj_main_step totThreads s (s\<lparr>threadMutex := Some Mj_main, mmain := J_Died\<rparr>)"
| scan: "mmain s = J_Test \<Longrightarrow> numUnjoined s \<noteq> 0 \<Longrightarrow> mj_main_step totThreads s (s\<lparr>mmain := J_Scan 0\<rparr>)"
| terminated: "mmain s = J_Scan i \<Longrightarrow> i < totThreads \<Longrightarrow> i < length (thread s) \<Longrightarrow> thread s ! i = w \<Longrightarrow>
    mj_state w = TS_TERMINATED \<Longrightarrow> mj_main_step totThreads s (s\<lparr>mmain := J_Join i\<rparr>)"
| skip: "mmain s = J_Scan i \<Longrightarrow> i < totThreads \<Longrightarrow> i < length (thread s) \<Longrightarrow> thread s ! i = w \<Longrightarrow>
    mj_state w \<noteq> TS_TERMINATED \<Longrightarrow> mj_main_step totThreads s (s\<lparr>mmain := J_Scan (Suc i)\<rparr>)"
| join: "mmain s = J_Join i \<Longrightarrow> i < length (thread s) \<Longrightarrow> thread s ! i = w \<Longrightarrow> mj_pc w = M_End \<Longrightarrow>
    mj_main_step totThreads s (set_thread (s\<lparr>mmain := J_Scan (Suc i), numLive := numLive s - 1,
      numUnjoined := numUnjoined s - 1\<rparr>) i (w\<lparr>mj_state := TS_JOINED\<rparr>))"
| scanned: "mmain s = J_Scan i \<Longrightarrow> \<not> i < totThreads \<Longrightarrow> mj_main_step totThreads s (s\<lparr>mmain := J_Unlock\<rparr>)"
| main_unlock: "mmain s = J_Unlock \<Longrightarrow> mj_main_step totThreads s (s\<lparr>threadMutex := None, mmain := J_Head\<rparr>)"

definition mj_step :: "nat \<Rightarrow> mj \<Rightarrow> mj \<Rightarrow> bool" where
  "mj_step totThreads s t \<longleftrightarrow> mmain s \<noteq> J_Exit \<and> mmain s \<noteq> J_Died \<and>
     (mj_main_step totThreads s t \<or> mj_thread_step s t \<or> mmain s = J_Waiting \<and> t = s\<lparr>mmain := J_Woken\<rparr>)"

definition thread_multijoin :: "nat \<Rightarrow> mj \<Rightarrow> bool" where
  "thread_multijoin totThreads = reach mj_init (mj_step totThreads)"

section \<open>Invariant\<close>

definition mj_unjoined :: "mj_thread \<Rightarrow> int" where
  "mj_unjoined w = (if mj_pc w = M_Mark \<or> mj_state w = TS_TERMINATED then 1 else 0)"

definition mj_live :: "mj_thread \<Rightarrow> int" where
  "mj_live w = (if mj_state w = TS_JOINED then 0 else 1)"

definition mj_entry_ok :: "mj_thread \<Rightarrow> bool" where
  "mj_entry_ok w \<longleftrightarrow> (mj_state w = TS_ALIVE \<longleftrightarrow> mj_pc w \<in> {M_Sleep, M_Lock, M_Count, M_Mark}) \<and>
     (mj_state w = TS_JOINED \<longrightarrow> mj_pc w = M_End)"

fun mj_main_in :: "mj_main \<Rightarrow> bool" where
  "mj_main_in J_Test = True" | "mj_main_in (J_Scan i) = True" | "mj_main_in (J_Join i) = True"
| "mj_main_in J_Unlock = True" | "mj_main_in J_Died = True" | "mj_main_in m = False"

definition mj_locks :: "mj \<Rightarrow> bool" where
  "mj_locks s \<longleftrightarrow> (threadMutex s = Some Mj_main \<longleftrightarrow> mj_main_in (mmain s)) \<and>
     (\<forall>i < length (thread s). mj_pc (thread s ! i) \<in> {M_Count, M_Mark, M_Unlock} \<longleftrightarrow> threadMutex s = Some (Mj_thread i)) \<and>
     (\<forall>i. threadMutex s = Some (Mj_thread i) \<longrightarrow> i < length (thread s))"

definition mj_counts :: "nat \<Rightarrow> mj \<Rightarrow> bool" where
  "mj_counts n s \<longleftrightarrow> list_all mj_entry_ok (thread s) \<and>
     numUnjoined s = sum_list (map mj_unjoined (thread s)) \<and>
     (if mmain s = J_Create then length (thread s) \<le> n \<and> list_all (\<lambda>w. mj_state w \<noteq> TS_JOINED) (thread s)
      else length (thread s) = n \<and> numLive s = sum_list (map mj_live (thread s))) \<and>
     (\<forall>i. mmain s = J_Join i \<longrightarrow> i < length (thread s) \<and> mj_state (thread s ! i) = TS_TERMINATED) \<and>
     (mmain s = J_Exit \<longrightarrow> numLive s \<le> 0)"

lemma mj_thread_locks: "mj_thread_step s t \<Longrightarrow> mj_locks s \<Longrightarrow> mj_locks t"
proof (induction rule: mj_thread_step.induct)
  case (unlock i s w)
  then have "threadMutex s = Some (Mj_thread i)" by (auto simp: mj_locks_def)
  with unlock show ?case by (auto simp: mj_locks_def nth_list_update)
qed (auto simp: mj_locks_def nth_list_update)

lemma mj_main_locks: "mj_main_step n s t \<Longrightarrow> mj_locks s \<Longrightarrow> mj_locks t"
proof (induction rule: mj_main_step.induct)
  case (create s)
  then show ?case by (auto simp: mj_locks_def nth_append less_Suc_eq)
qed (auto simp: mj_locks_def nth_list_update)

lemmas mj_counts_simps = mj_counts_def sum_map_update mj_unjoined_def mj_live_def mj_entry_ok_def nth_list_update

lemma mj_entry_nth: "mj_counts n s \<Longrightarrow> i < length (thread s) \<Longrightarrow> mj_entry_ok (thread s ! i)"
  by (simp add: mj_counts_def list_all_iff)

lemma mj_thread_counts: "mj_thread_step s t \<Longrightarrow> mj_counts n s \<Longrightarrow> mj_counts n t"
  by (induction rule: mj_thread_step.induct; frule (1) mj_entry_nth;
      auto simp: mj_counts_simps intro!: list_all_update split: if_splits)

lemma none_joined: "list_all (\<lambda>w. mj_state w \<noteq> TS_JOINED) ws \<Longrightarrow> sum_list (map mj_live ws) = int (length ws)"
  by (induction ws) (auto simp: mj_live_def)

lemma mj_main_counts: "mj_main_step n s t \<Longrightarrow> mj_counts n s \<Longrightarrow> mj_counts n t"
proof (induction rule: mj_main_step.induct)
  case (join s i w)
  then show ?case by (frule_tac mj_entry_nth[of n s i]) (auto simp: mj_counts_simps intro!: list_all_update)
next
  case (created s)
  then show ?case by (auto simp: mj_counts_def none_joined)
qed (auto simp: mj_counts_def mj_entry_ok_def mj_unjoined_def)

definition mj_inv :: "nat \<Rightarrow> mj \<Rightarrow> bool" where
  "mj_inv n s \<longleftrightarrow> mj_locks s \<and> mj_counts n s"

lemma mj_inv_init: "mj_init s \<Longrightarrow> mj_inv n s"
  by (simp add: mj_init_def mj_inv_def mj_locks_def mj_counts_def)

lemma mj_inv_step: "mj_inv n s \<Longrightarrow> mj_step n s t \<Longrightarrow> mj_inv n t"
  unfolding mj_step_def mj_inv_def
  by (auto intro: mj_main_locks mj_main_counts mj_thread_locks mj_thread_counts)
    (auto simp: mj_locks_def mj_counts_def)

interpretation mj: invariant_system mj_init "mj_step n" "mj_inv n" for n
  by unfold_locales (auto intro: mj_inv_init mj_inv_step)

text \<open>Once \<open>main\<close> waits, it only goes on to its end.\<close>

definition doomed :: "mj \<Rightarrow> bool" where
  "doomed s \<longleftrightarrow> mmain s \<in> {J_Waiting, J_Woken, J_Died}"

lemma doomed_step: "doomed s \<Longrightarrow> mj_step n s t \<Longrightarrow> doomed t"
  unfolding mj_step_def
proof (elim conjE disjE)
  assume "doomed s" "mj_main_step n s t"
  then show "doomed t" by (auto simp: doomed_def elim: mj_main_step.cases)
next
  assume "doomed s" "mj_thread_step s t"
  then show "doomed t" by (auto simp: doomed_def elim!: mj_thread_step.cases)
qed (simp add: doomed_def)

interpretation mj_doom: invariant_system doomed "mj_step n" doomed for n
  by unfold_locales (auto intro: doomed_step)

section \<open>Runs\<close>

definition mj_run :: "mj_pc \<Rightarrow> tstate \<Rightarrow> mj_main \<Rightarrow> mj_tid option \<Rightarrow> int \<Rightarrow> int \<Rightarrow> mj" where
  "mj_run p st m mtx live unj = \<lparr>thread = [\<lparr>mj_pc = p, mj_state = st\<rparr>], mmain = m, threadMutex = mtx,
     numLive = live, numUnjoined = unj\<rparr>"

lemma mj_run_main: "thread_multijoin 1 s \<Longrightarrow> mj_main_step 1 s t \<Longrightarrow> mmain s \<noteq> J_Exit \<and> mmain s \<noteq> J_Died \<Longrightarrow> thread_multijoin 1 t"
  unfolding thread_multijoin_def by (erule reach_step) (simp add: mj_step_def)

lemma mj_run_thread: "thread_multijoin 1 s \<Longrightarrow> mj_thread_step s t \<Longrightarrow> mmain s \<noteq> J_Exit \<and> mmain s \<noteq> J_Died \<Longrightarrow> thread_multijoin 1 t"
  unfolding thread_multijoin_def by (erule reach_step) (simp add: mj_step_def)

lemma mj_run_start: "thread_multijoin 1 (mj_run M_Sleep TS_ALIVE J_Create None 0 0)"
proof -
  let ?s = "\<lparr>thread = [], mmain = J_Create, threadMutex = None, numLive = 0, numUnjoined = 0\<rparr>"
  have "thread_multijoin 1 ?s" unfolding thread_multijoin_def by (rule reach_init) (simp add: mj_init_def)
  from mj_run_main[OF this mj_main_step.create] show ?thesis by (simp add: mj_run_def)
qed

lemma mj_run_terminated: "thread_multijoin 1 (mj_run M_End TS_TERMINATED J_Lock None 1 1)"
proof -
  have 1: "thread_multijoin 1 (mj_run M_Sleep TS_ALIVE J_Head None 1 0)"
    using mj_run_main[OF mj_run_start mj_main_step.created] by (simp add: mj_run_def set_thread_def)
  have 2: "thread_multijoin 1 (mj_run M_Sleep TS_ALIVE J_Lock None 1 0)"
    using mj_run_main[OF 1 mj_main_step.live] by (simp add: mj_run_def set_thread_def)
  have 3: "thread_multijoin 1 (mj_run M_Lock TS_ALIVE J_Lock None 1 0)"
    using mj_run_thread[OF 2 mj_thread_step.slept[of 0]] by (simp add: mj_run_def set_thread_def)
  have 4: "thread_multijoin 1 (mj_run M_Count TS_ALIVE J_Lock (Some (Mj_thread 0)) 1 0)"
    using mj_run_thread[OF 3 mj_thread_step.lock[of 0]] by (simp add: mj_run_def set_thread_def)
  have 5: "thread_multijoin 1 (mj_run M_Mark TS_ALIVE J_Lock (Some (Mj_thread 0)) 1 1)"
    using mj_run_thread[OF 4 mj_thread_step.count[of 0]] by (simp add: mj_run_def set_thread_def)
  have 6: "thread_multijoin 1 (mj_run M_Unlock TS_TERMINATED J_Lock (Some (Mj_thread 0)) 1 1)"
    using mj_run_thread[OF 5 mj_thread_step.mark[of 0]] by (simp add: mj_run_def set_thread_def)
  have 7: "thread_multijoin 1 (mj_run M_Signal TS_TERMINATED J_Lock None 1 1)"
    using mj_run_thread[OF 6 mj_thread_step.unlock[of 0]] by (simp add: mj_run_def set_thread_def)
  show ?thesis
    using mj_run_thread[OF 7 mj_thread_step.signal[of 0]] by (simp add: mj_run_def set_thread_def)
qed

lemma mj_run_exit: "thread_multijoin 1 (mj_run M_End TS_JOINED J_Exit None 0 0)"
proof -
  have 1: "thread_multijoin 1 (mj_run M_End TS_TERMINATED J_Test (Some Mj_main) 1 1)"
    using mj_run_main[OF mj_run_terminated mj_main_step.main_lock] by (simp add: mj_run_def set_thread_def)
  have 2: "thread_multijoin 1 (mj_run M_End TS_TERMINATED (J_Scan 0) (Some Mj_main) 1 1)"
    using mj_run_main[OF 1 mj_main_step.scan] by (simp add: mj_run_def set_thread_def)
  have 3: "thread_multijoin 1 (mj_run M_End TS_TERMINATED (J_Join 0) (Some Mj_main) 1 1)"
    using mj_run_main[OF 2 mj_main_step.terminated] by (simp add: mj_run_def set_thread_def)
  have 4: "thread_multijoin 1 (mj_run M_End TS_JOINED (J_Scan 1) (Some Mj_main) 0 0)"
    using mj_run_main[OF 3 mj_main_step.join[OF _ _ refl]] by (simp add: mj_run_def set_thread_def)
  have 5: "thread_multijoin 1 (mj_run M_End TS_JOINED J_Unlock (Some Mj_main) 0 0)"
    using mj_run_main[OF 4 mj_main_step.scanned] by (simp add: mj_run_def set_thread_def)
  have 6: "thread_multijoin 1 (mj_run M_End TS_JOINED J_Head None 0 0)"
    using mj_run_main[OF 5 mj_main_step.main_unlock] by (simp add: mj_run_def set_thread_def)
  show ?thesis
    using mj_run_main[OF 6 mj_main_step.none_live] by (simp add: mj_run_def set_thread_def)
qed

lemma mj_run_waiting: "thread_multijoin 1 (mj_run M_Sleep TS_ALIVE J_Waiting None 1 0)"
proof -
  have 1: "thread_multijoin 1 (mj_run M_Sleep TS_ALIVE J_Head None 1 0)"
    using mj_run_main[OF mj_run_start mj_main_step.created] by (simp add: mj_run_def)
  have 2: "thread_multijoin 1 (mj_run M_Sleep TS_ALIVE J_Lock None 1 0)"
    using mj_run_main[OF 1 mj_main_step.live] by (simp add: mj_run_def)
  have 3: "thread_multijoin 1 (mj_run M_Sleep TS_ALIVE J_Test (Some Mj_main) 1 0)"
    using mj_run_main[OF 2 mj_main_step.main_lock] by (simp add: mj_run_def)
  show ?thesis using mj_run_main[OF 3 mj_main_step.main_wait] by (simp add: mj_run_def)
qed

section \<open>Properties\<close>

lemma mj_live_zero: "sum_list (map mj_live ws) \<le> 0 \<longleftrightarrow> list_all (\<lambda>w. mj_state w = TS_JOINED) ws"
proof (induction ws)
  case (Cons w ws)
  have "0 \<le> mj_live w" for w by (simp add: mj_live_def)
  then have "0 \<le> sum_list (map mj_live ws)" by (induction ws) auto
  moreover have "mj_live w = (if mj_state w = TS_JOINED then 0 else 1)" by (simp add: mj_live_def)
  ultimately show ?case using Cons by auto
qed simp

text \<open>C16: When \<open>main\<close> of \<open>thread_multijoin.c\<close> ends with success it has joined every thread, and
  \<open>numLive\<close> and \<open>numUnjoined\<close> are both back at zero.\<close>

theorem thread_multijoin_joins_all:
  assumes "thread_multijoin n s" "mmain s = J_Exit"
  shows "length (thread s) = n \<and> list_all (\<lambda>w. mj_state w = TS_JOINED) (thread s) \<and> numLive s = 0 \<and> numUnjoined s = 0"
proof -
  from assms(1) have inv: "mj_inv n s" unfolding thread_multijoin_def by (rule mj.reach_inv)
  then have c: "length (thread s) = n" "numLive s = sum_list (map mj_live (thread s))" "numLive s \<le> 0"
    "numUnjoined s = sum_list (map mj_unjoined (thread s))" "list_all mj_entry_ok (thread s)"
    using assms(2) by (auto simp: mj_inv_def mj_counts_def)
  then have j: "list_all (\<lambda>w. mj_state w = TS_JOINED) (thread s)" by (simp add: mj_live_zero[symmetric])
  have "sum_list (map mj_unjoined ws) = 0 \<and> sum_list (map mj_live ws) = 0"
    if "list_all (\<lambda>w. mj_state w = TS_JOINED) ws" "list_all mj_entry_ok ws" for ws
    using that by (induction ws) (auto simp: mj_unjoined_def mj_live_def mj_entry_ok_def)
  with c j show ?thesis by simp
qed

lemma thread_multijoin_joins_all_witness:
  "thread_multijoin 1 (mj_run M_End TS_JOINED J_Exit None 0 0) \<and> numLive (mj_run M_End TS_JOINED J_Exit None 0 0) = 0"
  using thread_multijoin_joins_all[OF mj_run_exit] mj_run_exit by (simp add: mj_run_def)

text \<open>It never gets there by waiting: from a state in which \<open>main\<close> waits on the condition variable,
  every run has \<open>main\<close> still waiting, or ended by \<open>errExitEN\<close> although the wait succeeded. (The
  condition of the \<open>if\<close> is \<open>s == pthread_cond_wait(...)\<close>.)\<close>

theorem thread_multijoin_wait_is_fatal:
  assumes "thread_multijoin n s" "mmain s = J_Waiting" "(mj_step n)\<^sup>*\<^sup>* s t"
  shows "mmain t \<in> {J_Waiting, J_Woken, J_Died}"
proof -
  have "doomed s" using assms(2) by (simp add: doomed_def)
  with mj_doom.run_inv[OF assms(3)] show ?thesis by (simp add: doomed_def)
qed

lemma thread_multijoin_wait_is_fatal_witness:
  "mmain (mj_run M_Sleep TS_ALIVE J_Waiting None 1 0) \<in> {J_Waiting, J_Woken, J_Died}"
  using thread_multijoin_wait_is_fatal[OF mj_run_waiting _ rtranclp.rtrancl_refl] by (simp add: mj_run_def)

end
