(* ===== verification/Environ.thy ===== *)
theory Environ
  imports ErrorFunctions
begin

text \<open>
  \<open>06_Processes/setenv_unsetenv_imp.c\<close>, \<open>27_Program_Execution/imp_execlp.c\<close> and
  \<open>07_Memory_Allocation/malloc_free_imp.c\<close>. The environment is the list of its \<open>name=value\<close>
  strings; \<open>environ\<close> ends with a null pointer, which the list leaves out.
\<close>

section \<open>Entries\<close>

definition EQ :: char where "EQ = CHR ''=''"

definition entry_name :: "string \<Rightarrow> string" where
  "entry_name e = takeWhile (\<lambda>c. c \<noteq> EQ) e"

definition env_entry :: "string \<Rightarrow> string \<Rightarrow> string" where
  "env_entry name value = name @ EQ # value"

definition getenv_of :: "string list \<Rightarrow> string \<Rightarrow> string option" where
  \<comment> \<open>\<open>getenv(3)\<close>: the value of the first entry with this name\<close>
  "getenv_of env name = (case filter (\<lambda>e. EQ \<in> set e \<and> entry_name e = name) env of
      [] \<Rightarrow> None | e # es \<Rightarrow> Some (drop (Suc (length name)) e))"

definition putenv_of :: "string list \<Rightarrow> string \<Rightarrow> string list" where
  \<comment> \<open>\<open>putenv(3)\<close>: the entry replaces the one with its name, or is added\<close>
  "putenv_of env e = (if entry_name e \<in> set (map entry_name env)
     then map (\<lambda>x. if entry_name x = entry_name e then e else x) env else env @ [e])"

section \<open>setenv\<close>

definition strcpy_at :: "nat \<Rightarrow> string \<Rightarrow> nat \<Rightarrow> string \<Rightarrow> string c" where
  \<comment> \<open>\<open>strcpy(buf + off, s)\<close> into a block of \<open>n\<close> bytes; \<open>buf\<close> is what precedes \<open>off\<close>\<close>
  "strcpy_at n buf off s =
     (if off + length s + 1 \<le> n then Inr (take off buf @ s) else Inl Buffer_overflow)"

definition setenv_clone :: "string list \<Rightarrow> string \<Rightarrow> string \<Rightarrow> int \<Rightarrow> cstate \<Rightarrow> (string list \<times> cstate) c" where
  "setenv_clone env name value overwrite st =
     (if getenv_of env name \<noteq> None \<and> overwrite = 0 then Inr (env, st)
      else
        let nameLength = length name; valueLength = length value; n = nameLength + valueLength + 1;
            (ok, st') = malloc_ok st in
        if \<not> ok then Inl Null_deref
        else bindC (strcpy_at n [] 0 name) (\<lambda>buf.
          bindC (strcpy_at n buf nameLength [EQ]) (\<lambda>buf.
          bindC (strcpy_at n buf (nameLength + 1) value) (\<lambda>buf. Inr (putenv_of env buf, st')))))"

section \<open>unsetenv\<close>

definition UNSETENV_BUF :: nat where "UNSETENV_BUF = 100"

definition entry_matches :: "string \<Rightarrow> string \<Rightarrow> bool c" where
  \<comment> \<open>the loop that copies an entry up to its \<open>=\<close> into \<open>buf\<close>, and \<open>strcmp(buf, name) == 0\<close>; without a
    \<open>=\<close> there is no null byte in \<open>buf\<close>, which \<open>strcmp\<close> misses if it gets that far\<close>
  "entry_matches e name = (let n = length (entry_name e) in
     if UNSETENV_BUF < (if EQ \<in> set e then Suc n else n) then Inl Buffer_overflow
     else if EQ \<in> set e then Inr (entry_name e = name)
     else if take n name = e then Inl Uninitialised
     else Inr False)"

fun find_entry :: "string list \<Rightarrow> string \<Rightarrow> nat option c" where
  \<comment> \<open>\<open>index\<close> of the first entry with this name; \<open>None\<close> leaves \<open>itExists\<close> at 0\<close>
  "find_entry [] name = Inr None"
| "find_entry (e # es) name =
     bindC (entry_matches e name) (\<lambda>eq.
       if eq then Inr (Some 0) else bindC (find_entry es name) (\<lambda>i. Inr (map_option Suc i)))"

fun close_gap :: "string list \<Rightarrow> string list" where
  \<comment> \<open>the second loop, from \<open>environ + index\<close>: every entry takes the place of the one before\<close>
  "close_gap [] = []"
| "close_gap [x] = []"
| "close_gap (x # y # zs) = y # close_gap (y # zs)"

lemma close_gap_tl [simp]: "close_gap es = tl es"
  by (induction es rule: close_gap.induct) auto

lemma find_entry_less: "find_entry env name = Inr (Some i) \<Longrightarrow> i < length env"
  by (induction env arbitrary: i) (auto simp: bindC_eq_Inr split: if_splits)

function unsetenv_clone :: "string list \<Rightarrow> string \<Rightarrow> string list c" where
  "unsetenv_clone env name = (case find_entry env name of
      Inl e \<Rightarrow> Inl e
    | Inr None \<Rightarrow> Inr env
    | Inr (Some index) \<Rightarrow> unsetenv_clone (take index env @ close_gap (drop index env)) name)"
  by pat_completeness auto
termination
  by (relation "measure (\<lambda>(env, name). length env)") (auto dest!: find_entry_less simp: min_def)

declare unsetenv_clone.simps [simp del]

definition env_ok :: "string list \<Rightarrow> bool" where
  \<comment> \<open>the entries the buffer of \<open>unsetenv_clone\<close> is made for\<close>
  "env_ok env \<longleftrightarrow> list_all (\<lambda>e. EQ \<in> set e \<and> length (entry_name e) < UNSETENV_BUF) env"

lemma entry_matches_ok:
  "EQ \<in> set e \<Longrightarrow> length (entry_name e) < UNSETENV_BUF \<Longrightarrow> entry_matches e name = Inr (entry_name e = name)"
  by (simp add: entry_matches_def)

lemma find_entry_ok:
  "env_ok env \<Longrightarrow> find_entry env name = Inr (if name \<in> set (map entry_name env)
     then Some (length (takeWhile (\<lambda>e. entry_name e \<noteq> name) env)) else None)"
  by (induction env) (auto simp: env_ok_def entry_matches_ok)

lemma remove_first:
  "name \<in> set (map entry_name env) \<Longrightarrow>
    let i = length (takeWhile (\<lambda>e. entry_name e \<noteq> name) env); env' = take i env @ tl (drop i env) in
      filter (\<lambda>e. entry_name e \<noteq> name) env' = filter (\<lambda>e. entry_name e \<noteq> name) env \<and>
      length env' < length env \<and> set env' \<subseteq> set env"
  by (induction env) (auto simp: Let_def)

text \<open>C17: For entries with a \<open>=\<close> and names that fit the buffer, \<open>unsetenv_clone\<close> terminates with every
  entry of the name removed, duplicates included, and the others in their order.\<close>

theorem unsetenv_clone_removes_all:
  assumes "env_ok env"
  shows "unsetenv_clone env name = Inr (filter (\<lambda>e. entry_name e \<noteq> name) env)"
  using assms
proof (induction "length env" arbitrary: env rule: less_induct)
  case less
  let ?i = "length (takeWhile (\<lambda>e. entry_name e \<noteq> name) env)"
  let ?env = "take ?i env @ tl (drop ?i env)"
  show ?case
  proof (cases "name \<in> set (map entry_name env)")
    case True
    have r: "filter (\<lambda>e. entry_name e \<noteq> name) ?env = filter (\<lambda>e. entry_name e \<noteq> name) env"
      "length ?env < length env" "set ?env \<subseteq> set env"
      using remove_first[OF True] unfolding Let_def by blast+
    then have "env_ok ?env" using less.prems by (auto simp: env_ok_def list_all_iff)
    from less.hyps[OF r(2) this] r(1)
    have "unsetenv_clone ?env name = Inr (filter (\<lambda>e. entry_name e \<noteq> name) env)" by simp
    moreover have "unsetenv_clone env name = unsetenv_clone ?env name"
      unfolding unsetenv_clone.simps[of env] find_entry_ok[OF less.prems] using True by simp
    ultimately show ?thesis by simp
  next
    case False
    then have "filter (\<lambda>e. entry_name e \<noteq> name) env = env" by (auto simp: filter_id_conv)
    with find_entry_ok[OF less.prems] False show ?thesis by (simp add: unsetenv_clone.simps[of env])
  qed
qed

lemma unsetenv_clone_removes_all_witness:
  "unsetenv_clone [''a=1'', ''b=2'', ''a=3''] ''a'' = Inr [''b=2'']"
  using unsetenv_clone_removes_all[of "[''a=1'', ''b=2'', ''a=3'']" "''a''"]
  by (simp add: env_ok_def entry_name_def EQ_def UNSETENV_BUF_def)

text \<open>\<open>setenv_clone\<close> never stores a variable: unless it leaves an existing one alone, the block is
  one byte too small for \<open>name=value\<close> and the last copy writes past its end (or through the null
  pointer of a failed allocation).\<close>

theorem setenv_clone_never_sets:
  "setenv_clone env name value overwrite st =
     (if getenv_of env name \<noteq> None \<and> overwrite = 0 then Inr (env, st)
      else if fst (malloc_ok st) then Inl Buffer_overflow else Inl Null_deref)"
  by (auto simp: setenv_clone_def strcpy_at_def Let_def split: prod.splits)

section \<open>execlp\<close>


definition strtok_colon :: "string \<Rightarrow> string list" where
  \<comment> \<open>the tokens \<open>strtok(path, ":")\<close> delivers: empty ones are skipped\<close>
  "strtok_colon s = filter (\<lambda>t. t \<noteq> [])
     (foldr (\<lambda>c ts. if c = CHR '':'' then [] # ts else (c # hd ts) # tl ts) s [[]])"

record arg_list =
  al_elems :: "string option list"
  al_capacity :: nat
  al_moved :: bool      \<comment> \<open>a \<open>realloc\<close> has moved the block since \<open>first\<close> was taken\<close>

definition al_push :: "arg_list \<Rightarrow> string option \<Rightarrow> (arg_list option \<Rightarrow> 'a prog) \<Rightarrow> 'a prog" where
  \<comment> \<open>\<open>da_push\<close> of a pointer; \<open>realloc\<close> is answered with whether the block has moved\<close>
  "al_push al x k =
     (if al_capacity al \<le> length (al_elems al) then
        let cap = (if al_capacity al = 0 then 1 else al_capacity al * 2) in
        lib ''realloc'' [int (8 * cap)] (\<lambda>r.
          if is_null_reply r then k None
          else k (Some (al\<lparr>al_elems := al_elems al @ [x], al_capacity := cap,
                           al_moved := (al_moved al \<or> rv r = 1)\<rparr>)))
      else k (Some (al\<lparr>al_elems := al_elems al @ [x]\<rparr>)))"

fun push_args :: "string option list \<Rightarrow> arg_list \<Rightarrow> arg_list option prog" where
  "push_args [] al = ret (Some al)"
| "push_args (x # xs) al = al_push al x (\<lambda>r. case r of None \<Rightarrow> ret None | Some al' \<Rightarrow> push_args xs al')"

fun try_path :: "string list \<Rightarrow> string \<Rightarrow> arg_list \<Rightarrow> int prog" where
  "try_path [] file al = ret (-1)"
| "try_path (token # tokens) file al =
     lib ''malloc'' [int (length token + length file + 2)] (\<lambda>r.
       if is_null_reply r then ret (-1)
       else if al_moved al then stop (Fault Use_after_free)
       else call (Proc (Execve (token @ CHR ''/'' # file) (map the (butlast (al_elems al))))) (\<lambda>e.
         if rv e = -1 then try_path tokens file al else stop (Exited 0)))"

definition default_path :: string where "default_path = ''.:/usr/bin:/bin''"

definition search_path :: "string \<Rightarrow> arg_list \<Rightarrow> int prog" where
  "search_path file al = get getenv (\<lambda>env.
     let path_env = (case env ''PATH'' of None \<Rightarrow> default_path | Some p \<Rightarrow> p) in
     lib ''malloc'' [int (length path_env + 1)] (\<lambda>r.
       if is_null_reply r then ret (-1) else try_path (strtok_colon path_env) file al))"

definition imp_execlp :: "string \<Rightarrow> string \<Rightarrow> string list \<Rightarrow> int prog" where
  \<comment> \<open>a successful \<open>execve\<close> ends the program: \<open>Exited 0\<close>\<close>
  "imp_execlp file arg args =
     (if PATH_MAX < length arg + 1 then stop (Fault Buffer_overflow)
      else al_push \<lparr>al_elems = [], al_capacity = 0, al_moved = False\<rparr> (Some arg) (\<lambda>first.
        case first of None \<Rightarrow> stop (Fault Null_deref)
        | Some al \<Rightarrow>
            seq (push_args (map Some args @ [None]) (al\<lparr>al_moved := False\<rparr>)) (\<lambda>pushed.
              case pushed of None \<Rightarrow> ret (-1) | Some al' \<Rightarrow> search_path file al')))"

section \<open>What execlp executes\<close>

definition execs :: "(syscall \<times> reply) list \<Rightarrow> (string \<times> string list) list" where
  "execs t = concat (map (\<lambda>e. case fst e of Proc (Execve p args) \<Rightarrow> [(p, args)] | _ \<Rightarrow> []) t)"

lemma execs_simps [simp]:
  "execs [] = []" "execs (t @ u) = execs t @ execs u" "execs ((Lib f xs, r) # t) = execs t"
  "execs ((Proc (Execve p args), r) # t) = (p, args) # execs t"
  by (simp_all add: execs_def)

definition tried :: "string list \<Rightarrow> string \<Rightarrow> string list \<Rightarrow> world \<Rightarrow> world \<Rightarrow> bool" where
  \<comment> \<open>some of the first directories were tried, in order, with these arguments\<close>
  "tried tokens file argv w w' \<longleftrightarrow> (\<exists>t n. trace w' = trace w @ t \<and>
     execs t = map (\<lambda>token. (token @ CHR ''/'' # file, argv)) (take n tokens))"

definition no_execs :: "world \<Rightarrow> world \<Rightarrow> bool" where
  "no_execs w w' \<longleftrightarrow> (\<exists>t. trace w' = trace w @ t \<and> execs t = []) \<and> getenv w' = getenv w"

lemma tried_none: "no_execs w w' \<Longrightarrow> tried tokens file argv w w'"
  unfolding no_execs_def tried_def by (metis list.simps(8) take0)

lemma tried_after: "no_execs w w1 \<Longrightarrow> tried tokens file argv w1 w' \<Longrightarrow> tried tokens file argv w w'"
  unfolding no_execs_def tried_def by fastforce

lemma no_execs_refl [simp]: "no_execs w w"
  by (simp add: no_execs_def)

lemma tried_first:
  assumes "no_execs w w1" "trace w2 = trace w1 @ [(Proc (Execve (token @ CHR ''/'' # file) argv), r)]"
    "tried tokens file argv w2 w'"
  shows "tried (token # tokens) file argv w w'"
proof -
  from assms(1) obtain t1 where t1: "trace w1 = trace w @ t1" "execs t1 = []" by (auto simp: no_execs_def)
  from assms(3) obtain t n where t: "trace w' = trace w2 @ t"
    "execs t = map (\<lambda>token. (token @ CHR ''/'' # file, argv)) (take n tokens)" by (auto simp: tried_def)
  let ?t = "t1 @ (Proc (Execve (token @ CHR ''/'' # file) argv), r) # t"
  have "trace w' = trace w @ ?t" "execs ?t = map (\<lambda>token. (token @ CHR ''/'' # file, argv)) (take (Suc n) (token # tokens))"
    using t1 t assms(2) by simp_all
  then show ?thesis unfolding tried_def by blast
qed

lemma tried_one:
  assumes "no_execs w w1" "trace w2 = trace w1 @ [(Proc (Execve (token @ CHR ''/'' # file) argv), r)]"
  shows "tried (token # tokens) file argv w w2"
  by (rule tried_first[OF assms]) (auto simp: tried_none)

lemma try_path_tries:
  "map the (butlast (al_elems al)) = argv \<Longrightarrow> wp (try_path tokens file al) (\<lambda>r w'. tried tokens file argv w w') w"
proof (induction tokens arbitrary: w)
  case Nil
  show ?case by (simp add: exec_simps tried_none)
next
  case (Cons token tokens)
  note IH = Cons.IH[OF Cons.prems]
  have one: "tried (token # tokens) file argv w w2"
    if "trace w2 = trace w @ [(Lib f xs, r), (Proc (Execve (token @ CHR ''/'' # file) argv), r')]" for w2 f xs r r'
    unfolding tried_def using that
    by (intro exI[of _ "[(Lib f xs, r), (Proc (Execve (token @ CHR ''/'' # file) argv), r')]"] exI[of _ 1]) simp
  have more: "wp (try_path tokens file al) (\<lambda>r w'. tried (token # tokens) file argv w w') w2"
    if "trace w2 = trace w @ [(Lib f xs, r), (Proc (Execve (token @ CHR ''/'' # file) argv), r')]" for w2 f xs r r'
  proof (rule wp_mono[OF IH])
    fix q w'
    assume "tried tokens file argv w2 w'"
    then show "tried (token # tokens) file argv w w'"
      using that tried_first[where w = w and ?w1.0 = "w\<lparr>trace := trace w @ [(Lib f xs, r)]\<rparr>" and ?w2.0 = w2 and r = r']
      by (auto simp: no_execs_def)
  qed
  have none: "tried (token # tokens) file argv w w2" if "trace w2 = trace w @ [(Lib f xs, r)]" for w2 f xs r
    unfolding tried_def using that by (intro exI[of _ "[(Lib f xs, r)]"] exI[of _ 0]) simp
  show ?case
    unfolding try_path.simps by (auto simp: exec_simps Cons.prems tried_none intro!: more intro: one none)
qed

definition pushed :: "string option list \<Rightarrow> world \<Rightarrow> arg_list option result \<Rightarrow> world \<Rightarrow> bool" where
  "pushed elems w r w' \<longleftrightarrow> no_execs w w' \<and> (case r of
     Return al \<Rightarrow> (case al of None \<Rightarrow> True | Some al' \<Rightarrow> al_elems al' = elems) | Blocked \<Rightarrow> True | _ \<Rightarrow> False)"

lemma no_execs_call [simp]:
  "no_execs w (w\<lparr>script := rs, trace := trace w @ [(Lib f xs, r)], errno := e\<rparr>)"
  by (auto simp: no_execs_def)

lemma no_execs_trans: "no_execs w w1 \<Longrightarrow> no_execs w1 w2 \<Longrightarrow> no_execs w w2"
  by (fastforce simp: no_execs_def)

lemma pushed_simps [simp]:
  "pushed elems w (Return None) w' = no_execs w w'" "pushed elems w Blocked w' = no_execs w w'"
  "pushed elems w (Return (Some al)) w' \<longleftrightarrow> no_execs w w' \<and> al_elems al = elems"
  by (auto simp: pushed_def)

lemma push_args_pushes: "wp (push_args xs al) (pushed (al_elems al @ xs) w) w"
proof (induction xs arbitrary: al w)
  case Nil
  show ?case by (simp add: exec_simps)
next
  case (Cons x xs)
  have step: "wp (push_args xs al') (pushed (al_elems al @ x # xs) w) w1"
    if "no_execs w w1" "al_elems al' = al_elems al @ [x]" for al' w1
    by (rule wp_mono[OF Cons.IH]) (use that in \<open>auto simp: pushed_def intro: no_execs_trans\<close>)
  show ?case by (auto simp: al_push_def exec_simps Let_def intro!: step)
qed

text \<open>\<open>imp_execlp\<close> hands \<open>execve\<close> the directories of \<open>PATH\<close> (or of the default) in their order, each
  with the file appended and with exactly the arguments it was given, until one succeeds or memory
  runs out; but once a \<open>realloc\<close> has moved the argument list it passes on the stale pointer.\<close>

theorem imp_execlp_tries_path:
  "case imp_execlp file arg args w of (r, w') \<Rightarrow>
     tried (strtok_colon (case getenv w ''PATH'' of None \<Rightarrow> default_path | Some p \<Rightarrow> p)) file (arg # args) w w'"
proof -
  let ?tokens = "strtok_colon (case getenv w ''PATH'' of None \<Rightarrow> default_path | Some p \<Rightarrow> p)"
  have attempt: "wp (try_path ?tokens file al) (\<lambda>r w'. tried ?tokens file (arg # args) w w') w1"
    if "no_execs w w1" "al_elems al = Some arg # map Some args @ [None]" for al w1
  proof (rule wp_mono[OF try_path_tries[of al "arg # args"]])
    show "map the (butlast (al_elems al)) = arg # args" using that by (simp add: butlast_append comp_def)
  qed (use that in \<open>auto intro: tried_after\<close>)
  have found: "wp (search_path file al) (\<lambda>r w'. tried ?tokens file (arg # args) w w') w1"
    if "no_execs w w1" "al_elems al = Some arg # map Some args @ [None]" for al w1
  proof -
    have g: "getenv w1 = getenv w" using that(1) by (simp add: no_execs_def)
    have "no_execs w (w1\<lparr>script := rs, trace := trace w1 @ [(Lib f xs, r)], errno := e\<rparr>)" for rs f xs r e
      using no_execs_trans[OF that(1) no_execs_call] by blast
    then show ?thesis
      using that by (auto simp: search_path_def exec_simps Let_def g intro!: attempt tried_none)
  qed
  have rest: "wp (push_args (map Some args @ [None]) al)
      (lift (\<lambda>x. wp (case x of None \<Rightarrow> ret (-1) | Some al' \<Rightarrow> search_path file al') (\<lambda>r. tried ?tokens file (arg # args) w))
        (\<lambda>r. tried ?tokens file (arg # args) w)) w1"
    if "no_execs w w1" "al_elems al = [Some arg]" for al w1
  proof (rule wp_mono[OF push_args_pushes], goal_cases)
    case (1 r w2)
    show ?case
    proof (cases r)
      case (Return x)
      then show ?thesis
        using 1 that no_execs_trans[OF that(1), of w2]
        by (cases x) (auto simp: wp_ret intro!: found tried_none)
    qed (use 1 no_execs_trans[OF that(1), of w2] in \<open>auto simp: pushed_def intro!: tried_none\<close>)
  qed
  have "wp (imp_execlp file arg args) (\<lambda>r w'. tried ?tokens file (arg # args) w w') w"
    unfolding imp_execlp_def al_push_def
    by (auto simp: exec_simps Let_def tried_none intro!: rest)
  then show ?thesis by (simp add: wp_def)
qed

section \<open>malloc\<close>

text \<open>The heap: the program break, the static counter and the bytes written. An \<open>int32_t\<close> is little-endian.\<close>

record heap =
  brk :: int
  blocks_allocated :: int
  heap_bytes :: "int \<Rightarrow> int option"

definition put_int32 :: "int \<Rightarrow> int \<Rightarrow> (int \<Rightarrow> int option) \<Rightarrow> int \<Rightarrow> int option" where
  "put_int32 a v m = m(a \<mapsto> v mod 256, a + 1 \<mapsto> v div 256 mod 256, a + 2 \<mapsto> v div 65536 mod 256,
     a + 3 \<mapsto> v div 16777216 mod 256)"

definition malloc_clone :: "bool \<Rightarrow> int \<Rightarrow> heap \<Rightarrow> (int \<times> heap) option" where
  \<comment> \<open>\<open>ok\<close>: whether \<open>sbrk\<close> can move the break; \<open>None\<close>: the program ends with a diagnostic\<close>
  "malloc_clone ok n h =
     (let block = (if ok then brk h else -1); h1 = (if ok then h\<lparr>brk := brk h + n\<rparr> else h) in
      if to_int32 block = -1 then None
      else
        let count = to_int32 (blocks_allocated h1 + 1);
            bytes = put_int32 (block + 4) (to_int32 (brk h1 - block)) (put_int32 block count (heap_bytes h1))
        in Some (block + 8, h1\<lparr>blocks_allocated := count, heap_bytes := bytes\<rparr>))"

text \<open>\<open>malloc_clone\<close> asks for no room for its header: the area it returns ends eight bytes past the
  break, so that the header of the next block lies in the last eight bytes of the area before it.\<close>

theorem malloc_clone_overlaps:
  assumes "malloc_clone True n h = Some (p, h1)" "malloc_clone True m h1 = Some (q, h2)"
  shows "p + n = brk h1 + 8 \<and> {q - 8..<q} = {p + n - 8..<p + n}"
  using assms by (auto simp: malloc_clone_def Let_def split: if_splits)

lemma malloc_clone_overlaps_witness:
  "\<exists>h1 h2. malloc_clone True 20 \<lparr>brk = 1000, blocks_allocated = 0, heap_bytes = Map.empty\<rparr> = Some (1008, h1)
     \<and> malloc_clone True 20 h1 = Some (1028, h2) \<and> {1020..<1028} = {1008 + 20 - 8..<1008 + (20 :: int)}"
proof -
  let ?h = "\<lparr>brk = 1000, blocks_allocated = 0, heap_bytes = Map.empty\<rparr>"
  have t: "to_int32 1000 \<noteq> -1" "to_int32 1020 \<noteq> -1"
    using to_int32_id[of 1000] to_int32_id[of 1020] by (simp_all add: int_limits)
  obtain h1 where 1: "malloc_clone True 20 ?h = Some (1008, h1)" "brk h1 = 1020"
    using t by (simp add: malloc_clone_def Let_def)
  obtain h2 where 2: "malloc_clone True 20 h1 = Some (1028, h2)"
    using t 1(2) by (simp add: malloc_clone_def Let_def)
  from malloc_clone_overlaps[OF 1(1) 2] 1 2 show ?thesis by auto
qed

end
