(* ===== verification/Effects.thy ===== *)
theory Effects
  imports GetNum
begin

text \<open>
  An effect system for programs. \<open>does A P p\<close>: whatever the kernel answers, \<open>p\<close> makes only calls that
  satisfy \<open>A\<close>, does nothing undefined, and what it returns satisfies \<open>P\<close>. The rules follow the shape of
  the programs, as typing rules do, so that a property of a whole program is derived by \<open>intro\<close> from
  the places where the calls are made.
\<close>

named_theorems does_intros "the calls a program makes"

definition made :: "(syscall \<Rightarrow> bool) \<Rightarrow> world \<Rightarrow> world \<Rightarrow> bool" where
  "made A w w' \<longleftrightarrow> (\<exists>t. trace w' = trace w @ t \<and> list_all (\<lambda>e. A (fst e)) t)"

definition did :: "(syscall \<Rightarrow> bool) \<Rightarrow> ('a \<Rightarrow> bool) \<Rightarrow> world \<Rightarrow> 'a result \<Rightarrow> world \<Rightarrow> bool" where
  "did A P w r w' \<longleftrightarrow> made A w w' \<and> r \<notin> range Fault \<and> (\<forall>x. r = Return x \<longrightarrow> P x)"

definition does :: "(syscall \<Rightarrow> bool) \<Rightarrow> ('a \<Rightarrow> bool) \<Rightarrow> 'a prog \<Rightarrow> bool" where
  "does A P p \<longleftrightarrow> (\<forall>w. wp p (did A P w) w)"

lemma made_refl: "trace w' = trace w \<Longrightarrow> made A w w'"
  by (simp add: made_def)

lemma made_trans: "made A w w1 \<Longrightarrow> made A w1 w' \<Longrightarrow> made A w w'"
  unfolding made_def by (elim exE conjE) (rule_tac x = "t @ ta" in exI, simp)

lemma made_call: "A c \<Longrightarrow> trace w' = trace w @ [(c, r)] \<Longrightarrow> made A w w'"
  by (simp add: made_def)

lemma did_from: "made A w w1 \<Longrightarrow> did A P w1 r w' \<Longrightarrow> did A P w r w'"
  by (auto simp: did_def intro: made_trans)

lemma did_simps [simp]:
  "did A P w (Return x) w' \<longleftrightarrow> made A w w' \<and> P x" "did A P w Blocked w' = made A w w'"
  "did A P w (Exited n) w' = made A w w'" "did A P w (UExited n) w' = made A w w'"
  "did A P w Aborted w' = made A w w'" "did A P w No_fuel w' = made A w w'" "\<not> did A P w (Fault f) w'"
  by (auto simp: did_def)

lemma does_from: "does A P p \<Longrightarrow> made A w w1 \<Longrightarrow> wp p (did A P w) w1"
  unfolding does_def by (blast intro: wp_mono did_from)

lemma doesD: "does A P p \<Longrightarrow> wp p (did A P w) w"
  by (simp add: does_def)

section \<open>Rules\<close>

lemma does_ret [does_intros]: "P x \<Longrightarrow> does A P (ret x)"
  by (simp add: does_def exec_simps made_refl)

lemma does_again [does_intros]: "P (Inl s) \<Longrightarrow> does A P (again s)"
  by (simp add: does_def exec_simps made_refl)

lemma does_leave [does_intros]: "P (Inr a) \<Longrightarrow> does A P (leave a)"
  by (simp add: does_def exec_simps made_refl)

lemma does_exit [does_intros]: "does A P (exit_prog n)" "does A P (uexit_prog n)"
  by (simp_all add: does_def exec_simps made_refl)

lemma does_stop [does_intros]: "does A P (stop (Exited n))" "does A P (stop Aborted)" "does A P (stop Blocked)"
  by (simp_all add: does_def exec_simps made_refl)

lemma does_end: "(\<And>Q w. wp p Q w = Q r (g w)) \<Longrightarrow> (\<And>w. trace (g w) = trace w) \<Longrightarrow>
    r = Aborted \<or> r = Exited n \<or> r = UExited m \<Longrightarrow> does A P p"
  by (auto simp: does_def made_refl)

lemma does_diagnostics [does_intros]:
  "does A P (errExit msg)" "does A P (err_exit msg)" "does A P (errExitEN e msg)" "does A P (fatal msg)"
  "does A P (usageErr msg)" "does A P (cmdLineErr msg)"
  by (simp_all add: does_def exec_simps end_of_def made_refl)

lemma does_prefix:
  assumes "does A P k" "\<And>Q w. wp p Q w = wp k Q (g w)" "\<And>w. trace (g w) = trace w"
  shows "does A P p"
  unfolding does_def assms(2) by (intro allI does_from[OF assms(1)] made_refl assms(3))

lemma does_printf [does_intros]: "does A P k \<Longrightarrow> does A P (printf s k)"
  by (erule does_prefix) (rule wp_printf, simp)

lemma does_stderr [does_intros]: "does A P k \<Longrightarrow> does A P (fprintf_stderr s k)"
  by (erule does_prefix) (rule wp_stderr, simp)

lemma does_fflush [does_intros]: "does A P k \<Longrightarrow> does A P (fflush_stdout k)"
  by (erule does_prefix) (rule wp_fflush, simp)

lemma does_set_errno [does_intros]: "does A P k \<Longrightarrow> does A P (set_errno e k)"
  by (erule does_prefix) (rule wp_set_errno, simp)

lemma does_errMsg [does_intros]: "does A P k \<Longrightarrow> does A P (errMsg msg k)"
  by (erule does_prefix) (rule wp_errMsg, simp)

lemma does_get [does_intros]: "(\<And>x. does A P (k x)) \<Longrightarrow> does A P (get f k)"
  by (simp add: does_def exec_simps)

lemma does_event [does_intros]: "A c \<Longrightarrow> does A P k \<Longrightarrow> does A P (event c k)"
  unfolding does_def[of A P "event c k"] wp_event by (intro allI does_from made_call[of A c]) simp_all

lemma does_call [does_intros]: "A c \<Longrightarrow> (\<And>r. does A P (k r)) \<Longrightarrow> does A P (call c k)"
  unfolding does_def[of A P "call c k"] wp_call
  by (intro allI conjI impI does_from made_call[of A c]) (simp_all add: made_refl)

lemma does_lib [does_intros]: "A (Lib f as) \<Longrightarrow> (\<And>r. does A P (k r)) \<Longrightarrow> does A P (lib f as k)"
  unfolding lib_def by (rule does_call)

lemma does_or_die [does_intros]:
  "A c \<Longrightarrow> (\<And>r. rv r \<noteq> -1 \<Longrightarrow> does A P (k r)) \<Longrightarrow> does A P (or_die c msg k)"
  "A c \<Longrightarrow> (\<And>r. \<not> is_null_reply r \<Longrightarrow> does A P (k r)) \<Longrightarrow> does A P (or_die_null c msg k)"
  unfolding or_die_def or_die_null_def by (rule does_call; simp add: does_diagnostics)+

lemma does_seq [does_intros]:
  assumes "does A Q p" "\<And>x. Q x \<Longrightarrow> does A P (k x)"
  shows "does A P (seq p k)"
  unfolding does_def wp_seq
proof
  fix w :: world
  show "wp p (lift (\<lambda>x. wp (k x) (did A P w)) (did A P w)) w"
  proof (rule wp_mono[OF doesD[OF assms(1)]])
    fix r w'
    assume "did A Q w r w'"
    then show "lift (\<lambda>x. wp (k x) (did A P w)) (did A P w) r w'"
      by (cases r) (auto intro: does_from[OF assms(2)])
  qed
qed

lemma does_iter:
  assumes "\<And>s. I s \<Longrightarrow> does A (\<lambda>x. case x of Inl s' \<Rightarrow> I s' | Inr a \<Rightarrow> P a) (body s)"
  shows "I s \<Longrightarrow> does A P (iter n body s)"
proof (induction n arbitrary: s)
  case 0
  show ?case by (simp add: does_def exec_simps made_refl)
next
  case (Suc n)
  show ?case
    unfolding iter.simps
    by (rule does_seq[OF assms[OF Suc.prems]]) (auto intro: Suc.IH does_ret split: sum.splits)
qed

lemma does_loop:
  assumes "I s" "\<And>s. I s \<Longrightarrow> does A (\<lambda>x. case x of Inl s' \<Rightarrow> I s' | Inr a \<Rightarrow> P a) (body s)"
  shows "does A P (loop body s)"
proof -
  have "does A P (iter n body s)" for n
    by (rule does_iter[where I = I]) (use assms in blast)+
  then show ?thesis by (simp add: does_def loop_def wp_def del: iter.simps)
qed

lemma does_each [does_intros]:
  "P () \<Longrightarrow> (\<And>x. x \<in> set xs \<Longrightarrow> does A (\<lambda>_. True) (body x)) \<Longrightarrow> does A P (each body xs)"
  by (induction xs) (auto intro!: does_ret does_seq)

lemma does_mono:
  assumes "does A P p" "\<And>c. A c \<Longrightarrow> B c" "\<And>x. P x \<Longrightarrow> Q x"
  shows "does B Q p"
  unfolding does_def
proof
  fix w :: world
  have "made B w w'" if "made A w w'" for w'
    using that assms(2) unfolding made_def by (auto intro: list.pred_mono_strong)
  then show "wp p (did B Q w) w"
    by (intro wp_mono[OF doesD[OF assms(1)]]) (auto simp: did_def assms(3))
qed

section \<open>Branches\<close>

lemma does_if [does_intros]:
  "(b \<Longrightarrow> does A P p) \<Longrightarrow> (\<not> b \<Longrightarrow> does A P q) \<Longrightarrow> does A P (if b then p else q)"
  by simp

lemma does_if_fun [does_intros]:
  "does A P (if b then f k else g k) \<Longrightarrow> does A P ((if b then f else g) k)"
  by (simp split: if_splits)

lemma does_let [does_intros]: "does A P (f x) \<Longrightarrow> does A P (Let x f)"
  by simp

lemma does_option [does_intros]:
  "(m = None \<Longrightarrow> does A P p) \<Longrightarrow> (\<And>x. m = Some x \<Longrightarrow> does A P (q x)) \<Longrightarrow>
    does A P (case m of None \<Rightarrow> p | Some x \<Rightarrow> q x)"
  by (simp split: option.splits)

lemma does_prod [does_intros]: "(\<And>x y. z = (x, y) \<Longrightarrow> does A P (k x y)) \<Longrightarrow> does A P (case z of (x, y) \<Rightarrow> k x y)"
  by (simp split: prod.splits)

lemma does_list [does_intros]:
  "(m = [] \<Longrightarrow> does A P p) \<Longrightarrow> (\<And>x xs. m = x # xs \<Longrightarrow> does A P (q x xs)) \<Longrightarrow>
    does A P (case m of [] \<Rightarrow> p | x # xs \<Rightarrow> q x xs)"
  by (simp split: list.splits)

lemma does_reply [does_intros]:
  "(\<And>x. does A P (a x)) \<Longrightarrow> (\<And>x. does A P (b x)) \<Longrightarrow> (\<And>x. does A P (c x)) \<Longrightarrow> (\<And>x. does A P (d x)) \<Longrightarrow>
    (\<And>x. does A P (e x)) \<Longrightarrow> (\<And>x. does A P (f x)) \<Longrightarrow> does A P g \<Longrightarrow> does A P (case_reply a b c d e f g r)"
  by (cases r) simp_all

section \<open>The conversions of numbers\<close>

lemma does_gnFail [does_intros]: "does A P (gnFail fname msg arg name)"
  unfolding does_def by (rule allI, rule wp_gnFail_any) (simp add: made_refl)

lemma does_getInt: "does A (\<lambda>v. INT_MIN \<le> v \<and> v \<le> INT_MAX \<and> gn_value flags arg = Some v) (getInt arg flags name)"
  unfolding does_def by (rule allI, rule wp_getInt) (simp_all add: made_refl)

lemma does_utils_getNum:
  "does A (\<lambda>v. v = to_int32 (fst (strtol s 10))) (utils_getNum s msg)"
  unfolding utils_getNum_def by (auto intro!: does_intros)

end
