(* ===== verification/Idioms.thy ===== *)
theory Idioms
  imports Effects
begin

text \<open>
  What several programs share: the macro \<open>NO_EINTR\<close>, which makes a call again while it is
  interrupted, handlers installed with \<open>atexit\<close>, and the bytes of the \<open>int\<close> members of a structure
  that is sent through a pipe, a queue or a socket.
\<close>

section \<open>NO\_EINTR\<close>

definition eintr_body :: "syscall \<Rightarrow> unit \<Rightarrow> (unit + reply) prog" where
  "eintr_body c u = call c (\<lambda>r. get errno (\<lambda>e. if rv r = -1 \<and> e = EINTR then again () else leave r))"

definition NO_EINTR :: "syscall \<Rightarrow> (reply \<Rightarrow> 'a prog) \<Rightarrow> 'a prog" where
  \<comment> \<open>\<open>while ((stmt) == -1 && errno == EINTR);\<close>\<close>
  "NO_EINTR c k = seq (loop (eintr_body c) ()) k"

definition repeats :: "syscall \<Rightarrow> world \<Rightarrow> world \<Rightarrow> bool" where
  \<comment> \<open>nothing but this call was made, any number of times, and it created no descriptor\<close>
  "repeats c w w' \<longleftrightarrow> (\<exists>es. trace w' = trace w @ map (Pair c) es \<and> list_all (\<lambda>e. rv e = -1) es)
     \<and> length (script w') \<le> length (script w) \<and> obuf w' = obuf w \<and> out w' = out w \<and> eout w' = eout w
     \<and> getenv w' = getenv w"

lemma repeats_refl [simp]: "repeats c w w"
  by (auto simp: repeats_def intro: exI[of _ "[]"])

lemma repeats_once:
  assumes "repeats c w w1" "script w1 = r # rs" "rv r = -1"
  shows "repeats c w (w1\<lparr>script := rs, trace := trace w1 @ [(c, r)], errno := e\<rparr>)"
proof -
  from assms(1) obtain es where "trace w1 = trace w @ map (Pair c) es" "list_all (\<lambda>e. rv e = -1) es"
    by (auto simp: repeats_def)
  then have "trace w1 @ [(c, r)] = trace w @ map (Pair c) (es @ [r])" "list_all (\<lambda>e. rv e = -1) (es @ [r])"
    using assms(3) by simp_all
  then have "\<exists>es. trace w1 @ [(c, r)] = trace w @ map (Pair c) es \<and> list_all (\<lambda>e. rv e = -1) es" by blast
  then show ?thesis
    using assms(1,2) by (simp add: repeats_def)
qed

definition answered :: "syscall \<Rightarrow> reply \<Rightarrow> world \<Rightarrow> world \<Rightarrow> bool" where
  \<comment> \<open>the call was made until the reply \<open>r\<close>, which is not an interruption\<close>
  "answered c r w w' \<longleftrightarrow> (\<exists>w1 rs. repeats c w w1 \<and> script w1 = r # rs \<and> \<not> (rv r = -1 \<and> errno w' = EINTR) \<and>
     w' = w1\<lparr>script := rs, trace := trace w1 @ [(c, r)], errno := reply_errno r (errno w1)\<rparr>)"

lemma wp_NO_EINTR:
  assumes "\<And>w'. repeats c w w' \<Longrightarrow> Q Blocked w'"
    and "\<And>r w'. answered c r w w' \<Longrightarrow> wp (k r) Q w'"
  shows "wp (NO_EINTR c k) Q w"
  unfolding NO_EINTR_def wp_seq
proof (rule loop_rule[where I = "\<lambda>_. repeats c w"], goal_cases)
  case (2 s w1)
  show ?case
    unfolding eintr_body_def wp_call
  proof (intro conjI allI impI, goal_cases)
    case 1
    with 2 assms(1) show ?case by simp
  next
    case (2 r rs)
    note more = repeats_once[OF \<open>repeats c w w1\<close> this]
    have last: "wp (k r) Q (w1\<lparr>script := rs, trace := trace w1 @ [(c, r)], errno := reply_errno r (errno w1)\<rparr>)"
      if "\<not> (rv r = -1 \<and> reply_errno r (errno w1) = EINTR)"
      by (rule assms(2)) (use that 2 \<open>repeats c w w1\<close> in \<open>auto simp: answered_def\<close>)
    show ?case
      unfolding wp_get using 2 more last by (auto simp: exec_simps)
  qed
qed simp

lemma answered_trace:
  assumes "answered c r w w'"
  obtains es where "trace w' = trace w @ map (Pair c) es @ [(c, r)]" "list_all (\<lambda>e. rv e = -1) es"
  using assms by (auto simp: answered_def repeats_def)

lemma answered_simps:
  "answered c r w w' \<Longrightarrow> obuf w' = obuf w" "answered c r w w' \<Longrightarrow> out w' = out w"
  "answered c r w w' \<Longrightarrow> eout w' = eout w" "answered c r w w' \<Longrightarrow> getenv w' = getenv w"
  "answered c r w w' \<Longrightarrow> length (script w') < length (script w)"
  by (auto simp: answered_def repeats_def)

lemma rounds_eintr [fuel_intros]: "rounds (eintr_body c u)"
  unfolding eintr_body_def by (intro fuel_intros)

lemma shrinks_NO_EINTR [fuel_intros]: "(\<And>r. shrinks (k r)) \<Longrightarrow> shrinks (NO_EINTR c k)"
  unfolding NO_EINTR_def by (intro fuel_intros)

lemma does_NO_EINTR [does_intros]:
  assumes "A c" "\<And>r. does A P (k r)"
  shows "does A P (NO_EINTR c k)"
  unfolding NO_EINTR_def
  by (rule does_seq[where Q = "\<lambda>_. True"], rule does_loop[where I = "\<lambda>_. True"])
    (auto simp: eintr_body_def intro!: does_intros assms)

section \<open>atexit\<close>

definition at_exit :: "unit prog \<Rightarrow> 'a prog \<Rightarrow> 'a prog" where
  \<comment> \<open>the program that goes on after \<open>atexit(handler)\<close> has succeeded\<close>
  "at_exit handler p w = (case p w of
      (Exited n, w') \<Rightarrow> seq handler (\<lambda>u. exit_prog n) w'
    | r \<Rightarrow> r)"

lemma wp_at_exit [exec_simps]:
  "wp (at_exit handler p) Q w = wp p (\<lambda>r w'. case r of
      Exited n \<Rightarrow> wp (seq handler (\<lambda>u. exit_prog n)) Q w' | _ \<Rightarrow> Q r w') w"
  by (auto simp: wp_def at_exit_def split: prod.splits result.splits)

lemma shrinks_at_exit [fuel_intros]:
  assumes "shrinks handler" "shrinks p"
  shows "shrinks (at_exit handler p)"
  unfolding shrinks_def wp_at_exit
proof
  fix w :: world
  have sh: "shrinks (seq handler (\<lambda>u. exit_prog n))" for n
    using assms(1) by (intro fuel_intros)
  have h: "wp (seq handler (\<lambda>u. exit_prog n)) (\<lambda>r w'. r \<noteq> No_fuel \<and> length (script w') \<le> length (script w)) w1"
    if "length (script w1) \<le> length (script w)" for n w1
  proof -
    from sh[of n, unfolded shrinks_def, rule_format, of w1]
    show ?thesis by (rule wp_mono) (use that in auto)
  qed
  show "wp p (\<lambda>r w'. case r of
      Exited n \<Rightarrow> wp (seq handler (\<lambda>u. exit_prog n)) (\<lambda>r w'. r \<noteq> No_fuel \<and> length (script w') \<le> length (script w)) w'
    | _ \<Rightarrow> r \<noteq> No_fuel \<and> length (script w') \<le> length (script w)) w"
    by (rule wp_mono[OF assms(2)[unfolded shrinks_def, rule_format]]) (auto simp: h split: result.splits)
qed

lemma does_at_exit [does_intros]:
  assumes "does A (\<lambda>_. True) handler" "does A P p"
  shows "does A P (at_exit handler p)"
  unfolding does_def wp_at_exit
proof
  fix w :: world
  have h: "does A P (seq handler (\<lambda>u. exit_prog n))" for n
    by (rule does_seq[OF assms(1)]) (rule does_exit)
  show "wp p (\<lambda>r w'. case r of Exited n \<Rightarrow> wp (seq handler (\<lambda>u. exit_prog n)) (did A P w) w' | _ \<Rightarrow> did A P w r w') w"
  proof (rule wp_mono[OF doesD[OF assms(2)]])
    fix r w'
    assume "did A P w r w'"
    then show "case r of Exited n \<Rightarrow> wp (seq handler (\<lambda>u. exit_prog n)) (did A P w) w' | _ \<Rightarrow> did A P w r w'"
      by (cases r) (auto intro: does_from[OF h] simp del: wp_seq)
  qed
qed

definition bytes_read :: "nat \<Rightarrow> reply \<Rightarrow> string" where
  \<comment> \<open>a read delivers at most as many bytes as it was asked for\<close>
  "bytes_read n r = take n (bytes r)"

definition store_bytes :: "nat \<Rightarrow> reply \<Rightarrow> string \<Rightarrow> string" where
  \<comment> \<open>a message overwrites the start of the object it is received into\<close>
  "store_bytes n r old = bytes_read n r @ drop (length (bytes_read n r)) old"

definition string_at :: "string \<Rightarrow> nat \<Rightarrow> string c" where
  \<comment> \<open>the C string at an offset of the message: a member without a null byte runs on into the next\<close>
  "string_at msg i = (if NUL \<in> set (drop i msg) then Inr (c_str (drop i msg)) else Inl Out_of_bounds)"

section \<open>Computations that may fault inside programs\<close>

definition checked :: "'x c \<Rightarrow> ('x \<Rightarrow> 'a prog) \<Rightarrow> 'a prog" where
  "checked m k = (case m of Inl f \<Rightarrow> stop (Fault f) | Inr x \<Rightarrow> k x)"

lemma wp_checked: "wp (checked m k) Q w = (case m of Inl f \<Rightarrow> Q (Fault f) w | Inr x \<Rightarrow> wp (k x) Q w)"
  by (simp add: checked_def exec_simps split: sum.splits)

lemma ends_checked [fuel_intros]:
  "(\<And>x. shrinks (k x)) \<Longrightarrow> shrinks (checked m k)" "(\<And>x. rounds (k' x)) \<Longrightarrow> rounds (checked m k')"
  unfolding checked_def by (auto intro!: fuel_intros split: sum.splits)

section \<open>The bytes of an int\<close>

definition le32 :: "int \<Rightarrow> string" where
  \<comment> \<open>an \<open>int\<close> in memory, least significant byte first\<close>
  "le32 v = map (\<lambda>k. char_of (nat (v div 256 ^ k mod 256))) [0, 1, 2, 3]"

definition int32_at :: "string \<Rightarrow> nat \<Rightarrow> int" where
  \<comment> \<open>the \<open>int\<close> at this offset\<close>
  "int32_at s i = to_int32 (\<Sum>k\<leftarrow>[0, 1, 2, 3]. int (of_char (s ! (i + k))) * 256 ^ k)"

lemma le32_length [simp]: "length (le32 v) = 4"
  by (simp add: le32_def)

lemma to_int32_mod: "to_int32 (v mod 4294967296) = to_int32 v"
  by (simp add: to_int32_def signed_take_bit_eq_iff_take_bit_eq take_bit_eq_mod)

lemma bytes_of_int: "v mod 4294967296 = v mod 256 + v div 256 mod 256 * 256 + v div 65536 mod 256 * 65536
    + v div 16777216 mod 256 * (16777216 :: int)"
proof -
  have d: "v div 65536 = v div 256 div 256" "v div 16777216 = v div 256 div 256 div 256"
    "v div 4294967296 = v div 256 div 256 div 256 div 256"
    by (simp_all flip: zdiv_zmult2_eq)
  show ?thesis
    unfolding minus_mult_div_eq_mod[symmetric] d by simp
qed

lemma of_char_of_byte: "0 \<le> v \<Longrightarrow> v < 256 \<Longrightarrow> int (of_char (char_of (nat v) :: char)) = v"
  by simp

lemma int32_at_le32 [simp]: "int32_at (le32 v @ rest) 0 = to_int32 v"
proof -
  have b: "int (of_char (char_of (nat (v div d mod 256)) :: char)) = v div d mod 256" for d
    by (rule of_char_of_byte) simp_all
  have "int32_at (le32 v @ rest) 0 = to_int32 (v mod 4294967296)"
    unfolding bytes_of_int by (simp add: int32_at_def le32_def b of_char_of_byte add.assoc)
  then show ?thesis by (simp only: to_int32_mod)
qed

lemma int32_at_le32_only [simp]: "int32_at (le32 v) 0 = to_int32 v"
  using int32_at_le32[of v "[]"] by simp

lemma int32_at_skip [simp]: "int32_at (le32 u @ s) 4 = int32_at s 0"
  by (simp add: int32_at_def nth_append numeral_eq_Suc)

lemma int32_at_second [simp]: "int32_at (le32 u @ le32 v) 4 = to_int32 v"
  by simp

section \<open>What is written\<close>

definition writes :: "(syscall \<times> reply) list \<Rightarrow> (int \<times> string) list" where
  "writes t = concat (map (\<lambda>e. case fst e of Fd (Write fd d) \<Rightarrow> [(fd, d)] | _ \<Rightarrow> []) t)"

lemma writes_simps [simp]:
  "writes [] = []" "writes (t @ u) = writes t @ writes u"
  "writes ((c, r) # t) = (case c of Fd (Write fd d) \<Rightarrow> [(fd, d)] | _ \<Rightarrow> []) @ writes t"
  by (simp_all add: writes_def)

lemma writes_repeat [simp]: "writes (map (Pair (Fd (Write fd d))) es) = replicate (length es) (fd, d)"
  by (induction es) auto

lemma writes_repeat_other: "(\<And>fd d. c \<noteq> Fd (Write fd d)) \<Longrightarrow> writes (map (Pair c) es) = []"
  by (induction es) (auto split: syscall.splits fd_call.splits)

section \<open>Dynamic arrays by their elements\<close>

text \<open>
  A dynamic array of pointers, structures or characters by its elements and its capacity: what the operations of
  \<open>lib/dynamic_array.c\<close> do to them, for arrays far from the limits of \<open>size_t\<close>.
\<close>

record 'a vec =
  elems :: "'a list"
  room :: nat

definition vec_init :: "'a vec" where
  \<comment> \<open>\<open>da_init\<close> with size 0\<close>
  "vec_init = \<lparr>elems = [], room = 0\<rparr>"

definition vec_push :: "'a \<Rightarrow> 'a vec \<Rightarrow> cstate \<Rightarrow> ('a vec \<times> cstate) c" where
  \<comment> \<open>\<open>*da_push(&v) = x\<close>\<close>
  "vec_push x v st =
     (if room v \<le> length (elems v) then
        let (ok, st') = malloc_ok st in
        if ok then Inr (\<lparr>elems = elems v @ [x], room = (if room v = 0 then 1 else room v * 2)\<rparr>, st')
        else Inl Null_deref
      else Inr (v\<lparr>elems := elems v @ [x]\<rparr>, st))"

definition vec_reverse :: "'a vec \<Rightarrow> cstate \<Rightarrow> 'a vec \<times> cstate" where
  \<comment> \<open>\<open>da_reverse\<close> when its result is not looked at: without memory the array stays as it is\<close>
  "vec_reverse v st = (if elems v = [] then (v, st)
     else let (ok, st') = malloc_ok st in (if ok then v\<lparr>elems := rev (elems v)\<rparr> else v, st'))"

lemma vec_push_ok:
  "no_alloc_failure st \<Longrightarrow> \<exists>v' st'. vec_push x v st = Inr (v', st') \<and> elems v' = elems v @ [x] \<and> no_alloc_failure st'"
  using malloc_ok_succeeds[of st] by (auto simp: vec_push_def)

lemma vec_reverse_ok:
  "no_alloc_failure st \<Longrightarrow> \<exists>v' st'. vec_reverse v st = (v', st') \<and> elems v' = rev (elems v) \<and> no_alloc_failure st'"
  using malloc_ok_succeeds[of st] by (auto simp: vec_reverse_def)

lemma vec_init_elems [simp]: "elems vec_init = []"
  by (simp add: vec_init_def)

end
