(* ===== verification/SeqFifo.thy ===== *)
theory SeqFifo
  imports Idioms
begin

text \<open>
  The sequence-number service over FIFOs, \<open>44_Pipes_And_FIFOs/fifo_sq_sv.c\<close>, \<open>fifo_sq_cl.c\<close> and
  \<open>fifo_sq.h\<close>. The service is the counter \<open>seq_num\<close>, which the server keeps in a backup file too.
  \<open>stop_requested\<close>, which the signal handler sets, is read like a reply: the signal may come at any time.
\<close>

section \<open>fifo\_sq.h\<close>

definition SERVER_FIFO :: string where "SERVER_FIFO = ''/tmp/seqnum_sv''"

definition CLIENT_FIFO_NAME_LEN :: nat where
  "CLIENT_FIFO_NAME_LEN = length ''/tmp/seqnum_cl.%ld'' + 1 + 20"

definition client_fifo_name :: "int \<Rightarrow> string" where
  "client_fifo_name pid = snprintf CLIENT_FIFO_NAME_LEN (''/tmp/seqnum_cl.'' @ show_int pid)"

record request =
  req_pid :: int
  seqLen :: int

definition encode_request :: "request \<Rightarrow> string" where
  "encode_request req = le32 (req_pid req) @ le32 (seqLen req)"

definition decode_request :: "string \<Rightarrow> request" where
  "decode_request s = \<lparr>req_pid = int32_at s 0, seqLen = int32_at s 4\<rparr>"

definition REQ_LEN :: nat where "REQ_LEN = 8"
definition RES_LEN :: nat where "RES_LEN = 4"

section \<open>The server\<close>

definition MAX_DIGITS :: nat where "MAX_DIGITS = 9"
definition MAX_SIZE :: int where "MAX_SIZE = 999999999"

definition unlinkFifo :: "unit prog" where
  "unlinkFifo = call (Path (Unlink SERVER_FIFO)) (\<lambda>r.
     if rv r = -1 then errMsg ''unlink'' (ret ()) else ret ())"

fun send_response :: "int list \<Rightarrow> string \<Rightarrow> int \<Rightarrow> string \<Rightarrow> int \<Rightarrow> int prog" where
  \<comment> \<open>the loop over \<open>retry_count\<close>; the result is the \<open>rv\<close> it leaves\<close>
  "send_response [] client_fifo client_fd serv_resp r = ret r"
| "send_response (retry_count # rest) client_fifo client_fd serv_resp r =
     set_errno 0 (NO_EINTR (Fd (Write client_fd serv_resp)) (\<lambda>rep. get errno (\<lambda>e.
       if e \<noteq> EPIPE then ret (rv rep)
       else fprintf_stderr (''Failed to write to '' @ client_fifo @ [NL])
         (fprintf_stderr (''    Trying again...(Attmpt '' @ show_int retry_count @ ''/3)'' @ [NL])
           (call (Proc (Sleep 1)) (\<lambda>_. send_response rest client_fifo client_fd serv_resp (rv rep)))))))"

definition next_seq :: "int \<Rightarrow> int \<Rightarrow> int" where
  "next_seq seq_num len =
     (if len + seq_num > MAX_SIZE \<or> len + seq_num < - MAX_SIZE then seq_num else seq_num + len)"

definition SEQ_BUF :: nat where "SEQ_BUF = MAX_DIGITS + 1"

definition array_store :: "nat \<Rightarrow> string \<Rightarrow> char option list \<Rightarrow> char option list c" where
  \<comment> \<open>bytes stored from index \<open>i\<close> on; \<open>None\<close> is a byte never written\<close>
  "array_store i s a =
     (if length a < i + length s then Inl Buffer_overflow else Inr (take i a @ map Some s @ drop (i + length s) a))"

fun array_string :: "char option list \<Rightarrow> string c" where
  \<comment> \<open>the string at the start of the array, as \<open>strlen\<close> and \<open>strtol\<close> read it\<close>
  "array_string [] = Inl Out_of_bounds"
| "array_string (None # a) = Inl Uninitialised"
| "array_string (Some c # a) = (if c = NUL then Inr [] else bindC (array_string a) (\<lambda>s. Inr (c # s)))"

definition seq_num_buf :: "char option list" where
  \<comment> \<open>each use of the buffer first stores a string into it, so nothing is known of what it holds before\<close>
  "seq_num_buf = replicate SEQ_BUF None"

definition backup_seq :: "int \<Rightarrow> int \<Rightarrow> (int + unit) prog" where
  "backup_seq backup_fd seq_num =
     NO_EINTR (Fd (Ftruncate backup_fd 0)) (\<lambda>r.
       if rv r = -1 then errExit ''ftruncate''
       else or_die (Fd (Lseek backup_fd 0 ''SEEK_SET'')) ''lseek'' (\<lambda>_.
         checked (array_store 0 (snprintf 10 (show_int seq_num) @ [NUL]) seq_num_buf) (\<lambda>buf.
         checked (array_string buf) (\<lambda>s.
         NO_EINTR (Fd (Write backup_fd s)) (\<lambda>r.
           if rv r = -1 then errExit ''write'' else again seq_num)))))"

definition finish_request :: "int \<Rightarrow> int \<Rightarrow> int \<Rightarrow> string \<Rightarrow> int \<Rightarrow> int \<Rightarrow> (int + unit) prog" where
  \<comment> \<open>from \<open>if (rv != RES_LEN)\<close> to the end of the round\<close>
  "finish_request backup_fd seq_num len client_fifo client_fd sent =
     (if sent \<noteq> int RES_LEN then fprintf_stderr (''Error writing to FIFO '' @ client_fifo @ [NL]) else (\<lambda>k. k))
       (NO_EINTR (Fd (Close client_fd)) (\<lambda>r.
         (if rv r = -1 then errMsg ''close'' else (\<lambda>k. k))
           ((if len + seq_num > MAX_SIZE \<or> len + seq_num < - MAX_SIZE
             then fprintf_stderr (''Requested number too large; no effect'' @ [NL]) else (\<lambda>k. k))
               (backup_seq backup_fd (next_seq seq_num len)))))"

definition serve_request :: "int \<Rightarrow> int \<Rightarrow> request \<Rightarrow> (int + unit) prog" where
  \<comment> \<open>from the two \<open>open\<close>s of the client's FIFO on\<close>
  "serve_request backup_fd seq_num req =
     (let client_fifo = client_fifo_name (req_pid req) in
      NO_EINTR (Path (Open client_fifo ''O_RDONLY|O_NONBLOCK'' 0)) (\<lambda>d.
        if rv d = -1 then errMsg (''openn '' @ client_fifo) (again seq_num)
        else NO_EINTR (Path (Open client_fifo ''O_WRONLY'' 0)) (\<lambda>c.
          if rv c = -1 then call (Fd (Close (rv d))) (\<lambda>_. errMsg (''open '' @ client_fifo) (again seq_num))
          else call (Fd (Close (rv d))) (\<lambda>_.
            seq (send_response [1, 2, 3] client_fifo (rv c) (le32 seq_num) 0)
              (finish_request backup_fd seq_num (seqLen req) client_fifo (rv c))))))"

definition fifo_round :: "int \<Rightarrow> int \<Rightarrow> int \<Rightarrow> (int + unit) prog" where
  "fifo_round server_fd backup_fd seq_num =
     lib ''stop_requested'' [] (\<lambda>stop_requested.
       if rv stop_requested \<noteq> 0 then leave ()
       else set_errno 0 (call (Fd (Read server_fd REQ_LEN)) (\<lambda>r.
         if rv r \<noteq> int REQ_LEN then get errno (\<lambda>e.
           (if e \<noteq> EINTR then fprintf_stderr (''Error reading request; discarding'' @ [NL]) else (\<lambda>k. k))
             (again seq_num))
         else serve_request backup_fd seq_num (decode_request (bytes r)))))"

definition set_handlers :: "unit prog" where
  "set_handlers = or_die (Proc (Sigaction ''SIGINT'' ''setDeathFlag'')) ''sigaction'' (\<lambda>_.
     or_die (Proc (Sigaction ''SIGTERM'' ''setDeathFlag'')) ''sigaction'' (\<lambda>_.
     or_die (Proc (Sigaction ''SIGPIPE'' ''SIG_IGN'')) ''sigaction'' (\<lambda>_. ret ())))"

definition restore_seq :: "int \<Rightarrow> int prog" where
  \<comment> \<open>the counter of an earlier run, if the file was not empty\<close>
  "restore_seq backup_fd = or_die (Fd (Read backup_fd MAX_DIGITS)) ''read'' (\<lambda>r.
     let got = bytes_read MAX_DIGITS r; num_read = length got in
     checked (array_store 0 got seq_num_buf) (\<lambda>buf.
       if num_read \<noteq> 0 then checked (array_store num_read [NUL] buf) (\<lambda>buf.
         checked (array_string buf) (\<lambda>s. utils_getNum s (Some ''getNum'')))
       else ret 0))"

definition O_NONBLOCK :: int where "O_NONBLOCK = 2048"

definition fifo_serve :: "int \<Rightarrow> int \<Rightarrow> unit prog" where
  \<comment> \<open>what runs after \<open>atexit\<close>\<close>
  "fifo_serve backup_fd seq_num =
     or_die (Path (Open SERVER_FIFO ''O_RDONLY|O_NONBLOCK'' 0)) (''open '' @ SERVER_FIFO) (\<lambda>s.
     or_die (Fd (Fcntl (rv s) ''F_GETFL'' 0)) ''fcntl'' (\<lambda>flags.
     or_die (Fd (Fcntl (rv s) ''F_SETFL'' (rv flags AND NOT O_NONBLOCK))) ''fcntl'' (\<lambda>_.
     or_die (Path (Open SERVER_FIFO ''O_WRONLY'' 0)) (''open '' @ SERVER_FIFO) (\<lambda>_.
       seq (loop (fifo_round (rv s) backup_fd) seq_num) (\<lambda>_. exit_prog EXIT_SUCCESS)))))"

definition fifo_sq_sv :: "unit prog" where
  \<comment> \<open>the modes are octal 0660\<close>
  "fifo_sq_sv = seq set_handlers (\<lambda>_.
     or_die (Path (Open ''./seqnum_backup.txt'' ''O_CREAT|O_RDWR'' 432)) ''open'' (\<lambda>b.
     seq (restore_seq (rv b)) (\<lambda>seq_num.
     call (Proc (Umask 0)) (\<lambda>_.
     call (Path (Mkfifo SERVER_FIFO 432)) (\<lambda>m. get errno (\<lambda>e.
       if rv m = -1 \<and> e \<noteq> EEXIST then errExit (''mkfifo '' @ SERVER_FIFO)
       else call (Proc (Atexit ''unlinkFifo'')) (\<lambda>a.
         if rv a \<noteq> 0 then errExit ''atexit''
         else at_exit unlinkFifo (fifo_serve (rv b) seq_num))))))))"

section \<open>The client\<close>

definition removeFifo :: "string \<Rightarrow> unit prog" where
  "removeFifo client_fifo = call (Path (Unlink client_fifo)) (\<lambda>r.
     if rv r = -1 then errMsg ''unlink'' (ret ()) else ret ())"

definition fifo_request :: "string \<Rightarrow> int \<Rightarrow> int \<Rightarrow> unit prog" where
  "fifo_request client_fifo pid len =
     or_die (Path (Open SERVER_FIFO ''O_WRONLY'' 0)) (''open '' @ SERVER_FIFO) (\<lambda>s.
       call (Fd (Write (rv s) (encode_request \<lparr>req_pid = pid, seqLen = len\<rparr>))) (\<lambda>n.
         if rv n \<noteq> int REQ_LEN then fatal ''Can't write to server''
         else or_die (Path (Open client_fifo ''O_RDONLY'' 0)) (''open '' @ client_fifo) (\<lambda>c.
           call (Fd (Read (rv c) RES_LEN)) (\<lambda>r.
             if rv r \<noteq> int RES_LEN then fatal ''Can't read response from server''
             else printf (show_int (int32_at (bytes r) 0) @ [NL]) (exit_prog EXIT_SUCCESS)))))"

definition fifo_sq_cl :: "string list \<Rightarrow> unit prog" where
  \<comment> \<open>the mode is octal 0620\<close>
  "fifo_sq_cl argv =
     (if 1 < length argv \<and> argv ! 1 = ''--help'' then usageErr (hd argv @ '' [seq-len]'' @ [NL])
      else call (Proc Getpid) (\<lambda>pid. let client_fifo = client_fifo_name (rv pid) in
        call (Proc (Umask 0)) (\<lambda>_.
        call (Path (Mkfifo client_fifo 400)) (\<lambda>m. get errno (\<lambda>e.
          if rv m = -1 \<and> e \<noteq> EEXIST then errExit (''mkfifo '' @ client_fifo)
          else call (Proc (Atexit ''removeFifo'')) (\<lambda>a.
            if rv a \<noteq> 0 then errExit ''atexit''
            else at_exit (removeFifo client_fifo)
              (call (Proc Getpid) (\<lambda>pid.
                seq (if 1 < length argv then utils_getNum (argv ! 1) (Some ''Arg must be an integer'') else ret 1)
                  (fifo_request client_fifo (rv pid))))))))))"

section \<open>The buffer for the digits\<close>

lemma array_string_stored: "array_string (map Some (s @ [NUL]) @ a) = Inr (c_str s)"
  by (induction s) (simp_all add: c_str_def)

lemma array_stored:
  assumes "length s < length a"
  shows "checked (array_store 0 (s @ [NUL]) a) (\<lambda>buf. checked (array_string buf) k) = k (c_str s)"
    "checked (array_store 0 s a) (\<lambda>buf. checked (array_store (length s) [NUL] buf) (\<lambda>buf. checked (array_string buf) k)) = k (c_str s)"
  using assms array_string_stored[of s "drop (Suc (length s)) a"]
  by (simp_all add: array_store_def checked_def Suc_le_eq)

lemma backup_seq_eq: "backup_seq backup_fd seq_num =
     NO_EINTR (Fd (Ftruncate backup_fd 0)) (\<lambda>r.
       if rv r = -1 then errExit ''ftruncate''
       else or_die (Fd (Lseek backup_fd 0 ''SEEK_SET'')) ''lseek'' (\<lambda>_.
         NO_EINTR (Fd (Write backup_fd (snprintf 10 (show_int seq_num)))) (\<lambda>r.
           if rv r = -1 then errExit ''write'' else again seq_num)))"
proof -
  let ?s = "snprintf 10 (show_int seq_num)"
  have fits: "length ?s < length seq_num_buf"
    by (simp add: seq_num_buf_def SEQ_BUF_def MAX_DIGITS_def snprintf_def)
  have str: "c_str ?s = ?s"
    using NUL_not_shown(2)[of seq_num] by (auto intro!: c_str_id simp: snprintf_def dest: in_set_takeD)
  show ?thesis unfolding backup_seq_def array_stored(1)[OF fits] str ..
qed

lemma restore_seq_eq: "restore_seq backup_fd = or_die (Fd (Read backup_fd MAX_DIGITS)) ''read'' (\<lambda>r.
     if bytes_read MAX_DIGITS r \<noteq> [] then utils_getNum (c_str (bytes_read MAX_DIGITS r)) (Some ''getNum'') else ret 0)"
proof -
  have "length (bytes_read MAX_DIGITS r) < length seq_num_buf" for r
    by (simp add: seq_num_buf_def SEQ_BUF_def bytes_read_def less_Suc_eq_le)
  note fits = array_stored(2)[OF this]
  have empty: "checked (array_store 0 [] seq_num_buf) k = k seq_num_buf" for k :: "_ \<Rightarrow> int prog"
    by (simp add: array_store_def checked_def)
  show ?thesis
    unfolding restore_seq_def Let_def
    by (rule arg_cong[where f = "or_die _ _"], rule ext) (simp add: fits empty)
qed

section \<open>What is written\<close>

definition wrote :: "world \<Rightarrow> world \<Rightarrow> (int \<times> string) list \<Rightarrow> bool" where
  "wrote w w' ws \<longleftrightarrow> (\<exists>t. trace w' = trace w @ t \<and> writes t = ws)"

lemma wrote_same [simp]: "trace w' = trace w \<Longrightarrow> wrote w w' []"
  by (simp add: wrote_def)

lemma wrote_trans: "wrote w w1 us \<Longrightarrow> wrote w1 w' vs \<Longrightarrow> wrote w w' (us @ vs)"
  by (fastforce simp: wrote_def)

lemma wrote_cong: "wrote w w1 ws \<Longrightarrow> trace w' = trace w1 \<Longrightarrow> wrote w w' ws"
  by (simp add: wrote_def)

lemma wrote_from: "wrote w1 w' ws \<Longrightarrow> trace w1 = trace w @ t \<Longrightarrow> writes t = [] \<Longrightarrow> wrote w w' ws"
  by (auto simp: wrote_def)

lemma wrote_nothing: "trace w' = trace w @ t \<Longrightarrow> writes t = [] \<Longrightarrow> wrote w w' []"
  by (auto simp: wrote_def)

lemma repeats_wrote:
  "repeats (Fd (Write fd d)) w w' \<Longrightarrow> \<exists>n. wrote w w' (replicate n (fd, d))"
  "(\<And>fd d. c \<noteq> Fd (Write fd d)) \<Longrightarrow> repeats c w w' \<Longrightarrow> wrote w w' []"
  by (auto simp: repeats_def wrote_def writes_repeat_other)

lemma answered_wrote:
  "answered (Fd (Write fd d)) r w w' \<Longrightarrow> \<exists>n>0. wrote w w' (replicate n (fd, d))"
  "(\<And>fd d. c \<noteq> Fd (Write fd d)) \<Longrightarrow> answered c r w w' \<Longrightarrow> wrote w w' []"
proof -
  show "\<exists>n>0. wrote w w' (replicate n (fd, d))" if a: "answered (Fd (Write fd d)) r w w'"
  proof -
    obtain es where "trace w' = trace w @ map (Pair (Fd (Write fd d))) es @ [(Fd (Write fd d), r)]"
      by (rule answered_trace[OF a])
    then have "wrote w w' (replicate (Suc (length es)) (fd, d))"
      by (simp add: wrote_def flip: replicate_append_same)
    then show ?thesis by (intro exI[of _ "Suc (length es)"]) simp
  qed
qed (auto elim!: answered_trace simp: wrote_def writes_repeat_other split: syscall.splits fd_call.splits)

section \<open>One request\<close>

definition sent_post :: "int \<Rightarrow> string \<Rightarrow> world \<Rightarrow> int result \<Rightarrow> world \<Rightarrow> bool" where
  "sent_post fd d w r w' \<longleftrightarrow> (\<exists>n. wrote w w' (replicate n (fd, d))
     \<and> (case r of Return x \<Rightarrow> 0 < n | Blocked \<Rightarrow> True | _ \<Rightarrow> False))"

lemma sent_postI:
  "wrote w w1 (replicate n (fd, d)) \<Longrightarrow> trace w' = trace w1 \<Longrightarrow> 0 < n \<Longrightarrow> sent_post fd d w (Return x) w'"
  "wrote w w1 (replicate n (fd, d)) \<Longrightarrow> trace w' = trace w1 \<Longrightarrow> sent_post fd d w Blocked w'"
  by (auto simp: sent_post_def wrote_def)

lemma sent_post_more:
  assumes "wrote w w1 (replicate n (fd, d))" "sent_post fd d w1 r w'"
  shows "sent_post fd d w r w'"
proof -
  from assms(2) obtain m where m: "wrote w1 w' (replicate m (fd, d))"
    "case r of Return x \<Rightarrow> 0 < m | Blocked \<Rightarrow> True | _ \<Rightarrow> False" by (auto simp: sent_post_def)
  with wrote_trans[OF assms(1)] have "wrote w w' (replicate (n + m) (fd, d))" by (simp add: replicate_add)
  with m(2) show ?thesis unfolding sent_post_def by (auto split: result.splits)
qed

lemma send_response_sends:
  "ns \<noteq> [] \<Longrightarrow> wp (send_response ns client_fifo fd d v) (sent_post fd d w) w"
proof (induction ns arbitrary: v w)
  case (Cons n ns)
  let ?rest = "\<lambda>v. send_response ns client_fifo fd d v"
  have rest: "wp (?rest v) (sent_post fd d w) w1" if "wrote w w1 (replicate k (fd, d))" "0 < k" for v w1 k
  proof (cases "ns = []")
    case True
    with that show ?thesis by (auto simp: exec_simps sent_post_def)
  next
    case False
    from Cons.IH[OF this] show ?thesis by (rule wp_mono) (rule sent_post_more[OF that(1)])
  qed
  show ?case
    unfolding send_response.simps wp_set_errno
  proof (rule wp_NO_EINTR, goal_cases)
    case (1 w1)
    then obtain k where "wrote (w\<lparr>errno := 0\<rparr>) w1 (replicate k (fd, d))" using repeats_wrote(1) by blast
    then show ?case by (auto simp: sent_post_def wrote_def)
  next
    case (2 r w1)
    then obtain k where "wrote (w\<lparr>errno := 0\<rparr>) w1 (replicate k (fd, d))" and pos: "0 < k"
      using answered_wrote(1) by blast
    then have k: "wrote w w1 (replicate k (fd, d))" by (simp add: wrote_def)
    have told: "wrote w w2 (replicate k (fd, d))"
      if "trace w2 = trace w1 @ [(Proc (Sleep 1), q)]" for w2 q
      using wrote_trans[OF k wrote_nothing[OF that]] by simp
    show ?case using pos by (auto simp: exec_simps intro!: rest told sent_postI[OF k])
  qed
qed simp

definition backup_text :: "int \<Rightarrow> string" where
  "backup_text s = snprintf 10 (show_int s)"

definition backup_post :: "int \<Rightarrow> int \<Rightarrow> world \<Rightarrow> (int + unit) result \<Rightarrow> world \<Rightarrow> bool" where
  "backup_post b s w r w' \<longleftrightarrow> (\<exists>n. wrote w w' (replicate n (b, backup_text s))
     \<and> (case r of Return x \<Rightarrow> 0 < n \<and> x = Inl s | Blocked \<Rightarrow> True | _ \<Rightarrow> is_end r))"

lemma backup_postI:
  "wrote w w' [] \<Longrightarrow> r = Blocked \<or> is_end r \<Longrightarrow> backup_post b s w r w'"
  "wrote w w' (replicate n (b, backup_text s)) \<Longrightarrow> r = Blocked \<or> is_end r \<Longrightarrow> backup_post b s w r w'"
  "wrote w w' (replicate n (b, backup_text s)) \<Longrightarrow> 0 < n \<Longrightarrow> backup_post b s w (Return (Inl s)) w'"
  unfolding backup_post_def by (auto simp: is_end_def intro: exI[of _ 0] split: result.splits)

lemma backup_seq_writes: "wp (backup_seq b s) (backup_post b s w) w"
  unfolding backup_seq_eq backup_text_def[symmetric]
proof (rule wp_NO_EINTR, goal_cases)
  case (1 w1)
  then show ?case using repeats_wrote(2)[of "Fd (Ftruncate b 0)"] by (intro backup_postI(1)) auto
next
  case (2 r w1)
  then have w1: "wrote w w1 []" using answered_wrote(2)[of "Fd (Ftruncate b 0)"] by auto
  have wr: "wp (NO_EINTR (Fd (Write b (backup_text s)))
       (\<lambda>r. if rv r = - 1 then errExit ''write'' else again s)) (backup_post b s w) w2"
    if "wrote w w2 []" for w2
  proof (rule wp_NO_EINTR, goal_cases)
    case (1 w3)
    then obtain n where "wrote w2 w3 (replicate n (b, backup_text s))" using repeats_wrote(1) by blast
    from wrote_trans[OF that this] show ?case by (intro backup_postI(2)) auto
  next
    case (2 r w3)
    then obtain n where n: "wrote w2 w3 (replicate n (b, backup_text s))" "0 < n" using answered_wrote(1) by blast
    from wrote_trans[OF that n(1)] have "wrote w w3 (replicate n (b, backup_text s))" by simp
    note n' = this
    have "backup_post b s w (end_of True w3) (die True (errno w3) True ''write'' w3)"
      by (rule backup_postI(2)[OF wrote_cong[OF n']]) simp_all
    with n(2) n' show ?case by (auto simp: exec_simps intro: backup_postI(3))
  qed
  have "wrote w w2 []" if "trace w2 = trace w1 @ [(Fd (Lseek b 0 ''SEEK_SET''), q)]" for w2 q
    using wrote_trans[OF w1 wrote_nothing[OF that]] by simp
  then show ?case
    using w1 by (auto simp: exec_simps Let_def intro!: wr backup_postI(1) intro: wrote_cong)
qed

section \<open>The counter stays in range\<close>

definition seq_ok :: "int \<Rightarrow> bool" where
  "seq_ok s \<longleftrightarrow> - MAX_SIZE \<le> s \<and> s \<le> MAX_SIZE"

lemma next_seq_ok: "seq_ok s \<Longrightarrow> seq_ok (next_seq s len)"
  by (auto simp: seq_ok_def next_seq_def)

lemma backup_post_from: "wrote w w1 [] \<Longrightarrow> backup_post b s w1 r w' \<Longrightarrow> backup_post b s w r w'"
  unfolding backup_post_def using wrote_trans[of w w1 "[]" w'] by fastforce

lemma finish_request_writes:
  "wp (finish_request b s len client_fifo fd sent) (backup_post b (next_seq s len) w) w"
proof -
  have bk: "wp (backup_seq b (next_seq s len)) (backup_post b (next_seq s len) w) w2"
    if "wrote w w1 []" "trace w2 = trace w1" for w1 w2
    using backup_post_from[OF wrote_cong[OF that]] by (rule wp_mono[OF backup_seq_writes])
  have rest: "wp (NO_EINTR (Fd (Close fd)) (\<lambda>r.
         (if rv r = -1 then errMsg ''close'' else (\<lambda>k. k))
           ((if len + s > MAX_SIZE \<or> len + s < - MAX_SIZE
             then fprintf_stderr (''Requested number too large; no effect'' @ [NL]) else (\<lambda>k. k))
               (backup_seq b (next_seq s len))))) (backup_post b (next_seq s len) w) w1"
    if "trace w1 = trace w" for w1
  proof (rule wp_NO_EINTR, goal_cases)
    case (1 w2)
    then have "wrote w w2 []" using repeats_wrote(2)[of "Fd (Close fd)"] wrote_trans[OF wrote_same[OF that]] by fastforce
    then show ?case by (auto intro: backup_postI)
  next
    case (2 r w2)
    then have "wrote w w2 []" using answered_wrote(2)[of "Fd (Close fd)"] wrote_trans[OF wrote_same[OF that]] by fastforce
    from bk[OF this] show ?case by (auto simp: exec_simps)
  qed
  show ?thesis
    unfolding finish_request_def
    by (cases "sent = int RES_LEN") (simp_all add: rest wp_stderr split del: if_split)
qed

definition serve_post :: "int \<Rightarrow> int \<Rightarrow> int \<Rightarrow> world \<Rightarrow> (int + unit) result \<Rightarrow> world \<Rightarrow> bool" where
  \<comment> \<open>what a round writes: nothing; or the number to one descriptor, then the new number to the file;
    when the round ends the counter is the number in the file\<close>
  "serve_post b s len w r w' \<longleftrightarrow> (\<exists>fd n m.
     wrote w w' (replicate n (fd, le32 s) @ replicate m (b, backup_text (next_seq s len)))
     \<and> (case r of Return x \<Rightarrow> x = Inl (if n = 0 then s else next_seq s len) \<and> (n = 0) = (m = 0)
        | Blocked \<Rightarrow> True | _ \<Rightarrow> is_end r))"

lemma serve_postI:
  "wrote w w' [] \<Longrightarrow> serve_post b s len w (Return (Inl s)) w'"
  "wrote w w' [] \<Longrightarrow> r = Blocked \<or> is_end r \<Longrightarrow> serve_post b s len w r w'"
  "wrote w w' (replicate n (fd, le32 s)) \<Longrightarrow> serve_post b s len w Blocked w'"
  unfolding serve_post_def
    apply (rule exI[of _ 0], rule exI[of _ 0], rule exI[of _ 0], simp)
   apply (rule exI[of _ 0], rule exI[of _ 0], rule exI[of _ 0], auto simp: is_end_def)[1]
  apply (rule exI[of _ fd], rule exI[of _ n], rule exI[of _ 0], simp)
  done

lemma serve_post_from: "wrote w w1 [] \<Longrightarrow> serve_post b s len w1 r w' \<Longrightarrow> serve_post b s len w r w'"
  unfolding serve_post_def using wrote_trans[of w w1 "[]" w', unfolded append_Nil] by blast

lemma serve_post_both:
  assumes "wrote w w1 (replicate n (fd, le32 s))" "0 < n" "backup_post b (next_seq s len) w1 r w'"
  shows "serve_post b s len w r w'"
proof -
  from assms(3) obtain m where m: "wrote w1 w' (replicate m (b, backup_text (next_seq s len)))"
    "case r of Return x \<Rightarrow> 0 < m \<and> x = Inl (next_seq s len) | Blocked \<Rightarrow> True | _ \<Rightarrow> is_end r"
    by (auto simp: backup_post_def)
  have "case r of Return x \<Rightarrow> x = Inl (if n = 0 then s else next_seq s len) \<and> (n = 0) = (m = 0)
        | Blocked \<Rightarrow> True | _ \<Rightarrow> is_end r"
    using m(2) assms(2) by (auto split: result.splits)
  with wrote_trans[OF assms(1) m(1)] show ?thesis unfolding serve_post_def by blast
qed

lemma serve_request_writes: "wp (serve_request b s req) (serve_post b s (seqLen req) w) w"
proof -
  let ?f = "client_fifo_name (req_pid req)"
  let ?o = "Path (Open ?f ''O_RDONLY|O_NONBLOCK'' 0)" and ?o' = "Path (Open ?f ''O_WRONLY'' 0)"
  have send: "wp (seq (send_response [1, 2, 3] ?f fd (le32 s) 0) (finish_request b s (seqLen req) ?f fd))
      (serve_post b s (seqLen req) w) w1" if w1: "wrote w w1 []" for fd w1
    unfolding wp_seq
  proof (rule wp_mono[OF send_response_sends], simp, goal_cases)
    case (1 r w2)
    then obtain n where n: "wrote w1 w2 (replicate n (fd, le32 s))"
      "case r of Return x \<Rightarrow> 0 < n | Blocked \<Rightarrow> True | _ \<Rightarrow> False" by (auto simp: sent_post_def)
    from wrote_trans[OF w1 n(1)] have n': "wrote w w2 (replicate n (fd, le32 s))" by simp
    show ?case
    proof (cases r)
      case (Return x)
      with n(2) have "0 < n" by simp
      show ?thesis
        unfolding Return lift_simps
        by (rule wp_mono[OF finish_request_writes]) (rule serve_post_both[OF n' \<open>0 < n\<close>])
    qed (use n(2) n' in \<open>auto intro: serve_postI(3)\<close>)
  qed
  have write_only: "wp (NO_EINTR ?o' (\<lambda>c.
          if rv c = -1 then call (Fd (Close d)) (\<lambda>_. errMsg (''open '' @ ?f) (again s))
          else call (Fd (Close d)) (\<lambda>_. seq (send_response [1, 2, 3] ?f (rv c) (le32 s) 0)
            (finish_request b s (seqLen req) ?f (rv c))))) (serve_post b s (seqLen req) w) w1"
    if w1: "wrote w w1 []" for d w1
  proof (rule wp_NO_EINTR, goal_cases)
    case (1 w2)
    with repeats_wrote(2)[of ?o'] wrote_trans[OF w1, of w2 "[]"] show ?case by (auto intro: serve_postI(2))
  next
    case (2 r w2)
    with answered_wrote(2)[of ?o'] wrote_trans[OF w1, of w2 "[]"] have w2: "wrote w w2 []" by auto
    have "wrote w w3 []" if "trace w3 = trace w2 @ [(Fd (Close d), q)]" for w3 q
      using wrote_trans[OF w2 wrote_nothing[OF that]] by simp
    with w2 show ?case by (auto simp: exec_simps simp del: send_response.simps intro!: send[unfolded wp_seq] serve_postI(1,2))
  qed
  show ?thesis
    unfolding serve_request_def Let_def
  proof (rule wp_NO_EINTR, goal_cases)
    case (1 w1)
    with repeats_wrote(2)[of ?o] show ?case by (auto intro: serve_postI(2))
  next
    case (2 r w1)
    with answered_wrote(2)[of ?o] have w1: "wrote w w1 []" by auto
    then show ?case
      by (auto simp: exec_simps simp del: send_response.simps intro!: write_only serve_postI(1) intro: wrote_cong)
  qed
qed

lemma decode_encode [simp]:
  "to_int32 (req_pid req) = req_pid req \<Longrightarrow> to_int32 (seqLen req) = seqLen req \<Longrightarrow>
    decode_request (encode_request req) = req"
  by (cases req) (simp add: decode_request_def encode_request_def)

text \<open>One transaction of the FIFO server, when the bytes of a client's request arrive: whatever the
  kernel answers, the server does not fault. Either the client's FIFO cannot be opened and nothing
  is written; or the number is sent to one descriptor (again after \<open>EPIPE\<close> or an interruption) and then
  the new number to the backup file, which is the counter when the round ends. The new number is
  the old one plus the length asked for, or the old one if that would leave the range, although it has been sent.\<close>

theorem fifo_server_transaction:
  assumes "script w = RVal 0 # RData (encode_request req) # rs"
    "req_pid req \<in> {INT_MIN..INT_MAX}" "seqLen req \<in> {INT_MIN..INT_MAX}"
  shows "\<exists>t. wp (fifo_round sfd b s) (serve_post b s (seqLen req) (w\<lparr>trace := trace w @ t\<rparr>)) w \<and> writes t = []"
proof -
  let ?t = "[(Lib ''stop_requested'' [], RVal 0), (Fd (Read sfd REQ_LEN), RData (encode_request req))]"
  have d: "decode_request (encode_request req) = req" using assms(2,3) by simp
  have r: "rv (RVal 0) = 0" "rv (RData (encode_request req)) = int REQ_LEN"
    by (simp_all add: rv_def encode_request_def REQ_LEN_def)
  have "wp (fifo_round sfd b s) (serve_post b s (seqLen req) (w\<lparr>trace := trace w @ ?t\<rparr>)) w"
    unfolding fifo_round_def
    using assms(1)
    by (simp add: exec_simps r bytes_def d)
      (rule wp_mono[OF serve_request_writes], auto simp: serve_post_def wrote_def)
  then show ?thesis by (intro exI[of _ ?t]) simp
qed

lemma fifo_server_transaction_witness:
  "\<exists>t. wp (fifo_round 5 4 10) (serve_post 4 10 3 (booted []\<lparr>script := [RVal 0,
      RData (encode_request \<lparr>req_pid = 77, seqLen = 3\<rparr>)], trace := t\<rparr>))
    (booted [RVal 0, RData (encode_request \<lparr>req_pid = 77, seqLen = 3\<rparr>)]) \<and> writes t = []"
  using fifo_server_transaction[of "booted [RVal 0, RData (encode_request \<lparr>req_pid = 77, seqLen = 3\<rparr>)]"
      "\<lparr>req_pid = 77, seqLen = 3\<rparr>" "[]" 5 4 10]
  by (simp add: int_limits booted_def)

section \<open>The whole server\<close>

lemma c_str_length: "length (c_str s) \<le> length s"
  by (simp add: c_str_def length_takeWhile_le)

lemma backup_number: "seq_ok (to_int32 (fst (strtol (c_str (bytes_read MAX_DIGITS r)) 10)))"
proof -
  let ?s = "c_str (bytes_read MAX_DIGITS r)"
  have "length ?s \<le> 9" using c_str_length[of "bytes_read MAX_DIGITS r"] by (simp add: bytes_read_def MAX_DIGITS_def)
  then have "\<bar>fst (strtol ?s 10)\<bar> < 10 ^ 9"
    using strtol_bound[of ?s] power_increasing[of "length ?s" 9 "10 :: int"] by simp
  then have "- 999999999 \<le> fst (strtol ?s 10)" "fst (strtol ?s 10) \<le> 999999999"
    by (simp_all add: abs_less_iff)
  then show ?thesis by (simp add: int_limits seq_ok_def MAX_SIZE_def)
qed

definition fifo_call :: "syscall \<Rightarrow> bool" where
  \<comment> \<open>a call that writes nothing but numbers in range\<close>
  "fifo_call c = (case c of
      Fd (Write fd d) \<Rightarrow> d \<in> {le32 n |n. seq_ok n} \<union> {backup_text n |n. seq_ok n} | _ \<Rightarrow> True)"

lemma fifo_call_simps [simp]:
  "fifo_call (Path p)" "fifo_call (Proc q)" "fifo_call (Lib f as)" "fifo_call (Fd (Read fd n))"
  "fifo_call (Fd (Close fd))" "fifo_call (Fd (Ftruncate fd i))" "fifo_call (Fd (Lseek fd i s))"
  "fifo_call (Fd (Fcntl fd s i))" "seq_ok v \<Longrightarrow> fifo_call (Fd (Write fd (le32 v)))"
  "seq_ok v \<Longrightarrow> fifo_call (Fd (Write fd (snprintf 10 (show_int v))))"
  by (auto simp: fifo_call_def backup_text_def)

abbreviation round_ok :: "int + unit \<Rightarrow> bool" where
  "round_ok x \<equiv> (case x of Inl s \<Rightarrow> seq_ok s | Inr u \<Rightarrow> True)"

lemma does_serve:
  assumes "seq_ok s"
  shows "does fifo_call round_ok (serve_request b s req)"
  using assms next_seq_ok[OF assms]
  unfolding serve_request_def finish_request_def backup_seq_eq send_response.simps
  by (auto intro!: does_intros does_seq[where Q = "\<lambda>_. True"])

lemma does_restore: "does fifo_call seq_ok (restore_seq b)"
  unfolding restore_seq_eq
  by (auto intro!: does_intros does_mono[OF does_utils_getNum] simp: backup_number)
    (simp add: seq_ok_def MAX_SIZE_def)

lemma does_round: "seq_ok s \<Longrightarrow> does fifo_call round_ok (fifo_round sfd b s)"
  unfolding fifo_round_def by (auto intro!: does_intros does_serve)

lemma does_fifo_serve: "seq_ok s \<Longrightarrow> does fifo_call (\<lambda>_. False) (fifo_serve b s)"
  unfolding fifo_serve_def
  by (auto intro!: does_intros does_seq[where Q = "\<lambda>_. True"] does_loop[where I = seq_ok] does_round)

lemma does_set_handlers: "does fifo_call (\<lambda>_. True) set_handlers" "does fifo_call (\<lambda>_. True) unlinkFifo"
  unfolding set_handlers_def unlinkFifo_def by (auto intro!: does_intros)

text \<open>C18: The whole FIFO server, from whatever the backup file and the clients contain: neither the bytes
  read from the file and the null byte after them, nor the text of a number, is stored past the end of
  \<open>seq_num_buf\<close> or read outside it; it never returns from \<open>main\<close>; and every number it ever writes, to a
  client or to the file, is within 999,999,999 of zero, so that the counter does not overflow.\<close>

theorem fifo_server_in_range: "does fifo_call (\<lambda>_. False) fifo_sq_sv"
  unfolding fifo_sq_sv_def
  by (rule does_seq[OF does_set_handlers(1)], rule does_or_die, simp, rule does_seq[OF does_restore])
    (auto intro!: does_intros does_fifo_serve does_set_handlers)

section \<open>The backup file\<close>

lemma backup_text_of:
  assumes "seq_ok s"
  shows "backup_text s = show_int (if - 99999999 \<le> s then s else - (- s div 10))"
proof -
  have len: "length (show_nat (nat v)) \<le> Suc k" if "v < 10 ^ Suc k" for v :: int and k
  proof (rule show_nat_length_le)
    have "nat v < nat (10 ^ Suc k)" using that by (simp add: nat_less_eq_zless zless_nat_conj)
    then show "nat v < 10 ^ Suc k" by (simp add: nat_power_eq nat_mult_distrib)
  qed
  show ?thesis
  proof (cases "- 99999999 \<le> s")
    case True
    have "length (show_int s) \<le> 9"
      using len[of "- s" 7] len[of s 8] True assms by (simp add: show_int_def seq_ok_def MAX_SIZE_def)
    with True show ?thesis by (simp add: backup_text_def snprintf_def)
  next
    case False
    let ?m = "nat (- s)"
    have m: "\<not> ?m < 10" "10 ^ 8 \<le> ?m" "?m < 10 ^ Suc 8"
      using False assms by (simp_all add: seq_ok_def MAX_SIZE_def)
    have l: "length (show_nat ?m) = 9"
      using show_nat_length_le[OF m(3)] show_nat_length_ge[OF m(2)] by simp
    have s: "show_nat ?m = show_nat (?m div 10) @ [digit_char (?m mod 10)]"
      using m(1) by (simp add: show_nat.simps[of ?m])
    with l have "length (show_nat (?m div 10)) = 8" by simp
    then have "take 8 (show_nat ?m) = show_nat (?m div 10)" by (subst s) simp
    moreover have "backup_text s = CHR ''-'' # take 8 (show_nat ?m)"
      using False by (simp add: backup_text_def snprintf_def show_int_def)
    ultimately have "backup_text s = CHR ''-'' # show_nat (?m div 10)" by simp
    moreover have "?m div 10 = nat (- s div 10)" by (simp add: nat_div_distrib)
    moreover have "show_int (- (- s div 10)) = CHR ''-'' # show_nat (nat (- s div 10))"
      using False by (simp add: show_int_def)
    ultimately show ?thesis using False by simp
  qed
qed

text \<open>A restarted FIFO server goes on with the number it left off with, if the number is not below
  -99,999,999; a negative number of nine digits does not fit the buffer with its sign, loses its last
  digit, and the server goes on with a tenth of it.\<close>

theorem backup_restores:
  assumes "seq_ok s"
  shows "fst (restore_seq b (w\<lparr>script := RData (backup_text s) # rs\<rparr>))
    = Return (if - 99999999 \<le> s then s else - (- s div 10))"
proof -
  let ?v = "if - 99999999 \<le> s then s else - (- s div 10)"
  have t: "backup_text s = show_int ?v" by (rule backup_text_of[OF assms])
  have len: "length (backup_text s) \<le> 9" by (simp add: backup_text_def snprintf_def)
  have range: "LONG_MIN \<le> ?v" "?v \<le> LONG_MAX" "INT_MIN \<le> ?v" "?v \<le> INT_MAX"
    using assms by (auto simp: seq_ok_def MAX_SIZE_def int_limits)
  have "strtol (show_int ?v) 10 = (?v, [], False)" using strtol_show_int[of ?v "[]"] range by simp
  moreover have "c_str (bytes_read MAX_DIGITS (RData (backup_text s))) = show_int ?v"
    using len by (simp add: bytes_read_def bytes_def MAX_DIGITS_def t c_str_id NUL_not_shown)
  moreover have "bytes_read MAX_DIGITS (RData (backup_text s)) \<noteq> []" "rv (RData (backup_text s)) \<noteq> - 1"
    using len by (simp_all add: bytes_read_def bytes_def MAX_DIGITS_def rv_def t show_int_def)
  ultimately show ?thesis
    using range(3,4)
    by (simp add: restore_seq_eq or_die_def call_def utils_getNum_def set_errno_def ret_def)
qed

lemma backup_restores_witness:
  "fst (restore_seq 4 ((booted [])\<lparr>script := [RData (backup_text (-123456789))]\<rparr>)) = Return (-12345678)"
  using backup_restores[where s = "-123456789" and b = 4 and w = "booted []" and rs = "[]"] by (simp add: seq_ok_def MAX_SIZE_def)

end
