(* ===== verification/SeqServers.thy ===== *)
theory SeqServers
  imports Idioms ReadLine Sockets
begin

text \<open>
  The sequence-number service over three other channels: POSIX message queues
  (\<open>52_Posix_Message_Queues/pmsg_seqnum_server.c\<close>, \<open>pmsg_seqnum_client.c\<close>), a UNIX domain socket
  (\<open>57_Sockets_Unix_Domain/seqnum_us_sv.c\<close>, \<open>seqnum_us_cl.c\<close>) and Internet sockets read by lines
  (\<open>59_Sockets_Internet_Domain/rlbuf_seqnum_sv.c\<close>, \<open>rlbuf_seqnum_cl.c\<close>).
\<close>

section \<open>Message queues\<close>

definition SERVER_PMSG :: string where "SERVER_PMSG = ''/seqnum_pmsg''"

definition CLIENT_PMSG_NAME_LEN :: nat where
  "CLIENT_PMSG_NAME_LEN = length ''/seqnum_cl.%ld'' + 1 + 20"

definition MAX_REQ_SIZE :: nat where "MAX_REQ_SIZE = 8"
definition MAX_RES_SIZE :: nat where "MAX_RES_SIZE = 4"

definition client_pmsg_name :: "int \<Rightarrow> string" where
  "client_pmsg_name pid = snprintf CLIENT_PMSG_NAME_LEN (''/seqnum_cl.'' @ show_int pid)"

record pmsg_state =
  seq_val :: int
  req :: string      \<comment> \<open>the bytes of \<open>req\<close> written so far, from its start\<close>

definition answer_request :: "pmsg_state \<Rightarrow> (pmsg_state + unit) prog" where
  \<comment> \<open>from the use of \<open>req\<close> to the end of the round; \<open>quit\<close> is the handler's flag\<close>
  "answer_request s =
     (if length (req s) < MAX_REQ_SIZE then stop (Fault Uninitialised)
      else
        let client_pmsg_path = client_pmsg_name (int32_at (req s) 0) in
        call (Ipc (Mq_open client_pmsg_path ''O_WRONLY'')) (\<lambda>c.
          if rv c = -1 then errMsg ''Error opening client pmsg; dropping request'' (again s)
          else
            let finish = call (Ipc (Mq_close (rv c))) (\<lambda>r.
                  (if rv r = -1 then errMsg (''mq_close - '' @ client_pmsg_path) else (\<lambda>k. k))
                    (again (s\<lparr>seq_val := to_int32 (seq_val s + int32_at (req s) 4)\<rparr>)))
            in call (Ipc (Mq_send (rv c) (le32 (seq_val s)))) (\<lambda>m.
              if rv m = -1 then errMsg (''mq_send - '' @ client_pmsg_path)
                (lib ''quit'' [] (\<lambda>quit. if rv quit \<noteq> 0 then leave () else finish))
              else finish)))"

definition pmsg_round :: "int \<Rightarrow> pmsg_state \<Rightarrow> (pmsg_state + unit) prog" where
  "pmsg_round server_mqd s =
     call (Ipc (Mq_receive server_mqd MAX_REQ_SIZE)) (\<lambda>r.
       if rv r = -1 then errMsg (''mq_receive - '' @ SERVER_PMSG)
         (lib ''quit'' [] (\<lambda>quit. if rv quit \<noteq> 0 then leave () else answer_request s))
       else answer_request (s\<lparr>req := store_bytes MAX_REQ_SIZE r (req s)\<rparr>))"

definition pmsg_seqnum_server :: "unit prog" where
  "pmsg_seqnum_server =
     or_die (Proc (Sigaction ''SIGINT'' ''sigCatcher'')) ''sigaction'' (\<lambda>_.
     or_die (Proc (Sigaction ''SIGTERM'' ''sigCatcher'')) ''sigaction'' (\<lambda>_.
     or_die (Ipc (Mq_open SERVER_PMSG ''O_RDONLY|O_CREAT|O_EXCL'')) (''mq_open - '' @ SERVER_PMSG) (\<lambda>q.
     seq (loop (pmsg_round (rv q)) \<lparr>seq_val = 0, req = []\<rparr>) (\<lambda>_.
       call (Ipc (Mq_unlink SERVER_PMSG)) (\<lambda>u.
         (if rv u = -1 then errMsg (''mq_unlink - '' @ SERVER_PMSG) else (\<lambda>k. k))
           (exit_prog EXIT_SUCCESS))))))"

definition remove_pmsg :: "string \<Rightarrow> unit prog" where
  "remove_pmsg client_mq_path = call (Ipc (Mq_unlink client_mq_path)) (\<lambda>r.
     if rv r = -1 then errMsg ''mq_unlink'' (ret ()) else ret ())"

definition pmsg_request :: "int \<Rightarrow> int \<Rightarrow> int \<Rightarrow> unit prog" where
  "pmsg_request client_mqd pid val =
     or_die (Ipc (Mq_open SERVER_PMSG ''O_WRONLY'')) (''mq_open - '' @ SERVER_PMSG) (\<lambda>s.
       or_die (Ipc (Mq_send (rv s) (le32 pid @ le32 val))) ''mq_send'' (\<lambda>_.
         or_die (Ipc (Mq_receive client_mqd MAX_RES_SIZE)) ''mq_recieve'' (\<lambda>r.
           if length (bytes_read MAX_RES_SIZE r) < MAX_RES_SIZE then stop (Fault Uninitialised)
           else printf (''Previous value: '' @ show_int (int32_at (bytes r) 0) @ [NL]) (exit_prog EXIT_SUCCESS))))"

definition pmsg_seqnum_client :: "string list \<Rightarrow> unit prog" where
  "pmsg_seqnum_client argv =
     (if 1 < length argv \<and> argv ! 1 = ''--help'' then usageErr (hd argv @ '' [seq-val]'' @ [NL])
      else call (Proc Getpid) (\<lambda>pid. let client_mq_path = client_pmsg_name (rv pid) in
        or_die (Ipc (Mq_open client_mq_path ''O_RDONLY|O_CREAT'')) (''mq_open - '' @ client_mq_path) (\<lambda>c.
        call (Proc (Atexit ''remove_pmsg'')) (\<lambda>a.
          if rv a \<noteq> 0 then errExit ''atexit''
          else at_exit (remove_pmsg client_mq_path)
            (call (Proc Getpid) (\<lambda>pid.
              seq (if 1 < length argv then getInt (Some (argv ! 1)) GN_GT_0 (Some ''seq-len'') else ret 1)
                (pmsg_request (rv c) (rv pid))))))))"

section \<open>A UNIX domain socket\<close>

definition us_address :: string where
  \<comment> \<open>an abstract name: \<open>sun_path\<close> starts with a null byte\<close>
  "us_address = NUL # ''xyz''"

definition us_round :: "int \<Rightarrow> int \<Rightarrow> (int + unit) prog" where
  "us_round sfd seqnum =
     or_die (Sock (Accept sfd)) ''accept'' (\<lambda>c.
       call (Fd (Read (rv c) 4)) (\<lambda>r.
         if rv r \<noteq> 4 then errExit ''Failed/Partial read''
         else call (Fd (Write (rv c) (le32 seqnum))) (\<lambda>n.
           if rv n \<noteq> 4 then errExit ''Failed/Partial read''
           else or_die (Fd (Close (rv c))) ''close'' (\<lambda>_.
             again (to_int32 (seqnum + int32_at (bytes r) 0))))))"

definition seqnum_us_sv :: "unit prog" where
  "seqnum_us_sv =
     or_die (Sock (Socket AF_UNIX SOCK_STREAM 0)) ''socket'' (\<lambda>s.
     or_die (Sock (Bind (rv s) us_address)) ''bind'' (\<lambda>_.
     or_die (Sock (Listen (rv s) 10)) ''listen'' (\<lambda>_.
       loop (us_round (rv s)) 0)))"

definition us_exchange :: "int \<Rightarrow> unit prog" where
  "us_exchange number =
     or_die (Sock (Socket AF_UNIX SOCK_STREAM 0)) ''socket'' (\<lambda>s.
     or_die (Sock (Connect (rv s) us_address)) ''connect'' (\<lambda>_.
     call (Fd (Write (rv s) (le32 number))) (\<lambda>n.
       if rv n \<noteq> 4 then errExit ''Failed/Partial write''
       else call (Fd (Read (rv s) 4)) (\<lambda>r.
         if rv r \<noteq> 4 then errExit ''Failed/Partial read''
         else printf (''Previous value: '' @ show_int (int32_at (bytes r) 0) @ [NL])
           (or_die (Fd (Close (rv s))) ''close'' (\<lambda>_. exit_prog EXIT_SUCCESS))))))"

definition seqnum_us_cl :: "string list \<Rightarrow> unit prog" where
  "seqnum_us_cl argv =
     (if length argv \<noteq> 2 \<or> argv ! 1 = ''--help'' then usageErr (hd argv @ '' number'')
      else seq (getInt (Some (argv ! 1)) GN_GT_0 (Some ''number'')) us_exchange)"

section \<open>Internet sockets and lines\<close>

definition ADDRSTRLEN :: nat where "ADDRSTRLEN = 1025 + 32 + 10"

definition rlbuf_request :: "int \<Rightarrow> int \<Rightarrow> rlbuf \<times> int \<times> string option \<Rightarrow> (int \<times> rlbuf + unit) prog" where
  \<comment> \<open>what follows \<open>read_line_buf\<close>; the counter is a \<open>uint32_t\<close>\<close>
  "rlbuf_request cfd seqNum line_read = (case line_read of (rlb, n, line) \<Rightarrow>
     if n \<le> 0 then call (Fd (Close cfd)) (\<lambda>_. again (seqNum, rlb))
     else (case line of None \<Rightarrow> stop (Fault Uninitialised) | Some reqLenStr \<Rightarrow>
       let reqLen = atoi reqLenStr in
       if reqLen \<le> 0 then call (Fd (Close cfd)) (\<lambda>_. again (seqNum, rlb))
       else
         let seqNumStr = snprintf (MAX_MSG_LEN * 2) (show_int (to_int32 seqNum) @ [NL]) in
         call (Fd (Write cfd seqNumStr)) (\<lambda>w.
           (if rv w \<noteq> int (length seqNumStr) then fprintf_stderr ''Error on write'' else (\<lambda>k. k))
             (call (Fd (Close cfd)) (\<lambda>c.
               (if rv c = -1 then errMsg ''close'' else (\<lambda>k. k))
                 (again (to_uint32 (seqNum + reqLen), rlb)))))))"

definition rlbuf_round :: "(int \<Rightarrow> string) \<Rightarrow> int \<Rightarrow> int \<times> rlbuf \<Rightarrow> (int \<times> rlbuf + unit) prog" where
  \<comment> \<open>\<open>claddr\<close> stands for the address that \<open>accept\<close> stored\<close>
  "rlbuf_round gai_strerror lfd s = (case s of (seqNum, rlb) \<Rightarrow>
     call (Sock (Accept lfd)) (\<lambda>c.
       if rv c = -1 then errMsg ''accept'' (again s)
       else seq (inetAddressStr gai_strerror ''claddr'' ADDRSTRLEN) (\<lambda>addrStr.
         printf (''Connection from '' @ addrStr @ [NL])
           (seq (read_line_buf (MAX_MSG_LEN * 2) (fst (read_line_buf_init (rv c) rlb)))
             (rlbuf_request (rv c) seqNum)))))"

definition rlbuf_seqnum_sv :: "(int \<Rightarrow> string) \<Rightarrow> rlbuf \<Rightarrow> string list \<Rightarrow> unit prog" where
  \<comment> \<open>\<open>rlb0\<close>: what the uninitialised structure on the stack happens to hold\<close>
  "rlbuf_seqnum_sv gai_strerror rlb0 argv =
     (if 1 < length argv \<and> argv ! 1 = ''--help'' then usageErr (hd argv @ '' [init-seq-num]'' @ [NL])
      else seq (if 1 < length argv then getInt (Some (argv ! 1)) 0 (Some ''init-seq-num'') else ret 0) (\<lambda>n.
        or_die (Proc (Sigaction ''SIGPIPE'' ''SIG_IGN'')) ''signal'' (\<lambda>_.
        seq (inetListen ''50000'' 50) (\<lambda>(lfd, addrlen).
          if lfd = -1 then errExit ''inetListen''
          else loop (rlbuf_round gai_strerror lfd) (to_uint32 n, rlb0)))))"

definition rlbuf_show :: "rlbuf \<times> int \<times> string option \<Rightarrow> unit prog" where
  "rlbuf_show line_read = (case line_read of (rlb, numRead, line) \<Rightarrow>
     if numRead = -1 then errExit ''readLine''
     else if numRead = 0 then fatal ''Unexpected EOF from server''
     else (case line of None \<Rightarrow> stop (Fault Uninitialised)
       | Some seqNumStr \<Rightarrow> printf (''Sequence number: '' @ seqNumStr) (exit_prog EXIT_SUCCESS)))"

definition rlbuf_seqnum_cl :: "rlbuf \<Rightarrow> string list \<Rightarrow> unit prog" where
  \<comment> \<open>the host given as first argument is not used\<close>
  "rlbuf_seqnum_cl rlb0 argv =
     (if length argv < 2 \<or> argv ! 1 = ''--help'' then usageErr (hd argv @ '' server-host [sequence-len]'' @ [NL])
      else seq (inetConnect None ''50000'' SOCK_STREAM) (\<lambda>cfd.
        if cfd = -1 then errExit ''inetConnect''
        else
          let reqLenStr = (if 2 < length argv then argv ! 2 else ''1'') in
          call (Fd (Write cfd reqLenStr)) (\<lambda>n.
            if rv n \<noteq> int (length reqLenStr) then fatal ''Partial/failed write (reqLenStr)''
            else call (Fd (Write cfd [NL])) (\<lambda>n.
              if rv n \<noteq> 1 then fatal ''Partial/failed write (newline)''
              else seq (read_line_buf MAX_MSG_LEN (fst (read_line_buf_init cfd rlb0))) rlbuf_show))))"

section \<open>One request counted twice\<close>

definition mq_sent :: "(syscall \<times> reply) list \<Rightarrow> string list" where
  "mq_sent t = concat (map (\<lambda>e. case fst e of Ipc (Mq_send q d) \<Rightarrow> [d] | _ \<Rightarrow> []) t)"

definition two_rounds :: "int \<Rightarrow> pmsg_state \<Rightarrow> (pmsg_state + unit) prog" where
  "two_rounds q s = seq (pmsg_round q s) (\<lambda>x. case x of Inl s' \<Rightarrow> pmsg_round q s' | Inr u \<Rightarrow> leave u)"

text \<open>\<open>pmsg_seqnum_server\<close> does not skip a request it could not receive: when \<open>mq_receive\<close> fails after a request
  was served, and no signal asked it to quit, that request is served once more, its client is sent a second
  number, and the counter goes on by the same amount again.\<close>

theorem pmsg_request_served_twice:
  "\<exists>w' t. two_rounds q \<lparr>seq_val = s, req = []\<rparr> (w\<lparr>script := [RData (le32 pid @ le32 v), RVal (int c), RVal 0, RVal 0,
       RErr e, RVal 0, RVal (int c), RVal 0, RVal 0]\<rparr>)
     = (Return (Inl \<lparr>seq_val = to_int32 (to_int32 (s + to_int32 v) + to_int32 v), req = le32 pid @ le32 v\<rparr>), w')
   \<and> trace w' = trace w @ t
   \<and> mq_sent t = [le32 s, le32 (to_int32 (s + to_int32 v))]"
  by (simp add: two_rounds_def pmsg_round_def answer_request_def Let_def run_simps errMsg_def outputError_def lib_def
      store_bytes_def bytes_read_def MAX_REQ_SIZE_def mq_sent_def)

section \<open>The socket server is a counter\<close>

fun grants :: "int \<Rightarrow> int list \<Rightarrow> int list" where
  \<comment> \<open>the specification: every client gets the sum of what was asked for before it\<close>
  "grants s [] = []"
| "grants s (v # vs) = s # grants (to_int32 (s + v)) vs"

definition us_client :: "nat \<times> int \<Rightarrow> reply list" where
  \<comment> \<open>a client on this connection that asks for this number, as the kernel's answers\<close>
  "us_client cv = [RVal (int (fst cv)), RData (le32 (snd cv)), RVal 4, RVal 0]"

lemma us_round_serves:
  "script w = us_client (c, v) @ rs \<Longrightarrow> \<exists>w'. us_round sfd s w = (Return (Inl (to_int32 (s + to_int32 v))), w')
     \<and> script w' = rs \<and> (\<exists>t. trace w' = trace w @ t \<and> writes t = [(int c, le32 s)] \<and> opened t = closed t)"
  by (simp add: us_client_def us_round_def or_die_def run_simps)

lemma us_loop_serves:
  assumes "script w = concat (map us_client cs)" "length cs < n"
  shows "\<exists>w' t. iter n (us_round sfd) s w = (Blocked, w') \<and> trace w' = trace w @ t \<and> opened t = closed t
     \<and> writes t = zip (map (\<lambda>c. int (fst c)) cs) (map le32 (grants s (map (\<lambda>c. to_int32 (snd c)) cs)))"
  using assms
proof (induction cs arbitrary: s w n)
  case Nil
  then obtain m where "n = Suc m" by (cases n) auto
  with Nil show ?case by (auto simp: us_round_def or_die_def call_def seq_def)
next
  case (Cons cv cs)
  obtain c v where cv: "cv = (c, v)" by fastforce
  obtain m where m: "n = Suc m" "length cs < m" using Cons.prems(2) by (cases n) auto
  from Cons.prems(1) have "script w = us_client (c, v) @ concat (map us_client cs)" by (simp add: cv)
  from us_round_serves[OF this, of sfd s] obtain w1 t1 where 1:
    "us_round sfd s w = (Return (Inl (to_int32 (s + to_int32 v))), w1)" "script w1 = concat (map us_client cs)"
    "trace w1 = trace w @ t1" "writes t1 = [(int c, le32 s)]" "opened t1 = closed t1" by blast
  from Cons.IH[OF 1(2) m(2), of "to_int32 (s + to_int32 v)"] obtain w' t2 where 2:
    "iter m (us_round sfd) (to_int32 (s + to_int32 v)) w1 = (Blocked, w')" "trace w' = trace w1 @ t2"
    "opened t2 = closed t2" "writes t2 = zip (map (\<lambda>c. int (fst c)) cs)
       (map le32 (grants (to_int32 (s + to_int32 v)) (map (\<lambda>c. to_int32 (snd c)) cs)))" by blast
  have "iter n (us_round sfd) s w = (Blocked, w')" using 1(1) 2(1) by (simp add: m(1) seq_def)
  moreover have "trace w' = trace w @ (t1 @ t2)" using 1(3) 2(2) by simp
  ultimately show ?case using 1(4,5) 2(3,4) by (intro exI[of _ w'] exI[of _ "t1 @ t2"]) (simp add: cv)
qed

text \<open>The UNIX domain server is the counter of its specification, for any number of clients: each is
  sent the sum, reduced to an \<open>int\<close>, of what was asked for before it, on its own connection, the
  connections are all closed, and then the server waits for the next client.\<close>

theorem seqnum_us_sv_counts:
  "\<exists>w' t. loop (us_round sfd) s (w\<lparr>script := concat (map us_client cs)\<rparr>) = (Blocked, w') \<and> trace w' = trace w @ t
     \<and> opened t = closed t
     \<and> writes t = zip (map (\<lambda>c. int (fst c)) cs) (map le32 (grants s (map (\<lambda>c. to_int32 (snd c)) cs)))"
proof -
  have "length cs \<le> length (concat (map us_client cs))" by (induction cs) (simp_all add: us_client_def)
  then show ?thesis
    using us_loop_serves[of "w\<lparr>script := concat (map us_client cs)\<rparr>" cs "Suc (length (concat (map us_client cs)))"]
    by (simp add: loop_def del: iter.simps)
qed

section \<open>The line server leaks no connection\<close>

definition only_reads :: "world \<Rightarrow> world \<Rightarrow> bool" where
  "only_reads w w' \<longleftrightarrow> (\<exists>t. trace w' = trace w @ t \<and> opened t = [] \<and> closed t = [])"

lemma only_reads_refl: "trace w' = trace w \<Longrightarrow> only_reads w w'"
  by (simp add: only_reads_def)

lemma only_reads_trans: "only_reads w w1 \<Longrightarrow> only_reads w1 w' \<Longrightarrow> only_reads w w'"
  by (fastforce simp: only_reads_def)

lemma only_reads_once: "trace w' = trace w @ [(Fd (Read fd n), r)] \<Longrightarrow> only_reads w w'"
  by (simp add: only_reads_def)

lemma scan_reads: "wp (rl_scan n cur rlb) (\<lambda>r w'. trace w' = trace w) w"
  unfolding rl_scan_def rl_swap_def Let_def by (simp add: exec_simps)

lemma rl_round_reads: "wp (rl_round n rlb) (\<lambda>r w'. only_reads w w') w"
proof -
  have "wp (rl_scan n cur rlb') (\<lambda>r w'. only_reads w w') w1" if "only_reads w w1" for cur rlb' w1
    by (rule wp_mono[OF scan_reads]) (use that in \<open>auto intro: only_reads_trans only_reads_refl\<close>)
  then show ?thesis
    unfolding rl_round_def Let_def
    by (auto simp: exec_simps only_reads_refl only_reads_once split: reply.splits list.splits)
qed

lemma iter_reads: "wp (iter k (rl_round n) rlb) (\<lambda>r w'. only_reads w w') w"
proof (induction k arbitrary: rlb w)
  case 0
  show ?case by (simp add: exec_simps only_reads_refl)
next
  case (Suc k)
  show ?case
    unfolding iter.simps wp_seq
  proof (rule wp_mono[OF rl_round_reads])
    fix r w1
    assume w1: "only_reads w w1"
    have "wp (case x of Inl s' \<Rightarrow> iter k (rl_round n) s' | Inr a \<Rightarrow> ret a) (\<lambda>r w'. only_reads w w') w1" for x
      using w1 by (cases x) (auto simp: exec_simps intro: wp_mono[OF Suc.IH] only_reads_trans)
    then show "lift (\<lambda>x. wp (case x of Inl s' \<Rightarrow> iter k (rl_round n) s' | Inr a \<Rightarrow> ret a) (\<lambda>r. only_reads w))
        (\<lambda>r. only_reads w) r w1"
      using w1 by (cases r) auto
  qed
qed

lemma line_reads: "wp (read_line_buf n rlb) (\<lambda>r w'. only_reads w w') w"
  using iter_reads[of "Suc (Suc (length (script w)))" n rlb w]
  by (simp add: wp_def read_line_buf_def del: iter.simps)

definition rlbuf_post :: "int \<Rightarrow> world \<Rightarrow> (int \<times> rlbuf + unit) result \<Rightarrow> world \<Rightarrow> bool" where
  "rlbuf_post n w r w' \<longleftrightarrow> (case r of
      Return (Inl (n', rlb)) \<Rightarrow> leaves_open w w' [] \<and> (n' = n \<or> (\<exists>v > 0. n' = to_uint32 (n + v)))
    | Return (Inr u) \<Rightarrow> False | _ \<Rightarrow> True)"

lemma rlbuf_postI:
  "leaves_open w w' [] \<Longrightarrow> rlbuf_post n w (Return (Inl (n, rlb))) w'"
  "leaves_open w w' [] \<Longrightarrow> 0 < v \<Longrightarrow> rlbuf_post n w (Return (Inl (to_uint32 (n + v), rlb))) w'"
  "rlbuf_post n w (Fault f) w'" "rlbuf_post n w Blocked w'"
  by (auto simp: rlbuf_post_def)

lemma rlbuf_request_closes:
  assumes "trace w1 = trace w @ t" "opened t = closed t @ [fd]"
  shows "wp (rlbuf_request fd n x) (rlbuf_post n w) w1"
proof -
  have c: "leaves_open w w' []" if "trace w' = trace w1 @ [(Fd (Close fd), r)]" for r w'
    using assms that by (auto intro!: leaves_openI[where t = "t @ [(Fd (Close fd), r)]"])
  have d: "leaves_open w w' []" if "trace w' = trace w1 @ [(Fd (Write fd s), q), (Fd (Close fd), r)]" for r w' s q
    using assms that by (auto intro!: leaves_openI[where t = "t @ [(Fd (Write fd s), q), (Fd (Close fd), r)]"])
  show ?thesis
    unfolding rlbuf_request_def Let_def
    by (auto simp: exec_simps intro!: rlbuf_postI intro: c d split: prod.splits option.splits)
qed

text \<open>In every round of \<open>rlbuf_seqnum_sv\<close> that comes to its end, whatever the client sends and whichever call fails,
  the connection that was accepted is closed again, and the counter is unchanged or has grown by the
  positive number of a valid request.\<close>

theorem rlbuf_round_closes: "wp (rlbuf_round gai_strerror lfd (n, rlb)) (rlbuf_post n w) w"
proof -
  have line: "wp (read_line_buf (MAX_MSG_LEN * 2) rlb')
      (lift (\<lambda>x. wp (rlbuf_request fd n x) (rlbuf_post n w)) (rlbuf_post n w)) w1"
    if "trace w1 = trace w @ t" "opened t = closed t @ [fd]" for w1 t fd rlb'
  proof (rule wp_mono[OF line_reads])
    fix r w2
    assume "only_reads w1 w2"
    then obtain u where "trace w2 = trace w1 @ u" "opened u = []" "closed u = []"
      by (auto simp: only_reads_def)
    then have "trace w2 = trace w @ (t @ u)" "opened (t @ u) = closed (t @ u) @ [fd]" using that by simp_all
    from rlbuf_request_closes[OF this]
    show "lift (\<lambda>x. wp (rlbuf_request fd n x) (rlbuf_post n w)) (rlbuf_post n w) r w2"
      by (cases r) (auto simp: rlbuf_post_def)
  qed
  show ?thesis
    unfolding rlbuf_round_def inetAddressStr_def Let_def
    by (auto simp: exec_simps rlbuf_post_def[of n w Blocked] rlbuf_post_def[of n w "Return x" for x]
        intro: leaves_openI split: reply.splits list.splits
        intro!: line[where t = "[a, b]" for a b])
qed

end
