(* ===== verification/NameServer.thy ===== *)
theory NameServer
  imports BinaryTree Idioms ReadLine Sockets
begin

text \<open>
  The name server \<open>59_Sockets_Internet_Domain/nv_sv.c\<close> with its client \<open>nv_cl.c\<close> and \<open>nv.h\<close>, built on
  \<open>lib/binary_tree.c\<close>: one tree holds the values, another the passwords their keys were added with. The
  trees store pointers to blocks of the heap; a block is an index into \<open>blocks\<close>, \<open>None\<close> once it is freed.
\<close>

section \<open>nv.h\<close>

definition MAX_KEY :: nat where "MAX_KEY = 30"
definition MAX_VAL :: nat where "MAX_VAL = 100"
definition PAS_LEN :: nat where "PAS_LEN = 30"
definition CMD_DEL :: int where "CMD_DEL = 0"
definition CMD_ADD :: int where "CMD_ADD = 1"
definition CMD_MOD :: int where "CMD_MOD = 2"
definition CMD_GET :: int where "CMD_GET = 3"

text \<open>\<open>struct request_msg\<close> lies in 164 bytes: the command, and three strings at these offsets.\<close>

definition OFF_PASSWORD :: nat where "OFF_PASSWORD = 4"
definition OFF_KEY :: nat where "OFF_KEY = OFF_PASSWORD + PAS_LEN"
definition OFF_VALUE :: nat where "OFF_VALUE = OFF_KEY + MAX_KEY"
definition NV_REQ_SIZE :: nat where "NV_REQ_SIZE = OFF_VALUE + MAX_VAL"

section \<open>The server\<close>

record nv_state =
  values_tree :: "nat BTree"
  auth_tree :: "nat BTree"
  blocks :: "string option list"
  node_allocs :: "bool list"        \<comment> \<open>the answers to the allocations of the trees' nodes\<close>

definition in_tree :: "nv_state \<Rightarrow> (cstate \<Rightarrow> (nat BTree \<times> int \<times> cstate) c) \<Rightarrow>
    (nat BTree \<Rightarrow> int \<Rightarrow> bool list \<Rightarrow> 'a prog) \<Rightarrow> 'a prog" where
  \<comment> \<open>call an operation of \<open>binary_tree.c\<close>\<close>
  "in_tree s f k = get errno (\<lambda>e. checked (f \<lparr>allocs = node_allocs s, cerrno = e\<rparr>) (\<lambda>(t, rc, st).
     set_errno (cerrno st) (k t rc (allocs st))))"

definition block_at :: "nv_state \<Rightarrow> nat option \<Rightarrow> string c" where
  \<comment> \<open>the string a pointer found in a tree points to\<close>
  "block_at s p = (case p of None \<Rightarrow> Inl Uninitialised
     | Some a \<Rightarrow> if length (blocks s) \<le> a then Inl Out_of_bounds
         else (case blocks s ! a of None \<Rightarrow> Inl Use_after_free | Some v \<Rightarrow> Inr v))"

definition store_copy :: "nat \<Rightarrow> nat \<Rightarrow> string \<Rightarrow> nv_state \<Rightarrow> (nv_state \<Rightarrow> nat \<Rightarrow> 'a prog) \<Rightarrow> 'a prog" where
  \<comment> \<open>\<open>malloc(n)\<close> and \<open>strcpy\<close> of a member of the request; the new block\<close>
  "store_copy n off msg s k = lib ''malloc'' [int n] (\<lambda>r.
     if is_null_reply r then errExit ''malloc''
     else checked (string_at msg off) (\<lambda>v.
       if n \<le> length v then stop (Fault Buffer_overflow)
       else k (s\<lparr>blocks := blocks s @ [Some v]\<rparr>) (length (blocks s))))"

definition nv_add_password :: "string \<Rightarrow> string \<Rightarrow> nv_state \<Rightarrow> nv_state prog" where
  \<comment> \<open>the second half of \<open>CMD_ADD\<close>\<close>
  "nv_add_password msg key s =
     store_copy PAS_LEN OFF_PASSWORD msg s (\<lambda>s password.
     in_tree s (bt_add (auth_tree s) key password) (\<lambda>t rc as.
       let s1 = s\<lparr>auth_tree := t, node_allocs := as\<rparr> in
       if rc = -1 then errMsg ''Couldn't add password'' (ret (s1\<lparr>blocks := (blocks s1)[password := None]\<rparr>))
       else ret s1))"

definition nv_add :: "string \<Rightarrow> nv_state \<Rightarrow> nv_state prog" where
  "nv_add msg s =
     store_copy MAX_VAL OFF_VALUE msg s (\<lambda>s value.
     checked (string_at msg OFF_KEY) (\<lambda>key.
     in_tree s (bt_add (values_tree s) key value) (\<lambda>t rc as.
       let s1 = s\<lparr>values_tree := t, node_allocs := as\<rparr> in
       (if rc = -1 then errMsg ''Duplicate key entered'' else (\<lambda>k. k))
         (nv_add_password msg key
           (if rc = -1 then s1\<lparr>blocks := (blocks s1)[value := None]\<rparr> else s1)))))"

definition authenticated :: "string \<Rightarrow> nv_state \<Rightarrow> (string \<Rightarrow> nv_state prog) \<Rightarrow> nv_state prog" where
  \<comment> \<open>what \<open>CMD_DEL\<close> and \<open>CMD_MOD\<close> begin with; the key is passed on\<close>
  "authenticated msg s k =
     checked (string_at msg OFF_KEY) (\<lambda>key.
     checked (bt_lookup (auth_tree s) key) (\<lambda>(lookup_pass, rc).
       if rc = -1 then errMsg ''Key doesn't exist'' (ret s)
       else checked (block_at s lookup_pass) (\<lambda>pass.
         checked (string_at msg OFF_PASSWORD) (\<lambda>password.
           if strcmp pass password \<noteq> 0 then errMsg ''Couldn't authenticate'' (ret s) else k key))))"

definition nv_del :: "string \<Rightarrow> nv_state \<Rightarrow> nv_state prog" where
  "nv_del msg s = authenticated msg s (\<lambda>key.
     in_tree s (bt_delete (values_tree s) key) (\<lambda>t rc as.
       (if rc = -1 then errMsg ''Key does not exist'' else (\<lambda>k. k))
         (ret (s\<lparr>values_tree := t, node_allocs := as\<rparr>))))"

definition nv_mod :: "string \<Rightarrow> nv_state \<Rightarrow> nv_state prog" where
  \<comment> \<open>the block of the old value has \<open>MAX_VAL\<close> bytes\<close>
  "nv_mod msg s = authenticated msg s (\<lambda>key.
     checked (bt_lookup (values_tree s) key) (\<lambda>(lookup, rc).
       if rc = -1 then errMsg ''Key value pair does not exist'' (ret s)
       else checked (block_at s lookup) (\<lambda>v.
         printf (v @ ''->'') (checked (string_at msg OFF_VALUE) (\<lambda>v'.
           if MAX_VAL \<le> length v' then stop (Fault Buffer_overflow)
           else printf (v' @ [NL]) (ret (s\<lparr>blocks := (blocks s)[the lookup := Some v']\<rparr>)))))))"

definition nv_get :: "string \<Rightarrow> nv_state \<Rightarrow> nv_state prog" where
  "nv_get msg s =
     checked (string_at msg OFF_KEY) (\<lambda>key.
     checked (bt_lookup (values_tree s) key) (\<lambda>(lookup, rc).
       if rc = -1 then errMsg ''Key value pair does not exist'' (ret s)
       else checked (block_at s lookup) (\<lambda>v. printf (''Value: '' @ v @ [NL]) (ret s))))"

definition nv_command :: "string \<Rightarrow> nv_state \<Rightarrow> nv_state prog" where
  "nv_command msg s = (let command = int32_at msg 0 in
     if command = CMD_ADD then nv_add msg s
     else if command = CMD_DEL then nv_del msg s
     else if command = CMD_MOD then nv_mod msg s
     else if command = CMD_GET then nv_get msg s
     else ret s)"

definition nv_finish :: "int \<Rightarrow> nv_state \<Rightarrow> (nv_state + unit) prog" where
  "nv_finish cfd s = get errno (\<lambda>e.
     checked (bt_print (values_tree s) \<lparr>allocs = node_allocs s, cerrno = e\<rparr>) (\<lambda>(text, st).
       set_errno (cerrno st) (printf text
         (call (Fd (Close cfd)) (\<lambda>_. again (s\<lparr>node_allocs := allocs st\<rparr>))))))"

definition nv_round :: "int \<Rightarrow> nv_state \<Rightarrow> (nv_state + unit) prog" where
  "nv_round sfd s = call (Sock (Accept sfd)) (\<lambda>c.
     if rv c = -1 then errMsg ''Failed to accept connection'' (again s)
     else call (Fd (Read (rv c) NV_REQ_SIZE)) (\<lambda>r.
       if rv r \<noteq> int NV_REQ_SIZE
       then errMsg ''Failed/Partial read; dropping request'' (call (Fd (Close (rv c))) (\<lambda>_. again s))
       else seq (nv_command (bytes r) s) (nv_finish (rv c))))"

definition AF_INET :: int where "AF_INET = 2"

definition nv_sv :: "bool list \<Rightarrow> unit prog" where
  "nv_sv as =
     or_die (Sock (Socket AF_INET SOCK_STREAM 0)) ''socket'' (\<lambda>s.
     or_die (Sock (Bind (rv s) ''0.0.0.0:50000'')) ''bind'' (\<lambda>_.
     or_die (Sock (Listen (rv s) 50)) ''listen'' (\<lambda>_.
       loop (nv_round (rv s))
         \<lparr>values_tree = bt_initialize, auth_tree = bt_initialize, blocks = [], node_allocs = as\<rparr>)))"

section \<open>The client\<close>

definition put_string :: "nat \<Rightarrow> string \<Rightarrow> string \<Rightarrow> string" where
  \<comment> \<open>\<open>strcpy\<close> into a member of the message\<close>
  "put_string i s msg = patch msg i (s @ [NUL])"

definition strip_newline :: "string \<Rightarrow> string c" where
  \<comment> \<open>an empty password is looked at before its start\<close>
  "strip_newline s = (if s = [] then Inl Out_of_bounds else Inr (if last s = NL then butlast s else s))"

definition command_of :: "string \<Rightarrow> int option" where
  "command_of arg = (case arg of
      CHR ''d'' # cs \<Rightarrow> Some CMD_DEL | CHR ''a'' # cs \<Rightarrow> Some CMD_ADD
    | CHR ''m'' # cs \<Rightarrow> Some CMD_MOD | CHR ''g'' # cs \<Rightarrow> Some CMD_GET | _ \<Rightarrow> None)"

definition send_message :: "string \<Rightarrow> unit prog" where
  \<comment> \<open>\<open>main\<close> returns 0 after \<open>close\<close>\<close>
  "send_message msg =
     or_die (Sock (Socket AF_INET SOCK_STREAM 0)) ''socket'' (\<lambda>s.
     or_die (Sock (Connect (rv s) ''127.0.0.1:50000'')) ''connect'' (\<lambda>_.
     call (Fd (Write (rv s) msg)) (\<lambda>n.
       if rv n \<noteq> int NV_REQ_SIZE then fatal ''Failed/Partial write''
       else call (Fd (Close (rv s))) (\<lambda>_. exit_prog EXIT_SUCCESS))))"

definition nv_message :: "string \<Rightarrow> int \<Rightarrow> string \<Rightarrow> string \<Rightarrow> string option \<Rightarrow> string" where
  \<comment> \<open>\<open>junk\<close>: the bytes of the uninitialised structure\<close>
  "nv_message junk command password key value =
     (let msg = put_string OFF_KEY key (patch (put_string OFF_PASSWORD password junk) 0 (le32 command)) in
      case value of None \<Rightarrow> msg | Some v \<Rightarrow> put_string OFF_VALUE v msg)"

definition nv_cl :: "string \<Rightarrow> string list \<Rightarrow> unit prog" where
  "nv_cl junk argv =
     (if 1 < length argv \<and> argv ! 1 = ''--help''
      then printf (''COMMANDS:'' @ [NL] @ ''    d key       - delete a key value pair'' @ [NL]
        @ ''    a key value - add a key value pair'' @ [NL] @ ''    m key value - modify a key value pair'' @ [NL]
        @ ''    g key       - get a value associated with a key'' @ [NL]) (exit_prog EXIT_SUCCESS)
      else if length argv < 3 then usageErr (hd argv @ '' command key value'')
      else printf ''Enter password: '' (lib ''fgets'' [30] (\<lambda>r.
        if is_null_reply r then stop (Fault Uninitialised)
        else checked (strip_newline (c_str (take 29 (bytes r)))) (\<lambda>password.
          case command_of (argv ! 1) of
            None \<Rightarrow> usageErr (hd argv @ '' command key value'')
          | Some command \<Rightarrow>
              if MAX_KEY \<le> length (argv ! 2) then cmdLineErr ''Key len must be less then 30''
              else if length argv = 4 \<and> MAX_VAL \<le> length (argv ! 3) then cmdLineErr ''Value len must be less then 100''
              else send_message (nv_message junk command password (argv ! 2)
                (if length argv = 4 then Some (argv ! 3) else None))))))"

section \<open>The specification\<close>

text \<open>Two finite maps; a step without a result is a crash of the server.\<close>

type_synonym nv_view = "(string \<Rightarrow> string option) \<times> (string \<Rightarrow> string option)"

definition lost :: "(string \<Rightarrow> string option) \<Rightarrow> string \<Rightarrow> bool" where
  \<comment> \<open>\<open>bt_lookup\<close> of this key dereferences a null pointer\<close>
  "lost m k \<longleftrightarrow> m k = None \<and> m \<noteq> Map.empty"

definition add_new :: "string \<Rightarrow> string \<Rightarrow> (string \<Rightarrow> string option) \<Rightarrow> string \<Rightarrow> string option" where
  "add_new k v m = (if m k = None then m(k \<mapsto> v) else m)"

definition nv_spec :: "int \<Rightarrow> string \<Rightarrow> string \<Rightarrow> string \<Rightarrow> nv_view \<Rightarrow> nv_view option" where
  "nv_spec command p k v vp = (case vp of (V, P) \<Rightarrow>
     if command = CMD_ADD then Some (add_new k v V, add_new k p P)
     else if command = CMD_DEL then
       (if lost P k then None else if P k = Some p then Some (V(k := None), P) else Some (V, P))
     else if command = CMD_MOD then
       (if lost P k then None
        else if P k = Some p
        then (if lost V k then None else Some (if V k = None then V else V(k \<mapsto> v), P))
        else Some (V, P))
     else if command = CMD_GET then (if lost V k then None else Some (V, P))
     else Some (V, P))"

definition deref :: "string option list \<Rightarrow> (string \<Rightarrow> nat option) \<Rightarrow> string \<Rightarrow> string option" where
  "deref bs m k = (case m k of None \<Rightarrow> None | Some a \<Rightarrow> bs ! a)"

abbreviation values_of :: "nv_state \<Rightarrow> string \<Rightarrow> nat option" where
  "values_of s \<equiv> tree_map (values_tree s)"

abbreviation auths_of :: "nv_state \<Rightarrow> string \<Rightarrow> nat option" where
  "auths_of s \<equiv> tree_map (auth_tree s)"

definition view :: "nv_state \<Rightarrow> nv_view" where
  "view s = (deref (blocks s) (values_of s), deref (blocks s) (auths_of s))"

lemma view_swap [simp]: "(V, P) = view s \<longleftrightarrow> view s = (V, P)"
  by auto

definition live :: "string option list \<Rightarrow> (string \<Rightarrow> nat option) \<Rightarrow> bool" where
  \<comment> \<open>every pointer points to a block in use, no two to the same\<close>
  "live bs m \<longleftrightarrow> (\<forall>k a. m k = Some a \<longrightarrow> a < length bs \<and> bs ! a \<noteq> None)
     \<and> (\<forall>k j a. m k = Some a \<longrightarrow> m j = Some a \<longrightarrow> k = j)"

definition nv_ok :: "nv_state \<Rightarrow> bool" where
  "nv_ok s \<longleftrightarrow> tree_ok (values_tree s) \<and> tree_ok (auth_tree s) \<and> list_all (\<lambda>b. b) (node_allocs s)
     \<and> live (blocks s) (values_of s) \<and> live (blocks s) (auths_of s)
     \<and> (\<forall>k j a. values_of s k = Some a \<longrightarrow> auths_of s j \<noteq> Some a)"

definition unused :: "nv_state \<Rightarrow> nat \<Rightarrow> bool" where
  "unused s a \<longleftrightarrow> (\<forall>k. values_of s k \<noteq> Some a \<and> auths_of s k \<noteq> Some a)"

lemma liveD: "live bs m \<Longrightarrow> m k = Some a \<Longrightarrow> \<exists>v. bs ! a = Some v \<and> a < length bs"
  by (auto simp: live_def)

lemma deref_empty: "live bs m \<Longrightarrow> deref bs m = Map.empty \<longleftrightarrow> m = Map.empty"
  unfolding live_def deref_def fun_eq_iff by (auto split: option.splits)

lemma deref_None: "live bs m \<Longrightarrow> deref bs m k = None \<longleftrightarrow> m k = None"
  unfolding live_def deref_def by (auto split: option.splits)

lemma lost_deref: "live bs m \<Longrightarrow> lost (deref bs m) k \<longleftrightarrow> m k = None \<and> m \<noteq> Map.empty"
  by (simp add: lost_def deref_empty deref_None)

lemma live_append: "live bs m \<Longrightarrow> live (bs @ [x]) m" "live bs m \<Longrightarrow> deref (bs @ [x]) m = deref bs m"
  unfolding live_def deref_def fun_eq_iff by (fastforce simp: nth_append split: option.splits)+

lemma live_bind:
  assumes "live bs m" "\<forall>j. m j \<noteq> Some a" "a < length bs" "bs ! a = Some v"
  shows "live bs (m(k \<mapsto> a))" "deref bs (m(k \<mapsto> a)) = (deref bs m)(k \<mapsto> v)"
  using assms unfolding live_def deref_def fun_eq_iff by auto

lemma live_remove: "live bs m \<Longrightarrow> live bs (m(k := None))" "deref bs (m(k := None)) = (deref bs m)(k := None)"
  unfolding live_def deref_def fun_eq_iff by auto

lemma live_update:
  assumes "live bs m" "\<forall>j. m j \<noteq> Some a"
  shows "live (bs[a := x]) m" "deref (bs[a := x]) m = deref bs m"
proof -
  have "bs[a := x] ! b = bs ! b" if "m k = Some b" for k b using assms(2) that by (cases "a = b") auto
  with assms(1) show "live (bs[a := x]) m" "deref (bs[a := x]) m = deref bs m"
    unfolding live_def deref_def fun_eq_iff by (auto split: option.splits)
qed

lemma live_write:
  assumes "live bs m" "m k = Some a"
  shows "live (bs[a := Some v]) m" "deref (bs[a := Some v]) m = (deref bs m)(k \<mapsto> v)"
  using assms unfolding live_def deref_def fun_eq_iff by (auto simp: nth_list_update split: option.splits)

section \<open>Steps on the state\<close>

lemma new_block:
  assumes "nv_ok s"
  shows "nv_ok (s\<lparr>blocks := blocks s @ [Some v]\<rparr>)" "view (s\<lparr>blocks := blocks s @ [Some v]\<rparr>) = view s"
    "unused (s\<lparr>blocks := blocks s @ [Some v]\<rparr>) (length (blocks s))"
  using assms live_append unfolding nv_ok_def view_def unused_def
  by (auto simp: live_def)

lemma free_block:
  assumes "nv_ok s" "unused s a"
  shows "nv_ok (s\<lparr>blocks := (blocks s)[a := None]\<rparr>)" "view (s\<lparr>blocks := (blocks s)[a := None]\<rparr>) = view s"
  using assms live_update[of "blocks s" _ a None] unfolding nv_ok_def view_def unused_def by auto

lemma add_value:
  assumes "nv_ok s" "length key \<le> BT_KEY_MAX" "unused s a" "a < length (blocks s)" "blocks s ! a = Some v"
    and new: "\<And>t as w'. values_of s key = None \<Longrightarrow>
      nv_ok (s\<lparr>values_tree := t, node_allocs := as\<rparr>) \<Longrightarrow>
      view (s\<lparr>values_tree := t, node_allocs := as\<rparr>) = ((fst (view s))(key \<mapsto> v), snd (view s)) \<Longrightarrow> wp (K t 0 as) Q w'"
    and old: "\<And>as w'. values_of s key \<noteq> None \<Longrightarrow> list_all (\<lambda>b. b) as \<Longrightarrow> wp (K (values_tree s) (-1) as) Q w'"
  shows "wp (in_tree s (bt_add (values_tree s) key a) K) Q w"
proof (cases "values_of s key")
  case None
  let ?st = "\<lparr>allocs = node_allocs s, cerrno = errno w\<rparr>"
  from assms(1) have ok: "tree_ok (values_tree s)" "no_alloc_failure ?st" by (simp_all add: nv_ok_def no_alloc_failure_def)
  obtain t st where t: "bt_add (values_tree s) key a ?st = Inr (t, 0, st)" "tree_ok t"
    "tree_map t = (values_of s)(key \<mapsto> a)" "no_alloc_failure st"
    using bt.add_absent[OF ok(1) None assms(2) ok(2)] by blast
  have "nv_ok (s\<lparr>values_tree := t, node_allocs := allocs st\<rparr>)"
    "view (s\<lparr>values_tree := t, node_allocs := allocs st\<rparr>) = ((fst (view s))(key \<mapsto> v), snd (view s))"
    using assms(1,3-5) t live_bind[of "blocks s" "values_of s" a v key]
    by (auto simp: nv_ok_def view_def unused_def no_alloc_failure_def)
  with None t(1) show ?thesis by (simp add: in_tree_def exec_simps wp_checked new)
next
  case (Some b)
  with assms(1) have "bt_add (values_tree s) key a st = Inr (values_tree s, -1, st\<lparr>cerrno := EINVAL\<rparr>)" for st
    using bt.add_present[of "values_tree s" key b a st] by (simp add: nv_ok_def)
  with Some assms(1) show ?thesis by (simp add: in_tree_def exec_simps wp_checked old nv_ok_def)
qed

lemma add_auth:
  assumes "nv_ok s" "length key \<le> BT_KEY_MAX" "unused s a" "a < length (blocks s)" "blocks s ! a = Some v"
    and new: "\<And>t as w'. auths_of s key = None \<Longrightarrow>
      nv_ok (s\<lparr>auth_tree := t, node_allocs := as\<rparr>) \<Longrightarrow>
      view (s\<lparr>auth_tree := t, node_allocs := as\<rparr>) = (fst (view s), (snd (view s))(key \<mapsto> v)) \<Longrightarrow> wp (K t 0 as) Q w'"
    and old: "\<And>as w'. auths_of s key \<noteq> None \<Longrightarrow> list_all (\<lambda>b. b) as \<Longrightarrow> wp (K (auth_tree s) (-1) as) Q w'"
  shows "wp (in_tree s (bt_add (auth_tree s) key a) K) Q w"
proof (cases "auths_of s key")
  case None
  let ?st = "\<lparr>allocs = node_allocs s, cerrno = errno w\<rparr>"
  from assms(1) have ok: "tree_ok (auth_tree s)" "no_alloc_failure ?st" by (simp_all add: nv_ok_def no_alloc_failure_def)
  obtain t st where t: "bt_add (auth_tree s) key a ?st = Inr (t, 0, st)" "tree_ok t"
    "tree_map t = (auths_of s)(key \<mapsto> a)" "no_alloc_failure st"
    using bt.add_absent[OF ok(1) None assms(2) ok(2)] by blast
  have "nv_ok (s\<lparr>auth_tree := t, node_allocs := allocs st\<rparr>)"
    "view (s\<lparr>auth_tree := t, node_allocs := allocs st\<rparr>) = (fst (view s), (snd (view s))(key \<mapsto> v))"
    using assms(1,3-5) t live_bind[of "blocks s" "auths_of s" a v key]
    by (auto simp: nv_ok_def view_def unused_def no_alloc_failure_def)
  with None t(1) show ?thesis by (simp add: in_tree_def exec_simps wp_checked new)
next
  case (Some b)
  with assms(1) have "bt_add (auth_tree s) key a st = Inr (auth_tree s, -1, st\<lparr>cerrno := EINVAL\<rparr>)" for st
    using bt.add_present[of "auth_tree s" key b a st] by (simp add: nv_ok_def)
  with Some assms(1) show ?thesis by (simp add: in_tree_def exec_simps wp_checked old nv_ok_def)
qed

lemma wp_store_copy:
  assumes "string_at msg off = Inr v" "length v < n"
    and "\<And>w'. wp (k (s\<lparr>blocks := blocks s @ [Some v]\<rparr>) (length (blocks s))) Q w'"
    and "\<And>w'. Q Blocked w'" "\<And>r w'. is_end r \<Longrightarrow> Q r w'"
  shows "wp (store_copy n off msg s k) Q w"
  unfolding store_copy_def using assms by (auto simp: exec_simps wp_checked)

section \<open>Refinement\<close>

definition fields :: "string \<Rightarrow> string \<Rightarrow> string \<Rightarrow> string \<Rightarrow> bool" where
  \<comment> \<open>a message whose strings fit their members\<close>
  "fields msg p k v \<longleftrightarrow> string_at msg OFF_PASSWORD = Inr p \<and> length p < PAS_LEN \<and> string_at msg OFF_KEY = Inr k
     \<and> length k < MAX_KEY \<and> string_at msg OFF_VALUE = Inr v \<and> length v < MAX_VAL"

definition nv_post :: "int \<Rightarrow> string \<Rightarrow> string \<Rightarrow> string \<Rightarrow> nv_state \<Rightarrow> nv_state result \<Rightarrow> world \<Rightarrow> bool" where
  "nv_post command p k v s r w' \<longleftrightarrow> (case r of
      Return s' \<Rightarrow> nv_ok s' \<and> nv_spec command p k v (view s) = Some (view s')
    | Fault f \<Rightarrow> f = Null_deref \<and> nv_spec command p k v (view s) = None
    | Blocked \<Rightarrow> True | _ \<Rightarrow> is_end r)"

lemma nv_post_simps [simp]:
  "nv_post c p k v s (Return s') w' \<longleftrightarrow> nv_ok s' \<and> nv_spec c p k v (view s) = Some (view s')"
  "nv_post c p k v s Blocked w'" "is_end r \<Longrightarrow> nv_post c p k v s r w'"
  by (auto simp: nv_post_def is_end_def)

lemma fields_key: "fields msg p k v \<Longrightarrow> length k \<le> BT_KEY_MAX"
  by (simp add: fields_def MAX_KEY_def BT_KEY_MAX_def)

lemma view_None: "nv_ok s \<Longrightarrow> fst (view s) k = None \<longleftrightarrow> values_of s k = None"
  "nv_ok s \<Longrightarrow> snd (view s) k = None \<longleftrightarrow> auths_of s k = None"
  by (simp_all add: nv_ok_def view_def deref_None)

lemma other_allocs:
  "nv_ok s \<Longrightarrow> list_all (\<lambda>b. b) as \<Longrightarrow> nv_ok (s\<lparr>node_allocs := as\<rparr>)"
  "view (s\<lparr>node_allocs := as\<rparr>) = view s" "unused (s\<lparr>node_allocs := as\<rparr>) a = unused s a"
  by (simp_all add: nv_ok_def view_def unused_def)

definition auth_post :: "string \<Rightarrow> string \<Rightarrow> nv_state \<Rightarrow> nv_state result \<Rightarrow> world \<Rightarrow> bool" where
  "auth_post p k s r w' \<longleftrightarrow> (case r of
      Return s' \<Rightarrow> nv_ok s' \<and> view s' = (fst (view s), add_new k p (snd (view s)))
    | Fault f \<Rightarrow> False | Blocked \<Rightarrow> True | _ \<Rightarrow> is_end r)"

lemma auth_post_simps [simp]:
  "auth_post p k s (Return s') w' \<longleftrightarrow> nv_ok s' \<and> view s' = (fst (view s), add_new k p (snd (view s)))"
  "auth_post p k s Blocked w'" "is_end r \<Longrightarrow> auth_post p k s r w'"
  by (auto simp: auth_post_def is_end_def)

lemma nv_add_password_adds:
  assumes "nv_ok s" "fields msg p k v"
  shows "wp (nv_add_password msg k s) (auth_post p k s) w"
  unfolding nv_add_password_def
proof (rule wp_store_copy[of msg OFF_PASSWORD p])
  fix w' :: world
  let ?s = "s\<lparr>blocks := blocks s @ [Some p]\<rparr>"
  note n = new_block[OF assms(1), of p]
  show "wp (in_tree ?s (bt_add (auth_tree ?s) k (length (blocks s))) (\<lambda>t rc as.
       let s1 = ?s\<lparr>auth_tree := t, node_allocs := as\<rparr> in
       if rc = -1 then errMsg ''Couldn't add password'' (ret (s1\<lparr>blocks := (blocks s1)[length (blocks s) := None]\<rparr>))
       else ret s1)) (auth_post p k s) w'"
  proof (rule add_auth[OF n(1) fields_key[OF assms(2)] n(3), of p], simp, simp, goal_cases)
    case (1 t as w1)
    have "snd (view s) k = None" using 1(1) n view_None(2)[OF n(1), of k] by simp
    with 1 n(2) show ?case by (simp add: exec_simps add_new_def)
  next
    case (2 as w1)
    let ?s1 = "?s\<lparr>node_allocs := as\<rparr>"
    have "snd (view s) k \<noteq> None" using 2(1) n view_None(2)[OF n(1), of k] by simp
    moreover have "nv_ok ?s1" "unused ?s1 (length (blocks s))" "view ?s1 = view s"
      using other_allocs(1)[OF n(1) 2(2)] n by (simp_all add: other_allocs(2,3))
    ultimately show ?case
      using free_block[of ?s1 "length (blocks s)"] by (auto simp: exec_simps add_new_def)
  qed
qed (use assms(2) in \<open>simp_all add: fields_def\<close>)

lemma nv_add_refines:
  assumes "nv_ok s" "fields msg p k v"
  shows "wp (nv_add msg s) (nv_post CMD_ADD p k v s) w"
  unfolding nv_add_def
proof (rule wp_store_copy[of msg OFF_VALUE v])
  fix w' :: world
  let ?s = "s\<lparr>blocks := blocks s @ [Some v]\<rparr>" and ?a = "length (blocks s)"
  note n = new_block[OF assms(1), of v]
  have rest: "wp (nv_add_password msg k s2) (nv_post CMD_ADD p k v s) w1"
    if "nv_ok s2" "view s2 = (add_new k v (fst (view s)), snd (view s))" for s2 w1
  proof (rule wp_mono[OF nv_add_password_adds[OF that(1) assms(2)]])
    fix r w2
    assume "auth_post p k s2 r w2"
    with that(2) show "nv_post CMD_ADD p k v s r w2"
      by (cases r) (auto simp: auth_post_def nv_post_def nv_spec_def split: prod.splits)
  qed
  have "wp (in_tree ?s (bt_add (values_tree ?s) k ?a) (\<lambda>t rc as. let s1 = ?s\<lparr>values_tree := t, node_allocs := as\<rparr> in
       (if rc = -1 then errMsg ''Duplicate key entered'' else (\<lambda>k. k))
         (nv_add_password msg k (if rc = -1 then s1\<lparr>blocks := (blocks s1)[?a := None]\<rparr> else s1))))
       (nv_post CMD_ADD p k v s) w'"
  proof (rule add_value[OF n(1) fields_key[OF assms(2)] n(3), of v], simp, simp, goal_cases)
    case (1 t as w1)
    have "fst (view s) k = None" using 1(1) n view_None(1)[OF n(1), of k] by simp
    with 1 n(2) show ?case by (simp add: add_new_def rest)
  next
    case (2 as w1)
    let ?s1 = "?s\<lparr>node_allocs := as\<rparr>"
    have "fst (view s) k \<noteq> None" using 2(1) n view_None(1)[OF n(1), of k] by simp
    then have "view s = (add_new k v (fst (view s)), snd (view s))" by (auto simp: add_new_def)
    moreover have "nv_ok ?s1" "unused ?s1 ?a" "view ?s1 = view s"
      using other_allocs(1)[OF n(1) 2(2)] n by (simp_all add: other_allocs(2,3))
    ultimately show ?case
      using free_block[of ?s1 ?a] by (simp add: exec_simps rest)
  qed
  then show "wp (checked (string_at msg OFF_KEY) (\<lambda>key. in_tree ?s (bt_add (values_tree ?s) key ?a)
      (\<lambda>t rc as. let s1 = ?s\<lparr>values_tree := t, node_allocs := as\<rparr> in
       (if rc = -1 then errMsg ''Duplicate key entered'' else (\<lambda>k. k))
         (nv_add_password msg key (if rc = -1 then s1\<lparr>blocks := (blocks s1)[?a := None]\<rparr> else s1)))))
       (nv_post CMD_ADD p k v s) w'"
    using assms(2) by (simp add: fields_def wp_checked)
qed (use assms(2) in \<open>simp_all add: fields_def\<close>)

lemma lookup_view:
  assumes "nv_ok s"
  shows "bt_lookup (values_tree s) k = (case values_of s k of Some a \<Rightarrow> Inr (Some a, 0)
      | None \<Rightarrow> if lost (fst (view s)) k then Inl Null_deref else Inr (None, -1))"
    "bt_lookup (auth_tree s) k = (case auths_of s k of Some a \<Rightarrow> Inr (Some a, 0)
      | None \<Rightarrow> if lost (snd (view s)) k then Inl Null_deref else Inr (None, -1))"
  using assms by (auto simp: nv_ok_def view_def lost_deref bt.lookup_absent bt.lookup_present split: option.splits)

lemma block_view:
  assumes "nv_ok s"
  shows "values_of s k = Some a \<Longrightarrow> \<exists>v. block_at s (Some a) = Inr v \<and> fst (view s) k = Some v"
    "auths_of s k = Some a \<Longrightarrow> \<exists>v. block_at s (Some a) = Inr v \<and> snd (view s) k = Some v"
  using assms liveD[of "blocks s" "values_of s" k a] liveD[of "blocks s" "auths_of s" k a]
  by (auto simp: nv_ok_def view_def block_at_def deref_def)

lemma authenticated_refines:
  assumes "nv_ok s" "fields msg p k v" "c = CMD_DEL \<or> c = CMD_MOD"
    and "\<And>w'. snd (view s) k = Some p \<Longrightarrow> wp (K k) (nv_post c p k v s) w'"
  shows "wp (authenticated msg s K) (nv_post c p k v s) w"
proof -
  have f: "string_at msg OFF_KEY = Inr k" "string_at msg OFF_PASSWORD = Inr p"
    using assms(2) by (simp_all add: fields_def)
  have c: "CMD_DEL \<noteq> CMD_ADD" "CMD_MOD \<noteq> CMD_ADD" "CMD_DEL \<noteq> CMD_MOD"
    by (simp_all add: CMD_DEL_def CMD_ADD_def CMD_MOD_def)
  show ?thesis
  proof (cases "auths_of s k")
    case None
    then have n: "snd (view s) k = None" using view_None(2)[OF assms(1)] by simp
    obtain V P where V: "view s = (V, P)" by fastforce
    show ?thesis
      unfolding authenticated_def f wp_checked lookup_view(2)[OF assms(1)]
      using None n V assms(1,3) c
      by (auto simp: exec_simps wp_checked nv_post_def[of _ _ _ _ _ "Fault f" for f] nv_spec_def)
  next
    case (Some a)
    then obtain q where q: "block_at s (Some a) = Inr q" "snd (view s) k = Some q"
      using block_view(2)[OF assms(1)] by blast
    obtain V P where V: "view s = (V, P)" by fastforce
    show ?thesis
      unfolding authenticated_def f wp_checked lookup_view(2)[OF assms(1)]
      using Some q V assms(1,3,4) c
      by (auto simp: exec_simps wp_checked f nv_spec_def lost_def)
  qed
qed

lemma commands_distinct [simp]:
  "CMD_DEL \<noteq> CMD_ADD" "CMD_MOD \<noteq> CMD_ADD" "CMD_MOD \<noteq> CMD_DEL" "CMD_DEL \<noteq> CMD_MOD"
  "CMD_GET \<noteq> CMD_ADD" "CMD_GET \<noteq> CMD_DEL" "CMD_GET \<noteq> CMD_MOD"
  by (simp_all add: CMD_DEL_def CMD_ADD_def CMD_MOD_def CMD_GET_def)

lemma nv_del_refines:
  assumes "nv_ok s" "fields msg p k v"
  shows "wp (nv_del msg s) (nv_post CMD_DEL p k v s) w"
  unfolding nv_del_def
proof (rule authenticated_refines[OF assms], simp)
  fix w' :: world
  assume pw: "snd (view s) k = Some p"
  let ?st = "\<lparr>allocs = node_allocs s, cerrno = errno w'\<rparr>"
  have spec: "nv_spec CMD_DEL p k v (view s) = Some ((fst (view s))(k := None), snd (view s))"
    using pw by (cases "view s") (simp add: nv_spec_def lost_def)
  show "wp (in_tree s (bt_delete (values_tree s) k) (\<lambda>t rc as.
       (if rc = -1 then errMsg ''Key does not exist'' else (\<lambda>k. k))
         (ret (s\<lparr>values_tree := t, node_allocs := as\<rparr>)))) (nv_post CMD_DEL p k v s) w'"
  proof (cases "values_of s k")
    case None
    then have "(fst (view s))(k := None) = fst (view s)" using view_None(1)[OF assms(1), of k] by (simp add: fun_upd_idem)
    moreover obtain e where "bt_delete (values_tree s) k ?st = Inr (values_tree s, -1, ?st\<lparr>cerrno := e\<rparr>)"
      using bt.delete_absent[OF _ None, of ?st] assms(1) by (auto simp: nv_ok_def)
    ultimately show ?thesis
      using spec assms(1) by (simp add: in_tree_def exec_simps wp_checked)
  next
    case (Some a)
    obtain t where t: "bt_delete (values_tree s) k ?st = Inr (t, 0, ?st)" "tree_ok t"
      "tree_map t = (values_of s)(k := None)"
      using bt.delete_present[OF _ Some, of ?st] assms(1) by (auto simp: nv_ok_def)
    have "nv_ok (s\<lparr>values_tree := t\<rparr>)" "view (s\<lparr>values_tree := t\<rparr>) = ((fst (view s))(k := None), snd (view s))"
      using assms(1) t live_remove[of "blocks s" "values_of s" k] by (auto simp: nv_ok_def view_def)
    with t(1) spec show ?thesis by (simp add: in_tree_def exec_simps wp_checked)
  qed
qed

lemma nv_mod_refines:
  assumes "nv_ok s" "fields msg p k v"
  shows "wp (nv_mod msg s) (nv_post CMD_MOD p k v s) w"
  unfolding nv_mod_def
proof (rule authenticated_refines[OF assms], simp)
  fix w' :: world
  assume pw: "snd (view s) k = Some p"
  obtain V P where V: "view s = (V, P)" by fastforce
  have f: "string_at msg OFF_VALUE = Inr v" "\<not> MAX_VAL \<le> length v" using assms(2) by (simp_all add: fields_def)
  show "wp (checked (bt_lookup (values_tree s) k) (\<lambda>(lookup, rc).
       if rc = -1 then errMsg ''Key value pair does not exist'' (ret s)
       else checked (block_at s lookup) (\<lambda>v.
         printf (v @ ''->'') (checked (string_at msg OFF_VALUE) (\<lambda>v'.
           if MAX_VAL \<le> length v' then stop (Fault Buffer_overflow)
           else printf (v' @ [NL]) (ret (s\<lparr>blocks := (blocks s)[the lookup := Some v']\<rparr>)))))))
       (nv_post CMD_MOD p k v s) w'"
  proof (cases "values_of s k")
    case None
    then have "V k = None" using view_None(1)[OF assms(1), of k] V by simp
    then show ?thesis
      unfolding lookup_view(1)[OF assms(1)] using None V pw assms(1)
      by (auto simp: wp_checked exec_simps nv_post_def[of _ _ _ _ _ "Fault f" for f] nv_spec_def lost_def)
  next
    case (Some a)
    obtain q where q: "block_at s (Some a) = Inr q" "V k = Some q"
      using block_view(1)[OF assms(1) Some] V by auto
    have "\<forall>j. auths_of s j \<noteq> Some a" using assms(1) Some by (auto simp: nv_ok_def)
    then have "nv_ok (s\<lparr>blocks := (blocks s)[a := Some v]\<rparr>)"
      "view (s\<lparr>blocks := (blocks s)[a := Some v]\<rparr>) = (V(k \<mapsto> v), P)"
      using assms(1) V Some live_write[of "blocks s" "values_of s" k a v] live_update[of "blocks s" "auths_of s" a "Some v"]
      by (auto simp: nv_ok_def view_def)
    then show ?thesis
      unfolding lookup_view(1)[OF assms(1)] using Some q V pw f
      by (simp add: wp_checked exec_simps nv_spec_def lost_def)
  qed
qed

lemma nv_get_refines:
  assumes "nv_ok s" "fields msg p k v"
  shows "wp (nv_get msg s) (nv_post CMD_GET p k v s) w"
proof -
  obtain V P where V: "view s = (V, P)" by fastforce
  have f: "string_at msg OFF_KEY = Inr k" using assms(2) by (simp add: fields_def)
  show ?thesis
  proof (cases "values_of s k")
    case None
    then show ?thesis
      unfolding nv_get_def f wp_checked lookup_view(1)[OF assms(1)] using V assms(1)
      by (auto simp: wp_checked exec_simps nv_post_def[of _ _ _ _ _ "Fault f" for f] nv_spec_def)
  next
    case (Some a)
    then obtain q where "block_at s (Some a) = Inr q" "V k = Some q"
      using block_view(1)[OF assms(1) Some] V by auto
    with Some V assms(1) show ?thesis
      unfolding nv_get_def f wp_checked lookup_view(1)[OF assms(1)]
      by (simp add: wp_checked exec_simps nv_spec_def lost_def)
  qed
qed

section \<open>Messages\<close>

definition cstr_in :: "string \<Rightarrow> nat \<Rightarrow> string \<Rightarrow> bool" where
  "cstr_in a i s \<longleftrightarrow> take (Suc (length s)) (drop i a) = s @ [NUL] \<and> NUL \<notin> set s"

lemma string_at_cstr: "cstr_in a i s \<Longrightarrow> string_at a i = Inr s"
proof -
  assume c: "cstr_in a i s"
  then have "drop i a = s @ NUL # drop (Suc (length s)) (drop i a)"
    unfolding cstr_in_def by (metis append.assoc append_Cons append_Nil append_take_drop_id)
  then have d: "drop i a = s @ NUL # drop (Suc (length s) + i) a" by simp
  show ?thesis
    unfolding string_at_def d using c by (simp add: cstr_in_def)
qed

lemma cstr_in_put: "i \<le> length a \<Longrightarrow> NUL \<notin> set s \<Longrightarrow> cstr_in (put_string i s a) i s"
  by (simp add: cstr_in_def put_string_def patch_def)

lemma patch_before: "i + n \<le> j \<Longrightarrow> j \<le> length a \<Longrightarrow> take n (drop i (patch a j t)) = take n (drop i a)"
proof -
  assume i: "i + n \<le> j" and j: "j \<le> length a"
  have "drop i (patch a j t) = drop i (take j a) @ t @ drop (j + length t) a" using i j by (simp add: patch_def)
  moreover have "n \<le> length (drop i (take j a))" using i j by simp
  ultimately have "take n (drop i (patch a j t)) = take n (drop i (take j a))" by simp
  also have "\<dots> = take n (drop i a)" using i by (simp add: drop_take min_absorb1)
  finally show ?thesis .
qed

lemma patch_after: "j + length t \<le> i \<Longrightarrow> j \<le> length a \<Longrightarrow> drop i (patch a j t) = drop i a"
  by (simp add: patch_def)

lemma cstr_in_patch:
  "cstr_in a i s \<Longrightarrow> j \<le> length a \<Longrightarrow> i + Suc (length s) \<le> j \<or> j + length t \<le> i \<Longrightarrow> cstr_in (patch a j t) i s"
  unfolding cstr_in_def using patch_before[of i "Suc (length s)" j a t] patch_after[of j t i a] by metis

lemma cstr_in_put_other:
  "cstr_in a i s \<Longrightarrow> j \<le> length a \<Longrightarrow> i + Suc (length s) \<le> j \<or> j + Suc (length t) \<le> i \<Longrightarrow>
    cstr_in (put_string j t a) i s"
  unfolding put_string_def by (rule cstr_in_patch) simp_all

lemma int32_at_take: "take 4 a = take 4 b \<Longrightarrow> 4 \<le> length a \<Longrightarrow> 4 \<le> length b \<Longrightarrow> int32_at a 0 = int32_at b 0"
proof -
  assume t: "take 4 a = take 4 b" and l: "4 \<le> length a" "4 \<le> length b"
  have "a ! k = b ! k" if "k < 4" for k using t that by (metis nth_take)
  then show ?thesis by (simp add: int32_at_def)
qed

lemmas offsets = OFF_PASSWORD_def OFF_KEY_def OFF_VALUE_def PAS_LEN_def MAX_KEY_def MAX_VAL_def NV_REQ_SIZE_def

lemma message_fields:
  assumes "length junk = NV_REQ_SIZE" "length p < PAS_LEN" "length k < MAX_KEY" "length v < MAX_VAL"
    "NUL \<notin> set p" "NUL \<notin> set k" "NUL \<notin> set v"
  shows "fields (nv_message junk c p k (Some v)) p k v" "int32_at (nv_message junk c p k (Some v)) 0 = to_int32 c"
    "length (nv_message junk c p k (Some v)) = NV_REQ_SIZE"
proof -
  let ?a = "put_string OFF_PASSWORD p junk"
  let ?b = "patch ?a 0 (le32 c)"
  let ?d = "put_string OFF_KEY k ?b"
  have la: "length ?a = NV_REQ_SIZE" using assms by (simp add: put_string_def offsets)
  then have lb: "length ?b = NV_REQ_SIZE" by (simp add: offsets)
  then have ld: "length ?d = NV_REQ_SIZE" using assms by (simp add: put_string_def offsets)
  then show len: "length (nv_message junk c p k (Some v)) = NV_REQ_SIZE"
    using assms by (simp add: nv_message_def put_string_def offsets)
  have p: "cstr_in ?b OFF_PASSWORD p"
    using assms by (intro cstr_in_patch cstr_in_put) (simp_all add: offsets)
  have kb: "OFF_KEY \<le> length ?b" "OFF_VALUE \<le> length ?d" unfolding lb ld by (simp_all add: offsets)
  have before: "OFF_PASSWORD + Suc (length p) \<le> OFF_KEY" "OFF_PASSWORD + Suc (length p) \<le> OFF_VALUE"
    "OFF_KEY + Suc (length k) \<le> OFF_VALUE"
    using assms by (simp_all add: offsets)
  have d: "cstr_in ?d OFF_PASSWORD p" "cstr_in ?d OFF_KEY k"
    by (rule cstr_in_put_other[OF p kb(1) disjI1[OF before(1)]], rule cstr_in_put[OF kb(1) assms(6)])
  have "cstr_in (put_string OFF_VALUE v ?d) OFF_PASSWORD p" "cstr_in (put_string OFF_VALUE v ?d) OFF_KEY k"
    by (rule cstr_in_put_other[OF d(1) kb(2) disjI1[OF before(2)]],
      rule cstr_in_put_other[OF d(2) kb(2) disjI1[OF before(3)]])
  moreover have "cstr_in (put_string OFF_VALUE v ?d) OFF_VALUE v" by (rule cstr_in_put[OF kb(2) assms(7)])
  ultimately show "fields (nv_message junk c p k (Some v)) p k v"
    unfolding fields_def nv_message_def Let_def option.case by (intro conjI string_at_cstr assms(2-4))
  have t: "take 4 (put_string j s a) = take 4 a" if "OFF_KEY \<le> j" "j \<le> length a" for j s a
    using that patch_before[of 0 4 j a "s @ [NUL]"] by (simp add: put_string_def offsets)
  have "take 4 (nv_message junk c p k (Some v)) = take 4 ?b"
    unfolding nv_message_def Let_def option.case using t[OF _ kb(2)] t[OF _ kb(1)] by (simp add: OFF_VALUE_def)
  also have "\<dots> = take 4 (le32 c)" by (simp add: patch_def)
  finally have "take 4 (nv_message junk c p k (Some v)) = take 4 (le32 c)" .
  then show "int32_at (nv_message junk c p k (Some v)) 0 = to_int32 c"
    using int32_at_take[of "nv_message junk c p k (Some v)" "le32 c"] len by (simp add: offsets)
qed

lemma nv_command_spec:
  assumes "nv_ok s" "fields msg p k v"
  shows "wp (nv_command msg s) (nv_post (int32_at msg 0) p k v s) w"
proof -
  obtain V P where V: "view s = (V, P)" by fastforce
  show ?thesis
    using nv_add_refines[OF assms] nv_del_refines[OF assms] nv_mod_refines[OF assms] nv_get_refines[OF assms] assms(1) V
    by (auto simp: nv_command_def Let_def exec_simps nv_spec_def)
qed

section \<open>Properties\<close>

text \<open>C19: The server refines two finite maps. From every state in which the trees are search trees and no
  two pointers share a block, a well-formed request of any kind either ends in such a state, and the maps of values and of passwords
  have changed as the specification says, with no block left dangling; or it crashes the server, exactly where the specification
  has no result: when a key is looked up that is not in a tree which is not empty.\<close>

theorem nv_command_refines:
  assumes "nv_ok s" "fields msg p k v"
  shows "wp (nv_command msg s) (nv_post (int32_at msg 0) p k v s) w"
  by (rule nv_command_spec[OF assms])

definition nv_start :: nv_state where
  "nv_start = \<lparr>values_tree = bt_initialize, auth_tree = bt_initialize, blocks = [], node_allocs = []\<rparr>"

lemma nv_start_ok: "nv_ok nv_start" "view nv_start = (Map.empty, Map.empty)"
  by (simp_all add: nv_start_def nv_ok_def view_def live_def deref_def fun_eq_iff bt.empty_ok bt.empty_contents)

definition demo_message :: "int \<Rightarrow> string \<Rightarrow> string \<Rightarrow> string \<Rightarrow> string" where
  "demo_message c p k v = nv_message (replicate NV_REQ_SIZE NUL) c p k (Some v)"

lemma demo_fields: "fields (demo_message c ''pw'' ''key'' ''val'') ''pw'' ''key'' ''val''"
  "fields (demo_message c ''new'' ''key'' ''val'') ''new'' ''key'' ''val''"
  unfolding demo_message_def by (rule message_fields(1); simp add: offsets NUL_def)+

lemma demo_command: "int32_at (demo_message c ''pw'' ''key'' ''val'') 0 = to_int32 c"
  "int32_at (demo_message c ''new'' ''key'' ''val'') 0 = to_int32 c"
  unfolding demo_message_def by (rule message_fields(2); simp add: offsets NUL_def)+

lemma nv_command_refines_witness:
  "wp (nv_command (demo_message CMD_ADD ''pw'' ''key'' ''val'') nv_start) (\<lambda>r w'. case r of
     Return s' \<Rightarrow> view s' = ([''key'' \<mapsto> ''val''], [''key'' \<mapsto> ''pw'']) | Fault f \<Rightarrow> False | _ \<Rightarrow> True) (booted [])"
proof -
  have c: "to_int32 CMD_ADD = CMD_ADD" by (simp add: CMD_ADD_def int_limits)
  show ?thesis
    using nv_command_refines[OF nv_start_ok(1) demo_fields(1)[of CMD_ADD], of "booted []"]
    unfolding demo_command c
    by (rule wp_mono) (auto simp: nv_post_def nv_spec_def nv_start_ok add_new_def split: result.splits)
qed

text \<open>C20: What the client encodes the server decodes: for a password, a key and a value that fit their members,
  and whatever the uninitialised structure held before, the message has the size the server reads and
  every member comes out as it was put in.\<close>

theorem nv_message_round_trip:
  assumes "length junk = NV_REQ_SIZE" "length p < PAS_LEN" "length k < MAX_KEY" "length v < MAX_VAL"
    "NUL \<notin> set p" "NUL \<notin> set k" "NUL \<notin> set v" "c \<in> {CMD_DEL, CMD_ADD, CMD_MOD, CMD_GET}"
  shows "let msg = nv_message junk c p k (Some v) in length msg = NV_REQ_SIZE \<and> int32_at msg 0 = c
    \<and> string_at msg OFF_PASSWORD = Inr p \<and> string_at msg OFF_KEY = Inr k \<and> string_at msg OFF_VALUE = Inr v"
proof -
  have "to_int32 c = c" using assms(8) by (auto simp: CMD_DEL_def CMD_ADD_def CMD_MOD_def CMD_GET_def int_limits)
  then show ?thesis using message_fields[OF assms(1-7), of c] by (simp add: Let_def fields_def)
qed

lemma nv_message_round_trip_witness:
  "string_at (nv_message (replicate NV_REQ_SIZE (CHR ''?'')) CMD_MOD ''secret'' ''host'' (Some ''10.0.0.1'')) OFF_VALUE
    = Inr ''10.0.0.1''"
  using nv_message_round_trip[of "replicate NV_REQ_SIZE (CHR ''?'')" "''secret''" "''host''" "''10.0.0.1''" CMD_MOD]
  by (simp add: offsets NUL_def Let_def)

text \<open>A password outlives its key: when a key has been deleted with its password and is added again with
  another one, the server keeps the old password, and a request to delete the new entry with the password it
  was added with changes nothing.\<close>

theorem nv_old_password_stays:
  assumes "nv_ok s" "snd (view s) k = Some p" "fst (view s) k \<noteq> None" "q \<noteq> p"
    "fields m1 p k v1" "fields m2 q k v2" "fields m3 q k v3"
    "int32_at m1 0 = CMD_DEL" "int32_at m2 0 = CMD_ADD" "int32_at m3 0 = CMD_DEL"
  shows "wp (seq (nv_command m1 s) (\<lambda>s. seq (nv_command m2 s) (nv_command m3))) (\<lambda>r w'. case r of
     Return s' \<Rightarrow> fst (view s') k = Some v2 \<and> snd (view s') k = Some p | Fault f \<Rightarrow> False | _ \<Rightarrow> True) w"
proof -
  let ?Q = "\<lambda>r w'. case r of Return s' \<Rightarrow> fst (view s') k = Some v2 \<and> snd (view s') k = Some p | Fault f \<Rightarrow> False | _ \<Rightarrow> True"
  have 3: "wp (nv_command m3 s2) ?Q w2" if "nv_ok s2" "fst (view s2) k = Some v2" "snd (view s2) k = Some p" for s2 w2
  proof -
    obtain V P where "view s2 = (V, P)" by fastforce
    with that assms(4,10) show ?thesis
      by (intro wp_mono[OF nv_command_spec[OF that(1) assms(7)]])
        (auto simp: nv_post_def nv_spec_def lost_def split: result.splits)
  qed
  have 2: "wp (nv_command m2 s1) (lift (\<lambda>x. wp (nv_command m3 x) ?Q) ?Q) w1"
    if s1: "nv_ok s1" "fst (view s1) k = None" "snd (view s1) k = Some p" for s1 w1
  proof (rule wp_mono[OF nv_command_spec[OF s1(1) assms(6)]])
    fix r w2
    assume "nv_post (int32_at m2 0) q k v2 s1 r w2"
    then show "lift (\<lambda>x. wp (nv_command m3 x) ?Q) ?Q r w2"
      using s1 assms(9) by (cases r) (auto simp: nv_post_def nv_spec_def add_new_def intro!: 3 split: prod.splits)
  qed
  show ?thesis
    unfolding wp_seq
  proof (rule wp_mono[OF nv_command_spec[OF assms(1,5)]])
    fix r w1
    assume "nv_post (int32_at m1 0) p k v1 s r w1"
    then show "lift (\<lambda>x. wp (nv_command m2 x) (lift (\<lambda>x. wp (nv_command m3 x) ?Q) ?Q)) ?Q r w1"
      using assms(2,8) by (cases r) (auto simp: nv_post_def nv_spec_def lost_def intro!: 2 split: prod.splits)
  qed
qed

definition nv_one :: nv_state where
  \<comment> \<open>one key, with its value and its password\<close>
  "nv_one = \<lparr>values_tree = \<lparr>root = Node NullNode NullNode (Some ''key'') 0\<rparr>,
     auth_tree = \<lparr>root = Node NullNode NullNode (Some ''key'') 1\<rparr>, blocks = [Some ''val'', Some ''pw''], node_allocs = []\<rparr>"

lemma nv_one_ok: "nv_ok nv_one" "view nv_one = ([''key'' \<mapsto> ''val''], [''key'' \<mapsto> ''pw''])"
  by (auto simp: nv_one_def nv_ok_def view_def live_def deref_def fun_eq_iff tree_ok_def tree_map_def BT_KEY_MAX_def
      bt_map.simps split: if_splits)

lemma nv_old_password_stays_witness:
  "wp (seq (nv_command (demo_message CMD_DEL ''pw'' ''key'' ''val'') nv_one)
        (\<lambda>s. seq (nv_command (demo_message CMD_ADD ''new'' ''key'' ''val'') s) (nv_command (demo_message CMD_DEL ''new'' ''key'' ''val''))))
     (\<lambda>r w'. case r of Return s' \<Rightarrow> fst (view s') ''key'' = Some ''val'' \<and> snd (view s') ''key'' = Some ''pw''
        | Fault f \<Rightarrow> False | _ \<Rightarrow> True) (booted [])"
  by (rule nv_old_password_stays[OF nv_one_ok(1) _ _ _ demo_fields(1,2,2)])
    (simp_all add: nv_one_ok(2) demo_command CMD_DEL_def CMD_ADD_def int_limits)

end
