(* ===== verification/ProcTree.thy ===== *)
theory ProcTree
  imports Idioms "HOL-Library.Multiset"
begin

text \<open>
  \<open>12_System_And_Process_Info/proc_tree_view.c\<close>: reads the parent of every process from \<open>/proc\<close> and draws
  the tree of processes. A \<open>struct ProcessInfo *\<close> is the index of its entry in \<open>dirList\<close>. \<open>fgetln\<close>, which is not
  part of the repository, is a library call that answers with a line.
\<close>

definition ID_MAX :: nat where "ID_MAX = 32"

record ProcessInfo =
  pid :: string
  ppid :: string
  command :: string
  taken :: bool
  parent :: bool

section \<open>Lines of a status file\<close>

definition getCharIndex :: "string \<Rightarrow> char \<Rightarrow> nat" where
  "getCharIndex line target = length (takeWhile (\<lambda>c. c \<noteq> target) line)"

definition getValue :: "string \<Rightarrow> string c" where
  \<comment> \<open>into a static buffer of \<open>ID_MAX\<close> bytes; without a tab the loop starts behind the null byte\<close>
  "getValue line = (let startIndex = getCharIndex line TAB + 1 in
     if length line < startIndex then Inl Out_of_bounds
     else let v = takeWhile (\<lambda>c. c \<noteq> NL \<and> c \<noteq> TAB) (drop startIndex line) in
       if ID_MAX \<le> length v then Inl Buffer_overflow else Inr v)"

definition getField :: "string \<Rightarrow> string c" where
  "getField line = (let delim = getCharIndex line (CHR '':'') in
     if ID_MAX \<le> delim then Inl Buffer_overflow else Inr (take delim line))"

definition proc_path :: "string \<Rightarrow> string \<Rightarrow> (string \<Rightarrow> 'a prog) \<Rightarrow> 'a prog" where
  \<comment> \<open>\<open>"/proc/" + processID + tail\<close> in an allocated buffer of 4096 bytes\<close>
  "proc_path processID tail k = lib ''malloc'' [4096] (\<lambda>r.
     if is_null_reply r then errExit ''malloc''
     else let path = ''/proc/'' @ processID @ tail in
       if 4096 \<le> length path then stop (Fault Buffer_overflow) else k path)"

definition getID_line :: "int \<Rightarrow> string \<Rightarrow> unit \<Rightarrow> (unit + string) prog" where
  "getID_line fd fname u = lib ''fgetln'' [fd] (\<lambda>r.
     if is_null_reply r then errExit ''fgetln''
     else checked (getField (bytes r)) (\<lambda>f.
       if strcmp fname f = 0 then checked (getValue (bytes r)) leave else again ()))"

definition getID :: "string \<Rightarrow> string \<Rightarrow> string prog" where
  \<comment> \<open>the descriptor is not closed\<close>
  "getID processID fname = proc_path processID ''/status'' (\<lambda>path.
     or_die (Path (Open path ''O_RDONLY'' 0)) ''open'' (\<lambda>fd. loop (getID_line (rv fd) fname) ()))"

definition getCommand :: "string \<Rightarrow> string prog" where
  "getCommand processID = proc_path processID ''/cmdline'' (\<lambda>path.
     or_die (Path (Open path ''O_RDONLY'' 0)) ''open'' (\<lambda>fd.
       lib ''fgetln'' [rv fd] (\<lambda>r.
         if is_null_reply r then errExit ''fgetln''
         else call (Fd (Close (rv fd))) (\<lambda>_.
           let n = length (bytes r) in
           ret (c_str (map (\<lambda>c. if c = NUL then CHR '' '' else c) (take (n - 1) (bytes r)) @ drop (n - 1) (bytes r)))))))"

section \<open>Drawing\<close>

text \<open>\<open>shown\<close> collects what \<open>printf\<close> is given, a process identifier apart from the decoration around it.\<close>

datatype piece = Deco string | ProcId string

record tree_state =
  dirList :: "ProcessInfo list"
  indentLevels :: "int vec"
  shown :: "piece list"
  mem :: cstate

definition show_piece :: "piece \<Rightarrow> tree_state \<Rightarrow> tree_state" where
  "show_piece p s = s\<lparr>shown := shown s @ [p]\<rparr>"

definition hasChildren :: "string \<Rightarrow> ProcessInfo list \<Rightarrow> bool" where
  "hasChildren p ps = list_ex (\<lambda>e. strcmp (ppid e) p = 0 \<and> \<not> taken e) ps"

fun find_from :: "string \<Rightarrow> nat \<Rightarrow> ProcessInfo list \<Rightarrow> nat option" where
  \<comment> \<open>the loop of \<open>findChild\<close>, from index \<open>i\<close> on\<close>
  "find_from p i [] = None"
| "find_from p i (e # es) = (if strcmp (ppid e) p = 0 \<and> \<not> taken e then Some i else find_from p (Suc i) es)"

definition findChild :: "string \<Rightarrow> ProcessInfo list \<Rightarrow> (nat \<times> ProcessInfo list) option" where
  "findChild p ps = (case find_from p 0 ps of None \<Rightarrow> None
     | Some i \<Rightarrow> Some (i, ps[i := (ps ! i)\<lparr>taken := True\<rparr>]))"

definition getSpacing :: "int \<Rightarrow> cstate \<Rightarrow> (string \<times> cstate) c" where
  "getSpacing n st = (let (ok, st') = malloc_ok st in
     if ok then Inr (replicate (nat (if n < 0 then 0 else n)) (CHR '' ''), st') else Inl Null_deref)"

fun put_bars :: "int list \<Rightarrow> string \<Rightarrow> string c" where
  \<comment> \<open>\<open>|\<close> below every level still open; the null byte must not be overwritten either\<close>
  "put_bars [] spacing = Inr spacing"
| "put_bars (l # ls) spacing =
     (if 2 < l then
        (if int (length spacing) \<le> l - 2 then Inl Buffer_overflow
         else put_bars ls (spacing[nat (l - 2) := CHR ''|'']))
      else put_bars ls spacing)"

lemma find_from_spec:
  "find_from p i ps = Some j \<Longrightarrow> i \<le> j \<and> j - i < length ps \<and> ppid (ps ! (j - i)) = p \<and> \<not> taken (ps ! (j - i))"
  "find_from p i ps = None \<Longrightarrow> \<not> hasChildren p ps"
  by (induction p i ps rule: find_from.induct) (auto simp: hasChildren_def nth_Cons' split: if_splits)

definition untaken :: "ProcessInfo list \<Rightarrow> nat" where
  "untaken ps = length (filter (\<lambda>e. \<not> taken e) ps)"

lemma untaken_update:
  "i < length ps \<Longrightarrow> \<not> taken (ps ! i) \<Longrightarrow> taken e \<Longrightarrow> Suc (untaken (ps[i := e])) = untaken ps"
proof (induction ps arbitrary: i)
  case (Cons q ps)
  then show ?case by (cases i) (auto simp: untaken_def)
qed simp

lemma untaken_same: "i < length ps \<Longrightarrow> taken e = taken (ps ! i) \<Longrightarrow> untaken (ps[i := e]) = untaken ps"
proof (induction ps arbitrary: i)
  case (Cons q ps)
  then show ?case by (cases i) (auto simp: untaken_def)
qed simp

lemma findChild_takes: "findChild p ps = Some (i, ps') \<Longrightarrow> Suc (untaken ps') = untaken ps"
  using find_from_spec(1)[of p 0 ps] by (auto simp: findChild_def untaken_update split: option.splits)

function collect :: "string \<Rightarrow> nat vec \<Rightarrow> ProcessInfo list \<Rightarrow> cstate \<Rightarrow> (nat vec \<times> ProcessInfo list \<times> cstate) c" where
  \<comment> \<open>the first loop of \<open>printHierarchy\<close>: take the children, one after the other\<close>
  "collect p children ps st = (case findChild p ps of
      None \<Rightarrow> Inr (children, ps, st)
    | Some (i, ps1) \<Rightarrow>
        let ps2 = (if hasChildren (pid (ps1 ! i)) ps1 then ps1[i := (ps1 ! i)\<lparr>parent := True\<rparr>] else ps1) in
        (case vec_push i children st of Inl f \<Rightarrow> Inl f | Inr (children', st') \<Rightarrow> collect p children' ps2 st'))"
  by pat_completeness auto
termination
proof (relation "measure (\<lambda>(p, children, ps, st). untaken ps)", simp, goal_cases)
  case (1 p children ps st ip i ps1 ps2 x children' st')
  then have t: "findChild p ps = Some (i, ps1)" by simp
  have "untaken ps2 = untaken ps1"
    using 1 untaken_same[of i ps1 "(ps1 ! i)\<lparr>parent := True\<rparr>"] by (cases "i < length ps1") (auto simp: list_update_beyond)
  with findChild_takes[OF t] show ?case by simp
qed

declare collect.simps [simp del]

fun print_children :: "(nat \<Rightarrow> int \<Rightarrow> bool \<Rightarrow> bool \<Rightarrow> bool \<Rightarrow> tree_state \<Rightarrow> tree_state c option) \<Rightarrow>
    string \<Rightarrow> int \<Rightarrow> nat \<Rightarrow> nat \<Rightarrow> nat list \<Rightarrow> tree_state \<Rightarrow> tree_state c option" where
  \<comment> \<open>the loop over \<open>children\<close>, at index \<open>i\<close> of \<open>n\<close>; \<open>first\<close> holds exactly in its first round\<close>
  "print_children rec childSpacing childLength n i [] s = Some (Inr s)"
| "print_children rec childSpacing childLength n i (c # cs) s =
     (if parent (dirList s ! c) then
        let s1 = (if i \<noteq> 0 then show_piece (Deco childSpacing) s else s) in
        (case rec c childLength (i = 0) (i = n - 1) (1 < n) s1 of
           None \<Rightarrow> None
         | Some (Inl f) \<Rightarrow> Some (Inl f)
         | Some (Inr s2) \<Rightarrow>
             print_children rec childSpacing childLength n (Suc i) cs
               (if 1 < n then s2\<lparr>indentLevels := (indentLevels s2)\<lparr>elems := butlast (elems (indentLevels s2))\<rparr>\<rparr> else s2))
      else
        let s1 = (if i \<noteq> 0 then show_piece (Deco (childSpacing @ (if n - 1 \<noteq> i then '' |-'' else '' `-''))) s else s) in
        print_children rec childSpacing childLength n (Suc i) cs
          (show_piece (Deco [NL]) (show_piece (ProcId (pid (dirList s ! c))) s1)))"

definition prologue :: "nat \<Rightarrow> int \<Rightarrow> bool \<Rightarrow> tree_state \<Rightarrow> (string \<times> nat list \<times> tree_state) c" where
  \<comment> \<open>up to the first \<open>printf\<close>: the spacing for the children, and the children\<close>
  "prologue p initSpacing multiChild s =
     bindC (if multiChild then vec_push initSpacing (indentLevels s) (mem s) else Inr (indentLevels s, mem s))
       (\<lambda>(levels, st1).
     bindC (getSpacing (initSpacing - 3) st1) (\<lambda>(parentSpacing, st2).
     bindC (getSpacing (initSpacing + int (length (pid (dirList s ! p)))) st2) (\<lambda>(blank, st3).
     bindC (put_bars (elems levels) blank) (\<lambda>childSpacing.
     bindC (collect (pid (dirList s ! p)) \<lparr>elems = [], room = 0\<rparr> (dirList s) st3) (\<lambda>(children, ps, st4).
       Inr (childSpacing, elems children, s\<lparr>dirList := ps, indentLevels := levels, mem := st4\<rparr>))))))"

fun printHierarchy :: "nat \<Rightarrow> nat \<Rightarrow> int \<Rightarrow> bool \<Rightarrow> bool \<Rightarrow> bool \<Rightarrow> tree_state \<Rightarrow> tree_state c option" where
  \<comment> \<open>\<open>None\<close> when the fuel is used up, which \<open>Suc (untaken dirList)\<close> levels never do; \<open>da_init\<close> of the empty
    \<open>children\<close> leaves them without room\<close>
  "printHierarchy 0 p initSpacing firstChild lastChild multiChild s = None"
| "printHierarchy (Suc fuel) p initSpacing firstChild lastChild multiChild s =
     (case prologue p initSpacing multiChild s of
        Inl f \<Rightarrow> Some (Inl f)
      | Inr (childSpacing, children, s1) \<Rightarrow>
          let s2 = (if firstChild then s1 else show_piece (Deco (if lastChild then '' `-'' else '' |-'')) s1);
              s3 = show_piece (Deco (if 1 < length children then ''-+-'' else ''---''))
                     (show_piece (ProcId (pid (dirList s ! p))) s2)
          in print_children (printHierarchy fuel) childSpacing
               (initSpacing + 3 + int (length (pid (dirList s ! p)))) (length children) 0 children s3)"

section \<open>main\<close>

definition isNumber :: "string \<Rightarrow> bool" where
  "isNumber d_name = (case strtol d_name 10 of (v, endptr, erange) \<Rightarrow> endptr = [])"

definition read_process :: "(nat \<Rightarrow> bool \<times> bool) \<Rightarrow> int \<Rightarrow> ProcessInfo list \<Rightarrow>
    (ProcessInfo list + ProcessInfo list) prog" where
  \<comment> \<open>a round of the loop over \<open>/proc\<close>. \<open>taken\<close> and \<open>parent\<close> are never set: \<open>junk\<close> gives what the block
    that \<open>da_push\<close> returned happens to hold\<close>
  "read_process junk dirStream ps = call (Path (Readdir dirStream)) (\<lambda>r.
     if is_null_reply r then leave ps
     else if \<not> isNumber (bytes r) then again ps
     else lib ''da_push'' [int (length ps)] (\<lambda>a.
       if is_null_reply a then errExit ''da_push''
       else if ID_MAX \<le> length (bytes r) then stop (Fault Buffer_overflow)
       else seq (getID (bytes r) ''PPid'') (\<lambda>parent_id.
         seq (getCommand (bytes r)) (\<lambda>cmd.
           again (ps @ [\<lparr>pid = bytes r, ppid = parent_id, command = cmd,
             taken = fst (junk (length ps)), parent = snd (junk (length ps))\<rparr>])))))"

definition last_with_pid :: "string \<Rightarrow> ProcessInfo list \<Rightarrow> nat option" where
  "last_with_pid p ps = (case filter (\<lambda>i. pid (ps ! i) = p) [0..<length ps] of [] \<Rightarrow> None | is \<Rightarrow> Some (last is))"

fun render :: "piece list \<Rightarrow> string" where
  "render [] = []"
| "render (Deco s # ps) = s @ render ps"
| "render (ProcId s # ps) = s @ render ps"

definition proc_tree_main :: "(nat \<Rightarrow> bool \<times> bool) \<Rightarrow> bool list \<Rightarrow> int prog" where
  \<comment> \<open>\<open>as\<close> answers the allocations made while drawing\<close>
  "proc_tree_main junk as =
     call (Path (Opendir ''/proc'')) (\<lambda>d.
       if is_null_reply d then stop (Fault Null_deref)
       else seq (loop (read_process junk (rv d)) []) (\<lambda>ps.
         call (Path (Closedir (rv d))) (\<lambda>_.
           case last_with_pid ''1'' ps of
             None \<Rightarrow> stop (Fault Uninitialised)
           | Some initProcess \<Rightarrow>
               (case printHierarchy (Suc (Suc (untaken ps))) initProcess 0 True True True
                   \<lparr>dirList = ps, indentLevels = \<lparr>elems = [], room = 0\<rparr>, shown = [], mem = \<lparr>allocs = as, cerrno = 0\<rparr>\<rparr> of
                  None \<Rightarrow> stop No_fuel
                | Some (Inl f) \<Rightarrow> stop (Fault f)
                | Some (Inr s) \<Rightarrow> printf (render (shown s)) (ret 0)))))"

section \<open>What a stretch of the drawing does to the entries\<close>

definition grows :: "ProcessInfo list \<Rightarrow> ProcessInfo list \<Rightarrow> bool" where
  \<comment> \<open>the same processes, some more of them taken or marked as parents\<close>
  "grows ps ps' \<longleftrightarrow> length ps' = length ps \<and> (\<forall>i < length ps. pid (ps' ! i) = pid (ps ! i)
     \<and> ppid (ps' ! i) = ppid (ps ! i) \<and> (taken (ps ! i) \<longrightarrow> taken (ps' ! i)) \<and> (parent (ps ! i) \<longrightarrow> parent (ps' ! i)))"

definition newly :: "ProcessInfo list \<Rightarrow> ProcessInfo list \<Rightarrow> nat set" where
  "newly ps ps' = {i. i < length ps \<and> \<not> taken (ps ! i) \<and> taken (ps' ! i)}"

inductive_set below :: "ProcessInfo list \<Rightarrow> string \<Rightarrow> nat set" for ps q where
  below_child: "i < length ps \<Longrightarrow> \<not> taken (ps ! i) \<Longrightarrow> ppid (ps ! i) = q \<Longrightarrow> i \<in> below ps q"
| below_deeper: "j \<in> below ps q \<Longrightarrow> i < length ps \<Longrightarrow> \<not> taken (ps ! i) \<Longrightarrow> ppid (ps ! i) = pid (ps ! j) \<Longrightarrow>
    i \<in> below ps q"

lemma grows_refl [simp]: "grows ps ps"
  by (simp add: grows_def)

lemma growsD:
  assumes "grows ps qs"
  shows "length qs = length ps" "i < length ps \<Longrightarrow> pid (qs ! i) = pid (ps ! i)"
    "i < length ps \<Longrightarrow> ppid (qs ! i) = ppid (ps ! i)" "i < length ps \<Longrightarrow> \<not> taken (qs ! i) \<Longrightarrow> \<not> taken (ps ! i)"
    "i < length ps \<Longrightarrow> parent (ps ! i) \<Longrightarrow> parent (qs ! i)"
  using assms by (auto simp: grows_def)

lemma below_bound: "i \<in> below ps q \<Longrightarrow> i < length ps"
  by (auto elim: below.cases)

lemma grows_trans: "grows ps qs \<Longrightarrow> grows qs rs \<Longrightarrow> grows ps rs"
  by (simp add: grows_def)

lemma newly_refl [simp]: "newly ps ps = {}"
  by (auto simp: newly_def)

lemma newly_trans: "grows ps qs \<Longrightarrow> grows qs rs \<Longrightarrow> newly ps rs = newly ps qs \<union> newly qs rs"
  by (auto simp: grows_def newly_def)

lemma newly_disjoint: "grows ps qs \<Longrightarrow> newly ps qs \<inter> newly qs rs = {}"
  by (auto simp: newly_def)

lemma newly_finite [simp]: "finite (newly ps qs)"
  by (simp add: newly_def)

lemma newly_bound: "i \<in> newly ps qs \<Longrightarrow> i < length ps"
  by (simp add: newly_def)

lemma hasChildren_iff: "hasChildren q ps \<longleftrightarrow> (\<exists>i < length ps. ppid (ps ! i) = q \<and> \<not> taken (ps ! i))"
  by (auto simp: hasChildren_def list_ex_length)

lemma hasChildren_grows: "grows ps qs \<Longrightarrow> hasChildren q qs \<Longrightarrow> hasChildren q ps"
  unfolding hasChildren_iff grows_def by metis

lemma below_mono:
  assumes "grows ps qs" "i \<in> below qs q"
  shows "i \<in> below ps q"
  using assms(2)
proof induction
  case (below_child i)
  then show ?case
    using growsD(1)[OF assms(1)] growsD(2-5)[OF assms(1), of i] by - (rule below.below_child, simp_all)
next
  case (below_deeper k i)
  then show ?case
    using growsD(1)[OF assms(1)] growsD(2-5)[OF assms(1), of i] growsD(2)[OF assms(1), of k] below_bound[of k ps q]
    by - (rule below.below_deeper[of k], simp_all)
qed

lemma below_trans:
  assumes "j \<in> below ps q" "i \<in> below ps (pid (ps ! j))"
  shows "i \<in> below ps q"
  using assms(2)
proof induction
  case (below_child i)
  then show ?case using assms(1) by - (rule below.below_deeper[of j])
next
  case (below_deeper k i)
  then show ?case by - (rule below.below_deeper[of k])
qed

definition closed_under :: "nat set \<Rightarrow> ProcessInfo list \<Rightarrow> bool" where
  \<comment> \<open>no child of these processes is left\<close>
  "closed_under N ps \<longleftrightarrow> (\<forall>i \<in> N. \<not> hasChildren (pid (ps ! i)) ps)"

lemma below_taken:
  assumes "grows ps qs" "\<not> hasChildren q qs" "closed_under (newly ps qs) qs" "i \<in> below ps q"
  shows "i \<in> newly ps qs"
  using assms(4)
proof induction
  case (below_child i)
  then show ?case using assms(1,2) by (auto simp: grows_def newly_def hasChildren_iff)
next
  case (below_deeper j i)
  then have "\<not> hasChildren (pid (ps ! j)) qs"
    using assms(1,3) newly_bound[of j ps qs] by (auto simp: closed_under_def grows_def)
  then show ?case using below_deeper assms(1) by (auto simp: grows_def newly_def hasChildren_iff)
qed

section \<open>Collecting the children\<close>

lemma take_one:
  assumes "findChild q ps = Some (i, ps1)"
  shows "i < length ps" "ppid (ps ! i) = q" "\<not> taken (ps ! i)" "grows ps ps1" "newly ps ps1 = {i}"
proof -
  from assms have f: "find_from q 0 ps = Some i" "ps1 = ps[i := (ps ! i)\<lparr>taken := True\<rparr>]"
    by (auto simp: findChild_def split: option.splits)
  from find_from_spec(1)[OF f(1)] show i: "i < length ps" "ppid (ps ! i) = q" "\<not> taken (ps ! i)" by auto
  with f(2) show "grows ps ps1" "newly ps ps1 = {i}"
    by (auto simp: grows_def newly_def nth_list_update split: if_splits)
qed

lemma mark_parent:
  assumes "ps' = ps[i := (ps ! i)\<lparr>parent := True\<rparr>]"
  shows "grows ps ps'" "newly ps ps' = {}" "untaken ps' = untaken ps"
  using assms untaken_same[of i ps "(ps ! i)\<lparr>parent := True\<rparr>"]
  by (cases "i < length ps"; force simp: list_update_beyond grows_def newly_def nth_list_update split: if_splits)+

definition collected :: "string \<Rightarrow> nat list \<Rightarrow> ProcessInfo list \<Rightarrow> ProcessInfo list \<Rightarrow> bool" where
  "collected q new ps ps' \<longleftrightarrow> grows ps ps' \<and> distinct new \<and> set new = newly ps ps' \<and> \<not> hasChildren q ps'
     \<and> list_all (\<lambda>i. ppid (ps ! i) = q \<and> (parent (ps' ! i) \<or> \<not> hasChildren (pid (ps' ! i)) ps')) new"

lemma collect_all:
  "no_alloc_failure st \<Longrightarrow> \<exists>ch' ps' st' new. collect q ch ps st = Inr (ch', ps', st') \<and> elems ch' = elems ch @ new
     \<and> collected q new ps ps' \<and> no_alloc_failure st'"
proof (induction "untaken ps" arbitrary: ch ps st rule: less_induct)
  case less
  show ?case
  proof (cases "findChild q ps")
    case None
    then have "\<not> hasChildren q ps" using find_from_spec(2)[of q 0 ps] by (simp add: findChild_def split: option.splits)
    with None less.prems show ?thesis
      by (intro exI[of _ ch] exI[of _ ps] exI[of _ st] exI[of _ "[]"]) (simp add: collect.simps collected_def)
  next
    case (Some ip)
    obtain i ps1 where ip: "findChild q ps = Some (i, ps1)" using Some by (cases ip) auto
    note one = take_one[OF ip]
    let ?more = "hasChildren (pid (ps1 ! i)) ps1"
    let ?ps2 = "if ?more then ps1[i := (ps1 ! i)\<lparr>parent := True\<rparr>] else ps1"
    have g2: "grows ps1 ?ps2" "newly ps1 ?ps2 = {}" "untaken ?ps2 = untaken ps1"
      by (simp_all add: mark_parent[OF refl])
    obtain ch1 st1 where push: "vec_push i ch st = Inr (ch1, st1)" "elems ch1 = elems ch @ [i]" "no_alloc_failure st1"
      using vec_push_ok[OF less.prems, of i ch] by (elim exE conjE)
    have "untaken ?ps2 < untaken ps" using g2(3) findChild_takes[OF ip] by simp
    from less.hyps[OF this push(3), of ch1] obtain ch' ps' st' new where
      rec: "collect q ch1 ?ps2 st1 = Inr (ch', ps', st')" "elems ch' = elems ch1 @ new"
        "collected q new ?ps2 ps'" "no_alloc_failure st'" by blast
    have g: "grows ps ?ps2" "newly ps ?ps2 = {i}"
      using grows_trans[OF one(4) g2(1)] newly_trans[OF one(4) g2(1)] one(5) g2(2) by auto
    have rec': "grows ?ps2 ps'" "distinct new" "set new = newly ?ps2 ps'" "\<not> hasChildren q ps'"
      "\<And>j. j \<in> set new \<Longrightarrow> ppid (?ps2 ! j) = q \<and> (parent (ps' ! j) \<or> \<not> hasChildren (pid (ps' ! j)) ps')"
      using rec(3) by (auto simp: collected_def list_all_iff)
    have len: "i < length ps1" "i < length ?ps2" using one(1) growsD(1)[OF one(4)] by simp_all
    have i2: "parent (?ps2 ! i) \<or> \<not> hasChildren (pid (?ps2 ! i)) ?ps2"
      using len(1) by simp
    have i': "parent (ps' ! i) \<or> \<not> hasChildren (pid (ps' ! i)) ps'"
      using i2 len(2) growsD(2,5)[OF rec'(1), of i] hasChildren_grows[OF rec'(1), of "pid (ps' ! i)"] by argo
    have "collected q (i # new) ps ps'"
      unfolding collected_def list_all_iff
    proof (intro conjI)
      show "grows ps ps'" by (rule grows_trans[OF g(1) rec'(1)])
      show "distinct (i # new)" using rec'(2,3) newly_disjoint[OF g(1), of ps'] g(2) by auto
      show "set (i # new) = newly ps ps'" using newly_trans[OF g(1) rec'(1)] g(2) rec'(3) by auto
      show "\<not> hasChildren q ps'" by (rule rec'(4))
      show "\<forall>j \<in> set (i # new). ppid (ps ! j) = q \<and> (parent (ps' ! j) \<or> \<not> hasChildren (pid (ps' ! j)) ps')"
      proof
        fix j assume "j \<in> set (i # new)"
        then show "ppid (ps ! j) = q \<and> (parent (ps' ! j) \<or> \<not> hasChildren (pid (ps' ! j)) ps')"
        proof (cases "j = i")
          case False
          with \<open>j \<in> set (i # new)\<close> have j: "j \<in> set new" by simp
          then have "j < length ps" using rec'(3) newly_bound[of j ?ps2 ps'] growsD(1)[OF g(1)] by simp
          then show ?thesis using rec'(5)[OF j] growsD(3)[OF g(1), of j] by simp
        qed (use i' one(2) in simp)
      qed
    qed
    moreover have "collect q ch ps st = Inr (ch', ps', st')"
      using rec(1) push(1) ip by (simp add: collect.simps[of q ch ps st] Let_def)
    ultimately show ?thesis using rec(2,4) push(2)
      by (intro exI[of _ ch'] exI[of _ ps'] exI[of _ st'] exI[of _ "i # new"]) simp
  qed
qed

section \<open>Every process below the first one is printed once\<close>

definition ids :: "piece list \<Rightarrow> string list" where
  "ids ps = concat (map (\<lambda>p. case p of Deco s \<Rightarrow> [] | ProcId s \<Rightarrow> [s]) ps)"

definition names :: "ProcessInfo list \<Rightarrow> nat set \<Rightarrow> string multiset" where
  "names ps I = image_mset (\<lambda>i. pid (ps ! i)) (mset_set I)"

definition prints :: "string multiset \<Rightarrow> tree_state \<Rightarrow> tree_state \<Rightarrow> bool" where
  "prints M s s' \<longleftrightarrow> mset (ids (shown s')) = mset (ids (shown s)) + M"

definition tidy :: "int \<Rightarrow> tree_state \<Rightarrow> bool" where
  \<comment> \<open>the open levels lie within the indentation\<close>
  "tidy n s \<longleftrightarrow> 0 \<le> n \<and> list_all (\<lambda>l. l \<le> n) (elems (indentLevels s)) \<and> no_alloc_failure (mem s)"

definition drawn :: "nat \<Rightarrow> int list \<Rightarrow> tree_state \<Rightarrow> tree_state \<Rightarrow> bool" where
  "drawn p levels s s' \<longleftrightarrow> grows (dirList s) (dirList s')
     \<and> closed_under (newly (dirList s) (dirList s')) (dirList s')
     \<and> \<not> hasChildren (pid (dirList s ! p)) (dirList s')
     \<and> newly (dirList s) (dirList s') \<subseteq> below (dirList s) (pid (dirList s ! p))
     \<and> elems (indentLevels s') = levels \<and> no_alloc_failure (mem s')
     \<and> prints (add_mset (pid (dirList s ! p)) (names (dirList s) (newly (dirList s) (dirList s')))) s s'"

definition draws :: "(nat \<Rightarrow> int \<Rightarrow> bool \<Rightarrow> bool \<Rightarrow> bool \<Rightarrow> tree_state \<Rightarrow> tree_state c option) \<Rightarrow> nat \<Rightarrow> bool" where
  "draws rec fuel \<longleftrightarrow> (\<forall>p n fc lc multi s. p < length (dirList s) \<and> untaken (dirList s) < fuel \<and> tidy n s \<longrightarrow>
     (\<exists>s'. rec p n fc lc multi s = Some (Inr s')
       \<and> drawn p (elems (indentLevels s) @ (if multi then [n] else [])) s s'))"

lemma ids_simps [simp]: "ids [] = []" "ids (xs @ ys) = ids xs @ ids ys" "ids (Deco s # xs) = ids xs" "ids (ProcId s # xs) = s # ids xs"
  by (simp_all add: ids_def)

lemma show_piece_simps [simp]:
  "dirList (show_piece x s) = dirList s" "indentLevels (show_piece x s) = indentLevels s"
  "mem (show_piece x s) = mem s" "shown (show_piece x s) = shown s @ [x]"
  by (simp_all add: show_piece_def)

lemma names_grows: "grows ps qs \<Longrightarrow> I \<subseteq> {..<length ps} \<Longrightarrow> names qs I = names ps I"
  unfolding names_def by (rule image_mset_cong) (metis growsD(2) lessThan_iff finite_set_mset_mset_set mset_set.infinite set_mset_empty subsetD emptyE)

lemma names_Un: "finite I \<Longrightarrow> finite J \<Longrightarrow> I \<inter> J = {} \<Longrightarrow> names ps (I \<union> J) = names ps I + names ps J"
  by (simp add: names_def mset_set_Union)

lemma untaken_card: "untaken ps = card {i. i < length ps \<and> \<not> taken (ps ! i)}"
  by (simp add: untaken_def length_filter_conv_card)

lemma untaken_grows: "grows ps qs \<Longrightarrow> untaken qs \<le> untaken ps"
  unfolding untaken_card by (rule card_mono) (auto simp: growsD(1) dest: growsD(4))

lemma untaken_newly: "grows ps qs \<Longrightarrow> i \<in> newly ps qs \<Longrightarrow> untaken qs < untaken ps"
  unfolding untaken_card by (rule psubset_card_mono) (auto simp: newly_def growsD(1) dest: growsD(4))

lemma put_bars_ok:
  "list_all (\<lambda>l. l - 2 < int (length sp)) ls \<Longrightarrow> \<exists>sp'. put_bars ls sp = Inr sp'"
  by (induction ls sp rule: put_bars.induct) auto

definition children_drawn :: "nat list \<Rightarrow> tree_state \<Rightarrow> tree_state \<Rightarrow> bool" where
  "children_drawn cs s s' \<longleftrightarrow> grows (dirList s) (dirList s')
     \<and> closed_under (newly (dirList s) (dirList s') \<union> set cs) (dirList s')
     \<and> newly (dirList s) (dirList s') \<subseteq> (\<Union>c \<in> set cs. below (dirList s) (pid (dirList s ! c)))
     \<and> elems (indentLevels s') = elems (indentLevels s) \<and> no_alloc_failure (mem s')
     \<and> prints (image_mset (\<lambda>i. pid (dirList s ! i)) (mset cs) + names (dirList s) (newly (dirList s) (dirList s'))) s s'"

definition drawable :: "nat list \<Rightarrow> ProcessInfo list \<Rightarrow> bool" where
  "drawable cs ps \<longleftrightarrow> list_all (\<lambda>c. c < length ps \<and> (parent (ps ! c) \<or> \<not> hasChildren (pid (ps ! c)) ps)) cs"

lemma drawable_grows: "drawable cs ps \<Longrightarrow> grows ps qs \<Longrightarrow> drawable cs qs"
  unfolding drawable_def list_all_iff by (metis growsD(1,2,5) hasChildren_grows)

lemma closed_under_grows: "closed_under N ps \<Longrightarrow> grows ps qs \<Longrightarrow> N \<subseteq> {..<length ps} \<Longrightarrow> closed_under N qs"
  unfolding closed_under_def by (metis growsD(2) hasChildren_grows lessThan_iff subsetD)

lemma prints_trans: "prints M s s' \<Longrightarrow> prints N s' s'' \<Longrightarrow> prints (M + N) s s''"
  by (simp add: prints_def)

lemma names_newly:
  assumes "grows ps qs" "grows qs rs"
  shows "names ps (newly ps rs) = names ps (newly ps qs) + names qs (newly qs rs)"
proof -
  have "names qs (newly qs rs) = names ps (newly qs rs)"
    by (rule names_grows[OF assms(1)]) (auto dest: newly_bound simp: growsD(1)[OF assms(1)])
  then show ?thesis
    using newly_trans[OF assms] newly_disjoint[OF assms(1), of rs] by (simp add: names_Un)
qed

lemma children_drawn_Nil: "no_alloc_failure (mem s) \<Longrightarrow> children_drawn [] s s"
  by (simp add: children_drawn_def closed_under_def prints_def names_def)

lemma children_drawn_Cons:
  assumes "children_drawn [c] s s1" "children_drawn cs s1 s2" "c < length (dirList s)" "set cs \<subseteq> {..<length (dirList s)}"
  shows "children_drawn (c # cs) s s2"
proof -
  let ?ps = "dirList s" and ?qs = "dirList s1" and ?rs = "dirList s2"
  from assms(1) have a: "grows ?ps ?qs" "closed_under (newly ?ps ?qs \<union> {c}) ?qs"
    "newly ?ps ?qs \<subseteq> below ?ps (pid (?ps ! c))" "elems (indentLevels s1) = elems (indentLevels s)"
    "prints ({# pid (?ps ! c) #} + names ?ps (newly ?ps ?qs)) s s1"
    by (simp_all add: children_drawn_def)
  from assms(2) have b: "grows ?qs ?rs" "closed_under (newly ?qs ?rs \<union> set cs) ?rs"
    "newly ?qs ?rs \<subseteq> (\<Union>c \<in> set cs. below ?qs (pid (?qs ! c)))" "elems (indentLevels s2) = elems (indentLevels s1)"
    "no_alloc_failure (mem s2)" "prints (image_mset (\<lambda>i. pid (?qs ! i)) (mset cs) + names ?qs (newly ?qs ?rs)) s1 s2"
    by (simp_all add: children_drawn_def)
  note g = grows_trans[OF a(1) b(1)]
  have "newly ?ps ?qs \<union> {c} \<subseteq> {..<length ?qs}" using assms(3) newly_bound growsD(1)[OF a(1)] by auto
  note c1 = closed_under_grows[OF a(2) b(1) this]
  have pids: "image_mset (\<lambda>i. pid (?qs ! i)) (mset cs) = image_mset (\<lambda>i. pid (?ps ! i)) (mset cs)"
    by (rule image_mset_cong) (use assms(4) growsD(2)[OF a(1)] in auto)
  have low: "newly ?qs ?rs \<subseteq> (\<Union>c \<in> set cs. below ?ps (pid (?ps ! c)))"
  proof
    fix i assume "i \<in> newly ?qs ?rs"
    then obtain d where d: "d \<in> set cs" "i \<in> below ?qs (pid (?qs ! d))" using b(3) by auto
    then show "i \<in> (\<Union>c \<in> set cs. below ?ps (pid (?ps ! c)))"
      using below_mono[OF a(1) d(2)] assms(4) growsD(2)[OF a(1), of d] by (auto intro!: bexI[of _ d])
  qed
  show ?thesis unfolding children_drawn_def
  proof (intro conjI g)
    show "closed_under (newly ?ps ?rs \<union> set (c # cs)) ?rs"
      using c1 b(2) newly_trans[OF a(1) b(1)] by (auto simp: closed_under_def)
    show "newly ?ps ?rs \<subseteq> (\<Union>c \<in> set (c # cs). below ?ps (pid (?ps ! c)))"
      using a(3) low newly_trans[OF a(1) b(1)] by auto
    show "prints (image_mset (\<lambda>i. pid (?ps ! i)) (mset (c # cs)) + names ?ps (newly ?ps ?rs)) s s2"
      using prints_trans[OF a(5) b(6)] names_newly[OF a(1) b(1)] pids by (simp add: ac_simps)
  qed (use a(4) b(4,5) in simp_all)
qed

lemma drawn_child:
  assumes "drawn c (elems (indentLevels s) @ xs) s1 s2" "dirList s1 = dirList s" "ids (shown s1) = ids (shown s)"
    "elems (indentLevels s3) = elems (indentLevels s)" "dirList s3 = dirList s2" "shown s3 = shown s2" "mem s3 = mem s2"
    "c < length (dirList s)"
  shows "children_drawn [c] s s3"
  using assms growsD(2)[of "dirList s" "dirList s2" c] by (auto simp: drawn_def children_drawn_def prints_def closed_under_def dest: growsD)

lemma print_children_draws:
  assumes "draws rec fuel" "0 \<le> cl"
  shows "drawable cs (dirList s) \<Longrightarrow> cs = [] \<or> untaken (dirList s) < fuel \<Longrightarrow> tidy cl s \<Longrightarrow>
    \<exists>s'. print_children rec csp cl n i cs s = Some (Inr s') \<and> children_drawn cs s s'"
proof (induction cs arbitrary: i s)
  case Nil
  then show ?case by (auto simp: tidy_def intro!: children_drawn_Nil)
next
  case (Cons c cs)
  then have c: "c < length (dirList s)" "set cs \<subseteq> {..<length (dirList s)}" "drawable cs (dirList s)"
    "parent (dirList s ! c) \<or> \<not> hasChildren (pid (dirList s ! c)) (dirList s)" "untaken (dirList s) < fuel"
    by (auto simp: drawable_def list_all_iff)
  have "\<exists>s3. print_children rec csp cl n i (c # cs) s = print_children rec csp cl n (Suc i) cs s3
    \<and> children_drawn [c] s s3"
  proof (cases "parent (dirList s ! c)")
    case True
    let ?s1 = "if i \<noteq> 0 then show_piece (Deco csp) s else s"
    have s1: "dirList ?s1 = dirList s" "ids (shown ?s1) = ids (shown s)" "indentLevels ?s1 = indentLevels s" "tidy cl ?s1"
      using Cons.prems(3) by (simp_all add: tidy_def)
    then obtain s2 where s2: "rec c cl (i = 0) (i = n - 1) (1 < n) ?s1 = Some (Inr s2)"
      "drawn c (elems (indentLevels s) @ (if 1 < n then [cl] else [])) ?s1 s2"
      using assms(1) c(1,5) unfolding draws_def by metis
    let ?s3 = "if 1 < n then s2\<lparr>indentLevels := (indentLevels s2)\<lparr>elems := butlast (elems (indentLevels s2))\<rparr>\<rparr> else s2"
    have "children_drawn [c] s ?s3"
      by (rule drawn_child[OF s2(2) s1(1,2)]) (use s2(2) c(1) in \<open>auto simp: drawn_def\<close>)
    moreover have "print_children rec csp cl n i (c # cs) s = print_children rec csp cl n (Suc i) cs ?s3"
      using True s2(1) by (simp add: Let_def)
    ultimately show ?thesis by blast
  next
    case False
    let ?s1 = "if i \<noteq> 0 then show_piece (Deco (csp @ (if n - 1 \<noteq> i then '' |-'' else '' `-''))) s else s"
    let ?s3 = "show_piece (Deco [NL]) (show_piece (ProcId (pid (dirList s ! c))) ?s1)"
    have s3: "dirList ?s3 = dirList s" "indentLevels ?s3 = indentLevels s" "mem ?s3 = mem s"
      "ids (shown ?s3) = ids (shown s) @ [pid (dirList s ! c)]" by simp_all
    have "children_drawn [c] s ?s3"
      unfolding children_drawn_def s3 prints_def closed_under_def names_def
      using False Cons.prems(3) c(4) by (simp add: tidy_def)
    moreover have "print_children rec csp cl n i (c # cs) s = print_children rec csp cl n (Suc i) cs ?s3"
      using False by (simp add: Let_def)
    ultimately show ?thesis by blast
  qed
  then obtain s3 where s3: "print_children rec csp cl n i (c # cs) s = print_children rec csp cl n (Suc i) cs s3"
    "children_drawn [c] s s3" by blast
  then have g: "grows (dirList s) (dirList s3)" "elems (indentLevels s3) = elems (indentLevels s)" "no_alloc_failure (mem s3)"
    by (simp_all add: children_drawn_def)
  have "tidy cl s3" using Cons.prems(3) g by (simp add: tidy_def)
  then obtain s' where "print_children rec csp cl n (Suc i) cs s3 = Some (Inr s')" "children_drawn cs s3 s'"
    using Cons.IH[OF drawable_grows[OF c(3) g(1)]] c(5) untaken_grows[OF g(1)] by fastforce
  with s3 children_drawn_Cons[OF s3(2) _ c(1,2)] show ?case by auto
qed

lemma getSpacing_ok:
  "no_alloc_failure st \<Longrightarrow> \<exists>st'. getSpacing n st = Inr (replicate (nat n) (CHR '' ''), st') \<and> no_alloc_failure st'"
  using malloc_ok_succeeds[of st] by (auto simp: getSpacing_def)

lemma prologue_collects:
  assumes "tidy n s"
  shows "\<exists>csp cs s1. prologue p n multi s = Inr (csp, cs, s1)
    \<and> collected (pid (dirList s ! p)) cs (dirList s) (dirList s1) \<and> shown s1 = shown s
    \<and> elems (indentLevels s1) = elems (indentLevels s) @ (if multi then [n] else []) \<and> no_alloc_failure (mem s1)"
proof -
  have na: "no_alloc_failure (mem s)" using assms by (simp add: tidy_def)
  obtain lv st1 where 1: "(if multi then vec_push n (indentLevels s) (mem s) else Inr (indentLevels s, mem s)) = Inr (lv, st1)"
    "elems lv = elems (indentLevels s) @ (if multi then [n] else [])" "no_alloc_failure st1"
    using vec_push_ok[OF na, of n "indentLevels s"] na by (cases multi) auto
  obtain st2 where 2: "getSpacing (n - 3) st1 = Inr (replicate (nat (n - 3)) (CHR '' ''), st2)" "no_alloc_failure st2"
    using getSpacing_ok[OF 1(3)] by blast
  obtain st3 where 3: "getSpacing (n + int (length (pid (dirList s ! p)))) st2
      = Inr (replicate (nat (n + int (length (pid (dirList s ! p))))) (CHR '' ''), st3)" "no_alloc_failure st3"
    using getSpacing_ok[OF 2(2)] by blast
  have "l \<le> n" if "l \<in> set (elems lv)" for l
    using that assms 1(2) by (auto simp: tidy_def list_all_iff split: if_splits)
  then have "list_all (\<lambda>l. l - 2 < int (length (replicate (nat (n + int (length (pid (dirList s ! p))))) (CHR '' '')))) (elems lv)"
    using assms by (fastforce simp: tidy_def list_all_iff)
  from put_bars_ok[OF this]
  obtain csp where 4: "put_bars (elems lv) (replicate (nat (n + int (length (pid (dirList s ! p))))) (CHR '' '')) = Inr csp"
    by blast
  obtain ch ps st4 where 5: "collect (pid (dirList s ! p)) \<lparr>elems = [], room = 0\<rparr> (dirList s) st3 = Inr (ch, ps, st4)"
    "collected (pid (dirList s ! p)) (elems ch) (dirList s) ps" "no_alloc_failure st4"
    using collect_all[OF 3(2), of "pid (dirList s ! p)" "\<lparr>elems = [], room = 0\<rparr>" "dirList s"] by auto
  have "prologue p n multi s = Inr (csp, elems ch, s\<lparr>dirList := ps, indentLevels := lv, mem := st4\<rparr>)"
    unfolding prologue_def by (simp add: 1(1) 2(1) 3(1) 4 5(1))
  with 1(2) 5(2,3) show ?thesis by auto
qed

lemma collected_newly:
  assumes "collected q cs ps qs"
  shows "grows ps qs" "mset cs = mset_set (newly ps qs)" "\<not> hasChildren q qs" "newly ps qs \<subseteq> below ps q" "drawable cs qs"
    "set cs = newly ps qs"
proof -
  show g: "grows ps qs" and n: "\<not> hasChildren q qs" and s: "set cs = newly ps qs"
    using assms by (simp_all add: collected_def)
  show "mset cs = mset_set (newly ps qs)"
    using assms by (simp add: collected_def mset_set_set flip: s)
  have new: "ppid (ps ! i) = q" "parent (qs ! i) \<or> \<not> hasChildren (pid (qs ! i)) qs" if "i \<in> newly ps qs" for i
    using assms that by (simp_all add: collected_def list_all_iff)
  show "newly ps qs \<subseteq> below ps q"
    using new(1) by (auto simp: newly_def intro: below_child)
  show "drawable cs qs"
    using new(2) by (auto simp: drawable_def list_all_iff s growsD(1)[OF g] dest: newly_bound)
qed

lemma drawn_by_children:
  assumes "collected (pid (dirList s ! p)) cs (dirList s) (dirList s1)" "children_drawn cs s1 s'" "p < length (dirList s)"
    "elems (indentLevels s1) = levels" "mset (ids (shown s1)) = add_mset (pid (dirList s ! p)) (mset (ids (shown s)))"
  shows "drawn p levels s s'"
proof -
  let ?ps = "dirList s" and ?qs = "dirList s1" and ?rs = "dirList s'"
  note a = collected_newly[OF assms(1)]
  from assms(2) have b: "grows ?qs ?rs" "closed_under (newly ?qs ?rs \<union> set cs) ?rs"
    "newly ?qs ?rs \<subseteq> (\<Union>c \<in> set cs. below ?qs (pid (?qs ! c)))" "elems (indentLevels s') = elems (indentLevels s1)"
    "no_alloc_failure (mem s')" "prints (image_mset (\<lambda>i. pid (?qs ! i)) (mset cs) + names ?qs (newly ?qs ?rs)) s1 s'"
    by (simp_all add: children_drawn_def)
  note new = newly_trans[OF a(1) b(1)]
  have low: "newly ?qs ?rs \<subseteq> below ?ps (pid (?ps ! p))"
  proof
    fix i assume "i \<in> newly ?qs ?rs"
    then obtain d where d: "d \<in> set cs" "i \<in> below ?qs (pid (?qs ! d))" using b(3) by auto
    then have "i \<in> below ?ps (pid (?ps ! d))" "d \<in> below ?ps (pid (?ps ! p))"
      using below_mono[OF a(1) d(2)] a(4,6) newly_bound[of d ?ps ?qs] growsD(2)[OF a(1), of d] by auto
    then show "i \<in> below ?ps (pid (?ps ! p))" using below_trans by blast
  qed
  have pids: "image_mset (\<lambda>i. pid (?qs ! i)) (mset cs) = names ?ps (newly ?ps ?qs)"
    using names_grows[OF a(1), of "newly ?ps ?qs"] newly_bound[of _ ?ps ?qs] by (auto simp: names_def a(2))
  show ?thesis unfolding drawn_def
  proof (intro conjI)
    show "grows ?ps ?rs" by (rule grows_trans[OF a(1) b(1)])
    show "closed_under (newly ?ps ?rs) ?rs" using b(2) a(6) new by (simp add: Un_commute)
    show "\<not> hasChildren (pid (?ps ! p)) ?rs" using a(3) hasChildren_grows[OF b(1)] by blast
    show "newly ?ps ?rs \<subseteq> below ?ps (pid (?ps ! p))" using new a(4) low by simp
    show "prints (add_mset (pid (?ps ! p)) (names ?ps (newly ?ps ?rs))) s s'"
      using b(6) pids names_newly[OF a(1) b(1)] assms(5) by (simp add: prints_def ac_simps)
  qed (use b(4,5) assms(4) in simp_all)
qed

lemma printHierarchy_draws: "draws (printHierarchy fuel) fuel"
proof (induction fuel)
  case 0
  then show ?case by (simp add: draws_def)
next
  case (Suc fuel)
  show ?case unfolding draws_def
  proof (intro allI impI, elim conjE)
    fix p n fc lc multi and s :: tree_state
    assume p: "p < length (dirList s)" "untaken (dirList s) < Suc fuel" "tidy n s"
    let ?levels = "elems (indentLevels s) @ (if multi then [n] else [])"
    obtain csp cs s1 where pro: "prologue p n multi s = Inr (csp, cs, s1)"
      "collected (pid (dirList s ! p)) cs (dirList s) (dirList s1)" "shown s1 = shown s"
      "elems (indentLevels s1) = ?levels" "no_alloc_failure (mem s1)"
      using prologue_collects[OF p(3)] by blast
    note a = collected_newly[OF pro(2)]
    let ?s2 = "if fc then s1 else show_piece (Deco (if lc then '' `-'' else '' |-'')) s1"
    let ?s3 = "show_piece (Deco (if 1 < length cs then ''-+-'' else ''---'')) (show_piece (ProcId (pid (dirList s ! p))) ?s2)"
    let ?cl = "n + 3 + int (length (pid (dirList s ! p)))"
    have s3: "dirList ?s3 = dirList s1" "indentLevels ?s3 = indentLevels s1" "mem ?s3 = mem s1"
      "mset (ids (shown ?s3)) = add_mset (pid (dirList s ! p)) (mset (ids (shown s)))"
      using pro(3) by simp_all
    have fuel: "cs = [] \<or> untaken (dirList ?s3) < fuel"
    proof (cases cs)
      case (Cons c cs')
      then have "c \<in> newly (dirList s) (dirList s1)" using a(6) by auto
      from untaken_newly[OF a(1) this] p(2) show ?thesis by (simp add: s3(1))
    qed simp
    have cl: "0 \<le> ?cl" using p(3) by (simp add: tidy_def)
    have t3: "tidy ?cl ?s3"
      using p(3) pro(4,5) by (auto simp: tidy_def s3 list_all_iff split: if_splits)
    have d3: "drawable cs (dirList ?s3)" using a(5) by simp
    obtain s' where s': "print_children (printHierarchy fuel) csp ?cl (length cs) 0 cs ?s3 = Some (Inr s')"
      "children_drawn cs ?s3 s'"
      using print_children_draws[OF Suc.IH cl d3 fuel t3] by blast
    have "drawn p ?levels s s'"
      by (rule drawn_by_children[OF _ s'(2) p(1)]) (use pro(2,4) s3 in simp_all)
    then show "\<exists>s'. printHierarchy (Suc fuel) p n fc lc multi s = Some (Inr s') \<and> drawn p ?levels s s'"
      using pro(1) s'(1) by (simp add: Let_def)
  qed
qed

text \<open>C21: Drawing from process \<open>p\<close> with enough fuel for one level per process comes back without a fault and prints
  the identifiers of \<open>p\<close> and of exactly the processes below it that were not taken before, each of them once.
\<close>

theorem printHierarchy_prints_descendants:
  assumes "p < length (dirList s)" "untaken (dirList s) < fuel" "no_alloc_failure (mem s)" "elems (indentLevels s) = []"
    "shown s = []"
  shows "\<exists>s'. printHierarchy fuel p 0 True True True s = Some (Inr s')
    \<and> mset (ids (shown s')) = add_mset (pid (dirList s ! p))
        (image_mset (\<lambda>i. pid (dirList s ! i)) (mset_set (below (dirList s) (pid (dirList s ! p)))))"
proof -
  have "tidy 0 s" using assms(3,4) by (simp add: tidy_def)
  then obtain s' where s': "printHierarchy fuel p 0 True True True s = Some (Inr s')" "drawn p [0] s s'"
    using printHierarchy_draws[of fuel] assms(1,2,4) unfolding draws_def by fastforce
  then have "newly (dirList s) (dirList s') = below (dirList s) (pid (dirList s ! p))"
    using below_taken[of "dirList s" "dirList s'"] by (auto simp: drawn_def)
  with s' assms(5) show ?thesis by (auto simp: drawn_def prints_def names_def)
qed

definition process :: "string \<Rightarrow> string \<Rightarrow> ProcessInfo" where
  "process i j = \<lparr>pid = i, ppid = j, command = [], taken = False, parent = False\<rparr>"

lemma printHierarchy_prints_descendants_witness:
  "\<exists>s'. printHierarchy 4 0 0 True True True
       \<lparr>dirList = [process ''1'' ''0'', process ''7'' ''1'', process ''9'' ''7''],
         indentLevels = \<lparr>elems = [], room = 0\<rparr>, shown = [], mem = \<lparr>allocs = [], cerrno = 0\<rparr>\<rparr> = Some (Inr s')
     \<and> ''1'' \<in># mset (ids (shown s'))"
  using printHierarchy_prints_descendants[of 0
      "\<lparr>dirList = [process ''1'' ''0'', process ''7'' ''1'', process ''9'' ''7''],
         indentLevels = \<lparr>elems = [], room = 0\<rparr>, shown = [], mem = \<lparr>allocs = [], cerrno = 0\<rparr>\<rparr>" 4]
  by (fastforce simp: untaken_def process_def no_alloc_failure_def)

end
