(* ===== verification/Conform.thy ===== *)
theory Conform
  imports Idioms
begin

text \<open>
  Programs against a model of their surroundings. An environment \<open>K\<close> says which replies fit its state and what
  state the call leads to: a file with its offset, a tree of directories, a table of descriptors. \<open>under K e p Q w\<close>:
  on every run of \<open>p\<close> from \<open>w\<close> whose replies fit, from the state \<open>e\<close> on, \<open>Q\<close> holds of the result, of the state
  reached and of the world. The rules follow the shape of the programs.
\<close>

section \<open>Programs only add to the trace\<close>

named_theorems append_intros "programs that only add to the trace"

definition appends :: "'a prog \<Rightarrow> bool" where
  "appends p \<longleftrightarrow> (\<forall>w. wp p (\<lambda>r w'. \<exists>t. trace w' = trace w @ t) w)"

lemma appends_id: "(\<And>Q w. wp p Q w = Q (res w) (g w)) \<Longrightarrow> (\<And>w. trace (g w) = trace w) \<Longrightarrow> appends p"
  by (simp add: appends_def)

lemma appends_prefix:
  assumes "appends k" "\<And>Q w. wp p Q w = wp k Q (g w)" "\<And>w. \<exists>t. trace (g w) = trace w @ t"
  shows "appends p"
  unfolding appends_def assms(2)
proof
  fix w :: world
  obtain t where t: "trace (g w) = trace w @ t" using assms(3) by blast
  show "wp k (\<lambda>r w'. \<exists>t. trace w' = trace w @ t) (g w)"
    by (rule wp_mono[OF assms(1)[unfolded appends_def, rule_format]]) (auto simp: t)
qed

lemma appends_ends [append_intros]:
  "appends (ret x)" "appends (again s)" "appends (leave a)" "appends (stop r)" "appends (exit_prog n)" "appends (uexit_prog n)"
  "appends (errExit msg)" "appends (err_exit msg)" "appends (errExitEN n msg)" "appends (fatal msg)" "appends (usageErr msg)"
  "appends (cmdLineErr msg)"
  by (simp_all add: appends_def exec_simps)

lemma appends_quiet [append_intros]:
  "appends k \<Longrightarrow> appends (printf s k)" "appends k \<Longrightarrow> appends (fprintf_stderr s k)" "appends k \<Longrightarrow> appends (fflush_stdout k)"
  "appends k \<Longrightarrow> appends (set_errno e k)" "appends k \<Longrightarrow> appends (errMsg msg k)"
  by (erule appends_prefix, rule wp_printf wp_stderr wp_fflush wp_set_errno wp_errMsg, simp)+

lemma appends_event [append_intros]: "appends k \<Longrightarrow> appends (event c k)"
  by (erule appends_prefix, rule wp_event, simp)

lemma appends_get [append_intros]: "(\<And>x. appends (k x)) \<Longrightarrow> appends (get f k)"
  by (simp add: appends_def exec_simps)

lemma appends_from:
  assumes "appends p" "trace w1 = trace w @ u"
  shows "wp p (\<lambda>r w'. \<exists>t. trace w' = trace w @ t) w1"
  by (rule wp_mono[OF assms(1)[unfolded appends_def, rule_format]]) (auto simp: assms(2))

lemma appends_call [append_intros]: "(\<And>r. appends (k r)) \<Longrightarrow> appends (call c k)"
  unfolding appends_def[of "call c k"] wp_call by (auto intro: appends_from)

lemma appends_lib [append_intros]: "(\<And>r. appends (k r)) \<Longrightarrow> appends (lib f as k)"
  unfolding lib_def by (rule appends_call)

lemma appends_or_die [append_intros]:
  "(\<And>r. appends (k r)) \<Longrightarrow> appends (or_die c msg k)" "(\<And>r. appends (k r)) \<Longrightarrow> appends (or_die_null c msg k)"
  unfolding or_die_def or_die_null_def by (rule appends_call; simp add: appends_ends)+

lemma appends_seq [append_intros]:
  assumes "appends p" "\<And>x. appends (k x)"
  shows "appends (seq p k)"
  unfolding appends_def wp_seq
proof
  fix w :: world
  show "wp p (lift (\<lambda>x. wp (k x) (\<lambda>r w'. \<exists>t. trace w' = trace w @ t)) (\<lambda>r w'. \<exists>t. trace w' = trace w @ t)) w"
  proof (rule wp_mono[OF assms(1)[unfolded appends_def, rule_format]])
    fix r :: "'a result" and w1 :: world
    assume "\<exists>t. trace w1 = trace w @ t"
    then show "lift (\<lambda>x. wp (k x) (\<lambda>r w'. \<exists>t. trace w' = trace w @ t)) (\<lambda>r w'. \<exists>t. trace w' = trace w @ t) r w1"
      using appends_from[OF assms(2)] by (cases r) auto
  qed
qed

lemma appends_iter: "(\<And>s. appends (body s)) \<Longrightarrow> appends (iter n body s)"
proof (induction n arbitrary: s)
  case (Suc n)
  show ?case
    unfolding iter.simps by (rule appends_seq[OF Suc.prems]) (auto intro: Suc appends_ends split: sum.splits)
qed (simp add: appends_ends)

lemma appends_loop [append_intros]: "(\<And>s. appends (body s)) \<Longrightarrow> appends (loop body s)"
proof -
  assume b: "\<And>s. appends (body s)"
  have "wp (iter n body s) (\<lambda>r w'. \<exists>t. trace w' = trace w @ t) w" for n s and w :: world
    using appends_iter[of body n s, OF b] unfolding appends_def by blast
  then show ?thesis by (simp add: appends_def wp_def loop_def del: iter.simps)
qed

lemma appends_each [append_intros]: "(\<And>x. appends (body x)) \<Longrightarrow> appends (each body xs)"
  by (induction xs) (auto intro: append_intros)

lemma appends_branches [append_intros]:
  "(b \<Longrightarrow> appends p) \<Longrightarrow> (\<not> b \<Longrightarrow> appends q) \<Longrightarrow> appends (if b then p else q)"
  "appends p \<Longrightarrow> (\<And>x. appends (f x)) \<Longrightarrow> appends (case m of None \<Rightarrow> p | Some x \<Rightarrow> f x)"
  "(\<And>x y. appends (g x y)) \<Longrightarrow> appends (case z of (x, y) \<Rightarrow> g x y)"
  "appends p \<Longrightarrow> (\<And>x xs. appends (h x xs)) \<Longrightarrow> appends (case l of [] \<Rightarrow> p | x # xs \<Rightarrow> h x xs)"
  "(\<And>x. appends (i x)) \<Longrightarrow> (\<And>y. appends (j y)) \<Longrightarrow> appends (case s of Inl x \<Rightarrow> i x | Inr y \<Rightarrow> j y)"
  "appends (e v) \<Longrightarrow> appends (Let v e)"
  by (auto split: option.splits prod.splits list.splits sum.splits)

lemma appends_reply [append_intros]:
  "(\<And>x. appends (a x)) \<Longrightarrow> (\<And>x. appends (b x)) \<Longrightarrow> (\<And>x. appends (c x)) \<Longrightarrow> (\<And>x. appends (d x)) \<Longrightarrow>
    (\<And>x. appends (e x)) \<Longrightarrow> (\<And>x. appends (f x)) \<Longrightarrow> appends g \<Longrightarrow> appends (case_reply a b c d e f g r)"
  by (cases r) simp_all

lemma appends_checked [append_intros]: "(\<And>x. appends (k x)) \<Longrightarrow> appends (checked m k)"
  unfolding checked_def by (auto intro: append_intros split: sum.splits)

section \<open>Environments\<close>

primrec run :: "('e \<Rightarrow> syscall \<Rightarrow> reply \<Rightarrow> 'e option) \<Rightarrow> 'e \<Rightarrow> (syscall \<times> reply) list \<Rightarrow> 'e option" where
  \<comment> \<open>the state after the calls of a trace; \<open>None\<close> when a reply does not fit\<close>
  "run K e [] = Some e"
| "run K e (c # cs) = (case K e (fst c) (snd c) of None \<Rightarrow> None | Some e' \<Rightarrow> run K e' cs)"

lemma run_append: "run K e (t @ u) = (case run K e t of None \<Rightarrow> None | Some e' \<Rightarrow> run K e' u)"
  by (induction t arbitrary: e) (auto split: option.splits)

definition under :: "('e \<Rightarrow> syscall \<Rightarrow> reply \<Rightarrow> 'e option) \<Rightarrow> 'e \<Rightarrow> 'a prog \<Rightarrow> ('a result \<Rightarrow> 'e \<Rightarrow> world \<Rightarrow> bool) \<Rightarrow> world \<Rightarrow> bool" where
  "under K e p Q w \<longleftrightarrow> wp p (\<lambda>r w'. \<exists>t. trace w' = trace w @ t \<and> (\<forall>e'. run K e t = Some e' \<longrightarrow> Q r e' w')) w"

definition lift_under :: "('a \<Rightarrow> 'e \<Rightarrow> world \<Rightarrow> bool) \<Rightarrow> ('b result \<Rightarrow> 'e \<Rightarrow> world \<Rightarrow> bool) \<Rightarrow> 'a result \<Rightarrow> 'e \<Rightarrow> world \<Rightarrow> bool" where
  "lift_under P Q r e w = (case r of Return x \<Rightarrow> P x e w | Exited n \<Rightarrow> Q (Exited n) e w
     | UExited n \<Rightarrow> Q (UExited n) e w | Aborted \<Rightarrow> Q Aborted e w | Blocked \<Rightarrow> Q Blocked e w
     | Fault f \<Rightarrow> Q (Fault f) e w | No_fuel \<Rightarrow> Q No_fuel e w)"

lemma lift_under_simps [simp]:
  "lift_under P Q (Return x) e w = P x e w" "lift_under P Q (Exited n) e w = Q (Exited n) e w"
  "lift_under P Q (UExited n) e w = Q (UExited n) e w" "lift_under P Q Aborted e w = Q Aborted e w"
  "lift_under P Q Blocked e w = Q Blocked e w" "lift_under P Q (Fault f) e w = Q (Fault f) e w"
  "lift_under P Q No_fuel e w = Q No_fuel e w"
  by (simp_all add: lift_under_def)

lemma under_mono: "under K e p Q w \<Longrightarrow> (\<And>r e' w'. Q r e' w' \<Longrightarrow> Q' r e' w') \<Longrightarrow> under K e p Q' w"
  unfolding under_def by (blast intro: wp_mono)

lemma underD:
  assumes "under K e p Q w" "p w = (r, w')"
  obtains t where "trace w' = trace w @ t" "\<And>e'. run K e t = Some e' \<Longrightarrow> Q r e' w'"
  using assms by (auto simp: under_def wp_def)

lemma under_run:
  assumes "under K e p Q w" "p w = (r, w')" "trace w' = trace w @ t" "run K e t = Some e'"
  shows "Q r e' w'"
proof -
  from assms(1,2) obtain t' where "trace w' = trace w @ t'" "\<And>e'. run K e t' = Some e' \<Longrightarrow> Q r e' w'" by (rule underD) blast
  then show ?thesis using assms(3,4) by simp
qed

lemma under_id:
  assumes "\<And>Q w. wp p Q w = Q (res w) (g w)" "\<And>w. trace (g w) = trace w" "Q (res w) e (g w)"
  shows "under K e p Q w"
  unfolding under_def assms(1) by (intro exI[of _ "[]"]) (simp add: assms)

lemma under_ret: "Q (Return x) e w \<Longrightarrow> under K e (ret x) Q w"
  by (rule under_id[where g = "\<lambda>w. w" and res = "\<lambda>_. Return x"]) (simp_all add: wp_ret)

lemma under_again: "Q (Return (Inl s)) e w \<Longrightarrow> under K e (again s) Q w"
  unfolding again_def by (rule under_ret)

lemma under_leave: "Q (Return (Inr a)) e w \<Longrightarrow> under K e (leave a) Q w"
  unfolding leave_def by (rule under_ret)

lemma under_stop: "Q r e w \<Longrightarrow> under K e (stop r) Q w"
  by (rule under_id[where g = "\<lambda>w. w" and res = "\<lambda>_. r"]) (simp_all add: wp_stop)

lemma under_errExit: "Q (end_of True w) e (die True (errno w) True msg w) \<Longrightarrow> under K e (errExit msg) Q w"
  by (rule under_id[where g = "\<lambda>w. die True (errno w) True msg w" and res = "end_of True"]) (simp_all add: wp_errExit)

lemma under_exit: "Q (Exited n) e (flushed w) \<Longrightarrow> under K e (exit_prog n) Q w"
  by (rule under_id[where g = flushed and res = "\<lambda>_. Exited n"]) (simp_all add: wp_exit flushed_def)

lemma under_prefix:
  assumes "\<And>Q w. wp p Q w = wp k Q (g w)" "\<And>w. trace (g w) = trace w" "under K e k Q (g w)"
  shows "under K e p Q w"
  using assms(3) unfolding under_def assms(1) assms(2) .

lemma under_printf: "under K e k Q (w\<lparr>obuf := obuf w @ s\<rparr>) \<Longrightarrow> under K e (printf s k) Q w"
  by (rule under_prefix[where g = "\<lambda>w. w\<lparr>obuf := obuf w @ s\<rparr>"]) (rule wp_printf, simp)

lemma under_set_errno: "under K e k Q (w\<lparr>errno := n\<rparr>) \<Longrightarrow> under K e (set_errno n k) Q w"
  by (rule under_prefix[where g = "\<lambda>w. w\<lparr>errno := n\<rparr>"]) (rule wp_set_errno, simp)

lemma under_get: "under K e (k (f w)) Q w \<Longrightarrow> under K e (get f k) Q w"
  by (simp add: under_def wp_get)

lemma under_errMsg:
  "under K e k Q ((told (error_line True (errno w) msg w) (flushed w))\<lparr>errno := errno w\<rparr>) \<Longrightarrow> under K e (errMsg msg k) Q w"
  by (rule under_prefix[where g = "\<lambda>w. (told (error_line True (errno w) msg w) (flushed w))\<lparr>errno := errno w\<rparr>"])
    (rule wp_errMsg, simp)

lemma under_err_exit: "Q (end_of False w) e (die True (errno w) False msg w) \<Longrightarrow> under K e (err_exit msg) Q w"
  by (rule under_id[where g = "\<lambda>w. die True (errno w) False msg w" and res = "end_of False"]) (simp_all add: wp_err_exit)

lemma under_uexit: "Q (UExited n) e w \<Longrightarrow> under K e (uexit_prog n) Q w"
  by (rule under_id[where g = "\<lambda>w. w" and res = "\<lambda>_. UExited n"]) (simp_all add: wp_uexit)

lemma under_checked: "(\<And>x. m = Inr x \<Longrightarrow> under K e (k x) Q w) \<Longrightarrow> (\<And>f. m = Inl f \<Longrightarrow> Q (Fault f) e w) \<Longrightarrow>
    under K e (checked m k) Q w"
  unfolding checked_def by (cases m) (auto intro: under_stop)

lemma under_fatal: "(\<And>w. Q (end_of True w) e w) \<Longrightarrow> (\<And>r w w'. Q r e w = Q r e w') \<Longrightarrow> under K e (fatal msg) Q w"
  by (rule under_id[where g = "\<lambda>w. die False 0 True msg w" and res = "end_of True"]) (auto simp: wp_fatal)

lemma under_usageErr: "(\<And>w. Q (Exited EXIT_FAILURE) e w) \<Longrightarrow> under K e (usageErr msg) Q w"
  unfolding under_def wp_usageErr by (intro exI[of _ "[]"]) (simp add: usage_die_def)

lemma under_flush: "under K e k Q (flushed w) \<Longrightarrow> under K e (fflush_stdout k) Q w"
  by (rule under_prefix[where g = flushed]) (simp_all add: flushed_def wp_fflush)

lemma under_stderr: "under K e k Q (told s w) \<Longrightarrow> under K e (fprintf_stderr s k) Q w"
  by (rule under_prefix[where g = "told s"]) (simp_all add: told_def wp_stderr)

lemma under_step:
  assumes "under K e' p Q w1" "trace w1 = trace w @ u" "run K e u = Some e'"
  shows "wp p (\<lambda>r w'. \<exists>t. trace w' = trace w @ t \<and> (\<forall>e'. run K e t = Some e' \<longrightarrow> Q r e' w')) w1"
  using assms(1) unfolding under_def
proof (rule wp_mono)
  fix r w'
  assume "\<exists>t. trace w' = trace w1 @ t \<and> (\<forall>e''. run K e' t = Some e'' \<longrightarrow> Q r e'' w')"
  then obtain t where "trace w' = trace w @ (u @ t)" "\<forall>e''. run K e (u @ t) = Some e'' \<longrightarrow> Q r e'' w'"
    using assms(2,3) by (auto simp: run_append)
  then show "\<exists>t. trace w' = trace w @ t \<and> (\<forall>e'. run K e t = Some e' \<longrightarrow> Q r e' w')" by blast
qed

lemma under_stray:
  assumes "appends p" "trace w1 = trace w @ u" "run K e u = None"
  shows "wp p (\<lambda>r w'. \<exists>t. trace w' = trace w @ t \<and> (\<forall>e'. run K e t = Some e' \<longrightarrow> Q r e' w')) w1"
  using assms(1)[unfolded appends_def, rule_format, of w1]
proof (rule wp_mono)
  fix r :: "'a result" and w' :: world
  assume "\<exists>t. trace w' = trace w1 @ t"
  then obtain t where "trace w' = trace w @ (u @ t)" "run K e (u @ t) = None" using assms(2,3) by (auto simp: run_append)
  then show "\<exists>t. trace w' = trace w @ t \<and> (\<forall>e'. run K e t = Some e' \<longrightarrow> Q r e' w')" by force
qed

lemma under_call:
  assumes "\<And>r. appends (k r)" "script w = [] \<Longrightarrow> Q Blocked e w"
    "\<And>r rs e'. script w = r # rs \<Longrightarrow> K e c r = Some e' \<Longrightarrow>
      under K e' (k r) Q (w\<lparr>script := rs, trace := trace w @ [(c, r)], errno := reply_errno r (errno w)\<rparr>)"
  shows "under K e (call c k) Q w"
  unfolding under_def wp_call
proof (intro conjI allI impI)
  fix r rs assume s: "script w = r # rs"
  let ?w = "w\<lparr>script := rs, trace := trace w @ [(c, r)], errno := reply_errno r (errno w)\<rparr>"
  show "wp (k r) (\<lambda>r w'. \<exists>t. trace w' = trace w @ t \<and> (\<forall>e'. run K e t = Some e' \<longrightarrow> Q r e' w')) ?w"
  proof (cases "K e c r")
    case None
    then show ?thesis by (intro under_stray[OF assms(1), of _ _ "[(c, r)]"]) simp_all
  next
    case (Some e')
    then show ?thesis by (intro under_step[OF assms(3)[OF s Some], of _ "[(c, r)]"]) simp_all
  qed
qed (use assms(2) in \<open>auto intro!: exI[of _ "[]"]\<close>)

lemma under_seq:
  assumes "under K e p (lift_under (\<lambda>x e w. under K e (k x) Q w) Q) w" "\<And>x. appends (k x)"
  shows "under K e (seq p k) Q w"
  unfolding under_def[of K e "seq p k"] wp_seq
proof (rule wp_mono[OF assms(1)[unfolded under_def[of K e p]]])
  fix r and w1 :: world
  assume "\<exists>t. trace w1 = trace w @ t \<and>
    (\<forall>e'. run K e t = Some e' \<longrightarrow> lift_under (\<lambda>x e w. under K e (k x) Q w) Q r e' w1)"
  then obtain t where t: "trace w1 = trace w @ t"
    "\<And>e'. run K e t = Some e' \<Longrightarrow> lift_under (\<lambda>x e w. under K e (k x) Q w) Q r e' w1" by blast
  let ?Q = "\<lambda>r w'. \<exists>t. trace w' = trace w @ t \<and> (\<forall>e'. run K e t = Some e' \<longrightarrow> Q r e' w')"
  have k: "wp (k x) ?Q w1" if x: "r = Return x" for x
  proof (cases "run K e t")
    case None
    then show ?thesis using under_stray[OF assms(2) t(1) None] by simp
  next
    case (Some e')
    from t(2)[OF this] x under_step[OF _ t(1) Some] show ?thesis by simp
  qed
  show "lift (\<lambda>x. wp (k x) ?Q) ?Q r w1"
    using k t by (cases r) fastforce+
qed

lemma under_iter:
  assumes "\<And>s. appends (body s)" "\<And>s. rounds (body s)"
    "\<And>s e w. I s e w \<Longrightarrow> under K e (body s) (\<lambda>r e' w'. case r of Return (Inl s') \<Rightarrow> I s' e' w' | Return (Inr a) \<Rightarrow> Q (Return a) e' w'
      | Exited m \<Rightarrow> Q (Exited m) e' w' | UExited m \<Rightarrow> Q (UExited m) e' w' | Aborted \<Rightarrow> Q Aborted e' w' | Blocked \<Rightarrow> Q Blocked e' w'
      | Fault f \<Rightarrow> Q (Fault f) e' w' | No_fuel \<Rightarrow> True) w"
  shows "I s e w \<Longrightarrow> length (script w) < n \<Longrightarrow> under K e (iter n body s) Q w"
proof (induction n arbitrary: s e w)
  case (Suc n)
  let ?Q = "\<lambda>r e' w'. case r of Return (Inl s') \<Rightarrow> I s' e' w' | Return (Inr a) \<Rightarrow> Q (Return a) e' w'
      | Exited m \<Rightarrow> Q (Exited m) e' w' | UExited m \<Rightarrow> Q (UExited m) e' w' | Aborted \<Rightarrow> Q Aborted e' w' | Blocked \<Rightarrow> Q Blocked e' w'
      | Fault f \<Rightarrow> Q (Fault f) e' w' | No_fuel \<Rightarrow> True"
  let ?k = "\<lambda>x. case x of Inl s' \<Rightarrow> iter n body s' | Inr a \<Rightarrow> ret a"
  let ?R = "\<lambda>r w'. r \<noteq> No_fuel \<and> length (script w') \<le> length (script w)
     \<and> (\<forall>x. r = Return (Inl x) \<longrightarrow> length (script w') < length (script w))"
  have "under K e (body s) (\<lambda>r e' w'. ?Q r e' w' \<and> ?R r w') w"
    using wp_conj[OF assms(3)[OF Suc.prems(1), unfolded under_def] assms(2)[unfolded rounds_def, rule_format, of s w]]
    unfolding under_def by (rule wp_mono) blast
  then have "under K e (body s) (lift_under (\<lambda>x e w. under K e (?k x) Q w) Q) w"
  proof (rule under_mono)
    fix r e' and w' :: world assume q: "?Q r e' w' \<and> ?R r w'"
    show "lift_under (\<lambda>x e w. under K e (?k x) Q w) Q r e' w'"
    proof (cases r)
      case (Return x)
      with q Suc.prems(2) show ?thesis by (cases x) (auto intro: Suc.IH under_ret)
    qed (use q in simp_all)
  qed
  then show ?case
    unfolding iter.simps
    by (rule under_seq) (auto intro!: append_intros appends_iter[OF assms(1)])
qed simp

lemma under_loop:
  assumes "I s e w" "\<And>s. appends (body s)" "\<And>s. rounds (body s)"
    "\<And>s e w. I s e w \<Longrightarrow> under K e (body s) (\<lambda>r e' w'. case r of Return (Inl s') \<Rightarrow> I s' e' w' | Return (Inr a) \<Rightarrow> Q (Return a) e' w'
      | Exited m \<Rightarrow> Q (Exited m) e' w' | UExited m \<Rightarrow> Q (UExited m) e' w' | Aborted \<Rightarrow> Q Aborted e' w' | Blocked \<Rightarrow> Q Blocked e' w'
      | Fault f \<Rightarrow> Q (Fault f) e' w' | No_fuel \<Rightarrow> True) w"
  shows "under K e (loop body s) Q w"
  using under_iter[of body I K Q, OF assms(2-4) assms(1) lessI]
  by (simp add: under_def wp_def loop_def del: iter.simps)

text \<open>The same for a body whose rounds use up replies only where they fit, as a recursive call with bounded fuel.\<close>

lemma under_iter_decreasing:
  assumes "\<And>s. appends (body s)"
    "\<And>s e w. I s e w \<Longrightarrow> length (script w) < N \<Longrightarrow> under K e (body s) (\<lambda>r e' w'. case r of
        Return (Inl s') \<Rightarrow> I s' e' w' \<and> length (script w') < length (script w) | Return (Inr a) \<Rightarrow> Q (Return a) e' w'
      | Exited m \<Rightarrow> Q (Exited m) e' w' | UExited m \<Rightarrow> Q (UExited m) e' w' | Aborted \<Rightarrow> Q Aborted e' w' | Blocked \<Rightarrow> Q Blocked e' w'
      | Fault f \<Rightarrow> Q (Fault f) e' w' | No_fuel \<Rightarrow> Q No_fuel e' w') w"
  shows "I s e w \<Longrightarrow> length (script w) < n \<Longrightarrow> n \<le> N \<Longrightarrow> under K e (iter n body s) Q w"
proof (induction n arbitrary: s e w)
  case (Suc n)
  have "length (script w) < N" using Suc.prems(2,3) by simp
  have "under K e (body s) (lift_under (\<lambda>x e w. under K e (case x of Inl s' \<Rightarrow> iter n body s' | Inr a \<Rightarrow> ret a) Q w) Q) w"
  proof (rule under_mono[OF assms(2)[OF Suc.prems(1) \<open>length (script w) < N\<close>]], goal_cases)
    case (1 r e' w')
    show ?case
    proof (cases r)
      case (Return x)
      with 1 Suc.prems(2,3) show ?thesis by (cases x) (auto intro: Suc.IH under_ret)
    qed (use 1 in simp_all)
  qed
  then show ?case
    unfolding iter.simps by (rule under_seq) (auto intro!: append_intros appends_iter[OF assms(1)])
qed simp

lemma under_loop_decreasing:
  assumes "I s e w" "\<And>s. appends (body s)"
    "\<And>s e w1. I s e w1 \<Longrightarrow> length (script w1) \<le> length (script w) \<Longrightarrow> under K e (body s) (\<lambda>r e' w'. case r of
        Return (Inl s') \<Rightarrow> I s' e' w' \<and> length (script w') < length (script w1) | Return (Inr a) \<Rightarrow> Q (Return a) e' w'
      | Exited m \<Rightarrow> Q (Exited m) e' w' | UExited m \<Rightarrow> Q (UExited m) e' w' | Aborted \<Rightarrow> Q Aborted e' w' | Blocked \<Rightarrow> Q Blocked e' w'
      | Fault f \<Rightarrow> Q (Fault f) e' w' | No_fuel \<Rightarrow> Q No_fuel e' w') w1"
  shows "under K e (loop body s) Q w"
  using under_iter_decreasing[of body I "Suc (length (script w))" K Q, OF assms(2) assms(3)[unfolded less_Suc_eq_le[symmetric]]
      assms(1) lessI order_refl]
  by (simp add: under_def wp_def loop_def del: iter.simps)

section \<open>Postconditions\<close>

definition plays :: "('a \<Rightarrow> 'e \<Rightarrow> world \<Rightarrow> bool) \<Rightarrow> 'a result \<Rightarrow> 'e \<Rightarrow> world \<Rightarrow> bool" where
  \<comment> \<open>no fault, and \<open>P\<close> of what is returned\<close>
  "plays P r e w = (case r of Return x \<Rightarrow> P x e w | Fault f \<Rightarrow> False | No_fuel \<Rightarrow> False | _ \<Rightarrow> True)"

lemma plays_simps [simp]: "plays P (Return x) e w = P x e w" "plays P Blocked e w" "plays P (end_of b w0) e w" "\<not> plays P (Fault f) e w"
  "plays P (Exited n) e w" "plays P (UExited n) e w" "plays P Aborted e w" "\<not> plays P No_fuel e w"
  by (simp_all add: plays_def end_of_def)

definition same_out :: "world \<Rightarrow> world \<Rightarrow> bool" where
  "same_out w w' \<longleftrightarrow> out w' = out w \<and> obuf w' = obuf w"

section \<open>Runs that may end with success\<close>

definition finishes :: "('a \<Rightarrow> 'e \<Rightarrow> world \<Rightarrow> bool) \<Rightarrow> ('e \<Rightarrow> world \<Rightarrow> bool) \<Rightarrow> 'a result \<Rightarrow> 'e \<Rightarrow> world \<Rightarrow> bool" where
  \<comment> \<open>no fault, \<open>P\<close> of what is returned, and \<open>S\<close> when the program exits with success\<close>
  "finishes P S r e w = (case r of Return x \<Rightarrow> P x e w | Fault f \<Rightarrow> False | No_fuel \<Rightarrow> False
     | Exited n \<Rightarrow> n = EXIT_SUCCESS \<longrightarrow> S e w | _ \<Rightarrow> True)"

lemma finishes_simps [simp]: "finishes P S (Return x) e w = P x e w" "finishes P S Blocked e w" "finishes P S (end_of b w0) e w"
  "\<not> finishes P S (Fault f) e w" "finishes P S (Exited n) e w = (n = EXIT_SUCCESS \<longrightarrow> S e w)" "finishes P S (UExited n) e w"
  "finishes P S Aborted e w" "\<not> finishes P S No_fuel e w"
  by (simp_all add: finishes_def end_of_def EXIT_SUCCESS_def EXIT_FAILURE_def)

lemma under_weaken:
  assumes "under K e p (finishes P' S') w" "\<And>x e' w'. P' x e' w' \<Longrightarrow> P x e' w'" "\<And>e' w'. S' e' w' \<Longrightarrow> S e' w'"
  shows "under K e p (finishes P S) w"
  by (rule under_mono[OF assms(1)]) (use assms(2,3) in \<open>auto simp: finishes_def split: result.splits\<close>)

lemma under_then:
  assumes "under K e p (finishes P' S') w" "\<And>x e' w'. P' x e' w' \<Longrightarrow> under K e' (k x) (finishes P S) w'"
    "\<And>e' w'. S' e' w' \<Longrightarrow> S e' w'" "\<And>x. appends (k x)"
  shows "under K e (seq p k) (finishes P S) w"
proof (rule under_seq[OF _ assms(4)], rule under_mono[OF assms(1)], goal_cases)
  case (1 r e' w')
  then show ?case using assms(2,3) by (cases r) auto
qed

lemma under_repeat:
  assumes "I s e w" "\<And>s. appends (body s)" "\<And>s. rounds (body s)"
    "\<And>s e w. I s e w \<Longrightarrow> under K e (body s) (finishes (\<lambda>x e' w'. case x of Inl s' \<Rightarrow> I s' e' w' | Inr a \<Rightarrow> P a e' w') S) w"
  shows "under K e (loop body s) (finishes P S) w"
proof (rule under_loop[where I = I, OF assms(1,2,3)], goal_cases)
  case (1 s e w)
  show ?case
    by (rule under_mono[OF assms(4)[OF 1]]) (auto simp: finishes_def split: result.splits sum.splits)
qed

lemma under_event:
  assumes "\<And>e'. K e c (RVal 0) = Some e' \<Longrightarrow> under K e' k Q (w\<lparr>trace := trace w @ [(c, RVal 0)]\<rparr>)" "appends k"
  shows "under K e (event c k) Q w"
  unfolding under_def wp_event
proof (cases "K e c (RVal 0)")
  case None
  then show "wp k (\<lambda>r w'. \<exists>t. trace w' = trace w @ t \<and> (\<forall>e'. run K e t = Some e' \<longrightarrow> Q r e' w')) (w\<lparr>trace := trace w @ [(c, RVal 0)]\<rparr>)"
    by (intro under_stray[OF assms(2), of _ _ "[(c, RVal 0)]"]) simp_all
next
  case (Some e')
  then show "wp k (\<lambda>r w'. \<exists>t. trace w' = trace w @ t \<and> (\<forall>e'. run K e t = Some e' \<longrightarrow> Q r e' w')) (w\<lparr>trace := trace w @ [(c, RVal 0)]\<rparr>)"
    by (intro under_step[OF assms(1)[OF Some], of _ "[(c, RVal 0)]"]) simp_all
qed

lemma under_each:
  assumes "I [] xs e w" "\<And>x. appends (body x)"
    "\<And>x ys zs e w. xs = ys @ x # zs \<Longrightarrow> I ys (x # zs) e w \<Longrightarrow> under K e (body x) (finishes (\<lambda>_ e' w'. I (ys @ [x]) zs e' w') S) w"
  shows "under K e (each body xs) (finishes (\<lambda>_ e' w'. I xs [] e' w') S) w"
proof -
  have "under K e (each body zs) (finishes (\<lambda>_ e' w'. I xs [] e' w') S) w" if "xs = ys @ zs" "I ys zs e w" for ys zs e and w :: world
    using that
  proof (induction zs arbitrary: ys e w)
    case (Cons x zs ys e w)
    show ?case
      unfolding each.simps
      by (rule under_then[OF assms(3)[OF Cons.prems]]) (use Cons.IH[of "ys @ [x]"] Cons.prems(1) in \<open>auto intro!: append_intros assms(2)\<close>)
  qed (auto intro: under_ret)
  from this[of "[]" xs] assms(1) show ?thesis by simp
qed

lemma same_out_simps [simp]: "same_out w (w1\<lparr>script := x\<rparr>) = same_out w w1" "same_out w (w1\<lparr>trace := t\<rparr>) = same_out w w1"
  "same_out w (w1\<lparr>errno := n\<rparr>) = same_out w w1" "same_out w w"
  by (simp_all add: same_out_def)

lemma same_out_trans: "same_out w0 w \<Longrightarrow> same_out w w1 \<Longrightarrow> same_out w0 w1"
  by (simp add: same_out_def)

lemma appends_if_fun [append_intros]: "appends (f k) \<Longrightarrow> appends (g k) \<Longrightarrow> appends ((if b then f else g) k)"
  by simp

lemma appends_getInt [append_intros]: "appends (getInt a fl n)"
  unfolding appends_def by (rule allI, rule wp_getInt) simp_all

lemma ends_getInt [fuel_intros]: "shrinks (getInt a fl n)"
  unfolding shrinks_def by (rule allI, rule wp_getInt) simp_all

text \<open>A call at the head of a program is made first.\<close>

lemma seq_call: "seq (call c k) f = call c (\<lambda>r. seq (k r) f)"
  by (rule ext) (simp add: seq_def call_def split: list.splits)

lemma seq_ret_first: "seq (ret x) k = k x"
  by (rule ext) (simp add: seq_def ret_def)

lemma seq_errno: "seq (set_errno n p) k = set_errno n (seq p k)"
  by (rule ext) (simp add: seq_def set_errno_def)

end
