(* ===== verification/Tail.thy ===== *)
theory Tail
  imports Conform
begin

text \<open>
  \<open>13_File_IO_Buffering/tail_command.c\<close>: the last lines of a file, found by reading it backwards a byte at a time into
  a dynamic array of dynamic arrays of characters.
\<close>

section \<open>The program\<close>

definition read_back :: "int \<Rightarrow> (char option \<Rightarrow> int \<Rightarrow> 'a prog) \<Rightarrow> 'a prog" where
  \<comment> \<open>the character, if one was read, and the \<open>off_t\<close> of \<open>lseek\<close> as an \<open>int\<close>\<close>
  "read_back fd k = or_die (Fd (Read fd 1)) ''read'' (\<lambda>r.
     call (Fd (Lseek fd (-2) ''SEEK_CUR'')) (\<lambda>l.
       k (case bytes_read 1 r of [] \<Rightarrow> None | c # cs \<Rightarrow> Some c) (to_int32 (rv l))))"

definition tail_char :: "int \<Rightarrow> char vec \<times> cstate \<Rightarrow> (char vec \<times> cstate + bool \<times> char vec \<times> cstate) prog" where
  \<comment> \<open>a round of the inner loop; leaves with \<open>True\<close> for \<open>goto double_break\<close>\<close>
  "tail_char fd ls = (case ls of (line, st) \<Rightarrow>
     read_back fd (\<lambda>c pos. case c of
         None \<Rightarrow> stop (Fault Uninitialised)
       | Some ch \<Rightarrow>
           if pos = -1 then
             checked (vec_push ch line st) (\<lambda>(line1, st1).
               checked (vec_push NUL line1 st1) (\<lambda>(line2, st2). leave (True, line2, st2)))
           else if ch = NL then checked (vec_push NUL line st) (\<lambda>(line1, st1). leave (False, line1, st1))
           else checked (vec_push ch line st) again))"

fun tail_lines :: "int \<Rightarrow> nat \<Rightarrow> char vec vec \<Rightarrow> cstate \<Rightarrow> (char vec vec \<times> cstate) prog" where
  \<comment> \<open>the outer loop with \<open>n\<close> rounds to go\<close>
  "tail_lines fd 0 lines st = ret (lines, st)"
| "tail_lines fd (Suc n) lines st =
     checked (vec_push vec_init lines st) (\<lambda>(lines1, st1).
       seq (loop (tail_char fd) (vec_init, st1)) (\<lambda>(stopped, line, st2).
         let lines2 = lines1\<lparr>elems := butlast (elems lines1) @ [line]\<rparr> in
         if stopped then ret (lines2, st2) else tail_lines fd n lines2 st2))"

fun show_lines :: "char vec list \<Rightarrow> cstate \<Rightarrow> unit prog" where
  \<comment> \<open>a line is followed by a newline unless the write reports exactly one byte\<close>
  "show_lines [] st = ret ()"
| "show_lines (line # lines) st = (case vec_reverse line st of (line', st') \<Rightarrow>
     call (Fd (Write 1 (elems line'))) (\<lambda>r.
       if rv r = 1 then show_lines lines st'
       else call (Fd (Write 1 [NL])) (\<lambda>_. show_lines lines st')))"

definition tail_main :: "string list \<Rightarrow> cstate \<Rightarrow> int prog" where
  "tail_main argv st =
     (if length argv \<noteq> 2 \<and> length argv \<noteq> 3 then usageErr ''01_ex.bin [ numlines ] file''
      else
        let (fileIndex, number) = (if length argv = 3 then (2, strtol (argv ! 1) 10) else (1, (10, [], False))) in
        case number of (num, endptr, erange) \<Rightarrow>
          if endptr \<noteq> [] then usageErr ''01_ex.bin [ -n num ] file''
          else or_die (Path (Open (argv ! fileIndex) ''O_RDONLY'' 0)) ''open'' (\<lambda>fd.
            call (Fd (Lseek (rv fd) (-1) ''SEEK_END'')) (\<lambda>_.
              seq (tail_lines (rv fd) (nat (to_int32 num + 1)) vec_init st) (\<lambda>(lines, st1).
                case vec_reverse lines st1 of (lines', st2) \<Rightarrow>
                  seq (show_lines (elems lines') st2) (\<lambda>_. call (Fd (Close (rv fd))) (\<lambda>_. ret 0))))))"

section \<open>A file\<close>

record file_env =
  content :: string
  pos :: nat
  written :: string

definition seek_to :: "int \<Rightarrow> reply \<Rightarrow> file_env \<Rightarrow> file_env option" where
  \<comment> \<open>an offset before the start is refused and changes nothing\<close>
  "seek_to off r e = (if off < 0 then (if rv r = -1 then Some e else None)
     else if r = RVal off then Some (e\<lparr>pos := nat off\<rparr>) else None)"

definition file_kernel :: "file_env \<Rightarrow> syscall \<Rightarrow> reply \<Rightarrow> file_env option" where
  "file_kernel e c r = (case c of
      Fd (Read fd n) \<Rightarrow> if r = RData (take n (drop (pos e) (content e)))
        then Some (e\<lparr>pos := min (length (content e)) (pos e + n)\<rparr>) else None
    | Fd (Lseek fd off whence) \<Rightarrow>
        seek_to (off + (if whence = ''SEEK_END'' then int (length (content e)) else int (pos e))) r e
    | Fd (Write fd d) \<Rightarrow> if r = RVal (int (length d)) then Some (e\<lparr>written := written e @ d\<rparr>) else None
    | _ \<Rightarrow> if rv r = -1 then None else Some e)"

section \<open>Reading lines backwards\<close>

fun split_lines :: "string \<Rightarrow> string list" where
  \<comment> \<open>the pieces between the newlines, one more than there are newlines\<close>
  "split_lines [] = [[]]"
| "split_lines (c # cs) = (if c = NL then [] # split_lines cs else (c # hd (split_lines cs)) # tl (split_lines cs))"

fun split_file :: "string \<Rightarrow> string list" where
  \<comment> \<open>the same, but the first character of the file is never taken for a separator\<close>
  "split_file [] = []"
| "split_file (c # cs) = (c # hd (split_lines cs)) # tl (split_lines cs)"

definition tail_line_shown :: "string \<Rightarrow> string" where
  \<comment> \<open>every line starts with the null byte that ended it in memory; an empty one loses its newline\<close>
  "tail_line_shown l = (if l = [] then [NUL] else NUL # l @ [NL])"

definition last_of :: "nat \<Rightarrow> 'a list \<Rightarrow> 'a list" where
  "last_of n xs = drop (length xs - n) xs"

fun back_pieces :: "string \<Rightarrow> string list" where
  \<comment> \<open>what is left of the file, read backwards, cut into lines as the loops do\<close>
  "back_pieces [] = []"
| "back_pieces [c] = [[c]]"
| "back_pieces (c # d # cs) = (if c = NL then [] # back_pieces (d # cs)
     else (c # hd (back_pieces (d # cs))) # tl (back_pieces (d # cs)))"

lemma back_pieces_Nil [simp]: "back_pieces cs = [] \<longleftrightarrow> cs = []"
  by (cases cs rule: back_pieces.cases) auto

lemma split_lines_Nil [simp]: "split_lines cs \<noteq> []"
  by (induction cs) auto

lemma split_lines_snoc: "split_lines (cs @ [c]) = (if c = NL then split_lines cs @ [[]]
    else butlast (split_lines cs) @ [last (split_lines cs) @ [c]])"
proof (induction cs)
  case (Cons d cs)
  then show ?case by (cases "split_lines cs") auto
qed simp

lemma split_file_snoc: "cs \<noteq> [] \<Longrightarrow> split_file (cs @ [c]) = (if c = NL then split_file cs @ [[]]
    else butlast (split_file cs) @ [last (split_file cs) @ [c]])"
  by (cases cs; cases "split_lines (tl cs)") (auto simp: split_lines_snoc)

lemma back_pieces_split: "back_pieces (rev s) = rev (map rev (split_file s))"
proof (induction s rule: rev_induct)
  case (snoc c s)
  show ?case
  proof (cases "s = []")
    case False
    then obtain d cs where d: "rev s = d # cs" by (cases "rev s") auto
    have "split_file s \<noteq> []" using False by (cases s) auto
    then obtain ls l where ls: "split_file s = ls @ [l]" by (meson rev_exhaust)
    show ?thesis using snoc split_file_snoc[OF False, of c] d ls by simp
  qed simp
qed simp

section \<open>The loops\<close>

definition to_read :: "file_env \<Rightarrow> string" where
  "to_read e = rev (take (Suc (pos e)) (content e))"

definition in_file :: "string \<Rightarrow> file_env \<Rightarrow> bool" where
  "in_file s e \<longleftrightarrow> content e = s \<and> pos e < length s \<and> written e = []"

lemma to_read_step:
  "in_file s e \<Longrightarrow> pos e = 0 \<Longrightarrow> to_read e = [s ! pos e]"
  "in_file s e \<Longrightarrow> pos e \<noteq> 0 \<Longrightarrow> to_read e = s ! pos e # to_read (e\<lparr>pos := pos e - 1\<rparr>)"
  by (simp_all add: to_read_def in_file_def take_Suc_conv_app_nth)

lemma under_read_back:
  assumes "in_file s e" "length s < 2 ^ 31" "\<And>c i. appends (k c i)" "\<And>e w. Q Blocked e w"
    "\<And>w'. pos e = 0 \<Longrightarrow> under file_kernel (e\<lparr>pos := 1\<rparr>) (k (Some (s ! pos e)) (-1)) Q w'"
    "\<And>w'. pos e \<noteq> 0 \<Longrightarrow> under file_kernel (e\<lparr>pos := pos e - 1\<rparr>) (k (Some (s ! pos e)) (int (pos e - 1))) Q w'"
  shows "under file_kernel e (read_back fd k) Q w"
proof -
  have p: "pos e < length s" "content e = s" using assms(1) by (simp_all add: in_file_def)
  have d: "take (Suc 0) (drop (pos e) s) = [s ! pos e]" using p(1) by (simp add: take_Suc hd_drop_conv_nth)
  have m: "to_int32 (int (pos e - 1)) = int (pos e - 1)" "to_int32 (-1) = -1"
    using p(1) assms(2) by (simp_all add: to_int32_id int_limits)
  have n: "nat (int (pos e) - 1) = pos e - 1" by simp
  show ?thesis
    unfolding read_back_def or_die_def
  proof (intro under_call append_intros assms(3,4), goal_cases)
    case (1 r rs e1)
    then have r: "r = RData [s ! pos e]" "e1 = e\<lparr>pos := Suc (pos e)\<rparr>"
      using p d by (simp_all add: file_kernel_def split: if_splits)
    show ?case
      unfolding r rv_def
    proof (simp, intro under_call append_intros assms(3,4), goal_cases)
      case (1 l ls e2)
      then show ?case
        using assms(5,6) m p n
        by (cases "pos e = 0") (auto simp: file_kernel_def seek_to_def bytes_read_def bytes_def of_nat_diff rv_def
            split: if_splits)
    qed
  qed
qed

definition one_line :: "string \<Rightarrow> string \<Rightarrow> (bool \<times> char vec \<times> cstate) result \<Rightarrow> file_env \<Rightarrow> world \<Rightarrow> bool" where
  \<comment> \<open>the first piece of what was to be read is in the line, the rest is left\<close>
  "one_line s R r e w = (case r of
      Return (stopped, line, st) \<Rightarrow> no_alloc_failure st \<and> elems line = hd (back_pieces R) @ [NUL]
        \<and> (if stopped then tl (back_pieces R) = [] \<and> written e = []
           else in_file s e \<and> back_pieces (to_read e) = tl (back_pieces R))
    | Blocked \<Rightarrow> True | _ \<Rightarrow> False)"

definition reading :: "string \<Rightarrow> string \<Rightarrow> char vec \<times> cstate \<Rightarrow> file_env \<Rightarrow> bool" where
  "reading s R ls e = (case ls of (line, st) \<Rightarrow> in_file s e \<and> no_alloc_failure st
     \<and> elems line @ hd (back_pieces (to_read e)) = hd (back_pieces R) \<and> tl (back_pieces (to_read e)) = tl (back_pieces R))"

lemma ends_tail_char [fuel_intros]: "rounds (tail_char fd ls)"
  unfolding tail_char_def read_back_def or_die_def by (intro fuel_intros; simp)

lemma appends_tail_char [append_intros]: "appends (tail_char fd ls)"
  unfolding tail_char_def read_back_def by (intro append_intros)

lemma tail_char_reads:
  assumes "reading s R ls e" "length s < 2 ^ 31"
  shows "under file_kernel e (tail_char fd ls) (\<lambda>r e' w'. case r of
      Return (Inl ls') \<Rightarrow> reading s R ls' e' | Return (Inr a) \<Rightarrow> one_line s R (Return a) e' w'
    | Exited m \<Rightarrow> one_line s R (Exited m) e' w' | UExited m \<Rightarrow> one_line s R (UExited m) e' w'
    | Aborted \<Rightarrow> one_line s R Aborted e' w' | Blocked \<Rightarrow> one_line s R Blocked e' w'
    | Fault f \<Rightarrow> one_line s R (Fault f) e' w' | No_fuel \<Rightarrow> True) w"
proof -
  obtain line st where ls: "ls = (line, st)" by (cases ls)
  with assms(1) have i: "in_file s e" "no_alloc_failure st" "elems line @ hd (back_pieces (to_read e)) = hd (back_pieces R)"
    "tl (back_pieces (to_read e)) = tl (back_pieces R)"
    by (simp_all add: reading_def)
  have w: "written e = []" using i(1) by (simp add: in_file_def)
  obtain line1 st1 where p1: "vec_push (s ! pos e) line st = Inr (line1, st1)" "elems line1 = elems line @ [s ! pos e]"
    "no_alloc_failure st1" using vec_push_ok[OF i(2), of "s ! pos e" line] by (elim exE conjE)
  obtain line2 st2 where p2: "vec_push NUL line1 st1 = Inr (line2, st2)" "elems line2 = elems line1 @ [NUL]"
    "no_alloc_failure st2" using vec_push_ok[OF p1(3), of NUL line1] by (elim exE conjE)
  obtain line3 st3 where p3: "vec_push NUL line st = Inr (line3, st3)" "elems line3 = elems line @ [NUL]"
    "no_alloc_failure st3" using vec_push_ok[OF i(2), of NUL line] by (elim exE conjE)
  let ?e = "e\<lparr>pos := pos e - 1\<rparr>"
  have e: "in_file s ?e" using i(1) by (auto simp: in_file_def)
  have ne: "to_read ?e \<noteq> []" using e by (simp add: to_read_def in_file_def take_Suc_conv_app_nth)
  then obtain d ds where d: "to_read ?e = d # ds" by (cases "to_read ?e") auto
  show ?thesis
    unfolding ls tail_char_def prod.case
  proof (rule under_read_back[OF i(1) assms(2)], goal_cases)
    case (3 w')
    from to_read_step(1)[OF i(1) this] i(3,4) w p1 p2 show ?case
      by (simp add: checked_def) (rule under_leave, simp add: one_line_def)
  next
    case (4 w')
    note t = to_read_step(2)[OF i(1) this]
    show ?case
    proof (cases "s ! pos e = NL")
      case True
      with t i(3,4) e w p3 d show ?thesis
        by (simp add: checked_def) (rule under_leave, simp add: one_line_def)
    next
      case False
      with t i(3,4) e w p1 d show ?thesis
        by (simp add: checked_def) (rule under_again, simp add: reading_def)
    qed
  qed (auto intro!: append_intros simp: one_line_def)
qed

lemma tail_line_reads:
  assumes "in_file s e" "no_alloc_failure st" "length s < 2 ^ 31"
  shows "under file_kernel e (loop (tail_char fd) (vec_init, st)) (one_line s (to_read e)) w"
proof (rule under_loop[where I = "\<lambda>ls e' w'. reading s (to_read e) ls e'"])
  show "reading s (to_read e) (vec_init, st) e" using assms by (simp add: reading_def)
qed (intro append_intros fuel_intros tail_char_reads assms(3); assumption)+

definition lines_read :: "char vec vec \<Rightarrow> nat \<Rightarrow> string \<Rightarrow> (char vec vec \<times> cstate) result \<Rightarrow> file_env \<Rightarrow> bool" where
  "lines_read lines n R r e = (case r of
      Return (lines', st) \<Rightarrow> no_alloc_failure st \<and> written e = []
        \<and> map elems (elems lines') = map elems (elems lines) @ map (\<lambda>p. p @ [NUL]) (take n (back_pieces R))
    | Blocked \<Rightarrow> True | _ \<Rightarrow> False)"

lemma appends_tail_lines [append_intros]: "appends (tail_lines fd n lines st)"
  by (induction fd n lines st rule: tail_lines.induct) (auto intro!: append_intros simp: Let_def)

lemma tail_lines_reads:
  "in_file s e \<Longrightarrow> no_alloc_failure st \<Longrightarrow> length s < 2 ^ 31 \<Longrightarrow>
    under file_kernel e (tail_lines fd n lines st) (\<lambda>r e' w'. lines_read lines n (to_read e) r e') w"
proof (induction n arbitrary: lines st e w)
  case 0
  then show ?case by (auto intro!: under_ret simp: lines_read_def in_file_def)
next
  case (Suc n)
  obtain lines1 st1 where p: "vec_push vec_init lines st = Inr (lines1, st1)" "elems lines1 = elems lines @ [vec_init]"
    "no_alloc_failure st1" using vec_push_ok[OF Suc.prems(2), of vec_init lines] by (elim exE conjE)
  have ne: "back_pieces (to_read e) \<noteq> []"
    using Suc.prems(1) by (auto simp: to_read_def in_file_def)
  show ?case
    unfolding tail_lines.simps p(1) checked_def sum.case prod.case Let_def
  proof (rule under_seq, rule under_mono[OF tail_line_reads[OF Suc.prems(1) p(3) Suc.prems(3)]], goal_cases)
    case (1 r e1 w1)
    show ?case
    proof (cases r)
      case (Return x)
      obtain stopped line st2 where x: "x = (stopped, line, st2)" by (cases x)
      let ?lines2 = "lines1\<lparr>elems := butlast (elems lines1) @ [line]\<rparr>"
      have 2: "elems ?lines2 = elems lines @ [line]" using p(2) by simp
      have l: "elems line = hd (back_pieces (to_read e)) @ [NUL]" and st2: "no_alloc_failure st2"
        using 1 Return x by (simp_all add: one_line_def)
      show ?thesis
      proof (cases stopped)
        case True
        then have "tl (back_pieces (to_read e)) = []" "written e1 = []" using 1 Return x by (simp_all add: one_line_def)
        then have "back_pieces (to_read e) = [hd (back_pieces (to_read e))]" using ne by (cases "back_pieces (to_read e)") auto
        then have "take (Suc n) (back_pieces (to_read e)) = [hd (back_pieces (to_read e))]" by (metis take_Suc_Cons take_Nil)
        then show ?thesis using True Return x 2 l st2 \<open>written e1 = []\<close>
          by (auto intro!: under_ret simp: lines_read_def)
      next
        case False
        then have e1: "in_file s e1" "back_pieces (to_read e1) = tl (back_pieces (to_read e))"
          using 1 Return x by (simp_all add: one_line_def)
        have t: "take (Suc n) (back_pieces (to_read e)) = hd (back_pieces (to_read e)) # take n (back_pieces (to_read e1))"
          using ne e1(2) by (cases "back_pieces (to_read e)") auto
        have "under file_kernel e1 (tail_lines fd n ?lines2 st2) (\<lambda>r e' w'. lines_read lines (Suc n) (to_read e) r e') w1"
          by (rule under_mono[OF Suc.IH[OF e1(1) st2 Suc.prems(3)]])
            (auto simp: lines_read_def 2 l t simp del: take_Suc split: result.splits)
        with False Return x show ?thesis by simp
      qed
    qed (use 1 in \<open>auto simp: one_line_def lines_read_def\<close>)
  qed (auto intro!: append_intros split: prod.splits)
qed

definition shows_all :: "string list \<Rightarrow> file_env \<Rightarrow> 'a result \<Rightarrow> file_env \<Rightarrow> bool" where
  "shows_all ls e r e' \<longleftrightarrow> (case r of Return u \<Rightarrow> written e' = written e @ concat (map tail_line_shown ls)
     | Blocked \<Rightarrow> True | _ \<Rightarrow> False)"

lemma appends_show_lines [append_intros]: "appends (show_lines lines st)"
  by (induction lines st rule: show_lines.induct) (auto intro!: append_intros split: prod.splits)

lemma show_lines_shows:
  "map elems lines = map (\<lambda>p. rev p @ [NUL]) ls \<Longrightarrow> no_alloc_failure st \<Longrightarrow>
    under file_kernel e (show_lines lines st) (\<lambda>r e' w'. shows_all ls e r e') w"
proof (induction lines arbitrary: ls st e w)
  case Nil
  then show ?case by (auto intro!: under_ret simp: shows_all_def)
next
  case (Cons line lines)
  then obtain l ls' where ls: "ls = l # ls'" "elems line = rev l @ [NUL]" "map elems lines = map (\<lambda>p. rev p @ [NUL]) ls'"
    by (cases ls) auto
  obtain line' st' where rev: "vec_reverse line st = (line', st')" "elems line' = NUL # l" "no_alloc_failure st'"
    using vec_reverse_ok[OF Cons.prems(2), of line] ls(2) by auto
  note go_on = Cons.IH[OF ls(3) rev(3)]
  show ?case
    unfolding show_lines.simps rev(1) prod.case
  proof (intro under_call append_intros, goal_cases)
    case (2 r rs e1)
    then have r: "rv r = int (Suc (length l))" "e1 = e\<lparr>written := written e @ NUL # l\<rparr>"
      by (simp_all add: file_kernel_def rev(2) rv_def split: if_splits)
    show ?case
    proof (cases "l = []")
      case True
      with r show ?thesis
        by simp (rule under_mono[OF go_on], auto simp: shows_all_def ls(1) tail_line_shown_def split: result.splits)
    next
      case False
      with r(1) have "rv r \<noteq> 1" by simp
      then show ?thesis
      proof (simp, intro under_call append_intros, goal_cases)
        case (2 r2 rs2 e2)
        then have "e2 = e\<lparr>written := written e @ NUL # l @ [NL]\<rparr>"
          using r(2) by (simp add: file_kernel_def split: if_splits)
        then show ?case
          by simp (rule under_mono[OF go_on], use False in \<open>auto simp: shows_all_def ls(1) tail_line_shown_def split: result.splits\<close>)
      qed (simp add: shows_all_def)
    qed
  qed (simp add: shows_all_def)
qed

lemma last_of_rev: "last_of n xs = rev (take n (rev xs))"
  by (simp add: last_of_def rev_take)

section \<open>Properties\<close>

text \<open>C35: 
  C1: \<open>tail_command n file\<close> writes exactly the last \<open>n + 1\<close> pieces of the file between its newlines (with a newline
  at the end of the file that is an empty piece and the last \<open>n\<close> lines), in the order of the file, on every run whose replies
  fit the file and whatever the descriptor is; but every piece is preceded by the null byte that ended it in memory,
  and an empty line loses its newline.
\<close>

theorem tail_prints_last_lines:
  assumes "s \<noteq> []" "length s < 2 ^ 31" "n < 2147483647" "no_alloc_failure st"
    "tail_main [prog, show_int (int n), path] st w = (r, w')" "trace w' = trace w @ t"
    "run file_kernel \<lparr>content = s, pos = 0, written = []\<rparr> t = Some e'"
  shows "r = Blocked \<or> r = Return 0 \<and> written e' = concat (map tail_line_shown (last_of (n + 1) (split_file s)))"
proof -
  let ?ok = "\<lambda>r e. r = Blocked \<or> r = Return 0 \<and> written e = concat (map tail_line_shown (last_of (n + 1) (split_file s)))"
  have num: "strtol (show_int (int n)) 10 = (int n, [], False)"
    using strtol_show_int[of "int n" "[]"] assms(3) by (simp add: LONG_MIN_def LONG_MAX_def)
  have n: "nat (to_int32 (int n) + 1) = Suc n" using assms(3) by (simp add: to_int32_id int_limits)
  have "under file_kernel \<lparr>content = s, pos = 0, written = []\<rparr> (tail_main [prog, show_int (int n), path] st)
      (\<lambda>r e w. ?ok r e) w"
    unfolding tail_main_def or_die_def
  proof (simp add: num n del: tail_lines.simps, intro under_call append_intros, goal_cases)
    case (2 fd rs e1)
    then have e1: "e1 = \<lparr>content = s, pos = 0, written = []\<rparr>" "rv fd \<noteq> -1"
      by (simp_all add: file_kernel_def split: if_splits)
    show ?case
    proof (simp add: e1(2) del: tail_lines.simps, intro under_call append_intros, goal_cases)
      case (2 l ls e2)
      then have e2: "e2 = \<lparr>content = s, pos = length s - 1, written = []\<rparr>"
        using e1(1) assms(1) by (auto simp: file_kernel_def seek_to_def nat_diff_distrib split: if_splits)
      have i: "in_file s e2" using assms(1) by (simp add: e2 in_file_def)
      have R: "to_read e2 = rev s" using assms(1) by (simp add: e2 to_read_def)
      show ?case
      proof (rule under_seq, rule under_mono[OF tail_lines_reads[OF i assms(4,2)]], goal_cases)
        case (1 r e3 w3)
        show ?case
        proof (cases r)
          case (Return x)
          obtain lines st3 where x: "x = (lines, st3)" by (cases x)
          with 1 Return have 3: "no_alloc_failure st3" "written e3 = []"
            "map elems (elems lines) = map (\<lambda>p. p @ [NUL]) (take (Suc n) (back_pieces (rev s)))"
            by (simp_all add: lines_read_def R n)
          obtain lines' st4 where v: "vec_reverse lines st3 = (lines', st4)" "elems lines' = rev (elems lines)"
            "no_alloc_failure st4" using vec_reverse_ok[OF 3(1), of lines] by blast
          have els: "map elems (elems lines') = map (\<lambda>p. rev p @ [NUL]) (last_of (n + 1) (split_file s))"
            using 3(3) unfolding v(2) last_of_rev back_pieces_split rev_map[symmetric] by (simp add: rev_map take_map)
          show ?thesis
            unfolding Return x lift_under_simps prod.case v(1)
          proof (rule under_seq, rule under_mono[OF show_lines_shows[OF els v(3)]], goal_cases)
            case (1 r e4 w4)
            then show ?case
              using 3(2)
              by (cases r)
                (auto simp: shows_all_def file_kernel_def intro!: under_call under_ret append_intros split: if_splits)
          qed (intro append_intros)
        qed (use 1 in \<open>simp_all add: lines_read_def\<close>)
      qed (auto intro!: append_intros split: prod.splits)
    qed (auto split: prod.splits)
  qed (auto split: prod.splits)
  from underD[OF this assms(5)] assms(6,7) show ?thesis by (metis same_append_eq)
qed

definition demo_file :: file_env where
  "demo_file = \<lparr>content = [CHR ''a'', NL, CHR ''b'', NL], pos = 0, written = []\<rparr>"

definition demo_run :: "int result \<times> world" where
  "demo_run = tail_main [''tail'', show_int (int 1), ''file''] \<lparr>allocs = [], cerrno = 0\<rparr>
     (booted [RVal 3, RVal 3, RData [NL], RVal 2, RData ''b'', RVal 1, RData [NL], RVal 0, RVal 2, RVal 1, RVal 1, RVal 0])"

lemma demo_run_conforms: "run file_kernel demo_file (trace (snd demo_run)) \<noteq> None" "fst demo_run \<noteq> Blocked"
  by code_simp+

lemma tail_prints_last_lines_witness:
  "written (the (run file_kernel demo_file (trace (snd demo_run)))) = [NUL, CHR ''b'', NL, NUL]"
proof -
  from demo_run_conforms(1) obtain e' where e': "run file_kernel demo_file (trace (snd demo_run)) = Some e'" by blast
  have "fst demo_run = Blocked \<or> fst demo_run = Return 0
    \<and> written e' = concat (map tail_line_shown (last_of (1 + 1) (split_file [CHR ''a'', NL, CHR ''b'', NL])))"
    by (rule tail_prints_last_lines[where st = "\<lparr>allocs = [], cerrno = 0\<rparr>" and w' = "snd demo_run" and w = "booted [RVal 3, RVal 3, RData [NL], RVal 2, RData ''b'', RVal 1, RData [NL], RVal 0, RVal 2, RVal 1, RVal 1, RVal 0]" and t = "trace (snd demo_run)"])
      (use e' in \<open>simp_all add: demo_run_def demo_file_def no_alloc_failure_def del: of_nat_1\<close>)
  with demo_run_conforms(2) e' show ?thesis
    by (simp add: tail_line_shown_def last_of_def NL_def NUL_def)
qed

end
