(* ===== verification/Script.thy ===== *)
theory Script
  imports Conform Daemon
begin

text \<open>
  Recording a terminal session: \<open>64_Pseudoterminals/better_script.c\<close> and the two-process \<open>fork_script.c\<close> run a shell on
  a pseudoterminal and copy what passes, \<open>unbuffer.c\<close> a program. \<open>better_script\<close> also writes a file of timed pieces.
  \<open>select\<close> and \<open>epoll_wait\<close> reply with the descriptors that are ready; a signal handler's flag is read like a reply.
\<close>

section \<open>Shared parts\<close>

definition SCRIPT_BUF :: nat where "SCRIPT_BUF = 256"

definition write_all :: "int \<Rightarrow> string \<Rightarrow> string \<Rightarrow> 'a prog \<Rightarrow> 'a prog" where
  \<comment> \<open>\<open>if (write(fd, s, n) != n) fatal(msg);\<close>\<close>
  "write_all fd s msg k = call (Fd (Write fd s)) (\<lambda>n. if rv n \<noteq> int (length s) then fatal msg else k)"

definition ints :: "reply \<Rightarrow> int list" where
  "ints r = (case r of RInts ns \<Rightarrow> ns | _ \<Rightarrow> [])"

definition ioctl_or_die :: "int \<Rightarrow> string \<Rightarrow> int list \<Rightarrow> string \<Rightarrow> (reply \<Rightarrow> 'a prog) \<Rightarrow> 'a prog" where
  "ioctl_or_die fd req args msg k = call (Fd (Ioctl fd req args)) (\<lambda>r. if rv r < 0 then errExit msg else k r)"

definition script_shell :: "'a prog" where
  \<comment> \<open>the child: a shell on the slave\<close>
  "script_shell = get (\<lambda>w. getenv w ''SHELL'') (\<lambda>s.
     let shell = (case s of None \<Rightarrow> ''/bin/sh'' | Some v \<Rightarrow> if v = [] then ''/bin/sh'' else v) in
     call (Proc (Execve shell [shell])) (\<lambda>_. errExit ''execlp''))"

definition with_terminal :: "(reply \<Rightarrow> reply \<Rightarrow> 'a prog) \<Rightarrow> 'a prog" where
  \<comment> \<open>the attributes of the terminal and its size\<close>
  "with_terminal k = or_die (Fd (Tcgetattr 0)) ''tcgetattr'' (\<lambda>a. ioctl_or_die 0 ''TIOCGWINSZ'' [] ''ioctl-TIOCGWINSZ'' (k a))"

definition on_pty :: "nat option \<Rightarrow> reply \<Rightarrow> reply \<Rightarrow> 'a prog \<Rightarrow> (int \<Rightarrow> 'a prog) \<Rightarrow> 'a prog" where
  \<comment> \<open>\<open>ptyFork\<close>, the program of the child, the program of the parent\<close>
  "on_pty sn a z child parent = seq (ptyFork sn (Some (ints a)) (Some (ints z))) (\<lambda>(childPid, masterFd, slname).
     if childPid = -1 then errExit ''ptyFork''
     else if childPid = 0 then child
     else case masterFd of None \<Rightarrow> stop (Fault Uninitialised) | Some m \<Rightarrow> parent m)"

definition typescript_of :: "string list \<Rightarrow> string" where
  "typescript_of argv = (if 1 < length argv then argv ! 1 else ''typescript'')"

section \<open>better\_script\<close>

definition write_time :: "int \<Rightarrow> 'a prog \<Rightarrow> 'a prog" where
  \<comment> \<open>\<open>time\<close>, \<open>ctime\<close> and a write of 25 bytes\<close>
  "write_time scriptFd k = lib ''time'' [] (\<lambda>t. lib ''ctime'' [rv t] (\<lambda>s.
     if is_null_reply s then stop (Fault Null_deref)
     else or_die (Fd (Write scriptFd (take 25 (bytes s)))) ''write'' (\<lambda>_. k)))"

definition ttyReset :: "int \<Rightarrow> int list \<Rightarrow> unit prog" where
  "ttyReset scriptFd ttyOrig = write_time scriptFd (or_die (Fd (Tcsetattr 0 ''TCSANOW'' ttyOrig)) ''tcsetattr'' (\<lambda>_. ret ()))"

definition c_div :: "int \<Rightarrow> int \<Rightarrow> int" where
  \<comment> \<open>division of C, towards zero, by a positive number\<close>
  "c_div a b = sgn a * (\<bar>a\<bar> div b)"

definition elapsed_ms :: "int list \<Rightarrow> int list \<Rightarrow> int" where
  "elapsed_ms start now = to_int32 ((now ! 0 - start ! 0) * 1000 + c_div (now ! 1 - start ! 1) 1000000)"

definition escape :: "char \<Rightarrow> string" where
  "escape c = (if c = NL then [CHR 0x5C, CHR ''n''] else [c])"

definition record_output :: "int \<Rightarrow> int \<Rightarrow> int list \<Rightarrow> string \<Rightarrow> (unit + unit) prog" where
  \<comment> \<open>what is done with the bytes read from the master\<close>
  "record_output scriptFd tscriptFd start buf =
     write_all 1 buf ''partial/failed write (STDOUT_FILENO)''
     (or_die (Lib ''clock_gettime'' []) ''clock_gettime'' (\<lambda>now.
        if length (ints now) < 2 then stop (Fault Uninitialised)
        else write_all tscriptFd (show_int (elapsed_ms start (ints now)) @ '' '') ''partial/failed write (tscriptFd)''
        (seq (each (\<lambda>c. write_all tscriptFd (escape c) ''partial/failed write (tscriptFd)'' (ret ())) buf) (\<lambda>_.
         write_all tscriptFd [NL] ''partial/failed write (tscriptFd)''
         (write_all scriptFd buf ''partial/failed write (scriptFd)'' (again ()))))))"

definition script_round :: "int \<Rightarrow> int \<Rightarrow> int \<Rightarrow> int list \<Rightarrow> unit \<Rightarrow> (unit + unit) prog" where
  "script_round masterFd scriptFd tscriptFd start u =
     lib ''sigwinch_caught'' [] (\<lambda>caught.
     seq (if rv caught \<noteq> 0 then ioctl_or_die 0 ''TIOCGWINSZ'' [] ''ioctl-TIOCGWINSZ'' (\<lambda>ws.
            ioctl_or_die masterFd ''TIOCSWINSZ'' (ints ws) ''ioctl-TIOCSWINSZ'' (\<lambda>_. ret ())) else ret ()) (\<lambda>_.
     lib ''select'' [masterFd + 1] (\<lambda>s.
       if rv s = -1 then get errno (\<lambda>e. if e = EINTR then again () else errExit ''select'')
       else
         seq (if 0 \<in> set (ints s) then call (Fd (Read 0 SCRIPT_BUF)) (\<lambda>r.
                if rv r \<le> 0 then exit_prog EXIT_SUCCESS
                else write_all masterFd (bytes_read SCRIPT_BUF r) ''partial/failed write (masterFd)'' (ret ())) else ret ()) (\<lambda>_.
         if masterFd \<in> set (ints s) then call (Fd (Read masterFd SCRIPT_BUF)) (\<lambda>r.
                if rv r \<le> 0 then exit_prog EXIT_SUCCESS
                else record_output scriptFd tscriptFd start (bytes_read SCRIPT_BUF r))
         else again ()))))"

definition script_parent :: "string list \<Rightarrow> int list \<Rightarrow> int \<Rightarrow> unit prog" where
  \<comment> \<open>\<open>ttyOrig\<close> is set again by \<open>ttySetRaw\<close>, unless it fails\<close>
  "script_parent argv attrs masterFd =
     or_die (Path (Open (typescript_of argv) ''O_WRONLY|O_CREAT|O_TRUNC'' 438)) ''open typescript'' (\<lambda>sf.
     or_die (Path (Open ''typescript.timed'' ''O_WRONLY|O_CREAT|O_TRUNC'' 384)) ''open'' (\<lambda>tf.
     seq (ttySetRaw 0) (\<lambda>(v, prev).
       let ttyOrig = (case prev of None \<Rightarrow> attrs | Some t \<Rightarrow> ints_of t) in
       call (Proc (Atexit ''ttyReset'')) (\<lambda>a. if rv a \<noteq> 0 then errExit ''atexit''
       else at_exit (ttyReset (rv sf) ttyOrig)
         (write_time (rv sf) (or_die (Lib ''clock_gettime'' []) ''clock_gettime'' (\<lambda>start.
            if length (ints start) < 2 then stop (Fault Uninitialised)
            else loop (script_round masterFd (rv sf) (rv tf) (ints start)) ())))))))"

definition better_script :: "string list \<Rightarrow> unit prog" where
  "better_script argv =
     or_die (Proc (Sigaction ''SIGWINCH'' ''sigwinchHandler'')) ''sigaction'' (\<lambda>_.
     with_terminal (\<lambda>a z. on_pty (Some 1000) a z script_shell (script_parent argv (ints a))))"

section \<open>fork\_script\<close>

definition stdin_round :: "int \<Rightarrow> unit \<Rightarrow> (unit + unit) prog" where
  "stdin_round masterFd u = call (Fd (Read 0 SCRIPT_BUF)) (\<lambda>r.
     if rv r \<le> 0 then exit_prog EXIT_SUCCESS
     else write_all masterFd (bytes_read SCRIPT_BUF r) ''partial/failed write (masterFd)'' (again ()))"

definition master_round :: "int \<Rightarrow> int \<Rightarrow> int \<Rightarrow> unit \<Rightarrow> (unit + unit) prog" where
  "master_round childPid masterFd scriptFd u = call (Fd (Read masterFd SCRIPT_BUF)) (\<lambda>r.
     if rv r \<le> 0 then or_die (Lib ''kill'' [childPid, 9]) ''childPid'' (\<lambda>_.
       or_die (Proc (Waitpid childPid [])) ''waitpid'' (\<lambda>_. exit_prog EXIT_SUCCESS))
     else write_all 1 (bytes_read SCRIPT_BUF r) ''partial/failed write (STDOUT_FILENO)''
       (write_all scriptFd (bytes_read SCRIPT_BUF r) ''partial/failed write (scriptFd)'' (again ())))"

definition fork_parent :: "string list \<Rightarrow> int list \<Rightarrow> int \<Rightarrow> unit prog" where
  \<comment> \<open>one process for each direction\<close>
  "fork_parent argv attrs masterFd =
     or_die (Path (Open (typescript_of argv) ''O_WRONLY|O_CREAT|O_TRUNC'' 438)) ''open typescript'' (\<lambda>sf.
     seq (ttySetRaw 0) (\<lambda>(v, prev).
       let ttyOrig = (case prev of None \<Rightarrow> attrs | Some t \<Rightarrow> ints_of t) in
       or_die (Proc Fork) ''fork'' (\<lambda>childPid.
         if rv childPid = 0 then loop (stdin_round masterFd) ()
         else call (Proc (Atexit ''ttyReset'')) (\<lambda>a. if rv a \<noteq> 0 then errExit ''atexit''
           else at_exit (or_die (Fd (Tcsetattr 0 ''TCSANOW'' ttyOrig)) ''tcsetattr'' (\<lambda>_. ret ()))
             (loop (master_round (rv childPid) masterFd (rv sf)) ())))))"

definition fork_script :: "string list \<Rightarrow> unit prog" where
  "fork_script argv = with_terminal (\<lambda>a z. on_pty (Some 1000) a z script_shell (fork_parent argv (ints a)))"

section \<open>unbuffer\<close>

definition unbuffer_event :: "int \<Rightarrow> int \<Rightarrow> unit prog" where
  "unbuffer_event master_fd fd =
     (if fd = 0 then or_die (Fd (Read 0 SCRIPT_BUF)) (''Failed/Partial read'' @ [NL]) (\<lambda>r.
        call (Fd (Write master_fd (bytes_read SCRIPT_BUF r))) (\<lambda>n.
          if rv n \<noteq> int (length (bytes_read SCRIPT_BUF r)) then errExit ''Coudn't write to master fd'' else ret ()))
      else if fd = master_fd then call (Fd (Read master_fd SCRIPT_BUF)) (\<lambda>r.
        if rv r = -1 then exit_prog EXIT_SUCCESS
        else call (Fd (Write 1 (bytes_read SCRIPT_BUF r))) (\<lambda>n.
          if rv n \<noteq> int (length (bytes_read SCRIPT_BUF r)) then errExit (''Failed/Partial write'' @ [NL]) else ret ()))
      else ret ())"

definition unbuffer_round :: "int \<Rightarrow> unit \<Rightarrow> (unit + unit) prog" where
  \<comment> \<open>a failed \<open>epoll_wait\<close> is one without events\<close>
  "unbuffer_round master_fd u = lib ''epoll_wait'' [2, -1] (\<lambda>ready.
     seq (each (unbuffer_event master_fd) (take 2 (ints ready))) (\<lambda>_. again ()))"

definition unbuffer :: "string list \<Rightarrow> unit prog" where
  "unbuffer argv =
     (if length argv \<noteq> 2 \<or> argv ! 1 = ''--help'' then usageErr (hd argv @ '' longrunner arg...'')
      else or_die (Fd (Tcgetattr 0)) ''tcgetattr'' (\<lambda>a.
        call (Proc (Atexit ''reset_tty'')) (\<lambda>h. if rv h = -1 then errExit ''atexit''
        else at_exit (call (Fd (Tcsetattr 0 ''TCSAFLUSH'' (ints a))) (\<lambda>r. if rv r = -1 then errMsg ''tcsetattr'' (ret ()) else ret ()))
          (seq (ttySetRaw 0) (\<lambda>_. ioctl_or_die 0 ''TIOCGWINSZ'' [] ''ioctl'' (\<lambda>z.
             on_pty None a z (call (Proc (Execve (argv ! 1) [argv ! 1])) (\<lambda>_. errExit ''execlp'')) (\<lambda>master_fd.
               or_die (Lib ''epoll_create1'' [0]) ''epoll_create1'' (\<lambda>ep.
               or_die (Lib ''epoll_ctl'' [rv ep, 0]) ''epoll_ctl'' (\<lambda>_.
               or_die (Lib ''epoll_ctl'' [rv ep, master_fd]) ''epoll_ctl'' (\<lambda>_.
               loop (unbuffer_round master_fd) ()))))))))))"

end
