(* ===== verification/Replay.thy ===== *)
theory Replay
  imports Script GetNum
begin

text \<open>
  \<open>64_Pseudoterminals/replay_script.c\<close> shows again what \<open>better_script\<close> has recorded: each line of the timed file is a
  time in milliseconds and a piece of output, in which a newline is written as a backslash and an \<open>n\<close>. The theorem
  puts the two programs together.
\<close>

section \<open>The program\<close>

definition BACKSLASH :: char where "BACKSLASH = CHR 0x5C"

definition read_ms :: "int \<Rightarrow> string \<Rightarrow> (string + string option) prog" where
  \<comment> \<open>\<open>None\<close> at the end of the file; \<open>ms\<close> has 100 bytes, all null at first, and \<open>strlen\<close> finds its end\<close>
  "read_ms fd ms = call (Fd (Read fd 1)) (\<lambda>r.
     if rv r = 0 then leave None
     else if rv r = -1 then errExit ''read''
     else case bytes_read 1 r of [] \<Rightarrow> stop (Fault Uninitialised)
       | c # _ \<Rightarrow>
         if c = CHR '' '' then leave (Some ms)
         else if 100 \<le> length ms then stop (Fault Out_of_bounds)
         else again (if c = NUL then ms else ms @ [c]))"

definition read_text :: "int \<Rightarrow> char vec \<times> cstate \<Rightarrow> (char vec \<times> cstate + char vec \<times> cstate \<times> bool) prog" where
  \<comment> \<open>the array so far; it leaves with \<open>eof\<close>. \<open>da_get(&string, string.size - 1)\<close> of an empty array is in front of it\<close>
  "read_text fd = (\<lambda>(text, st). call (Fd (Read fd 1)) (\<lambda>r.
     if rv r = 0 then leave (text, st, True)
     else if rv r = -1 then errExit ''read''
     else case bytes_read 1 r of [] \<Rightarrow> stop (Fault Uninitialised)
       | c # _ \<Rightarrow>
         let push = (case vec_push c text st of Inl f \<Rightarrow> errExit ''da_push'' | Inr (text', st') \<Rightarrow> again (text', st')) in
         if c = NL then leave (text, st, False)
         else if c = CHR ''n'' then
           (if elems text = [] then stop (Fault Out_of_bounds)
            else if last (elems text) = BACKSLASH then again (text\<lparr>elems := butlast (elems text) @ [NL]\<rparr>, st)
            else push)
         else push))"

definition replay_round :: "int \<Rightarrow> int \<times> cstate \<Rightarrow> (int \<times> cstate + unit) prog" where
  "replay_round fd = (\<lambda>(last_ms, st). seq (loop (read_ms fd) []) (\<lambda>ms. case ms of None \<Rightarrow> leave ()
     | Some m \<Rightarrow>
       if 100 \<le> length m then stop (Fault Out_of_bounds)
       else seq (getInt (Some m) GN_NONNEG (Some ''nsec'')) (\<lambda>current_ms.
         let miliseconds = to_int32 (current_ms - last_ms) in
         lib ''clock_nanosleep'' [c_div miliseconds 1000, (sgn miliseconds * (\<bar>miliseconds\<bar> mod 1000)) * 1000000] (\<lambda>s.
           if rv s \<noteq> 0 then errExit ''clock_nanosleep''
           else seq (loop (read_text fd) (vec_init, st)) (\<lambda>(text, st', eof).
             printf (elems text) (fflush_stdout (if eof then leave () else again (current_ms, st'))))))))"

definition replay_script :: "string list \<Rightarrow> cstate \<Rightarrow> int prog" where
  "replay_script argv st =
     (if length argv \<noteq> 2 \<or> argv ! 1 = ''--help'' then usageErr (hd argv @ '' <file>.timed'')
      else or_die (Path (Open (argv ! 1) ''O_RDONLY'' 384)) ''fd'' (\<lambda>f.
        seq (loop (replay_round (rv f)) (0, st)) (\<lambda>_. ret 0)))"

section \<open>What is recorded\<close>

definition record_line :: "int \<times> string \<Rightarrow> string" where
  "record_line p = (case p of (ms, buf) \<Rightarrow> show_int ms @ '' '' @ concat (map escape buf) @ [NL])"

record session =
  pieces_read :: "string list"   \<comment> \<open>from the master\<close>
  clocks :: "int list list"      \<comment> \<open>what \<open>clock_gettime\<close> told\<close>
  timed :: string                \<comment> \<open>the timed file\<close>
  script_file :: string

text \<open>The kernel keeps what is written in full; a write that is cut short ends the program.\<close>

definition session_kernel :: "int \<Rightarrow> int \<Rightarrow> int \<Rightarrow> session \<Rightarrow> syscall \<Rightarrow> reply \<Rightarrow> session option" where
  "session_kernel m sf tf e c r = (case c of
      Fd (Read fd n) \<Rightarrow> Some (if fd = m \<and> 0 < rv r then e\<lparr>pieces_read := pieces_read e @ [bytes_read n r]\<rparr> else e)
    | Fd (Write fd s) \<Rightarrow> Some (if fd = tf \<and> rv r = int (length s) then e\<lparr>timed := timed e @ s\<rparr>
        else if fd = sf \<and> rv r = int (length s) then e\<lparr>script_file := script_file e @ s\<rparr> else e)
    | Lib f as \<Rightarrow> Some (if f = ''clock_gettime'' then e\<lparr>clocks := clocks e @ [ints r]\<rparr> else e)
    | _ \<Rightarrow> Some e)"

definition recorded :: "int list \<Rightarrow> string \<Rightarrow> session \<Rightarrow> bool" where
  "recorded start head e \<longleftrightarrow> length (clocks e) = length (pieces_read e)
     \<and> timed e = concat (map record_line (zip (map (elapsed_ms start) (clocks e)) (pieces_read e)))
     \<and> script_file e = head @ concat (pieces_read e)"

section \<open>Recording\<close>

definition goes :: "('a \<Rightarrow> session \<Rightarrow> bool) \<Rightarrow> session set \<Rightarrow> 'a result \<Rightarrow> session \<Rightarrow> bool" where
  \<comment> \<open>\<open>P\<close> of what is returned; a successful exit only in the states \<open>S\<close>\<close>
  "goes P S r e = (case r of Return x \<Rightarrow> P x e | Exited n \<Rightarrow> n = EXIT_FAILURE \<or> e \<in> S | _ \<Rightarrow> True)"

lemma goes_simps [simp]: "goes P S (Return x) e = P x e" "goes P S Blocked e" "goes P S (Fault f) e" "goes P S (end_of b w) e"
  "goes P S (Exited n) e = (n = EXIT_FAILURE \<or> e \<in> S)" "goes P S (UExited n) e" "goes P S Aborted e" "goes P S No_fuel e"
  by (simp_all add: goes_def end_of_def)

lemma appends_write_all [append_intros]: "appends k \<Longrightarrow> appends (write_all fd s msg k)"
  unfolding write_all_def by (intro append_intros)

lemma appends_ioctl [append_intros]: "(\<And>r. appends (k r)) \<Longrightarrow> appends (ioctl_or_die fd q as msg k)"
  unfolding ioctl_or_die_def by (intro append_intros)

lemma rv_RVal: "rv (RVal n) = n"
  by (simp add: rv_def)

lemma under_write_all:
  assumes "appends k" "\<And>e1 w1. session_kernel m sf tf e (Fd (Write fd s)) (RVal (int (length s))) = Some e1 \<Longrightarrow>
      under (session_kernel m sf tf) e1 k (\<lambda>r e w. goes P S r e) w1"
  shows "under (session_kernel m sf tf) e (write_all fd s msg k) (\<lambda>r e w. goes P S r e) w"
  unfolding write_all_def
proof (rule under_call, goal_cases)
  case (3 r rs e1)
  show ?case
  proof (cases "rv r = int (length s)")
    case True
    with 3(2) have "session_kernel m sf tf e (Fd (Write fd s)) (RVal (int (length s))) = Some e1"
      using True by (auto simp: session_kernel_def rv_RVal split: if_splits)
    then show ?thesis using True by (auto intro: assms(2))
  next
    case False
    then show ?thesis by (auto intro!: under_fatal)
  qed
qed (auto intro!: append_intros assms(1))

lemma session_kernel_simps:
  "session_kernel m sf tf e (Fd (Read fd n)) r = Some (if fd = m \<and> 0 < rv r then e\<lparr>pieces_read := pieces_read e @ [bytes_read n r]\<rparr> else e)"
  "session_kernel m sf tf e (Fd (Write fd s)) r = Some (if fd = tf \<and> rv r = int (length s) then e\<lparr>timed := timed e @ s\<rparr>
        else if fd = sf \<and> rv r = int (length s) then e\<lparr>script_file := script_file e @ s\<rparr> else e)"
  "session_kernel m sf tf e (Lib f as) r = Some (if f = ''clock_gettime'' then e\<lparr>clocks := clocks e @ [ints r]\<rparr> else e)"
  "session_kernel m sf tf e (Fd (Ioctl fd q args)) r = Some e"
  by (simp_all add: session_kernel_def)

lemma write_escaped:
  "under (session_kernel m sf tf) e (each (\<lambda>c. write_all tf (escape c) msg (ret ())) buf)
     (\<lambda>r e' w. goes (\<lambda>_ e'. e' = e\<lparr>timed := timed e @ concat (map escape buf)\<rparr>) {} r e') w"
proof (induction buf arbitrary: e w)
  case Nil
  then show ?case by (auto intro!: under_ret)
next
  case (Cons c buf e w)
  have first: "under (session_kernel m sf tf) e (write_all tf (escape c) msg (ret ()))
      (\<lambda>r e' w. goes (\<lambda>_ e'. e' = e\<lparr>timed := timed e @ escape c\<rparr>) {} r e') w"
    by (rule under_write_all) (auto simp: session_kernel_simps rv_def intro!: append_intros under_ret)
  show ?case
    unfolding each.simps
  proof (rule under_seq, rule under_mono[OF first], goal_cases)
    case (1 r e' w')
    then show ?case
      by (cases r) (auto intro!: under_mono[OF Cons.IH] simp: goes_def split: result.splits)
  qed (auto intro!: append_intros)
qed

lemma recorded_more:
  assumes "recorded start head e"
  shows "recorded start head (e\<lparr>pieces_read := pieces_read e @ [buf], clocks := clocks e @ [now],
    timed := timed e @ record_line (elapsed_ms start now, buf), script_file := script_file e @ buf\<rparr>)"
  using assms by (auto simp: recorded_def)

definition apart :: "int \<Rightarrow> int \<Rightarrow> int \<Rightarrow> bool" where
  "apart m sf tf \<longleftrightarrow> distinct [0, 1, m, sf, tf]"

lemma record_output_records:
  assumes "apart m sf tf" "recorded start head e"
  shows "under (session_kernel m sf tf) (e\<lparr>pieces_read := pieces_read e @ [buf]\<rparr>) (record_output sf tf start buf)
    (\<lambda>r e' w. goes (\<lambda>x e'. x = Inl () \<and> recorded start head e') {} r e') w"
proof -
  have fin: "under (session_kernel m sf tf) e1 (write_all sf buf msg (again ())) (\<lambda>r e' w. goes (\<lambda>x e'. x = Inl () \<and> recorded start head e') {} r e') w"
    if "e1 = e\<lparr>pieces_read := pieces_read e @ [buf], clocks := clocks e @ [tm], timed := timed e @ record_line (elapsed_ms start tm, buf)\<rparr>"
    for e1 tm msg and w :: world
    by (rule under_write_all)
      (use assms(1) recorded_more[OF assms(2), of buf tm] in \<open>auto simp: session_kernel_simps apart_def rv_RVal that intro!: append_intros under_again\<close>)
  have nl: "under (session_kernel m sf tf) e1 (write_all tf [NL] msg (write_all sf buf msg2 (again ())))
      (\<lambda>r e' w. goes (\<lambda>x e'. x = Inl () \<and> recorded start head e') {} r e') w"
    if "e1 = e\<lparr>pieces_read := pieces_read e @ [buf], clocks := clocks e @ [tm],
      timed := timed e @ show_int (elapsed_ms start tm) @ '' '' @ concat (map escape buf)\<rparr>" for e1 tm msg msg2 and w :: world
    by (rule under_write_all)
      (auto simp: session_kernel_simps rv_RVal that record_line_def intro!: append_intros fin[of _ tm])
  have body: "under (session_kernel m sf tf) e1 (seq (each (\<lambda>c. write_all tf (escape c) msg (ret ())) buf)
        (\<lambda>_. write_all tf [NL] msg (write_all sf buf msg2 (again ()))))
      (\<lambda>r e' w. goes (\<lambda>x e'. x = Inl () \<and> recorded start head e') {} r e') w"
    if "e1 = e\<lparr>pieces_read := pieces_read e @ [buf], clocks := clocks e @ [tm], timed := timed e @ show_int (elapsed_ms start tm) @ '' ''\<rparr>"
    for e1 tm msg msg2 and w :: world
  proof (rule under_seq, rule under_mono[OF write_escaped], goal_cases)
    case (1 r e' w')
    then show ?case by (cases r) (auto simp: that intro!: nl[of _ tm])
  qed (auto intro!: append_intros)
  have stamp: "under (session_kernel m sf tf) e1 (write_all tf (show_int (elapsed_ms start tm) @ '' '') msg
        (seq (each (\<lambda>c. write_all tf (escape c) msg (ret ())) buf) (\<lambda>_. write_all tf [NL] msg (write_all sf buf msg2 (again ())))))
      (\<lambda>r e' w. goes (\<lambda>x e'. x = Inl () \<and> recorded start head e') {} r e') w"
    if "e1 = e\<lparr>pieces_read := pieces_read e @ [buf], clocks := clocks e @ [tm]\<rparr>" for e1 tm msg msg2 and w :: world
    by (rule under_write_all) (auto simp: session_kernel_simps rv_RVal that intro!: append_intros body[of _ tm])
  show ?thesis
    unfolding record_output_def or_die_def
  proof (rule under_write_all, goal_cases)
    case (2 e1 w1)
    then have e1: "e1 = e\<lparr>pieces_read := pieces_read e @ [buf]\<rparr>"
      using assms(1) by (auto simp: session_kernel_simps apart_def)
    show ?case
      by (rule under_call)
        (auto simp: session_kernel_simps e1 intro!: append_intros under_errExit under_stop stamp)
  qed (auto intro!: append_intros)
qed

lemma stdin_keeps:
  assumes "apart m sf tf" "recorded start head e"
  shows "under (session_kernel m sf tf) e (write_all m buf msg (ret ()))
    (\<lambda>r e' w. goes (\<lambda>x e'. recorded start head e') {e'. recorded start head e'} r e') w"
  by (rule under_write_all) (use assms in \<open>auto simp: session_kernel_simps apart_def intro!: append_intros under_ret\<close>)

lemma appends_script_round [append_intros]: "appends (script_round m sf tf start u)" "appends (record_output sf tf start buf)"
proof -
  show o: "appends (record_output sf tf start buf)" for buf
    unfolding record_output_def by (intro append_intros)
  show "appends (script_round m sf tf start u)"
    unfolding script_round_def by (intro append_intros o)
qed

definition script_master :: "int \<Rightarrow> int \<Rightarrow> int \<Rightarrow> int list \<Rightarrow> int list \<Rightarrow> (unit + unit) prog" where
  "script_master m sf tf start fds = (if m \<in> set fds then call (Fd (Read m SCRIPT_BUF)) (\<lambda>r.
     if rv r \<le> 0 then exit_prog EXIT_SUCCESS else record_output sf tf start (bytes_read SCRIPT_BUF r)) else again ())"

definition script_ready :: "int \<Rightarrow> int \<Rightarrow> int \<Rightarrow> int list \<Rightarrow> int list \<Rightarrow> (unit + unit) prog" where
  "script_ready m sf tf start fds = seq (if 0 \<in> set fds then call (Fd (Read 0 SCRIPT_BUF)) (\<lambda>r.
     if rv r \<le> 0 then exit_prog EXIT_SUCCESS
     else write_all m (bytes_read SCRIPT_BUF r) ''partial/failed write (masterFd)'' (ret ())) else ret ())
   (\<lambda>_. script_master m sf tf start fds)"

lemma master_records:
  assumes "apart m sf tf" "recorded start head e"
  shows "under (session_kernel m sf tf) e (script_master m sf tf start fds)
    (\<lambda>r e' w. goes (\<lambda>x e'. x = Inl () \<and> recorded start head e') {e'. recorded start head e'} r e') w"
proof -
  have out: "under (session_kernel m sf tf) (e\<lparr>pieces_read := pieces_read e @ [buf]\<rparr>) (record_output sf tf start buf)
    (\<lambda>r e' w. goes (\<lambda>x e'. x = Inl () \<and> recorded start head e') {e'. recorded start head e'} r e') w1" for buf and w1 :: world
    by (rule under_mono[OF record_output_records[OF assms]]) (auto simp: goes_def split: result.splits)
  show ?thesis
    unfolding script_master_def
    by (auto simp: session_kernel_simps assms(2) intro!: under_call append_intros under_exit under_again out split: if_splits)
qed

lemma appends_script_master [append_intros]: "appends (script_master m sf tf start fds)"
  unfolding script_master_def by (intro append_intros)

lemma appends_script_ready [append_intros]: "appends (script_ready m sf tf start fds)"
  unfolding script_ready_def by (intro append_intros)

lemma ready_records:
  assumes "apart m sf tf" "recorded start head e"
  shows "under (session_kernel m sf tf) e (script_ready m sf tf start fds)
    (\<lambda>r e' w. goes (\<lambda>x e'. x = Inl () \<and> recorded start head e') {e'. recorded start head e'} r e') w"
proof -
  have read: "under (session_kernel m sf tf) e (if 0 \<in> set fds then call (Fd (Read 0 SCRIPT_BUF)) (\<lambda>r.
     if rv r \<le> 0 then exit_prog EXIT_SUCCESS
     else write_all m (bytes_read SCRIPT_BUF r) ''partial/failed write (masterFd)'' (ret ())) else ret ())
     (\<lambda>r e' w. goes (\<lambda>x e'. recorded start head e') {e'. recorded start head e'} r e') w"
    using assms by (auto simp: session_kernel_simps apart_def intro!: under_call append_intros under_exit under_ret stdin_keeps split: if_splits)
  show ?thesis
    unfolding script_ready_def
  proof (rule under_seq, rule under_mono[OF read], goal_cases)
    case (1 r e' w')
    then show ?case by (cases r) (auto intro: master_records[OF assms(1)])
  qed (intro append_intros)
qed

lemma script_round_records:
  assumes "apart m sf tf" "recorded start head e"
  shows "under (session_kernel m sf tf) e (script_round m sf tf start u)
    (\<lambda>r e' w. goes (\<lambda>x e'. x = Inl () \<and> recorded start head e') {e'. recorded start head e'} r e') w"
proof -
  have select: "under (session_kernel m sf tf) e (call (Lib ''select'' [m + 1]) (\<lambda>s.
       if rv s = -1 then get errno (\<lambda>e. if e = EINTR then again () else errExit ''select'')
       else script_ready m sf tf start (ints s)))
      (\<lambda>r e' w. goes (\<lambda>x e'. x = Inl () \<and> recorded start head e') {e'. recorded start head e'} r e') w1" for w1 :: world
    by (rule under_call)
      (auto simp: session_kernel_simps assms(2) intro!: append_intros under_errExit under_get under_again
        ready_records[OF assms])
  have size: "under (session_kernel m sf tf) e (if b then ioctl_or_die 0 ''TIOCGWINSZ'' [] msg (\<lambda>ws.
        ioctl_or_die m ''TIOCSWINSZ'' (ints ws) msg2 (\<lambda>_. ret ())) else ret ())
      (\<lambda>r e' w. goes (\<lambda>x e'. e' = e) {} r e') w1" for b msg msg2 and w1 :: world
    unfolding ioctl_or_die_def
    by (auto simp: session_kernel_simps intro!: under_call append_intros under_errExit under_ret)
  have "under (session_kernel m sf tf) e (seq (if b then ioctl_or_die 0 ''TIOCGWINSZ'' [] msg (\<lambda>ws.
        ioctl_or_die m ''TIOCSWINSZ'' (ints ws) msg2 (\<lambda>_. ret ())) else ret ()) (\<lambda>_. call (Lib ''select'' [m + 1]) (\<lambda>s.
       if rv s = -1 then get errno (\<lambda>e. if e = EINTR then again () else errExit ''select'')
       else script_ready m sf tf start (ints s))))
      (\<lambda>r e' w. goes (\<lambda>x e'. x = Inl () \<and> recorded start head e') {e'. recorded start head e'} r e') w1" for b msg msg2 and w1 :: world
  proof (rule under_seq, rule under_mono[OF size], goal_cases)
    case (1 r e' w')
    then show ?case by (cases r) (auto intro: select)
  qed (auto intro!: append_intros)
  note seen = this
  show ?thesis
    unfolding script_round_def lib_def script_master_def[symmetric] script_ready_def[symmetric]
  proof (rule under_call, goal_cases)
    case (3 r rs e1)
    then have "e1 = e" by (simp add: session_kernel_simps)
    then show ?case by (simp only:) (rule seen)
  qed (auto intro!: append_intros)
qed

lemma ends_write_all [fuel_intros]: "shrinks k \<Longrightarrow> shrinks (write_all fd s msg k)" "shrinks k' \<Longrightarrow> rounds (write_all fd s msg k')"
  unfolding write_all_def by (intro fuel_intros; simp)+

lemma ends_ioctl [fuel_intros]: "(\<And>r. shrinks (k r)) \<Longrightarrow> shrinks (ioctl_or_die fd q as msg k)"
  unfolding ioctl_or_die_def by (intro fuel_intros; simp)

lemma rounds_script_round: "rounds (script_round m sf tf start u)"
  unfolding script_round_def record_output_def by (intro fuel_intros; simp)

lemma script_records:
  assumes "apart m sf tf"
  shows "under (session_kernel m sf tf) \<lparr>pieces_read = [], clocks = [], timed = [], script_file = head\<rparr> (loop (script_round m sf tf start) ())
    (\<lambda>r e' w. goes (\<lambda>x e'. False) {e'. recorded start head e'} r e') w"
  by (rule under_loop[where I = "\<lambda>_ e w. recorded start head e"])
    (auto simp: recorded_def[where e = "\<lparr>pieces_read = [], clocks = [], timed = [], script_file = head\<rparr>"] goes_def rounds_script_round
      intro!: append_intros under_mono[OF script_round_records[OF assms]] split: result.splits)

section \<open>Replaying\<close>

fun decodes :: "string \<Rightarrow> string \<Rightarrow> (string \<times> string) option" where
  \<comment> \<open>the text read from the bytes of a file, and the bytes after it; \<open>None\<close> when the array is read in front of it\<close>
  "decodes acc [] = Some (acc, [])"
| "decodes acc (b # bs) =
     (if b = NL then Some (acc, bs)
      else if b = CHR ''n'' \<and> acc = [] then None
      else if b = CHR ''n'' \<and> last acc = BACKSLASH then decodes (butlast acc @ [NL]) bs
      else decodes (acc @ [b]) bs)"

fun replayable :: "char option \<Rightarrow> string \<Rightarrow> bool" where
  \<comment> \<open>no \<open>n\<close> at the start, and none after a backslash\<close>
  "replayable prev [] = True"
| "replayable prev (c # cs) = (\<not> (c = CHR ''n'' \<and> (prev = None \<or> prev = Some BACKSLASH)) \<and> replayable (Some c) cs)"

lemma decodes_escaped:
  "replayable (if acc = [] then None else Some (last acc)) buf \<Longrightarrow>
    decodes acc (concat (map escape buf) @ NL # rest) = Some (acc @ buf, rest)"
proof (induction buf arbitrary: acc)
  case (Cons c buf)
  have nl: "NL \<noteq> CHR ''n''" "BACKSLASH \<noteq> NL" "BACKSLASH \<noteq> CHR ''n''" by (simp_all add: NL_def BACKSLASH_def)
  show ?case
  proof (cases "c = NL")
    case True
    with Cons nl Cons.IH[of "acc @ [NL]"] show ?thesis by (simp add: escape_def BACKSLASH_def[symmetric])
  next
    case False
    with Cons Cons.IH[of "acc @ [c]"] show ?thesis by (auto simp: escape_def split: if_splits)
  qed
qed (simp add: NL_def)

record tape =
  unplayed :: string
  slept :: "int list list"   \<comment> \<open>the arguments of \<open>clock_nanosleep\<close>\<close>

definition tape_kernel :: "tape \<Rightarrow> syscall \<Rightarrow> reply \<Rightarrow> tape option" where
  "tape_kernel e c r = (case c of
      Fd (Read fd n) \<Rightarrow> (case r of
        RData s \<Rightarrow> if length s \<le> n \<and> take (length s) (unplayed e) = s \<and> (s = [] \<longrightarrow> unplayed e = [])
          then Some (e\<lparr>unplayed := drop (length s) (unplayed e)\<rparr>) else None
        | RErr x \<Rightarrow> Some e | _ \<Rightarrow> None)
    | Lib f as \<Rightarrow> Some (if f = ''clock_nanosleep'' then e\<lparr>slept := slept e @ [as]\<rparr> else e)
    | _ \<Rightarrow> Some e)"

lemma tape_read:
  "tape_kernel e (Fd (Read fd 1)) r = Some e' \<Longrightarrow>
    (\<exists>x. r = RErr x \<and> e' = e) \<or> r = RData [] \<and> unplayed e = [] \<and> e' = e \<or>
    (\<exists>c cs. r = RData [c] \<and> unplayed e = c # cs \<and> e' = e\<lparr>unplayed := cs\<rparr>)"
proof -
  assume k: "tape_kernel e (Fd (Read fd 1)) r = Some e'"
  show ?thesis
  proof (cases r)
    case (RData s)
    then have s: "length s \<le> 1" "take (length s) (unplayed e) = s" "s = [] \<longrightarrow> unplayed e = []"
      "e' = e\<lparr>unplayed := drop (length s) (unplayed e)\<rparr>"
      using k by (auto simp: tape_kernel_def split: if_splits)
    then show ?thesis using RData by (cases s; cases "unplayed e") auto
  qed (use k in \<open>auto simp: tape_kernel_def\<close>)
qed

lemma appends_read_ms [append_intros]: "appends (read_ms fd ms)" "appends (read_text fd x)"
proof -
  show "appends (read_ms fd ms)" unfolding read_ms_def by (intro append_intros)
  show "appends (read_text fd x)"
    unfolding read_text_def by (cases x) (auto simp: Let_def intro!: append_intros split: sum.splits)
qed

lemma rounds_read_ms: "rounds (read_ms fd ms)" "rounds (read_text fd x)"
proof -
  show "rounds (read_ms fd ms)" unfolding read_ms_def by (intro fuel_intros; simp)
  show "rounds (read_text fd x)"
    unfolding read_text_def by (cases x) (auto simp: Let_def intro!: fuel_intros split: sum.splits list.splits)
qed

lemma read_text_decodes:
  assumes "decodes acc (unplayed e) = Some (buf, rest)" "no_alloc_failure st" "elems text = acc"
  shows "under tape_kernel e (loop (read_text fd) (text, st)) (\<lambda>r e' w'. plays (\<lambda>(text', st', eof) e' w'. elems text' = buf
    \<and> no_alloc_failure st' \<and> e' = e\<lparr>unplayed := rest\<rparr> \<and> (eof \<longrightarrow> rest = []) \<and> same_out w w') r e' w') w"
proof (rule under_loop[where I = "\<lambda>(text, st) e1 w1. decodes (elems text) (unplayed e1) = Some (buf, rest) \<and> no_alloc_failure st
    \<and> e1 = e\<lparr>unplayed := unplayed e1\<rparr> \<and> same_out w w1"], goal_cases)
  case 1
  show ?case using assms by (simp add: same_out_def)
next
  case (4 x e1 w1)
  obtain t s where x: "x = (t, s)" by (cases x)
  with 4 have inv: "decodes (elems t) (unplayed e1) = Some (buf, rest)" "no_alloc_failure s" "e1 = e\<lparr>unplayed := unplayed e1\<rparr>" "same_out w w1"
    by auto
  show ?case
    unfolding x read_text_def case_prod_conv
  proof (rule under_call, goal_cases)
    case (3 r rs e2)
    from tape_read[OF 3(2)] show ?case
    proof (elim disjE exE conjE, goal_cases)
      case (1 y)
      then show ?case by (auto simp: rv_def end_of_def intro!: under_errExit)
    next
      case 2
      then show ?case using inv by (auto simp: rv_def same_out_def intro!: under_leave)
    next
      case (3 c cs)
      have p: "\<exists>v' st'. vec_push c t s = Inr (v', st') \<and> elems v' = elems t @ [c] \<and> no_alloc_failure st'"
        using inv(2) by (rule vec_push_ok)
      show ?case
        using 3 inv p by (auto simp: rv_def bytes_read_def bytes_def same_out_def Let_def intro!: under_leave under_again split: if_splits)
    qed
  qed (auto simp: Let_def intro!: append_intros split: sum.splits)
qed (auto intro!: append_intros rounds_read_ms)

definition time_read :: "string \<Rightarrow> string \<Rightarrow> string option \<Rightarrow> tape \<Rightarrow> tape \<Rightarrow> bool" where
  "time_read s rest ms e e' \<longleftrightarrow> (if unplayed e = [] then ms = None \<and> e' = e else ms = Some s \<and> e' = e\<lparr>unplayed := rest\<rparr>)"

lemma read_ms_reads:
  assumes "unplayed e = [] \<or> unplayed e = s @ CHR '' '' # rest" "CHR '' '' \<notin> set s" "NUL \<notin> set s" "length s < 100"
  shows "under tape_kernel e (loop (read_ms fd) []) (\<lambda>r e' w'. plays (\<lambda>ms e' w'. time_read s rest ms e e' \<and> same_out w w') r e' w') w"
proof (rule under_loop[where I = "\<lambda>ms e1 w1. (if unplayed e = [] then ms = [] \<and> e1 = e
    else \<exists>todo. s = ms @ todo \<and> e1 = e\<lparr>unplayed := todo @ CHR '' '' # rest\<rparr>) \<and> same_out w w1"], goal_cases)
  case 1
  show ?case using assms(1) by (auto simp: same_out_def intro!: tape.equality)
next
  case (4 ms e1 w1)
  show ?case
    unfolding read_ms_def
  proof (rule under_call, goal_cases)
    case (3 r rs e2)
    from tape_read[OF 3(2)] show ?case
    proof (elim disjE exE conjE, goal_cases)
      case (1 y)
      then show ?case by (auto simp: rv_def end_of_def intro!: under_errExit)
    next
      case 2
      then show ?case using 4 by (auto simp: rv_def same_out_def time_read_def intro!: under_leave split: if_splits)
    next
      case (3 c cs)
      then have "unplayed e \<noteq> []" using 4 by (auto split: if_splits)
      then obtain todo where t: "s = ms @ todo" "e1 = e\<lparr>unplayed := todo @ CHR '' '' # rest\<rparr>" "same_out w w1" using 4 by auto
      have out: "same_out w (w1\<lparr>script := a, trace := b, errno := x\<rparr>)" for a b x using t(3) by (simp add: same_out_def)
      show ?case
      proof (cases todo)
        case Nil
        then show ?thesis
          using 3 t \<open>unplayed e \<noteq> []\<close> out by (auto simp: rv_def bytes_read_def bytes_def time_read_def intro!: under_leave)
      next
        case (Cons d ds)
        then have d: "d = c" "cs = ds @ CHR '' '' # rest" using 3 t by auto
        have "c \<noteq> CHR '' ''" "c \<noteq> NUL" "\<not> 100 \<le> length ms" using assms(2-4) t(1) Cons d by auto
        then show ?thesis
          using 3 t Cons d \<open>unplayed e \<noteq> []\<close> out by (auto simp: rv_def bytes_read_def bytes_def intro!: under_again)
      qed
    qed
  qed (auto intro!: append_intros)
qed (auto intro!: append_intros rounds_read_ms)

lemma shown_time:
  assumes "0 \<le> i" "i \<le> INT_MAX"
  shows "CHR '' '' \<notin> set (show_int i)" "NUL \<notin> set (show_int i)" "length (show_int i) < 100"
    "getInt (Some (show_int i)) GN_NONNEG name w = (Return i, w\<lparr>errno := 0\<rparr>)"
proof -
  have n: "nat i < 10 ^ Suc 9" using assms by (simp add: INT_MAX_def)
  show "length (show_int i) < 100" using show_nat_length_le[OF n] assms(1) by (simp add: show_int_def)
  show "NUL \<notin> set (show_int i)" by (rule NUL_not_shown)
  show "CHR '' '' \<notin> set (show_int i)"
  proof
    assume "CHR '' '' \<in> set (show_int i)"
    with assms(1) obtain d where "d < 10" "CHR '' '' = digit_char d" using show_nat_digits[of "CHR '' ''" "nat i"] by (auto simp: show_int_def)
    with digit_char_plain(1)[of d] show False by (simp add: isspace_def)
  qed
  have "strtol (show_int i) 10 = (i, [], False)"
    using strtol_show_int[of i "[]"] assms by (simp add: int_limits)
  then show "getInt (Some (show_int i)) GN_NONNEG name w = (Return i, w\<lparr>errno := 0\<rparr>)"
    using assms by (simp add: getInt_def getNum_def seq_def set_errno_def ret_def has_flag_def GN_NONNEG_def GN_GT_0_def GN_ANY_BASE_def
        GN_BASE_8_def GN_BASE_16_def int_limits Let_def show_int_def)
qed

definition pause :: "int \<Rightarrow> int list" where
  \<comment> \<open>seconds and nanoseconds\<close>
  "pause m = [c_div m 1000, (sgn m * (\<bar>m\<bar> mod 1000)) * 1000000]"

fun pauses :: "int \<Rightarrow> int list \<Rightarrow> int list list" where
  "pauses prev [] = []"
| "pauses prev (t # ts) = pause (to_int32 (t - prev)) # pauses t ts"

lemma pauses_snoc: "pauses prev (ts @ [t]) = pauses prev ts @ [pause (to_int32 (t - last (prev # ts)))]"
  by (induction ts arbitrary: prev) auto

definition record_text :: "(int \<times> string) list \<Rightarrow> string" where
  "record_text recs = concat (map record_line recs)"

definition good_record :: "int \<times> string \<Rightarrow> bool" where
  "good_record p = (0 \<le> fst p \<and> fst p \<le> INT_MAX \<and> replayable None (snd p))"

definition played :: "tape \<Rightarrow> world \<Rightarrow> (int \<times> string) list \<Rightarrow> (int \<times> string) list \<Rightarrow> tape \<Rightarrow> world \<Rightarrow> bool" where
  \<comment> \<open>these records have been shown, and these are left\<close>
  "played e0 w0 fin todo e w \<longleftrightarrow> unplayed e = record_text todo \<and> slept e = slept e0 @ pauses 0 (map fst fin)
     \<and> out w @ obuf w = out w0 @ obuf w0 @ concat (map snd fin)"

lemma played_more:
  assumes "played e0 w0 fin ((t, b) # todo) e w" "same_out w w1"
  shows "played e0 w0 (fin @ [(t, b)]) todo
    (e\<lparr>slept := slept e @ [pause (to_int32 (t - last (0 # map fst fin)))], unplayed := record_text todo\<rparr>)
    (flushed (w1\<lparr>obuf := obuf w1 @ b\<rparr>))"
  using assms by (auto simp: played_def same_out_def pauses_snoc flushed_def)

lemma under_getInt: "0 \<le> i \<Longrightarrow> i \<le> INT_MAX \<Longrightarrow> Q (Return i) e (w\<lparr>errno := 0\<rparr>) \<Longrightarrow>
    under K e (getInt (Some (show_int i)) GN_NONNEG name) Q w"
  unfolding under_def wp_def by (auto simp: shown_time(4) intro!: exI[of _ "[]"])

definition replay_text :: "int \<Rightarrow> int \<Rightarrow> char vec \<times> cstate \<times> bool \<Rightarrow> (int \<times> cstate + unit) prog" where
  "replay_text fd current_ms = (\<lambda>(text, st', eof).
     printf (elems text) (fflush_stdout (if eof then leave () else again (current_ms, st'))))"

definition replay_timed :: "int \<Rightarrow> int \<Rightarrow> cstate \<Rightarrow> int \<Rightarrow> (int \<times> cstate + unit) prog" where
  "replay_timed fd last_ms st current_ms = lib ''clock_nanosleep'' (pause (to_int32 (current_ms - last_ms))) (\<lambda>s.
     if rv s \<noteq> 0 then errExit ''clock_nanosleep''
     else seq (loop (read_text fd) (vec_init, st)) (replay_text fd current_ms))"

lemma replay_round_parts: "replay_round fd (last_ms, st) = seq (loop (read_ms fd) []) (\<lambda>ms. case ms of None \<Rightarrow> leave ()
     | Some m \<Rightarrow> if 100 \<le> length m then stop (Fault Out_of_bounds)
       else seq (getInt (Some m) GN_NONNEG (Some ''nsec'')) (replay_timed fd last_ms st))"
  unfolding replay_round_def replay_timed_def[abs_def] replay_text_def[abs_def] pause_def Let_def case_prod_conv by (rule refl)

lemma appends_replay [append_intros]: "appends (replay_text fd c x)" "appends (replay_timed fd l st c)" "appends (replay_round fd z)"
proof -
  show t: "appends (replay_text fd c x)" for c x
  proof -
    have "appends (fflush_stdout k)" if "appends k" for k :: "(int \<times> cstate + unit) prog" using that by (rule append_intros)
    then show ?thesis unfolding replay_text_def by (cases x) (auto intro!: append_intros)
  qed
  show r: "appends (replay_timed fd l st c)" for l st c unfolding replay_timed_def by (intro append_intros t)
  show "appends (replay_round fd z)" by (cases z) (auto simp: replay_round_parts intro!: append_intros r)
qed

lemma replay_timed_plays:
  assumes "played e0 w0 fin ((t, b) # todo) e w" "unplayed e1 = concat (map escape b) @ NL # record_text todo" "e1 = e\<lparr>unplayed := unplayed e1\<rparr>"
    "same_out w w1" "replayable None b" "no_alloc_failure st" "last_ms = last (0 # map fst fin)"
  shows "under tape_kernel e1 (replay_timed fd last_ms st t) (\<lambda>r e' w'. plays (\<lambda>x e' w'.
    played e0 w0 (fin @ [(t, b)]) todo e' w' \<and> (case x of Inl (l, st') \<Rightarrow> l = t \<and> no_alloc_failure st' | Inr _ \<Rightarrow> todo = [])) r e' w') w1"
proof -
  let ?Q = "\<lambda>r e' w'. plays (\<lambda>x e' w'. played e0 w0 (fin @ [(t, b)]) todo e' w'
    \<and> (case x of Inl (l, st') \<Rightarrow> l = t \<and> no_alloc_failure st' | Inr _ \<Rightarrow> todo = [])) r e' w'"
  let ?e2 = "e1\<lparr>slept := slept e1 @ [pause (to_int32 (t - last_ms))]\<rparr>"
  have e2: "?e2\<lparr>unplayed := record_text todo\<rparr> = e\<lparr>slept := slept e @ [pause (to_int32 (t - last_ms))], unplayed := record_text todo\<rparr>"
    by (subst assms(3)) simp
  have no_rest: "record_text todo = [] \<Longrightarrow> todo = []" by (cases todo) (auto simp: record_text_def record_line_def)
  have dec: "decodes [] (unplayed ?e2) = Some (b, record_text todo)"
    using decodes_escaped[of "[]" b "record_text todo"] assms(2,5) by simp
  have show_it: "under tape_kernel (?e2\<lparr>unplayed := record_text todo\<rparr>) (replay_text fd t (tx, st', eof)) ?Q w3"
    if "elems tx = b" "no_alloc_failure st'" "eof \<longrightarrow> record_text todo = []" "same_out w w3" for tx st' eof and w3 :: world
    using played_more[OF assms(1) that(4)] that(2,3) no_rest
    unfolding replay_text_def case_prod_conv that(1) e2
    unfolding assms(7)
    by (auto intro!: under_printf under_flush under_leave under_again)
  have body: "under tape_kernel ?e2 (seq (loop (read_text fd) (vec_init, st)) (replay_text fd t)) ?Q w2" if "same_out w w2" for w2 :: world
  proof (rule under_seq, rule under_mono[OF read_text_decodes[OF dec assms(6) vec_init_elems]], goal_cases)
    case (1 r e' w')
    then show ?case
    proof (cases r)
      case (Return x)
      obtain tx st' eof where x: "x = (tx, st', eof)" by (cases x)
      with 1 Return that have "elems tx = b" "no_alloc_failure st'" "eof \<longrightarrow> record_text todo = []" "same_out w w'"
          "e' = ?e2\<lparr>unplayed := record_text todo\<rparr>"
        by (auto simp: same_out_def)
      with show_it show ?thesis by (simp add: Return x)
    qed simp_all
  qed (intro append_intros)
  show ?thesis
    unfolding replay_timed_def lib_def
    by (rule under_call)
      (use assms(4) in \<open>auto simp: tape_kernel_def same_out_def intro!: append_intros under_errExit body\<close>)
qed

lemma replay_round_plays:
  assumes "played e0 w0 fin todo e w" "list_all good_record todo" "no_alloc_failure st" "last_ms = last (0 # map fst fin)"
  shows "under tape_kernel e (replay_round fd (last_ms, st)) (\<lambda>r e' w'. plays (\<lambda>x e' w'. case x of
      Inl (l, st') \<Rightarrow> (\<exists>p todo'. todo = p # todo' \<and> l = fst p \<and> no_alloc_failure st' \<and> played e0 w0 (fin @ [p]) todo' e' w')
    | Inr _ \<Rightarrow> played e0 w0 (fin @ todo) [] e' w') r e' w') w"
proof (cases todo)
  case Nil
  then have u: "unplayed e = []" using assms(1) by (simp add: played_def record_text_def)
  show ?thesis
    unfolding replay_round_parts
  proof (rule under_seq, rule under_mono[OF read_ms_reads[of _ "[]" "[]"]], goal_cases)
    case (5 r e' w')
    then show ?case
      using assms(1) by (cases r) (auto simp: u Nil time_read_def same_out_def played_def intro!: under_leave)
  qed (auto simp: u intro!: append_intros)
next
  case (Cons p todo')
  obtain t b where p: "p = (t, b)" by (cases p)
  have g: "0 \<le> t" "t \<le> INT_MAX" "replayable None b" using assms(2) by (simp_all add: Cons p good_record_def)
  have u: "unplayed e = show_int t @ CHR '' '' # concat (map escape b) @ NL # record_text todo'"
    using assms(1) by (simp add: played_def Cons p record_text_def record_line_def)
  then have ne: "unplayed e \<noteq> []" by simp
  have pl: "played e0 w0 fin ((t, b) # todo') e w" using assms(1) by (simp add: Cons p)
  have timed: "under tape_kernel (e\<lparr>unplayed := concat (map escape b) @ NL # record_text todo'\<rparr>) (replay_timed fd last_ms st t)
     (\<lambda>r e' w'. plays (\<lambda>x e' w'. case x of
      Inl (l, st') \<Rightarrow> (\<exists>p todo'. todo = p # todo' \<and> l = fst p \<and> no_alloc_failure st' \<and> played e0 w0 (fin @ [p]) todo' e' w')
    | Inr _ \<Rightarrow> played e0 w0 (fin @ todo) [] e' w') r e' w') w1" if "same_out w w1" for w1 :: world
    by (rule under_mono[OF replay_timed_plays[OF pl _ _ that g(3) assms(3,4)]])
      (auto simp: plays_def Cons p split: result.splits sum.splits)
  show ?thesis
    unfolding replay_round_parts
  proof (rule under_seq, rule under_mono[OF read_ms_reads[of _ "show_int t" "concat (map escape b) @ NL # record_text todo'"]], goal_cases)
    case (5 r e' w')
    then show ?case
      using shown_time(3)[OF g(1,2)] ne
      by (cases r) (auto simp: time_read_def same_out_def intro!: under_seq under_getInt[OF g(1,2)] timed append_intros)
  qed (use u shown_time[OF g(1,2)] in \<open>auto intro!: append_intros\<close>)
qed

lemma rounds_replay: "rounds (replay_round fd z)"
proof -
  have t: "shrinks (replay_text fd c x)" for c x
    unfolding replay_text_def by (cases x) (auto intro!: fuel_intros)
  have r: "rounds (replay_timed fd l st c)" for l st c
    unfolding replay_timed_def by (intro fuel_intros t rounds_read_ms)
  show ?thesis
    by (cases z) (auto simp: replay_round_parts intro!: fuel_intros r rounds_read_ms split: option.splits)
qed

lemma replay_plays:
  assumes "list_all good_record recs" "no_alloc_failure st" "unplayed e = record_text recs"
  shows "under tape_kernel e (loop (replay_round fd) (0, st)) (\<lambda>r e' w'. plays (\<lambda>_ e' w'. played e w recs [] e' w') r e' w') w"
proof (rule under_loop[where I = "\<lambda>(l, st) e1 w1. \<exists>fin todo. recs = fin @ todo \<and> no_alloc_failure st
    \<and> l = last (0 # map fst fin) \<and> played e w fin todo e1 w1"], goal_cases)
  case 1
  show ?case using assms by (auto simp: played_def intro!: exI[of _ "[]"])
next
  case (4 z e1 w1)
  obtain l s where z: "z = (l, s)" by (cases z)
  with 4 obtain fin todo where d: "recs = fin @ todo" "no_alloc_failure s" "l = last (0 # map fst fin)" "played e w fin todo e1 w1"
    by auto
  have g: "list_all good_record todo" using assms(1) by (simp add: d(1))
  show ?case
    unfolding z
  proof (rule under_mono[OF replay_round_plays[OF d(4) g d(2,3)]], goal_cases)
    case (1 r e' w')
    have inl: "\<exists>fin' todo''. fin @ todo = fin' @ todo'' \<and> no_alloc_failure st' \<and> l' = last (0 # map fst fin') \<and> played e w fin' todo'' e' w'"
      if "todo = p # todo'" "l' = fst p" "no_alloc_failure st'" "played e w (fin @ [p]) todo' e' w'" for p todo' l' st'
      using that by (intro exI[of _ "fin @ [p]"] exI[of _ todo']) simp
    show ?case
    proof (cases r)
      case (Return x)
      show ?thesis
      proof (cases x)
        case (Inl y)
        obtain l' st' where y: "y = (l', st')" by (cases y)
        from 1 obtain p todo' where "todo = p # todo'" "l' = fst p" "no_alloc_failure st'" "played e w (fin @ [p]) todo' e' w'"
          by (auto simp: Return Inl y)
        from inl[OF this] show ?thesis by (simp add: Return Inl y d(1))
      qed (use 1 in \<open>simp add: Return d(1)\<close>)
    qed (use 1 in simp_all)
  qed
qed (auto intro!: append_intros rounds_replay)

section \<open>A recording, played again\<close>

text \<open>C40: What \<open>better_script\<close> records, \<open>replay_script\<close> shows. When a session ends with success, the script file holds its
  head and all that came from the terminal, and the timed file can be played: if every time fits and no piece starts with
  an \<open>n\<close> or has one after a backslash, the replay prints exactly the bytes of the session and sleeps between
  two pieces for the time that passed between them. (A piece that starts with an \<open>n\<close> makes it read in front of its array;
  a backslash with an \<open>n\<close> in the output comes back as a newline.)
\<close>

theorem replay_shows_recording:
  assumes "apart m sf tf" "loop (script_round m sf tf start) () w1 = (Exited EXIT_SUCCESS, w1')" "trace w1' = trace w1 @ t1"
    "run (session_kernel m sf tf) \<lparr>pieces_read = [], clocks = [], timed = [], script_file = head\<rparr> t1 = Some e"
    "list_all (replayable None) (pieces_read e)" "list_all (\<lambda>c. 0 \<le> elapsed_ms start c) (clocks e)"
    "no_alloc_failure st" "loop (replay_round fd) (0, st) w2 = (r, w2')" "trace w2' = trace w2 @ t2"
    "run tape_kernel \<lparr>unplayed = timed e, slept = []\<rparr> t2 = Some e'"
  shows "script_file e = head @ concat (pieces_read e) \<and> (case r of
      Return u \<Rightarrow> out w2' @ obuf w2' = out w2 @ obuf w2 @ concat (pieces_read e) \<and> unplayed e' = []
        \<and> slept e' = pauses 0 (map (elapsed_ms start) (clocks e))
    | Fault f \<Rightarrow> False | No_fuel \<Rightarrow> False | _ \<Rightarrow> True)"
proof -
  from underD[OF script_records[OF assms(1), of head start w1] assms(2)] assms(3,4) have r: "recorded start head e"
    by (auto simp: EXIT_SUCCESS_def EXIT_FAILURE_def)
  let ?recs = "zip (map (elapsed_ms start) (clocks e)) (pieces_read e)"
  have l: "length (clocks e) = length (pieces_read e)" using r by (simp add: recorded_def)
  have "list_all good_record ?recs"
    using assms(5,6) to_int32_range(2)
    by (auto simp: list_all_iff good_record_def elapsed_ms_def simp del: One_nat_def elim!: in_set_zipE)
  moreover have "unplayed \<lparr>unplayed = timed e, slept = []\<rparr> = record_text ?recs" using r by (simp add: recorded_def record_text_def)
  ultimately have "plays (\<lambda>_ e' w'. played \<lparr>unplayed = timed e, slept = []\<rparr> w2 ?recs [] e' w') r e' w2'"
    using underD[OF replay_plays[OF _ assms(7)] assms(8)] assms(9,10) by (metis same_append_eq)
  then show ?thesis
    using r l by (auto simp: recorded_def plays_def played_def record_text_def split: result.splits)
qed

definition demo_session :: "unit result \<times> world" where
  "demo_session = loop (script_round 3 4 5 [10, 0]) () (booted [RVal 0, RInts [3], RData (''a'' @ [NL]), RVal 2, RInts [10, 5000000],
     RVal 2, RVal 1, RVal 2, RVal 1, RVal 2, RVal 0, RInts [3], RData []])"

definition demo_mem :: cstate where
  "demo_mem = \<lparr>allocs = [], cerrno = 0\<rparr>"

definition demo_replay :: "unit result \<times> world" where
  "demo_replay = loop (replay_round 3) (0, demo_mem) (booted [RData ''5'', RData '' '', RVal 0, RData ''a'', RData [BACKSLASH], RData ''n'',
     RData [NL], RData []])"

lemma demo_runs: "fst demo_session = Exited EXIT_SUCCESS" "fst demo_replay = Return ()"
  "run (session_kernel 3 4 5) \<lparr>pieces_read = [], clocks = [], timed = [], script_file = []\<rparr> (trace (snd demo_session))
    = Some \<lparr>pieces_read = [''a'' @ [NL]], clocks = [[10, 5000000]], timed = ''5 a'' @ [BACKSLASH, CHR ''n'', NL], script_file = ''a'' @ [NL]\<rparr>"
  "run tape_kernel \<lparr>unplayed = ''5 a'' @ [BACKSLASH, CHR ''n'', NL], slept = []\<rparr> (trace (snd demo_replay))
    = Some \<lparr>unplayed = [], slept = [[0, 5000000]]\<rparr>"
  by code_simp+

lemma replay_shows_recording_witness: "out (snd demo_replay) @ obuf (snd demo_replay) = ''a'' @ [NL]"
proof -
  let ?s = "booted [RVal 0, RInts [3], RData (''a'' @ [NL]), RVal 2, RInts [10, 5000000],
     RVal 2, RVal 1, RVal 2, RVal 1, RVal 2, RVal 0, RInts [3], RData []]"
  let ?p = "booted [RData ''5'', RData '' '', RVal 0, RData ''a'', RData [BACKSLASH], RData ''n'', RData [NL], RData []]"
  let ?e = "\<lparr>pieces_read = [''a'' @ [NL]], clocks = [[10, 5000000]], timed = ''5 a'' @ [BACKSLASH, CHR ''n'', NL], script_file = ''a'' @ [NL]\<rparr>"
  have s: "loop (script_round 3 4 5 [10, 0]) () ?s = (Exited EXIT_SUCCESS, snd demo_session)"
    using demo_runs(1) by (simp add: demo_session_def prod_eq_iff)
  have p: "loop (replay_round 3) (0, demo_mem) ?p = (Return (), snd demo_replay)"
    using demo_runs(2) by (simp add: demo_replay_def prod_eq_iff)
  have a: "apart 3 4 5" "list_all (replayable None) (pieces_read ?e)" "list_all (\<lambda>c. 0 \<le> elapsed_ms [10, 0] c) (clocks ?e)"
    "no_alloc_failure demo_mem"
    by (simp_all add: apart_def NL_def elapsed_ms_def c_div_def int_limits demo_mem_def no_alloc_failure_def)
  have t: "u = trace (booted rs) @ u" for u rs by simp
  have tape: "run tape_kernel \<lparr>unplayed = timed ?e, slept = []\<rparr> (trace (snd demo_replay)) = Some \<lparr>unplayed = [], slept = [[0, 5000000]]\<rparr>"
    using demo_runs(4) by simp
  from replay_shows_recording[OF a(1) s t demo_runs(3) a(2,3,4) p t tape] show ?thesis by simp
qed

end
