(* ===== verification/Termination.thy ===== *)
theory Termination
  imports SeqFifo SeqServers NameServer Daemon Acl Files Environ Replay
begin

text \<open>
  The fuel of the loops is enough: every program, whatever the kernel answers, runs to an end or
  to a call that has no answer yet, and never out of fuel. The rules \<open>fuel_intros\<close> derive this from the
  shape of the programs; only the loop of \<open>read_line_buf\<close>, which can go round once without a call, needs
  an argument of its own.
\<close>

section \<open>read\_line\_buf\<close>

definition must_read :: "rlbuf \<Rightarrow> bool" where
  \<comment> \<open>the next round starts with a read\<close>
  "must_read rlb \<longleftrightarrow> array_of rlb (in_buf rlb) ! next_char rlb = NUL"

definition scanned :: "world \<Rightarrow> (rlbuf + rl_out) result \<Rightarrow> world \<Rightarrow> bool" where
  "scanned w r w' \<longleftrightarrow> script w' = script w \<and> r \<noteq> No_fuel \<and> (\<forall>rlb. r = Return (Inl rlb) \<longrightarrow> must_read rlb)"

lemma scan_ends: "wp (rl_scan n cur rlb) (scanned w) w"
  by (auto simp: rl_scan_def rl_swap_def Let_def exec_simps scanned_def must_read_def patch_def nth_append)

definition went_round :: "rlbuf \<Rightarrow> world \<Rightarrow> (rlbuf + rl_out) result \<Rightarrow> world \<Rightarrow> bool" where
  "went_round rlb w r w' \<longleftrightarrow> length (script w') \<le> length (script w) \<and> r \<noteq> No_fuel
     \<and> (\<forall>s. r = Return (Inl s) \<longrightarrow> must_read s \<and> (must_read rlb \<longrightarrow> length (script w') < length (script w)))"

lemma round_ends: "wp (rl_round n rlb) (went_round rlb w) w"
proof -
  have read_on: "wp (rl_scan n cur rlb') (went_round rlb w) w1" if "length (script w1) < length (script w)" for cur rlb' w1
    by (rule wp_mono[OF scan_ends]) (use that in \<open>auto simp: scanned_def went_round_def\<close>)
  have scan: "wp (rl_scan n cur rlb) (went_round rlb w) w" if "\<not> must_read rlb" for cur
    by (rule wp_mono[OF scan_ends]) (use that in \<open>auto simp: scanned_def went_round_def\<close>)
  show ?thesis
  proof (cases "must_read rlb")
    case True
    then show ?thesis
      unfolding rl_round_def Let_def must_read_def[of rlb]
      by (auto simp: exec_simps went_round_def[of _ _ Blocked] went_round_def[of _ _ "Fault f" for f]
          went_round_def[of _ _ "Return (Inr a)" for a] intro!: read_on split: reply.splits list.splits)
  next
    case False
    then show ?thesis
      unfolding rl_round_def Let_def
      by (auto simp: exec_simps went_round_def[of _ _ "Fault f" for f] went_round_def[of _ _ "Return (Inr a)" for a]
          must_read_def[of rlb] intro!: scan)
  qed
qed

lemma rl_iter_ends:
  "length (script w) + (if must_read rlb then 0 else 1) < k \<Longrightarrow>
    wp (iter k (rl_round n) rlb) (\<lambda>r w'. r \<noteq> No_fuel \<and> length (script w') \<le> length (script w)) w"
proof (induction k arbitrary: rlb w)
  case (Suc k)
  let ?Q = "\<lambda>r w'. r \<noteq> No_fuel \<and> length (script w') \<le> length (script w)"
  show ?case
    unfolding iter.simps wp_seq
  proof (rule wp_mono[OF round_ends])
    fix r w1
    assume r: "went_round rlb w r w1"
    have "wp (iter k (rl_round n) s) ?Q w1" if "r = Return (Inl s)" for s
      by (rule wp_mono[OF Suc.IH]) (use r that Suc.prems in \<open>auto simp: went_round_def split: if_splits\<close>)
    then show "lift (\<lambda>x. wp (case x of Inl s' \<Rightarrow> iter k (rl_round n) s' | Inr a \<Rightarrow> ret a) ?Q) ?Q r w1"
      using r by (cases r) (auto simp: went_round_def exec_simps split: sum.splits)
  qed
qed simp

lemma shrinks_read_line_buf [fuel_intros]: "shrinks (read_line_buf n rlb)"
  unfolding shrinks_def
proof
  fix w :: world
  have "length (script w) + (if must_read rlb then 0 else 1) < Suc (Suc (length (script w)))" by simp
  from rl_iter_ends[OF this, of n]
  show "wp (read_line_buf n rlb) (\<lambda>r w'. r \<noteq> No_fuel \<and> length (script w') \<le> length (script w)) w"
    by (simp add: wp_def read_line_buf_def del: iter.simps)
qed

section \<open>Programs that loop\<close>

lemma ends_gnFail [fuel_intros]: "shrinks (gnFail f m a n)"
  unfolding shrinks_def by (rule allI, rule wp_gnFail_any) simp

lemma ends_utils_getNum [fuel_intros]: "shrinks (utils_getNum s m)"
  unfolding utils_getNum_def by (intro fuel_intros)

lemma ends_fifo: "shrinks fifo_sq_sv" "shrinks (fifo_sq_cl argv)"
  unfolding fifo_sq_sv_def set_handlers_def restore_seq_eq unlinkFifo_def fifo_serve_def fifo_round_def serve_request_def
    finish_request_def backup_seq_eq send_response.simps fifo_sq_cl_def removeFifo_def fifo_request_def
  by (intro fuel_intros)+

lemma ends_pmsg: "shrinks pmsg_seqnum_server" "shrinks (pmsg_seqnum_client argv)"
  unfolding pmsg_seqnum_server_def pmsg_round_def answer_request_def pmsg_seqnum_client_def remove_pmsg_def pmsg_request_def
  by (intro fuel_intros; simp)+

lemma ends_us: "shrinks seqnum_us_sv" "shrinks (seqnum_us_cl argv)"
  unfolding seqnum_us_sv_def us_round_def seqnum_us_cl_def us_exchange_def by (intro fuel_intros)+

lemma ends_rlbuf: "shrinks (rlbuf_seqnum_sv g rlb argv)" "shrinks (rlbuf_seqnum_cl rlb argv)"
  unfolding rlbuf_seqnum_sv_def rlbuf_round_def rlbuf_request_def rlbuf_seqnum_cl_def rlbuf_show_def
  by (intro fuel_intros; simp)+

lemma ends_nv: "shrinks (nv_sv as)" "shrinks (nv_cl junk argv)"
  unfolding nv_sv_def nv_round_def nv_finish_def nv_command_def nv_add_def nv_add_password_def store_copy_def in_tree_def
    authenticated_def nv_del_def nv_mod_def nv_get_def nv_cl_def send_message_def
  by (intro fuel_intros; simp)+

lemma ends_option_fun:
  "shrinks (case m of None \<Rightarrow> f k | Some x \<Rightarrow> g x k) \<Longrightarrow> shrinks ((case m of None \<Rightarrow> f | Some x \<Rightarrow> g x) k)"
  by (simp split: option.splits)

lemma ends_chattr_files [fuel_intros]: "shrinks (chattr_files c fl f files b)"
  by (induction files arbitrary: b)
    (auto simp: chattr_file_def perror_def Let_def intro!: fuel_intros split: option.splits)

lemma ends_access: "shrinks (access_main argv)" "shrinks (chattr_main f argv)"
  unfolding access_main_def chattr_main_def effective_access_def check_if_def checkPermGroup_def groupAccess_def
    perror_def
  by (intro fuel_intros; simp?)+

lemma ends_daemon: "shrinks (becomeDaemon flags)" "shrinks (ptyFork n t z)"
  unfolding becomeDaemon_def fork_to_child_def leave_session_def unless_flag_def close_files_def reopen_std_def
    ptyFork_def ptyMasterOpen_def pty_fail_def pty_child_def or_err_exit_def
  by (intro fuel_intros ends_option_fun; simp?)+

lemma ends_exec: "shrinks (imp_execlp file arg args)"
proof -
  have push: "shrinks (al_push al x k)" if "\<And>r. shrinks (k r)" for al x and k :: "arg_list option \<Rightarrow> 'b prog"
    unfolding al_push_def by (intro fuel_intros that)
  have args: "shrinks (push_args xs al)" for xs al
    by (induction xs arbitrary: al) (auto intro!: fuel_intros push split: option.splits)
  have tries: "shrinks (try_path ts file al)" for ts al
    by (induction ts) (auto intro!: fuel_intros)
  show ?thesis
    unfolding imp_execlp_def search_path_def by (intro fuel_intros push args tries; simp)
qed

lemma ends_scripts: "shrinks (better_script argv)" "shrinks (fork_script argv)" "shrinks (unbuffer argv)" "shrinks (replay_script argv st)"
proof -
  have tty: "shrinks (ttySetRaw fd)" for fd
    unfolding ttySetRaw_def tty_set_def by (intro fuel_intros; simp)
  have time: "shrinks k \<Longrightarrow> shrinks (write_time sf k)" for sf and k :: "unit prog"
    unfolding write_time_def by (intro fuel_intros; simp)
  have shell: "shrinks script_shell"
    unfolding script_shell_def by (intro fuel_intros; simp)
  have pty: "shrinks child \<Longrightarrow> (\<And>m. shrinks (parent m)) \<Longrightarrow> shrinks (on_pty sn a z child parent)" for sn a z and child :: "unit prog" and parent
    unfolding on_pty_def by (auto intro!: fuel_intros ends_daemon split: option.splits)
  have attrs: "(\<And>a z. shrinks (k a z)) \<Longrightarrow> shrinks (with_terminal k)" for k :: "reply \<Rightarrow> reply \<Rightarrow> unit prog"
    unfolding with_terminal_def by (intro fuel_intros; simp)
  show "shrinks (better_script argv)"
    unfolding better_script_def script_parent_def ttyReset_def Let_def case_prod_beta
    by (intro fuel_intros time shell pty attrs tty rounds_script_round; simp)
  show "shrinks (fork_script argv)"
    unfolding fork_script_def fork_parent_def stdin_round_def master_round_def Let_def case_prod_beta
    by (intro fuel_intros shell pty attrs tty; simp)
  show "shrinks (unbuffer argv)"
    unfolding unbuffer_def unbuffer_round_def unbuffer_event_def
    by (intro fuel_intros pty tty; simp)
  show "shrinks (replay_script argv st)"
    unfolding replay_script_def by (intro fuel_intros rounds_replay; simp)
qed

end
