(* ===== verification/Nftw.thy ===== *)
theory Nftw
  imports Conform
begin

unbundle bit_operations_syntax

text \<open>
  \<open>18_Directories_And_Links/imp_nftw.c\<close>: walks a tree of directories and calls a function on every entry. A \<open>readdir\<close>
  is answered with the name and the type of an entry, \<open>lstat\<close> with the mode. The recursion is bounded by fuel.
\<close>

section \<open>imp\_nftw\<close>

definition is_dot :: "string \<Rightarrow> bool" where
  "is_dot name = (strcmp name ''.'' = 0 \<or> strcmp name ''..'' = 0)"

definition entry_path :: "string \<Rightarrow> string \<Rightarrow> string" where
  "entry_path dirpath d_name = dirpath @ (if strcmp dirpath ''/'' \<noteq> 0 then ''/'' else []) @ d_name"

definition nftw_entry :: "(string \<Rightarrow> int prog) \<Rightarrow> string \<Rightarrow> (string \<Rightarrow> reply \<Rightarrow> int prog) \<Rightarrow> string \<Rightarrow> string \<Rightarrow>
    (unit + unit) prog" where
  \<comment> \<open>what is done with an entry; \<open>rec\<close> is the recursive call, whose result is not looked at\<close>
  "nftw_entry rec dirpath fn d_name d_type = (let path = entry_path dirpath d_name in
     if PATH_MAX < length path then stop (Fault Buffer_overflow)
     else call (Path (Lstat path)) (\<lambda>sb.
       if rv sb = -1 then leave ()
       else seq (if d_type = ''DT_DIR'' then seq (rec path) (\<lambda>_. fn path sb) else fn path sb) (\<lambda>v.
         if v = 1 then leave () else again ())))"

definition nftw_round :: "(string \<Rightarrow> int prog) \<Rightarrow> int \<Rightarrow> string \<Rightarrow> (string \<Rightarrow> reply \<Rightarrow> int prog) \<Rightarrow> unit \<Rightarrow>
    (unit + unit) prog" where
  \<comment> \<open>a round of the loop over the entries\<close>
  "nftw_round rec dir dirpath fn u = set_errno 0 (call (Path (Readdir dir)) (\<lambda>entry. case entry of
       RStrs [d_name, d_type] \<Rightarrow> if is_dot d_name then again () else nftw_entry rec dirpath fn d_name d_type
     | _ \<Rightarrow> leave ()))"

fun nftw :: "nat \<Rightarrow> (string \<Rightarrow> reply \<Rightarrow> int prog) \<Rightarrow> string \<Rightarrow> int prog" where
  "nftw 0 fn dirpath = stop No_fuel"
| "nftw (Suc n) fn dirpath = call (Path (Opendir dirpath)) (\<lambda>dir.
     if is_null_reply dir then ret (-1)
     else seq (loop (nftw_round (nftw n fn) (rv dir) dirpath fn) ()) (\<lambda>_.
       call (Path (Closedir (rv dir))) (\<lambda>_. get errno (\<lambda>e. if e \<noteq> 0 then ret (-1) else ret 1))))"

definition imp_nftw :: "string \<Rightarrow> (string \<Rightarrow> reply \<Rightarrow> int prog) \<Rightarrow> int prog" where
  \<comment> \<open>every level opens a directory: there are not more levels than replies, and one\<close>
  "imp_nftw dirpath fn = get (\<lambda>w. Suc (length (script w))) (\<lambda>n. nftw n fn dirpath)"

definition S_IFMT :: int where "S_IFMT = 61440"

definition file_kind :: "int \<Rightarrow> string" where
  "file_kind mode = (let t = mode AND S_IFMT in
     if t = 32768 then ''-'' else if t = 16384 then ''d'' else if t = 8192 then ''c'' else if t = 24576 then ''b''
     else if t = 40960 then ''l'' else if t = 4096 then ''p'' else if t = 49152 then ''s'' else ''?'')"

definition st_mode_of :: "reply \<Rightarrow> int" where
  "st_mode_of sb = (case sb of RInts (m # ms) \<Rightarrow> m | _ \<Rightarrow> 0)"

definition testFunc :: "string \<Rightarrow> reply \<Rightarrow> int prog" where
  "testFunc fpath sb = printf (file_kind (st_mode_of sb)) (printf ('' '' @ fpath @ [NL]) (ret 0))"

definition nftw_main :: "string list \<Rightarrow> int prog" where
  "nftw_main argv = (if length argv \<noteq> 2 then usageErr ''imp_nftw directory''
     else seq (imp_nftw (argv ! 1) testFunc) (\<lambda>v. if v = -1 then errExit ''imp_nftw'' else ret 0))"

section \<open>It ends\<close>

lemma shrinks_testFunc [fuel_intros]: "shrinks (testFunc p sb)"
  unfolding testFunc_def by (intro fuel_intros)

lemma appends_testFunc [append_intros]: "appends (testFunc p sb)"
  unfolding testFunc_def by (intro append_intros)

lemma appends_nftw [append_intros]: "appends (nftw n testFunc p)"
proof (induction n arbitrary: p)
  case (Suc n)
  have "appends (nftw_round (nftw n testFunc) d q testFunc u)" for d q u
    unfolding nftw_round_def nftw_entry_def Let_def by (intro append_intros Suc.IH)
  then show ?case unfolding nftw.simps by (intro append_intros)
qed (simp add: append_intros)

section \<open>Trees of directories\<close>

datatype ftree = File string int | Dir int "(string \<times> ftree) list"

fun mode_of :: "ftree \<Rightarrow> int" where
  "mode_of (File t m) = m"
| "mode_of (Dir m es) = m"

fun type_of :: "ftree \<Rightarrow> string" where
  "type_of (File t m) = t"
| "type_of (Dir m es) = ''DT_DIR''"

fun visits :: "string \<Rightarrow> ftree \<Rightarrow> (string \<times> int) list" where
  \<comment> \<open>the entries below a directory, each directory after what is in it\<close>
  "visits path (File t m) = []"
| "visits path (Dir m es) = concat (map (\<lambda>(name, t). if is_dot name then []
     else visits (entry_path path name) t @ [(entry_path path name, mode_of t)]) es)"

definition shown_as :: "string \<times> int \<Rightarrow> string" where
  "shown_as v = file_kind (snd v) @ '' '' @ fst v @ [NL]"

text \<open>
  The kernel: \<open>lookup\<close> gives what is found at a path; the state says for every open stream what it still has to
  deliver.
\<close>

type_synonym streams = "int \<Rightarrow> (string \<times> ftree) list option"

definition walk_kernel :: "(string \<Rightarrow> ftree option) \<Rightarrow> streams \<Rightarrow> syscall \<Rightarrow> reply \<Rightarrow> streams option" where
  "walk_kernel lookup e c r = (case c of
      Path (Opendir p) \<Rightarrow> (case (lookup p, r) of
          (Some (Dir m es), RVal d) \<Rightarrow> if e d = None then Some (e(d \<mapsto> es)) else None
        | _ \<Rightarrow> None)
    | Path (Readdir d) \<Rightarrow> (case e d of
          None \<Rightarrow> None
        | Some [] \<Rightarrow> if r = RNull then Some e else None
        | Some ((name, t) # es) \<Rightarrow> if r = RStrs [name, type_of t] then Some (e(d \<mapsto> es)) else None)
    | Path (Lstat p) \<Rightarrow> (case lookup p of None \<Rightarrow> None
        | Some t \<Rightarrow> if r = RInts [mode_of t] then Some e else None)
    | Path (Closedir d) \<Rightarrow> if r = RVal 0 then Some (e(d := None)) else None
    | _ \<Rightarrow> Some e)"

fun found_at :: "(string \<Rightarrow> ftree option) \<Rightarrow> string \<Rightarrow> ftree \<Rightarrow> bool" where
  \<comment> \<open>the tree is what \<open>lookup\<close> finds at the path, all the way down, and no path is too long\<close>
  "found_at lookup path (File t m) \<longleftrightarrow> lookup path = Some (File t m) \<and> t \<noteq> ''DT_DIR''"
| "found_at lookup path (Dir m es) \<longleftrightarrow> lookup path = Some (Dir m es)
     \<and> (\<forall>(name, t) \<in> set es. is_dot name \<or> length (entry_path path name) \<le> PATH_MAX \<and> found_at lookup (entry_path path name) t)"

definition walked :: "string \<Rightarrow> ftree \<Rightarrow> streams \<Rightarrow> world \<Rightarrow> int result \<Rightarrow> streams \<Rightarrow> world \<Rightarrow> bool" where
  "walked path t e w r e' w' = (case r of
      Return v \<Rightarrow> v = 1 \<and> e' = e \<and> obuf w' = obuf w @ concat (map shown_as (visits path t))
        \<and> length (script w') < length (script w)
    | Blocked \<Rightarrow> True | _ \<Rightarrow> False)"

definition walking :: "string \<Rightarrow> int \<Rightarrow> (string \<times> ftree) list \<Rightarrow> streams \<Rightarrow> world \<Rightarrow> streams \<Rightarrow> world \<Rightarrow> bool" where
  \<comment> \<open>some of the entries are done, the stream still has the others\<close>
  "walking path d es e w e' w' \<longleftrightarrow> (\<exists>past rest. es = past @ rest \<and> e' = e(d \<mapsto> rest)
     \<and> obuf w' = obuf w @ concat (map shown_as (visits path (Dir 0 past))) \<and> length (script w') < length (script w))"

lemma walkingI:
  "es = past @ rest \<Longrightarrow> e' = e(d \<mapsto> rest) \<Longrightarrow> obuf w' = obuf w @ concat (map shown_as (visits path (Dir 0 past))) \<Longrightarrow>
    length (script w') < length (script w) \<Longrightarrow> walking path d es e w e' w'"
  unfolding walking_def by blast

lemma walking_step:
  assumes "obuf w' = obuf w @ concat (map shown_as (visits path (Dir 0 past))) @ concat (map shown_as (visits path (Dir 0 [(name, t)])))"
    "length (script w') < length (script w)"
  shows "walking path d (past @ (name, t) # rest) e w (e(d \<mapsto> rest)) w'"
  by (rule walkingI[of _ "past @ [(name, t)]" rest]) (use assms in simp_all)

lemma appends_nftw_round [append_intros]: "appends (nftw_round (nftw n testFunc) d q testFunc u)"
  unfolding nftw_round_def nftw_entry_def Let_def by (intro append_intros)

lemma under_testFunc:
  assumes "\<And>w'. obuf w' = obuf w @ shown_as (p, m) \<Longrightarrow> script w' = script w \<Longrightarrow> Q (Return 0) e w'"
  shows "under K e (testFunc p (RInts [m])) Q w"
  unfolding testFunc_def by (intro under_printf under_ret assms) (simp_all add: shown_as_def st_mode_of_def)

lemma visits_snoc: "visits path (Dir m (es @ [(name, t)])) = visits path (Dir m es) @ visits path (Dir m [(name, t)])"
  by simp

lemma visits_mode: "visits path (Dir m es) = visits path (Dir 0 es)"
  by simp

definition round_post :: "string \<Rightarrow> int \<Rightarrow> (string \<times> ftree) list \<Rightarrow> streams \<Rightarrow> world \<Rightarrow> world \<Rightarrow>
    (unit + unit) result \<Rightarrow> streams \<Rightarrow> world \<Rightarrow> bool" where
  "round_post path d es e w w1 r e' w' = (case r of
      Return (Inl u) \<Rightarrow> walking path d es e w e' w' \<and> length (script w') < length (script w1)
    | Return (Inr u) \<Rightarrow> e' = e(d \<mapsto> []) \<and> errno w' = 0 \<and> obuf w' = obuf w @ concat (map shown_as (visits path (Dir 0 es)))
        \<and> length (script w') < length (script w)
    | Blocked \<Rightarrow> True | _ \<Rightarrow> False)"

lemma nftw_round_walks:
  assumes "walking path d es e w e1 w1" "found_at lookup path (Dir m es)" "length (script w1) \<le> n" "e d = None"
    "\<And>name t e w. (name, t) \<in> set es \<Longrightarrow> \<not> is_dot name \<Longrightarrow> type_of t = ''DT_DIR'' \<Longrightarrow> length (script w) < n \<Longrightarrow>
       under (walk_kernel lookup) e (nftw n testFunc (entry_path path name)) (walked (entry_path path name) t e w) w"
  shows "under (walk_kernel lookup) e1 (nftw_round (nftw n testFunc) d path testFunc u) (round_post path d es e w w1) w1"
proof -
  from assms(1) obtain past rest where st: "es = past @ rest" "e1 = e(d \<mapsto> rest)"
    "obuf w1 = obuf w @ concat (map shown_as (visits path (Dir 0 past)))" "length (script w1) < length (script w)"
    by (auto simp: walking_def)
  show ?thesis
    unfolding nftw_round_def
  proof (rule under_set_errno, rule under_call, goal_cases)
    case (3 r rs e2)
    show ?case
    proof (cases rest)
      case Nil
      with 3 st have "r = RNull" "e2 = e1" by (auto simp: walk_kernel_def split: if_splits)
      with Nil st show ?thesis
        using 3 by (auto intro!: under_leave simp: round_post_def reply_errno_def)
    next
      case (Cons ent rest')
      obtain name t where ent: "ent = (name, t)" by fastforce
      with 3 st Cons have r: "r = RStrs [name, type_of t]" "e2 = e(d \<mapsto> rest')"
        by (auto simp: walk_kernel_def split: if_splits)
      have es: "es = (past @ [(name, t)]) @ rest'" using st(1) Cons ent by simp
      have sc: "length rs < length (script w1)" using 3 by simp
      show ?thesis
      proof (cases "is_dot name")
        case True
        with es r 3 st sc show ?thesis
          by (auto intro!: under_again walking_step simp: round_post_def)
      next
        case False
        note plain = False
        let ?p = "entry_path path name"
        have here: "length ?p \<le> PATH_MAX" "found_at lookup ?p t" "(name, t) \<in> set es"
          using assms(2) es False by auto
        then have look: "lookup ?p = Some t" by (cases t) auto
        let ?go = "\<lambda>sb. seq (if type_of t = ''DT_DIR'' then seq (nftw n testFunc ?p) (\<lambda>_. testFunc ?p sb) else testFunc ?p sb)
            (\<lambda>v. if v = 1 then leave () else again ())"
        have done': "round_post path d es e w w1 (Return (Inl ())) (e(d \<mapsto> rest')) w3"
          if "obuf w3 = obuf w1 @ concat (map shown_as (visits path (Dir 0 [(name, t)])))" "length (script w3) < length (script w1)" for w3
          using that es st(3,4) False unfolding round_post_def
          by (auto intro!: walking_step)
        have leaf: "under (walk_kernel lookup) (e(d \<mapsto> rest')) (seq (testFunc ?p (RInts [mode_of t])) (\<lambda>v. if v = 1 then leave () else again ()))
            (round_post path d es e w w1) w3"
          if "obuf w3 = obuf w1 @ concat (map shown_as (visits ?p t))" "length (script w3) < length (script w1)" for w3
          using that False by (intro under_seq append_intros under_testFunc) (auto intro!: under_again done')
        have "under (walk_kernel lookup) (e(d \<mapsto> rest')) (?go (RInts [mode_of t])) (round_post path d es e w w1) w3"
          if w3: "obuf w3 = obuf w1" "length (script w3) < length (script w1)" for w3
        proof (cases "type_of t = ''DT_DIR''")
          case True
          have "under (walk_kernel lookup) (e(d \<mapsto> rest')) (nftw n testFunc ?p) (walked ?p t (e(d \<mapsto> rest')) w3) w3"
            by (rule assms(5)[OF here(3) False True]) (use w3(2) assms(3) in simp)
          then have "under (walk_kernel lookup) (e(d \<mapsto> rest'))
              (seq (nftw n testFunc ?p) (\<lambda>_. testFunc ?p (RInts [mode_of t])))
              (lift_under (\<lambda>v e w1. under (walk_kernel lookup) e (if v = 1 then leave () else again ()) (round_post path d es e0 w0 w1') w1)
                 (round_post path d es e0 w0 w1')) w3" if "e0 = e" "w0 = w" "w1' = w1" for e0 w0 w1'
          proof (rule under_seq[OF under_mono], goal_cases)
            case (1 r e3 w4)
            then show ?case using w3 that plain
              by (cases r) (auto simp: walked_def round_post_def intro!: under_testFunc under_again done')
          qed (intro append_intros)
          from this[OF refl refl refl] show ?thesis
            using True by simp (rule under_seq, assumption, intro append_intros)
        next
          case False
          then have "visits ?p t = []" by (cases t) auto
          with leaf[of w3] w3 False show ?thesis by simp
        qed
        note go = this
        show ?thesis
          unfolding r using plain here(1)
        proof (simp add: nftw_entry_def Let_def, intro impI conjI under_call, goal_cases)
          case (3 sb rs' e3)
          then have "sb = RInts [mode_of t]" "e3 = e(d \<mapsto> rest')" by (simp_all add: walk_kernel_def look split: if_splits)
          then show ?case using 3 sc go by (cases "type_of t = ''DT_DIR''") (simp_all add: rv_def)
        qed (auto simp: round_post_def intro!: append_intros)
      qed
    qed
  qed (auto simp: round_post_def nftw_entry_def Let_def intro!: append_intros)
qed

lemma nftw_walks:
  "found_at lookup path t \<Longrightarrow> type_of t = ''DT_DIR'' \<Longrightarrow> length (script w) < n \<Longrightarrow>
    under (walk_kernel lookup) e (nftw n testFunc path) (walked path t e w) w"
proof (induction path t arbitrary: n e w rule: visits.induct)
  case (2 path m es)
  from "2.prems"(3) obtain k where n: "n = Suc k" by (cases n) auto
  show ?case
    unfolding n nftw.simps
  proof (rule under_call, goal_cases)
    case (3 r rs e1)
    with "2.prems"(1) obtain d where d: "r = RVal d" "e d = None" "e1 = e(d \<mapsto> es)"
      by (auto simp: walk_kernel_def split: reply.splits if_splits)
    let ?w = "w\<lparr>script := rs, trace := trace w @ [(Path (Opendir path), r)], errno := reply_errno r (errno w)\<rparr>"
    have start: "walking path d es e w e1 ?w"
      by (rule walkingI[of _ "[]" es]) (use 3 d in simp_all)
    have "under (walk_kernel lookup) e1 (loop (nftw_round (nftw k testFunc) d path testFunc) ())
      (lift_under (\<lambda>_ e w. under (walk_kernel lookup) e (call (Path (Closedir d))
           (\<lambda>_. get errno (\<lambda>n. if n \<noteq> 0 then ret (-1) else ret 1))) (walked path (Dir m es) e0 w0) w) (walked path (Dir m es) e0 w0)) ?w"
      if "e0 = e" "w0 = w" for e0 w0
    proof (rule under_loop_decreasing[where I = "\<lambda>_. walking path d es e w"], rule start, goal_cases)
      case (2 u e2 w2)
      have "length (script w2) \<le> k" using 2(2) "2.prems"(3) 3 n by simp
      from nftw_round_walks[OF 2(1) "2.prems"(1) this d(2)] show ?case
      proof (rule under_mono, goal_cases)
        case (1 name t e3 w3)
        then show ?case using "2.IH" "2.prems"(1) by fastforce
      next
        case (2 r e3 w3)
        show ?case
        proof (cases r)
          case (Return x)
          show ?thesis
          proof (cases x)
            case (Inr v)
            with 2 Return have w3: "e3 = e(d \<mapsto> [])" "errno w3 = 0" "length (script w3) < length (script w)"
              "obuf w3 = obuf w @ concat (map shown_as (visits path (Dir 0 es)))"
              by (simp_all add: round_post_def)
            have e: "(e(d \<mapsto> []))(d := None) = e" using d(2) by (simp add: fun_upd_idem)
            show ?thesis
              unfolding Return Inr
              by simp (rule under_call, use w3 e that in \<open>auto simp: walk_kernel_def walked_def reply_errno_def
                intro!: append_intros under_get under_ret split: if_splits\<close>)
          qed (use 2 Return in \<open>simp add: round_post_def\<close>)
        qed (use 2 in \<open>simp_all add: round_post_def walked_def\<close>)
      qed
    qed (intro append_intros)
    then show ?case using d by (auto simp: is_null_reply_def rv_def intro!: under_seq append_intros)
  qed (auto simp: walked_def intro!: append_intros)
qed simp

section \<open>Properties\<close>

text \<open>C36: 
  C1: On every tree of directories, whatever numbers the streams get and in whatever order the entries are delivered,
  \<open>imp_nftw\<close> comes back with 1 and \<open>testFunc\<close> has printed a line for every entry below the directory, each
  directory after everything in it; every stream is closed again. (The directory itself is not visited, unlike by \<open>nftw\<close>.)
\<close>

theorem imp_nftw_visits_all:
  assumes "found_at lookup path (Dir m es)" "imp_nftw path testFunc w = (r, w')" "trace w' = trace w @ t"
    "run (walk_kernel lookup) Map.empty t = Some e'"
  shows "r = Blocked \<or> r = Return 1 \<and> e' = Map.empty \<and> obuf w' = obuf w @ concat (map shown_as (visits path (Dir m es)))"
proof -
  have "under (walk_kernel lookup) Map.empty (imp_nftw path testFunc) (walked path (Dir m es) Map.empty w) w"
    unfolding imp_nftw_def by (rule under_get, rule nftw_walks[OF assms(1)]) simp_all
  from underD[OF this assms(2)] obtain u where "trace w' = trace w @ u"
    "\<And>e'. run (walk_kernel lookup) Map.empty u = Some e' \<Longrightarrow> walked path (Dir m es) Map.empty w r e' w'" by blast
  with assms(3,4) have "walked path (Dir m es) Map.empty w r e' w'" by simp
  then show ?thesis by (cases r) (auto simp: walked_def)
qed

definition demo_lookup :: "string \<Rightarrow> ftree option" where
  "demo_lookup = [''d'' \<mapsto> Dir 16877 [(''.'', Dir 16877 []), (''e'', Dir 16877 [(''f'', File ''DT_REG'' 33188)])],
     ''d/e'' \<mapsto> Dir 16877 [(''f'', File ''DT_REG'' 33188)], ''d/e/f'' \<mapsto> File ''DT_REG'' 33188]"

definition demo_script :: "reply list" where
  "demo_script = [RVal 5, RStrs [''.'', ''DT_DIR''], RStrs [''e'', ''DT_DIR''], RInts [16877],
     RVal 6, RStrs [''f'', ''DT_REG''], RInts [33188], RNull, RVal 0, RNull, RVal 0]"

definition demo_walk :: "int result \<times> world" where
  "demo_walk = imp_nftw ''d'' testFunc (booted demo_script)"

lemma demo_walk_conforms: "run (walk_kernel demo_lookup) Map.empty (trace (snd demo_walk)) \<noteq> None" "fst demo_walk \<noteq> Blocked"
  by code_simp+

lemma imp_nftw_visits_all_witness:
  "obuf (snd demo_walk) = ''- d/e/f'' @ [NL] @ ''d d/e'' @ [NL]"
proof -
  from demo_walk_conforms(1) obtain e' where e': "run (walk_kernel demo_lookup) Map.empty (trace (snd demo_walk)) = Some e'" by blast
  have "fst demo_walk = Blocked \<or> fst demo_walk = Return 1 \<and> e' = Map.empty \<and> obuf (snd demo_walk) =
    obuf (booted demo_script) @ concat (map shown_as (visits ''d'' (Dir 16877 [(''.'', Dir 16877 []), (''e'', Dir 16877 [(''f'', File ''DT_REG'' 33188)])])))"
  proof (rule imp_nftw_visits_all[where lookup = demo_lookup and t = "trace (snd demo_walk)"])
    show "found_at demo_lookup ''d'' (Dir 16877 [(''.'', Dir 16877 []), (''e'', Dir 16877 [(''f'', File ''DT_REG'' 33188)])])"
      by (simp add: demo_lookup_def is_dot_def entry_path_def PATH_MAX_def)
  qed (use e' in \<open>simp_all add: demo_walk_def\<close>)
  with demo_walk_conforms(2) show ?thesis by (simp add: is_dot_def entry_path_def shown_as_def file_kind_def S_IFMT_def)
qed

end
