(* ===== verification/Getcwd.thy ===== *)
theory Getcwd
  imports Nftw
begin

text \<open>
  \<open>18_Directories_And_Links/imp_getcwd.c\<close>: finds the path of the current directory by climbing to the root, looking in
  every parent for the entry it came from. \<open>stat\<close> is answered with the device and the inode, \<open>readdir\<close> with a name.
\<close>

section \<open>imp\_getcwd\<close>

definition ENAMETOOLONG :: int where "ENAMETOOLONG = 36"

definition NAME_MAX :: nat where "NAME_MAX = 255"

definition inode_of :: "reply \<Rightarrow> int list" where
  \<comment> \<open>\<open>st_dev\<close> and \<open>st_ino\<close>\<close>
  "inode_of r = (case r of RInts is \<Rightarrow> take 2 is | _ \<Rightarrow> [])"

type_synonym climb = "string vec \<times> nat \<times> cstate"   \<comment> \<open>\<open>pathComponents\<close>, \<open>pathLength\<close>\<close>

definition find_name :: "int \<Rightarrow> int list \<Rightarrow> climb \<Rightarrow> unit \<Rightarrow> (unit + climb option) prog" where
  \<comment> \<open>a round of the loop over the parent's entries; leaves with \<open>None\<close> for \<open>return NULL\<close>\<close>
  "find_name dir current cl u = (case cl of (comps, pathLength, st) \<Rightarrow>
     set_errno 0 (call (Path (Readdir dir)) (\<lambda>entry.
       if is_null_reply entry then leave (Some cl)
       else if is_dot (bytes entry) then again ()
       else call (Path (Stat (bytes entry))) (\<lambda>sb.
         if rv sb = -1 then leave None
         else if inode_of sb = current then
           checked (vec_push (bytes entry) comps st) (\<lambda>(comps', st').
             if NAME_MAX < length (bytes entry) then stop (Fault Buffer_overflow)
             else leave (Some (comps', pathLength + length (bytes entry) + 1, st')))
         else again ()))))"

definition climb_round :: "climb \<Rightarrow> (climb + climb option) prog" where
  "climb_round cl =
     call (Path (Stat ''.'')) (\<lambda>current. if rv current = -1 then leave None else
     call (Path (Chdir ''..'')) (\<lambda>c. if rv c = -1 then leave None else
     call (Path (Stat ''.'')) (\<lambda>parent. if rv parent = -1 then leave None else
       if inode_of current = inode_of parent then leave (Some cl)
       else call (Path (Opendir ''.'')) (\<lambda>dir.
         if is_null_reply dir then leave None
         else seq (loop (find_name (rv dir) (inode_of current) cl) ()) (\<lambda>found.
           case found of None \<Rightarrow> leave None
           | Some cl' \<Rightarrow> or_die (Path (Closedir (rv dir))) ''closedir'' (\<lambda>_.
               get errno (\<lambda>e. if e \<noteq> 0 then errExit ''readdir'' else again cl')))))))"

definition path_of :: "string list \<Rightarrow> string" where
  \<comment> \<open>the components from the root on, each behind a slash; the root itself is a slash\<close>
  "path_of comps = (if comps = [] then ''/'' else concat (map (\<lambda>c. ''/'' @ c) comps))"

definition imp_getcwd :: "nat \<Rightarrow> cstate \<Rightarrow> string option prog" where
  \<comment> \<open>the content of \<open>cwdbuf\<close>, of \<open>bufsize\<close> bytes, or \<open>None\<close> for a null pointer\<close>
  "imp_getcwd bufsize st = call (Path (Getcwd PATH_MAX)) (\<lambda>cwd.
     if is_null_reply cwd then ret None
     else seq (loop climb_round (vec_init, 1, st)) (\<lambda>res. case res of
         None \<Rightarrow> ret None
       | Some (comps, pathLength, st') \<Rightarrow>
           if bufsize < pathLength then set_errno ERANGE (ret None)
           else if PATH_MAX \<le> pathLength then set_errno ENAMETOOLONG (ret None)
           else let path = path_of (rev (elems comps)) in
             if bufsize \<le> length path then stop (Fault Buffer_overflow)
             else or_die (Path (Chdir (bytes cwd))) ''chdir'' (\<lambda>_. ret (Some path))))"

section \<open>A file system\<close>

record walk_state =
  cwd :: "string list"
  left :: "string list"     \<comment> \<open>what the open stream still has to deliver\<close>

text \<open>\<open>kids\<close> lists a directory, \<open>inode\<close> gives device and inode of what is at a path, or nothing where \<open>stat\<close> fails, as
  it does for a symbolic link that leads nowhere.\<close>

type_synonym inodes = "string list \<Rightarrow> (int \<times> int) option"

definition stat_answer :: "(int \<times> int) option \<Rightarrow> reply \<Rightarrow> bool" where
  "stat_answer i r = (case i of None \<Rightarrow> rv r = -1 | Some (d, n) \<Rightarrow> r = RInts [d, n])"

lemma stat_answer_simps [simp]: "stat_answer None r \<longleftrightarrow> rv r = -1" "stat_answer (Some (d, n)) r \<longleftrightarrow> r = RInts [d, n]"
  by (simp_all add: stat_answer_def)



definition cannot_stat :: "inodes \<Rightarrow> string list \<Rightarrow> string list \<Rightarrow> bool" where
  \<comment> \<open>one of these entries of the directory \<open>q\<close>\<close>
  "cannot_stat inode q names \<longleftrightarrow> (\<exists>name \<in> set names. \<not> is_dot name \<and> inode (q @ [name]) = None)"

lemma cannot_stat_simps [simp]:
  "\<not> cannot_stat inode q []"
  "cannot_stat inode q (name # names) \<longleftrightarrow> \<not> is_dot name \<and> inode (q @ [name]) = None \<or> cannot_stat inode q names"
  by (auto simp: cannot_stat_def)



section \<open>Climbing\<close>

lemma ends_find_name [fuel_intros]: "rounds (find_name d i cl u)"
  unfolding find_name_def by (intro fuel_intros; simp)

lemma appends_find_name [append_intros]: "appends (find_name d i cl u)"
  unfolding find_name_def by (intro append_intros)

lemma ends_climb_round [fuel_intros]: "rounds (climb_round cl)"
  unfolding climb_round_def by (intro fuel_intros; simp)

lemma appends_climb_round [append_intros]: "appends (climb_round cl)"
  unfolding climb_round_def by (intro append_intros)

lemma ends_imp_getcwd [fuel_intros]: "shrinks (imp_getcwd n st)"
  unfolding imp_getcwd_def by (intro fuel_intros; simp)



definition weight :: "string list \<Rightarrow> nat" where
  "weight cs = sum_list (map (\<lambda>c. length c + 1) cs)"




lemma length_path_of: "length (path_of cs) = (if cs = [] then 1 else weight cs)"
proof -
  have "length (concat (map ((@) ''/'') cs)) = weight cs"
    by (induction cs) (simp_all add: weight_def)
  then show ?thesis by (simp add: path_of_def)
qed

lemma path_of_absolute [simp]: "path_of cs \<noteq> ''..''"
  by (cases cs) (simp_all add: path_of_def)

section \<open>Properties\<close>








end
