(* ===== verification/Realpath.thy ===== *)
theory Realpath
  imports Getcwd
begin

unbundle bit_operations_syntax

text \<open>
  \<open>18_Directories_And_Links/imp_realpath.c\<close>: a path resolved by changing to its directory and asking where that is,
  with the \<open>dirname\<close> and \<open>basename\<close> of the C library.
\<close>

section \<open>libgen\<close>

definition strip_slashes :: "string \<Rightarrow> string" where
  "strip_slashes s = rev (dropWhile (\<lambda>c. c = CHR ''/'') (rev s))"

definition libgen_basename :: "string \<Rightarrow> string" where
  "libgen_basename s = (if s = [] then ''.'' else let t = strip_slashes s in
     if t = [] then ''/'' else rev (takeWhile (\<lambda>c. c \<noteq> CHR ''/'') (rev t)))"

definition libgen_dirname :: "string \<Rightarrow> string" where
  "libgen_dirname s = (if s = [] then ''.'' else let t = strip_slashes s in
     if t = [] then ''/''
     else let d = rev (dropWhile (\<lambda>c. c \<noteq> CHR ''/'') (rev t)) in
       if d = [] then ''.'' else if strip_slashes d = [] then ''/'' else strip_slashes d)"

section \<open>imp\_realpath\<close>

definition S_IFLNK :: int where "S_IFLNK = 40960"
definition ENOTDIR :: int where "ENOTDIR = 20"

definition chDir :: "string \<Rightarrow> string option \<Rightarrow> string option prog" where
  \<comment> \<open>the content of \<open>resolved_path\<close>, changed on success only; the result is not looked at\<close>
  "chDir pathname resolved_path =
     (if PATH_MAX < length pathname then stop (Fault Buffer_overflow)
      else call (Path (Chdir (libgen_dirname pathname))) (\<lambda>c.
        if rv c = -1 then ret resolved_path
        else call (Path (Getcwd (PATH_MAX + 1))) (\<lambda>cwd.
          if is_null_reply cwd then ret resolved_path
          else let p = bytes cwd @ ''/'' @ libgen_basename pathname in
            if PATH_MAX < length p then stop (Fault Buffer_overflow) else ret (Some p))))"

fun realpath_rec :: "nat \<Rightarrow> string \<Rightarrow> string option \<Rightarrow> (bool \<times> string option) prog" where
  \<comment> \<open>\<open>False\<close> for a null pointer, and the content of \<open>resolved_path\<close>, \<open>None\<close> while it is not initialised\<close>
  "realpath_rec 0 pathname resolved_path = stop No_fuel"
| "realpath_rec (Suc n) pathname resolved_path =
     call (Path (Getcwd (PATH_MAX + 1))) (\<lambda>cwd.
       if is_null_reply cwd then ret (False, resolved_path)
       else
         let finish = (\<lambda>resolved. call (Path (Chdir (bytes cwd))) (\<lambda>c. ret (rv c \<noteq> -1, resolved))) in
         call (Path (Chdir pathname)) (\<lambda>c.
           if rv c = -1 then get errno (\<lambda>e.
             if e \<noteq> ENOTDIR then ret (False, resolved_path)
             else call (Path (Lstat pathname)) (\<lambda>sb.
               if rv sb = -1 then ret (False, resolved_path)
               else if st_mode_of sb AND S_IFMT = S_IFLNK then
                 call (Path (Readlink pathname (PATH_MAX + 1))) (\<lambda>l.
                   if rv l = -1 then ret (False, resolved_path)
                   else if PATH_MAX < length (bytes l) \<or> PATH_MAX < length pathname then stop (Fault Buffer_overflow)
                   else call (Path (Chdir (libgen_dirname pathname))) (\<lambda>d.
                     if rv d = -1 then ret (False, resolved_path)
                     else seq (realpath_rec n (c_str (bytes l)) resolved_path) (\<lambda>(ok, resolved). finish resolved)))
               else seq (chDir pathname resolved_path) finish))
           else call (Path (Getcwd (PATH_MAX + 1))) (\<lambda>real.
             if is_null_reply real then ret (False, resolved_path) else finish (Some (bytes real)))))"

definition imp_realpath :: "string \<Rightarrow> string option \<Rightarrow> (bool \<times> string option) prog" where
  \<comment> \<open>every level asks for the current directory: there are not more levels than replies, and one\<close>
  "imp_realpath pathname resolved_path = get (\<lambda>w. Suc (length (script w))) (\<lambda>n. realpath_rec n pathname resolved_path)"

definition realpath_main :: "int prog" where
  "realpath_main = seq (imp_realpath ''/home//////'' None) (\<lambda>(ok, resolved).
     if \<not> ok then errExit ''imp_realpath''
     else case resolved of None \<Rightarrow> stop (Fault Uninitialised) | Some p \<Rightarrow> printf (p @ [NL]) (ret 0))"

section \<open>The current directory\<close>

definition cwd_kernel :: "(string \<Rightarrow> string \<Rightarrow> string) \<Rightarrow> string \<Rightarrow> syscall \<Rightarrow> reply \<Rightarrow> string option" where
  \<comment> \<open>\<open>move d p\<close> is where \<open>chdir(p)\<close> leads from \<open>d\<close>, when it succeeds\<close>
  "cwd_kernel move d c r = (case c of
      Path (Getcwd n) \<Rightarrow> if is_null_reply r \<or> r = RData d then Some d else None
    | Path (Chdir p) \<Rightarrow> if rv r = -1 then Some d else Some (move d p)
    | _ \<Rightarrow> Some d)"

definition canonical_moves :: "(string \<Rightarrow> string \<Rightarrow> string) \<Rightarrow> string set \<Rightarrow> bool" where
  \<comment> \<open>\<open>chdir\<close> leads to directories, and back to one by its path\<close>
  "canonical_moves move D \<longleftrightarrow> (\<forall>d \<in> D. \<forall>p. move d p \<in> D) \<and> (\<forall>d \<in> D. \<forall>e \<in> D. move d e = e)"

definition resolved_to :: "string set \<Rightarrow> string option \<Rightarrow> string option \<Rightarrow> bool" where
  \<comment> \<open>the path of a directory, or of an entry of one, or the buffer as it was\<close>
  "resolved_to D buf x \<longleftrightarrow> x = buf \<or> (\<exists>d\<in>D. x = Some d \<or> (\<exists>q. x = Some (d @ ''/'' @ libgen_basename q)))"

lemma resolved_toI: "resolved_to D buf buf" "d \<in> D \<Longrightarrow> resolved_to D buf (Some d)"
  "d \<in> D \<Longrightarrow> resolved_to D buf (Some (d @ CHR ''/'' # libgen_basename q))"
  by (auto simp: resolved_to_def)

definition stays :: "string set \<Rightarrow> string option \<Rightarrow> string \<Rightarrow> (bool \<times> string option) result \<Rightarrow> string \<Rightarrow> bool" where
  "stays D buf d r d' \<longleftrightarrow> d' \<in> D
     \<and> (case r of Return (ok, resolved) \<Rightarrow> resolved_to D buf resolved \<and> (if ok then d' = d else True) | _ \<Rightarrow> True)"

lemma bytes_RData: "bytes (RData s) = s"
  by (simp add: bytes_def)

lemma appends_chDir [append_intros]: "appends (chDir p r)"
  unfolding chDir_def Let_def by (intro append_intros)

lemma appends_realpath [append_intros]: "appends (realpath_rec n p r)"
proof (induction n arbitrary: p r)
  case (Suc n)
  show ?case unfolding realpath_rec.simps Let_def by (intro append_intros Suc.IH)
qed (simp add: append_intros)

lemma stays_any: "d' \<in> D \<Longrightarrow> (\<forall>x. r \<noteq> Return x) \<Longrightarrow> stays D buf d r d'"
  by (auto simp: stays_def split: result.splits)

lemma realpath_finishes:
  assumes "canonical_moves move D" "d \<in> D" "d' \<in> D" "bytes here = d"
    "resolved_to D buf resolved"
  shows "under (cwd_kernel move) d' (call (Path (Chdir (bytes here))) (\<lambda>c. ret (rv c \<noteq> -1, resolved))) (\<lambda>r e w. stays D buf d r e) w"
  by (rule under_call) (use assms in \<open>auto simp: cwd_kernel_def stays_def canonical_moves_def intro!: append_intros under_ret split: if_splits\<close>)

lemma chDir_moves:
  assumes "canonical_moves move D" "d \<in> D"
  shows "under (cwd_kernel move) d (chDir p buf) (\<lambda>r e w. e \<in> D \<and> (\<forall>x. r = Return x \<longrightarrow> resolved_to D buf x)) w"
  unfolding chDir_def Let_def
  using assms by (auto simp: cwd_kernel_def canonical_moves_def bytes_RData intro!: resolved_toI under_stop under_call append_intros under_ret split: if_splits)

lemma cwd_kernel_simps:
  "cwd_kernel move d (Path (Lstat p)) r = Some d" "cwd_kernel move d (Path (Readlink p n)) r = Some d"
  "cwd_kernel move d (Path (Chdir p)) r = Some (if rv r = -1 then d else move d p)"
  "cwd_kernel move d (Path (Getcwd n)) r = (if is_null_reply r \<or> r = RData d then Some d else None)"
  by (simp_all add: cwd_kernel_def)

lemma realpath_stays:
  assumes "canonical_moves move D"
  shows "d \<in> D \<Longrightarrow> under (cwd_kernel move) d (realpath_rec n p buf) (\<lambda>r e w. stays D buf d r e) w"
proof (induction n arbitrary: p buf d w)
  case 0
  then show ?case by (simp, intro under_stop stays_any) simp_all
next
  case (Suc n)
  have no: "under (cwd_kernel move) d' (ret (False, buf)) (\<lambda>r e w. stays D buf d r e) w" if "d' \<in> D" for d' w
    by (rule under_ret) (use that in \<open>simp add: stays_def resolved_to_def\<close>)
  have D: "move d' q \<in> D" if "d' \<in> D" for d' q using assms that by (simp add: canonical_moves_def)
  have blocked: "stays D buf d Blocked d'" if "d' \<in> D" for d' using that by (simp add: stays_def)
  show ?case
    unfolding realpath_rec.simps
  proof (rule under_call, goal_cases)
    case 1
    show ?case by (intro append_intros)
  next
    case (3 here rs d1)
    then have here: "d1 = d" "is_null_reply here \<or> bytes here = d"
      by (auto simp: cwd_kernel_def bytes_def split: if_splits)
    show ?case
    proof (cases "is_null_reply here")
      case False
      then have b: "bytes here = d" using here(2) by simp
      note fin = realpath_finishes[OF assms Suc.prems _ b]
      have rec: "under (cwd_kernel move) d' (seq (realpath_rec n q buf) (\<lambda>(ok, resolved). call (Path (Chdir (bytes here))) (\<lambda>c. ret (rv c \<noteq> -1, resolved))))
          (\<lambda>r e w. stays D buf d r e) w" if "d' \<in> D" for d' q w
      proof (rule under_seq, rule under_mono[OF Suc.IH[OF that]], goal_cases)
        case (1 r e w)
        then show ?case by (cases r) (auto simp: stays_def[of D buf d'] intro!: fin stays_any split: prod.splits)
      qed (auto intro!: append_intros)
      have dir: "under (cwd_kernel move) d' (seq (chDir p buf) (\<lambda>resolved. call (Path (Chdir (bytes here))) (\<lambda>c. ret (rv c \<noteq> -1, resolved))))
          (\<lambda>r e w. stays D buf d r e) w" if "d' \<in> D" for d' w
      proof (rule under_seq, rule under_mono[OF chDir_moves[OF assms that]], goal_cases)
        case (1 r e w)
        then show ?case by (cases r) (auto intro!: fin stays_any)
      qed (auto intro!: append_intros)
      show ?thesis
        unfolding if_not_P[OF False] Let_def here(1)
      proof (rule under_call, goal_cases)
        case (3 c rs2 d2)
        then have d2: "d2 \<in> D" "rv c = -1 \<Longrightarrow> d2 = d" using Suc.prems D by (auto simp: cwd_kernel_def split: if_splits)
        show ?case
        proof (cases "rv c = -1")
          case True
          then show ?thesis
            using d2(1)
            by (auto simp: cwd_kernel_simps intro!: no rec dir blocked stays_any D under_get under_call under_stop append_intros
              split: if_splits)
        next
          case False
          then show ?thesis
            using d2(1)
            by (auto simp: cwd_kernel_simps bytes_RData intro!: no blocked under_call append_intros fin resolved_toI split: if_splits)
        qed
      qed (use Suc.prems blocked in \<open>auto intro!: append_intros\<close>)
    qed (use here no Suc.prems in simp)
  qed (use Suc.prems blocked in simp_all)
qed

text \<open>
  C1: when \<open>imp_realpath\<close> succeeds, the process is in the directory it was in before, and the buffer holds the path of a
  directory of the system, or of an entry of one by the base name of a path, or is as it was: the results of the inner
  call and of \<open>chDir\<close> are not looked at, so a path that cannot be resolved may count as a success with nothing written.
\<close>

theorem imp_realpath_stays:
  assumes "canonical_moves move D" "d \<in> D" "imp_realpath pathname buf w = (Return (ok, resolved), w')"
    "trace w' = trace w @ t" "run (cwd_kernel move) d t = Some d'"
  shows "d' \<in> D \<and> resolved_to D buf resolved \<and> (ok \<longrightarrow> d' = d)"
proof -
  have "realpath_rec (Suc (length (script w))) pathname buf w = (Return (ok, resolved), w')"
    using assms(3) by (simp add: imp_realpath_def get_def)
  from underD[OF realpath_stays[OF assms(1,2)] this] obtain u
    where u: "trace w' = trace w @ u" "\<And>e'. run (cwd_kernel move) d u = Some e' \<Longrightarrow> stays D buf d (Return (ok, resolved)) e'"
    by blast
  have "u = t" using u(1) assms(4) by simp
  with u(2) assms(5) have "stays D buf d (Return (ok, resolved)) d'" by blast
  then show ?thesis using assms(2) by (cases ok) (simp_all add: stays_def)
qed

definition demo_move :: "string \<Rightarrow> string \<Rightarrow> string" where
  "demo_move d p = (if p = ''/a'' \<or> d = ''/a'' \<and> p \<noteq> ''/'' then ''/a'' else ''/'')"

definition demo_replies :: "reply list" where
  \<comment> \<open>\<open>/a/l\<close> is a link to \<open>gone\<close>, which is not there\<close>
  "demo_replies = [RData ''/'', RErr ENOTDIR, RInts [40960], RData ''gone'', RVal 0, RData ''/a'', RErr ENOENT, RVal 0]"

definition demo_resolve :: "(bool \<times> string option) result \<times> world" where
  "demo_resolve = imp_realpath ''/a/l'' None (booted demo_replies)"

lemma demo_resolves: "fst demo_resolve = Return (True, None)"
  "run (cwd_kernel demo_move) ''/'' (trace (snd demo_resolve)) = Some ''/''"
  by code_simp+

lemma imp_realpath_stays_witness:
  "canonical_moves demo_move {''/'', ''/a''} \<and> fst demo_resolve = Return (True, None) \<and> resolved_to {''/'', ''/a''} None None"
proof -
  have c: "canonical_moves demo_move {''/'', ''/a''}" by (simp add: canonical_moves_def demo_move_def)
  have r: "imp_realpath ''/a/l'' None (booted demo_replies) = (Return (True, None), snd demo_resolve)"
    using demo_resolves(1) by (simp add: demo_resolve_def prod_eq_iff del: One_nat_def)
  have "(''/'' :: string) \<in> {''/'', ''/a''} \<and> resolved_to {''/'', ''/a''} None None \<and> (True \<longrightarrow> (''/'' :: string) = ''/'')"
    by (rule imp_realpath_stays[OF c _ r _ demo_resolves(2)]) simp_all
  with c demo_resolves(1) show ?thesis by blast
qed

end
