(* ===== verification/Bounded.thy ===== *)
theory Bounded
  imports Realpath
begin

text \<open>
  Recursion that has as much fuel as there are replies left: \<open>imp_nftw\<close> and \<open>imp_realpath\<close> ask the kernel on every
  level. \<open>within n p\<close>: \<open>p\<close> ends when at most \<open>n\<close> replies are left.\<close>

definition ended_well :: "world \<Rightarrow> 'a result \<Rightarrow> world \<Rightarrow> bool" where
  "ended_well w r w' \<longleftrightarrow> r \<noteq> No_fuel \<and> length (script w') \<le> length (script w)"

definition within :: "nat \<Rightarrow> 'a prog \<Rightarrow> bool" where
  "within n p \<longleftrightarrow> (\<forall>w. length (script w) \<le> n \<longrightarrow> wp p (ended_well w) w)"

named_theorems within_intros "programs that end when few replies are left"

lemma within_shrinks: "shrinks p \<Longrightarrow> within n p"
  by (auto simp: within_def shrinks_def ended_well_def[abs_def])

lemma shrinks_within: "(\<And>n. within n p) \<Longrightarrow> shrinks p"
  unfolding within_def shrinks_def ended_well_def[abs_def] by blast

lemma within_mono: "within n p \<Longrightarrow> m \<le> n \<Longrightarrow> within m p"
  unfolding within_def by simp

lemma within_call [within_intros]: "(\<And>r m. n = Suc m \<Longrightarrow> within m (k r)) \<Longrightarrow> within n (call c k)"
  unfolding within_def wp_call
proof (intro allI impI conjI, goal_cases)
  case (1 w)
  then show ?case by (simp add: ended_well_def)
next
  case (2 w r rs)
  then obtain m where n: "n = Suc m" "length rs \<le> m" by (cases n) auto
  from 2(1)[OF n(1), rule_format] show ?case by (rule wp_mono) (use 2 n in \<open>auto simp: ended_well_def\<close>)
qed

lemma within_get [within_intros]: "(\<And>x. within n (k x)) \<Longrightarrow> within n (get f k)"
  by (simp add: within_def wp_get)

lemma within_set_errno [within_intros]: "within n k \<Longrightarrow> within n (set_errno e k)"
  unfolding within_def wp_set_errno
proof (intro allI impI)
  fix w :: world
  assume "\<forall>w. length (script w) \<le> n \<longrightarrow> wp k (ended_well w) w" "length (script w) \<le> n"
  then have "wp k (ended_well (w\<lparr>errno := e\<rparr>)) (w\<lparr>errno := e\<rparr>)" by simp
  then show "wp k (ended_well w) (w\<lparr>errno := e\<rparr>)" by (simp add: ended_well_def[abs_def])
qed

lemma within_seq [within_intros]:
  assumes "within n p" "\<And>x. within n (k x)"
  shows "within n (seq p k)"
  unfolding within_def wp_seq
proof (intro allI impI)
  fix w :: world
  assume w: "length (script w) \<le> n"
  show "wp p (lift (\<lambda>x. wp (k x) (ended_well w)) (ended_well w)) w"
  proof (rule wp_mono[OF assms(1)[unfolded within_def, rule_format, OF w]])
    fix r :: "'a result" and w1 :: world
    assume e: "ended_well w r w1"
    have "wp (k x) (ended_well w) w1" for x
      by (rule wp_mono[OF assms(2)[unfolded within_def, rule_format]]) (use e w in \<open>auto simp: ended_well_def\<close>)
    then show "lift (\<lambda>x. wp (k x) (ended_well w)) (ended_well w) r w1" using e by (cases r) (auto simp: ended_well_def)
  qed
qed

lemma within_loop:
  assumes "\<And>s w. length (script w) \<le> n \<Longrightarrow> wp (body s) (\<lambda>r w'. ended_well w r w'
      \<and> (\<forall>x. r = Return (Inl x) \<longrightarrow> length (script w') < length (script w))) w"
  shows "within n (loop body s)"
  unfolding within_def
proof (intro allI impI)
  fix w :: world
  assume w: "length (script w) \<le> n"
  show "wp (loop body s) (ended_well w) w"
    by (rule loop_rule[where I = "\<lambda>_ w1. length (script w1) \<le> length (script w)"])
      (use assms w in \<open>auto simp: ended_well_def intro!: wp_mono[OF assms(1)] split: result.splits sum.splits\<close>)
qed

lemma within_loop_call:
  assumes "\<And>s r m. n = Suc m \<Longrightarrow> within m (k s r)"
  shows "within n (loop (\<lambda>s. set_errno e (call (c s) (k s))) s)"
proof (rule within_loop)
  fix s and w :: world
  assume w: "length (script w) \<le> n"
  have "wp (k s r) (\<lambda>r' w'. ended_well w r' w' \<and> (\<forall>x. r' = Return (Inl x) \<longrightarrow> length (script w') < length (script w)))
      (w\<lparr>errno := e1, script := rs, trace := t, errno := e2\<rparr>)" if "script w = r # rs" for r rs e1 e2 t
  proof -
    from w that have "Suc (length rs) \<le> n" by simp
    then obtain m where n: "n = Suc m" "length rs \<le> m" by (cases n) auto
    have "wp (k s r) (ended_well (w\<lparr>script := rs, trace := t, errno := e2\<rparr>)) (w\<lparr>script := rs, trace := t, errno := e2\<rparr>)"
      using assms[OF n(1)] n(2) by (simp add: within_def)
    then have "wp (k s r) (\<lambda>r' w'. ended_well w r' w' \<and> (\<forall>x. r' = Return (Inl x) \<longrightarrow> length (script w') < length (script w)))
        (w\<lparr>script := rs, trace := t, errno := e2\<rparr>)"
      by (rule wp_mono) (use that in \<open>auto simp: ended_well_def\<close>)
    then show ?thesis by simp
  qed
  then show "wp (set_errno e (call (c s) (k s))) (\<lambda>r w'. ended_well w r w' \<and> (\<forall>x. r = Return (Inl x) \<longrightarrow> length (script w') < length (script w))) w"
    unfolding wp_set_errno wp_call by (auto simp: ended_well_def)
qed

lemma within_branches [within_intros]:
  "(b \<Longrightarrow> within n p) \<Longrightarrow> (\<not> b \<Longrightarrow> within n q) \<Longrightarrow> within n (if b then p else q)"
  by simp

lemma within_ends [within_intros]: "within n (ret x)" "within n (leave a)" "within n (again s)"
  "within n (stop (Fault f))" "within n (printf t (ret x))" "within n (errExit msg)"
  by (rule within_shrinks, intro fuel_intros; simp)+

lemma within_nftw:
  assumes "\<And>path sb. shrinks (fn path sb)"
  shows "within n (nftw (Suc n) fn dirpath)"
proof (induction n arbitrary: dirpath rule: less_induct)
  case (less n)
  have fn: "within k (fn path sb)" for k path sb using assms by (rule within_shrinks)
  have rec: "within k (nftw n fn path)" if k: "Suc k < n" for k path
  proof -
    obtain m where n: "n = Suc m" using k by (cases n) auto
    with less[of m] have "within m (nftw (Suc m) fn path)" by simp
    then show ?thesis unfolding n by (rule within_mono) (use k n in simp)
  qed
  have entry: "within k (nftw_entry (nftw n fn) dirpath fn d_name d_type)" if "k < n" for k d_name d_type
    unfolding nftw_entry_def Let_def using that by (intro within_intros fn rec) simp
  have rounds: "within k (loop (nftw_round (nftw n fn) dir dirpath fn) ())" if "k < n" for k dir
    unfolding nftw_round_def
    by (rule within_loop_call) (use that in \<open>auto intro!: entry within_ends split: reply.splits list.splits\<close>)
  show ?case
    unfolding nftw.simps by (intro within_intros rounds) simp
qed

lemma ends_imp_nftw [fuel_intros]:
  assumes "\<And>path sb. shrinks (fn path sb)"
  shows "shrinks (imp_nftw dirpath fn)"
proof (rule shrinks_within)
  fix n
  have "wp (nftw (Suc (length (script w))) fn dirpath) (ended_well w) w" for w :: world
    using within_nftw[OF assms, of "length (script w)"] by (simp add: within_def)
  then show "within n (imp_nftw dirpath fn)"
    by (simp add: within_def imp_nftw_def wp_get)
qed

lemma within_chDir: "within n (chDir p x)"
  unfolding chDir_def Let_def by (rule within_shrinks, intro fuel_intros; simp)

lemma within_realpath: "within n (realpath_rec (Suc n) p x)"
proof (induction n arbitrary: p x rule: less_induct)
  case (less n)
  have rec: "within k (realpath_rec n q x)" if k: "Suc k < n" for k q
  proof -
    obtain m where n: "n = Suc m" using k by (cases n) auto
    with less[of m] have "within m (realpath_rec (Suc m) q x)" by simp
    then show ?thesis unfolding n by (rule within_mono) (use k n in simp)
  qed
  show ?case
    unfolding realpath_rec.simps Let_def case_prod_beta by (intro within_intros within_chDir rec) simp
qed

lemma ends_imp_realpath [fuel_intros]: "shrinks (imp_realpath p x)"
proof (rule shrinks_within)
  fix n
  have "wp (realpath_rec (Suc (length (script w))) p x) (ended_well w) w" for w :: world
    using within_realpath[of "length (script w)"] by (simp add: within_def)
  then show "within n (imp_realpath p x)" by (simp add: within_def imp_realpath_def wp_get)
qed

lemma ends_walks: "shrinks (nftw_main argv)" "shrinks realpath_main"
  unfolding nftw_main_def realpath_main_def testFunc_def by (intro fuel_intros; simp)+

end
