(* ===== verification/DirName.thy ===== *)
theory DirName
  imports Conform
begin

text \<open>
  \<open>31_Thread_Safety_Storage/dirbase_name_tsd.c\<close> and \<open>dirbase_name_tls.c\<close>: \<open>dirname\<close> and \<open>basename\<close> with a buffer of
  each thread. One thread is modelled; a buffer is an index into \<open>bufs\<close>, its content a string. A key is a number from
  \<open>pthread_key_create\<close>; the two keys are static variables and start at 0. In the second file the two buffers are the
  thread's own variables.
\<close>

section \<open>Keys and buffers\<close>

record tsd =
  once :: bool
  dirname_key :: int
  basename_key :: int
  slots :: "int \<Rightarrow> nat option"
  bufs :: "string list"

datatype name_ptr = Empty_literal | Null_ptr | Buf nat

definition tsd_init :: tsd where
  "tsd_init = \<lparr>once = False, dirname_key = 0, basename_key = 0, slots = Map.empty, bufs = []\<rparr>"

definition createKeyDirname :: "tsd \<Rightarrow> (tsd \<Rightarrow> 'a prog) \<Rightarrow> 'a prog" where
  "createKeyDirname st k = lib ''pthread_key_create'' [] (\<lambda>r. case r of
      RErr s \<Rightarrow> errExitEN s ''pthread_key_create'' | _ \<Rightarrow> k (st\<lparr>dirname_key := rv r\<rparr>))"

definition createKeyBasename :: "tsd \<Rightarrow> (tsd \<Rightarrow> 'a prog) \<Rightarrow> 'a prog" where
  "createKeyBasename st k = lib ''pthread_key_create'' [] (\<lambda>r. case r of
      RErr s \<Rightarrow> errExitEN s ''pthread_key_create'' | _ \<Rightarrow> k (st\<lparr>basename_key := rv r\<rparr>))"

definition run_once :: "(tsd \<Rightarrow> (tsd \<Rightarrow> 'a prog) \<Rightarrow> 'a prog) \<Rightarrow> tsd \<Rightarrow> (tsd \<Rightarrow> 'a prog) \<Rightarrow> 'a prog" where
  \<comment> \<open>\<open>pthread_once(&once, create)\<close>: both functions share the same \<open>once\<close>\<close>
  "run_once create st k =
     (let finish = (\<lambda>st'. lib ''pthread_once'' [] (\<lambda>s. if rv s \<noteq> 0 then errExitEN (rv s) ''pthread_once'' else k st')) in
      if once st then finish st else create (st\<lparr>once := True\<rparr>) finish)"

definition get_buf :: "int \<Rightarrow> tsd \<Rightarrow> (nat \<Rightarrow> tsd \<Rightarrow> 'a prog) \<Rightarrow> 'a prog" where
  \<comment> \<open>the buffer stored under the key, made when there is none\<close>
  "get_buf key st k = (case slots st key of
      Some b \<Rightarrow> k b st
    | None \<Rightarrow> lib ''malloc'' [256] (\<lambda>m.
        if is_null_reply m then errExit ''malloc''
        else lib ''pthread_setspecific'' [key] (\<lambda>s.
          if rv s \<noteq> 0 then errExitEN (rv s) ''pthread_setspecific''
          else k (length (bufs st)) (st\<lparr>slots := (slots st)(key \<mapsto> length (bufs st)), bufs := bufs st @ [[]]\<rparr>))))"

section \<open>dirname\_ts\<close>

fun base_count :: "string \<Rightarrow> nat" where
  \<comment> \<open>\<open>base_len\<close>: the loop from the end of the path, given reversed; the slash counts\<close>
  "base_count [] = 0"
| "base_count (c # cs) = (if c = CHR ''/'' then 1 else Suc (base_count cs))"

definition dirname_ts :: "string \<Rightarrow> tsd \<Rightarrow> (name_ptr \<times> tsd) prog" where
  "dirname_ts path st = run_once createKeyDirname st (\<lambda>st1.
     get_buf (dirname_key st1) st1 (\<lambda>b st2.
       let path_len = length path in
       if path_len = 0 then ret (Empty_literal, st2)
       else if 255 < path_len then ret (Null_ptr, st2)
       else ret (Buf b, st2\<lparr>bufs := (bufs st2)[b := take (path_len - base_count (rev path)) path]\<rparr>)))"

section \<open>basename\_ts\<close>

fun copy_back :: "string \<Rightarrow> string" where
  \<comment> \<open>the loop that fills the buffer from the end of the path, given reversed\<close>
  "copy_back [] = []"
| "copy_back (c # cs) = (if c = CHR ''/'' then [] else c # copy_back cs)"

function swap_ends :: "string \<Rightarrow> int \<Rightarrow> int \<Rightarrow> string" where
  \<comment> \<open>the loop that reverses the buffer in place\<close>
  "swap_ends buf start end' =
     (if start < end' then swap_ends (buf[nat start := buf ! nat end', nat end' := buf ! nat start]) (start + 1) (end' - 1)
      else buf)"
  by pat_completeness auto
termination by (relation "measure (\<lambda>(buf, start, end'). nat (end' - start))") auto

declare swap_ends.simps [simp del]

definition basename_ts :: "string \<Rightarrow> tsd \<Rightarrow> (name_ptr \<times> tsd) prog" where
  "basename_ts path st = run_once createKeyBasename st (\<lambda>st1.
     get_buf (basename_key st1) st1 (\<lambda>b st2.
       let path_len = length path in
       if path_len = 0 then ret (Empty_literal, st2)
       else if 255 < path_len then ret (Null_ptr, st2)
       else let buf = copy_back (rev path) in
         ret (Buf b, st2\<lparr>bufs := (bufs st2)[b := swap_ends buf 0 (int (length buf) - 1)]\<rparr>)))"

definition dirbase_main :: "int prog" where
  \<comment> \<open>\<open>mod_arr\<close> is printed apart into its last component and the rest\<close>
  "dirbase_main = (let mod_arr = ''/1/2/3/4/HELLO'';
        show = (\<lambda>p (st :: tsd) k. case p of Buf b \<Rightarrow> printf (bufs st ! b @ [NL]) k | Empty_literal \<Rightarrow> printf [NL] k
          | Null_ptr \<Rightarrow> stop (Fault Null_deref)) in
     seq (basename_ts mod_arr tsd_init) (\<lambda>(b, st1). show b st1 (
       seq (dirname_ts mod_arr st1) (\<lambda>(d, st2). show d st2 (ret 0)))))"

section \<open>The same with thread-local variables\<close>

record tls =
  dirn_buf :: string
  basn_buf :: string

datatype tls_ptr = Tls_empty | Tls_null | Tls_text string

definition tls_dirname :: "string \<Rightarrow> tls \<Rightarrow> (tls_ptr \<times> tls) prog" where
  "tls_dirname path st = (let path_len = length path in
       if path_len = 0 then ret (Tls_empty, st)
       else if 255 < path_len then ret (Tls_null, st)
       else let base_len = base_count (rev path); d = take (path_len - base_len) path in
         printf (''pathlen: '' @ show_int (int path_len) @ [NL]) (printf (''baselen: '' @ show_int (int base_len) @ [NL])
           (ret (Tls_text d, st\<lparr>dirn_buf := d\<rparr>))))"

definition tls_basename :: "string \<Rightarrow> tls \<Rightarrow> (tls_ptr \<times> tls) prog" where
  "tls_basename path st = (let path_len = length path in
       if path_len = 0 then ret (Tls_empty, st)
       else if 255 < path_len then ret (Tls_null, st)
       else let buf = copy_back (rev path); b = swap_ends buf 0 (int (length buf) - 1) in
         ret (Tls_text b, st\<lparr>basn_buf := b\<rparr>))"

definition tls_main :: "int prog" where
  \<comment> \<open>the variable called \<open>basename\<close> holds what \<open>dirname_ts\<close> returns\<close>
  "tls_main = seq (tls_dirname ''yeet//hello'' \<lparr>dirn_buf = [], basn_buf = []\<rparr>) (\<lambda>(d, st).
     case d of Tls_text t \<Rightarrow> printf (t @ [NL]) (ret 0) | Tls_empty \<Rightarrow> printf [NL] (ret 0)
       | Tls_null \<Rightarrow> stop (Fault Null_deref))"

section \<open>The loops\<close>

definition last_part :: "string \<Rightarrow> string" where
  "last_part path = rev (takeWhile (\<lambda>c. c \<noteq> CHR ''/'') (rev path))"

lemma copy_back_takeWhile: "copy_back cs = takeWhile (\<lambda>c. c \<noteq> CHR ''/'') cs"
  by (induction cs) auto

lemma base_count_spec: "base_count cs = (if CHR ''/'' \<in> set cs then Suc (length (takeWhile (\<lambda>c. c \<noteq> CHR ''/'') cs)) else length cs)"
  by (induction cs) auto

lemma swap_ends_rev: "swap_ends (xs @ ys @ zs) (int (length xs)) (int (length xs + length ys) - 1) = xs @ rev ys @ zs"
proof (induction "length ys" arbitrary: xs ys zs rule: less_induct)
  case less
  consider "ys = []" | a where "ys = [a]" | a m b where "ys = a # m @ [b]"
    by (cases ys; cases "tl ys" rule: rev_cases) auto
  then show ?case
  proof cases
    case 3
    have "(xs @ ys @ zs)[length xs := b, length xs + length m + 1 := a] = (xs @ [b]) @ m @ (a # zs)"
      by (simp add: 3 list_update_append)
    moreover have "(xs @ ys @ zs) ! (length xs + length m + 1) = b" "(xs @ ys @ zs) ! length xs = a"
      by (simp_all add: 3 nth_append)
    moreover have "nat (int (length xs + length ys) - 1) = length xs + length m + 1" by (simp add: 3)
    ultimately have "swap_ends (xs @ ys @ zs) (int (length xs)) (int (length xs + length ys) - 1)
      = swap_ends ((xs @ [b]) @ m @ (a # zs)) (int (length (xs @ [b]))) (int (length (xs @ [b]) + length m) - 1)"
      by (subst swap_ends.simps) (simp add: 3 add.commute)
    also have "\<dots> = (xs @ [b]) @ rev m @ (a # zs)" by (rule less) (simp add: 3)
    finally show ?thesis by (simp add: 3)
  qed (subst swap_ends.simps; simp)+
qed

lemma basename_text: "swap_ends (copy_back (rev path)) 0 (int (length (copy_back (rev path))) - 1) = last_part path"
  using swap_ends_rev[of "[]" "copy_back (rev path)" "[]"] by (simp add: last_part_def copy_back_takeWhile)

lemma last_part_splits:
  "CHR ''/'' \<in> set path \<Longrightarrow> take (length path - base_count (rev path)) path @ ''/'' @ last_part path = path"
  "CHR ''/'' \<notin> set path \<Longrightarrow> take (length path - base_count (rev path)) path = [] \<and> last_part path = path"
proof -
  assume "CHR ''/'' \<in> set path"
  then obtain ys zs where s: "path = ys @ CHR ''/'' # zs" "CHR ''/'' \<notin> set zs"
    by (metis split_list_last)
  then have "\<forall>c\<in>set (rev zs). c \<noteq> CHR ''/''" by auto
  then have "takeWhile (\<lambda>c. c \<noteq> CHR ''/'') (rev zs @ CHR ''/'' # rev ys)
      = rev zs @ takeWhile (\<lambda>c. c \<noteq> CHR ''/'') (CHR ''/'' # rev ys)"
    by (intro takeWhile_append2) auto
  then have "takeWhile (\<lambda>c. c \<noteq> CHR ''/'') (rev path) = rev zs" by (simp add: s(1))
  then show "take (length path - base_count (rev path)) path @ ''/'' @ last_part path = path"
    by (simp add: base_count_spec last_part_def s(1))
next
  assume "CHR ''/'' \<notin> set path"
  moreover from this have "takeWhile (\<lambda>c. c \<noteq> CHR ''/'') (rev path) = rev path"
    by (simp add: takeWhile_eq_all_conv) metis
  ultimately show "take (length path - base_count (rev path)) path = [] \<and> last_part path = path"
    unfolding base_count_spec last_part_def by (simp only: set_rev if_False length_rev rev_rev_ident diff_self_eq_0 take_0 simp_thms)
qed

section \<open>Two functions, one \<open>once\<close>\<close>

definition dir_part :: "string \<Rightarrow> string" where
  "dir_part path = take (length path - base_count (rev path)) path"

definition both_names :: "string \<Rightarrow> (name_ptr \<times> tsd \<times> name_ptr \<times> tsd) prog" where
  \<comment> \<open>the two calls of \<open>main\<close>, with what they return and leave\<close>
  "both_names path = seq (basename_ts path tsd_init) (\<lambda>(b, st1). seq (dirname_ts path st1) (\<lambda>(d, st2). ret (b, st1, d, st2)))"

definition names_given :: "string \<Rightarrow> name_ptr \<times> tsd \<times> name_ptr \<times> tsd \<Rightarrow> bool" where
  \<comment> \<open>both texts are right and make up the path; but \<open>dirname_key\<close> was not created and is still 0, and when that is the
    key of the other function the second text is in the buffer that held the first\<close>
  "names_given path = (\<lambda>(b, st1, d, st2). b = Buf 0 \<and> bufs st1 = [last_part path] \<and> dirname_key st2 = 0
     \<and> (if basename_key st1 = 0 then d = Buf 0 \<and> bufs st2 = [dir_part path]
        else d = Buf 1 \<and> bufs st2 = [last_part path, dir_part path])
     \<and> (if CHR ''/'' \<in> set path then dir_part path @ ''/'' @ last_part path = path else dir_part path = [] \<and> last_part path = path))"

definition fine :: "('a \<Rightarrow> bool) \<Rightarrow> 'a result \<Rightarrow> world \<Rightarrow> bool" where
  \<comment> \<open>no invalid access, and \<open>P\<close> of what is returned\<close>
  "fine P r w = (case r of Return x \<Rightarrow> P x | Fault f \<Rightarrow> False | _ \<Rightarrow> True)"

lemma fine_simps [simp]: "fine P (Return x) w = P x" "fine P (Exited n) w" "fine P (UExited n) w" "fine P Aborted w"
  "fine P Blocked w" "\<not> fine P (Fault f) w" "fine P No_fuel w"
  by (simp_all add: fine_def)

lemma fine_lib: "(\<And>r w. wp (k r) (fine P) w) \<Longrightarrow> wp (lib f as k) (fine P) w"
  by (simp add: lib_def wp_call)

lemma fine_errors: "wp (errExit msg) (fine P) w" "wp (errExitEN n msg) (fine P) w"
  by (simp_all add: exec_simps end_of_def)

lemma fine_seq: "wp p (fine (\<lambda>x. \<forall>w. wp (k x) (fine P) w)) w \<Longrightarrow> wp (seq p k) (fine P) w"
  unfolding wp_seq by (erule wp_mono) (auto simp: fine_def lift_def split: result.splits)

lemma fine_once:
  assumes "\<And>w. once st \<Longrightarrow> wp (k st) (fine P) w"
    and "\<not> once st \<Longrightarrow> wp (create (st\<lparr>once := True\<rparr>) (\<lambda>st'. lib ''pthread_once'' []
      (\<lambda>s. if rv s \<noteq> 0 then errExitEN (rv s) ''pthread_once'' else k st'))) (fine P) w"
  shows "wp (run_once create st k) (fine P) w"
  using assms by (auto simp: run_once_def intro!: fine_lib fine_errors)

lemma fine_create_basename:
  "(\<And>key w. wp (k (st\<lparr>basename_key := key\<rparr>)) (fine P) w) \<Longrightarrow> wp (createKeyBasename st k) (fine P) w"
  unfolding createKeyBasename_def by (rule fine_lib) (auto intro!: fine_errors split: reply.splits)

lemma fine_get_buf:
  assumes "\<And>b w. slots st key = Some b \<Longrightarrow> wp (k b st) (fine P) w"
    and "\<And>w. slots st key = None \<Longrightarrow>
      wp (k (length (bufs st)) (st\<lparr>slots := (slots st)(key \<mapsto> length (bufs st)), bufs := bufs st @ [[]]\<rparr>)) (fine P) w"
  shows "wp (get_buf key st k) (fine P) w"
  using assms by (auto simp: get_buf_def intro!: fine_lib fine_errors split: option.splits)

lemma basename_first:
  assumes "path \<noteq> []" "length path < 256"
  shows "wp (basename_ts path tsd_init) (fine (\<lambda>(b, st1). \<exists>key. b = Buf 0
    \<and> st1 = \<lparr>once = True, dirname_key = 0, basename_key = key, slots = [key \<mapsto> 0], bufs = [last_part path]\<rparr>)) w"
  unfolding basename_ts_def
  by (rule fine_once; (simp add: tsd_init_def)?)
    (use assms in \<open>auto simp: Let_def wp_ret basename_text intro!: fine_create_basename fine_lib fine_errors fine_get_buf\<close>)

lemma dirname_second:
  assumes "path \<noteq> []" "length path < 256" "once st"
  shows "wp (dirname_ts path st) (fine (\<lambda>(d, st2). case slots st (dirname_key st) of
      Some b \<Rightarrow> d = Buf b \<and> st2 = st\<lparr>bufs := (bufs st)[b := dir_part path]\<rparr>
    | None \<Rightarrow> d = Buf (length (bufs st)) \<and> bufs st2 = bufs st @ [dir_part path] \<and> dirname_key st2 = dirname_key st)) w"
  unfolding dirname_ts_def
  by (rule fine_once; (rule fine_get_buf)?) (use assms in \<open>auto simp: Let_def wp_ret dir_part_def\<close>)

text \<open>C38: 
  C1: \<open>basename_ts\<close> and then \<open>dirname_ts\<close> of one path return texts that make up the path. Both pass the same \<open>once\<close>,
  so the second key is never created: when the first key is 0, as the first key of a process is, the second call returns
  the same buffer and overwrites the base name that the caller still holds.
\<close>

theorem dirname_overwrites_basename:
  assumes "path \<noteq> []" "length path < 256"
  shows "wp (both_names path) (\<lambda>r w'. case r of Return x \<Rightarrow> names_given path x | Fault f \<Rightarrow> False | _ \<Rightarrow> True) w"
proof -
  have "wp (both_names path) (fine (names_given path)) w"
    unfolding both_names_def
  proof (rule fine_seq, rule wp_mono[OF basename_first[OF assms]], goal_cases)
    case (1 r w')
    then show ?case
    proof (cases r)
      case (Return x)
      with 1 obtain key where x: "x = (Buf 0, \<lparr>once = True, dirname_key = 0, basename_key = key, slots = [key \<mapsto> 0],
          bufs = [last_part path]\<rparr>)" (is "x = (_, ?st)")
        by (auto simp: fine_def)
      have "wp (dirname_ts path ?st) (fine (\<lambda>y. \<forall>w. wp (case y of (d, st2) \<Rightarrow> ret (Buf 0, ?st, d, st2)) (fine (names_given path)) w)) w1" for w1 :: world
        by (rule wp_mono[OF dirname_second[OF assms]])
          (use last_part_splits[of path] in \<open>auto simp: fine_def wp_ret names_given_def dir_part_def split: result.splits if_splits\<close>)
      then show ?thesis unfolding Return x by (auto intro: fine_seq)
    qed simp_all
  qed
  then show ?thesis by (simp add: wp_def fine_def)
qed

lemma dirname_overwrites_basename_witness:
  "case fst (both_names ''/1/2/HELLO'' (booted [RVal 0, RVal 0, RVal 16, RVal 0, RVal 0])) of
      Return (b, st1, d, st2) \<Rightarrow> basename_key st1 = 0 \<and> b = d \<and> bufs st1 = [''HELLO''] \<and> bufs st2 = [dir_part ''/1/2/HELLO'']
    | _ \<Rightarrow> False"
proof -
  let ?w = "booted [RVal 0, RVal 0, RVal 16, RVal 0, RVal 0]"
  have "case fst (both_names ''/1/2/HELLO'' ?w) of Return (b, st1, d, st2) \<Rightarrow> basename_key st1 = 0 | _ \<Rightarrow> False"
    by code_simp
  moreover have "last_part ''/1/2/HELLO'' = ''HELLO''" by code_simp
  ultimately show ?thesis
    using dirname_overwrites_basename[of "''/1/2/HELLO''" ?w]
    by (auto simp: wp_def names_given_def split: prod.splits result.splits)
qed

end
