(* ===== verification/FileServer.thy ===== *)
theory FileServer
  imports Conform
begin

text \<open>
  The file server of \<open>52_Posix_Message_Queues/pmsg_file.h\<close>, \<open>pmsg_file_server.c\<close> and \<open>pmsg_file_client.c\<close>: the server
  forks a child for each request, the child sends the file in messages of one size, the client counts them. Every
  message is a whole \<open>struct response_msg\<close>; \<open>data\<close> that has not been written is a parameter.
\<close>

section \<open>pmsg\_file.h\<close>

definition PMSG_PATH :: string where "PMSG_PATH = ''/pmsg_file_server''"
definition MSG_SIZE :: nat where "MSG_SIZE = 8192"
definition RESP_DATA_SIZE :: nat where "RESP_DATA_SIZE = 4096"
definition RESP_SIZE :: nat where "RESP_SIZE = 8 + RESP_DATA_SIZE"
definition RESP_MT_FAILURE :: int where "RESP_MT_FAILURE = 1"
definition RESP_MT_DATA :: int where "RESP_MT_DATA = 2"
definition RESP_MT_END :: int where "RESP_MT_END = 3"

definition response_msg :: "int \<Rightarrow> string \<Rightarrow> string" where
  \<comment> \<open>\<open>mtype\<close> is a \<open>long\<close> of eight bytes, small and not negative\<close>
  "response_msg mtype dat = le32 mtype @ [NUL, NUL, NUL, NUL] @ dat"

definition long_at :: "string \<Rightarrow> int" where
  "long_at s = (\<Sum>k\<leftarrow>[0..<8]. int (of_char (s ! k)) * 256 ^ k)"

definition set_text :: "string \<Rightarrow> string \<Rightarrow> string" where
  \<comment> \<open>a string with its null byte over the start of an array\<close>
  "set_text s old = s @ NUL # drop (Suc (length s)) old"

section \<open>The server\<close>

definition grimReaper :: "unit prog \<Rightarrow> unit prog" where
  \<comment> \<open>the handler of \<open>SIGCHLD\<close>, and what goes on after it\<close>
  "grimReaper k = get errno (\<lambda>savedErrno.
     seq (loop (\<lambda>u. call (Proc (Waitpid (-1) ''WNOHANG'')) (\<lambda>r. if 0 < rv r then again () else leave ())) ())
       (\<lambda>_. set_errno savedErrno k))"

definition send_failure :: "int \<Rightarrow> string \<Rightarrow> string \<Rightarrow> unit prog" where
  "send_failure client_mqd msg dat =
     call (Ipc (Mq_send client_mqd (response_msg RESP_MT_FAILURE (set_text msg dat)))) (\<lambda>m.
       if rv m = -1 then err_exit ''mq_send'' else uexit_prog EXIT_FAILURE)"

definition file_round :: "int \<Rightarrow> int \<Rightarrow> string \<Rightarrow> (string + int \<times> string) prog" where
  "file_round client_mqd fd dat = call (Fd (Read fd RESP_DATA_SIZE)) (\<lambda>r.
     let dat' = store_bytes RESP_DATA_SIZE r dat in
     if rv r \<le> 0 then leave (rv r, dat')
     else call (Ipc (Mq_send client_mqd (response_msg RESP_MT_DATA dat'))) (\<lambda>m.
       if rv m = -1 then errMsg ''mq_send'' (leave (rv r, dat')) else again dat'))"

definition send_end :: "int \<Rightarrow> int \<times> string \<Rightarrow> unit prog" where
  \<comment> \<open>what follows the loop over the file\<close>
  "send_end client_mqd = (\<lambda>(num_read, dat).
     if num_read = -1 then send_failure client_mqd ''read failed'' dat
     else call (Ipc (Mq_send client_mqd (response_msg RESP_MT_END dat))) (\<lambda>m.
       if rv m = -1 then errMsg ''mq_send'' (ret ()) else ret ()))"

definition serveRequest :: "string \<Rightarrow> string \<Rightarrow> unit prog" where
  "serveRequest req junk = checked (string_at req 0) (\<lambda>client_pmsg.
     call (Ipc (Mq_open client_pmsg ''O_WRONLY'')) (\<lambda>c.
       if rv c = -1 then err_exit ''mq_open - server''
       else checked (string_at req PATH_MAX) (\<lambda>pathname.
         call (Path (Open pathname ''O_RDONLY'' 0)) (\<lambda>f.
           if rv f = -1 then send_failure (rv c) ''Couldn't open'' junk
           else seq (loop (file_round (rv c) (rv f)) junk) (send_end (rv c))))))"

definition pmsg_file_round :: "string \<Rightarrow> int \<Rightarrow> unit \<Rightarrow> (unit + unit) prog" where
  \<comment> \<open>\<open>errno\<close> is looked at also when the call has succeeded; the child does not come back\<close>
  "pmsg_file_round junk server_mqd u = call (Ipc (Mq_receive server_mqd MSG_SIZE)) (\<lambda>r. get errno (\<lambda>e.
     if e = EINTR then lib ''quit_req'' [] (\<lambda>quit. if rv quit \<noteq> 0 then leave () else again ())
     else if rv r = -1 then leave ()
     else call (Proc Fork) (\<lambda>pid.
       if rv pid = -1 then errMsg ''fork'' (leave ())
       else if rv pid = 0 then seq (serveRequest (bytes_read MSG_SIZE r) junk) (\<lambda>_. uexit_prog EXIT_SUCCESS)
       else again ())))"

definition wait_round :: "unit \<Rightarrow> (unit + unit) prog" where
  "wait_round u = call (Proc (Waitpid (-1) [])) (\<lambda>r.
     if rv r = -1 then get errno (\<lambda>e. if e \<noteq> ECHILD then errMsg ''waitpid'' (leave ()) else leave ()) else again ())"

definition pmsg_file_server :: "string \<Rightarrow> unit prog" where
  "pmsg_file_server junk =
     or_die (Ipc (Mq_open PMSG_PATH ''O_RDWR|O_CREAT|O_EXCL'')) ''mq_open'' (\<lambda>q.
     or_die (Proc (Sigaction ''SIGCHLD'' ''grimReaper'')) ''sigaction'' (\<lambda>_.
     or_die (Proc (Sigaction ''SIGINT'' ''sigInt'')) ''sigaciton'' (\<lambda>_.
     seq (loop (pmsg_file_round junk (rv q)) ()) (\<lambda>_. seq (loop wait_round ()) (\<lambda>_.
       or_die (Ipc (Mq_unlink PMSG_PATH)) ''mq_unlink'' (\<lambda>_. exit_prog EXIT_FAILURE))))))"

section \<open>The client\<close>

definition removeQueue :: "string \<Rightarrow> unit prog" where
  "removeQueue client_mq_path = call (Ipc (Mq_unlink client_mq_path)) (\<lambda>r.
     if rv r = -1 then errMsg ''mq_unlink'' (ret ()) else ret ())"

definition receive_round :: "int \<Rightarrow> string \<times> int \<times> int \<Rightarrow> (string \<times> int \<times> int + int \<times> int) prog" where
  \<comment> \<open>\<open>resp\<close>: the bytes written so far; a message overwrites its start\<close>
  "receive_round client_mqd = (\<lambda>(resp, num_msg, tot_bytes).
     or_die (Ipc (Mq_receive client_mqd MSG_SIZE)) ''mq_receive'' (\<lambda>r.
       let m = bytes_read MSG_SIZE r; resp' = store_bytes MSG_SIZE r resp in
       if RESP_SIZE < length m then stop (Fault Buffer_overflow)
       else if length resp' < 8 then stop (Fault Uninitialised)
       else if long_at resp' = RESP_MT_FAILURE
         then checked (string_at resp' 8) (\<lambda>t. printf (''RESP_MT_FAILURE: '' @ t @ [NL]) (exit_prog EXIT_FAILURE))
       else let num_msg' = to_int32 (num_msg + 1); tot_bytes' = to_int32 (tot_bytes + int (length m)) in
         if long_at resp' \<noteq> RESP_MT_END then again (resp', num_msg', tot_bytes')
         else leave (num_msg', tot_bytes')))"

definition receive_file :: "int \<Rightarrow> unit prog" where
  "receive_file client_mqd = seq (loop (receive_round client_mqd) ([], 0, 0)) (\<lambda>(num_msg, tot_bytes).
     printf (''Received '' @ show_int tot_bytes @ '' bytes ('' @ show_int num_msg @ '' messages)'' @ [NL])
       (exit_prog EXIT_SUCCESS))"

definition request_msg :: "string \<Rightarrow> string \<Rightarrow> string \<Rightarrow> string" where
  \<comment> \<open>\<open>strcpy\<close> leaves the rest of a member alone, \<open>strncpy\<close> fills it with null bytes\<close>
  "request_msg junk client_pmsg pathname = set_text client_pmsg junk @ pathname @ replicate (PATH_MAX - length pathname) NUL"

definition pmsg_file_client :: "string \<Rightarrow> string list \<Rightarrow> unit prog" where
  "pmsg_file_client junk argv =
     (if length argv \<noteq> 2 \<or> argv ! 1 = ''--help'' then usageErr (hd argv @ '' pathname'' @ [NL])
      else if PATH_MAX - 1 < length (argv ! 1) then cmdLineErr (''pathname too long (max: 4095 bytes)'' @ [NL])
      else or_die (Proc (Sigaction ''SIGINT'' ''sigInt'')) ''sigaction'' (\<lambda>_.
        call (Proc Getpid) (\<lambda>pid. let client_mq_path = snprintf PATH_MAX (''/client_mq_'' @ show_int (rv pid)) in
        or_die (Ipc (Mq_open client_mq_path ''O_RDONLY|O_CREAT'')) (''mq_open - '' @ client_mq_path) (\<lambda>c.
        call (Proc (Atexit ''removeQueue'')) (\<lambda>a.
          if rv a \<noteq> 0 then errExit ''atexit''
          else at_exit (removeQueue client_mq_path)
            (lib ''malloc'' [int MSG_SIZE] (\<lambda>p. if is_null_reply p then errExit ''malloc''
             else or_die (Ipc (Mq_open PMSG_PATH ''O_WRONLY'')) ''mq_open - PMSG_PATH'' (\<lambda>s.
             or_die (Ipc (Mq_send (rv s) (request_msg junk client_mq_path (argv ! 1)))) ''mq_send'' (\<lambda>_.
             or_die (Ipc (Mq_close (rv s))) ''mq_close'' (\<lambda>_. receive_file (rv c)))))))))))"

section \<open>Messages\<close>

lemma long_at_response: "long_at (response_msg RESP_MT_FAILURE d) = RESP_MT_FAILURE" "long_at (response_msg RESP_MT_DATA d) = RESP_MT_DATA"
  "long_at (response_msg RESP_MT_END d) = RESP_MT_END"
  by (simp_all add: long_at_def response_msg_def RESP_MT_FAILURE_def RESP_MT_DATA_def RESP_MT_END_def le32_def upt_rec
      nth_append nth_Cons' of_char_of_byte NUL_def)

lemma length_response [simp]: "length (response_msg k d) = 8 + length d"
  by (simp add: response_msg_def)

lemma string_at_set_text: "NUL \<notin> set s \<Longrightarrow> string_at (set_text s old @ rest) 0 = Inr s"
  by (simp add: string_at_def set_text_def)

lemma length_set_text: "length s < length old \<Longrightarrow> length (set_text s old) = length old"
  by (simp add: set_text_def)

lemma request_msg_decodes:
  assumes "NUL \<notin> set c" "NUL \<notin> set p" "length c < PATH_MAX" "length p < PATH_MAX" "length junk = PATH_MAX"
  shows "string_at (request_msg junk c p) 0 = Inr c" "string_at (request_msg junk c p) PATH_MAX = Inr p"
proof -
  show "string_at (request_msg junk c p) 0 = Inr c"
    using assms(1) by (simp add: request_msg_def string_at_set_text)
  obtain k where "PATH_MAX - length p = Suc k" using assms(4) by (metis Suc_diff_Suc)
  then have "drop PATH_MAX (request_msg junk c p) = p @ NUL # replicate k NUL"
    using assms(3,5) by (simp add: request_msg_def length_set_text)
  then show "string_at (request_msg junk c p) PATH_MAX = Inr p"
    using assms(2) by (simp add: string_at_def set_text_def)
qed

section \<open>What is sent\<close>

record transfer =
  names :: "string list"    \<comment> \<open>the queues and files opened\<close>
  unread :: string          \<comment> \<open>of the file\<close>
  queue :: "string list"    \<comment> \<open>the messages in the client's queue\<close>
  lost :: bool              \<comment> \<open>a message could not be sent\<close>

definition transfer_kernel :: "transfer \<Rightarrow> syscall \<Rightarrow> reply \<Rightarrow> transfer option" where
  "transfer_kernel e c r = (case c of
      Fd (Read fd n) \<Rightarrow> (case r of
        RData s \<Rightarrow> if length s \<le> n \<and> take (length s) (unread e) = s \<and> (s = [] \<longrightarrow> unread e = [])
          then Some (e\<lparr>unread := drop (length s) (unread e)\<rparr>) else None
        | RErr x \<Rightarrow> Some e | _ \<Rightarrow> None)
    | Ipc (Mq_send q m) \<Rightarrow> Some (if rv r = -1 then e\<lparr>lost := True\<rparr> else e\<lparr>queue := queue e @ [m]\<rparr>)
    | Ipc (Mq_open q fl) \<Rightarrow> Some (e\<lparr>names := names e @ [q]\<rparr>)
    | Path (Open p fl m) \<Rightarrow> Some (e\<lparr>names := names e @ [p]\<rparr>)
    | _ \<Rightarrow> Some e)"

lemma transfer_kernel_simps:
  "transfer_kernel e (Fd (Read fd n)) r = (case r of
        RData s \<Rightarrow> if length s \<le> n \<and> take (length s) (unread e) = s \<and> (s = [] \<longrightarrow> unread e = [])
          then Some (e\<lparr>unread := drop (length s) (unread e)\<rparr>) else None
        | RErr x \<Rightarrow> Some e | _ \<Rightarrow> None)"
  "transfer_kernel e (Ipc (Mq_send q m)) r = Some (if rv r = -1 then e\<lparr>lost := True\<rparr> else e\<lparr>queue := queue e @ [m]\<rparr>)"
  "transfer_kernel e (Ipc (Mq_open mq fl)) r = Some (e\<lparr>names := names e @ [mq]\<rparr>)"
  "transfer_kernel e (Path (Open p fl md)) r = Some (e\<lparr>names := names e @ [p]\<rparr>)"
  by (simp_all add: transfer_kernel_def)

definition last_data :: "string \<Rightarrow> string list \<Rightarrow> string" where
  \<comment> \<open>\<open>resp.data\<close> after these pieces have been read into it, one over the other\<close>
  "last_data junk cs = foldl (\<lambda>d c. c @ drop (length c) d) junk cs"

definition data_messages :: "string \<Rightarrow> string list \<Rightarrow> string list" where
  "data_messages junk cs = map (\<lambda>i. response_msg RESP_MT_DATA (last_data junk (take (Suc i) cs))) [0..<length cs]"

definition pieces :: "string \<Rightarrow> string list \<Rightarrow> bool" where
  \<comment> \<open>the file as it was read\<close>
  "pieces s cs \<longleftrightarrow> concat cs = s \<and> list_all (\<lambda>c. c \<noteq> [] \<and> length c \<le> RESP_DATA_SIZE) cs"

lemma data_messages_snoc: "data_messages junk (cs @ [c]) = data_messages junk cs @ [response_msg RESP_MT_DATA (last_data junk (cs @ [c]))]"
  by (simp add: data_messages_def)

lemma length_last_data:
  assumes "length junk = RESP_DATA_SIZE" "list_all (\<lambda>c. length c \<le> RESP_DATA_SIZE) cs"
  shows "length (last_data junk cs) = RESP_DATA_SIZE"
  using assms(2) by (induction cs rule: rev_induct) (simp_all add: last_data_def assms(1))

definition sending :: "string \<Rightarrow> string list \<Rightarrow> string \<Rightarrow> string \<Rightarrow> transfer \<Rightarrow> bool" where
  "sending s ns junk dat e \<longleftrightarrow> names e = ns \<and> (\<not> lost e \<longrightarrow> (\<exists>cs. pieces (concat cs) cs \<and> concat cs @ unread e = s
     \<and> dat = last_data junk cs \<and> queue e = data_messages junk cs))"

definition sent_file :: "string \<Rightarrow> string list \<Rightarrow> string \<Rightarrow> transfer \<Rightarrow> bool" where
  "sent_file s ns junk e \<longleftrightarrow> names e = ns \<and> (lost e \<or> (\<exists>cs. pieces s cs
     \<and> queue e = data_messages junk cs @ [response_msg RESP_MT_END (last_data junk cs)]))"

lemma sending_more:
  assumes "sending s ns junk dat e" "r = RData c" "c \<noteq> []" "length c \<le> RESP_DATA_SIZE" "take (length c) (unread e) = c"
  shows "sending s ns junk (store_bytes RESP_DATA_SIZE r dat)
    (e\<lparr>unread := drop (length c) (unread e), queue := queue e @ [response_msg RESP_MT_DATA (store_bytes RESP_DATA_SIZE r dat)]\<rparr>)"
proof (cases "lost e")
  case False
  then obtain cs where cs: "pieces (concat cs) cs" "concat cs @ unread e = s" "dat = last_data junk cs" "queue e = data_messages junk cs"
    using assms(1) by (auto simp: sending_def)
  have d: "store_bytes RESP_DATA_SIZE r dat = last_data junk (cs @ [c])"
    using assms(2,4) by (simp add: store_bytes_def bytes_read_def bytes_def cs(3) last_data_def)
  have "c @ drop (length c) (unread e) = unread e" using assms(5) append_take_drop_id[of "length c" "unread e"] by simp
  then have "pieces (concat (cs @ [c])) (cs @ [c]) \<and> concat (cs @ [c]) @ drop (length c) (unread e) = s"
    using cs(1,2) assms(3,4) by (simp add: pieces_def)
  moreover have "names e = ns" using assms(1) by (simp add: sending_def)
  ultimately show ?thesis
    unfolding sending_def d by (auto simp: cs(4) data_messages_snoc intro!: exI[of _ "cs @ [c]"])
qed (use assms(1) in \<open>simp add: sending_def\<close>)

lemma appends_file_round [append_intros]: "appends (file_round c fd dat)"
  unfolding file_round_def Let_def by (intro append_intros under_errMsg)

lemma file_round_sends:
  assumes "sending s ns junk dat e"
  shows "under transfer_kernel e (file_round c fd dat) (\<lambda>r e' w'. case r of
      Return (Inl dat') \<Rightarrow> sending s ns junk dat' e'
    | Return (Inr (n, dat')) \<Rightarrow> n \<noteq> -1 \<longrightarrow> sending s ns junk dat' e' \<and> (lost e' \<or> unread e' = [])
    | _ \<Rightarrow> r = Blocked) w"
  unfolding file_round_def Let_def
proof (rule under_call, goal_cases)
  case (3 r rs e1)
  show ?case
  proof (cases "rv r \<le> 0")
    case True
    with 3 assms show ?thesis
      by (auto simp: transfer_kernel_simps sending_def rv_def store_bytes_def bytes_read_def bytes_def split: reply.splits if_splits intro!: under_leave)
  next
    case False
    with 3(2) obtain d where d: "r = RData d" "d \<noteq> []" "length d \<le> RESP_DATA_SIZE" "take (length d) (unread e) = d"
      "e1 = e\<lparr>unread := drop (length d) (unread e)\<rparr>"
      by (auto simp: transfer_kernel_simps rv_def split: reply.splits if_splits)
    note more = sending_more[OF assms d(1-4)]
    show ?thesis
      unfolding if_not_P[OF False]
    proof (rule under_call, goal_cases)
      case (3 m rs2 e2)
      show ?case
      proof (cases "rv m = -1")
        case True
        with 3 show ?thesis
          using assms by (auto simp: transfer_kernel_simps d(5) sending_def intro!: under_errMsg under_leave)
      next
        case False
        with 3 more show ?thesis by (auto simp: transfer_kernel_simps d(5) intro!: under_again)
      qed
    qed (auto intro!: append_intros)
  qed
qed (auto intro!: append_intros)

lemma rounds_file_round: "rounds (file_round c fd dat)"
  unfolding file_round_def Let_def by (intro fuel_intros; simp)

lemma appends_send [append_intros]: "appends (send_failure c t d)" "appends (send_end c x)"
proof -
  show f: "appends (send_failure c t d)" for t d unfolding send_failure_def by (intro append_intros)
  show "appends (send_end c x)"
    unfolding send_end_def by (cases x) (auto intro!: append_intros f)
qed

definition served :: "string \<Rightarrow> string list \<Rightarrow> string \<Rightarrow> unit result \<Rightarrow> transfer \<Rightarrow> bool" where
  "served s ns junk r e = (case r of Return _ \<Rightarrow> sent_file s ns junk e | Fault f \<Rightarrow> False | No_fuel \<Rightarrow> False | _ \<Rightarrow> True)"

lemma served_simps [simp]: "served s ns junk (Return u) e = sent_file s ns junk e" "served s ns junk (UExited n) e"
  "served s ns junk Blocked e" "served s ns junk (end_of b w) e"
  by (auto simp: served_def end_of_def)

lemma send_failure_served: "under transfer_kernel e (send_failure c t d) (\<lambda>r e w. served s ns junk r e) w"
  unfolding send_failure_def
  by (rule under_call) (auto intro!: append_intros under_err_exit under_uexit)

lemma send_end_served:
  assumes "n \<noteq> -1 \<Longrightarrow> sending s ns junk dat e \<and> (lost e \<or> unread e = [])"
  shows "under transfer_kernel e (send_end c (n, dat)) (\<lambda>r e w. served s ns junk r e) w"
proof (cases "n = -1")
  case True
  then show ?thesis by (simp add: send_end_def send_failure_served)
next
  case False
  then have "sent_file s ns junk (e\<lparr>lost := True\<rparr>)" "sent_file s ns junk (e\<lparr>queue := queue e @ [response_msg RESP_MT_END dat]\<rparr>)"
    using assms by (auto simp: sending_def sent_file_def)
  then show ?thesis
    using False unfolding send_end_def case_prod_conv
    by (auto simp: transfer_kernel_simps intro!: under_call append_intros under_errMsg under_ret split: if_splits)
qed

lemma serveRequest_served:
  assumes "string_at req 0 = Inr c" "string_at req PATH_MAX = Inr p" "e = \<lparr>names = [], unread = s, queue = [], lost = False\<rparr>"
  shows "under transfer_kernel e (serveRequest req junk) (\<lambda>r e w. served s [c, p] junk r e) w"
proof -
  have loop: "under transfer_kernel e2 (seq (loop (file_round q f) junk) (send_end q)) (\<lambda>r e w. served s [c, p] junk r e) w"
    if e2: "e2 = \<lparr>names = [c, p], unread = s, queue = [], lost = False\<rparr>" for e2 q f and w :: world
  proof (rule under_seq, rule under_loop[where I = "\<lambda>dat e w. sending s [c, p] junk dat e"], goal_cases)
    case 1
    show ?case by (auto simp: sending_def e2 pieces_def last_data_def data_messages_def intro!: exI[of _ "[]"])
  next
    case (4 dat e w)
    show ?case
      by (rule under_mono[OF file_round_sends[OF 4]])
        (auto simp: rounds_file_round split: result.splits sum.splits intro!: send_end_served)
  qed (auto intro!: append_intros rounds_file_round)
  show ?thesis
    unfolding serveRequest_def
    by (auto simp: assms checked_def transfer_kernel_simps intro!: under_call append_intros under_err_exit send_failure_served loop
      split: if_splits)
qed

section \<open>What is received\<close>

definition all_messages :: "string \<Rightarrow> string list \<Rightarrow> string list" where
  "all_messages junk cs = data_messages junk cs @ [response_msg RESP_MT_END (last_data junk cs)]"

definition receiving :: "string list \<Rightarrow> reply list \<Rightarrow> world \<Rightarrow> string \<times> int \<times> int \<Rightarrow> world \<Rightarrow> bool" where
  \<comment> \<open>the messages of the queue come in order\<close>
  "receiving ms rs w0 = (\<lambda>(resp, num_msg, tot_bytes) w. \<exists>i < length ms. script w = map RData (drop i ms) @ rs \<and> num_msg = int i
     \<and> tot_bytes = int (RESP_SIZE * i) \<and> out w = out w0 \<and> obuf w = obuf w0)"

lemma long_at_prefix: "8 \<le> length m \<Longrightarrow> long_at (m @ x) = long_at m"
  unfolding long_at_def by (rule arg_cong[where f = sum_list], rule map_cong) (auto simp: nth_append)

definition whole :: "int \<Rightarrow> string \<Rightarrow> bool" where
  "whole k m \<longleftrightarrow> length m = RESP_SIZE \<and> long_at m = k"

lemma receive_round_counts:
  assumes "receiving ms rs w0 st w" "\<forall>i < length ms. whole (if Suc i = length ms then RESP_MT_END else RESP_MT_DATA) (ms ! i)"
    "int (RESP_SIZE * length ms) \<le> INT_MAX"
  shows "wp (receive_round d st) (\<lambda>r w'. case r of
      Return (Inl st') \<Rightarrow> receiving ms rs w0 st' w' \<and> length (script w') < length (script w)
    | Return (Inr (n, t)) \<Rightarrow> n = int (length ms) \<and> t = int (RESP_SIZE * length ms) \<and> script w' = rs \<and> out w' = out w0 \<and> obuf w' = obuf w0
    | _ \<Rightarrow> False) w"
proof -
  obtain resp i where st: "st = (resp, int i, int (RESP_SIZE * i))" "i < length ms" "script w = map RData (drop i ms) @ rs" "out w = out w0" "obuf w = obuf w0"
    using assms(1) by (cases st) (auto simp: receiving_def)
  then have q: "script w = RData (ms ! i) # map RData (drop (Suc i) ms) @ rs" by (simp add: Cons_nth_drop_Suc[symmetric])
  have w: "whole (if Suc i = length ms then RESP_MT_END else RESP_MT_DATA) (ms ! i)" using assms(2) st(2) by blast
  have le: "int (RESP_SIZE * Suc i) \<le> INT_MAX"
  proof -
    have "RESP_SIZE * Suc i \<le> RESP_SIZE * length ms" using st(2) by (intro mult_le_mono2) simp
    then show ?thesis using assms(3) by linarith
  qed
  then have i: "to_int32 (int i + 1) = int (Suc i)" "to_int32 (int (RESP_SIZE * i) + int RESP_SIZE) = int (RESP_SIZE * Suc i)"
    by (auto simp: to_int32_id INT_MAX_def INT_MIN_def RESP_SIZE_def RESP_DATA_SIZE_def)
  have m: "bytes_read MSG_SIZE (RData (ms ! i)) = ms ! i" "length (ms ! i) = RESP_SIZE"
    "long_at (store_bytes MSG_SIZE (RData (ms ! i)) resp) = (if Suc i = length ms then RESP_MT_END else RESP_MT_DATA)"
    "\<not> length (store_bytes MSG_SIZE (RData (ms ! i)) resp) < 8"
    using w long_at_prefix[of "ms ! i"]
    by (auto simp: bytes_read_def bytes_def whole_def store_bytes_def RESP_SIZE_def RESP_DATA_SIZE_def MSG_SIZE_def)
  have next_state: "receiving ms rs w0 (x, int (Suc i), int (RESP_SIZE * Suc i)) w1"
    if "Suc i \<noteq> length ms" "out w1 = out w" "obuf w1 = obuf w" "script w1 = map RData (drop (Suc i) ms) @ rs" for x and w1 :: world
    using that st unfolding receiving_def case_prod_conv by (intro exI[of _ "Suc i"]) simp
  have "RESP_MT_FAILURE \<noteq> RESP_MT_END" "RESP_MT_FAILURE \<noteq> RESP_MT_DATA" "RESP_MT_DATA \<noteq> RESP_MT_END"
    by (simp_all add: RESP_MT_FAILURE_def RESP_MT_END_def RESP_MT_DATA_def)
  moreover have "int RESP_SIZE * int (length ms) = int RESP_SIZE + int RESP_SIZE * int i" if "Suc i = length ms"
    unfolding that[symmetric] by (simp add: algebra_simps)
  ultimately show ?thesis
    using i next_state st(4,5)
    by (auto simp: receive_round_def st(1) or_die_def exec_simps q rv_def m Let_def)
qed

lemma receive_file_counts:
  assumes "ms \<noteq> []" "\<forall>i < length ms. whole (if Suc i = length ms then RESP_MT_END else RESP_MT_DATA) (ms ! i)"
    "int (RESP_SIZE * length ms) \<le> INT_MAX" "script w = map RData ms @ rs"
  shows "wp (receive_file d) (\<lambda>r w'. r = Exited EXIT_SUCCESS \<and> script w' = rs \<and> out w' = out w @ obuf w @ ''Received ''
    @ show_int (int (RESP_SIZE * length ms)) @ '' bytes ('' @ show_int (int (length ms)) @ '' messages)'' @ [NL]) w"
  unfolding receive_file_def wp_seq
proof (rule loop_rule[where I = "receiving ms rs w"], goal_cases)
  case 1
  show ?case using assms(1,4) by (auto simp: receiving_def intro!: exI[of _ 0])
next
  case (2 st w1)
  show ?case
    by (rule wp_mono[OF receive_round_counts[OF 2 assms(2,3)]])
      (auto simp: exec_simps split: result.splits sum.splits)
qed

lemma whole_messages:
  assumes "length junk = RESP_DATA_SIZE" "pieces s cs"
  shows "\<forall>i < length (all_messages junk cs). whole (if Suc i = length (all_messages junk cs) then RESP_MT_END else RESP_MT_DATA)
    (all_messages junk cs ! i)"
proof -
  have "list_all (\<lambda>c. length c \<le> RESP_DATA_SIZE) (take n cs)" for n
    using assms(2) by (auto simp: pieces_def list_all_iff dest: in_set_takeD)
  then have "length (last_data junk (take n cs)) = RESP_DATA_SIZE" for n
    by (rule length_last_data[OF assms(1)])
  moreover from this[of "length cs"] have "length (last_data junk cs) = RESP_DATA_SIZE" by simp
  ultimately show ?thesis
    by (auto simp: all_messages_def data_messages_def whole_def long_at_response RESP_SIZE_def nth_append less_Suc_eq)
qed

lemma pieces_count: "pieces s cs \<Longrightarrow> length cs \<le> length s \<and> length s \<le> RESP_DATA_SIZE * length cs"
proof -
  have "list_all (\<lambda>c. c \<noteq> [] \<and> length c \<le> RESP_DATA_SIZE) cs \<Longrightarrow>
      length cs \<le> length (concat cs) \<and> length (concat cs) \<le> RESP_DATA_SIZE * length cs"
  proof (induction cs)
    case (Cons c cs)
    then have "Suc 0 \<le> length c" by (cases c) auto
    with Cons show ?case by (simp add: algebra_simps)
  qed simp
  then show "pieces s cs \<Longrightarrow> ?thesis" by (auto simp: pieces_def)
qed

section \<open>Both end\<close>

lemma ends_file_programs: "shrinks (pmsg_file_server junk)" "shrinks (pmsg_file_client old argv)"
  unfolding pmsg_file_server_def pmsg_file_round_def serveRequest_def send_failure_def send_end_def file_round_def wait_round_def
    pmsg_file_client_def removeQueue_def receive_file_def receive_round_def Let_def case_prod_beta
  by (intro fuel_intros; simp)+

section \<open>A file from the server to the client\<close>

definition counted :: "nat \<Rightarrow> string" where
  \<comment> \<open>what the client prints after \<open>k\<close> messages\<close>
  "counted k = ''Received '' @ show_int (int (RESP_SIZE * k)) @ '' bytes ('' @ show_int (int k) @ '' messages)'' @ [NL]"

text \<open>C39: The child that serves the request of a client opens the client's queue and the file that the client named; when no
  message is lost, it sends each piece it reads, in order, at the start of a message of one fixed size, and then the end,
  and a client that receives what has been sent, in order, takes all of it, exits with success and says how much it received. But a message
  says nothing of the length of its piece: what the client counts is the size of the messages, never the length of the file.
\<close>

theorem file_transfer_counts:
  assumes "NUL \<notin> set c" "NUL \<notin> set p" "length c < PATH_MAX" "length p < PATH_MAX" "length old = PATH_MAX"
    "length junk = RESP_DATA_SIZE" "length s < 500000"
    "serveRequest (request_msg old c p) junk w1 = (Return (), w1')" "trace w1' = trace w1 @ t1"
    "run transfer_kernel \<lparr>names = [], unread = s, queue = [], lost = False\<rparr> t1 = Some e" "\<not> lost e"
  shows "names e = [c, p] \<and> (\<exists>cs. pieces s cs \<and> queue e = all_messages junk cs
    \<and> (\<exists>w2'. receive_file d (w2\<lparr>script := map RData (queue e) @ rs\<rparr>) = (Exited EXIT_SUCCESS, w2') \<and> script w2' = rs
      \<and> out w2' = out w2 @ obuf w2 @ counted (Suc (length cs))))"
proof -
  from underD[OF serveRequest_served[OF request_msg_decodes[OF assms(1-5)] refl, of s junk w1] assms(8)] assms(9,10)
  have "sent_file s [c, p] junk e" by auto
  then obtain cs where cs: "names e = [c, p]" "pieces s cs" "queue e = all_messages junk cs"
    using assms(11) by (auto simp: sent_file_def all_messages_def)
  have n: "length (all_messages junk cs) = Suc (length cs)" by (simp add: all_messages_def data_messages_def)
  have "int (RESP_SIZE * Suc (length cs)) \<le> INT_MAX"
    using pieces_count[OF cs(2)] assms(7) by (simp add: RESP_SIZE_def RESP_DATA_SIZE_def INT_MAX_def)
  then have "wp (receive_file d) (\<lambda>r w'. r = Exited EXIT_SUCCESS \<and> script w' = rs
      \<and> out w' = out w2 @ obuf w2 @ counted (Suc (length cs))) (w2\<lparr>script := map RData (queue e) @ rs\<rparr>)"
    unfolding cs(3) counted_def n[symmetric]
    using receive_file_counts[OF _ whole_messages[OF assms(6) cs(2)], of "w2\<lparr>script := map RData (all_messages junk cs) @ rs\<rparr>" rs d]
    by (simp add: n flip: length_0_conv)
  with cs show ?thesis by (auto simp: wp_def split: prod.splits)
qed

definition demo_junk :: string where "demo_junk = replicate RESP_DATA_SIZE NUL"

definition demo_file_served :: "unit result \<times> world" where
  "demo_file_served = serveRequest (request_msg (replicate PATH_MAX NUL) ''/c'' ''f'') demo_junk
     (booted [RVal 3, RVal 4, RData ''ab'', RVal 0, RData [], RVal 0])"

lemma demo_request: "string_at (request_msg (replicate PATH_MAX NUL) ''/c'' ''f'') 0 = Inr ''/c''"
  "string_at (request_msg (replicate PATH_MAX NUL) ''/c'' ''f'') PATH_MAX = Inr ''f''"
  by (rule request_msg_decodes; simp add: NUL_def PATH_MAX_def)+

lemma demo_messages: "all_messages demo_junk [''ab''] = [response_msg RESP_MT_DATA (''ab'' @ drop (Suc (Suc 0)) demo_junk), response_msg RESP_MT_END (''ab'' @ drop (Suc (Suc 0)) demo_junk)]"
  by (simp add: all_messages_def data_messages_def last_data_def)

lemma demo_serving: "fst demo_file_served = Return ()" "trace (snd demo_file_served) = [(Ipc (Mq_open ''/c'' ''O_WRONLY''), RVal 3),
   (Path (Open ''f'' ''O_RDONLY'' 0), RVal 4), (Fd (Read 4 RESP_DATA_SIZE), RData ''ab''),
   (Ipc (Mq_send 3 (response_msg RESP_MT_DATA (''ab'' @ drop (Suc (Suc 0)) demo_junk))), RVal 0), (Fd (Read 4 RESP_DATA_SIZE), RData []),
   (Ipc (Mq_send 3 (response_msg RESP_MT_END (''ab'' @ drop (Suc (Suc 0)) demo_junk))), RVal 0)]"
  by (simp_all add: demo_file_served_def serveRequest_def demo_request run_simps checked_def file_round_def store_bytes_def bytes_read_def
      send_end_def RESP_DATA_SIZE_def Let_def)

lemma file_transfer_counts_witness:
  "out (snd (receive_file 3 (booted (map RData (all_messages demo_junk [''ab'']))))) = ''Received 8208 bytes (2 messages)'' @ [NL]"
proof -
  let ?e = "\<lparr>names = [''/c'', ''f''], unread = [], queue = all_messages demo_junk [''ab''], lost = False\<rparr>"
  have n: "length ''/c'' < PATH_MAX" "length ''f'' < PATH_MAX" by (simp_all add: PATH_MAX_def)
  have e: "run transfer_kernel \<lparr>names = [], unread = ''ab'', queue = [], lost = False\<rparr> (trace (snd demo_file_served)) = Some ?e"
    by (simp add: demo_serving demo_messages transfer_kernel_simps rv_def RESP_DATA_SIZE_def)
  have f: "NUL \<notin> set ''/c''" "NUL \<notin> set ''f''" "length (replicate PATH_MAX NUL) = PATH_MAX" "length demo_junk = RESP_DATA_SIZE"
    "length ''ab'' < 500000" "\<not> lost ?e"
    by (simp_all add: NUL_def demo_junk_def)
  have s: "serveRequest (request_msg (replicate PATH_MAX NUL) ''/c'' ''f'') demo_junk
      (booted [RVal 3, RVal 4, RData ''ab'', RVal 0, RData [], RVal 0]) = (Return (), snd demo_file_served)"
    using demo_serving(1) by (simp add: demo_file_served_def prod_eq_iff)
  have t: "u = trace (booted rs) @ u" for u rs by simp
  note served = file_transfer_counts[where d = 3 and ?w2.0 = "booted []" and rs = "[]", OF f(1,2) n(1,2) f(3-5) s t e f(6)]
  have w2: "(booted [])\<lparr>script := x\<rparr> = booted x" for x by (simp add: booted_def)
  from served obtain cs where cs: "queue ?e = all_messages demo_junk cs"
      "out (snd (receive_file 3 (booted (map RData (all_messages demo_junk [''ab'']))))) = counted (Suc (length cs))"
    by (auto simp: w2)
  from arg_cong[OF cs(1), of length] have "length cs = 1" by (simp add: all_messages_def data_messages_def)
  moreover have "counted 2 = ''Received 8208 bytes (2 messages)'' @ [NL]"
  proof -
    have "show_int 8208 = ''8208''" "show_int 2 = ''2''" by (simp_all add: show_int_def show_nat.simps digit_char_def char_of_def bit_0)
    then show ?thesis by (simp add: counted_def RESP_SIZE_def RESP_DATA_SIZE_def)
  qed
  ultimately show ?thesis using cs(2) by (simp add: numeral_2_eq_2)
qed

end
