(* ===== verification/Utils.thy ===== *)
theory Utils
  imports Conform
begin

text \<open>
  The rest of \<open>lib/utils.h\<close>: reading a line into a dynamic array, tests of the kind of a file, and strings built by hand.
\<close>

section \<open>Lines and files\<close>

definition fgetstr_round :: "int \<Rightarrow> char vec \<times> cstate \<Rightarrow> (char vec \<times> cstate + string option \<times> cstate) prog" where
  \<comment> \<open>a place is made first, then a byte is read into it\<close>
  "fgetstr_round fd = (\<lambda>(chars, st). case vec_push NUL chars st of
       Inl f \<Rightarrow> leave (None, st)
     | Inr (chars', st') \<Rightarrow> call (Fd (Read fd 1)) (\<lambda>r.
         if rv r = -1 then leave (None, st')
         else if rv r = 0 then leave (Some (c_str (elems chars)), st')
         else case bytes_read 1 r of [] \<Rightarrow> stop (Fault Uninitialised)
           | c # _ \<Rightarrow> if c = NL then leave (Some (c_str (elems chars)), st')
             else again (chars'\<lparr>elems := butlast (elems chars') @ [c]\<rparr>, st')))"

definition fgetstr :: "int \<Rightarrow> cstate \<Rightarrow> (string option \<times> cstate) prog" where
  "fgetstr fd st = loop (fgetstr_round fd) (vec_init, st)"

definition S_ISTYPE :: "int \<Rightarrow> int \<Rightarrow> int" where
  "S_ISTYPE t mode = (if (mode div 4096) mod 16 = t then 1 else 0)"

definition file_mode :: "reply \<Rightarrow> int" where
  "file_mode sb = (case sb of RInts (m # ms) \<Rightarrow> m | _ \<Rightarrow> 0)"

definition file_exists :: "string \<Rightarrow> int prog" where
  \<comment> \<open>\<open>S_IFREG\<close> is 8 in the bits of the type\<close>
  "file_exists path = or_die (Path (Stat path)) ''stat'' (\<lambda>sb. ret (S_ISTYPE 8 (file_mode sb)))"

definition directory_exists :: "string \<Rightarrow> int prog" where
  "directory_exists path = or_die (Path (Stat path)) ''stat'' (\<lambda>sb. ret (S_ISTYPE 4 (file_mode sb)))"

section \<open>Strings by hand\<close>

definition digitToChar :: "int \<Rightarrow> char" where
  "digitToChar num = (if num < 0 \<or> 9 < num then NUL else char_of (nat num + 48))"

function num_digits :: "int \<Rightarrow> string" where
  \<comment> \<open>\<open>reverseBuf\<close>\<close>
  "num_digits num = (if 0 < num then digitToChar (num mod 10) # num_digits (num div 10) else [])"
  by pat_completeness auto
termination by (relation "measure nat") auto

declare num_digits.simps [simp del]

definition numToStr :: "int \<Rightarrow> string" where
  \<comment> \<open>the second loop copies the buffer backwards; nothing is copied when there is no digit\<close>
  "numToStr num = rev (num_digits num)"

definition str_insert :: "string \<Rightarrow> string \<Rightarrow> nat \<Rightarrow> string c" where
  \<comment> \<open>what is left in \<open>buf\<close>; both loops read \<open>base\<close> from \<open>index\<close> on, which must not be behind its null byte\<close>
  "str_insert base str index = (if length base < index then Inl Out_of_bounds
     else Inr (take index base @ str @ drop index base))"

lemma num_digits_shown: "0 < n \<Longrightarrow> rev (num_digits n) = show_nat (nat n)"
proof (induction n rule: num_digits.induct)
  case (1 n)
  have d: "digitToChar (n mod 10) = digit_char (nat n mod 10)"
  proof -
    have "\<not> n mod 10 < 0" "\<not> 9 < n mod 10" by presburger+
    then show ?thesis using 1(2) by (simp add: digitToChar_def digit_char_def nat_mod_distrib add.commute)
  qed
  show ?case
  proof (cases "n < 10")
    case True
    then have "n div 10 = 0" "nat n mod 10 = nat n" using 1(2) by simp_all
    then show ?thesis
      using 1(2) True d by (simp add: num_digits.simps[of n] num_digits.simps[of 0] show_nat.simps[of "nat n"])
  next
    case False
    then have "0 < n div 10" by simp
    with 1 have "rev (num_digits (n div 10)) = show_nat (nat (n div 10))" by simp
    then show ?thesis
      using 1(2) False d by (simp add: num_digits.simps[of n] show_nat.simps[of "nat n"] nat_div_distrib)
  qed
qed

text \<open>\<open>numToStr\<close> prints a positive number as \<open>%d\<close> does; zero and every negative number become the empty string.\<close>

lemma numToStr_shows: "numToStr n = (if 0 < n then show_int n else [])"
  using num_digits_shown[of n] by (simp add: numToStr_def show_int_def num_digits.simps[of n])

end
