(* ===== verification/ListPid.thy ===== *)
theory ListPid
  imports Utils GetNum
begin

text \<open>
  \<open>12_System_And_Process_Info/list_pid.c\<close>: the processes of a user, from the status files under \<open>/proc\<close>. The program
  calls \<open>messExit\<close>, which no file of the repository defines: it is a parameter.
\<close>

section \<open>Reading a status file\<close>

definition MAX_COMM_NAME :: nat where "MAX_COMM_NAME = 64"
definition MAX_PID :: nat where "MAX_PID = 32"
definition MAX_PID_LENGTH :: nat where "MAX_PID_LENGTH = 9"
definition LP_TAB :: char where "LP_TAB = CHR 0x09"

record process_info =
  pid_text :: "string option"     \<comment> \<open>\<open>None\<close> while it is not written\<close>
  comm_name :: "string option"

definition uid_from_name :: "string option \<Rightarrow> int prog" where
  \<comment> \<open>\<open>userIdFromName\<close>\<close>
  "uid_from_name name = (case name of None \<Rightarrow> ret (to_uint32 (-1))
     | Some s \<Rightarrow> if s = [] then ret (to_uint32 (-1))
       else let (u, endptr, erange) = strtol s 10 in
         (if erange then set_errno ERANGE else (\<lambda>k. k))
           (if endptr = [] then ret (to_uint32 u)
            else call (User (Getpwnam s)) (\<lambda>r. if is_null_reply r then ret (to_uint32 (-1)) else ret (to_uint32 (rv r)))))"

definition getline_read :: "int \<Rightarrow> nat \<Rightarrow> string \<Rightarrow> (nat \<times> string + string option) prog" where
  "getline_read fd bytes_of line = call (Fd (Read fd 1)) (\<lambda>r.
     if rv r = -1 then event (Lib ''free'' []) (leave None)
     else if rv r = 0 then leave (Some line)
     else case bytes_read 1 r of [] \<Rightarrow> stop (Fault Uninitialised)
       | c # _ \<Rightarrow> if c = NL then leave (Some line) else again (bytes_of, line @ [c]))"

definition getline_round :: "int \<Rightarrow> nat \<times> string \<Rightarrow> (nat \<times> string + string option) prog" where
  \<comment> \<open>the size of the block, and the line so far\<close>
  "getline_round fd = (\<lambda>(n, line). if n \<le> length line + 1
     then lib ''realloc'' [int (n * 2)] (\<lambda>t. if is_null_reply t then event (Lib ''free'' []) (leave None)
       else getline_read fd (n * 2) line)
     else getline_read fd n line)"

definition getline_clone :: "int \<Rightarrow> string option prog" where
  "getline_clone fd = lib ''malloc'' [64] (\<lambda>p. if is_null_reply p then ret None
     else seq (loop (getline_round fd) (64, [])) (\<lambda>line. ret (map_option c_str line)))"

definition char_index :: "string \<Rightarrow> char \<Rightarrow> nat" where
  \<comment> \<open>\<open>getCharIndex\<close>\<close>
  "char_index line target = length (takeWhile (\<lambda>c. c \<noteq> target) line)"

definition value_of_line :: "string \<Rightarrow> string c" where
  \<comment> \<open>\<open>getValue\<close>, into 50 bytes; without a tab the loop starts behind the null byte\<close>
  "value_of_line line = (let startIndex = char_index line LP_TAB + 1 in
     if length line < startIndex then Inl Out_of_bounds
     else let v = takeWhile (\<lambda>c. c \<noteq> LP_TAB) (drop startIndex line) in
       if 50 \<le> length v then Inl Buffer_overflow else Inr v)"

definition field_of_line :: "string \<Rightarrow> string c" where
  \<comment> \<open>\<open>getField\<close>, into 50 bytes\<close>
  "field_of_line line = (let firstDelim = char_index line (CHR '':'') in
     if 50 \<le> firstDelim then Inl Buffer_overflow else Inr (take firstDelim line))"

definition copy_into :: "bool \<Rightarrow> nat \<Rightarrow> string \<Rightarrow> 'a prog \<Rightarrow> 'a prog" where
  \<comment> \<open>\<open>strcpy\<close> to a member of the entry; \<open>arr\<close>: the array was allocated\<close>
  "copy_into arr n v k = (if \<not> arr then stop (Fault Null_deref) else if n \<le> length v then stop (Fault Buffer_overflow) else k)"

definition finish_line :: "nat \<times> process_info \<Rightarrow> (nat \<times> process_info + bool \<times> process_info) prog" where
  "finish_line = (\<lambda>(collected, info). event (Lib ''free'' []) (if collected = 3 then leave (True, info) else again (collected, info)))"

definition status_line :: "bool \<Rightarrow> int \<Rightarrow> nat \<times> process_info \<Rightarrow> string \<Rightarrow> (nat \<times> process_info + bool \<times> process_info) prog" where
  "status_line arr uid = (\<lambda>(collected, info) line. checked (field_of_line line) (\<lambda>fld.
     if strcmp fld ''Uid'' = 0 then checked (value_of_line line) (\<lambda>v.
       let (u, endptr, erange) = strtol v 10 in
         (if erange then set_errno ERANGE else (\<lambda>k. k))
         (if endptr \<noteq> [] then errExit ''strtol''
          else if uid \<noteq> to_uint32 u then event (Lib ''free'' []) (leave (False, info))
          else finish_line (Suc collected, info)))
     else if strcmp fld ''Name'' = 0 then checked (value_of_line line) (\<lambda>v.
       copy_into arr MAX_COMM_NAME v (finish_line (Suc collected, info\<lparr>comm_name := Some v\<rparr>)))
     else if strcmp fld ''Pid'' = 0 then checked (value_of_line line) (\<lambda>v.
       copy_into arr MAX_PID v (finish_line (Suc collected, info\<lparr>pid_text := Some v\<rparr>)))
     else finish_line (collected, info)))"

definition status_round :: "bool \<Rightarrow> int \<Rightarrow> int \<Rightarrow> nat \<times> process_info \<Rightarrow> (nat \<times> process_info + bool \<times> process_info) prog" where
  "status_round arr uid fd st = seq (getline_clone fd) (\<lambda>line.
     case line of None \<Rightarrow> errExit ''getline_clone'' | Some l \<Rightarrow> status_line arr uid st l)"

definition status_path :: "string \<Rightarrow> string" where
  "status_path processID = ''/proc/'' @ processID @ ''/status''"

definition getProcessInfo :: "bool \<Rightarrow> int \<Rightarrow> process_info \<Rightarrow> string \<Rightarrow> (bool \<times> process_info) prog" where
  \<comment> \<open>the descriptor is closed only when the process is one of the user's\<close>
  "getProcessInfo arr uid info processID = lib ''malloc'' [4096] (\<lambda>m.
     if is_null_reply m then errExit ''malloc''
     else if 4096 \<le> length (status_path processID) then stop (Fault Buffer_overflow)
     else call (Path (Open (status_path processID) ''O_RDONLY'' 0)) (\<lambda>f.
       if rv f = -1 then get errno (\<lambda>e. if e = ENOENT then ret (False, info) else errExit ''open'')
       else event (Lib ''free'' []) (seq (loop (status_round arr uid (rv f)) (0, info)) (\<lambda>(ok, info').
         if ok then call (Fd (Close (rv f))) (\<lambda>_. ret (True, info')) else ret (False, info')))))"

section \<open>list\_pid\<close>

definition unwritten :: process_info where
  "unwritten = \<lparr>pid_text = None, comm_name = None\<rparr>"

definition list_round :: "bool \<Rightarrow> int \<Rightarrow> int \<Rightarrow> process_info list \<times> process_info \<times> nat \<Rightarrow>
    (process_info list \<times> process_info \<times> nat + process_info list) prog" where
  \<comment> \<open>the entries so far, the one that is written next, the size of the array\<close>
  "list_round arr uid dir = (\<lambda>(ps, cur, n). call (Path (Readdir dir)) (\<lambda>entry. case entry of
       RStrs (d # ds) \<Rightarrow> (let (v, endPtr, erange) = strtol d 10 in
         (if erange then set_errno ERANGE else (\<lambda>k. k))
         (if endPtr \<noteq> [] then again (ps, cur, n)
          else seq (getProcessInfo arr uid cur d) (\<lambda>(ok, info).
            let ps' = (if ok then ps @ [info] else ps); cur' = (if ok then unwritten else info) in
            if n \<le> length ps' + 1 then lib ''realloc'' [int (96 * n * 2)] (\<lambda>t.
              if is_null_reply t then event (Lib ''free'' []) (errExit ''realloc'') else again (ps', cur', n * 2))
            else again (ps', cur', n))))
     | _ \<Rightarrow> leave ps))"

definition print_process :: "process_info \<Rightarrow> unit prog" where
  \<comment> \<open>\<open>spacing\<close> has the length that is left of nine\<close>
  "print_process p = (case (pid_text p, comm_name p) of
      (Some i, Some n) \<Rightarrow> if MAX_PID_LENGTH < length i then stop (Fault Buffer_overflow)
        else printf (''    '' @ i @ replicate (MAX_PID_LENGTH - length i) (CHR '' '') @ ''|    '' @ n @ [NL]) (ret ())
    | _ \<Rightarrow> stop (Fault Uninitialised))"

definition print_head :: "string \<Rightarrow> string" where
  "print_head username = [NL] @ ''The user '' @ [CHR 0x27] @ username @ [CHR 0x27] @ '' owns the following proccesses:'' @ [NL, NL]
     @ ''    Pid           Name'' @ [NL] @ ''--------------------------'' @ [NL]"

definition print_tail :: string where
  "print_tail = ''--------------------------'' @ [NL]"

definition list_pid :: "unit prog \<Rightarrow> string list \<Rightarrow> unit prog" where
  "list_pid messExit argv =
     (if length argv \<noteq> 2 then usageErr ''upro <username>''
      else seq (uid_from_name (Some (argv ! 1))) (\<lambda>uid.
        if uid = to_uint32 (-1) then messExit
        else lib ''malloc'' [96 * 64] (\<lambda>m. call (Path (Opendir ''/proc'')) (\<lambda>dir.
          if is_null_reply dir then stop (Fault Null_deref)
          else seq (loop (list_round (\<not> is_null_reply m) uid (rv dir)) ([], unwritten, 64)) (\<lambda>ps.
            call (Path (Closedir (rv dir))) (\<lambda>_.
              printf (print_head (argv ! 1)) (seq (each print_process ps) (\<lambda>_. printf print_tail (exit_prog EXIT_SUCCESS)))))))))"

section \<open>What it prints\<close>

text \<open>
  The kernel as far as \<open>list_pid\<close> depends on it: the entries of \<open>/proc\<close> that \<open>readdir\<close> has not returned yet, the
  status files, the texts that are left behind every open descriptor, and the accounts.
\<close>

record proc_fs =
  entries_left :: "string list"
  texts_open :: "int \<Rightarrow> string option"

definition next_entry :: "proc_fs \<Rightarrow> reply \<Rightarrow> proc_fs option" where
  "next_entry e r = (case entries_left e of
      [] \<Rightarrow> (case r of RStrs (d # ds) \<Rightarrow> None | _ \<Rightarrow> Some e)
    | d # ds \<Rightarrow> if r = RStrs [d] then Some (e\<lparr>entries_left := ds\<rparr>) else None)"

definition open_status :: "(string \<Rightarrow> string option) \<Rightarrow> proc_fs \<Rightarrow> string \<Rightarrow> reply \<Rightarrow> proc_fs option" where
  "open_status files e p r = (case files p of
      None \<Rightarrow> if r = RErr ENOENT then Some e else None
    | Some t \<Rightarrow> (case r of RErr n \<Rightarrow> if n = ENOENT then None else Some e
        | _ \<Rightarrow> if 0 \<le> rv r \<and> texts_open e (rv r) = None then Some (e\<lparr>texts_open := (texts_open e)(rv r \<mapsto> t)\<rparr>) else None))"

definition next_byte :: "proc_fs \<Rightarrow> int \<Rightarrow> reply \<Rightarrow> proc_fs option" where
  "next_byte e fd r = (case texts_open e fd of
      None \<Rightarrow> None
    | Some [] \<Rightarrow> if rv r \<le> 0 then Some e else None
    | Some (c # cs) \<Rightarrow> if rv r = -1 then Some e
        else if rv r = 1 \<and> bytes_read 1 r = [c] then Some (e\<lparr>texts_open := (texts_open e)(fd \<mapsto> cs)\<rparr>) else None)"

definition proc_kernel :: "(string \<Rightarrow> string option) \<Rightarrow> (string \<Rightarrow> int option) \<Rightarrow> proc_fs \<Rightarrow> syscall \<Rightarrow> reply \<Rightarrow> proc_fs option" where
  "proc_kernel files uids e c r = (case c of
      Path (Readdir d) \<Rightarrow> next_entry e r
    | Path (Open p fl m) \<Rightarrow> open_status files e p r
    | Path (Opendir p) \<Rightarrow> if is_null_reply r then None else Some e
    | Fd (Read fd n) \<Rightarrow> next_byte e fd r
    | Fd (Close fd) \<Rightarrow> Some (e\<lparr>texts_open := (texts_open e)(fd := None)\<rparr>)
    | Lib f as \<Rightarrow> if f = ''malloc'' \<and> is_null_reply r then None else Some e
    | User (Getpwnam s) \<Rightarrow> (case uids s of None \<Rightarrow> if is_null_reply r then Some e else None
        | Some u \<Rightarrow> if rv r = u \<and> \<not> is_null_reply r then Some e else None)
    | _ \<Rightarrow> Some e)"

lemma proc_kernel_simps:
  "proc_kernel files uids e (Path (Readdir d)) r = next_entry e r"
  "proc_kernel files uids e (Path (Open p fl m)) r = open_status files e p r"
  "proc_kernel files uids e (Path (Opendir p)) r = (if is_null_reply r then None else Some e)"
  "proc_kernel files uids e (Path (Closedir d)) r = Some e"
  "proc_kernel files uids e (Fd (Read fd n)) r = next_byte e fd r"
  "proc_kernel files uids e (Fd (Close fd)) r = Some (e\<lparr>texts_open := (texts_open e)(fd := None)\<rparr>)"
  "proc_kernel files uids e (Lib f as) r = (if f = ''malloc'' \<and> is_null_reply r then None else Some e)"
  "proc_kernel files uids e (User (Getpwnam s)) r = (case uids s of None \<Rightarrow> if is_null_reply r then Some e else None
        | Some u \<Rightarrow> if rv r = u \<and> \<not> is_null_reply r then Some e else None)"
  by (simp_all add: proc_kernel_def)

text \<open>A status file: its fields and their values. A value may hold several words, of which the program takes the first.\<close>

type_synonym status = "(string \<times> string) list"

definition status_row :: "string \<times> string \<Rightarrow> string" where
  "status_row p = fst p @ CHR '':'' # TAB # snd p"

definition status_text :: "status \<Rightarrow> string" where
  "status_text fs = concat (map (\<lambda>p. status_row p @ [NL]) fs)"

definition first_word :: "string \<Rightarrow> string" where
  "first_word v = takeWhile (\<lambda>c. c \<noteq> TAB) v"

definition field_value :: "status \<Rightarrow> string \<Rightarrow> string" where
  "field_value fs f = (case map_of fs f of None \<Rightarrow> [] | Some v \<Rightarrow> first_word v)"

definition wanted :: "string set" where
  "wanted = {''Name'', ''Pid'', ''Uid''}"

definition plain_row :: "string \<times> string \<Rightarrow> bool" where
  "plain_row p \<longleftrightarrow> set (fst p) \<inter> {CHR '':'', TAB, NL, NUL} = {} \<and> set (snd p) \<inter> {NL, NUL} = {} \<and> length (fst p) < 50
     \<and> (fst p \<in> wanted \<longrightarrow> length (first_word (snd p)) < 50)"

definition good_status :: "status \<Rightarrow> bool" where
  "good_status fs \<longleftrightarrow> distinct (map fst fs) \<and> wanted \<subseteq> set (map fst fs) \<and> list_all plain_row fs
     \<and> length (field_value fs ''Pid'') \<le> MAX_PID_LENGTH
     \<and> field_value fs ''Uid'' \<in> show_int ` {0..<2 ^ 32}"

definition numeric :: "string \<Rightarrow> bool" where
  \<comment> \<open>as \<open>strtol\<close> has it\<close>
  "numeric d \<longleftrightarrow> fst (snd (strtol d 10)) = []"

definition owned :: "(string \<Rightarrow> status option) \<Rightarrow> int \<Rightarrow> string list \<Rightarrow> status list" where
  \<comment> \<open>the processes of the user among the entries, in their order\<close>
  "owned procs u ds = filter (\<lambda>fs. field_value fs ''Uid'' = show_int u) (List.map_filter procs (filter numeric ds))"

definition process_row :: "status \<Rightarrow> string" where
  "process_row fs = ''    '' @ field_value fs ''Pid'' @ replicate (MAX_PID_LENGTH - length (field_value fs ''Pid'')) (CHR '' '')
     @ ''|    '' @ field_value fs ''Name'' @ [NL]"

definition status_files :: "(string \<Rightarrow> status option) \<Rightarrow> (string \<Rightarrow> string option) \<Rightarrow> string list \<Rightarrow> bool" where
  \<comment> \<open>the files that the program may open\<close>
  "status_files procs files ds \<longleftrightarrow> list_all (\<lambda>d. numeric d \<longrightarrow> length (status_path d) < 4096
     \<and> files (status_path d) = map_option status_text (procs d) \<and> (\<forall>fs. procs d = Some fs \<longrightarrow> good_status fs)) ds"

section \<open>Reading a line of the file\<close>

definition at_text :: "proc_fs \<Rightarrow> int \<Rightarrow> string \<Rightarrow> proc_fs" where
  "at_text e fd t = e\<lparr>texts_open := (texts_open e)(fd \<mapsto> t)\<rparr>"

lemma at_text_simps [simp]: "texts_open (at_text e fd t) = (texts_open e)(fd \<mapsto> t)" "entries_left (at_text e fd t) = entries_left e"
  "at_text (at_text e fd t) fd t' = at_text e fd t'" "(at_text e fd t)\<lparr>texts_open := f\<rparr> = e\<lparr>texts_open := f\<rparr>"
  by (simp_all add: at_text_def)

lemma at_text_self: "texts_open e fd = Some t \<Longrightarrow> at_text e fd t = e"
  by (cases e) (simp add: at_text_def fun_upd_idem)

lemma appends_getline [append_intros]: "appends (getline_clone fd)" "appends (getline_round fd z)" "appends (getline_read fd n l)"
proof -
  show b: "appends (getline_read fd n l)" for n l
    unfolding getline_read_def by (intro append_intros)
  show r: "appends (getline_round fd z)" for z
    unfolding getline_round_def by (intro append_intros b)
  show "appends (getline_clone fd)"
    unfolding getline_clone_def by (intro append_intros r)
qed

lemma rounds_getline: "rounds (getline_round fd z)" "shrinks (getline_clone fd)"
proof -
  have r: "rounds (getline_round fd z)" for z
    unfolding getline_round_def getline_read_def lib_def by (intro fuel_intros; simp)
  show "rounds (getline_round fd z)" "shrinks (getline_clone fd)"
    unfolding getline_clone_def lib_def by (intro fuel_intros r; simp)+
qed

lemma getline_reads:
  assumes "texts_open e fd = Some (l @ NL # t)" "NL \<notin> set l" "NUL \<notin> set l"
  shows "under (proc_kernel files uids) e (getline_clone fd)
    (finishes (\<lambda>x e' w'. same_out w w' \<and> (x = None \<or> x = Some l \<and> e' = at_text e fd t)) (\<lambda>_ _. False)) w"
proof -
  let ?K = "proc_kernel files uids"
  let ?I = "\<lambda>(n, line) e1 w1. same_out w w1 \<and> (\<exists>l2. l = line @ l2 \<and> e1 = at_text e fd (l2 @ NL # t))"
  let ?P = "\<lambda>x e' w'. same_out w w' \<and> (x = None \<or> x = Some l \<and> e' = at_text e fd t)"
  have read: "under ?K e1 (getline_read fd n line) (finishes (\<lambda>x e' w'. case x of Inl s' \<Rightarrow> ?I s' e' w' | Inr a \<Rightarrow> ?P a e' w') (\<lambda>_ _. False)) w1"
    if i: "?I (n0, line) e1 w1" for n0 n line e1 and w1 :: world
  proof -
    obtain l2 where l2: "l = line @ l2" "e1 = at_text e fd (l2 @ NL # t)" using i by auto
    show ?thesis
    proof (cases l2)
      case Nil
      with i l2 show ?thesis
        unfolding getline_read_def
        by (intro under_call) (auto simp: proc_kernel_simps next_byte_def same_out_def split: if_splits intro!: append_intros under_event under_leave)
    next
      case (Cons c cs)
      then have "c \<noteq> NL" using assms(2) l2(1) by auto
      with i l2 Cons show ?thesis
        unfolding getline_read_def
        by (intro under_call) (auto simp: proc_kernel_simps next_byte_def same_out_def split: if_splits intro!: append_intros under_event under_leave under_again)
    qed
  qed
  have round: "under ?K e1 (getline_round fd s) (finishes (\<lambda>x e' w'. case x of Inl s' \<Rightarrow> ?I s' e' w' | Inr a \<Rightarrow> ?P a e' w') (\<lambda>_ _. False)) w1"
    if i: "?I s e1 w1" for s e1 and w1 :: world
  proof -
    obtain n line where s: "s = (n, line)" by (cases s)
    have "?I (n, line) e1 w2" if "same_out w1 w2" for w2 using i s that by (auto simp: same_out_def)
    note rd = read[OF this]
    have o: "out w1 = out w" "obuf w1 = obuf w" using i s by (auto simp: same_out_def)
    show ?thesis
      unfolding getline_round_def lib_def s case_prod_conv
      by (auto simp: proc_kernel_simps same_out_def o intro!: under_call rd append_intros under_event under_leave)
  qed
  have "under ?K e (loop (getline_round fd) (64, [])) (finishes ?P (\<lambda>_ _. False)) w1" if "same_out w w1" for w1 :: world
    by (rule under_repeat[where I = ?I]) (use that at_text_self[OF assms(1)] round in \<open>auto intro!: append_intros rounds_getline\<close>)
  note lines = this
  show ?thesis
    unfolding getline_clone_def lib_def
    by (auto simp: proc_kernel_simps same_out_def assms(3) c_str_id intro!: under_call under_then[OF lines] append_intros under_ret)
qed

section \<open>Reading a status file\<close>

lemma row_parts:
  assumes "plain_row (f, v)"
  shows "field_of_line (status_row (f, v)) = Inr f" "NL \<notin> set (status_row (f, v))" "NUL \<notin> set (status_row (f, v))"
    "f \<in> wanted \<Longrightarrow> value_of_line (status_row (f, v)) = Inr (first_word v)"
proof -
  have f: "CHR '':'' \<notin> set f" "TAB \<notin> set f" using assms by (auto simp: plain_row_def)
  have i: "char_index (status_row (f, v)) (CHR '':'') = length f" "char_index (status_row (f, v)) LP_TAB = Suc (length f)"
    using f by (auto simp: char_index_def status_row_def takeWhile_append LP_TAB_def TAB_def)
  show "field_of_line (status_row (f, v)) = Inr f"
    using assms i(1) by (simp add: field_of_line_def plain_row_def status_row_def)
  show "NL \<notin> set (status_row (f, v))" "NUL \<notin> set (status_row (f, v))"
    using assms by (auto simp: plain_row_def status_row_def TAB_def NL_def NUL_def)
  show "f \<in> wanted \<Longrightarrow> value_of_line (status_row (f, v)) = Inr (first_word v)"
    using assms i(2) by (simp add: value_of_line_def plain_row_def status_row_def first_word_def LP_TAB_def TAB_def)
qed

text \<open>After the fields of \<open>done\<close>: those that are wanted are counted, and the members of the entry that they fill are right.\<close>

definition collected_from :: "status \<Rightarrow> status \<Rightarrow> int \<Rightarrow> nat \<times> process_info \<Rightarrow> bool" where
  "collected_from fs seen u = (\<lambda>(n, info). n = card (fst ` set seen \<inter> wanted) \<and> n < 3
     \<and> (''Name'' \<in> fst ` set seen \<longrightarrow> comm_name info = Some (field_value fs ''Name''))
     \<and> (''Pid'' \<in> fst ` set seen \<longrightarrow> pid_text info = Some (field_value fs ''Pid''))
     \<and> (''Uid'' \<in> fst ` set seen \<longrightarrow> field_value fs ''Uid'' = show_int u))"

definition entry_of :: "status \<Rightarrow> process_info" where
  "entry_of fs = \<lparr>pid_text = Some (field_value fs ''Pid''), comm_name = Some (field_value fs ''Name'')\<rparr>"

definition line_result :: "status \<Rightarrow> status \<Rightarrow> int \<Rightarrow> nat \<times> process_info + bool \<times> process_info \<Rightarrow> bool" where
  "line_result fs seen u x = (case x of Inl s \<Rightarrow> collected_from fs seen u s
     | Inr (ok, info) \<Rightarrow> ok = (field_value fs ''Uid'' = show_int u) \<and> (ok \<longrightarrow> info = entry_of fs))"

lemma all_wanted: "card (A \<inter> wanted) = 3 \<longleftrightarrow> wanted \<subseteq> A"
proof -
  have w: "card wanted = 3" "finite wanted" by (simp_all add: wanted_def)
  have "A \<inter> wanted \<subseteq> wanted" by blast
  then show ?thesis using w card_subset_eq[of wanted "A \<inter> wanted"] by (metis Int_absorb1 inf.absorb_iff2 inf_commute)
qed

lemma counted_next:
  assumes "distinct (map fst (seen @ (f, v) # todo))"
  shows "card (fst ` set (seen @ [(f, v)]) \<inter> wanted) = (if f \<in> wanted then Suc else (\<lambda>n. n)) (card (fst ` set seen \<inter> wanted))"
proof -
  have "f \<notin> fst ` set seen" using assms by auto
  then show ?thesis by (auto simp: wanted_def[symmetric] Int_insert_left)
qed

lemma finish_collected:
  assumes "fs = seen @ (f, v) # todo" "good_status fs" "collected_from fs seen u (n, old)"
    "n' = (if f \<in> wanted then Suc n else n)"
    "f = ''Name'' \<Longrightarrow> comm_name info = Some (field_value fs ''Name'') \<and> pid_text info = pid_text old"
    "f = ''Pid'' \<Longrightarrow> pid_text info = Some (field_value fs ''Pid'') \<and> comm_name info = comm_name old"
    "f = ''Uid'' \<Longrightarrow> field_value fs ''Uid'' = show_int u" "f \<notin> {''Name'', ''Pid''} \<Longrightarrow> info = old"
  shows "line_result fs (seen @ [(f, v)]) u (if n' = 3 then Inr (True, info) else Inl (n', info))"
proof -
  have d: "distinct (map fst (seen @ (f, v) # todo))" using assms(1,2) by (simp add: good_status_def)
  have n: "n' = card (fst ` set (seen @ [(f, v)]) \<inter> wanted)"
    using counted_next[OF d] assms(3,4) by (simp add: collected_from_def)
  have le: "n' \<le> 3" unfolding n using card_mono[of wanted "fst ` set (seen @ [(f, v)]) \<inter> wanted"] by (simp add: wanted_def)
  have c: "''Name'' \<in> fst ` set seen \<Longrightarrow> comm_name old = Some (field_value fs ''Name'')"
      "''Pid'' \<in> fst ` set seen \<Longrightarrow> pid_text old = Some (field_value fs ''Pid'')"
      "''Uid'' \<in> fst ` set seen \<Longrightarrow> field_value fs ''Uid'' = show_int u"
    using assms(3) by (simp_all add: collected_from_def)
  have seen: "g \<in> fst ` set (seen @ [(f, v)]) \<longleftrightarrow> g = f \<or> g \<in> fst ` set seen" for g by auto
  have kept: "comm_name info = comm_name old" if "f \<noteq> ''Name''" using assms(6,8) that by (cases "f = ''Pid''") auto
  have kept2: "pid_text info = pid_text old" if "f \<noteq> ''Pid''" using assms(5,8) that by (cases "f = ''Name''") auto
  have N: "''Name'' \<in> fst ` set (seen @ [(f, v)]) \<longrightarrow> comm_name info = Some (field_value fs ''Name'')"
    unfolding seen using kept c(1) assms(5) by (cases "f = ''Name''") auto
  have P: "''Pid'' \<in> fst ` set (seen @ [(f, v)]) \<longrightarrow> pid_text info = Some (field_value fs ''Pid'')"
    unfolding seen using kept2 c(2) assms(6) by (cases "f = ''Pid''") auto
  have U: "''Uid'' \<in> fst ` set (seen @ [(f, v)]) \<longrightarrow> field_value fs ''Uid'' = show_int u"
    unfolding seen using c(3) assms(7) by (cases "f = ''Uid''") auto
  show ?thesis
  proof (cases "n' = 3")
    case True
    then have "wanted \<subseteq> fst ` set (seen @ [(f, v)])" using n all_wanted by metis
    then show ?thesis using True N P U by (cases info) (auto simp: line_result_def entry_of_def wanted_def)
  next
    case False
    then show ?thesis using le n N P U by (simp add: line_result_def collected_from_def)
  qed
qed

lemma appends_status [append_intros]: "appends (status_line arr uid z l)" "appends (status_round arr uid fd z)"
proof -
  have fin: "appends (finish_line z)" for z
    unfolding finish_line_def by (cases z) (auto intro!: append_intros)
  show l: "appends (status_line arr uid z l)" for z l
    unfolding status_line_def copy_into_def Let_def by (cases z) (simp only: case_prod_conv; intro append_intros fin)
  show "appends (status_round arr uid fd z)"
    unfolding status_round_def by (intro append_intros l)
qed

lemma rounds_status: "rounds (status_round arr uid fd z)"
proof -
  have fin: "shrinks (finish_line z)" for z
    unfolding finish_line_def by (cases z) (auto intro!: fuel_intros)
  have l: "shrinks (status_line arr uid z l)" for z l
    unfolding status_line_def copy_into_def Let_def by (cases z) (simp only: case_prod_conv; intro fuel_intros fin; simp)
  show ?thesis
    unfolding status_round_def getline_clone_def lib_def seq_call
    by (intro fuel_intros rounds_getline l; simp)
qed

lemma under_finish_line:
  "line_result fs seen u (if n = 3 then Inr (True, info) else Inl (n, info)) \<Longrightarrow> same_out w0 w \<Longrightarrow> e = e0 \<Longrightarrow>
    under (proc_kernel files uids) e (finish_line (n, info))
      (finishes (\<lambda>x e' w'. same_out w0 w' \<and> e' = e0 \<and> line_result fs seen u x) (\<lambda>_ _. False)) w"
  unfolding finish_line_def
  by (auto simp: proc_kernel_simps same_out_def intro!: under_event append_intros under_leave under_again)

lemma status_line_reads:
  assumes "fs = seen @ (f, v) # todo" "good_status fs" "collected_from fs seen u (n, info)" "0 \<le> u" "u < 2 ^ 32" "same_out w0 w"
  shows "under (proc_kernel files uids) e (status_line True u (n, info) (status_row (f, v)))
      (finishes (\<lambda>x e' w'. same_out w0 w' \<and> e' = e \<and> line_result fs (seen @ [(f, v)]) u x) (\<lambda>_ _. False)) w"
proof -
  have row: "plain_row (f, v)" using assms(1,2) by (simp add: good_status_def)
  have dist: "distinct (map fst fs)" using assms(2) by (simp add: good_status_def)
  then have val: "field_value fs f = first_word v"
    using assms(1) map_of_eq_Some_iff[of fs f v] by (simp add: field_value_def)
  have nxt: "line_result fs (seen @ [(f, v)]) u (if n' = 3 then Inr (True, info') else Inl (n', info'))"
    if "n' = (if f \<in> wanted then Suc n else n)"
    "f = ''Name'' \<Longrightarrow> comm_name info' = Some (field_value fs ''Name'') \<and> pid_text info' = pid_text info"
    "f = ''Pid'' \<Longrightarrow> pid_text info' = Some (field_value fs ''Pid'') \<and> comm_name info' = comm_name info"
    "f = ''Uid'' \<Longrightarrow> field_value fs ''Uid'' = show_int u" "f \<notin> {''Name'', ''Pid''} \<Longrightarrow> info' = info" for n' info'
    by (rule finish_collected[OF assms(1-3) that])
  have short: "f \<in> wanted \<Longrightarrow> length (first_word v) < 50" using row by (simp add: plain_row_def)
  have field_short: "f = ''Pid'' \<Longrightarrow> length (first_word v) \<le> 9"
    using assms(2) val by (auto simp: good_status_def MAX_PID_LENGTH_def)
  show ?thesis
  proof (cases "f = ''Uid''")
    case True
    then have w: "f \<in> wanted" by (simp add: wanted_def)
    obtain i where i: "first_word v = show_int i" "0 \<le> i" "i < 2 ^ 32"
      using assms(2) val True by (auto simp: good_status_def)
    then have s: "strtol (first_word v) 10 = (i, [], False)" using strtol_show_int[of i "[]"] by (simp add: int_limits)
    have c: "to_uint32 i = i" using i by (simp add: to_uint32_def)
    have su: "strtol (show_int u) 10 = (u, [], False)" using strtol_show_int[of u "[]"] assms(4,5) by (simp add: int_limits)
    have inj: "show_int i = show_int u \<longleftrightarrow> i = u"
    proof
      assume "show_int i = show_int u"
      with s su i(1) show "i = u" by (metis fst_conv)
    qed simp
    have run: "status_line True u (n, info) (status_row (f, v))
        = (if u \<noteq> i then event (Lib ''free'' []) (leave (False, info)) else finish_line (Suc n, info))"
      unfolding status_line_def case_prod_conv checked_def row_parts(1)[OF row] sum.case
      by (simp add: row_parts(4)[OF row w] True[symmetric] s c)
    show ?thesis
    proof (cases "u = i")
      case same: True
      show ?thesis
        unfolding run if_not_P[OF not_not[THEN iffD2, OF same]]
        by (rule under_finish_line[OF nxt assms(6) refl]) (use w i(1) val same in \<open>simp_all add: True\<close>)
    next
      case other: False
      then have "field_value fs ''Uid'' \<noteq> show_int u" using i(1) val inj True by simp
      with other assms(6) show ?thesis
        unfolding run by (auto simp: proc_kernel_simps same_out_def line_result_def intro!: under_event under_leave append_intros)
    qed
  next
    case uid: False
    show ?thesis
    proof (cases "f \<in> wanted")
      case True
      let ?info = "if f = ''Name'' then info\<lparr>comm_name := Some (first_word v)\<rparr> else info\<lparr>pid_text := Some (first_word v)\<rparr>"
      have run: "status_line True u (n, info) (status_row (f, v)) = finish_line (Suc n, ?info)"
        unfolding status_line_def case_prod_conv checked_def row_parts(1)[OF row] sum.case row_parts(4)[OF row True]
        using uid True short[OF True] field_short by (auto simp: wanted_def copy_into_def MAX_COMM_NAME_def MAX_PID_def)
      show ?thesis
        unfolding run
        by (rule under_finish_line[OF nxt assms(6) refl]) (use uid True val in \<open>auto simp: wanted_def\<close>)
    next
      case other: False
      have run: "status_line True u (n, info) (status_row (f, v)) = finish_line (n, info)"
        unfolding status_line_def case_prod_conv checked_def row_parts(1)[OF row] sum.case
        using other by (simp add: wanted_def)
      show ?thesis
        unfolding run
        by (rule under_finish_line[OF nxt assms(6) refl]) (use other in \<open>auto simp: wanted_def\<close>)
    qed
  qed
qed

lemma status_reads:
  assumes "good_status fs" "0 \<le> u" "u < 2 ^ 32" "same_out w0 w"
  shows "under (proc_kernel files uids) (at_text e fd (status_text fs)) (loop (status_round True u fd) (0, info))
      (finishes (\<lambda>x e' w'. same_out w0 w' \<and> (\<exists>t. e' = at_text e fd t) \<and> line_result fs fs u (Inr x)) (\<lambda>_ _. False)) w"
proof (rule under_repeat[where I = "\<lambda>st e1 w1. same_out w0 w1 \<and>
    (\<exists>seen todo. fs = seen @ todo \<and> e1 = at_text e fd (status_text todo) \<and> collected_from fs seen u st)"], goal_cases)
  case 1
  have "collected_from fs [] u (0, info)" by (simp add: collected_from_def)
  with assms(4) show ?case by (metis append_Nil)
next
  case (4 st e1 w1)
  then obtain seen todo where s: "same_out w0 w1" "fs = seen @ todo" "e1 = at_text e fd (status_text todo)" "collected_from fs seen u st"
    by blast
  obtain n i where st: "st = (n, i)" by (cases st)
  have "card (fst ` set seen \<inter> wanted) \<noteq> 3" using s(4) by (auto simp: st collected_from_def)
  then have "todo \<noteq> []" using assms(1) s(2) by (auto simp: all_wanted good_status_def)
  then obtain f v todo' where t: "todo = (f, v) # todo'" by (metis list.exhaust surj_pair)
  have row: "plain_row (f, v)" using assms(1) s(2) t by (simp add: good_status_def)
  have tx: "texts_open e1 fd = Some (status_row (f, v) @ NL # status_text todo')" by (simp add: s(3) t status_text_def)
  have e: "at_text e1 fd t = at_text e fd t" for t by (simp add: s(3))
  have nxt: "\<exists>seen' todo''. fs = seen' @ todo'' \<and> at_text e fd (status_text todo') = at_text e fd (status_text todo'')
      \<and> collected_from fs seen' u st'" if "collected_from fs (seen @ [(f, v)]) u st'" for st'
    using s(2) t that by (intro exI[of _ "seen @ [(f, v)]"] exI[of _ todo']) simp
  show ?case
    unfolding status_round_def
  proof (rule under_then[OF getline_reads[OF tx row_parts(2,3)[OF row]]], goal_cases)
    case (1 x e2 w2)
    then have w2: "same_out w0 w2" using s(1) same_out_trans by auto
    show ?case
    proof (cases x)
      case (Some l)
      with 1 have l: "l = status_row (f, v)" "e2 = at_text e fd (status_text todo')" by (auto simp: e)
      show ?thesis
        unfolding Some option.case st l
        by (rule under_weaken[OF status_line_reads[OF s(2)[unfolded t] assms(1) s(4)[unfolded st] assms(2,3) w2]])
          (use nxt in \<open>auto simp: line_result_def split: sum.splits\<close>)
    qed (auto intro: under_errExit)
  qed (auto intro!: append_intros)
qed (auto intro!: append_intros rounds_status)

definition info_read :: "(string \<Rightarrow> status option) \<Rightarrow> int \<Rightarrow> string \<Rightarrow> proc_fs \<Rightarrow> bool \<times> process_info \<Rightarrow> proc_fs \<Rightarrow> bool" where
  "info_read procs u d e x e' \<longleftrightarrow> (case procs d of None \<Rightarrow> \<not> fst x \<and> e' = e
     | Some fs \<Rightarrow> if field_value fs ''Uid'' = show_int u then x = (True, entry_of fs) \<and> e' = e
         else \<not> fst x \<and> (\<exists>fd t. texts_open e fd = None \<and> e' = at_text e fd t))"

lemma appends_getProcessInfo [append_intros]: "appends (getProcessInfo arr u info d)"
  unfolding getProcessInfo_def by (intro append_intros)

lemma getProcessInfo_reads:
  assumes "0 \<le> u" "u < 2 ^ 32" "same_out w0 w" "length (status_path d) < 4096"
    "files (status_path d) = map_option status_text (procs d)" "\<And>fs. procs d = Some fs \<Longrightarrow> good_status fs"
  shows "under (proc_kernel files uids) e (getProcessInfo True u info d)
      (finishes (\<lambda>x e' w'. same_out w0 w' \<and> info_read procs u d e x e') (\<lambda>_ _. False)) w"
proof -
  let ?Q = "finishes (\<lambda>x e' w'. same_out w0 w' \<and> info_read procs u d e x e') (\<lambda>_ _. False)"
  have found: "under (proc_kernel files uids) (at_text e fd (status_text fs)) (seq (loop (status_round True u fd) (0, info)) (\<lambda>(ok, info').
         if ok then call (Fd (Close fd)) (\<lambda>_. ret (True, info')) else ret (False, info'))) ?Q w1"
    if "procs d = Some fs" "texts_open e fd = None" "same_out w0 w1" for fs fd and w1 :: world
  proof (rule under_then[OF status_reads[OF assms(6)[OF that(1)] assms(1,2) that(3)]], goal_cases)
    case (1 x e' w')
    have e: "e\<lparr>texts_open := (texts_open e)(fd := None)\<rparr> = e" using that(2) by (cases e) (simp add: fun_upd_idem)
    from 1 obtain t where "e' = at_text e fd t" "line_result fs fs u (Inr x)" "same_out w0 w'" by blast
    moreover have "\<exists>fda ta. texts_open e fda = None \<and> at_text e fd t = at_text e fda ta" for t using that(2) by blast
    ultimately show ?case
      using that(1,2) by (cases x) (auto simp: e line_result_def info_read_def proc_kernel_simps intro!: under_call under_ret append_intros)
  qed (auto intro!: append_intros)
  have opened: "under (proc_kernel files uids) e (call (Path (Open (status_path d) ''O_RDONLY'' 0)) (\<lambda>f.
       if rv f = -1 then get errno (\<lambda>e. if e = ENOENT then ret (False, info) else errExit ''open'')
       else event (Lib ''free'' []) (seq (loop (status_round True u (rv f)) (0, info)) (\<lambda>(ok, info').
         if ok then call (Fd (Close (rv f))) (\<lambda>_. ret (True, info')) else ret (False, info'))))) ?Q w1" if "same_out w0 w1" for w1 :: world
  proof (rule under_call, goal_cases)
    case (3 r rs e')
    show ?case
    proof (cases "procs d")
      case None
      then have "r = RErr ENOENT" "e' = e" using 3(2) assms(5) by (auto simp: proc_kernel_simps open_status_def split: if_splits)
      then show ?thesis using that None by (auto simp: reply_errno_def rv_def info_read_def intro!: under_get under_ret)
    next
      case (Some fs)
      show ?thesis
      proof (cases "\<exists>n. r = RErr n")
        case True
        then show ?thesis
          using 3(2) assms(5) Some by (auto simp: proc_kernel_simps open_status_def reply_errno_def rv_def intro!: under_get under_errExit split: if_splits)
      next
        case False
        then have "0 \<le> rv r" "texts_open e (rv r) = None" "e' = at_text e (rv r) (status_text fs)"
          using 3(2) assms(5) Some by (auto simp: proc_kernel_simps open_status_def at_text_def split: if_splits reply.splits)
        then show ?thesis
          using Some that by (auto simp: proc_kernel_simps intro!: under_event found append_intros)
      qed
    qed
  qed (auto intro!: append_intros)
  show ?thesis
    unfolding getProcessInfo_def lib_def
    by (rule under_call) (use assms(3,4) in \<open>auto simp: proc_kernel_simps intro!: under_errExit opened append_intros\<close>)
qed

section \<open>The list\<close>

definition strays :: "(string \<Rightarrow> status option) \<Rightarrow> int \<Rightarrow> string list \<Rightarrow> status list" where
  \<comment> \<open>the processes of the others\<close>
  "strays procs u ds = filter (\<lambda>fs. field_value fs ''Uid'' \<noteq> show_int u) (List.map_filter procs (filter numeric ds))"

definition left_open :: "nat \<Rightarrow> proc_fs \<Rightarrow> bool" where
  "left_open n e \<longleftrightarrow> finite (dom (texts_open e)) \<and> card (dom (texts_open e)) = n"

lemma left_open_more: "left_open n e \<Longrightarrow> texts_open e fd = None \<Longrightarrow> left_open (Suc n) (at_text e fd t)"
  by (auto simp: left_open_def domIff)

lemma map_filter_snoc: "List.map_filter f (xs @ [x]) = List.map_filter f xs @ (case f x of None \<Rightarrow> [] | Some y \<Rightarrow> [y])"
  by (simp add: List.map_filter_def split: option.splits)

definition listed :: "(string \<Rightarrow> status option) \<Rightarrow> int \<Rightarrow> string list \<Rightarrow> proc_fs \<Rightarrow> process_info list \<Rightarrow> bool" where
  \<comment> \<open>the entries \<open>ds\<close> have been read\<close>
  "listed procs u ds e ps \<longleftrightarrow> ps = map entry_of (owned procs u ds) \<and> left_open (length (strays procs u ds)) e"

lemma listed_skip: "listed procs u ds e ps \<Longrightarrow> \<not> numeric d \<Longrightarrow> texts_open e' = texts_open e \<Longrightarrow> listed procs u (ds @ [d]) e' ps"
  by (simp add: listed_def owned_def strays_def left_open_def)

lemma listed_next:
  assumes "listed procs u ds e ps" "numeric d" "info_read procs u d e (ok, info) e'"
  shows "listed procs u (ds @ [d]) e' (if ok then ps @ [info] else ps)"
  using assms left_open_more
  by (auto simp: listed_def owned_def strays_def map_filter_snoc info_read_def split: option.splits if_splits)

lemma info_read_left: "info_read procs u d e x e' \<Longrightarrow> entries_left e' = entries_left e"
  by (auto simp: info_read_def split: option.splits if_splits)

lemma list_round_reads:
  assumes "status_files procs files (ds @ entries_left e)" "0 \<le> u" "u < 2 ^ 32" "same_out w0 w" "listed procs u ds e ps"
  shows "under (proc_kernel files uids) e (list_round True u dir (ps, cur, n))
      (finishes (\<lambda>x e' w'. same_out w0 w' \<and> (case x of
          Inl (ps', cur', n') \<Rightarrow> (\<exists>d. entries_left e = d # entries_left e' \<and> listed procs u (ds @ [d]) e' ps')
        | Inr ps' \<Rightarrow> entries_left e = [] \<and> e' = e \<and> ps' = ps)) (\<lambda>_ _. False)) w"
proof -
  let ?Q = "finishes (\<lambda>x e' w'. same_out w0 w' \<and> (case x of
          Inl (ps', cur', n') \<Rightarrow> (\<exists>d. entries_left e = d # entries_left e' \<and> listed procs u (ds @ [d]) e' ps')
        | Inr ps' \<Rightarrow> entries_left e = [] \<and> e' = e \<and> ps' = ps)) (\<lambda>_ _. False)"
  have got: "under (proc_kernel files uids) e1 (seq (getProcessInfo True u cur d) (\<lambda>(ok, info).
            let ps' = (if ok then ps @ [info] else ps); cur' = (if ok then unwritten else info) in
            if n \<le> length ps' + 1 then lib ''realloc'' [int (96 * n * 2)] (\<lambda>t.
              if is_null_reply t then event (Lib ''free'' []) (errExit ''realloc'') else again (ps', cur', n * 2))
            else again (ps', cur', n))) ?Q w1"
    if "entries_left e = d # entries_left e1" "texts_open e1 = texts_open e" "numeric d" "same_out w0 w1" for d e1 and w1 :: world
  proof (rule under_then[OF getProcessInfo_reads[where d = d and files = files and procs = procs and e = e1, OF assms(2,3) that(4)]], goal_cases)
    case (4 x e2 w2)
    obtain ok info where x: "x = (ok, info)" by (cases x)
    have "listed procs u ds e1 ps" using assms(5) that(2) by (simp add: listed_def left_open_def)
    moreover have "info_read procs u d e1 (ok, info) e2" using 4 x by simp
    ultimately have l: "listed procs u (ds @ [d]) e2 (if ok then ps @ [info] else ps)" using listed_next that(3) by blast
    have el: "entries_left e = d # entries_left e2" using 4 that(1) info_read_left[of procs u d e1 x e2] by simp
    show ?case
      unfolding x case_prod_conv Let_def lib_def
      using l el 4 by (auto simp: proc_kernel_simps intro!: under_call under_again under_event under_errExit append_intros)
  qed (use assms(1) that in \<open>auto simp: status_files_def Let_def intro!: append_intros\<close>)
  show ?thesis
    unfolding list_round_def case_prod_conv
  proof (rule under_call, goal_cases)
    case (3 r rs e')
    show ?case
    proof (cases "entries_left e")
      case Nil
      then show ?thesis
        using 3(2) assms(4) by (cases r) (auto simp: proc_kernel_simps next_entry_def intro!: under_leave split: list.splits)
    next
      case (Cons d es)
      with 3(2) have r: "r = RStrs [d]" "e' = e\<lparr>entries_left := es\<rparr>" by (auto simp: proc_kernel_simps next_entry_def split: if_splits)
      obtain v endp er where s: "strtol d 10 = (v, endp, er)" by (metis prod_cases3)
      have "listed procs u (ds @ [d]) e' ps" if "endp \<noteq> []"
        by (rule listed_skip[OF assms(5)]) (use s that r in \<open>auto simp: numeric_def\<close>)
      then show ?thesis
        using assms(4) s got[of d e'] Cons
        by (auto simp: r numeric_def Let_def intro!: under_set_errno under_again)
    qed
  qed (auto simp: Let_def intro!: append_intros)
qed

lemma appends_list_round [append_intros]: "appends (list_round arr u dir z)"
  unfolding list_round_def Let_def by (cases z) (simp only: case_prod_conv; intro append_intros)

lemma appends_print [append_intros]: "appends (print_process p)"
  unfolding print_process_def by (intro append_intros)

lemma rounds_list_round: "rounds (list_round arr u dir z)"
proof -
  have i: "shrinks (getProcessInfo arr u cur d)" for cur d
    unfolding getProcessInfo_def lib_def case_prod_beta by (intro fuel_intros rounds_status; simp)
  show ?thesis
    unfolding list_round_def Let_def lib_def case_prod_beta by (intro fuel_intros i; simp)
qed

lemma list_reads:
  assumes "status_files procs files (entries_left e)" "0 \<le> u" "u < 2 ^ 32" "left_open 0 e" "same_out w0 w"
  shows "under (proc_kernel files uids) e (loop (list_round True u dir) ([], unwritten, n))
      (finishes (\<lambda>ps e' w'. same_out w0 w' \<and> listed procs u (entries_left e) e' ps) (\<lambda>_ _. False)) w"
proof (rule under_repeat[where I = "\<lambda>(ps, cur, n) e1 w1. same_out w0 w1 \<and>
    (\<exists>ds. entries_left e = ds @ entries_left e1 \<and> listed procs u ds e1 ps)"], goal_cases)
  case 1
  have "listed procs u [] e []" using assms(4) by (simp add: listed_def owned_def strays_def List.map_filter_def)
  with assms(5) show ?case by (auto intro!: exI[of _ "[]"])
next
  case (4 st e1 w1)
  obtain ps cur k where st: "st = (ps, cur, k)" by (cases st)
  with 4 obtain ds where d: "same_out w0 w1" "entries_left e = ds @ entries_left e1" "listed procs u ds e1 ps" by auto
  have f: "status_files procs files (ds @ entries_left e1)" using assms(1) d(2) by simp
  show ?case
    unfolding st
  proof (rule under_weaken[OF list_round_reads[OF f assms(2,3) d(1,3)]], goal_cases)
    case (1 x e' w')
    have "\<exists>ds'. entries_left e = ds' @ entries_left e' \<and> listed procs u ds' e' ps'"
      if "entries_left e1 = d # entries_left e'" "listed procs u (ds @ [d]) e' ps'" for d ps'
      using d(2) that by (intro exI[of _ "ds @ [d]"]) simp
    with 1 d(2,3) show ?case by (cases x) (auto split: prod.splits)
  qed simp
qed (auto intro!: append_intros rounds_list_round)

lemma print_process_prints:
  assumes "length (field_value fs ''Pid'') \<le> MAX_PID_LENGTH"
  shows "print_process (entry_of fs) = printf (process_row fs) (ret ())"
  using assms by (simp add: print_process_def entry_of_def process_row_def)

definition printed :: "world \<Rightarrow> string \<Rightarrow> world \<Rightarrow> bool" where
  "printed w0 s w \<longleftrightarrow> out w = out w0 \<and> obuf w = obuf w0 @ s"

lemma print_all:
  assumes "list_all good_status fs" "printed w0 s w"
  shows "under (proc_kernel files uids) e (each print_process (map entry_of fs))
      (finishes (\<lambda>_ e' w'. e' = e \<and> printed w0 (s @ concat (map process_row fs)) w') (\<lambda>_ _. False)) w"
  using assms
proof (induction fs arbitrary: s w)
  case (Cons f fs s w)
  have g: "length (field_value f ''Pid'') \<le> MAX_PID_LENGTH" using Cons.prems(1) by (simp add: good_status_def)
  have one: "under (proc_kernel files uids) e (print_process (entry_of f))
      (finishes (\<lambda>_ e' w'. e' = e \<and> printed w0 (s @ process_row f) w') (\<lambda>_ _. False)) w"
    unfolding print_process_prints[OF g] using Cons.prems(2) by (auto intro!: under_printf under_ret simp: printed_def)
  show ?case
    unfolding list.map each.simps
    by (rule under_then[OF one]) (use Cons.IH[of "s @ process_row f"] Cons.prems(1) in \<open>auto intro!: append_intros\<close>)
qed (auto intro: under_ret)

lemma listed_good: "status_files procs files ds \<Longrightarrow> list_all good_status (owned procs u ds)"
  by (auto simp: status_files_def owned_def list_all_iff List.map_filter_def)

text \<open>C22: \<open>list_pid\<close> lists the processes of a user. When the status files under \<open>/proc\<close> are well formed (their fields are
  distinct and the three that are wanted are among them, short enough for the arrays), a run for a user with an account
  never reads or writes outside an array, and if it exits with success, it has printed the head, a line with number and
  name for each process of the user in the order of the directory, and the tail. The status files of the other users'
  processes are open at the end.
\<close>

theorem list_pid_lists_user:
  assumes "status_files procs files (entries_left e)" "texts_open e = (\<lambda>_. None)" "user \<noteq> []" "\<not> numeric user"
    "uids user = Some u" "0 \<le> u" "u < 2 ^ 32 - 1"
    "list_pid messExit [name, user] w = (r, w')" "trace w' = trace w @ t" "run (proc_kernel files uids) e t = Some e'"
    "appends messExit"
  shows "case r of Exited n \<Rightarrow> n = EXIT_SUCCESS \<longrightarrow>
        out w' = out w @ obuf w @ print_head user @ concat (map process_row (owned procs u (entries_left e))) @ print_tail
        \<and> card (dom (texts_open e')) = length (strays procs u (entries_left e))
    | Return x \<Rightarrow> False | Fault f \<Rightarrow> False | No_fuel \<Rightarrow> False | _ \<Rightarrow> True"
proof -
  let ?K = "proc_kernel files uids"
  let ?text = "print_head user @ concat (map process_row (owned procs u (entries_left e))) @ print_tail"
  let ?S = "\<lambda>e' w'. out w' = out w @ obuf w @ ?text \<and> left_open (length (strays procs u (entries_left e))) e'"
  let ?Q = "finishes (\<lambda>_ _ _. False) ?S"
  have u: "0 \<le> u" "u < 2 ^ 32" "to_uint32 u = u" "u \<noteq> to_uint32 (-1)" using assms(6,7) by (simp_all add: to_uint32_def)
  have shown: "under ?K e1 (printf (print_head user) (seq (each print_process ps) (\<lambda>_. printf print_tail (exit_prog EXIT_SUCCESS)))) ?Q w1"
    if l: "listed procs u (entries_left e) e1 ps" "same_out w w1" for ps e1 and w1 :: world
  proof (rule under_printf, goal_cases)
    case 1
    have p: "printed w (print_head user) (w1\<lparr>obuf := obuf w1 @ print_head user\<rparr>)" using l(2) by (simp add: printed_def same_out_def)
    show ?case
      unfolding l(1)[unfolded listed_def, THEN conjunct1]
    proof (rule under_then[OF print_all[OF listed_good[OF assms(1)] p]], goal_cases)
      case (1 x e2 w2)
      then show ?case
        using l(1) by (auto simp: printed_def listed_def flushed_def intro!: under_printf under_exit)
    qed (auto intro!: append_intros)
  qed
  have main: "under ?K e (lib ''malloc'' [96 * 64] (\<lambda>m. call (Path (Opendir ''/proc'')) (\<lambda>dir.
          if is_null_reply dir then stop (Fault Null_deref)
          else seq (loop (list_round (\<not> is_null_reply m) u (rv dir)) ([], unwritten, 64)) (\<lambda>ps.
            call (Path (Closedir (rv dir))) (\<lambda>_.
              printf (print_head user) (seq (each print_process ps) (\<lambda>_. printf print_tail (exit_prog EXIT_SUCCESS)))))))) ?Q w1"
    if "same_out w w1" for w1 :: world
    unfolding lib_def
  proof (rule under_call, goal_cases)
    case m: (3 r rs e1)
    then have e1: "\<not> is_null_reply r" "e1 = e" by (auto simp: proc_kernel_simps split: if_splits)
    show ?case
    proof (rule under_call, goal_cases)
      case d: (3 r' rs' e2)
      then have e2: "\<not> is_null_reply r'" "e2 = e" by (auto simp: proc_kernel_simps e1 split: if_splits)
      have ok: "(\<not> is_null_reply r) = True" using e1(1) by simp
      have "left_open 0 e" using assms(2) by (simp add: left_open_def)
      note reads = list_reads[OF assms(1) u(1,2) this]
      show ?case
        unfolding e2(2) if_not_P[OF e2(1)] ok
        by (rule under_then[OF reads[where ?w0.0 = w]])
          (use that e1 in \<open>auto simp: proc_kernel_simps listed_def intro!: under_call shown append_intros\<close>)
    qed (auto intro!: append_intros)
  qed (auto intro!: append_intros)
  have all: "under ?K e (list_pid messExit [name, user]) ?Q w"
  proof -
    obtain v endp er where s: "strtol user 10 = (v, endp, er)" by (metis prod_cases3)
    have look: "under ?K e (seq (call (User (Getpwnam user)) (\<lambda>r. if is_null_reply r then ret (to_uint32 (-1)) else ret (to_uint32 (rv r))))
        (\<lambda>uid. if uid = to_uint32 (-1) then messExit else k uid)) ?Q w1"
      if "\<And>x. appends (k x)" "\<And>w1. same_out w w1 \<Longrightarrow> under ?K e (k u) ?Q w1" "same_out w w1" for k and w1 :: world
      unfolding seq_call
      by (rule under_call)
        (use assms(5,11) u(3,4) that in \<open>auto simp: proc_kernel_simps seq_ret_first split: if_splits intro!: append_intros\<close>)
    have nth: "[name, user] ! 1 = user" by simp
    show ?thesis
      unfolding list_pid_def uid_from_name_def nth
      using s assms(3,4) by (auto simp: numeric_def seq_errno intro!: look main[simplified] under_set_errno append_intros)
  qed
  from underD[OF all assms(8)] assms(9,10) have "?Q r e' w'" by (metis same_append_eq)
  then show ?thesis by (auto simp: finishes_def left_open_def split: result.splits)
qed

definition demo_status :: "string \<Rightarrow> string \<Rightarrow> string \<Rightarrow> status" where
  "demo_status n p u = [(''Name'', n), (''Pid'', p), (''Uid'', u @ [TAB] @ u)]"

definition demo_procs :: "string \<Rightarrow> status option" where
  "demo_procs d = (if d = ''1'' then Some (demo_status ''a'' ''1'' ''0'') else if d = ''7'' then Some (demo_status ''b'' ''7'' ''5'') else None)"

definition demo_files :: "string \<Rightarrow> string option" where
  "demo_files f = (if f = status_path ''1'' then Some (status_text (demo_status ''a'' ''1'' ''0''))
     else if f = status_path ''7'' then Some (status_text (demo_status ''b'' ''7'' ''5'')) else None)"

definition demo_proc :: proc_fs where
  "demo_proc = \<lparr>entries_left = [''.'', ''1'', ''7'', ''9''], texts_open = (\<lambda>_. None)\<rparr>"

definition demo_line :: "string \<Rightarrow> reply list" where
  "demo_line l = RVal 1 # map (\<lambda>c. RData [c]) (l @ [NL])"

definition demo_list :: "unit result \<times> world" where
  "demo_list = list_pid (stop Aborted) [''list_pid'', ''me''] (booted ([RVal 5, RVal 1, RVal 8, RStrs [''.''],
     RStrs [''1''], RVal 1, RVal 3] @ concat (map (\<lambda>p. demo_line (status_row p)) (demo_status ''a'' ''1'' ''0''))
     @ [RStrs [''7''], RVal 1, RVal 4] @ concat (map (\<lambda>p. demo_line (status_row p)) (demo_status ''b'' ''7'' ''5''))
     @ [RVal 0, RStrs [''9''], RVal 1, RErr ENOENT, RNull, RVal 0]))"

lemma demo_list_runs: "fst demo_list = Exited EXIT_SUCCESS"
  "map_option (\<lambda>e. (entries_left e, map (texts_open e) [3, 4])) (run (proc_kernel demo_files [''me'' \<mapsto> 5]) demo_proc (trace (snd demo_list)))
    = Some ([], [Some [], None])"
  by code_simp+

lemma demo_good: "good_status (demo_status ''a'' ''1'' ''0'')" "good_status (demo_status ''b'' ''7'' ''5'')"
proof -
  have n: "''0'' \<in> show_int ` {0..<2 ^ 32}" "''5'' \<in> show_int ` {0..<2 ^ 32}"
    by (rule image_eqI[of _ _ 0], code_simp, simp, rule image_eqI[of _ _ 5], code_simp, simp)
  show "good_status (demo_status ''a'' ''1'' ''0'')" "good_status (demo_status ''b'' ''7'' ''5'')"
    using n by (simp_all add: good_status_def demo_status_def wanted_def plain_row_def field_value_def first_word_def
        TAB_def NL_def NUL_def MAX_PID_LENGTH_def)
qed

lemma demo_status_files: "status_files demo_procs demo_files [''.'', ''1'', ''7'', ''9'']"
proof -
  have "list_all (\<lambda>d. length (status_path d) < 4096 \<and> demo_files (status_path d) = map_option status_text (demo_procs d)) [''1'', ''7'', ''9'']"
    "\<not> numeric ''.''" by code_simp+
  then show ?thesis using demo_good by (simp add: status_files_def demo_procs_def)
qed

lemma list_pid_lists_user_witness:
  "out (snd demo_list) = print_head ''me'' @ ''    7        |    b'' @ [NL] @ print_tail"
proof -
  let ?rs = "[RVal 5, RVal 1, RVal 8, RStrs [''.''],
     RStrs [''1''], RVal 1, RVal 3] @ concat (map (\<lambda>p. demo_line (status_row p)) (demo_status ''a'' ''1'' ''0''))
     @ [RStrs [''7''], RVal 1, RVal 4] @ concat (map (\<lambda>p. demo_line (status_row p)) (demo_status ''b'' ''7'' ''5''))
     @ [RVal 0, RStrs [''9''], RVal 1, RErr ENOENT, RNull, RVal 0]"
  have r: "list_pid (stop Aborted) [''list_pid'', ''me''] (booted ?rs) = (Exited EXIT_SUCCESS, snd demo_list)"
    using demo_list_runs(1) by (simp add: demo_list_def prod_eq_iff)
  have t: "trace (snd demo_list) = trace (booted ?rs) @ trace (snd demo_list)" by simp
  obtain e' where e': "run (proc_kernel demo_files [''me'' \<mapsto> 5]) demo_proc (trace (snd demo_list)) = Some e'"
    using demo_list_runs(2) by auto
  have n: "\<not> numeric ''me''" "map process_row (owned demo_procs 5 (entries_left demo_proc)) = [''    7        |    b'' @ [NL]]" by code_simp+
  have "out (snd demo_list) = out (booted ?rs) @ obuf (booted ?rs) @ print_head ''me''
      @ concat (map process_row (owned demo_procs 5 (entries_left demo_proc))) @ print_tail"
    using list_pid_lists_user[of demo_procs demo_files demo_proc "''me''" "[''me'' \<mapsto> 5]" 5, OF _ _ _ n(1) _ _ _ r t e'] demo_status_files
    by (simp add: demo_proc_def append_intros)
  then show ?thesis by (simp add: n(2))
qed

end
