(* ===== verification/FileOpen.thy ===== *)
theory FileOpen
  imports Utils
begin

text \<open>
  \<open>12_System_And_Process_Info/proc_file_open.c\<close>: the processes that have a file open, from the links under
  \<open>/proc/pid/fd\<close>.
\<close>

section \<open>proc\_file\_open\<close>

definition isNumber :: "string \<Rightarrow> (bool \<Rightarrow> 'a prog) \<Rightarrow> 'a prog" where
  "isNumber str k = (let (v, endptr, erange) = strtol str 10 in (if erange then set_errno ERANGE else (\<lambda>k. k)) (k (endptr = [])))"

definition getName :: "string \<Rightarrow> cstate \<Rightarrow> (string \<times> cstate) prog" where
  \<comment> \<open>the name is copied to an element of 256 bytes; the descriptor stays open\<close>
  "getName path st = or_die (Path (Open path ''O_RDONLY'' 0)) ''open'' (\<lambda>fd.
     seq (fgetstr (rv fd) st) (\<lambda>(name, st'). case name of None \<Rightarrow> errExit ''fgetstr''
       | Some n \<Rightarrow> if 256 \<le> length n then stop (Fault Buffer_overflow) else ret (n, st')))"

definition fd_round :: "string \<Rightarrow> string \<Rightarrow> int \<Rightarrow> string vec \<times> cstate \<Rightarrow> (string vec \<times> cstate + string vec \<times> cstate) prog" where
  \<comment> \<open>over the descriptors of one process; \<open>path\<close> is the directory of the process\<close>
  "fd_round file path fdStream = (\<lambda>(names, st). call (Path (Readdir fdStream)) (\<lambda>entry. case entry of
       RStrs (d # ds) \<Rightarrow>
         isNumber d (\<lambda>num. if \<not> num then again (names, st)
         else if 256 \<le> length (path @ ''/fd/'' @ d) then stop (Fault Buffer_overflow)
         else call (Path (Readlink (path @ ''/fd/'' @ d) 4096)) (\<lambda>l.
           if rv l = -1 then errExit ''readlink''
           else if 4096 \<le> length (bytes l) then stop (Fault Buffer_overflow)
           else if strcmp (c_str (bytes l)) file = 0 then
             (case vec_push [] names st of Inl f \<Rightarrow> errExit ''da_push''
              | Inr (names', st') \<Rightarrow> seq (getName (path @ ''/comm'') st') (\<lambda>(n, st2).
                  leave (names'\<lparr>elems := butlast (elems names') @ [n]\<rparr>, st2)))
           else again (names, st)))
     | _ \<Rightarrow> leave (names, st)))"

definition process_round :: "string \<Rightarrow> int \<Rightarrow> string vec \<times> cstate \<Rightarrow> (string vec \<times> cstate + string vec \<times> cstate) prog" where
  "process_round file procStream = (\<lambda>(names, st). call (Path (Readdir procStream)) (\<lambda>entry. case entry of
       RStrs (d # ds) \<Rightarrow>
         isNumber d (\<lambda>num. if \<not> num then again (names, st)
         else let path = ''/proc/'' @ d in
           if 256 \<le> length (path @ ''/comm'') then stop (Fault Buffer_overflow)
           else or_die_null (Path (Opendir (path @ ''/fd/''))) ''opendir'' (\<lambda>fdStream.
             set_errno 0 (seq (loop (fd_round file path (rv fdStream)) (names, st)) (\<lambda>(names', st').
               call (Path (Closedir (rv fdStream))) (\<lambda>_. get errno (\<lambda>e.
                 if e \<noteq> 0 then errExit ''readdir'' else again (names', st')))))))
     | _ \<Rightarrow> leave (names, st)))"

definition proc_file_open :: "cstate \<Rightarrow> string list \<Rightarrow> int prog" where
  "proc_file_open st argv =
     (if length argv \<noteq> 2 then usageErr ''03-ex.bin <path>''
      else call (Path (Opendir ''/proc'')) (\<lambda>procStream. set_errno 0
        (if is_null_reply procStream then stop (Fault Null_deref)
         else seq (loop (process_round (argv ! 1) (rv procStream)) (vec_init, st)) (\<lambda>(names, st').
           call (Path (Closedir (rv procStream))) (\<lambda>_. get errno (\<lambda>e.
             if e \<noteq> 0 then errExit ''readdir''
             else printf (concat (map (\<lambda>n. n @ [NL]) (elems names))) (ret 0)))))))"

section \<open>It comes to an end\<close>

lemma ends_sum [fuel_intros]:
  "(\<And>x. shrinks (p x)) \<Longrightarrow> (\<And>y. shrinks (q y)) \<Longrightarrow> shrinks (case m of Inl x \<Rightarrow> p x | Inr y \<Rightarrow> q y)"
  "(\<And>x. rounds (p' x)) \<Longrightarrow> (\<And>y. rounds (q' y)) \<Longrightarrow> rounds (case m of Inl x \<Rightarrow> p' x | Inr y \<Rightarrow> q' y)"
  by (simp_all split: sum.splits)

lemma ends_fgetstr [fuel_intros]: "shrinks (fgetstr fd st)"
proof -
  have "rounds (fgetstr_round fd z)" for z
    unfolding fgetstr_round_def case_prod_beta by (auto intro!: fuel_intros split: sum.splits list.splits)
  then show ?thesis unfolding fgetstr_def by (intro fuel_intros)
qed

lemma ends_proc_file_open: "shrinks (proc_file_open st argv)"
proof -
  have nm: "shrinks (getName path st)" for path st
    unfolding getName_def by (auto intro!: fuel_intros split: prod.splits option.splits)
  have fds: "rounds (fd_round name path fd z)" for name path fd z
    unfolding fd_round_def isNumber_def case_prod_beta Let_def
    by (intro fuel_intros nm; simp)
  have procs: "rounds (process_round name fd z)" for name fd z
    unfolding process_round_def isNumber_def case_prod_beta Let_def
    by (intro fuel_intros fds; simp)
  show ?thesis
    unfolding proc_file_open_def case_prod_beta by (intro fuel_intros procs; simp)
qed

end
