(* ===== verification/ArrayHistory.thy ===== *)
theory ArrayHistory
  imports DynArray
begin

text \<open>
  The life of a dynamic array: any sequence of the operations of \<open>lib/dynamic_array.c\<close> after \<open>da_init\<close>.
\<close>

section \<open>Every array that the operations make is well formed\<close>

datatype da_op = Push | Pop | Reserve size_t | Clear | Reverse

fun op_fits :: "da_op \<Rightarrow> DynArray \<times> cstate \<Rightarrow> bool" where
  \<comment> \<open>the size of the block does not wrap; \<open>da_clear\<close> gets its block\<close>
  "op_fits Push (arr, st) = da_room arr"
| "op_fits (Reserve cap) (arr, st) = (unat cap * unat (dataSize arr) < 2 ^ 64)"
| "op_fits Clear (arr, st) = fst (malloc_ok st)"
| "op_fits p (arr, st) = True"

fun da_apply :: "da_op \<Rightarrow> DynArray \<times> cstate \<Rightarrow> (DynArray \<times> cstate) c" where
  "da_apply Push (arr, st) = (case da_push arr st of (arr', p, st') \<Rightarrow> Inr (arr', st'))"
| "da_apply Pop (arr, st) = Inr (fst (da_pop arr), st)"
| "da_apply (Reserve cap) (arr, st) = (case da_reserve arr cap st of (arr', n, st') \<Rightarrow> Inr (arr', st'))"
| "da_apply Clear (arr, st) = (case da_clear arr st of (arr', n, st') \<Rightarrow> Inr (arr', st'))"
| "da_apply Reverse (arr, st) = bindC (da_reverse arr st) (\<lambda>(arr', n, st'). Inr (arr', st'))"

primrec da_history :: "da_op list \<Rightarrow> DynArray \<times> cstate \<Rightarrow> (DynArray \<times> cstate) c" where
  "da_history [] z = Inr z"
| "da_history (p # ps) z = bindC (da_apply p z) (da_history ps)"

primrec history_fits :: "da_op list \<Rightarrow> DynArray \<times> cstate \<Rightarrow> bool" where
  "history_fits [] z = True"
| "history_fits (p # ps) z = (op_fits p z \<and> (case da_apply p z of Inl f \<Rightarrow> True | Inr z' \<Rightarrow> history_fits ps z'))"

lemma malloc_block_length: "malloc_block n st = (Some b, st') \<Longrightarrow> length b = unat n"
  by (auto simp: malloc_block_def split: prod.splits if_splits)

lemma realloc_block_length: "realloc_block old n st = (Some b, st') \<Longrightarrow> length b = unat n"
  by (auto simp: realloc_block_def Let_def split: prod.splits if_splits option.splits)

lemma da_reverse_loop_length: "da_reverse_loop old d i y new = Inr b \<Longrightarrow> length b = length new"
proof (induction old d i y new rule: da_reverse_loop.induct)
  case (1 old d i y new)
  show ?case
  proof (cases "0 \<le> int_of_size i")
    case True
    with 1(2) obtain e new' where e: "mem_write new (unat (y * d)) e = Inr new'" "da_reverse_loop old d (i - 1) (y + 1) new' = Inr b"
      by (auto simp: da_reverse_loop.simps[of old d i] bindC_eq_Inr)
    with 1(1)[OF True e(2)] show ?thesis by (auto simp: mem_write_def split: if_splits)
  qed (use 1(2) in \<open>simp add: da_reverse_loop.simps[of old d i]\<close>)
qed

lemma da_okI: "data arr = Some b \<Longrightarrow> length b = unat (capacity arr) * unat (dataSize arr) \<Longrightarrow> dataSize arr \<noteq> 0 \<Longrightarrow>
    unat (size arr) \<le> unat (capacity arr) \<Longrightarrow> length b < 2 ^ 64 \<Longrightarrow> da_ok arr"
  by (simp add: da_ok_def unat_gt_0)

lemma da_push_ok:
  assumes "da_ok arr" "da_room arr" "da_push arr st = (arr', p, st')"
  shows "da_ok arr'"
proof -
  from assms(1) obtain b where b: "data arr = Some b" "length b = unat (capacity arr) * unat (dataSize arr)" "0 < unat (dataSize arr)"
    "unat (size arr) \<le> unat (capacity arr)" "length b < 2 ^ 64" by (rule da_okE)
  have ds: "dataSize arr \<noteq> 0" using b(3) by auto
  show ?thesis
  proof (cases "capacity arr \<le> size arr")
    case False
    then have less: "unat (size arr) < unat (capacity arr)" by (simp add: word_le_nat_alt)
    then show ?thesis
      using assms(3) b False unat_add_one[OF less] by (auto simp: da_push_def da_ok_def Let_def)
  next
    case True
    let ?cap = "if capacity arr = 0 then 1 else capacity arr * 2"
    have "unat (capacity arr) * 2 < 2 ^ 64" if "capacity arr \<noteq> 0"
    proof -
      have "unat (capacity arr) * 2 \<le> 2 * unat (capacity arr) * unat (dataSize arr)" using b(3) by simp
      then show ?thesis using assms(2) unfolding da_room_def by linarith
    qed
    then have u: "unat ?cap = (if capacity arr = 0 then 1 else 2 * unat (capacity arr))" by (simp add: unat_word_ariths)
    have "unat (dataSize arr) < 2 ^ LENGTH(64)" by (rule unsigned_less)
    then have bytes: "unat ?cap * unat (dataSize arr) < 2 ^ 64"
      using assms(2) u by (auto simp: da_room_def)
    have less: "unat (size arr) < unat ?cap"
    proof (cases "capacity arr = 0")
      case False
      then have "0 < unat (capacity arr)" by (simp add: unat_gt_0)
      with False b(4) u show ?thesis by simp
    qed (use b(4) u in simp)
    obtain t s where r: "realloc_block (data arr) (?cap * dataSize arr) st = (t, s)" by fastforce
    show ?thesis
    proof (cases t)
      case None
      then show ?thesis using assms(1,3) True r by (auto simp: da_push_def Let_def)
    next
      case (Some b')
      have arr': "arr' = arr\<lparr>capacity := ?cap, data := Some b', size := size arr + 1\<rparr>"
        using assms(3) True r Some by (simp add: da_push_def Let_def del: if_split)
      have l: "length b' = unat ?cap * unat (dataSize arr)"
        using realloc_block_length[OF r[unfolded Some]] unat_mult_exact[OF bytes] by simp
      have "unat (size arr + 1) \<le> unat ?cap" using unat_add_one[OF less] less by simp
      then show ?thesis
        unfolding arr' by (intro da_okI[of _ b']) (use l bytes ds in \<open>simp_all del: if_split\<close>)
    qed
  qed
qed

lemma da_reserve_ok:
  assumes "da_ok arr" "unat cap * unat (dataSize arr) < 2 ^ 64" "da_reserve arr cap st = (arr', n, st')"
  shows "da_ok arr'"
proof (cases "cap \<le> capacity arr")
  case False
  from assms(1) obtain b where b: "unat (size arr) \<le> unat (capacity arr)" "0 < unat (dataSize arr)" by (rule da_okE)
  obtain t s where r: "realloc_block (data arr) (cap * dataSize arr) st = (t, s)" by fastforce
  show ?thesis
  proof (cases t)
    case None
    then show ?thesis using assms(1,3) False r by (auto simp: da_reserve_def)
  next
    case (Some b')
    have "length b' = unat cap * unat (dataSize arr)"
      using realloc_block_length[OF r[unfolded Some]] unat_mult_exact[OF assms(2)] by simp
    moreover have "unat (size arr) \<le> unat cap" using b(1) False by (simp add: word_le_nat_alt)
    ultimately show ?thesis
      using assms(2,3) False r Some b(2) by (auto simp: da_reserve_def da_ok_def)
  qed
qed (use assms in \<open>simp add: da_reserve_def\<close>)

lemma da_reverse_ok:
  assumes "da_ok arr" "da_reverse arr st = Inr (arr', n, st')"
  shows "da_ok arr'"
proof -
  from assms(1) obtain b where b: "data arr = Some b" "length b = unat (capacity arr) * unat (dataSize arr)" "length b < 2 ^ 64"
    by (rule da_okE)
  then have m: "unat (capacity arr * dataSize arr) = unat (capacity arr) * unat (dataSize arr)" by (intro unat_mult_exact) simp
  obtain t s where r: "malloc_block (capacity arr * dataSize arr) st = (t, s)" by fastforce
  show ?thesis
  proof (cases "size arr = 0 \<or> t = None")
    case True
    then show ?thesis using assms r by (auto simp: da_reverse_def split: if_splits)
  next
    case False
    then obtain n0 new where n0: "t = Some n0" "da_reverse_loop b (dataSize arr) (size arr - 1) 0 n0 = Inr new"
        "arr' = arr\<lparr>data := Some new\<rparr>"
      using assms(2) r b(1) by (auto simp: da_reverse_def bindC_eq_Inr)
    have "length new = unat (capacity arr) * unat (dataSize arr)"
      using da_reverse_loop_length[OF n0(2)] malloc_block_length[OF r[unfolded n0(1)]] m by simp
    then show ?thesis using assms(1) b n0(3) by (auto simp: da_ok_def)
  qed
qed

lemma da_clear_ok: "da_ok arr \<Longrightarrow> fst (malloc_ok st) \<Longrightarrow> da_clear arr st = (arr', n, st') \<Longrightarrow> da_ok arr'"
  by (auto simp: da_clear_def da_free_def malloc_block_def da_ok_def Let_def split: prod.splits option.splits if_splits)

lemma da_pop_ok: "da_ok arr \<Longrightarrow> da_ok (fst (da_pop arr))"
proof -
  assume "da_ok arr"
  then obtain b where b: "data arr = Some b" "length b = unat (capacity arr) * unat (dataSize arr)" "0 < unat (dataSize arr)"
    "unat (size arr) \<le> unat (capacity arr)" "length b < 2 ^ 64" by (rule da_okE)
  have "unat (size arr - 1) \<le> unat (size arr)" if "size arr \<noteq> 0" using that by (simp add: unat_minus_one unat_gt_0)
  then show ?thesis using b \<open>da_ok arr\<close> by (auto simp: da_pop_def da_ok_def word_less_1)
qed

lemma da_apply_ok:
  assumes "da_ok arr" "op_fits p (arr, st)" "da_apply p (arr, st) = Inr z"
  shows "da_ok (fst z)"
proof (cases p)
  case Push
  obtain arr' q st' where "da_push arr st = (arr', q, st')" by (metis prod_cases3)
  with assms Push da_push_ok[OF assms(1) _ this] show ?thesis by auto
next
  case (Reserve cap)
  obtain arr' n st' where "da_reserve arr cap st = (arr', n, st')" by (metis prod_cases3)
  with assms Reserve da_reserve_ok[OF assms(1) _ this] show ?thesis by auto
next
  case Clear
  obtain arr' n st' where "da_clear arr st = (arr', n, st')" by (metis prod_cases3)
  with assms Clear da_clear_ok[OF assms(1) _ this] show ?thesis by auto
next
  case Reverse
  with assms(3) obtain arr' n st' where "da_reverse arr st = Inr (arr', n, st')" "z = (arr', st')" by (auto simp: bindC_eq_Inr)
  with da_reverse_ok[OF assms(1)] show ?thesis by simp
qed (use assms da_pop_ok in auto)

lemma da_history_keeps: "da_ok (fst z) \<Longrightarrow> history_fits ps z \<Longrightarrow> da_history ps z = Inr z' \<Longrightarrow> da_ok (fst z')"
proof (induction ps arbitrary: z)
  case (Cons p ps z)
  obtain arr st where z: "z = (arr, st)" by (cases z)
  from Cons.prems obtain z1 where z1: "da_apply p z = Inr z1" "da_history ps z1 = Inr z'" "history_fits ps z1"
    by (auto simp: bindC_eq_Inr)
  have "da_ok (fst z1)" using da_apply_ok[of arr p st z1] Cons.prems z z1(1) by simp
  with Cons.IH z1 show ?case by blast
qed simp

text \<open>C11: A dynamic array is well formed as long as it lives. From a \<open>da_init\<close> that succeeds on, after any sequence of pushes,
  pops, reservations, clearings and reversals, whether their allocations succeed or fail, the block is exactly as long as
  \<open>capacity\<close> elements and no more than those are in use, provided that no size of a block wraps around \<open>size_t\<close> and that
  \<open>da_clear\<close> gets its block.
\<close>

theorem da_history_well_formed:
  assumes "da_init n d arr0 st0 = (arr, 0, st)" "unat n * unat d < 2 ^ 64"
    "history_fits ps (arr, st)" "da_history ps (arr, st) = Inr (arr', st')"
  shows "\<exists>b. data arr' = Some b \<and> length b = unat (capacity arr') * unat (dataSize arr') \<and> dataSize arr' \<noteq> 0
    \<and> unat (size arr') \<le> unat (capacity arr')"
proof -
  have "da_ok arr"
    using assms(1,2) malloc_block_length[of "n * d" st0] unat_mult_exact[OF assms(2)]
    by (auto simp: da_init_def da_ok_def Let_def unat_gt_0 split: if_splits prod.splits)
  then have "da_ok arr'" using da_history_keeps[of "(arr, st)"] assms(3,4) by fastforce
  then show ?thesis by (auto elim!: da_okE)
qed

definition demo_ops :: "da_op list" where
  "demo_ops = [Push, Push, Pop, Reserve 5, Push, Push, Clear, Push]"

definition demo_start :: "DynArray \<times> int \<times> cstate" where
  "demo_start = da_init 0 2 \<lparr>data = None, size = 0, capacity = 0, dataSize = 0\<rparr> \<lparr>allocs = [True, True, False], cerrno = 0\<rparr>"

lemma demo_history:
  "map_prod id fst demo_start = (fst demo_start, 0)" "history_fits demo_ops (fst demo_start, snd (snd demo_start))"
  "(case da_history demo_ops (fst demo_start, snd (snd demo_start)) of Inl f \<Rightarrow> None | Inr z \<Rightarrow> Some (size (fst z))) = Some 1"
  by (simp_all add: demo_ops_def demo_start_def da_init_def malloc_block_def realloc_block_def malloc_ok_def da_push_def da_get_def
      da_pop_def da_reserve_def da_clear_def da_free_def da_room_def Let_def)

lemma da_history_well_formed_witness: "\<exists>arr st. da_history demo_ops (fst demo_start, snd (snd demo_start)) = Inr (arr, st)
   \<and> size arr = 1 \<and> (\<exists>b. data arr = Some b \<and> length b = unat (capacity arr) * unat (dataSize arr))"
proof -
  let ?z = "\<lparr>data = None, size = 0, capacity = 0, dataSize = 0\<rparr>"
  let ?s = "\<lparr>allocs = [True, True, False], cerrno = 0\<rparr>"
  have i: "da_init 0 2 ?z ?s = (fst demo_start, 0, snd (snd demo_start))" using demo_history(1) by (auto simp: demo_start_def prod_eq_iff)
  obtain arr st where z: "da_history demo_ops (fst demo_start, snd (snd demo_start)) = Inr (arr, st)" "size arr = 1"
    using demo_history(3) by (auto split: sum.splits)
  from da_history_well_formed[OF i _ demo_history(2) z(1)] z show ?thesis by auto
qed

end
