(* ===== verification/Handoff.thy ===== *)
theory Handoff
  imports CStr
begin

text \<open>
  Two programs that hand pieces of data over through a shared buffer guarded by two semaphores:
  \<open>53_Posix_Semaphores/sem_data_transfer.c\<close> (two threads) and \<open>54_Posix_Shared_Memory/pshm_writer.c\<close> with
  \<open>pshm_reader.c\<close> (two processes that find each other by names). A step is what a thread does between two calls; a
  buffer of bytes is read as the string in front of its first null byte. In \<open>sem_data_transfer\<close>
  any call of the loops may fail, which ends the program; in the other two only \<open>read\<close> may.
\<close>

section \<open>sem\_data\_transfer\<close>

datatype sdt_main = M_Create | M_Wait | M_Read | M_Post | M_Test | M_Join | M_Exit | M_Failed
datatype sdt_reader = R_None | R_Wait | R_Test | R_Print | R_Post | R_Done

record sdt =
  sem1 :: nat
  sem2 :: nat
  sdt_data :: string
  eof :: bool
  sdt_input :: "string list"     \<comment> \<open>what the reads of standard input will return before the end of the file\<close>
  sdt_out :: string
  main_at :: sdt_main
  reader_at :: sdt_reader

definition sdt_init :: "string list \<Rightarrow> sdt \<Rightarrow> bool" where
  "sdt_init ps s \<longleftrightarrow> s = \<lparr>sem1 = 1, sem2 = 0, sdt_data = [], eof = False, sdt_input = ps, sdt_out = [],
     main_at = M_Create, reader_at = R_None\<rparr>"

inductive sdt_main_step :: "sdt \<Rightarrow> sdt \<Rightarrow> bool" where
  sdt_create: "main_at s = M_Create \<Longrightarrow> sdt_main_step s (s\<lparr>main_at := M_Wait, reader_at := R_Wait\<rparr>)"
| sdt_wait: "main_at s = M_Wait \<Longrightarrow> 0 < sem1 s \<Longrightarrow> sdt_main_step s (s\<lparr>sem1 := sem1 s - 1, main_at := M_Read\<rparr>)"
| sdt_read: "main_at s = M_Read \<Longrightarrow> sdt_input s = p # ps \<Longrightarrow>
    sdt_main_step s (s\<lparr>sdt_data := c_str p, sdt_input := ps, main_at := M_Post\<rparr>)"
| sdt_end: "main_at s = M_Read \<Longrightarrow> sdt_input s = [] \<Longrightarrow>
    sdt_main_step s (s\<lparr>sdt_data := [], eof := True, main_at := M_Post\<rparr>)"
| sdt_failed: "main_at s \<in> {M_Create, M_Wait, M_Read, M_Post, M_Join} \<Longrightarrow> sdt_main_step s (s\<lparr>main_at := M_Failed\<rparr>)"
    \<comment> \<open>\<open>pthread_create\<close>, \<open>sem_wait\<close>, \<open>read\<close>, \<open>sem_post\<close> or \<open>pthread_join\<close>\<close>
| sdt_post: "main_at s = M_Post \<Longrightarrow> sdt_main_step s (s\<lparr>sem2 := sem2 s + 1, main_at := M_Test\<rparr>)"
| sdt_again: "main_at s = M_Test \<Longrightarrow> \<not> eof s \<Longrightarrow> sdt_main_step s (s\<lparr>main_at := M_Wait\<rparr>)"
| sdt_break: "main_at s = M_Test \<Longrightarrow> eof s \<Longrightarrow> sdt_main_step s (s\<lparr>main_at := M_Join\<rparr>)"
| sdt_join: "main_at s = M_Join \<Longrightarrow> reader_at s = R_Done \<Longrightarrow> sdt_main_step s (s\<lparr>main_at := M_Exit\<rparr>)"

inductive sdt_reader_step :: "sdt \<Rightarrow> sdt \<Rightarrow> bool" where
  rd_wait: "reader_at s = R_Wait \<Longrightarrow> 0 < sem2 s \<Longrightarrow> sdt_reader_step s (s\<lparr>sem2 := sem2 s - 1, reader_at := R_Test\<rparr>)"
| rd_break: "reader_at s = R_Test \<Longrightarrow> eof s \<Longrightarrow> sdt_reader_step s (s\<lparr>reader_at := R_Done\<rparr>)"
| rd_go: "reader_at s = R_Test \<Longrightarrow> \<not> eof s \<Longrightarrow> sdt_reader_step s (s\<lparr>reader_at := R_Print\<rparr>)"
| rd_print: "reader_at s = R_Print \<Longrightarrow> sdt_reader_step s (s\<lparr>sdt_out := sdt_out s @ sdt_data s, reader_at := R_Post\<rparr>)"
| rd_post: "reader_at s = R_Post \<Longrightarrow> sdt_reader_step s (s\<lparr>sem1 := sem1 s + 1, reader_at := R_Wait\<rparr>)"
| rd_failed: "reader_at s \<in> {R_Wait, R_Post} \<Longrightarrow> sdt_reader_step s (s\<lparr>main_at := M_Failed\<rparr>)"

definition sdt_step :: "sdt \<Rightarrow> sdt \<Rightarrow> bool" where
  \<comment> \<open>the end of \<open>main\<close> ends the reader\<close>
  "sdt_step s t \<longleftrightarrow> main_at s \<notin> {M_Exit, M_Failed} \<and> (sdt_main_step s t \<or> sdt_reader_step s t)"

definition sem_data_transfer :: "string list \<Rightarrow> sdt \<Rightarrow> bool" where
  "sem_data_transfer ps = reach (sdt_init ps) sdt_step"

text \<open>Exactly one of the threads may touch the buffer, or one of the semaphores says who may be next.\<close>

definition tokens :: "sdt \<Rightarrow> nat" where
  "tokens s = sem1 s + sem2 s + (if main_at s \<in> {M_Read, M_Post} then 1 else 0)
     + (if reader_at s \<in> {R_Test, R_Print, R_Post, R_Done} then 1 else 0)"

definition in_flight :: "sdt \<Rightarrow> bool" where
  \<comment> \<open>the buffer holds a piece that is not printed yet\<close>
  "in_flight s \<longleftrightarrow> main_at s = M_Post \<or> 0 < sem2 s \<or> reader_at s \<in> {R_Test, R_Print}"

definition sdt_pcs :: "sdt \<Rightarrow> bool" where
  "sdt_pcs s \<longleftrightarrow> (reader_at s = R_None \<longleftrightarrow> main_at s = M_Create) \<and> (main_at s = M_Create \<longrightarrow> sem1 s = 1)
     \<and> (if eof s then sdt_input s = [] \<and> main_at s \<in> {M_Post, M_Test, M_Join, M_Exit} \<and> sem1 s = 0 \<and> reader_at s \<notin> {R_Print, R_Post}
          \<and> (main_at s = M_Exit \<longrightarrow> reader_at s = R_Done)
        else reader_at s \<noteq> R_Done \<and> main_at s \<notin> {M_Join, M_Exit})"

definition sdt_shown :: "string list \<Rightarrow> sdt \<Rightarrow> bool" where
  "sdt_shown ps s \<longleftrightarrow> (\<exists>seen. ps = seen @ sdt_input s \<and> (if in_flight s \<and> \<not> eof s
       then seen \<noteq> [] \<and> sdt_data s = c_str (last seen) \<and> sdt_out s = concat (map c_str (butlast seen))
       else sdt_out s = concat (map c_str seen)))"

definition sdt_inv :: "string list \<Rightarrow> sdt \<Rightarrow> bool" where
  "sdt_inv ps s \<longleftrightarrow> (main_at s = M_Failed \<or> tokens s = 1 \<and> sdt_pcs s \<and> sdt_shown ps s)"

lemma sdt_inv_init: "sdt_init ps s \<Longrightarrow> sdt_inv ps s"
  by (simp add: sdt_init_def sdt_inv_def tokens_def sdt_pcs_def sdt_shown_def in_flight_def)

lemma sdt_main_inv: "sdt_main_step s t \<Longrightarrow> main_at s \<noteq> M_Failed \<Longrightarrow> sdt_inv ps s \<Longrightarrow> sdt_inv ps t"
proof (induction rule: sdt_main_step.induct)
  case (sdt_read s p rest)
  then obtain seen where "ps = seen @ p # rest" "sdt_out s = concat (map c_str seen)"
    by (auto simp: sdt_inv_def sdt_shown_def in_flight_def tokens_def split: if_splits)
  then have "sdt_shown ps (s\<lparr>sdt_data := c_str p, sdt_input := rest, main_at := M_Post\<rparr>)"
    using sdt_read by (auto simp: sdt_inv_def sdt_shown_def in_flight_def sdt_pcs_def intro!: exI[of _ "seen @ [p]"])
  with sdt_read show ?case by (auto simp: sdt_inv_def tokens_def sdt_pcs_def)
qed (auto simp: sdt_inv_def tokens_def sdt_pcs_def sdt_shown_def in_flight_def split: if_splits)

lemma shown_last: "seen \<noteq> [] \<Longrightarrow> concat (map f (butlast seen)) @ f (last seen) = concat (map f seen)"
  by (induction seen rule: rev_induct) simp_all

lemma sdt_reader_inv: "sdt_reader_step s t \<Longrightarrow> main_at s \<noteq> M_Failed \<Longrightarrow> sdt_inv ps s \<Longrightarrow> sdt_inv ps t"
proof (induction rule: sdt_reader_step.induct)
  case (rd_print s)
  then obtain seen where "ps = seen @ sdt_input s" "seen \<noteq> []" "sdt_data s = c_str (last seen)" "sdt_out s = concat (map c_str (butlast seen))"
    by (auto simp: sdt_inv_def sdt_shown_def in_flight_def sdt_pcs_def split: if_splits)
  moreover from this have "sdt_out s @ sdt_data s = concat (map c_str seen)" by (simp add: shown_last)
  ultimately show ?case using rd_print
    by (auto simp: sdt_inv_def tokens_def sdt_pcs_def sdt_shown_def in_flight_def split: if_splits)
qed (auto simp: sdt_inv_def tokens_def sdt_pcs_def sdt_shown_def in_flight_def split: if_splits)

interpretation sdt: invariant_system "sdt_init ps" sdt_step "sdt_inv ps" for ps
  by unfold_locales (auto intro: sdt_inv_init sdt_main_inv sdt_reader_inv simp: sdt_step_def)

text \<open>Every step brings the run nearer to its end.\<close>

definition sdt_rank :: "sdt \<Rightarrow> nat" where
  "sdt_rank s = 9 * (length (sdt_input s) + (if eof s then 0 else 1)) + 4 * sem2 s
     + (case main_at s of M_Create \<Rightarrow> 5 | M_Wait \<Rightarrow> 4 | M_Read \<Rightarrow> 3 | M_Post \<Rightarrow> 10 | M_Test \<Rightarrow> 5 | M_Join \<Rightarrow> 1 | _ \<Rightarrow> 0)
     + (case reader_at s of R_Test \<Rightarrow> 3 | R_Print \<Rightarrow> 2 | R_Post \<Rightarrow> 1 | _ \<Rightarrow> 0)"

lemma sdt_rank_step: "sdt_inv ps s \<Longrightarrow> sdt_step s t \<Longrightarrow> sdt_rank t < sdt_rank s"
  unfolding sdt_step_def
  by (elim conjE disjE sdt_main_step.cases sdt_reader_step.cases)
    (auto simp: sdt_rank_def sdt_inv_def sdt_pcs_def split: sdt_reader.splits sdt_main.splits)

lemma sdt_moves:
  assumes "sdt_inv ps s" "main_at s \<notin> {M_Exit, M_Failed}"
  shows "\<exists>t. sdt_step s t"
proof -
  have m: "\<exists>t. sdt_main_step s t" if "main_at s \<notin> {M_Wait, M_Join}"
    using that assms(2) by (cases "main_at s") (metis sdt_main_step.intros(1,3-8) list.exhaust singletonI insertI1 insertI2)+
  have r: "\<exists>t. sdt_reader_step s t" if "reader_at s \<in> {R_Test, R_Print, R_Post} \<or> reader_at s = R_Wait \<and> 0 < sem2 s"
    using that sdt_reader_step.intros by (cases "eof s") blast+
  have w: "\<exists>t. sdt_main_step s t" if "main_at s = M_Wait" "0 < sem1 s" using that by (metis sdt_main_step.intros(2))
  have j: "\<exists>t. sdt_main_step s t" if "main_at s = M_Join" "reader_at s = R_Done" using that by (metis sdt_main_step.intros(9))
  show ?thesis
  proof (cases "main_at s \<in> {M_Wait, M_Join}")
    case False
    then show ?thesis using m assms(2) by (auto simp: sdt_step_def)
  next
    case True
    then have "reader_at s \<in> {R_Test, R_Print, R_Post} \<or> reader_at s = R_Wait \<and> 0 < sem2 s
        \<or> main_at s = M_Wait \<and> 0 < sem1 s \<or> main_at s = M_Join \<and> reader_at s = R_Done"
      using assms(1) by (cases "reader_at s") (auto simp: sdt_inv_def tokens_def sdt_pcs_def split: if_splits)
    then show ?thesis using r w j assms(2) by (auto simp: sdt_step_def)
  qed
qed

primrec sdt_run :: "nat \<Rightarrow> sdt \<Rightarrow> sdt \<Rightarrow> bool" where
  \<comment> \<open>a run of a number of steps\<close>
  "sdt_run 0 s t = (s = t)"
| "sdt_run (Suc n) s t = (\<exists>u. sdt_step s u \<and> sdt_run n u t)"

lemma sdt_run_short: "sdt_inv ps s \<Longrightarrow> sdt_run n s t \<Longrightarrow> n + sdt_rank t \<le> sdt_rank s \<and> sdt_inv ps t"
proof (induction n arbitrary: s)
  case (Suc n)
  then obtain u where u: "sdt_step s u" "sdt_run n u t" by auto
  then have "sdt_inv ps u" using Suc.prems(1) sdt.step_inv by blast
  with Suc.IH u(2) sdt_rank_step[OF Suc.prems(1) u(1)] show ?case by fastforce
qed simp

text \<open>C23: \<open>sem_data_transfer\<close> prints what it reads, piece by piece and nothing twice, and comes to an end: whatever the
  order in which the threads run, no run has more than nine steps for each piece and fourteen more, a run that cannot go on is
  at the end of \<open>main\<close> or at a call that has failed, and at the end of \<open>main\<close> everything has been printed. (Of a piece with a
  null byte only the bytes in front of it.)
\<close>

theorem sem_data_transfer_prints_all:
  assumes "sdt_init ps s" "sdt_run n s t"
  shows "n \<le> 9 * length ps + 14 \<and> (sdt_step t = (\<lambda>u. False)) = (main_at t \<in> {M_Exit, M_Failed})
    \<and> (main_at t = M_Exit \<longrightarrow> reader_at t = R_Done \<and> sdt_out t = concat (map c_str ps))"
proof (intro conjI impI)
  have s: "sdt_rank s = 9 * length ps + 14" using assms(1) by (simp add: sdt_init_def sdt_rank_def)
  from sdt_run_short[OF sdt.init_inv[OF assms(1)] assms(2)] have r: "n + sdt_rank t \<le> sdt_rank s" "sdt_inv ps t" by auto
  then show "n \<le> 9 * length ps + 14" by (simp add: s)
  show "(sdt_step t = (\<lambda>u. False)) = (main_at t \<in> {M_Exit, M_Failed})"
    using sdt_moves[OF r(2)] by (auto simp: sdt_step_def fun_eq_iff)
  show "reader_at t = R_Done" "sdt_out t = concat (map c_str ps)" if "main_at t = M_Exit"
    using r(2) that by (auto simp: sdt_inv_def sdt_pcs_def sdt_shown_def tokens_def in_flight_def split: if_splits)
qed

definition sdt_demo :: "string list \<Rightarrow> sdt" where
  "sdt_demo ps = \<lparr>sem1 = 1, sem2 = 0, sdt_data = [], eof = False, sdt_input = ps, sdt_out = [],
     main_at = M_Create, reader_at = R_None\<rparr>"

text \<open>One schedule: \<open>main\<close> whenever it can go on, the reader otherwise.\<close>

definition sdt_next :: "sdt \<Rightarrow> sdt option" where
  "sdt_next s = (case main_at s of
      M_Create \<Rightarrow> Some (s\<lparr>main_at := M_Wait, reader_at := R_Wait\<rparr>)
    | M_Read \<Rightarrow> (case sdt_input s of [] \<Rightarrow> Some (s\<lparr>sdt_data := [], eof := True, main_at := M_Post\<rparr>)
        | p # ps \<Rightarrow> Some (s\<lparr>sdt_data := c_str p, sdt_input := ps, main_at := M_Post\<rparr>))
    | M_Post \<Rightarrow> Some (s\<lparr>sem2 := sem2 s + 1, main_at := M_Test\<rparr>)
    | M_Test \<Rightarrow> Some (s\<lparr>main_at := (if eof s then M_Join else M_Wait)\<rparr>)
    | M_Exit \<Rightarrow> None | M_Failed \<Rightarrow> None
    | pc \<Rightarrow> if pc = M_Wait \<and> 0 < sem1 s then Some (s\<lparr>sem1 := sem1 s - 1, main_at := M_Read\<rparr>)
        else if pc = M_Join \<and> reader_at s = R_Done then Some (s\<lparr>main_at := M_Exit\<rparr>)
        else (case reader_at s of
            R_Wait \<Rightarrow> if 0 < sem2 s then Some (s\<lparr>sem2 := sem2 s - 1, reader_at := R_Test\<rparr>) else None
          | R_Test \<Rightarrow> Some (s\<lparr>reader_at := (if eof s then R_Done else R_Print)\<rparr>)
          | R_Print \<Rightarrow> Some (s\<lparr>sdt_out := sdt_out s @ sdt_data s, reader_at := R_Post\<rparr>)
          | R_Post \<Rightarrow> Some (s\<lparr>sem1 := sem1 s + 1, reader_at := R_Wait\<rparr>)
          | _ \<Rightarrow> None))"

lemma sdt_next_step: "sdt_next s = Some t \<Longrightarrow> sdt_step s t"
  using sdt_main_step.intros[of s] sdt_reader_step.intros[of s]
  by (auto simp: sdt_next_def sdt_step_def split: sdt_main.splits sdt_reader.splits list.splits if_splits)

primrec sdt_follow :: "nat \<Rightarrow> sdt \<Rightarrow> sdt option" where
  "sdt_follow 0 s = Some s"
| "sdt_follow (Suc n) s = Option.bind (sdt_next s) (sdt_follow n)"

lemma sdt_follow_run: "sdt_follow n s = Some t \<Longrightarrow> sdt_run n s t"
  by (induction n arbitrary: s) (auto simp: bind_eq_Some_conv intro: sdt_next_step)

lemma sem_data_transfer_prints_all_witness:
  "\<exists>t. sdt_run 16 (sdt_demo [''ab'']) t \<and> main_at t = M_Exit \<and> sdt_out t = ''ab''"
proof -
  have "map_option main_at (sdt_follow 16 (sdt_demo [''ab''])) = Some M_Exit" by code_simp
  then obtain t where t: "sdt_follow 16 (sdt_demo [''ab'']) = Some t" "main_at t = M_Exit" by auto
  from sem_data_transfer_prints_all[OF _ sdt_follow_run[OF t(1)], of "[''ab'']"] t show ?thesis
    by (auto simp: sdt_init_def sdt_demo_def c_str_def NUL_def intro!: sdt_follow_run)
qed

section \<open>pshm\_writer and pshm\_reader\<close>

datatype pshm_writer = PW_Shm | PW_Trunc | PW_Sem | PW_Find | PW_Wait | PW_Read | PW_Copy string | PW_Post | PW_Zero | PW_Last
  | PW_UnlinkSem | PW_UnlinkShm | PW_Exit | PW_Failed
datatype pshm_reader = PR_Sem | PR_Find | PR_Shm | PR_Wait | PR_Stat | PR_Print | PR_Post | PR_Unlink | PR_Exit | PR_Failed

record pshm =
  shm_named :: bool        \<comment> \<open>the names that exist; what is open stays usable without its name\<close>
  wsem_named :: bool
  rsem_named :: bool
  shm_len :: nat
  shm_mem :: string
  write_sem :: nat
  read_sem :: nat
  pw_input :: "string list"
  pr_out :: string
  pw_at :: pshm_writer
  pr_at :: pshm_reader

definition MMAP_SIZE :: nat where "MMAP_SIZE = 4096"

definition pshm_init :: "string list \<Rightarrow> pshm \<Rightarrow> bool" where
  "pshm_init ps s \<longleftrightarrow> s = \<lparr>shm_named = False, wsem_named = False, rsem_named = False, shm_len = 0, shm_mem = [],
     write_sem = 0, read_sem = 0, pw_input = ps, pr_out = [], pw_at = PW_Shm, pr_at = PR_Sem\<rparr>"

inductive pshm_writer_step :: "pshm \<Rightarrow> pshm \<Rightarrow> bool" where
  pw_shm: "pw_at s = PW_Shm \<Longrightarrow> pshm_writer_step s (s\<lparr>shm_named := True, pw_at := PW_Trunc\<rparr>)"
| pw_trunc: "pw_at s = PW_Trunc \<Longrightarrow> pshm_writer_step s (s\<lparr>shm_len := MMAP_SIZE, pw_at := PW_Sem\<rparr>)"
| pw_sem: "pw_at s = PW_Sem \<Longrightarrow> pshm_writer_step s
    (s\<lparr>write_sem := (if wsem_named s then write_sem s else 1), wsem_named := True, pw_at := PW_Find\<rparr>)"
| pw_find: "pw_at s = PW_Find \<Longrightarrow> rsem_named s \<Longrightarrow> pshm_writer_step s (s\<lparr>pw_at := PW_Wait\<rparr>)"
| pw_wait: "pw_at s = PW_Wait \<Longrightarrow> 0 < write_sem s \<Longrightarrow> pshm_writer_step s (s\<lparr>write_sem := write_sem s - 1, pw_at := PW_Read\<rparr>)"
| pw_read: "pw_at s = PW_Read \<Longrightarrow> pw_input s = p # ps \<Longrightarrow> pshm_writer_step s (s\<lparr>pw_input := ps, pw_at := PW_Copy (c_str p)\<rparr>)"
| pw_failed: "pw_at s = PW_Read \<Longrightarrow> pshm_writer_step s (s\<lparr>pw_at := PW_Failed\<rparr>)"
| pw_copy: "pw_at s = PW_Copy p \<Longrightarrow> pshm_writer_step s (s\<lparr>shm_mem := p, pw_at := PW_Post\<rparr>)"
| pw_post: "pw_at s = PW_Post \<Longrightarrow> pshm_writer_step s (s\<lparr>read_sem := read_sem s + 1, pw_at := PW_Wait\<rparr>)"
| pw_end: "pw_at s = PW_Read \<Longrightarrow> pw_input s = [] \<Longrightarrow> pshm_writer_step s (s\<lparr>pw_at := PW_Zero\<rparr>)"
| pw_zero: "pw_at s = PW_Zero \<Longrightarrow> pshm_writer_step s (s\<lparr>shm_len := 0, pw_at := PW_Last\<rparr>)"
| pw_last: "pw_at s = PW_Last \<Longrightarrow> pshm_writer_step s (s\<lparr>read_sem := read_sem s + 1, pw_at := PW_UnlinkSem\<rparr>)"
| pw_unlink_sem: "pw_at s = PW_UnlinkSem \<Longrightarrow> pshm_writer_step s (s\<lparr>wsem_named := False, pw_at := PW_UnlinkShm\<rparr>)"
| pw_unlink_shm: "pw_at s = PW_UnlinkShm \<Longrightarrow> pshm_writer_step s (s\<lparr>shm_named := False, pw_at := PW_Exit\<rparr>)"

inductive pshm_reader_step :: "pshm \<Rightarrow> pshm \<Rightarrow> bool" where
  pr_sem: "pr_at s = PR_Sem \<Longrightarrow> pshm_reader_step s
    (s\<lparr>read_sem := (if rsem_named s then read_sem s else 0), rsem_named := True, pr_at := PR_Find\<rparr>)"
| pr_find: "pr_at s = PR_Find \<Longrightarrow> wsem_named s \<Longrightarrow> pshm_reader_step s (s\<lparr>pr_out := pr_out s @ [NL], pr_at := PR_Shm\<rparr>)"
| pr_shm: "pr_at s = PR_Shm \<Longrightarrow> shm_named s \<Longrightarrow> pshm_reader_step s (s\<lparr>pr_at := PR_Wait\<rparr>)"
| pr_no_shm: "pr_at s = PR_Shm \<Longrightarrow> \<not> shm_named s \<Longrightarrow> pshm_reader_step s (s\<lparr>pr_at := PR_Failed\<rparr>)"
| pr_wait: "pr_at s = PR_Wait \<Longrightarrow> 0 < read_sem s \<Longrightarrow> pshm_reader_step s (s\<lparr>read_sem := read_sem s - 1, pr_at := PR_Stat\<rparr>)"
| pr_stop: "pr_at s = PR_Stat \<Longrightarrow> shm_len s = 0 \<Longrightarrow> pshm_reader_step s (s\<lparr>pr_at := PR_Unlink\<rparr>)"
| pr_go: "pr_at s = PR_Stat \<Longrightarrow> shm_len s \<noteq> 0 \<Longrightarrow> pshm_reader_step s (s\<lparr>pr_at := PR_Print\<rparr>)"
| pr_print: "pr_at s = PR_Print \<Longrightarrow> pshm_reader_step s (s\<lparr>pr_out := pr_out s @ shm_mem s, pr_at := PR_Post\<rparr>)"
| pr_post: "pr_at s = PR_Post \<Longrightarrow> pshm_reader_step s (s\<lparr>write_sem := write_sem s + 1, pr_at := PR_Wait\<rparr>)"
| pr_unlink: "pr_at s = PR_Unlink \<Longrightarrow> pshm_reader_step s (s\<lparr>rsem_named := False, pr_at := PR_Exit\<rparr>)"

inductive pshm_poll :: "pshm \<Rightarrow> pshm \<Rightarrow> bool" where
  \<comment> \<open>a dot, and a second of sleep, while the other side is not there\<close>
  poll_writer: "pw_at s = PW_Find \<Longrightarrow> \<not> rsem_named s \<Longrightarrow> pshm_poll s s"
| poll_reader: "pr_at s = PR_Find \<Longrightarrow> \<not> wsem_named s \<Longrightarrow> pshm_poll s (s\<lparr>pr_out := pr_out s @ ''.''\<rparr>)"

definition pshm_step :: "pshm \<Rightarrow> pshm \<Rightarrow> bool" where
  "pshm_step s t \<longleftrightarrow> pshm_writer_step s t \<or> pshm_reader_step s t"

definition pshm_any :: "pshm \<Rightarrow> pshm \<Rightarrow> bool" where
  "pshm_any s t \<longleftrightarrow> pshm_step s t \<or> pshm_poll s t"

definition pshm_programs :: "string list \<Rightarrow> pshm \<Rightarrow> bool" where
  "pshm_programs ps = reach (pshm_init ps) pshm_any"

fun pw_holds :: "pshm_writer \<Rightarrow> bool" where
  "pw_holds (PW_Copy p) = True"
| "pw_holds pc = (pc \<in> {PW_Read, PW_Post, PW_Zero, PW_Last, PW_Failed})"

lemma pw_holds_iff: "pw_holds pc \<longleftrightarrow> (\<exists>p. pc = PW_Copy p) \<or> pc \<in> {PW_Read, PW_Post, PW_Zero, PW_Last, PW_Failed}"
  by (cases pc) auto

definition pw_before :: "pshm_writer set" where
  "pw_before = {PW_Shm, PW_Trunc, PW_Sem}"

definition pw_after :: "pshm_writer set" where
  \<comment> \<open>the object has been cut to nothing\<close>
  "pw_after = {PW_Last, PW_UnlinkSem, PW_UnlinkShm, PW_Exit}"

definition pr_apart :: "pshm_reader set" where
  \<comment> \<open>the reader has not opened the object\<close>
  "pr_apart = {PR_Sem, PR_Find, PR_Shm, PR_Failed}"

definition pshm_tokens :: "pshm \<Rightarrow> bool" where
  "pshm_tokens s \<longleftrightarrow> write_sem s + read_sem s + (if pw_holds (pw_at s) then 1 else 0)
     + (if pr_at s \<in> {PR_Stat, PR_Print, PR_Post, PR_Unlink, PR_Exit} then 1 else 0) = (if pw_at s \<in> pw_before then 0 else 1)"

definition pshm_names :: "pshm \<Rightarrow> bool" where
  "pshm_names s \<longleftrightarrow> (rsem_named s \<longleftrightarrow> pr_at s \<notin> {PR_Sem, PR_Exit})
     \<and> (wsem_named s \<longleftrightarrow> pw_at s \<notin> pw_before \<union> {PW_UnlinkShm, PW_Exit})
     \<and> (shm_named s \<longleftrightarrow> pw_at s \<notin> {PW_Shm, PW_Exit})
     \<and> (shm_len s = 0 \<longleftrightarrow> pw_at s \<in> {PW_Shm, PW_Trunc} \<union> pw_after)"

definition pshm_flight :: "pshm \<Rightarrow> bool" where
  "pshm_flight s \<longleftrightarrow> pw_at s \<notin> pw_after \<and> ((\<exists>p. pw_at s = PW_Copy p) \<or> pw_at s = PW_Post \<or> 0 < read_sem s \<or> pr_at s \<in> {PR_Stat, PR_Print})"

fun pw_pending :: "pshm_writer \<Rightarrow> string \<Rightarrow> string" where
  \<comment> \<open>the piece that is on its way\<close>
  "pw_pending (PW_Copy p) m = p"
| "pw_pending pc m = m"

lemma pw_pending_other: "(\<And>p. pc \<noteq> PW_Copy p) \<Longrightarrow> pw_pending pc m = m"
  by (cases pc) auto

definition pshm_shown :: "string list \<Rightarrow> string list \<Rightarrow> pshm \<Rightarrow> bool" where
  "pshm_shown ps seen s \<longleftrightarrow> ps = seen @ pw_input s
     \<and> (pshm_flight s \<longrightarrow> seen \<noteq> [] \<and> pw_pending (pw_at s) (shm_mem s) = c_str (last seen))
     \<and> (\<exists>k. pr_out s = replicate k (CHR ''.'') @ (if pr_at s \<in> {PR_Sem, PR_Find} then []
          else NL # concat (map c_str (if pshm_flight s then butlast seen else seen))))"

definition pshm_apart :: "string list \<Rightarrow> pshm \<Rightarrow> bool" where
  \<comment> \<open>without a reader no more than one piece is written\<close>
  "pshm_apart seen s \<longleftrightarrow> (pr_at s \<in> pr_apart \<longrightarrow> (if seen = [] then (pw_at s \<in> pw_before \<union> {PW_Find, PW_Wait} \<longrightarrow> read_sem s = 0)
       else length seen = 1 \<and> write_sem s = 0 \<and> pw_holds (pw_at s) \<noteq> (pw_at s = PW_Wait) \<and> pw_at s \<notin> {PW_Read, PW_Zero, PW_Last, PW_Failed}))"

definition pshm_order :: "pshm \<Rightarrow> bool" where
  "pshm_order s \<longleftrightarrow> (pr_at s \<in> {PR_Unlink, PR_Exit} \<longrightarrow> pw_at s \<in> pw_after) \<and> (pr_at s \<in> {PR_Print, PR_Post} \<longrightarrow> pw_at s \<notin> pw_after)
     \<and> (pw_at s \<in> pw_after \<union> {PW_Zero} \<longrightarrow> pw_input s = []) \<and> (pw_at s \<in> pw_before \<union> {PW_Find} \<longrightarrow> read_sem s = 0)
     \<and> (pw_at s \<in> pw_after \<longrightarrow> write_sem s = 0) \<and> (pr_at s = PR_Sem \<longrightarrow> pw_at s \<in> pw_before \<union> {PW_Find})
     \<and> (pw_at s \<in> pw_before \<union> {PW_Find} \<longrightarrow> pr_at s \<in> {PR_Sem, PR_Find, PR_Shm, PR_Wait})
     \<and> (pw_at s \<in> pw_before \<longrightarrow> pr_at s \<in> {PR_Sem, PR_Find}) \<and> (pr_at s = PR_Failed \<longrightarrow> pw_at s = PW_Exit)"

definition pshm_inv :: "string list \<Rightarrow> pshm \<Rightarrow> bool" where
  "pshm_inv ps s \<longleftrightarrow> pshm_tokens s \<and> pshm_names s \<and> pshm_order s \<and> (\<exists>seen. pshm_shown ps seen s \<and> pshm_apart seen s)"

lemmas pshm_sets = pw_before_def pw_after_def pr_apart_def

lemma pshm_inv_init: "pshm_init ps s \<Longrightarrow> pshm_inv ps s"
  by (simp add: pshm_init_def pshm_inv_def pshm_tokens_def pshm_names_def pshm_order_def pshm_shown_def pshm_flight_def pshm_apart_def pshm_sets
      exI[of _ "0 :: nat"])

lemma pshm_control_step:
  assumes "pshm_any s t" "pshm_tokens s" "pshm_names s" "pshm_order s"
  shows "pshm_tokens t" "pshm_names t" "pshm_order t"
  using assms unfolding pshm_any_def pshm_step_def
  by (elim disjE pshm_writer_step.cases pshm_reader_step.cases pshm_poll.cases;
      auto simp: pshm_tokens_def pshm_names_def pshm_order_def pshm_sets MMAP_SIZE_def split: if_splits)+

definition pshm_data :: "string list \<Rightarrow> pshm \<Rightarrow> bool" where
  "pshm_data ps s \<longleftrightarrow> (\<exists>seen. pshm_shown ps seen s \<and> pshm_apart seen s)"

lemma pshm_dataI: "pshm_shown ps seen s \<Longrightarrow> pshm_apart seen s \<Longrightarrow> pshm_data ps s"
  by (auto simp: pshm_data_def)

lemmas pshm_all = pshm_tokens_def pshm_names_def pshm_order_def pshm_shown_def pshm_flight_def pshm_apart_def pshm_sets

lemma pshm_writer_data:
  assumes "pshm_writer_step s t" "pshm_tokens s" "pshm_names s" "pshm_order s" "pshm_shown ps seen s" "pshm_apart seen s"
  shows "pshm_data ps t"
  using assms
proof (induction rule: pshm_writer_step.induct)
  case (pw_read s p rest)
  then show ?case
    by (intro pshm_dataI[where seen = "seen @ [p]"]) (auto simp: pshm_all split: if_splits)
next
  case (pw_copy s p)
  then show ?case by (intro pshm_dataI[where seen = seen]) (auto simp: pshm_all split: if_splits)
qed (intro pshm_dataI[where seen = seen]; auto simp: pshm_all split: if_splits)+

lemma pshm_apart_flight:
  assumes "pshm_tokens s" "pshm_order s" "pshm_apart seen s" "pr_at s \<in> {PR_Find, PR_Shm}" "seen \<noteq> []"
  shows "pshm_flight s" "length seen = 1"
proof -
  from assms(3,4,5) have a: "length seen = 1" "write_sem s = 0" "pw_holds (pw_at s) \<noteq> (pw_at s = PW_Wait)"
      "pw_at s \<notin> {PW_Read, PW_Zero, PW_Last, PW_Failed}" by (auto simp: pshm_apart_def pr_apart_def)
  then have "pw_at s \<notin> pw_after" "pw_at s \<notin> pw_before" by (auto simp: pw_after_def pw_before_def)
  then show "pshm_flight s"
    using a assms(1,4) by (auto simp: pshm_flight_def pshm_tokens_def pw_holds_iff split: if_splits)
  show "length seen = 1" by (rule a)
qed

lemma pshm_reader_data:
  assumes "pshm_reader_step s t" "pshm_tokens s" "pshm_names s" "pshm_order s" "pshm_shown ps seen s" "pshm_apart seen s"
  shows "pshm_data ps t"
  using assms
proof (induction rule: pshm_reader_step.induct)
  case (pr_find s)
  have fl: "pshm_flight (s\<lparr>pr_out := pr_out s @ [NL], pr_at := PR_Shm\<rparr>) = pshm_flight s"
    using pr_find(1) by (auto simp: pshm_flight_def)
  have "concat (map c_str (if pshm_flight s then butlast seen else seen)) = []"
    using pshm_apart_flight[OF pr_find.prems(1,3,5)] pr_find(1) by (cases "seen = []") (auto simp: length_Suc_conv)
  with pr_find have "pshm_shown ps seen (s\<lparr>pr_out := pr_out s @ [NL], pr_at := PR_Shm\<rparr>)"
    unfolding pshm_shown_def fl by auto
  moreover have "pshm_apart seen (s\<lparr>pr_out := pr_out s @ [NL], pr_at := PR_Shm\<rparr>)"
    using pr_find by (auto simp: pshm_apart_def pr_apart_def)
  ultimately show ?case by (rule pshm_dataI)
next
  case (pr_print s)
  then have f: "pshm_flight s" and c: "pw_at s \<noteq> PW_Copy p" for p
    by (auto simp: pshm_flight_def pshm_order_def pshm_tokens_def pw_before_def split: if_splits)
  have "shm_mem s = c_str (last seen)" "seen \<noteq> []"
    using pr_print.prems(4) f c by (auto simp: pshm_shown_def pw_pending_other)
  then have "concat (map c_str (butlast seen)) @ shm_mem s = concat (map c_str seen)" by (simp add: shown_last)
  with pr_print show ?case by (intro pshm_dataI[where seen = seen]) (auto simp: pshm_all split: if_splits)
qed (intro pshm_dataI[where seen = seen]; auto simp: pshm_all split: if_splits)+

lemma pshm_inv_step: "pshm_inv ps s \<Longrightarrow> pshm_any s t \<Longrightarrow> pshm_inv ps t"
proof -
  assume "pshm_inv ps s" and st: "pshm_any s t"
  then obtain seen where i: "pshm_tokens s" "pshm_names s" "pshm_order s" "pshm_shown ps seen s" "pshm_apart seen s"
    by (auto simp: pshm_inv_def)
  have poll: "pshm_data ps t" if "pshm_poll s t"
    using that
  proof cases
    case poll_reader
    obtain k where "pr_out s = replicate k (CHR ''.'')" using i(4) poll_reader by (auto simp: pshm_shown_def)
    then have "pr_out t = replicate (Suc k) (CHR ''.'')" using poll_reader by (simp add: replicate_append_same)
    then have "\<exists>k. pr_out t = replicate k (CHR ''.'')" by blast
    with i poll_reader show ?thesis by (intro pshm_dataI[where seen = seen]) (auto simp: pshm_shown_def pshm_flight_def pshm_apart_def)
  qed (use i in \<open>auto intro: pshm_dataI\<close>)
  then have "pshm_data ps t"
    using st pshm_writer_data[OF _ i] pshm_reader_data[OF _ i] by (auto simp: pshm_any_def pshm_step_def)
  then show "pshm_inv ps t"
    using pshm_control_step[OF st i(1,2,3)] by (auto simp: pshm_inv_def pshm_data_def)
qed

interpretation pshm: invariant_system "pshm_init ps" pshm_any "pshm_inv ps" for ps
  by unfold_locales (auto intro: pshm_inv_init pshm_inv_step)

lemma pshm_programs_inv: "pshm_programs ps s \<Longrightarrow> pshm_inv ps s"
  unfolding pshm_programs_def by (rule pshm.reach_inv)

lemma pshm_writer_moves:
  assumes "pw_at s \<notin> {PW_Find, PW_Wait, PW_Exit, PW_Failed}"
  shows "\<exists>t. pshm_writer_step s t"
  using assms by (cases "pw_at s"; cases "pw_input s") (auto intro: pshm_writer_step.intros)

lemma pshm_reader_moves:
  assumes "pr_at s \<notin> {PR_Find, PR_Wait, PR_Exit, PR_Failed}"
  shows "\<exists>t. pshm_reader_step s t"
  using assms pshm_reader_step.intros by (cases "pr_at s"; cases "shm_named s"; cases "shm_len s = 0") blast+

lemma pshm_orderD:
  assumes "pshm_order s"
  shows "pr_at s \<in> {PR_Unlink, PR_Exit} \<Longrightarrow> pw_at s \<in> pw_after" "pw_at s \<in> pw_after \<Longrightarrow> pw_input s = []"
    "pw_at s \<in> pw_after \<Longrightarrow> write_sem s = 0" "pw_at s = PW_Find \<Longrightarrow> pr_at s \<in> {PR_Sem, PR_Find, PR_Shm, PR_Wait}"
    "pr_at s = PR_Failed \<Longrightarrow> pw_at s = PW_Exit"
  using assms unfolding pshm_order_def by blast+

lemma pshm_reader_opens:
  assumes "pshm_inv ps s" "ps \<noteq> []"
  shows "pr_at s \<noteq> PR_Failed" "pw_at s \<in> {PW_UnlinkSem, PW_UnlinkShm, PW_Exit} \<Longrightarrow> pr_at s \<notin> pr_apart"
proof -
  obtain seen where i: "pshm_order s" "pshm_tokens s" "ps = seen @ pw_input s" "pshm_apart seen s"
    using assms(1) by (auto simp: pshm_inv_def pshm_shown_def)
  show opened: "pw_at s \<in> {PW_UnlinkSem, PW_UnlinkShm, PW_Exit} \<Longrightarrow> pr_at s \<notin> pr_apart"
  proof
    assume a: "pw_at s \<in> {PW_UnlinkSem, PW_UnlinkShm, PW_Exit}" "pr_at s \<in> pr_apart"
    then have "pw_input s = []" using pshm_orderD(2)[OF i(1)] by (auto simp: pw_after_def)
    then have "seen \<noteq> []" using assms(2) i(3) by simp
    with i(4) a show False by (auto simp: pshm_apart_def)
  qed
  show "pr_at s \<noteq> PR_Failed" 
  proof
    assume f: "pr_at s = PR_Failed"
    then have "pw_at s \<in> {PW_UnlinkSem, PW_UnlinkShm, PW_Exit}" using pshm_orderD(5)[OF i(1)] by simp
    from opened[OF this] f show False by (simp add: pr_apart_def)
  qed
qed

lemma pshm_moves:
  assumes "pshm_inv ps s" "ps \<noteq> []" "pw_at s \<noteq> PW_Failed" "\<not> (pw_at s = PW_Exit \<and> pr_at s = PR_Exit)"
  shows "\<exists>t. pshm_step s t"
proof (cases "pw_at s \<notin> {PW_Find, PW_Wait, PW_Exit} \<or> pr_at s \<notin> {PR_Find, PR_Wait, PR_Exit}")
  case True
  then show ?thesis
    using pshm_writer_moves[of s] pshm_reader_moves[of s] pshm_reader_opens(1)[OF assms(1,2)] assms(3) by (auto simp: pshm_step_def)
next
  case False
  have i: "pshm_tokens s" "pshm_names s" "pshm_order s" using assms(1) by (auto simp: pshm_inv_def)
  have x: "pw_at s = PW_Exit \<Longrightarrow> pr_at s \<noteq> PR_Find"
    using pshm_reader_opens(2)[OF assms(1,2)] by (auto simp: pr_apart_def)
  have "pw_at s = PW_Find \<and> rsem_named s \<or> pw_at s = PW_Wait \<and> 0 < write_sem s
      \<or> pr_at s = PR_Find \<and> wsem_named s \<or> pr_at s = PR_Wait \<and> 0 < read_sem s"
  proof (cases "pw_at s = PW_Find")
    case True
    then show ?thesis using pshm_orderD(4)[OF i(3)] False i(2) by (auto simp: pshm_names_def)
  next
    case nf: False
    show ?thesis
    proof (cases "pr_at s = PR_Find")
      case True
      then show ?thesis using False nf x i(2) by (auto simp: pshm_names_def pw_before_def)
    next
      case nr: False
      have "write_sem s = 0" if "pw_at s = PW_Exit" using pshm_orderD(3)[OF i(3)] that by (simp add: pw_after_def)
      moreover have "pw_at s \<noteq> PW_Wait" if "pr_at s = PR_Exit" using pshm_orderD(1)[OF i(3)] that by (auto simp: pw_after_def)
      ultimately show ?thesis
        using False nf nr assms(4) i(1) by (auto simp: pshm_tokens_def pw_before_def)
    qed
  qed
  then show ?thesis
    using pw_find[of s] pw_wait[of s] pr_find[of s] pr_wait[of s] by (auto simp: pshm_step_def)
qed

text \<open>C24: The two processes hand over everything, whatever the order in which they are started and run. When the input is
  not empty, the reader never fails; when it has seen the end, it has printed its dots, a newline and then all that the
  writer read, piece by piece (of a piece with a null byte the bytes in front of it); and as long as no \<open>read\<close> of the
  writer fails, some process can go on until both have ended. (With an empty input the writer may remove the object before
  the reader opens it, which then fails.)
\<close>

theorem pshm_hands_over:
  assumes "pshm_programs ps s" "ps \<noteq> []"
  shows "pr_at s \<noteq> PR_Failed
    \<and> (pr_at s \<in> {PR_Unlink, PR_Exit} \<longrightarrow> (\<exists>k. pr_out s = replicate k (CHR ''.'') @ NL # concat (map c_str ps)))
    \<and> (pw_at s = PW_Failed \<or> pw_at s = PW_Exit \<and> pr_at s = PR_Exit \<or> (\<exists>t. pshm_step s t))"
proof (intro conjI impI)
  note inv = pshm_programs_inv[OF assms(1)]
  show "pr_at s \<noteq> PR_Failed"
    by (rule pshm_reader_opens(1)[OF inv assms(2)])
  show "\<exists>k. pr_out s = replicate k (CHR ''.'') @ NL # concat (map c_str ps)" if "pr_at s \<in> {PR_Unlink, PR_Exit}"
  proof -
    obtain seen where i: "pshm_order s" "pshm_shown ps seen s" using inv by (auto simp: pshm_inv_def)
    have a: "pw_at s \<in> pw_after" using pshm_orderD(1)[OF i(1) that] .
    then have "\<not> pshm_flight s" "seen = ps" using pshm_orderD(2)[OF i(1) a] i(2) by (auto simp: pshm_flight_def pshm_shown_def)
    then show ?thesis using i(2) that by (auto simp: pshm_shown_def)
  qed
  show "pw_at s = PW_Failed \<or> pw_at s = PW_Exit \<and> pr_at s = PR_Exit \<or> (\<exists>t. pshm_step s t)"
    using pshm_moves[OF inv assms(2)] by blast
qed

text \<open>A run by a list that says which process is next.\<close>

definition pw_next :: "pshm \<Rightarrow> pshm option" where
  "pw_next s = (case pw_at s of
      PW_Shm \<Rightarrow> Some (s\<lparr>shm_named := True, pw_at := PW_Trunc\<rparr>)
    | PW_Trunc \<Rightarrow> Some (s\<lparr>shm_len := MMAP_SIZE, pw_at := PW_Sem\<rparr>)
    | PW_Sem \<Rightarrow> Some (s\<lparr>write_sem := (if wsem_named s then write_sem s else 1), wsem_named := True, pw_at := PW_Find\<rparr>)
    | PW_Find \<Rightarrow> if rsem_named s then Some (s\<lparr>pw_at := PW_Wait\<rparr>) else None
    | PW_Wait \<Rightarrow> if 0 < write_sem s then Some (s\<lparr>write_sem := write_sem s - 1, pw_at := PW_Read\<rparr>) else None
    | PW_Read \<Rightarrow> (case pw_input s of [] \<Rightarrow> Some (s\<lparr>pw_at := PW_Zero\<rparr>)
        | p # ps \<Rightarrow> Some (s\<lparr>pw_input := ps, pw_at := PW_Copy (c_str p)\<rparr>))
    | PW_Copy p \<Rightarrow> Some (s\<lparr>shm_mem := p, pw_at := PW_Post\<rparr>)
    | PW_Post \<Rightarrow> Some (s\<lparr>read_sem := read_sem s + 1, pw_at := PW_Wait\<rparr>)
    | PW_Zero \<Rightarrow> Some (s\<lparr>shm_len := 0, pw_at := PW_Last\<rparr>)
    | PW_Last \<Rightarrow> Some (s\<lparr>read_sem := read_sem s + 1, pw_at := PW_UnlinkSem\<rparr>)
    | PW_UnlinkSem \<Rightarrow> Some (s\<lparr>wsem_named := False, pw_at := PW_UnlinkShm\<rparr>)
    | PW_UnlinkShm \<Rightarrow> Some (s\<lparr>shm_named := False, pw_at := PW_Exit\<rparr>)
    | _ \<Rightarrow> None)"

definition pr_next :: "pshm \<Rightarrow> pshm option" where
  "pr_next s = (case pr_at s of
      PR_Sem \<Rightarrow> Some (s\<lparr>read_sem := (if rsem_named s then read_sem s else 0), rsem_named := True, pr_at := PR_Find\<rparr>)
    | PR_Find \<Rightarrow> if wsem_named s then Some (s\<lparr>pr_out := pr_out s @ [NL], pr_at := PR_Shm\<rparr>) else Some (s\<lparr>pr_out := pr_out s @ ''.''\<rparr>)
    | PR_Shm \<Rightarrow> Some (s\<lparr>pr_at := (if shm_named s then PR_Wait else PR_Failed)\<rparr>)
    | PR_Wait \<Rightarrow> if 0 < read_sem s then Some (s\<lparr>read_sem := read_sem s - 1, pr_at := PR_Stat\<rparr>) else None
    | PR_Stat \<Rightarrow> Some (s\<lparr>pr_at := (if shm_len s = 0 then PR_Unlink else PR_Print)\<rparr>)
    | PR_Print \<Rightarrow> Some (s\<lparr>pr_out := pr_out s @ shm_mem s, pr_at := PR_Post\<rparr>)
    | PR_Post \<Rightarrow> Some (s\<lparr>write_sem := write_sem s + 1, pr_at := PR_Wait\<rparr>)
    | PR_Unlink \<Rightarrow> Some (s\<lparr>rsem_named := False, pr_at := PR_Exit\<rparr>)
    | _ \<Rightarrow> None)"

lemma pw_next_step: "pw_next s = Some t \<Longrightarrow> pshm_any s t"
  using pshm_writer_step.intros[of s] by (auto simp: pw_next_def pshm_any_def pshm_step_def split: pshm_writer.splits list.splits if_splits)

lemma pr_next_step: "pr_next s = Some t \<Longrightarrow> pshm_any s t"
  using pshm_reader_step.intros[of s] pshm_poll.intros[of s]
  by (auto simp: pr_next_def pshm_any_def pshm_step_def split: pshm_reader.splits if_splits)

primrec pshm_follow :: "bool list \<Rightarrow> pshm \<Rightarrow> pshm option" where
  "pshm_follow [] s = Some s"
| "pshm_follow (b # bs) s = Option.bind ((if b then pw_next else pr_next) s) (pshm_follow bs)"

lemma pshm_follow_reach: "pshm_programs ps s \<Longrightarrow> pshm_follow bs s = Some t \<Longrightarrow> pshm_programs ps t"
  unfolding pshm_programs_def
  by (induction bs arbitrary: s)
    (auto simp: bind_eq_Some_conv split: if_splits intro: reach.reach_step pw_next_step pr_next_step)

definition pshm_demo :: "string list \<Rightarrow> pshm" where
  "pshm_demo ps = \<lparr>shm_named = False, wsem_named = False, rsem_named = False, shm_len = 0, shm_mem = [],
     write_sem = 0, read_sem = 0, pw_input = ps, pr_out = [], pw_at = PW_Shm, pr_at = PR_Sem\<rparr>"

lemma pshm_demo_starts: "pshm_programs ps (pshm_demo ps)"
  unfolding pshm_programs_def by (rule reach.reach_init) (simp add: pshm_init_def pshm_demo_def)

lemma pshm_hands_over_witness: "\<exists>s k. pshm_programs [''ab''] s \<and> pr_at s = PR_Exit \<and> pr_out s = replicate k (CHR ''.'') @ NL # ''ab''"
proof -
  let ?order = "[False, False] @ replicate 4 True @ [False, False] @ replicate 4 True @ replicate 4 False @ replicate 4 True @ replicate 3 False"
  have "map_option pr_at (pshm_follow ?order (pshm_demo [''ab''])) = Some PR_Exit" by code_simp
  then obtain s where s: "pshm_follow ?order (pshm_demo [''ab'']) = Some s" "pr_at s = PR_Exit" by auto
  note r = pshm_follow_reach[OF pshm_demo_starts s(1)]
  from pshm_hands_over[OF r] s(2) r show ?thesis by (auto simp: c_str_def NUL_def)
qed

text \<open>With nothing to read, the writer can be gone before the reader opens the object.\<close>

lemma pshm_empty_input_fails: "\<exists>s. pshm_programs [] s \<and> pr_at s = PR_Failed"
proof -
  let ?order = "[True, True, True, False, False] @ replicate 7 True @ [False]"
  have "map_option pr_at (pshm_follow ?order (pshm_demo [])) = Some PR_Failed" by code_simp
  then obtain s where s: "pshm_follow ?order (pshm_demo []) = Some s" "pr_at s = PR_Failed" by auto
  from pshm_follow_reach[OF pshm_demo_starts s(1)] s(2) show ?thesis by blast
qed

end
