(* ===== verification/Popen.thy ===== *)
theory Popen
  imports Conform
begin

text \<open>
  \<open>44_Pipes_And_FIFOs/popen_close_imp.c\<close>: \<open>popen\<close> and \<open>pclose\<close>. A stream is known by its descriptor. The static
  variables are a record; \<open>fd_to_stream\<close> has the length that it was allocated with. \<open>execlp\<close> that succeeds never
  replies.
\<close>

section \<open>The program\<close>

record popen_state =
  popen_first :: bool                      \<comment> \<open>the variable \<open>init\<close>\<close>
  saved_fd_max :: int
  fd_to_stream :: "(int \<times> (int \<Rightarrow> int option)) option"

definition popen_start :: popen_state where
  "popen_start = \<lparr>popen_first = True, saved_fd_max = 0, fd_to_stream = None\<rparr>"

definition popen_free :: "unit prog" where
  \<comment> \<open>\<open>free_structure\<close>, the handler of \<open>atexit\<close>\<close>
  "popen_free = event (Lib ''free'' []) (ret ())"

definition popen_table :: "popen_state \<Rightarrow> int \<Rightarrow> (popen_state \<Rightarrow> (int option \<times> popen_state) prog) \<Rightarrow> (int option \<times> popen_state) prog" where
  \<comment> \<open>the array of streams for a limit of \<open>n\<close> descriptors; the result of \<open>malloc\<close> is not looked at\<close>
  "popen_table st n k =
     (if popen_first st then call (Proc (Atexit ''free_structure'')) (\<lambda>a. if rv a \<noteq> 0 then ret (None, st)
        else lib ''malloc'' [n * 8] (\<lambda>m. k \<lparr>popen_first = False, saved_fd_max = n,
          fd_to_stream = (if is_null_reply m then None else Some (n, \<lambda>_. None))\<rparr>))
      else if saved_fd_max st < n then lib ''realloc'' [n * 8] (\<lambda>m. if is_null_reply m then ret (None, st)
        else k (st\<lparr>fd_to_stream := Some (n, case fd_to_stream st of None \<Rightarrow> (\<lambda>_. None) | Some t \<Rightarrow> snd t)\<rparr>))
      else k st)"

definition popen_child :: "int option \<Rightarrow> int \<Rightarrow> int \<Rightarrow> string \<Rightarrow> 'a prog" where
  "popen_child out_fd shell_fd std_fd command = (case out_fd of None \<Rightarrow> stop (Fault Null_deref)
     | Some f \<Rightarrow> lib ''fclose'' [f] (\<lambda>_.
         let shell = call (Proc (Execve ''sh'' [''sh'', ''-c'', command])) (\<lambda>_. uexit_prog 127) in
         if std_fd \<noteq> shell_fd then call (Fd (Dup2 shell_fd std_fd)) (\<lambda>d. if rv d = -1 then uexit_prog 127
           else call (Fd (Close shell_fd)) (\<lambda>c. if rv c = -1 then uexit_prog 127 else shell))
         else shell))"

definition popen_store :: "popen_state \<Rightarrow> int option \<Rightarrow> (int option \<times> popen_state) prog" where
  \<comment> \<open>\<open>fd_to_stream[fileno(out)] = out\<close>\<close>
  "popen_store st out_fd = (case out_fd of None \<Rightarrow> stop (Fault Null_deref)
     | Some f \<Rightarrow> (case fd_to_stream st of None \<Rightarrow> stop (Fault Null_deref)
         | Some (n, t) \<Rightarrow> if f < 0 \<or> n \<le> f then stop (Fault Out_of_bounds)
             else ret (Some f, st\<lparr>fd_to_stream := Some (n, t(f \<mapsto> f))\<rparr>)))"

definition popen_fork :: "popen_state \<Rightarrow> int option \<Rightarrow> int \<Rightarrow> int \<Rightarrow> string \<Rightarrow> (int option \<times> popen_state) prog" where
  "popen_fork st out_fd shell_fd std_fd command = call (Proc Fork) (\<lambda>p.
     if rv p = -1 then ret (None, st)
     else if rv p = 0 then popen_child out_fd shell_fd std_fd command
     else call (Fd (Close shell_fd)) (\<lambda>c. if rv c = -1 then ret (None, st) else popen_store st out_fd))"

definition fdopen :: "int \<Rightarrow> (int option \<Rightarrow> 'a prog) \<Rightarrow> 'a prog" where
  "fdopen fd k = lib ''fdopen'' [fd] (\<lambda>s. k (if is_null_reply s then None else Some fd))"

definition popen_pipe :: "popen_state \<Rightarrow> string \<Rightarrow> string \<Rightarrow> (int option \<times> popen_state) prog" where
  "popen_pipe st command type = call (Ipc Pipe) (\<lambda>p. case p of
           RInts [r, w] \<Rightarrow>
             if strcmp type ''r'' = 0 then fdopen r (\<lambda>s. popen_fork st s w 1 command)
             else if strcmp type ''w'' = 0 then fdopen w (\<lambda>s. popen_fork st s r 0 command)
             else call (Fd (Close r)) (\<lambda>_. call (Fd (Close w)) (\<lambda>_. ret (None, st)))
         | _ \<Rightarrow> ret (None, st))"

definition popen_imp :: "popen_state \<Rightarrow> string \<Rightarrow> string \<Rightarrow> (int option \<times> popen_state) prog" where
  "popen_imp st command type = lib ''getrlimit'' [7] (\<lambda>l. if rv l = -1 then ret (None, st)
     else popen_table st (case l of RInts (n # ns) \<Rightarrow> n | _ \<Rightarrow> 0) (\<lambda>st'. popen_pipe st' command type))"

definition pclose_imp :: "popen_state \<Rightarrow> int \<Rightarrow> int prog" where
  \<comment> \<open>\<open>fd\<close> is the descriptor of the stream, -1 if it has none; it is what \<open>waitpid\<close> is asked to wait for\<close>
  "pclose_imp st fd = (if fd = -1 then ret (-1)
     else call (Proc (Waitpid fd [])) (\<lambda>w. if rv w = -1 then ret (-1)
       else case fd_to_stream st of None \<Rightarrow> stop (Fault Null_deref)
         | Some (n, t) \<Rightarrow> if fd < 0 \<or> n \<le> fd then stop (Fault Out_of_bounds)
             else (case t fd of None \<Rightarrow> stop (Fault Uninitialised)
               | Some s \<Rightarrow> lib ''fclose'' [s] (\<lambda>c. if rv c = -1 then ret (-1)
                   else ret (case w of RInts (status # ns) \<Rightarrow> status | _ \<Rightarrow> 0)))))"

section \<open>The descriptors\<close>

datatype pipe_end = Pipe_read | Pipe_write | Other_file nat

record popen_env =
  fds :: "int \<Rightarrow> pipe_end option"
  at_exec :: "(int \<Rightarrow> pipe_end option) option"    \<comment> \<open>what was open when the shell was to be executed\<close>

definition popen_kernel :: "int \<Rightarrow> popen_env \<Rightarrow> syscall \<Rightarrow> reply \<Rightarrow> popen_env option" where
  \<comment> \<open>\<open>L\<close> is the limit on the number of descriptors\<close>
  "popen_kernel L e c r = (case c of
      Ipc Pipe \<Rightarrow> (case r of
          RInts [a, b] \<Rightarrow> if a \<noteq> b \<and> 0 \<le> a \<and> 0 \<le> b \<and> a < L \<and> b < L \<and> fds e a = None \<and> fds e b = None
            then Some (e\<lparr>fds := (fds e)(a \<mapsto> Pipe_read, b \<mapsto> Pipe_write)\<rparr>) else None
        | RErr n \<Rightarrow> Some e | _ \<Rightarrow> None)
    | Fd (Dup2 s d) \<Rightarrow> if rv r = -1 then Some e else Some (e\<lparr>fds := (fds e)(d := fds e s)\<rparr>)
    | Fd (Close f) \<Rightarrow> Some (e\<lparr>fds := (fds e)(f := None)\<rparr>)
    | Lib f as \<Rightarrow> if f = ''fclose'' then Some (e\<lparr>fds := (fds e)(hd as := None)\<rparr>)
        else if f = ''getrlimit'' then (if rv r = -1 \<or> r = RInts [L, L] then Some e else None)
        else if f \<in> {''malloc'', ''fdopen''} \<and> is_null_reply r then None else Some e
    | Proc (Execve p as) \<Rightarrow> Some (e\<lparr>at_exec := Some (fds e)\<rparr>)
    | _ \<Rightarrow> Some e)"

lemma popen_kernel_simps:
  "popen_kernel L e (Fd (Close f)) r = Some (e\<lparr>fds := (fds e)(f := None)\<rparr>)"
  "popen_kernel L e (Fd (Dup2 s d)) r = (if rv r = -1 then Some e else Some (e\<lparr>fds := (fds e)(d := fds e s)\<rparr>))"
  "popen_kernel L e (Lib g as) r = (if g = ''fclose'' then Some (e\<lparr>fds := (fds e)(hd as := None)\<rparr>)
        else if g = ''getrlimit'' then (if rv r = -1 \<or> r = RInts [L, L] then Some e else None)
        else if g \<in> {''malloc'', ''fdopen''} \<and> is_null_reply r then None else Some e)"
  "popen_kernel L e (Proc (Execve p xs)) r = Some (e\<lparr>at_exec := Some (fds e)\<rparr>)"
  "popen_kernel L e (Proc Fork) r = Some e" "popen_kernel L e (Proc (Atexit h)) r = Some e"
  by (simp_all add: popen_kernel_def)

definition table_ok :: "int \<Rightarrow> popen_state \<Rightarrow> bool" where
  "table_ok L st \<longleftrightarrow> popen_first st \<or> (case fd_to_stream st of None \<Rightarrow> False | Some (n, t) \<Rightarrow> L \<le> n \<and> saved_fd_max st \<le> n)"

definition popen_ends :: "string \<Rightarrow> (pipe_end \<times> pipe_end \<times> int)" where
  \<comment> \<open>the end of the caller, that of the shell, and where the shell has it\<close>
  "popen_ends type = (if type = ''r'' then (Pipe_read, Pipe_write, 1) else (Pipe_write, Pipe_read, 0))"

definition popened :: "int \<Rightarrow> popen_env \<Rightarrow> string \<Rightarrow> (int option \<times> popen_state) result \<Rightarrow> popen_env \<Rightarrow> world \<Rightarrow> bool" where
  "popened L e type r e' w \<longleftrightarrow> (case r of
      Return (Some f, st) \<Rightarrow> type \<in> {''r'', ''w''} \<and> fds e f = None \<and> fds e' = (fds e)(f \<mapsto> fst (popen_ends type))
        \<and> table_ok L st \<and> (\<exists>n t. fd_to_stream st = Some (n, t) \<and> f < n \<and> t f = Some f) \<and> at_exec e' = at_exec e
    | Return (None, st) \<Rightarrow> table_ok L st \<and> at_exec e' = at_exec e \<and> (type \<notin> {''r'', ''w''} \<longrightarrow> fds e' = fds e)
    | UExited n \<Rightarrow> n = 127 \<and> (at_exec e' = at_exec e \<or>
        at_exec e' = Some ((fds e)(snd (snd (popen_ends type)) \<mapsto> fst (snd (popen_ends type)))))
    | Blocked \<Rightarrow> True | _ \<Rightarrow> False)"


lemma popened_simps [simp]: "popened L e type Blocked e' w"
  "popened L e type (UExited n) e' w = (n = 127 \<and> (at_exec e' = at_exec e \<or>
        at_exec e' = Some ((fds e)(snd (snd (popen_ends type)) \<mapsto> fst (snd (popen_ends type))))))"
  by (simp_all add: popened_def)

definition piped :: "popen_env \<Rightarrow> string \<Rightarrow> int \<Rightarrow> int \<Rightarrow> popen_env \<Rightarrow> bool" where
  \<comment> \<open>the pipe is open, the caller's end and the shell's\<close>
  "piped e type f sh e1 \<longleftrightarrow> type \<in> {''r'', ''w''} \<and> f \<noteq> sh \<and> 0 \<le> f \<and> fds e f = None \<and> fds e sh = None \<and> at_exec e1 = at_exec e
     \<and> fds e1 = (fds e)(f \<mapsto> fst (popen_ends type), sh \<mapsto> fst (snd (popen_ends type)))"

lemma appends_popen [append_intros]: "appends (popen_child out_fd sh std command)" "appends (popen_fork st out_fd sh std command)"
proof -
  show c: "appends (popen_child out_fd sh std command)"
    unfolding popen_child_def Let_def by (intro append_intros)
  show "appends (popen_fork st out_fd sh std command)"
    unfolding popen_fork_def popen_store_def by (intro append_intros c)
qed

lemma popen_child_execs:
  assumes "piped e type f sh e1" "std = snd (snd (popen_ends type))"
  shows "under (popen_kernel L) e1 (popen_child (Some f) sh std command) (\<lambda>r e' w. popened L e type r e' w) w"
proof -
  have std: "((fds e)(f \<mapsto> x, sh \<mapsto> y))(f := None, std := Some y, sh := None) = (fds e)(std \<mapsto> y)" if "std \<noteq> sh" for x y
    using assms(1) that by (auto simp: piped_def fun_eq_iff)
  have same: "((fds e)(f \<mapsto> x, sh \<mapsto> y))(f := None) = (fds e)(sh \<mapsto> y)" for x y
    using assms(1) by (auto simp: piped_def fun_eq_iff)
  show ?thesis
    using assms std same
    by (auto simp: popen_child_def lib_def Let_def popen_kernel_simps piped_def
        intro!: under_call under_uexit append_intros)
qed

lemma popen_store_ok:
  assumes "table_ok L st" "\<not> popen_first st" "0 \<le> f" "f < L"
  shows "\<exists>n t. popen_store st (Some f) = ret (Some f, st\<lparr>fd_to_stream := Some (n, t)\<rparr>) \<and> f < n \<and> t f = Some f
    \<and> table_ok L (st\<lparr>fd_to_stream := Some (n, t)\<rparr>)"
proof -
  obtain n t where "fd_to_stream st = Some (n, t)" "L \<le> n" "saved_fd_max st \<le> n"
    using assms(1,2) by (auto simp: table_ok_def split: option.splits)
  then show ?thesis using assms(2-4) by (intro exI[of _ n] exI[of _ "t(f \<mapsto> f)"]) (simp add: popen_store_def table_ok_def)
qed

lemma popen_fork_opens:
  assumes "piped e type f sh e1" "std = snd (snd (popen_ends type))" "table_ok L st" "\<not> popen_first st" "f < L"
  shows "under (popen_kernel L) e1 (popen_fork st (Some f) sh std command) (\<lambda>r e' w. popened L e type r e' w) w"
proof -
  obtain n t where s: "popen_store st (Some f) = ret (Some f, st\<lparr>fd_to_stream := Some (n, t)\<rparr>)" "f < n" "t f = Some f"
    "table_ok L (st\<lparr>fd_to_stream := Some (n, t)\<rparr>)"
    using popen_store_ok[OF assms(3,4) _ assms(5)] assms(1) by (auto simp: piped_def)
  have closed: "((fds e)(f \<mapsto> x, sh \<mapsto> y))(sh := None) = (fds e)(f \<mapsto> x)" for x y
    using assms(1) by (auto simp: piped_def fun_eq_iff)
  have failed: "popened L e type (Return (None, st)) e' w" if "at_exec e' = at_exec e" for e' and w :: world
    using assms(1,3) that by (auto simp: popened_def piped_def)
  have got: "popened L e type (Return (Some f, st\<lparr>fd_to_stream := Some (n, t)\<rparr>)) (e1\<lparr>fds := (fds e1)(sh := None)\<rparr>) w" for w :: world
    using assms(1) s(2-4) closed by (auto simp: popened_def piped_def)
  show ?thesis
    unfolding popen_fork_def
    using assms(1)[unfolded piped_def, THEN conjunct2, THEN conjunct2, THEN conjunct2, THEN conjunct2, THEN conjunct2, THEN conjunct1]
    by (auto simp: popen_kernel_simps s(1) intro!: under_call under_ret append_intros failed got popen_child_execs[OF assms(1,2)])
qed

lemma popen_table_ok:
  assumes "table_ok L st" "\<And>st' w. table_ok L st' \<Longrightarrow> \<not> popen_first st' \<Longrightarrow> under (popen_kernel L) e (k st') (\<lambda>r e' w. popened L e type r e' w) w"
    "\<And>st. appends (k st)"
  shows "under (popen_kernel L) e (popen_table st L k) (\<lambda>r e' w. popened L e type r e' w) w"
proof -
  have failed: "popened L e type (Return (None, st)) e w" for w :: world using assms(1) by (simp add: popened_def)
  show ?thesis
    unfolding popen_table_def lib_def
    using assms(1)
    by (auto simp: popen_kernel_simps table_ok_def intro!: under_call under_ret append_intros failed assms(2,3) split: option.splits)
qed

lemma popen_pipe_opens:
  assumes "table_ok L st" "\<not> popen_first st"
  shows "under (popen_kernel L) e (popen_pipe st command type) (\<lambda>r e' w. popened L e type r e' w) w"
  unfolding popen_pipe_def
proof (rule under_call, goal_cases)
  case (1 r)
  show ?case unfolding fdopen_def by (auto intro!: append_intros split: reply.splits list.splits)
next
  case (3 p rs e1)
  have failed: "popened L e type (Return (None, st)) e w" for w :: world using assms(1) by (simp add: popened_def)
  show ?case
  proof (cases "\<exists>n. p = RErr n")
    case True
    with 3(2) have "e1 = e" by (auto simp: popen_kernel_def)
    with True failed show ?thesis by (auto intro!: under_ret)
  next
    case False
    with 3(2) obtain a b where p: "p = RInts [a, b]" "a \<noteq> b" "0 \<le> a" "0 \<le> b" "a < L" "b < L" "fds e a = None" "fds e b = None"
        "e1 = e\<lparr>fds := (fds e)(a \<mapsto> Pipe_read, b \<mapsto> Pipe_write)\<rparr>"
      by (auto simp: popen_kernel_def split: reply.splits list.splits if_splits)
    have r: "piped e ''r'' a b e1" using p by (simp add: piped_def popen_ends_def)
    have w: "piped e ''w'' b a e1" using p by (auto simp: piped_def popen_ends_def fun_eq_iff)
    have closed: "e\<lparr>fds := (fds e)(a := None, b := None)\<rparr> = e" using p by (cases e) (auto simp: fun_eq_iff)
    consider (rd) "type = ''r''" | (wr) "type = ''w''" | (other) "type \<noteq> ''r''" "type \<noteq> ''w''" by blast
    then show ?thesis
    proof cases
      case rd
      then show ?thesis
        unfolding p(1) fdopen_def lib_def
        by (auto simp: popen_kernel_simps intro!: under_call append_intros popen_fork_opens[OF r _ assms p(5)] split: if_splits)
          (simp add: popen_ends_def)
    next
      case wr
      then show ?thesis
        unfolding p(1) fdopen_def lib_def
        by (auto simp: popen_kernel_simps intro!: under_call append_intros popen_fork_opens[OF w _ assms p(6)] split: if_splits)
          (simp add: popen_ends_def)
    next
      case other
      then show ?thesis
        unfolding p(1) by (auto simp: popen_kernel_simps p(9) closed intro!: under_call under_ret append_intros failed)
    qed
  qed
qed auto

text \<open>C25: \<open>popen_imp\<close> against the table of descriptors. A stream that is returned is one end of a new pipe, of the right
  direction, the only descriptor that was added, and it is entered in the table of streams; a type that is neither \<open>r\<close>
  nor \<open>w\<close> leaves the descriptors as they were. The shell is executed with the other end as its standard output or input and
  no descriptor of the pipe besides. (Another error may leave the pipe open.)
\<close>

theorem popen_imp_pipes:
  assumes "table_ok L st" "popen_imp st command type w = (r, w')" "trace w' = trace w @ t" "run (popen_kernel L) e t = Some e'"
  shows "case r of
      Return (Some f, st') \<Rightarrow> type \<in> {''r'', ''w''} \<and> fds e f = None \<and> fds e' = (fds e)(f \<mapsto> fst (popen_ends type))
        \<and> table_ok L st' \<and> (\<exists>n t. fd_to_stream st' = Some (n, t) \<and> f < n \<and> t f = Some f) \<and> at_exec e' = at_exec e
    | Return (None, st') \<Rightarrow> table_ok L st' \<and> at_exec e' = at_exec e \<and> (if type \<in> {''r'', ''w''} then True else fds e' = fds e)
    | UExited n \<Rightarrow> n = 127 \<and> (at_exec e' = at_exec e \<or>
        at_exec e' = Some ((fds e)(snd (snd (popen_ends type)) \<mapsto> fst (snd (popen_ends type)))))
    | Blocked \<Rightarrow> True | _ \<Rightarrow> False"
proof -
  have failed: "popened L e type (Return (None, st)) e w" for w :: world using assms(1) by (simp add: popened_def)
  have p: "appends (popen_pipe st command type)" for st
    unfolding popen_pipe_def fdopen_def by (intro append_intros)
  have t: "appends (popen_table st n k)" if "\<And>st. appends (k st)" for n k
    unfolding popen_table_def by (intro append_intros that)
  have "under (popen_kernel L) e (popen_imp st command type) (\<lambda>r e' w. popened L e type r e' w) w"
    unfolding popen_imp_def lib_def
  proof (rule under_call, goal_cases)
    case (3 r rs e1)
    then have "e1 = e" "rv r \<noteq> -1 \<Longrightarrow> r = RInts [L, L]" by (auto simp: popen_kernel_simps split: if_splits)
    then show ?case by (auto intro!: under_ret failed popen_table_ok[OF assms(1)] popen_pipe_opens p)
  qed (auto intro!: append_intros p t)
  from underD[OF this assms(2)] assms(3,4) have "popened L e type r e' w'" by (metis same_append_eq)
  then show ?thesis by (auto simp: popened_def split: result.splits option.splits)
qed

definition demo_popen :: "(int option \<times> popen_state) result \<times> world" where
  "demo_popen = popen_imp popen_start ''ls'' ''r'' (booted [RInts [9, 9], RVal 0, RVal 1, RInts [3, 4], RVal 1, RVal 77, RVal 0])"

lemma demo_popen_runs:
  "(case fst demo_popen of Return (f, st) \<Rightarrow> f | _ \<Rightarrow> None) = Some 3"
  "map_option (\<lambda>e. map (fds e) [1, 3, 4]) (run (popen_kernel 9) \<lparr>fds = [1 \<mapsto> Other_file 1], at_exec = None\<rparr> (trace (snd demo_popen)))
    = Some [Some (Other_file 1), Some Pipe_read, None]"
  by code_simp+

lemma popen_imp_pipes_witness:
  "\<exists>st n t. fst demo_popen = Return (Some 3, st) \<and> fd_to_stream st = Some (n, t) \<and> t 3 = Some 3"
proof -
  let ?w = "booted [RInts [9, 9], RVal 0, RVal 1, RInts [3, 4], RVal 1, RVal 77, RVal 0]"
  obtain st where d: "fst demo_popen = Return (Some 3, st)"
    using demo_popen_runs(1) by (cases "fst demo_popen") auto
  then have r: "popen_imp popen_start ''ls'' ''r'' ?w = (Return (Some 3, st), snd demo_popen)"
    by (simp add: demo_popen_def prod_eq_iff)
  obtain e' where e': "run (popen_kernel 9) \<lparr>fds = [1 \<mapsto> Other_file 1], at_exec = None\<rparr> (trace (snd demo_popen)) = Some e'"
    using demo_popen_runs(2) by auto
  have t: "u = trace (booted rs) @ u" for u rs by simp
  have "table_ok 9 popen_start" by (simp add: table_ok_def popen_start_def)
  from popen_imp_pipes[OF this r t e'] d show ?thesis by auto
qed

text \<open>\<open>pclose_imp\<close> waits for the process whose number is the descriptor: unless that is a child, it gives up at once.\<close>

lemma pclose_imp_waits_for_descriptor:
  "wp (pclose_imp st fd) (\<lambda>r w'. r = Return (-1) \<or> r = Blocked \<or> (\<exists>s t. (Proc (Waitpid fd []), s) \<in> set (trace w') \<and> rv s \<noteq> -1)) w"
  unfolding pclose_imp_def lib_def by (auto simp: exec_simps split: option.splits prod.splits)

lemma ends_popen: "shrinks (popen_imp st command type)" "shrinks (pclose_imp st fd)"
proof -
  have c: "shrinks (popen_child f sh std command)" for f sh std
    unfolding popen_child_def Let_def lib_def by (intro fuel_intros; simp)
  have f: "shrinks (popen_fork st f sh std command)" for st f sh std
    unfolding popen_fork_def popen_store_def case_prod_beta by (intro fuel_intros c; simp)
  have p: "shrinks (popen_pipe st command type)" for st
    unfolding popen_pipe_def fdopen_def lib_def by (intro fuel_intros f)
  show "shrinks (popen_imp st command type)"
    unfolding popen_imp_def popen_table_def lib_def by (intro fuel_intros p; simp)
  show "shrinks (pclose_imp st fd)"
    unfolding pclose_imp_def lib_def case_prod_beta by (intro fuel_intros; simp)
qed

end
