(* ===== verification/Shell.thy ===== *)
theory Shell
  imports Conform Sockets
begin

text \<open>
  A remote shell: \<open>61_Sockets_Advanced_Topics/is_shell_sv.c\<close> executes the command that a connection sends and gives
  it the connection as output, \<open>is_shell_cl.c\<close> sends its arguments and prints the answer. \<open>system\<close> is the call that
  executes the shell. The client has an \<open>errExit\<close> of its own, which returns.
\<close>

section \<open>The server\<close>

definition SHELL_PORT :: string where "SHELL_PORT = ''50000''"
definition MAX_CMD :: nat where "MAX_CMD = 500"

definition push_byte :: "('s + 'a) prog \<Rightarrow> char \<Rightarrow> char vec \<Rightarrow> cstate \<Rightarrow> (char vec \<times> cstate \<Rightarrow> ('s + 'a) prog) \<Rightarrow> ('s + 'a) prog" where
  \<comment> \<open>\<open>da_push\<close>, with what is done when it returns a null pointer\<close>
  "push_byte failed b v st k = (case vec_push b v st of Inl f \<Rightarrow> failed | Inr s \<Rightarrow> k s)"

definition request_round :: "int \<Rightarrow> char vec \<times> cstate \<Rightarrow> (char vec \<times> cstate + char vec \<times> cstate) prog" where
  "request_round cfd s = (case s of (da, st) \<Rightarrow> call (Fd (Read cfd 1)) (\<lambda>r.
     if rv r = -1 then errExit ''child: read''
     else (case bytes_read 1 r of [] \<Rightarrow> leave (da, st)
       | c # cs \<Rightarrow> push_byte (fatal ''da_push'') c da st again)))"

definition system_on :: "int \<Rightarrow> string \<Rightarrow> unit prog" where
  \<comment> \<open>the connection becomes the output of the command\<close>
  "system_on cfd command =
     or_die (Fd (Dup2 cfd 1)) ''dup2'' (\<lambda>_.
     or_die (Fd (Dup2 cfd 2)) ''dup2'' (\<lambda>_.
     or_die (Fd (Close cfd)) ''close'' (\<lambda>_.
     or_die (Proc (Execve ''/bin/sh'' [''sh'', ''-c'', command])) ''system'' (\<lambda>_. event (Lib ''da_free'' []) (ret ())))))"

definition handle_request :: "int \<Rightarrow> cstate \<Rightarrow> unit prog" where
  "handle_request cfd st = seq (loop (request_round cfd) (vec_init, st)) (\<lambda>(da, st').
     checked (vec_push NUL da st') (\<lambda>(da', st''). system_on cfd (c_str (elems da'))))"

definition shell_accept_round :: "int \<Rightarrow> cstate \<Rightarrow> unit \<Rightarrow> (unit + unit) prog" where
  \<comment> \<open>\<open>sigint_caught\<close> is read like a reply; the child is the run in which \<open>fork\<close> replies 0\<close>
  "shell_accept_round sfd st u = call (Sock (Accept sfd)) (\<lambda>c.
     if rv c = -1 then get errno (\<lambda>e.
       if e = EINTR then lib ''sigint_caught'' [] (\<lambda>caught.
         if rv caught \<noteq> 0 then printf ([NL] @ ''SIGINT caught. exiting'' @ [NL]) (leave ()) else again ())
       else fprintf_stderr (''Error accepting client; dropping request'' @ [NL]) (again ()))
     else call (Proc Fork) (\<lambda>p.
       if rv p = -1 then errExit ''fork''
       else if rv p = 0 then call (Fd (Close sfd)) (\<lambda>_. seq (handle_request (rv c) st) (\<lambda>_. uexit_prog EXIT_SUCCESS))
       else call (Fd (Close (rv c))) (\<lambda>_. again ())))"

definition bound_line :: "nat \<Rightarrow> string" where
  "bound_line addrlen = (if addrlen = 16 then ''Bound to IPV4 wildcard address'' @ [NL]
     else if addrlen = 28 then ''Bound to IPV6 wildcard address'' @ [NL]
     else ''Unknown addrlen: '' @ show_nat addrlen @ [NL])"

definition is_shell_sv :: "cstate \<Rightarrow> unit prog" where
  "is_shell_sv st =
     or_die (Proc (Sigaction ''SIGINT'' ''sigint_handler'')) ''sigaction'' (\<lambda>_.
     or_die (Proc (Sigaction ''SIGCHLD'' ''sigchild_handler'')) ''sigaction'' (\<lambda>_.
     seq (inetListen SHELL_PORT 10) (\<lambda>(sfd, addr).
       if sfd = -1 then errExit ''inetListen''
       else case addr of None \<Rightarrow> stop (Fault Uninitialised)
         | Some a \<Rightarrow> printf (bound_line (length a))
             (seq (loop (shell_accept_round sfd st) ()) (\<lambda>_. exit_prog EXIT_SUCCESS)))))"

definition reap_round :: "unit \<Rightarrow> (unit + unit) prog" where
  "reap_round u = call (Proc (Waitpid (-1) ''WNOHANG'')) (\<lambda>r. if 0 < rv r then again () else leave ())"

definition sigchild_handler :: "unit prog" where
  "sigchild_handler = get errno (\<lambda>saved_errno. seq (loop reap_round ()) (\<lambda>_. set_errno saved_errno (ret ())))"

section \<open>The client\<close>

definition shell_errExit :: "string \<Rightarrow> 'a prog \<Rightarrow> 'a prog" where
  "shell_errExit msg k = fflush_stdout (fprintf_stderr ([CHR 0x1B] @ ''[1;31mERROR'' @ [CHR 0x1B] @ ''[m: '')
     (fprintf_stderr msg (get (\<lambda>w. err_text w (errno w)) (\<lambda>t. fprintf_stderr ('' ['' @ t @ '']'' @ [NL]) k))))"

definition shell_connect :: "(int \<Rightarrow> string) \<Rightarrow> string \<Rightarrow> int prog" where
  "shell_connect gai_strerror host = call (Sock (Getaddrinfo (Some host) SHELL_PORT SOCK_STREAM)) (\<lambda>s. case s of
       RAddrs res \<Rightarrow> seq (connect_each res) (\<lambda>sfd. freeaddrinfo (ret sfd))
     | _ \<Rightarrow> fprintf_stderr (''getaddrinfo: '' @ gai_strerror (rv s) @ [NL]) (exit_prog EXIT_FAILURE))"

definition shell_command :: "string list \<Rightarrow> string" where
  "shell_command argv = concat (map (\<lambda>a. a @ '' '') (drop 2 argv))"

definition cmd_len :: "string list \<Rightarrow> nat" where
  "cmd_len argv = fold (\<lambda>a n. n + (length a + 1)) (drop 2 argv) 1"

definition cmd_buf :: "string list \<Rightarrow> string" where
  "cmd_buf argv = shell_command argv @ replicate (MAX_CMD + 1 - length (shell_command argv)) NUL"

definition answer_round :: "int \<Rightarrow> char vec \<times> char option \<times> cstate \<Rightarrow> (char vec \<times> char option \<times> cstate + char vec \<times> cstate) prog" where
  \<comment> \<open>after an error the program goes on with the \<open>c\<close> that it has\<close>
  "answer_round sfd s = (case s of (da, c, st) \<Rightarrow>
     let no_memory = fprintf_stderr ''da_push'' (exit_prog EXIT_FAILURE);
       push = (\<lambda>c. push_byte no_memory (case c of None \<Rightarrow> NUL | Some x \<Rightarrow> x) da st (\<lambda>(da', st').
         if c = None then stop (Fault Uninitialised) else again (da', c, st')))
     in call (Fd (Read sfd 1)) (\<lambda>r.
       if rv r = -1 then shell_errExit ''client: read'' (push c)
       else (case bytes_read 1 r of [] \<Rightarrow> leave (da, st) | b # bs \<Rightarrow> push (Some b))))"

definition show_answer :: "int \<Rightarrow> cstate \<Rightarrow> unit prog" where
  "show_answer sfd st = seq (loop (answer_round sfd) (vec_init, None, st)) (\<lambda>(da, st').
     checked (vec_push NUL da st') (\<lambda>(da', st''). printf (c_str (elems da'))
       (call (Fd (Close sfd)) (\<lambda>_. event (Lib ''da_free'' []) (exit_prog EXIT_SUCCESS)))))"

definition is_shell_cl :: "(int \<Rightarrow> string) \<Rightarrow> string list \<Rightarrow> cstate \<Rightarrow> unit prog" where
  "is_shell_cl gai_strerror argv st =
     (if length argv < 3 \<or> argv ! 1 = ''--help''
      then fprintf_stderr (''Usage: '' @ hd argv @ '' server-host prog [arg ...]'' @ [NL]) (exit_prog EXIT_FAILURE)
      else if MAX_CMD < cmd_len argv
      then fprintf_stderr (''Cmdline error: max cmd len = '' @ show_nat MAX_CMD @ [NL]) (exit_prog EXIT_FAILURE)
      else seq (shell_connect gai_strerror (argv ! 1)) (\<lambda>sfd.
        if sfd = -1 then fprintf_stderr (''inetConnect: Could not find server'' @ [NL]) (exit_prog EXIT_FAILURE)
        else call (Fd (Write sfd (take (cmd_len argv) (cmd_buf argv)))) (\<lambda>n.
          if rv n \<noteq> int (cmd_len argv) then fprintf_stderr ''Client: Failed/Partial write'' (exit_prog EXIT_FAILURE)
          else call (Sock (Shutdown sfd ''SHUT_WR'')) (\<lambda>d.
            (if rv d = -1 then shell_errExit ''shutdown'' else (\<lambda>k. k)) (show_answer sfd st)))))"

section \<open>What the two do together\<close>

record shell_net =
  unread :: string                            \<comment> \<open>what the connection will still deliver\<close>
  sent :: "string list"
  on_conn :: "int \<Rightarrow> bool"                     \<comment> \<open>the descriptors that refer to the connection\<close>
  ran :: "(string \<times> bool) list"              \<comment> \<open>the commands, and whether their output is the connection\<close>

definition shell_kernel :: "int set \<Rightarrow> shell_net \<Rightarrow> syscall \<Rightarrow> reply \<Rightarrow> shell_net option" where
  \<comment> \<open>sockets that deliver \<open>unread\<close>, without errors of \<open>read\<close>\<close>
  "shell_kernel S e c r = (case c of
      Fd (Read f n) \<Rightarrow> if f \<in> S \<and> r = RData (take n (unread e)) then Some (e\<lparr>unread := drop n (unread e)\<rparr>) else None
    | Fd (Write f d) \<Rightarrow> Some (e\<lparr>sent := sent e @ [d]\<rparr>)
    | Fd (Dup2 a b) \<Rightarrow> Some (if rv r = -1 then e else e\<lparr>on_conn := (on_conn e)(b := on_conn e a)\<rparr>)
    | Fd (Close f) \<Rightarrow> Some (e\<lparr>on_conn := (on_conn e)(f := False)\<rparr>)
    | Proc (Execve p as) \<Rightarrow> Some (e\<lparr>ran := ran e @ [(last as, on_conn e 1 \<and> on_conn e 2)]\<rparr>)
    | _ \<Rightarrow> Some e)"

lemma shell_kernel_simps:
  "shell_kernel S e (Fd (Read f n)) r = (if f \<in> S \<and> r = RData (take n (unread e)) then Some (e\<lparr>unread := drop n (unread e)\<rparr>) else None)"
  "shell_kernel S e (Fd (Write f d)) r = Some (e\<lparr>sent := sent e @ [d]\<rparr>)"
  "shell_kernel S e (Fd (Dup2 a b)) r = Some (if rv r = -1 then e else e\<lparr>on_conn := (on_conn e)(b := on_conn e a)\<rparr>)"
  "shell_kernel S e (Fd (Close f)) r = Some (e\<lparr>on_conn := (on_conn e)(f := False)\<rparr>)"
  "shell_kernel S e (Proc (Execve p as)) r = Some (e\<lparr>ran := ran e @ [(last as, on_conn e 1 \<and> on_conn e 2)]\<rparr>)"
  "shell_kernel S e (Sock x) r = Some e" "shell_kernel S e (Lib g ns) r = Some e"
  by (simp_all add: shell_kernel_def)

lemma appends_shell [append_intros]: "(\<And>s. appends (k s)) \<Longrightarrow> appends failed \<Longrightarrow> appends (push_byte failed b v st k)"
  "appends (request_round cfd s)" "appends (system_on cfd command)" "appends k' \<Longrightarrow> appends (shell_errExit msg k')"
proof -
  show p: "appends (push_byte failed b v st k)" if "\<And>s. appends (k s)" "appends failed"
    for failed :: "('y + 'x) prog" and k b v st
    using that by (auto simp: push_byte_def split: sum.splits)
  show "appends (request_round cfd s)"
    unfolding request_round_def push_byte_def by (auto intro!: append_intros split: prod.splits list.splits sum.splits)
  show "appends (system_on cfd command)" unfolding system_on_def by (intro append_intros)
  show "appends (shell_errExit msg k')" if "appends k'" for k' :: "'z prog" unfolding shell_errExit_def by (intro append_intros that)
qed

lemma ends_shell_rounds [fuel_intros]: "rounds (request_round cfd s)" "rounds (answer_round sfd s')" "rounds (reap_round u)"
  "shrinks (system_on cfd command)" "shrinks k' \<Longrightarrow> shrinks (shell_errExit msg k')"
proof -
  show e: "shrinks (shell_errExit msg k')" if "shrinks k'" for k' :: "'z prog" and msg
    unfolding shell_errExit_def by (intro fuel_intros that)
  show "rounds (request_round cfd s)"
    unfolding request_round_def push_byte_def case_prod_beta by (auto intro!: fuel_intros split: list.splits sum.splits)
  show "rounds (answer_round sfd s')"
    unfolding answer_round_def push_byte_def case_prod_beta Let_def by (auto intro!: fuel_intros e split: list.splits sum.splits)
  show "rounds (reap_round u)" unfolding reap_round_def by (intro fuel_intros)
  show "shrinks (system_on cfd command)" unfolding system_on_def by (intro fuel_intros)
qed

definition requesting :: "int \<Rightarrow> string \<Rightarrow> string \<Rightarrow> cstate \<Rightarrow> shell_net \<Rightarrow> bool" where
  "requesting cfd msg taken st e \<longleftrightarrow> taken @ unread e = msg \<and> no_alloc_failure st \<and> ran e = [] \<and> on_conn e = (\<lambda>f. f = cfd)"

lemma request_is_read:
  assumes "requesting cfd msg [] st e"
  shows "under (shell_kernel {cfd}) e (loop (request_round cfd) (vec_init, st))
    (finishes (\<lambda>(v, st) e' w. requesting cfd msg msg st e' \<and> elems v = msg) (\<lambda>_ _. True)) w"
proof (rule under_repeat[where I = "\<lambda>(v, st) e w. requesting cfd msg (elems v) st e"], goal_cases)
  case (4 s e w)
  obtain v st where s: "s = (v, st)" by (cases s)
  show ?case
    unfolding request_round_def s prod.case
  proof (rule under_call, goal_cases)
    case (1 r)
    show ?case by (auto simp: push_byte_def intro!: append_intros split: list.splits sum.splits)
  next
    case (3 r rs e')
    then have r: "r = RData (take 1 (unread e))" "e' = e\<lparr>unread := drop 1 (unread e)\<rparr>"
      by (auto simp: shell_kernel_simps split: if_splits)
    show ?case
    proof (cases "unread e")
      case Nil
      with 4 s r show ?thesis by (auto simp: rv_def bytes_read_def bytes_def requesting_def intro!: under_leave)
    next
      case (Cons c cs)
      have inv: "requesting cfd msg (elems v) st e" using 4 s by simp
      then have "no_alloc_failure st" by (simp add: requesting_def)
      then obtain v' st' where v': "vec_push c v st = Inr (v', st')" "elems v' = elems v @ [c]" "no_alloc_failure st'"
        using vec_push_ok[of st c v] by auto
      have k: "(if rv r = -1 then errExit ''child: read'' else (case bytes_read 1 r of [] \<Rightarrow> leave (v, st)
          | c # cs \<Rightarrow> push_byte (fatal ''da_push'') c v st again)) = again (v', st')"
        using r Cons v' by (simp add: rv_def bytes_read_def bytes_def push_byte_def)
      have "requesting cfd msg (elems v') st' e'"
        using inv Cons r(2) v' by (simp add: requesting_def)
      then show ?thesis unfolding k by (auto intro: under_again)
    qed
  qed simp
qed (use assms in \<open>auto intro!: append_intros fuel_intros\<close>)

lemma system_on_runs:
  assumes "ran e = []" "on_conn e = (\<lambda>f. f = cfd)" "cfd \<notin> {1, 2}"
  shows "under (shell_kernel {cfd}) e (system_on cfd command) (finishes (\<lambda>_ e' w. ran e' = [(command, True)]) (\<lambda>_ _. True)) w"
  unfolding system_on_def or_die_def
  using assms by (auto simp: shell_kernel_simps intro!: under_call under_errExit under_event under_ret append_intros)

lemma handle_request_runs:
  assumes "requesting cfd msg [] st e" "cfd \<notin> {1, 2}"
  shows "under (shell_kernel {cfd}) e (handle_request cfd st) (finishes (\<lambda>_ e' w. ran e' = [(c_str (msg @ [NUL]), True)]) (\<lambda>_ _. True)) w"
  unfolding handle_request_def
proof (rule under_then[OF request_is_read[OF assms(1)]], goal_cases)
  case (1 s e' w')
  obtain v st' where s: "s = (v, st')" by (cases s)
  have q: "ran e' = []" "on_conn e' = (\<lambda>f. f = cfd)" "no_alloc_failure st'" "elems v = msg"
    using 1 s by (simp_all add: requesting_def)
  obtain v' st'' where "vec_push NUL v st' = Inr (v', st'')" "elems v' = msg @ [NUL]"
    using vec_push_ok[OF q(3), of NUL v] q(4) by auto
  then show ?case
    unfolding s prod.case checked_def using system_on_runs[OF q(1,2) assms(2)] by simp
qed (auto simp: checked_def intro!: append_intros split: prod.splits sum.splits)

definition asking :: "string list \<Rightarrow> string \<Rightarrow> string \<Rightarrow> shell_net \<Rightarrow> world \<Rightarrow> bool" where
  \<comment> \<open>what was sent, what is still to be read, what was printed\<close>
  "asking ms a s e w \<longleftrightarrow> sent e = ms \<and> unread e = a \<and> out w @ obuf w = s"

lemma asking_simps [simp]:
  "asking ms a s e (w\<lparr>script := x\<rparr>) = asking ms a s e w" "asking ms a s e (w\<lparr>trace := t\<rparr>) = asking ms a s e w"
  "asking ms a s e (w\<lparr>errno := n\<rparr>) = asking ms a s e w" "asking ms a s (e\<lparr>on_conn := c\<rparr>) w = asking ms a s e w"
  "asking ms a s e (flushed w) = asking ms a s e w" "asking ms a s e (told msg w) = asking ms a s e w"
  by (simp_all add: asking_def)

lemma connect_each_asks:
  "asking ms a s e w \<Longrightarrow> under (shell_kernel S) e (connect_each as) (finishes (\<lambda>_. asking ms a s) (\<lambda>_ _. False)) w"
proof (induction "as" arbitrary: e w rule: connect_each.induct)
  case (2 fam ty proto addr rp)
  have "appends (connect_each rp)" for rp by (induction rp rule: connect_each.induct) (auto intro!: append_intros)
  with 2 show ?case by (auto simp: shell_kernel_simps intro!: under_call under_ret append_intros)
qed (auto intro: under_ret)

lemma appends_connect_each [append_intros]: "appends (connect_each rp)"
  by (induction rp rule: connect_each.induct) (auto intro!: append_intros)

lemma appends_shell_cl [append_intros]: "appends (shell_connect gai host)" "appends (answer_round sfd s)" "appends (show_answer sfd st)"
proof -
  show "appends (shell_connect gai host)" unfolding shell_connect_def freeaddrinfo_def by (intro append_intros)
  show a: "appends (answer_round sfd s)" for s
    unfolding answer_round_def push_byte_def Let_def by (auto intro!: append_intros split: prod.splits list.splits sum.splits)
  show "appends (show_answer sfd st)"
    unfolding show_answer_def by (auto intro!: append_intros a split: prod.splits)
qed

lemma shell_connect_asks:
  assumes "asking ms a s e w"
  shows "under (shell_kernel S) e (shell_connect gai host) (finishes (\<lambda>_. asking ms a s) (\<lambda>_ _. False)) w"
  unfolding shell_connect_def freeaddrinfo_def
proof (rule under_call, goal_cases)
  case (3 r rs e')
  then have e: "e' = e" by (simp add: shell_kernel_simps)
  show ?case
  proof (cases "\<exists>as. r = RAddrs as")
    case True
    then show ?thesis
      using assms unfolding e
      by (auto intro!: under_then[OF connect_each_asks[of ms a s]] under_event under_ret append_intros simp: shell_kernel_simps)
  next
    case False
    then have "(case r of RAddrs res \<Rightarrow> p res | _ \<Rightarrow> q) = q" for p and q :: "int prog" by (cases r) auto
    then show ?thesis by (auto simp: EXIT_FAILURE_def EXIT_SUCCESS_def intro!: under_stderr under_exit)
  qed
qed (auto intro!: append_intros)

definition answering :: "string list \<Rightarrow> string \<Rightarrow> string \<Rightarrow> string \<Rightarrow> cstate \<Rightarrow> shell_net \<Rightarrow> world \<Rightarrow> bool" where
  "answering ms answer s got st e w \<longleftrightarrow> no_alloc_failure st \<and> (\<exists>a. got @ a = answer \<and> asking ms a s e w)"

lemma answer_is_read:
  assumes "asking ms answer s e w" "no_alloc_failure st"
  shows "under (shell_kernel UNIV) e (loop (answer_round sfd) (vec_init, None, st))
    (finishes (\<lambda>(v, st) e' w'. answering ms answer s answer st e' w' \<and> elems v = answer) (\<lambda>_ _. False)) w"
proof (rule under_repeat[where I = "\<lambda>(v, c, st). answering ms answer s (elems v) st"], goal_cases)
  case (4 x e w)
  obtain v c st where x: "x = (v, c, st)" by (cases x)
  show ?case
    unfolding answer_round_def x prod.case Let_def
  proof (rule under_call, goal_cases)
    case (1 r)
    show ?case by (auto simp: push_byte_def intro!: append_intros split: list.splits sum.splits)
  next
    case (3 r rs e')
    then have r: "r = RData (take 1 (unread e))" "e' = e\<lparr>unread := drop 1 (unread e)\<rparr>"
      by (auto simp: shell_kernel_simps split: if_splits)
    from 4 x obtain a where a: "elems v @ a = answer" "asking ms a s e w" "no_alloc_failure st" by (auto simp: answering_def)
    then have u: "unread e = a" by (simp add: asking_def)
    show ?case
    proof (cases a)
      case Nil
      then have "answering ms answer s answer st e' w" "elems v = answer" using a r by (auto simp: answering_def asking_def)
      then show ?thesis
        using Nil r u by (auto simp: rv_def bytes_read_def bytes_def answering_def intro!: under_leave)
    next
      case (Cons b bs)
      obtain v' st' where v': "vec_push b v st = Inr (v', st')" "elems v' = elems v @ [b]" "no_alloc_failure st'"
        using vec_push_ok[of st b v] a(3) by auto
      have "elems v' @ bs = answer" "asking ms bs s e' w" using a Cons v'(2) r(2) by (auto simp: asking_def)
      then have "answering ms answer s (elems v') st' e' w" using v'(3) by (auto simp: answering_def)
      then show ?thesis
        using Cons r u v'(1) by (auto simp: rv_def bytes_read_def bytes_def push_byte_def answering_def intro!: under_again)
    qed
  qed simp
qed (use assms in \<open>auto simp: answering_def intro!: append_intros fuel_intros\<close>)

lemma show_answer_shows:
  assumes "asking ms answer s e w" "no_alloc_failure st"
  shows "under (shell_kernel UNIV) e (show_answer sfd st)
    (finishes (\<lambda>_ _ _. False) (\<lambda>e' w'. sent e' = ms \<and> out w' = s @ c_str (answer @ [NUL]))) w"
  unfolding show_answer_def
proof (rule under_then[OF answer_is_read[OF assms]], goal_cases)
  case (1 x e' w')
  obtain v st' where x: "x = (v, st')" by (cases x)
  have q: "asking ms [] s e' w'" "no_alloc_failure st'" "elems v = answer"
    using 1 x by (auto simp: answering_def)
  obtain v' st'' where "vec_push NUL v st' = Inr (v', st'')" "elems v' = answer @ [NUL]"
    using vec_push_ok[OF q(2), of NUL v] q(3) by auto
  then show ?case
    unfolding x prod.case checked_def using q(1)
    by (auto simp: shell_kernel_simps asking_def flushed_def intro!: under_printf under_call under_event under_exit append_intros)
qed (auto intro!: append_intros split: prod.splits)

lemma cmd_len_is: "cmd_len argv = length (shell_command argv) + 1"
proof -
  have "fold (\<lambda>a n. n + (length a + 1)) as n = length (concat (map (\<lambda>a. a @ '' '') as)) + n" for as :: "string list" and n
    by (induction as arbitrary: n) simp_all
  then show ?thesis by (simp add: cmd_len_def shell_command_def)
qed

lemma cmd_message: "cmd_len argv \<le> MAX_CMD \<Longrightarrow> take (cmd_len argv) (cmd_buf argv) = shell_command argv @ [NUL]"
  by (simp add: cmd_len_is cmd_buf_def MAX_CMD_def Suc_diff_le)

lemma is_shell_cl_shows:
  assumes "no_alloc_failure st" "sent e = []" "unread e = answer"
  shows "under (shell_kernel UNIV) e (is_shell_cl gai argv st) (finishes (\<lambda>_ _ _. False)
    (\<lambda>e' w'. sent e' = [shell_command argv @ [NUL]] \<and> out w' = out w @ obuf w @ c_str (answer @ [NUL]))) w"
proof -
  show ?thesis
  proof (cases "length argv < 3 \<or> argv ! 1 = ''--help'' \<or> MAX_CMD < cmd_len argv")
    case True
    then show ?thesis
      unfolding is_shell_cl_def by (auto simp: EXIT_FAILURE_def EXIT_SUCCESS_def intro!: under_stderr under_exit)
  next
    case False
    have a: "asking [] answer (out w @ obuf w) e w" using assms by (simp add: asking_def)
    have ans: "under (shell_kernel UNIV) (e'\<lparr>sent := sent e' @ [shell_command argv @ [NUL]]\<rparr>) (show_answer sfd st) (finishes (\<lambda>_ _ _. False)
      (\<lambda>e' w'. sent e' = [shell_command argv @ [NUL]] \<and> out w' = out w @ obuf w @ c_str (answer @ [NUL]))) w'"
      if "asking [] answer (out w @ obuf w) e' w'" for e' w' sfd
      using show_answer_shows[of "[shell_command argv @ [NUL]]" answer "out w @ obuf w" _ w' st] assms(1) that
      by (simp add: asking_def)
    show ?thesis
      unfolding is_shell_cl_def using False
      by (auto simp: cmd_message shell_kernel_simps EXIT_FAILURE_def EXIT_SUCCESS_def shell_errExit_def
          intro!: under_then[OF shell_connect_asks[OF a]] under_stderr under_exit under_call under_flush under_get ans append_intros)
  qed
qed

text \<open>C26: The client against the server. When the client exits with success, the server that reads what it sent executes
  the shell on exactly the arguments, each followed by a blank, once, with the connection as both outputs; and the client
  has printed what the connection answered, up to the first null byte.
\<close>

theorem remote_shell_runs_command:
  assumes "no_alloc_failure st" "no_alloc_failure st'" "list_all (\<lambda>a. NUL \<notin> set a) argv" "cfd \<notin> {1, 2}"
    "is_shell_cl gai argv st w = (Exited EXIT_SUCCESS, w')" "trace w' = trace w @ t"
    "run (shell_kernel UNIV) \<lparr>unread = answer, sent = [], on_conn = (\<lambda>_. False), ran = []\<rparr> t = Some e"
    "handle_request cfd st' u = (r, u')" "trace u' = trace u @ t'"
    "run (shell_kernel {cfd}) \<lparr>unread = concat (sent e), sent = [], on_conn = (\<lambda>f. f = cfd), ran = []\<rparr> t' = Some e'"
  shows "out w' = out w @ obuf w @ c_str (answer @ [NUL]) \<and> (case r of Return _ \<Rightarrow> ran e' = [(shell_command argv, True)]
    | Fault f \<Rightarrow> False | No_fuel \<Rightarrow> False | _ \<Rightarrow> True)"
proof -
  let ?e = "\<lparr>unread = answer, sent = [], on_conn = (\<lambda>_. False), ran = []\<rparr>"
  have "under (shell_kernel UNIV) ?e (is_shell_cl gai argv st) (finishes (\<lambda>_ _ _. False)
    (\<lambda>e' w'. sent e' = [shell_command argv @ [NUL]] \<and> out w' = out w @ obuf w @ c_str (answer @ [NUL]))) w"
    by (rule is_shell_cl_shows[OF assms(1)]) simp_all
  from under_run[OF this assms(5,6,7)]
  have cl: "sent e = [shell_command argv @ [NUL]]" "out w' = out w @ obuf w @ c_str (answer @ [NUL])" by simp_all
  have "list_all (\<lambda>a. NUL \<notin> set a) (drop 2 argv)" using assms(3) by (meson in_set_dropD list_all_iff)
  then have "NUL \<notin> set (shell_command argv)" by (auto simp: shell_command_def list_all_iff NUL_def)
  then have cmd: "c_str (shell_command argv @ [NUL] @ [NUL]) = shell_command argv" by simp
  let ?e' = "\<lparr>unread = concat (sent e), sent = [], on_conn = (\<lambda>f. f = cfd), ran = []\<rparr>"
  have "requesting cfd (shell_command argv @ [NUL]) [] st' ?e'" using assms(2) cl(1) by (simp add: requesting_def)
  from under_run[OF handle_request_runs[OF this assms(4)] assms(8-10)]
  show ?thesis using cl(2) cmd by (simp add: finishes_def split: result.splits)
qed

definition demo_shell_cl :: "unit result \<times> world" where
  "demo_shell_cl = is_shell_cl (\<lambda>_. []) [''is_shell_cl'', ''::1'', ''ls''] \<lparr>allocs = [], cerrno = 0\<rparr>
     (booted [RAddrs [(2, 1, 0, ''a'')], RVal 3, RVal 0, RVal 4, RVal 0, RData ''x'', RData [], RVal 0])"

definition demo_shell_sv :: "unit result \<times> world" where
  "demo_shell_sv = handle_request 4 \<lparr>allocs = [], cerrno = 0\<rparr>
     (booted [RData ''l'', RData ''s'', RData '' '', RData [NUL], RData [], RVal 1, RVal 2, RVal 0, RVal 0])"

lemma demo_shell_runs:
  "fst demo_shell_cl = Exited EXIT_SUCCESS"
  "map_option (\<lambda>e. sent e) (run (shell_kernel UNIV) \<lparr>unread = ''x'', sent = [], on_conn = (\<lambda>_. False), ran = []\<rparr> (trace (snd demo_shell_cl)))
    = Some [''ls '' @ [NUL]]"
  "(case fst demo_shell_sv of Return u \<Rightarrow> True | _ \<Rightarrow> False)"
  "map_option (\<lambda>e. unread e) (run (shell_kernel {4}) \<lparr>unread = ''ls '' @ [NUL], sent = [], on_conn = (\<lambda>f. f = 4), ran = []\<rparr> (trace (snd demo_shell_sv)))
    = Some []"
  by code_simp+

lemma remote_shell_runs_command_witness:
  "out (snd demo_shell_cl) = ''x'' \<and> map_option (\<lambda>e. ran e) (run (shell_kernel {4})
     \<lparr>unread = ''ls '' @ [NUL], sent = [], on_conn = (\<lambda>f. f = 4), ran = []\<rparr> (trace (snd demo_shell_sv))) = Some [(''ls '', True)]"
proof -
  let ?st = "\<lparr>allocs = [], cerrno = 0\<rparr>"
  obtain e where e: "run (shell_kernel UNIV) \<lparr>unread = ''x'', sent = [], on_conn = (\<lambda>_. False), ran = []\<rparr> (trace (snd demo_shell_cl)) = Some e"
      "sent e = [''ls '' @ [NUL]]"
    using demo_shell_runs(2) by auto
  obtain e' where e': "run (shell_kernel {4}) \<lparr>unread = ''ls '' @ [NUL], sent = [], on_conn = (\<lambda>f. f = 4), ran = []\<rparr> (trace (snd demo_shell_sv)) = Some e'"
    using demo_shell_runs(4) by auto
  have cl: "is_shell_cl (\<lambda>_. []) [''is_shell_cl'', ''::1'', ''ls''] ?st
     (booted [RAddrs [(2, 1, 0, ''a'')], RVal 3, RVal 0, RVal 4, RVal 0, RData ''x'', RData [], RVal 0])
     = (Exited EXIT_SUCCESS, snd demo_shell_cl)"
    using demo_shell_runs(1) by (simp add: demo_shell_cl_def prod_eq_iff)
  obtain x where "fst demo_shell_sv = Return x" using demo_shell_runs(3) by (cases "fst demo_shell_sv") auto
  then have sv: "handle_request 4 ?st (booted [RData ''l'', RData ''s'', RData '' '', RData [NUL], RData [], RVal 1, RVal 2, RVal 0, RVal 0])
     = (Return x, snd demo_shell_sv)"
    by (simp add: demo_shell_sv_def prod_eq_iff)
  have t: "u = trace (booted rs) @ u" for u rs by simp
  have m: "no_alloc_failure ?st" by (simp add: no_alloc_failure_def)
  have "list_all (\<lambda>a. NUL \<notin> set a) [''is_shell_cl'', ''::1'', ''ls'']" "(4 :: int) \<notin> {1, 2}" by (simp_all add: NUL_def)
  from remote_shell_runs_command[OF m m this cl t e(1) sv t] e' e(2) show ?thesis
    by (simp add: shell_command_def c_str_def NUL_def)
qed

lemma ends_shell: "shrinks (is_shell_sv st)" "shrinks (is_shell_cl gai argv st)" "shrinks sigchild_handler"
proof -
  have h: "shrinks (handle_request cfd st)" for cfd
    unfolding handle_request_def case_prod_beta by (intro fuel_intros)
  have a: "rounds (shell_accept_round sfd st u)" for sfd u
    unfolding shell_accept_round_def by (intro fuel_intros h)
  show "shrinks (is_shell_sv st)"
    unfolding is_shell_sv_def case_prod_beta by (intro fuel_intros a; simp)
  have c: "shrinks (shell_connect gai host)" for host
    unfolding shell_connect_def freeaddrinfo_def by (auto intro!: fuel_intros split: reply.splits)
  have s: "shrinks (show_answer sfd st)" for sfd
    unfolding show_answer_def case_prod_beta by (intro fuel_intros)
  show "shrinks (is_shell_cl gai argv st)"
    unfolding is_shell_cl_def by (intro fuel_intros c s)
  show "shrinks sigchild_handler" unfolding sigchild_handler_def by (intro fuel_intros)
qed

end
