(* ===== verification/Telnet.thy ===== *)
theory Telnet
  imports Conform Sockets Daemon BinaryTree
begin

text \<open>
  A remote terminal: \<open>64_Pseudoterminals/telnet_sv.c\<close> and \<open>telnet_cl.c\<close>. A client makes two connections, one for data
  and one for the size of its window, that send the same sixteen bytes; the server keeps the sessions of which it knows
  one connection in a tree (\<open>BinaryTree\<close>) and runs a shell on a pseudoterminal when it has both.
\<close>

definition TELNET_BUF :: nat where "TELNET_BUF = 256"
definition PORT_NUM :: string where "PORT_NUM = ''8000''"

fun epoll_events :: "int list \<Rightarrow> (int \<times> bool) list" where
  \<comment> \<open>the array that \<open>epoll_wait\<close> fills: descriptors, and whether the peer has hung up\<close>
  "epoll_events (fd # ev # rest) = (fd, bit ev 13) # epoll_events rest"
| "epoll_events _ = []"

definition ready_events :: "nat \<Rightarrow> reply \<Rightarrow> (int \<times> bool) list" where
  "ready_events n r = take n (epoll_events (case r of RInts ns \<Rightarrow> ns | _ \<Rightarrow> []))"

definition pass_on :: "int \<Rightarrow> string \<Rightarrow> 'a prog \<Rightarrow> 'a prog" where
  \<comment> \<open>\<open>if (write(fd, buf, n) != n) errExit("write");\<close>\<close>
  "pass_on fd s k = call (Fd (Write fd s)) (\<lambda>n. if rv n \<noteq> int (length s) then errExit ''write'' else k)"

section \<open>The server\<close>

definition winsize_field :: "int \<Rightarrow> string \<Rightarrow> (int \<times> string) prog" where
  \<comment> \<open>one round of \<open>receive_winsize\<close>: the number, as an unsigned short, and what \<open>ws_buf\<close> holds then\<close>
  "winsize_field clfd_p ws_buf = or_die (Fd (Read clfd_p 5)) ''read'' (\<lambda>r.
     let ws_buf' = store_bytes 5 r ws_buf in
     checked (string_at ws_buf' 0) (\<lambda>s. seq (getInt (Some s) GN_NONNEG (Some ''buf'')) (\<lambda>v.
       call (Fd (Write clfd_p ''x'')) (\<lambda>n. if rv n \<noteq> 1 then errExit ''Failed/Partial write'' else ret (v mod 65536, ws_buf')))))"

definition receive_winsize :: "int \<Rightarrow> int list prog" where
  "receive_winsize clfd_p = seq (winsize_field clfd_p []) (\<lambda>(row, ws_buf).
     seq (winsize_field clfd_p ws_buf) (\<lambda>(col, _). ret [row, col, 0, 0]))"

primrec serve_events :: "int \<Rightarrow> int \<Rightarrow> int \<Rightarrow> (int \<times> bool) list \<Rightarrow> (unit + unit) prog" where
  \<comment> \<open>the \<open>for\<close> loop over what is ready; it returns when a peer is gone\<close>
  "serve_events clfd clfd_p master_fd [] = again ()"
| "serve_events clfd clfd_p master_fd (ev # events) = (let rest = serve_events clfd clfd_p master_fd events in
     if fst ev = clfd then (if snd ev then leave ()
       else or_die (Fd (Read clfd TELNET_BUF)) ''read'' (\<lambda>r. pass_on master_fd (bytes_read TELNET_BUF r) rest))
     else if fst ev = master_fd then call (Fd (Read master_fd TELNET_BUF)) (\<lambda>r.
       if rv r \<le> 0 then leave () else pass_on clfd (bytes_read TELNET_BUF r) rest)
     else if fst ev = clfd_p then (if snd ev then leave ()
       else seq (receive_winsize clfd_p) (\<lambda>ws. call (Fd (Ioctl master_fd ''TIOCSWINSZ'' ws)) (\<lambda>i.
         if rv i < 0 then errExit ''ioctl'' else rest)))
     else rest)"

definition serve_round :: "int \<Rightarrow> int \<Rightarrow> int \<Rightarrow> unit \<Rightarrow> (unit + unit) prog" where
  "serve_round clfd clfd_p master_fd u = or_die (Lib ''epoll_wait'' [2, -1]) ''epoll_wait'' (\<lambda>ready.
     serve_events clfd clfd_p master_fd (ready_events 2 ready))"

definition handle_client :: "int \<Rightarrow> int \<Rightarrow> unit prog" where
  "handle_client clfd clfd_p = seq (receive_winsize clfd_p) (\<lambda>ws.
     seq (ptyFork None None (Some ws)) (\<lambda>(child_pid, master, slname).
       if child_pid = -1 then errExit ''ptyFork''
       else if child_pid = 0 then call (Proc (Execve ''sh'' [''sh''])) (\<lambda>_. errExit ''execlp'')
       else case master of None \<Rightarrow> stop (Fault Uninitialised) | Some master_fd \<Rightarrow>
         or_die (Lib ''epoll_create1'' [0]) ''epoll_create'' (\<lambda>epfd.
         or_die (Lib ''epoll_ctl'' [rv epfd, master_fd, 1]) ''epoll_ctl'' (\<lambda>_.
         or_die (Lib ''epoll_ctl'' [rv epfd, clfd, 0x2001]) ''epoll_ctl'' (\<lambda>_.
         or_die (Lib ''epoll_ctl'' [rv epfd, clfd_p, 0x2001]) ''epoll_ctl'' (\<lambda>_.
         loop (serve_round clfd clfd_p master_fd) ()))))))"

record telnet =
  sessions :: "nat BTree"                      \<comment> \<open>positions in \<open>opened\<close>\<close>
  opened :: "(int \<times> int option) list"          \<comment> \<open>the structures allocated: \<open>clfd\<close>, \<open>clfd_p\<close>\<close>
  session_id :: string
  addr_str :: string
  telnet_mem :: cstate

definition telnet_identified :: "int \<Rightarrow> telnet \<Rightarrow> telnet \<Rightarrow> string \<Rightarrow> string \<Rightarrow> (telnet + telnet \<times> nat) prog" where
  \<comment> \<open>the rest of a round, from the search of the tree\<close>
  "telnet_identified c s s1 addr key = checked (bt_lookup (sessions s) key) (\<lambda>(found, rc).
     if rc = -1 then printf (''New connection: '' @ addr @ '' (1/2)'' @ [NL])
       (let (ok, st) = malloc_ok (telnet_mem s) in if \<not> ok then stop (Fault Null_deref)
        else checked (bt_add (sessions s) key (length (opened s)) st) (\<lambda>(t, added, st').
          again (s1\<lparr>sessions := t, opened := opened s @ [(c, None)], telnet_mem := st'\<rparr>)))
     else printf (''New connection: '' @ addr @ '' (2/2)'' @ [NL])
       (case found of None \<Rightarrow> stop (Fault Uninitialised)
        | Some i \<Rightarrow> leave (s1\<lparr>opened := (opened s)[i := (fst (opened s ! i), Some c)]\<rparr>, i)))"

definition telnet_accept :: "(int \<Rightarrow> string) \<Rightarrow> int \<Rightarrow> telnet \<Rightarrow> (telnet + telnet \<times> nat) prog" where
  \<comment> \<open>a round of the inner loop, left with the session that is complete; \<open>claddr\<close> stands for the address that
    \<open>accept\<close> stored\<close>
  "telnet_accept gai_strerror sockfd s = call (Sock (Accept sockfd)) (\<lambda>c.
     if rv c = -1 then errMsg ''accept'' (again s)
     else seq (inetAddressStr gai_strerror ''claddr'' (32 + 1025 + 5)) (\<lambda>addr.
       call (Fd (Read (rv c) 16)) (\<lambda>r.
         let s1 = s\<lparr>addr_str := addr, session_id := store_bytes 16 r (session_id s)\<rparr> in
         if rv r \<noteq> 16 then again s1
         else checked (string_at (session_id s1) 0) (telnet_identified (rv c) s s1 addr))))"

definition telnet_start :: "int \<Rightarrow> telnet \<times> nat \<Rightarrow> (telnet + unit) prog" where
  \<comment> \<open>what follows the inner loop\<close>
  "telnet_start sockfd found = (case found of (s, i) \<Rightarrow> (case opened s ! i of
       (clfd, None) \<Rightarrow> stop (Fault Uninitialised)
     | (clfd, Some clfd_p) \<Rightarrow> fflush_stdout (call (Proc Fork) (\<lambda>p.
         if rv p = -1 then call (Fd (Close clfd)) (\<lambda>_. call (Fd (Close clfd_p)) (\<lambda>_. again s))
         else if rv p = 0 then call (Fd (Close sockfd)) (\<lambda>_. seq (handle_client clfd clfd_p) (\<lambda>_.
           printf (''Connection closed: '' @ addr_str s @ [NL]) (exit_prog EXIT_SUCCESS)))
         else call (Fd (Close clfd)) (\<lambda>_. call (Fd (Close clfd_p)) (\<lambda>_.
           checked (string_at (session_id s) 0) (\<lambda>key. checked (bt_delete (sessions s) key (telnet_mem s)) (\<lambda>(t, rc, st).
             if rc = -1 then errExit ''bt_delete''
             else checked (bt_print t st) (\<lambda>(shown, st'). printf shown (again (s\<lparr>sessions := t, telnet_mem := st'\<rparr>)))))))))))"

definition telnet_round :: "(int \<Rightarrow> string) \<Rightarrow> int \<Rightarrow> telnet \<Rightarrow> (telnet + unit) prog" where
  "telnet_round gai_strerror sockfd s = seq (loop (telnet_accept gai_strerror sockfd) s) (telnet_start sockfd)"

definition telnet_sv :: "(int \<Rightarrow> string) \<Rightarrow> cstate \<Rightarrow> unit prog" where
  \<comment> \<open>the result of \<open>inetListen\<close> is not looked at\<close>
  "telnet_sv gai_strerror st = or_die (Proc (Sigaction ''SIGCHLD'' ''sigchld_handler'')) ''sigaction'' (\<lambda>_.
     seq (inetListen PORT_NUM 10) (\<lambda>(sockfd, addr).
       loop (telnet_round gai_strerror sockfd)
         \<lparr>sessions = bt_initialize, opened = [], session_id = [], addr_str = [], telnet_mem = st\<rparr>))"

definition sigchld_round :: "unit \<Rightarrow> (unit + unit) prog" where
  "sigchld_round u = call (Proc (Waitpid (-1) ''WNOHANG'')) (\<lambda>r. if 0 < rv r then leave () else again ())"

definition sigchld_handler :: "unit prog" where
  "sigchld_handler = get errno (\<lambda>saved_errno. seq (loop sigchld_round ()) (\<lambda>_. set_errno saved_errno (ret ())))"

section \<open>The client\<close>

definition winsize_msg :: "string \<Rightarrow> int \<Rightarrow> string" where
  \<comment> \<open>\<open>ws_buf\<close> after \<open>snprintf\<close>\<close>
  "winsize_msg ws_buf v = snprintf 5 (show_int v) @ [NUL] @ drop (length (snprintf 5 (show_int v)) + 1) ws_buf"

definition send_field :: "int \<Rightarrow> string \<Rightarrow> 'a prog \<Rightarrow> 'a prog" where
  "send_field svfd_p ws_buf k = call (Fd (Write svfd_p ws_buf)) (\<lambda>n.
     if rv n \<noteq> 5 then errExit ''Failed/Partial write''
     else call (Fd (Read svfd_p 1)) (\<lambda>r. if rv r \<noteq> 1 then errExit ''Failed/Partial read'' else k))"

definition send_winsize :: "int \<Rightarrow> unit prog" where
  "send_winsize svfd_p = call (Fd (Ioctl 0 ''TIOCGWINSZ'' [])) (\<lambda>ws.
     if rv ws < 0 then errExit ''ioctl-TIOCGWINSZ''
     else case ws of
       RInts (row # col # ns) \<Rightarrow> let b1 = winsize_msg (replicate 5 NUL) row; b2 = winsize_msg b1 col in
         send_field svfd_p b1 (send_field svfd_p b2 (ret ()))
     | _ \<Rightarrow> stop (Fault Uninitialised))"

definition reset_term :: "int list \<Rightarrow> unit prog" where
  "reset_term initial_term = or_die (Fd (Tcsetattr 0 ''TCSANOW'' initial_term)) ''tcsetattr'' (\<lambda>_. ret ())"

definition cl_event :: "int \<Rightarrow> int \<times> bool \<Rightarrow> unit prog" where
  "cl_event svfd ev = (if fst ev = svfd then
       (if snd ev then exit_prog EXIT_SUCCESS
        else or_die (Fd (Read svfd TELNET_BUF)) ''read'' (\<lambda>r. pass_on 1 (bytes_read TELNET_BUF r) (ret ())))
     else if fst ev = 0 then call (Fd (Read 0 TELNET_BUF)) (\<lambda>r.
       if rv r \<le> 0 then errExit ''read'' else pass_on svfd (bytes_read TELNET_BUF r) (ret ()))
     else ret ())"

definition cl_round :: "int \<Rightarrow> int \<Rightarrow> unit \<Rightarrow> (unit + unit) prog" where
  \<comment> \<open>the flag \<open>sigwinch_caught\<close> is read like a reply\<close>
  "cl_round svfd svfd_p u = lib ''sigwinch_caught'' [] (\<lambda>caught.
     seq (if rv caught \<noteq> 0 then send_winsize svfd_p else ret ()) (\<lambda>_.
     lib ''epoll_wait'' [2, -1] (\<lambda>ready. get errno (\<lambda>e.
       if rv ready = -1 \<and> e = EINTR then again ()
       else if rv ready = -1 then errExit ''epoll_wait''
       else seq (each (cl_event svfd) (ready_events 2 ready)) (\<lambda>_. again ())))))"

definition join_session :: "string \<Rightarrow> string \<Rightarrow> (int \<Rightarrow> 'a prog) \<Rightarrow> 'a prog" where
  "join_session host sid k = seq (inetConnect (Some host) PORT_NUM SOCK_STREAM) (\<lambda>svfd.
     if svfd = -1 then errExit ''inetConnect''
     else call (Fd (Write svfd sid)) (\<lambda>n. if rv n \<noteq> 16 then errExit ''Failed/Partial write'' else k svfd))"

definition telnet_cl :: "string list \<Rightarrow> unit prog" where
  "telnet_cl argv = (if length argv \<noteq> 2 \<or> argv ! 1 = ''--help'' then usageErr (hd argv @ '' hostname'')
     else or_die (Proc (Sigaction ''SIGWINCH'' ''sigwinch_handler'')) ''sigaction'' (\<lambda>_.
       seq (ttySetRaw 0) (\<lambda>(v, prev).
       call (Proc (Atexit ''reset_term'')) (\<lambda>a. if rv a = -1 then errExit ''atexit''
       else at_exit (reset_term (case prev of None \<Rightarrow> [0, 0, 0, 0, 0, 0] | Some t \<Rightarrow> ints_of t))
         (call (Lib ''getrandom'' [16, 0]) (\<lambda>g. if rv g \<noteq> 16 then errExit ''getrandom: Failed/Partial result''
          else join_session (argv ! 1) (bytes_read 16 g) (\<lambda>svfd. join_session (argv ! 1) (bytes_read 16 g) (\<lambda>svfd_p.
            seq (send_winsize svfd_p) (\<lambda>_.
            or_die (Lib ''epoll_create1'' [0]) ''epoll_create'' (\<lambda>epfd.
            lib ''epoll_ctl'' [rv epfd, 0, 1] (\<lambda>_. lib ''epoll_ctl'' [rv epfd, svfd, 0x2001] (\<lambda>_.
              loop (cl_round svfd svfd_p) ()))))))))))))"

section \<open>The sizes of windows\<close>

definition four_digits :: "int \<Rightarrow> int" where
  \<comment> \<open>what is left of a number of up to five digits in a buffer of five bytes\<close>
  "four_digits v = (if v < 10000 then v else v div 10)"

lemma snprintf_four_digits:
  assumes "0 \<le> v" "v < 100000"
  shows "snprintf 5 (show_int v) = show_int (four_digits v)"
proof (cases "v < 10000")
  case True
  with assms show_nat_length_le[of "nat v" 3] show ?thesis by (simp add: snprintf_def show_int_def four_digits_def)
next
  case False
  with assms have "nat v div 10 < 10 ^ Suc 3" "10 ^ 3 \<le> nat v div 10" by simp_all
  then have l: "length (show_nat (nat v div 10)) = 4"
    using show_nat_length_le[of "nat v div 10" 3] show_nat_length_ge[of 3 "nat v div 10"] by simp
  have "show_nat (nat v) = show_nat (nat v div 10) @ [digit_char (nat v mod 10)]"
    using False by (subst show_nat.simps) simp
  with l False assms show ?thesis
    by (simp add: snprintf_def show_int_def four_digits_def nat_div_distrib)
qed

lemma winsize_msg_holds:
  assumes "0 \<le> v" "v < 100000" "length old = 5"
  shows "string_at (store_bytes 5 (RData (winsize_msg old v)) buf) 0 = Inr (show_int (four_digits v))" "length (winsize_msg old v) = 5"
proof -
  let ?s = "show_int (four_digits v)"
  have m: "winsize_msg old v = ?s @ [NUL] @ drop (length ?s + 1) old"
    using assms(1,2) by (simp add: winsize_msg_def snprintf_four_digits)
  have "length ?s < 5" using snprintf_four_digits[OF assms(1,2)] by (auto simp: snprintf_def dest: arg_cong[where f = length])
  then show l: "length (winsize_msg old v) = 5" unfolding m using assms(3) by simp
  have "NUL \<notin> set ?s" by (simp add: NUL_not_shown)
  then show "string_at (store_bytes 5 (RData (winsize_msg old v)) buf) 0 = Inr ?s"
    using l by (simp add: store_bytes_def bytes_read_def bytes_def string_at_def m)
qed

lemma wp_getInt_shown:
  assumes "0 \<le> v" "v \<le> INT_MAX" "\<And>w'. script w' = script w \<Longrightarrow> trace w' = trace w \<Longrightarrow> Q (Return v) w'"
  shows "wp (getInt (Some (show_int v)) GN_NONNEG name) Q w"
proof -
  have "strtol (show_int v) 10 = (v, [], False)"
    using strtol_show_int[of v "[]"] assms(1,2) by (simp add: int_limits)
  moreover have "show_int v \<noteq> []" by (simp add: show_int_def)
  ultimately have "gn_value GN_NONNEG (Some (show_int v)) = Some v"
    using assms(1) by (simp add: gn_value_def gn_base_def gn_allowed_def has_flag_def gn_flags)
  then show ?thesis using assms by (intro wp_getInt) (auto simp: int_limits)
qed

text \<open>C28: The client sends the size of its window in two messages of five bytes, and the server that reads them has the same
  numbers, except that of a number of five digits the last is lost.
\<close>

theorem winsize_round_trip:
  assumes "0 \<le> row" "row < 65536" "0 \<le> col" "col < 65536"
  shows "\<exists>w' u' b1 b2.
    send_winsize sv (w\<lparr>script := [RInts [row, col], RVal 5, RData ''x'', RVal 5, RData ''x'']\<rparr>) = (Return (), w')
    \<and> writes (trace w') = writes (trace w) @ [(sv, b1), (sv, b2)]
    \<and> receive_winsize cl (u\<lparr>script := [RData b1, RVal 1, RData b2, RVal 1]\<rparr>) = (Return [four_digits row, four_digits col, 0, 0], u')"
proof -
  let ?b1 = "winsize_msg (replicate 5 NUL) row" and ?b2 = "winsize_msg (winsize_msg (replicate 5 NUL) row) col"
  have f: "0 \<le> four_digits v" "four_digits v \<le> INT_MAX" "four_digits v mod 65536 = four_digits v" if "0 \<le> v" "v < 65536" for v
    using that by (auto simp: four_digits_def int_limits)
  have m1: "string_at (store_bytes 5 (RData ?b1) buf) 0 = Inr (show_int (four_digits row))" "length ?b1 = 5" for buf
    using assms by (simp_all add: winsize_msg_holds)
  have m2: "string_at (store_bytes 5 (RData ?b2) buf) 0 = Inr (show_int (four_digits col))" "length ?b2 = 5" for buf
    using assms m1(2) by (simp_all add: winsize_msg_holds)
  have snd: "wp (send_winsize sv) (\<lambda>r w'. r = Return () \<and> writes (trace w') = writes (trace w) @ [(sv, ?b1), (sv, ?b2)])
      (w\<lparr>script := [RInts [row, col], RVal 5, RData ''x'', RVal 5, RData ''x'']\<rparr>)"
    by (simp add: send_winsize_def send_field_def Let_def exec_simps rv_def)
  have "wp (receive_winsize cl) (\<lambda>r _. r = Return [four_digits row, four_digits col, 0, 0])
      (u\<lparr>script := [RData ?b1, RVal 1, RData ?b2, RVal 1]\<rparr>)"
    unfolding receive_winsize_def winsize_field_def Let_def
    by (simp add: exec_simps wp_checked m1 m2 rv_def)
      (intro wp_getInt_shown f assms; simp add: exec_simps wp_checked m2 rv_def f assms;
       intro wp_getInt_shown f assms; simp add: exec_simps rv_def f assms)
  then obtain u' where rcv: "receive_winsize cl (u\<lparr>script := [RData ?b1, RVal 1, RData ?b2, RVal 1]\<rparr>)
      = (Return [four_digits row, four_digits col, 0, 0], u')"
    by (auto simp: wp_def split: prod.splits)
  obtain w' where "send_winsize sv (w\<lparr>script := [RInts [row, col], RVal 5, RData ''x'', RVal 5, RData ''x'']\<rparr>) = (Return (), w')"
      "writes (trace w') = writes (trace w) @ [(sv, ?b1), (sv, ?b2)]"
    using snd by (auto simp: wp_def split: prod.splits)
  with rcv show ?thesis by blast
qed

lemma winsize_round_trip_witness: "\<exists>w' u' b1 b2.
    send_winsize 3 (booted [RInts [24, 12345], RVal 5, RData ''x'', RVal 5, RData ''x'']) = (Return (), w')
    \<and> writes (trace w') = [(3, b1), (3, b2)]
    \<and> receive_winsize 4 (booted [RData b1, RVal 1, RData b2, RVal 1]) = (Return [24, 1234, 0, 0], u')"
  using winsize_round_trip[of 24 12345 3 "booted []" 4 "booted []"] by (simp add: four_digits_def booted_def)

section \<open>Which connections make a session\<close>

record telnet_env =
  sent :: "int \<Rightarrow> string option"  \<comment> \<open>the sixteen bytes that an open connection has sent\<close>
  fork_failed :: bool



definition same_session :: "string \<Rightarrow> string \<Rightarrow> bool" where
  \<comment> \<open>the identifiers that the tree does not tell apart, since it compares them as strings: those with the same
    bytes before the first null byte\<close>
  "same_session id1 id2 \<longleftrightarrow> takeWhile (\<lambda>c. c \<noteq> NUL) id1 = takeWhile (\<lambda>c. c \<noteq> NUL) id2"

definition pending_ok :: "telnet \<Rightarrow> (int \<Rightarrow> string option) \<Rightarrow> bool" where
  \<comment> \<open>a session in the tree is known by what its first connection has sent\<close>
  "pending_ok s ids \<longleftrightarrow> tree_ok (sessions s) \<and> no_alloc_failure (telnet_mem s) \<and> length (session_id s) \<le> 16
     \<and> (\<forall>k i. tree_map (sessions s) k = Some i \<longrightarrow> i < length (opened s)
         \<and> (\<exists>sid. ids (fst (opened s ! i)) = Some sid \<and> c_str sid = k))"

definition paired :: "telnet \<Rightarrow> nat \<Rightarrow> (int \<Rightarrow> string option) \<Rightarrow> bool" where
  \<comment> \<open>two connections whose identifiers are the same string\<close>
  "paired s i ids \<longleftrightarrow> pending_ok s ids \<and> tree_map (sessions s) (c_str (session_id s)) = Some i \<and> NUL \<in> set (session_id s)
     \<and> (\<exists>c1 c2 id1. opened s ! i = (c1, Some c2) \<and> c1 \<noteq> c2 \<and> ids c1 = Some id1 \<and> ids c2 = Some (session_id s)
         \<and> same_session id1 (session_id s))"

definition cannot_pair :: "(int \<Rightarrow> string option) \<Rightarrow> bool" where
  \<comment> \<open>two connections that have sent different strings are open, or one that has sent no null byte\<close>
  "cannot_pair ids \<longleftrightarrow> (\<exists>c1 c2 id1 id2. ids c1 = Some id1 \<and> ids c2 = Some id2 \<and> \<not> same_session id1 id2)
     \<or> (\<exists>c sid. ids c = Some sid \<and> NUL \<notin> set sid)"

definition stale :: "telnet \<Rightarrow> (int \<Rightarrow> string option) \<Rightarrow> bool" where
  \<comment> \<open>a session whose connections are closed is still in the tree\<close>
  "stale s ids \<longleftrightarrow> (\<exists>k i. tree_map (sessions s) k = Some i \<and> ids (fst (opened s ! i)) = None)"



lemma tree_map_start: "tree_ok t \<Longrightarrow> tree_map t k = None \<Longrightarrow> root t \<noteq> NullNode \<Longrightarrow> \<exists>k' i. tree_map t k' = Some i \<and> k' \<noteq> k"
  using tree_map_empty[of t] by (metis option.exhaust not_Some_eq ext)

definition accepted :: "(telnet + telnet \<times> nat) result \<Rightarrow> telnet_env \<Rightarrow> world \<Rightarrow> bool" where
  "accepted r e w \<longleftrightarrow> (case r of Return (Inl s') \<Rightarrow> pending_ok s' (sent e) | Return (Inr (s', i)) \<Rightarrow> paired s' i (sent e)
     | Fault f \<Rightarrow> cannot_pair (sent e) | No_fuel \<Rightarrow> False | _ \<Rightarrow> True)"

lemma accepted_simps [simp]:
  "accepted (Return (Inl s)) e w = pending_ok s (sent e)" "accepted (Return (Inr (s, i))) e w = paired s i (sent e)"
  "accepted (Fault f) e w = cannot_pair (sent e)" "accepted Blocked e w"
  by (simp_all add: accepted_def)


lemma appends_telnet_identified [append_intros]: "appends (telnet_identified c s s1 addr key)"
  unfolding telnet_identified_def Let_def by (auto intro!: append_intros split: prod.splits)



lemma ends_telnet_accept [fuel_intros]: "rounds (telnet_accept g fd s)"
  unfolding telnet_accept_def telnet_identified_def Let_def case_prod_beta by (intro fuel_intros; simp)

lemma appends_telnet_accept [append_intros]: "appends (telnet_accept g fd s)"
  unfolding telnet_accept_def inetAddressStr_def Let_def by (auto intro!: append_intros split: prod.splits)



definition kept :: "(telnet + unit) result \<Rightarrow> telnet_env \<Rightarrow> world \<Rightarrow> bool" where
  "kept r e w \<longleftrightarrow> (case r of Return (Inl s') \<Rightarrow> if fork_failed e then stale s' (sent e) else pending_ok s' (sent e) | _ \<Rightarrow> True)"

lemma kept_simps [simp]:
  "kept (Return (Inl s)) e w = (if fork_failed e then stale s (sent e) else pending_ok s (sent e))"
  "kept Blocked e w" "kept (Exited n) e w" "kept (Fault f) e w"
  "kept (UExited n) e w" "kept (Return (Inr u)) e w" "kept Aborted e w" "kept No_fuel e w" "kept (end_of b w0) e w"
  by (simp_all add: kept_def end_of_def)



lemma appends_winsize [append_intros]: "appends (winsize_field fd b)" "appends (receive_winsize fd)"
proof -
  show w: "appends (winsize_field fd b)" for fd b
    unfolding winsize_field_def Let_def by (auto intro!: append_intros)
  show "appends (receive_winsize fd)"
    unfolding receive_winsize_def by (auto intro!: append_intros w split: prod.splits)
qed

lemma appends_handle_client [append_intros]: "appends (handle_client clfd clfd_p)"
proof -
  have e: "appends (serve_events clfd clfd_p m evs)" for m evs
    by (induction evs) (auto simp: pass_on_def Let_def intro!: append_intros)
  have p: "appends (ptyFork sn t z)" for sn t z
    unfolding ptyFork_def ptyMasterOpen_def pty_fail_def pty_child_def or_err_exit_def Let_def
    by (auto intro!: append_intros split: prod.splits option.splits)
  show ?thesis
    unfolding handle_client_def serve_round_def by (auto intro!: append_intros e p split: prod.splits option.splits)
qed












lemma rounds_flush [fuel_intros]: "rounds k \<Longrightarrow> rounds (fflush_stdout k)"
  by (rule rounds_prefix[where k = k and g = "\<lambda>w. after_io (w\<lparr>out := out w @ obuf w, obuf := []\<rparr>)"])
    (simp_all add: fflush_stdout_def)

lemma ends_telnet: "shrinks (telnet_sv g st)" "shrinks (telnet_cl argv)" "shrinks (loop sigchld_round ())"
proof -
  have f: "shrinks (winsize_field fd b)" for fd b
    unfolding winsize_field_def Let_def by (intro fuel_intros)
  have w: "shrinks (receive_winsize fd)" for fd
    unfolding receive_winsize_def case_prod_beta by (intro fuel_intros f)
  have e: "shrinks (serve_events clfd clfd_p m evs)" for clfd clfd_p m evs
    by (induction evs) (auto simp: pass_on_def Let_def intro!: fuel_intros w)
  have p: "shrinks (ptyFork sn t z)" for sn t z
    unfolding ptyFork_def ptyMasterOpen_def pty_fail_def pty_child_def or_err_exit_def Let_def
    by (auto intro!: fuel_intros split: prod.splits option.splits)
  have h: "shrinks (handle_client c1 c2)" for c1 c2
    unfolding handle_client_def serve_round_def or_die_def by (auto intro!: fuel_intros e p w split: option.splits)
  have s: "rounds (telnet_start fd si)" for fd si
    unfolding telnet_start_def
    by (auto intro!: fuel_intros h split: prod.splits option.splits)
  show "shrinks (telnet_sv g st)"
    unfolding telnet_sv_def telnet_round_def by (auto intro!: fuel_intros s)
  show "shrinks (loop sigchld_round ())" unfolding sigchld_round_def by (intro fuel_intros)
  have sw: "shrinks (send_winsize fd)" for fd
    unfolding send_winsize_def send_field_def Let_def by (auto intro!: fuel_intros split: reply.splits list.splits)
  have j: "shrinks (join_session host sid k)" if "\<And>fd. shrinks (k fd)" for host sid and k :: "int \<Rightarrow> unit prog"
    unfolding join_session_def by (intro fuel_intros that)
  have tty: "shrinks (ttySetRaw 0)" unfolding ttySetRaw_def tty_set_def by (auto intro!: fuel_intros split: reply.splits)
  show "shrinks (telnet_cl argv)"
    unfolding telnet_cl_def reset_term_def cl_round_def cl_event_def pass_on_def case_prod_beta
    by (intro fuel_intros j sw tty; simp)
qed

end
