(* ===== verification/Drivi.thy ===== *)
theory Drivi
  imports Conform Daemon
begin

text \<open>
  \<open>64_Pseudoterminals/drivi.c\<close>: an editor on a pseudoterminal is driven by a script of simple commands, one on a line.
\<close>

section \<open>The program\<close>

definition DRIVI_BUF :: nat where "DRIVI_BUF = 256"

definition strtok :: "string \<Rightarrow> string option \<times> string" where
  \<comment> \<open>\<open>strtok(s, " ")\<close>: the next word, and what the next call goes on with\<close>
  "strtok s = (let s' = dropWhile (\<lambda>c. c = CHR '' '') s in
     if s' = [] then (None, []) else (Some (takeWhile (\<lambda>c. c \<noteq> CHR '' '') s'), tl (dropWhile (\<lambda>c. c \<noteq> CHR '' '') s')))"

definition line_byte :: "int \<Rightarrow> string \<Rightarrow> (string + string) prog" where
  \<comment> \<open>a round of the inner loop: \<open>strcat\<close> into an element of 256 bytes\<close>
  "line_byte script_fd line = or_die (Fd (Read script_fd 1)) ''read'' (\<lambda>r. case bytes_read 1 r of
       [] \<Rightarrow> leave line
     | b # bs \<Rightarrow> if b = NL then leave line
         else let line' = line @ c_str [b] in if DRIVI_BUF \<le> length line' then stop (Fault Out_of_bounds) else again line')"

definition read_script :: "int \<Rightarrow> string vec \<times> cstate \<Rightarrow> (string vec \<times> cstate + string vec) prog" where
  "read_script script_fd s = (case s of (ls, st) \<Rightarrow> or_die (Fd (Read script_fd 1)) ''read'' (\<lambda>r. case bytes_read 1 r of
       [] \<Rightarrow> leave ls
     | b # bs \<Rightarrow> if b = NL then again s
         else checked (vec_push [] ls st) (\<lambda>(ls', st').
           seq (loop (line_byte script_fd) (c_str [b])) (\<lambda>line. again (ls'\<lparr>elems := (elems ls')[length (elems ls) := line]\<rparr>, st')))))"

definition send_cmd :: "int \<Rightarrow> string \<Rightarrow> 'a prog \<Rightarrow> 'a prog" where
  "send_cmd master_fd cmd k = (if DRIVI_BUF \<le> length cmd then stop (Fault Out_of_bounds)
     else call (Fd (Write master_fd cmd)) (\<lambda>n. if rv n \<noteq> int (length cmd) then errExit ''Partial/Failed write'' else k))"

definition sent_line :: "string \<Rightarrow> unit prog" where
  "sent_line cmd = printf (''Sent to vim: '' @ cmd @ [NL]) (ret ())"

definition interpret_tokens :: "int \<Rightarrow> string \<Rightarrow> string \<Rightarrow> unit prog" where
  "interpret_tokens master_fd token1 token2 =
     (if token1 = ''last'' then send_cmd master_fd ''$'' (sent_line [])
      else if token1 = ''first'' then send_cmd master_fd ''1'' (sent_line [])
      else if token1 = ''delete'' then seq (getInt (Some token2) GN_NONNEG (Some ''n'')) (\<lambda>_.
        let cmd = token2 @ ''d'' @ [NL] in send_cmd master_fd cmd (sent_line cmd))
      else if token1 = ''goto'' then seq (getInt (Some token2) GN_NONNEG (Some ''n'')) (\<lambda>_.
        let cmd = token2 @ [NL] in send_cmd master_fd cmd (sent_line cmd))
      else if token1 = ''edit'' then call (Path (Open token2 ''O_RDONLY'' 384)) (\<lambda>f.
        if rv f = -1 then fprintf_stderr (''drivi: edit: File doesn't exist'' @ [NL]) (exit_prog EXIT_FAILURE)
        else let cmd = ''e '' @ token2 @ [NL] in send_cmd master_fd cmd (sent_line cmd))
      else fprintf_stderr (''drivi: syntax: unrecognized command'' @ [NL]) (exit_prog EXIT_FAILURE))"

definition drivi_line :: "int \<Rightarrow> string \<Rightarrow> unit prog" where
  \<comment> \<open>a missing word is printed with \<open>%s\<close> before it is looked at\<close>
  "drivi_line master_fd line = (case strtok line of
       (None, rest) \<Rightarrow> stop (Fault Null_deref)
     | (Some token1, rest) \<Rightarrow> printf (''token1: '' @ token1 @ ''   '') (case strtok rest of
           (None, rest2) \<Rightarrow> stop (Fault Null_deref)
         | (Some token2, rest2) \<Rightarrow> printf (''token2: '' @ token2 @ ''   '')
             (if rest2 \<noteq> [] then fprintf_stderr (''drivi: syntax: 3 or more tokens'' @ [NL]) (exit_prog EXIT_FAILURE)
              else interpret_tokens master_fd token1 token2)))"

definition write_or_die :: "int \<Rightarrow> string \<Rightarrow> 'a prog \<Rightarrow> 'a prog" where
  "write_or_die fd s k = call (Fd (Write fd s)) (\<lambda>n. if rv n \<noteq> int (length s) then errExit ''Partial/Failed write'' else k)"

definition drivi_quit :: "int \<Rightarrow> unit prog" where
  \<comment> \<open>save, leave the editor and wait until the slave is closed\<close>
  "drivi_quit master_fd = write_or_die master_fd (''w'' @ [NL]) (write_or_die master_fd (''q!'' @ [NL])
     (or_die (Lib ''epoll_create1'' [0]) ''epoll_create1'' (\<lambda>ep.
      or_die (Lib ''epoll_ctl'' [rv ep, master_fd]) ''epoll_ctl'' (\<lambda>_.
      printf ([NL] @ ''About to call epoll_wait()'' @ [NL])
        (or_die (Lib ''epoll_wait'' [1, -1]) ''epoll_wait'' (\<lambda>ev.
           (if (case ev of RInts (fd # events # ns) \<Rightarrow> bit events 4 | _ \<Rightarrow> False)
            then printf (''epoll reports EPOLLHUP'' @ [NL]) else (\<lambda>k. k)) (exit_prog EXIT_SUCCESS)))))))"

definition drivi_script :: "int \<Rightarrow> string vec \<Rightarrow> unit prog" where
  "drivi_script master_fd ls =
     printf (''Processing script file:'' @ [NL] @ concat (map (\<lambda>l. [TAB] @ l @ [NL]) (elems ls)) @ [NL])
       (seq (each (drivi_line master_fd) (elems ls)) (\<lambda>_. event (Lib ''da_free'' []) (drivi_quit master_fd)))"

definition drivi_parent :: "string \<Rightarrow> cstate \<Rightarrow> int \<Rightarrow> unit prog" where
  "drivi_parent name st master_fd = or_die (Path (Open name ''O_RDONLY'' 384)) ''open'' (\<lambda>script_fd.
     seq (loop (read_script (rv script_fd)) (vec_init, st)) (drivi_script master_fd))"

definition drivi :: "string list \<Rightarrow> cstate \<Rightarrow> unit prog" where
  "drivi argv st = (if length argv \<noteq> 2 \<or> argv ! 1 = ''--help'' then usageErr (hd argv @ '' drivi-script-file'')
     else or_die (Fd (Tcgetattr 0)) ''tcgetattr'' (\<lambda>attrs. call (Fd (Ioctl 0 ''TIOCGWINSZ'' [])) (\<lambda>ws.
       if rv ws < 0 then errExit ''ioctl-TIOCGWINSZ''
       else seq (ptyFork None (Some (case attrs of RInts ns \<Rightarrow> ns | _ \<Rightarrow> [])) (Some (case ws of RInts ns \<Rightarrow> ns | _ \<Rightarrow> [])))
         (\<lambda>(child_pid, master, slname).
           if child_pid = -1 then errExit ''ptyFork''
           else if child_pid = 0 then call (Proc (Execve ''ex'' [''ex''])) (\<lambda>_. errExit ''execlp'')
           else case master of None \<Rightarrow> stop (Fault Uninitialised) | Some master_fd \<Rightarrow> drivi_parent (argv ! 1) st master_fd))))"

section \<open>What is sent to the editor\<close>

definition ex_command :: "string \<Rightarrow> string" where
  "ex_command line = (let t1 = the (fst (strtok line)); t2 = the (fst (strtok (snd (strtok line)))) in
     if t1 = ''last'' then ''$'' else if t1 = ''first'' then ''1'' else if t1 = ''delete'' then t2 @ ''d'' @ [NL]
     else if t1 = ''goto'' then t2 @ [NL] else ''e '' @ t2 @ [NL])"

definition two_words :: "string \<Rightarrow> bool" where
  "two_words line \<longleftrightarrow> fst (strtok line) \<noteq> None \<and> fst (strtok (snd (strtok line))) \<noteq> None \<and> length line < DRIVI_BUF"

fun split_lines :: "string \<Rightarrow> string \<Rightarrow> string list" where
  "split_lines cur [] = (if cur = [] then [] else [cur])"
| "split_lines cur (c # cs) = (if c = NL then (if cur = [] then split_lines [] cs else cur # split_lines [] cs)
     else split_lines (cur @ [c]) cs)"

definition script_lines :: "string \<Rightarrow> string list" where
  \<comment> \<open>the lines that are not empty\<close>
  "script_lines s = split_lines [] s"

record drivi_env =
  script_rest :: string
  to_editor :: string

definition drivi_kernel :: "drivi_env \<Rightarrow> syscall \<Rightarrow> reply \<Rightarrow> drivi_env option" where
  \<comment> \<open>the script is read without errors\<close>
  "drivi_kernel e c r = (case c of
      Fd (Read f n) \<Rightarrow> if r = RData (take n (script_rest e)) then Some (e\<lparr>script_rest := drop n (script_rest e)\<rparr>) else None
    | Fd (Write f d) \<Rightarrow> Some (e\<lparr>to_editor := to_editor e @ d\<rparr>)
    | _ \<Rightarrow> Some e)"

lemma drivi_kernel_simps:
  "drivi_kernel e (Fd (Read f n)) r = (if r = RData (take n (script_rest e)) then Some (e\<lparr>script_rest := drop n (script_rest e)\<rparr>) else None)"
  "drivi_kernel e (Fd (Write f d)) r = Some (e\<lparr>to_editor := to_editor e @ d\<rparr>)"
  "drivi_kernel e (Path p) r = Some e" "drivi_kernel e (Lib g as) r = Some e"
  by (simp_all add: drivi_kernel_def)

lemma strtok_short: "strtok s = (Some t, r) \<Longrightarrow> length t + length r \<le> length s \<and> t \<noteq> []"
proof -
  assume "strtok s = (Some t, r)"
  then have e: "dropWhile (\<lambda>c. c = CHR '' '') s \<noteq> []" "t = takeWhile (\<lambda>c. c \<noteq> CHR '' '') (dropWhile (\<lambda>c. c = CHR '' '') s)"
    "r = tl (dropWhile (\<lambda>c. c \<noteq> CHR '' '') (dropWhile (\<lambda>c. c = CHR '' '') s))"
    by (auto simp: strtok_def Let_def split: if_splits)
  let ?s = "dropWhile (\<lambda>c. c = CHR '' '') s"
  have "length (takeWhile (\<lambda>c. c \<noteq> CHR '' '') ?s) + length (dropWhile (\<lambda>c. c \<noteq> CHR '' '') ?s) = length ?s"
    by (metis length_append takeWhile_dropWhile_id)
  moreover have "length ?s \<le> length s" by (rule length_dropWhile_le)
  moreover have "takeWhile (\<lambda>c. c \<noteq> CHR '' '') ?s \<noteq> []" using e(1) by (metis hd_dropWhile takeWhile_eq_Nil_iff)
  ultimately show ?thesis using e(2,3) by simp
qed

lemma appends_drivi [append_intros]: "appends (line_byte fd line)" "appends (read_script fd s)" "appends k \<Longrightarrow> appends (send_cmd m cmd k)"
  "appends (interpret_tokens m t1 t2)" "appends (drivi_line m line)" "appends k \<Longrightarrow> appends (write_or_die m cmd k)" "appends (drivi_quit m)"
proof -
  show b: "appends (line_byte fd line)" for line
    unfolding line_byte_def Let_def by (auto intro!: append_intros split: list.splits)
  show "appends (read_script fd s)"
    unfolding read_script_def by (auto intro!: append_intros b split: prod.splits list.splits)
  show c: "appends (send_cmd m cmd k)" if "appends k" for cmd and k :: "'z prog"
    unfolding send_cmd_def by (intro append_intros that)
  show i: "appends (interpret_tokens m t1 t2)" for t1 t2
    unfolding interpret_tokens_def sent_line_def Let_def by (intro append_intros c)
  show "appends (drivi_line m line)"
    unfolding drivi_line_def by (auto intro!: append_intros i split: prod.splits option.splits)
  show w: "appends (write_or_die m cmd k)" if "appends k" for cmd and k :: "'z prog"
    unfolding write_or_die_def by (intro append_intros that)
  show "appends (drivi_quit m)" unfolding drivi_quit_def by (intro append_intros w)
qed

lemma under_getInt_any:
  assumes "\<And>v w'. Q (Return v) e w'" "\<And>w'. Q (Exited EXIT_FAILURE) e w'"
  shows "under K e (getInt a fl n) Q w"
  unfolding under_def by (rule wp_getInt) (auto intro!: exI[of _ "[]"] assms)

abbreviation sends :: "drivi_env \<Rightarrow> string \<Rightarrow> unit \<Rightarrow> drivi_env \<Rightarrow> world \<Rightarrow> bool" where
  "sends e s \<equiv> (\<lambda>_ e' w. e' = e\<lparr>to_editor := to_editor e @ s\<rparr>)"

lemma send_cmd_sends:
  assumes "length cmd < DRIVI_BUF"
  shows "under drivi_kernel e (send_cmd m cmd (sent_line x)) (finishes (sends e cmd) (\<lambda>_ _. False)) w"
  unfolding send_cmd_def sent_line_def using assms
  by (auto simp: drivi_kernel_simps intro!: under_call under_errExit under_printf under_ret append_intros)

lemma appends_sent_line [append_intros]: "appends (sent_line cmd)"
  unfolding sent_line_def by (intro append_intros)

definition ex_text :: "string \<Rightarrow> string \<Rightarrow> string" where
  "ex_text t1 t2 = (if t1 = ''last'' then ''$'' else if t1 = ''first'' then ''1'' else if t1 = ''delete'' then t2 @ ''d'' @ [NL]
     else if t1 = ''goto'' then t2 @ [NL] else ''e '' @ t2 @ [NL])"

lemma interpret_tokens_sends:
  assumes "length t1 + length t2 < DRIVI_BUF"
  shows "under drivi_kernel e (interpret_tokens m t1 t2) (finishes (sends e (ex_text t1 t2)) (\<lambda>_ _. False)) w"
proof -
  have number: "under drivi_kernel e (seq (getInt (Some t2) GN_NONNEG (Some ''n'')) (\<lambda>_. send_cmd m cmd (sent_line cmd)))
      (finishes (sends e cmd) (\<lambda>_ _. False)) w" if "length cmd < DRIVI_BUF" for cmd w
    by (intro under_seq under_getInt_any append_intros)
      (auto simp: EXIT_FAILURE_def EXIT_SUCCESS_def intro!: send_cmd_sends[OF that] append_intros)
  consider "t1 = ''last''" | "t1 = ''first''" | "t1 = ''delete''" | "t1 = ''goto''" | "t1 = ''edit''"
    | (other) "t1 \<noteq> ''last''" "t1 \<noteq> ''first''" "t1 \<noteq> ''delete''" "t1 \<noteq> ''goto''" "t1 \<noteq> ''edit''" by blast
  then show ?thesis
  proof cases
    case 1
    then show ?thesis by (simp add: interpret_tokens_def ex_text_def DRIVI_BUF_def send_cmd_sends)
  next
    case 2
    then show ?thesis by (simp add: interpret_tokens_def ex_text_def DRIVI_BUF_def send_cmd_sends)
  next
    case 3
    then show ?thesis using assms number[of "t2 @ ''d'' @ [NL]"] by (simp add: interpret_tokens_def ex_text_def DRIVI_BUF_def Let_def)
  next
    case 4
    then show ?thesis using assms number[of "t2 @ [NL]"] by (simp add: interpret_tokens_def ex_text_def DRIVI_BUF_def Let_def)
  next
    case 5
    then have l: "length (''e '' @ t2 @ [NL]) < DRIVI_BUF" using assms by simp
    show ?thesis
      unfolding interpret_tokens_def ex_text_def Let_def using 5 send_cmd_sends[OF l]
      by (auto simp: EXIT_FAILURE_def EXIT_SUCCESS_def drivi_kernel_simps intro!: under_call under_stderr under_exit append_intros)
  next
    case other
    then show ?thesis
      by (auto simp: interpret_tokens_def EXIT_FAILURE_def EXIT_SUCCESS_def intro!: under_stderr under_exit)
  qed
qed

lemma ex_command_text: "strtok line = (Some t1, r1) \<Longrightarrow> strtok r1 = (Some t2, r2) \<Longrightarrow> ex_command line = ex_text t1 t2"
  by (simp add: ex_command_def ex_text_def)

lemma drivi_line_sends:
  assumes "two_words line"
  shows "under drivi_kernel e (drivi_line m line) (finishes (sends e (ex_command line)) (\<lambda>_ _. False)) w"
proof -
  from assms obtain t1 r1 t2 r2 where t: "strtok line = (Some t1, r1)" "strtok r1 = (Some t2, r2)" "length line < DRIVI_BUF"
    by (cases "strtok line"; cases "strtok (snd (strtok line))") (auto simp: two_words_def)
  have l: "length t1 + length t2 < DRIVI_BUF" using strtok_short[OF t(1)] strtok_short[OF t(2)] t(3) by simp
  show ?thesis
    unfolding drivi_line_def t(1) prod.case option.case t(2) ex_command_text[OF t(1,2)]
    using interpret_tokens_sends[OF l]
    by (auto simp: EXIT_FAILURE_def EXIT_SUCCESS_def intro!: under_printf under_stderr under_exit)
qed

lemma rounds_line_byte [fuel_intros]: "rounds (line_byte fd cur)"
  unfolding line_byte_def Let_def or_die_def by (auto intro!: fuel_intros split: list.splits)

lemma rounds_read_script [fuel_intros]: "rounds (read_script fd s)"
  unfolding read_script_def or_die_def case_prod_beta by (auto intro!: fuel_intros split: list.splits)

section \<open>Reading the script\<close>

lemma split_lines_first: "cur \<noteq> [] \<Longrightarrow> \<exists>l ls. split_lines cur s = l # ls \<and> length cur \<le> length l"
proof (induction cur s rule: split_lines.induct)
  case (2 cur c cs)
  then show ?case by (cases "c = NL") fastforce+
qed simp

definition reading :: "string \<Rightarrow> string list \<Rightarrow> string \<Rightarrow> drivi_env \<Rightarrow> bool" where
  \<comment> \<open>what was sent, the lines that are still to come, the line that is being read\<close>
  "reading d todo cur e \<longleftrightarrow> to_editor e = d \<and> split_lines cur (script_rest e) = todo \<and> NUL \<notin> set (script_rest e)
     \<and> list_all (\<lambda>l. length l < DRIVI_BUF) todo"

lemma reading_start: "reading d todo [] e \<Longrightarrow> script_rest e = c # cs \<Longrightarrow> c \<noteq> NL \<Longrightarrow> reading d todo [c] (e\<lparr>script_rest := cs\<rparr>)"
  "reading d todo [] e \<Longrightarrow> script_rest e = c # cs \<Longrightarrow> c = NL \<Longrightarrow> reading d todo [] (e\<lparr>script_rest := cs\<rparr>)"
  "reading d todo [] e \<Longrightarrow> script_rest e = [] \<Longrightarrow> todo = [] \<and> e\<lparr>script_rest := []\<rparr> = e"
  by (auto simp: reading_def)

lemma reading_more:
  assumes "reading d todo cur e" "cur \<noteq> []" "script_rest e = c # cs"
  shows "if c = NL then todo \<noteq> [] \<and> hd todo = cur \<and> reading d (tl todo) [] (e\<lparr>script_rest := cs\<rparr>)
    else reading d todo (cur @ [c]) (e\<lparr>script_rest := cs\<rparr>) \<and> length (cur @ [c]) < DRIVI_BUF \<and> c_str [c] = [c]"
proof (cases "c = NL")
  case True
  then show ?thesis using assms by (auto simp: reading_def)
next
  case False
  then have r: "reading d todo (cur @ [c]) (e\<lparr>script_rest := cs\<rparr>)" "c \<noteq> NUL" using assms by (auto simp: reading_def)
  obtain l ls where "todo = l # ls" "length (cur @ [c]) \<le> length l"
    using split_lines_first[of "cur @ [c]" cs] r(1) by (auto simp: reading_def)
  with r False show ?thesis by (auto simp: reading_def c_str_def)
qed

lemma reading_end: "reading d todo cur e \<Longrightarrow> cur \<noteq> [] \<Longrightarrow> script_rest e = [] \<Longrightarrow> todo = [cur] \<and> reading d [] [] (e\<lparr>script_rest := []\<rparr>)"
  by (auto simp: reading_def)

lemma drivi_read:
  assumes "\<And>r. appends (k r)"
    "\<And>w. script_rest e = [] \<Longrightarrow> under drivi_kernel (e\<lparr>script_rest := []\<rparr>) (k (RData [])) (finishes P S) w"
    "\<And>c cs w. script_rest e = c # cs \<Longrightarrow> under drivi_kernel (e\<lparr>script_rest := cs\<rparr>) (k (RData [c])) (finishes P S) w"
  shows "under drivi_kernel e (or_die (Fd (Read fd 1)) msg k) (finishes P S) w"
  unfolding or_die_def
proof (rule under_call, goal_cases)
  case (1 r)
  show ?case by (intro append_intros assms(1))
next
  case (3 r rs e')
  then have r: "r = RData (take 1 (script_rest e))" "e' = e\<lparr>script_rest := drop 1 (script_rest e)\<rparr>"
    by (auto simp: drivi_kernel_simps split: if_splits)
  show ?case using assms(2,3) r by (cases "script_rest e") (auto simp: rv_def)
qed simp

lemma line_is_read:
  assumes "reading d todo cur e" "cur \<noteq> []"
  shows "under drivi_kernel e (loop (line_byte fd) cur)
    (finishes (\<lambda>line e' w. todo \<noteq> [] \<and> line = hd todo \<and> reading d (tl todo) [] e') (\<lambda>_ _. False)) w"
proof (rule under_repeat[where I = "\<lambda>cur e w. reading d todo cur e \<and> cur \<noteq> []"], goal_cases)
  case (4 cur e w)
  note in_line = reading_more[OF conjunct1[OF 4] conjunct2[OF 4]] and at_end = reading_end[OF conjunct1[OF 4] conjunct2[OF 4]]
  show ?case
    unfolding line_byte_def
  proof (rule drivi_read, goal_cases)
    case (1 r)
    show ?case unfolding Let_def by (auto intro!: append_intros split: list.splits)
  next
    case 2
    then show ?case using at_end by (auto simp: bytes_read_def bytes_def intro!: under_leave)
  next
    case (3 c cs w)
    show ?case
      using in_line[OF 3] by (cases "c = NL") (auto simp: bytes_read_def bytes_def Let_def intro!: under_leave under_again)
  qed
qed (use assms in \<open>auto intro!: append_intros fuel_intros\<close>)

definition collected :: "string \<Rightarrow> string list \<Rightarrow> string vec \<Rightarrow> cstate \<Rightarrow> drivi_env \<Rightarrow> bool" where
  "collected d all v st e \<longleftrightarrow> no_alloc_failure st \<and> (\<exists>todo. elems v @ todo = all \<and> reading d todo [] e)"

lemma script_is_read:
  assumes "collected d all v st e"
  shows "under drivi_kernel e (loop (read_script fd) (v, st)) (finishes (\<lambda>v e' w. elems v = all \<and> to_editor e' = d) (\<lambda>_ _. False)) w"
proof (rule under_repeat[where I = "\<lambda>(v, st) e w. collected d all v st e"], goal_cases)
  case (4 s e w)
  obtain v st where s: "s = (v, st)" by (cases s)
  obtain todo where t: "elems v @ todo = all" "reading d todo [] e" "no_alloc_failure st" using 4 s by (auto simp: collected_def)
  show ?case
    unfolding read_script_def s prod.case
  proof (rule drivi_read, goal_cases)
    case (1 r)
    show ?case by (auto intro!: append_intros split: list.splits)
  next
    case 2
    with reading_start(3)[OF t(2)] t show ?case by (auto simp: bytes_read_def bytes_def reading_def intro!: under_leave)
  next
    case (3 c cs w)
    show ?case
    proof (cases "c = NL")
      case True
      then have "collected d all v st (e\<lparr>script_rest := cs\<rparr>)"
        using reading_start(2)[OF t(2) 3] t(1,3) by (auto simp: collected_def)
      then show ?thesis using True by (auto simp: bytes_read_def bytes_def intro!: under_again)
    next
      case False
      have r: "reading d todo [c] (e\<lparr>script_rest := cs\<rparr>)" "c \<noteq> NUL" using reading_start(1)[OF t(2) 3 False] t(2) 3 by (auto simp: reading_def)
      obtain v' st' where v': "vec_push [] v st = Inr (v', st')" "elems v' = elems v @ [[]]" "no_alloc_failure st'"
        using vec_push_ok[OF t(3), of "[]" v] by auto
      have "collected d all (v'\<lparr>elems := (elems v')[length (elems v) := hd todo]\<rparr>) st' e'"
        if "todo \<noteq> []" "reading d (tl todo) [] e'" for e'
        using that t(1) v' by (cases todo) (auto simp: collected_def)
      then show ?thesis
        using False r(2) v'(1)
        by (auto simp: bytes_read_def bytes_def checked_def c_str_def intro!: append_intros under_again under_then[OF line_is_read[OF r(1)]])
    qed
  qed
qed (use assms in \<open>auto intro!: append_intros fuel_intros\<close>)

lemma drivi_script_sends:
  assumes "list_all two_words (elems v)"
  shows "under drivi_kernel e (drivi_script m v)
    (finishes (\<lambda>_ _ _. False) (\<lambda>e' w. to_editor e' = to_editor e @ concat (map ex_command (elems v)) @ ''w'' @ [NL] @ ''q!'' @ [NL])) w"
proof -
  let ?I = "\<lambda>ls (todo :: string list) e' (w :: world). to_editor e' = to_editor e @ concat (map ex_command ls)"
  have lines: "under drivi_kernel e (each (drivi_line m) (elems v)) (finishes (\<lambda>_ e' w. ?I (elems v) [] e' w) (\<lambda>_ _. False)) w" for w
  proof (rule under_each, goal_cases)
    case (3 x ys zs e' w)
    then have "two_words x" using assms by simp
    from drivi_line_sends[OF this] show ?case by (rule under_weaken) (use 3 in auto)
  qed (auto intro!: append_intros)
  show ?thesis
    unfolding drivi_script_def drivi_quit_def write_or_die_def
    by (auto simp: drivi_kernel_simps or_die_def NL_def intro!: under_printf under_then[OF lines] under_event under_call under_errExit under_exit append_intros)
qed

text \<open>C29: A script whose lines have two words is translated line by line. When \<open>drivi\<close> exits with success, the editor has been
  sent the command of each line, in order, and then those to save and to quit; no such script makes the program fault. (The
  commands for \<open>last\<close> and \<open>first\<close> have no newline: the next command is on the same line of the editor.)
\<close>

theorem drivi_translates_script:
  assumes "no_alloc_failure st" "NUL \<notin> set (script_rest e)" "list_all two_words (script_lines (script_rest e))"
    "drivi_parent name st m w = (r, w')" "trace w' = trace w @ t" "run drivi_kernel e t = Some e'"
  shows "case r of Exited n \<Rightarrow> (if n = EXIT_SUCCESS then to_editor e' = to_editor e
         @ concat (map ex_command (script_lines (script_rest e))) @ ''w'' @ [NL] @ ''q!'' @ [NL] else True)
    | Return u \<Rightarrow> False | Fault f \<Rightarrow> False | No_fuel \<Rightarrow> False | _ \<Rightarrow> True"
proof -
  let ?all = "script_lines (script_rest e)"
  have "list_all (\<lambda>l. length l < DRIVI_BUF) ?all" using assms(3) by (auto simp: list_all_iff two_words_def)
  then have "collected (to_editor e) ?all vec_init st e"
    using assms(1,2) by (simp add: collected_def reading_def script_lines_def)
  note script = script_is_read[OF this]
  have s: "appends (drivi_script m v)" for v unfolding drivi_script_def by (intro append_intros)
  have "under drivi_kernel e (drivi_parent name st m) (finishes (\<lambda>_ _ _. False)
      (\<lambda>e' w. to_editor e' = to_editor e @ concat (map ex_command ?all) @ ''w'' @ [NL] @ ''q!'' @ [NL])) w"
    unfolding drivi_parent_def or_die_def
  proof (rule under_call, goal_cases)
    case (3 r rs e1)
    have ex: "under drivi_kernel e2 (drivi_script m v) (finishes (\<lambda>_ _ _. False)
      (\<lambda>e' w. to_editor e' = to_editor e @ concat (map ex_command ?all) @ ''w'' @ [NL] @ ''q!'' @ [NL])) w1"
      if "elems v = ?all" "to_editor e2 = to_editor e" for v e2 w1
      using drivi_script_sends[of v e2 m w1] that assms(3) by simp
    from 3 have "e1 = e" by (simp add: drivi_kernel_simps)
    then show ?case
      by (auto intro!: under_errExit under_then[OF script] ex[simplified] s)
  qed (auto intro!: append_intros s)
  from under_run[OF this assms(4-6)] show ?thesis by (auto simp: finishes_def split: result.splits)
qed

definition demo_drivi :: "unit result \<times> world" where
  "demo_drivi = drivi_parent ''s'' \<lparr>allocs = [], cerrno = 0\<rparr> 4 (booted ([RVal 7] @ map (\<lambda>c. RData [c]) (''edit f'' @ [NL] @ ''last x'') @
     [RData [], RData [], RVal 8, RVal 4, RVal 1, RVal 2, RVal 3, RVal 5, RVal 0, RInts [4, 16]]))"

lemma demo_drivi_runs:
  "fst demo_drivi = Exited EXIT_SUCCESS"
  "map_option to_editor (run drivi_kernel \<lparr>script_rest = ''edit f'' @ [NL] @ ''last x'', to_editor = []\<rparr> (trace (snd demo_drivi)))
    = Some (''e f'' @ [NL] @ ''$w'' @ [NL] @ ''q!'' @ [NL])"
  "list_all two_words (script_lines (''edit f'' @ [NL] @ ''last x''))"
  by code_simp+

lemma drivi_translates_script_witness:
  "map_option to_editor (run drivi_kernel \<lparr>script_rest = ''edit f'' @ [NL] @ ''last x'', to_editor = []\<rparr> (trace (snd demo_drivi)))
    = Some (concat (map ex_command (script_lines (''edit f'' @ [NL] @ ''last x''))) @ ''w'' @ [NL] @ ''q!'' @ [NL])"
proof -
  let ?e = "\<lparr>script_rest = ''edit f'' @ [NL] @ ''last x'', to_editor = []\<rparr>"
  obtain e' where e': "run drivi_kernel ?e (trace (snd demo_drivi)) = Some e'" using demo_drivi_runs(2) by auto
  have r: "drivi_parent ''s'' \<lparr>allocs = [], cerrno = 0\<rparr> 4 (booted ([RVal 7] @ map (\<lambda>c. RData [c]) (''edit f'' @ [NL] @ ''last x'') @
     [RData [], RData [], RVal 8, RVal 4, RVal 1, RVal 2, RVal 3, RVal 5, RVal 0, RInts [4, 16]])) = (Exited EXIT_SUCCESS, snd demo_drivi)"
    using demo_drivi_runs(1) by (simp add: demo_drivi_def prod_eq_iff)
  have t: "u = trace (booted rs) @ u" for u rs by simp
  have m: "no_alloc_failure \<lparr>allocs = [], cerrno = 0\<rparr>" by (simp add: no_alloc_failure_def)
  have "NUL \<notin> set (script_rest ?e)" by (simp add: NUL_def NL_def)
  from drivi_translates_script[OF m this _ r t e'] demo_drivi_runs(3) e' show ?thesis by simp
qed

lemma ends_drivi: "shrinks (drivi argv st)"
proof -
  have p: "shrinks (ptyFork sn t z)" for sn t z
    unfolding ptyFork_def ptyMasterOpen_def pty_fail_def pty_child_def or_err_exit_def Let_def
    by (auto intro!: fuel_intros split: prod.splits option.splits)
  have c: "shrinks k \<Longrightarrow> shrinks (send_cmd m cmd k)" for m cmd and k :: "unit prog"
    unfolding send_cmd_def by (intro fuel_intros; simp)
  have l: "shrinks (drivi_line m line)" for m line
    unfolding drivi_line_def interpret_tokens_def sent_line_def Let_def case_prod_beta
    by (auto intro!: fuel_intros c split: option.splits prod.splits)
  have s: "shrinks (drivi_script m v)" for m v
    unfolding drivi_script_def drivi_quit_def write_or_die_def by (intro fuel_intros l)
  show ?thesis
    unfolding drivi_def drivi_parent_def case_prod_beta
    by (auto intro!: fuel_intros p s split: option.splits)
qed

end
