(* ===== verification/Echo.thy ===== *)
theory Echo
  imports Conform Sockets Daemon Termination
begin

text \<open>
  Echo services: \<open>60_Sockets_Server_Design/inetd_echo_sv.c\<close> is a daemon with a child for each connection and at most three
  children, \<open>is_echo_cl.c\<close> its client with two processes, \<open>63_Alternate_IO_Models/echo_sv.c\<close> serves a stream and a datagram
  socket from one loop. \<open>syslog\<close> is a call without effect on the program.
\<close>

section \<open>A daemon\<close>

definition ECHO_BUF :: nat where "ECHO_BUF = 4096"

definition echo_round :: "int \<Rightarrow> unit \<Rightarrow> (unit + unit) prog" where
  "echo_round cfd u = call (Fd (Read cfd ECHO_BUF)) (\<lambda>r.
     if 0 < rv r then call (Fd (Write cfd (bytes_read ECHO_BUF r))) (\<lambda>n.
       if rv n \<noteq> rv r then event (Lib ''syslog'' [3]) (exit_prog EXIT_FAILURE) else again ())
     else if rv r = -1 then event (Lib ''syslog'' [3]) (exit_prog EXIT_FAILURE) else leave ())"

definition handleRequest :: "int \<Rightarrow> unit prog" where
  "handleRequest cfd = seq (loop (echo_round cfd) ()) (\<lambda>_. call (Proc (Sleep 10)) (\<lambda>_. ret ()))"

definition reap_child :: "int \<Rightarrow> (int + int) prog" where
  "reap_child child_count = call (Proc (Waitpid (-1) ''WNOHANG'')) (\<lambda>r.
     if 0 < rv r then again (if 0 < child_count then child_count - 1 else child_count) else leave child_count)"

definition echo_accept :: "int \<Rightarrow> int \<Rightarrow> (int + unit) prog" where
  \<comment> \<open>a round of the main loop; the flag of the handler is read like a reply\<close>
  "echo_accept lfd child_count = lib ''sigchild_caught'' [] (\<lambda>caught.
     seq (if rv caught \<noteq> 0 then loop reap_child child_count else ret child_count) (\<lambda>child_count.
     call (Sock (Accept lfd)) (\<lambda>c.
       if rv c = -1 then get errno (\<lambda>e. event (Lib ''syslog'' [if e = EINTR then 6 else 3])
         (if e = EINTR then again child_count else exit_prog EXIT_FAILURE))
       else if child_count \<le> 2 then call (Proc Fork) (\<lambda>p.
         if rv p = -1 then event (Lib ''syslog'' [3]) (call (Fd (Close (rv c))) (\<lambda>_. again child_count))
         else if rv p = 0 then call (Fd (Close lfd)) (\<lambda>_. seq (handleRequest (rv c)) (\<lambda>_. uexit_prog EXIT_SUCCESS))
         else call (Fd (Close (rv c))) (\<lambda>_. again (child_count + 1)))
       else event (Lib ''syslog'' [4]) (again child_count))))"

definition inetd_echo_sv :: "string list \<Rightarrow> unit prog" where
  \<comment> \<open>with \<open>-i\<close> the program serves the standard input first, and goes on\<close>
  "inetd_echo_sv argv = seq (if length argv = 2 \<and> argv ! 1 = ''-i'' then handleRequest 0 else ret ()) (\<lambda>_.
     seq (becomeDaemon 0) (\<lambda>d. if d = -1 then errExit ''becomeDaemon''
       else call (Proc (Sigaction ''SIGCHLD'' ''grimReaper'')) (\<lambda>s.
         if rv s = -1 then event (Lib ''syslog'' [3]) (exit_prog EXIT_FAILURE)
         else seq (inetListen ''echo'' 10) (\<lambda>(lfd, addr).
           if lfd = -1 then event (Lib ''syslog'' [3]) (exit_prog EXIT_FAILURE) else loop (echo_accept lfd) 0))))"

section \<open>Its client\<close>

definition CL_BUF :: nat where "CL_BUF = 100"

definition cl_read_round :: "int \<Rightarrow> unit \<Rightarrow> (unit + unit) prog" where
  "cl_read_round sfd u = call (Fd (Read sfd CL_BUF)) (\<lambda>r.
     if rv r \<le> 0 then leave () else printf (c_str (bytes_read CL_BUF r)) (again ()))"

definition cl_write_round :: "int \<Rightarrow> unit \<Rightarrow> (unit + unit) prog" where
  "cl_write_round sfd u = call (Fd (Read 0 CL_BUF)) (\<lambda>r.
     if rv r \<le> 0 then leave () else call (Fd (Write sfd (bytes_read CL_BUF r))) (\<lambda>n.
       if rv n \<noteq> rv r then fatal ''write() failed'' else again ()))"

definition is_echo_cl :: "string list \<Rightarrow> unit prog" where
  "is_echo_cl argv = (if length argv \<noteq> 2 \<or> argv ! 1 = ''--help'' then usageErr (hd argv @ '' host'' @ [NL])
     else seq (inetConnect (Some (argv ! 1)) ''echo'' SOCK_STREAM) (\<lambda>sfd.
       if sfd = -1 then errExit ''inetConnect''
       else or_die (Proc Fork) ''fork'' (\<lambda>p.
         if rv p = 0 then seq (loop (cl_read_round sfd) ()) (\<lambda>_. exit_prog EXIT_SUCCESS)
         else seq (loop (cl_write_round sfd) ()) (\<lambda>_.
           or_die (Sock (Shutdown sfd ''SHUT_WR'')) ''shutdown'' (\<lambda>_. exit_prog EXIT_SUCCESS)))))"

section \<open>One loop for two sockets\<close>

definition MAX_EVENTS :: nat where "MAX_EVENTS = 2"
definition ECHO_BUF_SIZE :: nat where "ECHO_BUF_SIZE = 100"

record echo_state =
  echo_buf :: string                      \<comment> \<open>the global buffer\<close>
  events :: "(int \<times> bool) option list"     \<comment> \<open>descriptor and whether it is readable; \<open>None\<close> is not initialised\<close>

definition store_events :: "reply \<Rightarrow> (int \<times> bool) option list \<Rightarrow> (int \<times> bool) option list" where
  "store_events r old = (let new = map (\<lambda>fd. Some (fd, True)) (take MAX_EVENTS (case r of RInts ns \<Rightarrow> ns | _ \<Rightarrow> []))
     in new @ drop (length new) old)"

definition show_received :: "string \<Rightarrow> 'a prog \<Rightarrow> 'a prog" where
  "show_received data k = checked (string_at data 0) (\<lambda>s. printf (''Received: '' @ s @ [NL]) k)"

definition echo_dgram :: "int \<Rightarrow> string \<Rightarrow> string prog" where
  \<comment> \<open>\<open>sendto\<close> writes to the socket\<close>
  "echo_dgram dgram_sock data = or_die (Lib ''recvfrom'' [dgram_sock, 100]) ''recvfrom'' (\<lambda>r.
     let data' = store_bytes 100 r data in show_received data'
       (call (Fd (Write dgram_sock (take (nat (rv r)) data'))) (\<lambda>n.
         (if rv n \<noteq> rv r then fprintf_stderr (''Failed/Partial write with sendto()'' @ [NL]) else (\<lambda>k. k)) (ret data'))))"

definition echo_stream :: "int \<Rightarrow> string \<Rightarrow> string prog" where
  "echo_stream stream_sock data = or_die (Sock (Accept stream_sock)) ''accept'' (\<lambda>c.
     or_die (Fd (Read (rv c) 100)) ''num_read'' (\<lambda>r.
       let data' = store_bytes 100 r data in show_received data'
         (call (Fd (Write (rv c) (take (nat (rv r)) data'))) (\<lambda>n.
           (if rv n \<noteq> rv r then fprintf_stderr (''Failed/Partial write with write()'' @ [NL]) else (\<lambda>k. k))
             (call (Fd (Close (rv c))) (\<lambda>_. ret data'))))))"

definition echo_event :: "int \<Rightarrow> int \<Rightarrow> (int \<times> bool) option \<Rightarrow> string \<Rightarrow> string prog" where
  "echo_event dgram_sock stream_sock ev data = (case ev of
       None \<Rightarrow> stop (Fault Uninitialised)
     | Some (fd, readable) \<Rightarrow> if \<not> readable then ret data
         else if fd = dgram_sock then echo_dgram dgram_sock data
         else if fd = stream_sock then echo_stream stream_sock data else ret data)"

primrec echo_events :: "int \<Rightarrow> int \<Rightarrow> (int \<times> bool) option list \<Rightarrow> string \<Rightarrow> string prog" where
  "echo_events dgram_sock stream_sock [] data = ret data"
| "echo_events dgram_sock stream_sock (ev # evs) data = seq (echo_event dgram_sock stream_sock ev data) (echo_events dgram_sock stream_sock evs)"

definition echo_ready :: "int \<Rightarrow> int \<Rightarrow> int \<Rightarrow> echo_state \<Rightarrow> (echo_state + unit) prog" where
  \<comment> \<open>all entries of the array are looked at, however many are ready\<close>
  "echo_ready epfd dgram_sock stream_sock s = or_die (Lib ''epoll_wait'' [int MAX_EVENTS, -1]) ''epoll_wait'' (\<lambda>ready.
     let evs = store_events ready (events s) in
     seq (echo_events dgram_sock stream_sock (take MAX_EVENTS evs) (echo_buf s)) (\<lambda>data. again \<lparr>echo_buf = data, events = evs\<rparr>))"

definition echo_sv :: "unit prog" where
  "echo_sv = or_die (Sock (Socket 2 2 0)) ''socket'' (\<lambda>dgram. or_die (Sock (Bind (rv dgram) ''svaddr'')) ''bind'' (\<lambda>_.
     or_die (Sock (Socket 2 1 0)) ''socket'' (\<lambda>stream. or_die (Sock (Bind (rv stream) ''svaddr'')) ''bind'' (\<lambda>_.
     or_die (Sock (Listen (rv stream) 5)) ''listen'' (\<lambda>_.
     or_die (Lib ''epoll_create'' [2]) ''epoll_create'' (\<lambda>ep.
     or_die (Lib ''epoll_ctl'' [rv ep, rv dgram]) ''epoll_ctl'' (\<lambda>_. or_die (Lib ''epoll_ctl'' [rv ep, rv stream]) ''epoll_ctl'' (\<lambda>_.
       loop (echo_ready (rv ep) (rv dgram) (rv stream)) \<lparr>echo_buf = replicate ECHO_BUF_SIZE NUL, events = replicate MAX_EVENTS None\<rparr>))))))))"

text \<open>The array is read beyond what is ready: the first event that is alone makes the server use an entry that was never written.\<close>

lemma echo_sv_uninitialised:
  "fst (echo_sv (booted [RVal 3, RVal 0, RVal 4, RVal 0, RVal 0, RVal 5, RVal 0, RVal 0, RInts [3], RData ''hi'', RVal 2])) = Fault Uninitialised"
  by code_simp

section \<open>What the daemon does\<close>

record echo_env =
  children :: nat             \<comment> \<open>that were not waited for\<close>
  got :: string
  wrote :: string

definition echo_kernel :: "echo_env \<Rightarrow> syscall \<Rightarrow> reply \<Rightarrow> echo_env option" where
  "echo_kernel e c r = (case c of
      Proc Fork \<Rightarrow> if rv r < -1 then None else Some (if 0 < rv r then e\<lparr>children := children e + 1\<rparr> else e)
    | Proc (Waitpid p f) \<Rightarrow> if 0 < rv r then (if 0 < children e then Some (e\<lparr>children := children e - 1\<rparr>) else None) else Some e
    | Fd (Read f n) \<Rightarrow> (case r of RData s \<Rightarrow> if length s \<le> n then Some (e\<lparr>got := got e @ s\<rparr>) else None | RErr x \<Rightarrow> Some e | _ \<Rightarrow> None)
    | Fd (Write f d) \<Rightarrow> Some (if rv r = int (length d) then e\<lparr>wrote := wrote e @ d\<rparr> else e)
    | _ \<Rightarrow> Some e)"

lemma echo_kernel_simps:
  "echo_kernel e (Proc Fork) r = (if rv r < -1 then None else Some (if 0 < rv r then e\<lparr>children := children e + 1\<rparr> else e))"
  "echo_kernel e (Proc (Waitpid p q)) r = (if 0 < rv r then (if 0 < children e then Some (e\<lparr>children := children e - 1\<rparr>) else None) else Some e)"
  "echo_kernel e (Fd (Read f n)) r = (case r of RData s \<Rightarrow> if length s \<le> n then Some (e\<lparr>got := got e @ s\<rparr>) else None | RErr x \<Rightarrow> Some e | _ \<Rightarrow> None)"
  "echo_kernel e (Fd (Write f d)) r = Some (if rv r = int (length d) then e\<lparr>wrote := wrote e @ d\<rparr> else e)"
  "echo_kernel e (Fd (Close f)) r = Some e" "echo_kernel e (Sock x) r = Some e" "echo_kernel e (Lib g as) r = Some e"
  "echo_kernel e (Proc (Sleep k)) r = Some e"
  by (simp_all add: echo_kernel_def)

definition echoes :: "echo_env \<Rightarrow> bool" where
  "echoes e \<longleftrightarrow> wrote e = got e \<and> children e \<le> 3"

lemma appends_echo [append_intros]: "appends (echo_round cfd u)" "appends (handleRequest cfd)" "appends (reap_child n)" "appends (echo_accept lfd n)"
proof -
  show e: "appends (echo_round cfd u)" for cfd u unfolding echo_round_def by (intro append_intros)
  show h: "appends (handleRequest cfd)" for cfd unfolding handleRequest_def by (intro append_intros e)
  show r: "appends (reap_child n)" for n unfolding reap_child_def by (intro append_intros)
  show "appends (echo_accept lfd n)" unfolding echo_accept_def by (intro append_intros h r)
qed

lemma rounds_echo [fuel_intros]: "rounds (echo_round cfd u)" "rounds (reap_child n)" "shrinks (handleRequest cfd)" "rounds (echo_accept lfd n)"
proof -
  show e: "rounds (echo_round cfd u)" for cfd u unfolding echo_round_def by (intro fuel_intros)
  show r: "rounds (reap_child n)" for n unfolding reap_child_def by (intro fuel_intros)
  show h: "shrinks (handleRequest cfd)" for cfd unfolding handleRequest_def by (intro fuel_intros e)
  show "rounds (echo_accept lfd n)" unfolding echo_accept_def by (intro fuel_intros h r)
qed

definition served :: "('a \<Rightarrow> echo_env \<Rightarrow> bool) \<Rightarrow> 'a result \<Rightarrow> echo_env \<Rightarrow> world \<Rightarrow> bool" where
  \<comment> \<open>never more than three children; a child that ends well has written what it read\<close>
  "served P r e w \<longleftrightarrow> children e \<le> 3 \<and> (case r of Return x \<Rightarrow> P x e | Exited n \<Rightarrow> n = EXIT_FAILURE
     | UExited n \<Rightarrow> wrote e = got e | Fault f \<Rightarrow> False | No_fuel \<Rightarrow> False | _ \<Rightarrow> True)"

lemma echo_served_simps [simp]: "served P (Return x) e w \<longleftrightarrow> children e \<le> 3 \<and> P x e" "served P Blocked e w \<longleftrightarrow> children e \<le> 3"
  "served P (Exited n) e w \<longleftrightarrow> children e \<le> 3 \<and> n = EXIT_FAILURE" "served P (UExited n) e w \<longleftrightarrow> children e \<le> 3 \<and> wrote e = got e"
  "\<not> served P (Fault f) e w" "\<not> served P No_fuel e w" "served P Aborted e w \<longleftrightarrow> children e \<le> 3"
  by (simp_all add: served_def)

lemma served_then:
  assumes "under K e p (served P') w" "\<And>x e' w'. children e' \<le> 3 \<Longrightarrow> P' x e' \<Longrightarrow> under K e' (k x) (served P) w'" "\<And>x. appends (k x)"
  shows "under K e (seq p k) (served P) w"
proof (rule under_seq[OF _ assms(3)], rule under_mono[OF assms(1)], goal_cases)
  case (1 r e' w')
  then show ?case using assms(2) by (cases r) auto
qed

lemma served_repeat:
  assumes "I s e" "\<And>s. appends (body s)" "\<And>s. rounds (body s)"
    "\<And>s e w. I s e \<Longrightarrow> under K e (body s) (served (\<lambda>x e'. case x of Inl s' \<Rightarrow> I s' e' | Inr a \<Rightarrow> P a e')) w"
  shows "under K e (loop body s) (served P) w"
proof (rule under_loop[where I = "\<lambda>s e w. I s e", OF assms(1,2,3)], goal_cases)
  case (1 s e w)
  show ?case by (rule under_mono[OF assms(4)[OF 1]]) (auto simp: served_def split: result.splits sum.splits)
qed

lemma requests_are_echoed:
  assumes "echoes e"
  shows "under echo_kernel e (handleRequest cfd) (served (\<lambda>_. echoes)) w"
  unfolding handleRequest_def
proof (rule served_then[where P' = "\<lambda>_. echoes"], rule served_repeat[where I = "\<lambda>_. echoes"], goal_cases)
  case (4 s e w)
  then have c: "children e \<le> 3" by (simp add: echoes_def)
  show ?case
    unfolding echo_round_def
  proof (rule under_call, goal_cases)
    case (3 r rs e')
    show ?case
    proof (cases r)
      case (RData d)
      with 3(2) have d: "length d \<le> ECHO_BUF" "e' = e\<lparr>got := got e @ d\<rparr>" by (auto simp: echo_kernel_simps split: if_splits)
      show ?thesis
        using 4 RData d
        by (auto simp: rv_def bytes_read_def bytes_def echo_kernel_simps echoes_def
            intro!: under_call under_event under_again under_leave under_exit append_intros)
    next
      case (RErr x)
      with 3(2) c show ?thesis
        by (auto simp: rv_def echo_kernel_simps intro!: under_event under_exit append_intros)
    qed (use 3(2) in \<open>auto simp: echo_kernel_simps\<close>)
  qed (use c in \<open>auto intro!: append_intros\<close>)
qed (use assms in \<open>auto simp: echo_kernel_simps intro!: append_intros fuel_intros under_call under_ret\<close>)

definition counted :: "int \<Rightarrow> echo_env \<Rightarrow> bool" where
  "counted n e \<longleftrightarrow> int (children e) = n \<and> echoes e"

lemma children_are_reaped:
  assumes "counted n e"
  shows "under echo_kernel e (loop reap_child n) (served counted) w"
proof (rule served_repeat[where I = counted], goal_cases)
  case (4 n e w)
  then show ?case
    unfolding reap_child_def
    by (auto simp: echo_kernel_simps counted_def echoes_def intro!: under_call under_again under_leave append_intros split: if_splits)
qed (use assms in \<open>auto intro!: append_intros fuel_intros\<close>)

lemma echo_accept_counts:
  assumes "counted n e"
  shows "under echo_kernel e (echo_accept lfd n) (served (\<lambda>x e'. case x of Inl m \<Rightarrow> counted m e' | Inr u \<Rightarrow> False)) w"
proof -
  have accept: "under echo_kernel e (call (Sock (Accept lfd)) (\<lambda>c.
       if rv c = -1 then get errno (\<lambda>e. event (Lib ''syslog'' [if e = EINTR then 6 else 3])
         (if e = EINTR then again n else exit_prog EXIT_FAILURE))
       else if n \<le> 2 then call (Proc Fork) (\<lambda>p.
         if rv p = -1 then event (Lib ''syslog'' [3]) (call (Fd (Close (rv c))) (\<lambda>_. again n))
         else if rv p = 0 then call (Fd (Close lfd)) (\<lambda>_. seq (handleRequest (rv c)) (\<lambda>_. uexit_prog EXIT_SUCCESS))
         else call (Fd (Close (rv c))) (\<lambda>_. again (n + 1)))
       else event (Lib ''syslog'' [4]) (again n)))
      (served (\<lambda>x e'. case x of Inl m \<Rightarrow> counted m e' | Inr (u :: unit) \<Rightarrow> False)) w" if "counted n e" for n e w
    using that
    by (auto simp: echo_kernel_simps counted_def echoes_def
      intro!: under_call under_get under_event under_again under_exit under_uexit append_intros served_then[OF requests_are_echoed] split: if_splits)
  have b: "children e \<le> 3" using assms by (simp add: counted_def echoes_def)
  show ?thesis
    unfolding echo_accept_def lib_def using assms b
    by (auto simp: echo_kernel_simps intro!: under_call append_intros accept under_ret children_are_reaped served_then[where P' = counted])
qed

text \<open>C30: The daemon. However many clients connect and children end, it never has more than three children that it has not
  waited for, and a child that ends well has written to its client exactly what it has read, in order; neither faults.
\<close>

theorem echo_daemon_bounded:
  assumes "children e = 0" "got e = []" "wrote e = []"
    "loop (echo_accept lfd) 0 w = (r, w')" "trace w' = trace w @ t" "run echo_kernel e t = Some e'"
  shows "children e' \<le> 3 \<and> (case r of UExited n \<Rightarrow> wrote e' = got e' | Exited n \<Rightarrow> n = EXIT_FAILURE
    | Return (u :: unit) \<Rightarrow> False | Fault f \<Rightarrow> False | No_fuel \<Rightarrow> False | _ \<Rightarrow> True)"
proof -
  have "under echo_kernel e (loop (echo_accept lfd) 0) (served (\<lambda>u _. False)) w"
  proof (rule served_repeat[where I = counted], goal_cases)
    case (4 n e w)
    from echo_accept_counts[OF 4] show ?case
      by (rule under_mono) (auto simp: served_def split: result.splits sum.splits)
  qed (use assms(1-3) in \<open>auto simp: counted_def echoes_def intro!: append_intros fuel_intros\<close>)
  from under_run[OF this assms(4-6)] show ?thesis by (simp add: served_def split: result.splits)
qed

definition demo_echo :: "unit result \<times> world" where
  "demo_echo = loop (echo_accept 3) 0 (booted [RVal 0, RVal 4, RVal 77, RVal 0, RVal 1, RVal 77, RVal 0, RVal 5,
     RVal 0, RVal 0, RData ''hi'', RVal 2, RData [], RVal 0])"

lemma demo_echo_runs:
  "fst demo_echo = UExited EXIT_SUCCESS"
  "map_option (\<lambda>e. (children e, wrote e)) (run echo_kernel \<lparr>children = 0, got = [], wrote = []\<rparr> (trace (snd demo_echo))) = Some (0, ''hi'')"
  by code_simp+

lemma echo_daemon_bounded_witness:
  "map_option (\<lambda>e. (children e \<le> 3, wrote e = got e)) (run echo_kernel \<lparr>children = 0, got = [], wrote = []\<rparr> (trace (snd demo_echo)))
     = Some (True, True)"
proof -
  let ?e = "\<lparr>children = 0, got = [], wrote = []\<rparr>"
  obtain e' where e': "run echo_kernel ?e (trace (snd demo_echo)) = Some e'" using demo_echo_runs(2) by auto
  have r: "loop (echo_accept 3) 0 (booted [RVal 0, RVal 4, RVal 77, RVal 0, RVal 1, RVal 77, RVal 0, RVal 5,
     RVal 0, RVal 0, RData ''hi'', RVal 2, RData [], RVal 0]) = (UExited EXIT_SUCCESS, snd demo_echo)"
    using demo_echo_runs(1) by (simp add: demo_echo_def prod_eq_iff)
  have t: "u = trace (booted rs) @ u" for u rs by simp
  from echo_daemon_bounded[OF _ _ _ r t e'] e' show ?thesis by simp
qed

lemma ends_echo: "shrinks (inetd_echo_sv argv)" "shrinks (is_echo_cl argv)" "shrinks echo_sv"
proof -
  show "shrinks (inetd_echo_sv argv)"
    unfolding inetd_echo_sv_def case_prod_beta by (intro fuel_intros ends_daemon)
  show "shrinks (is_echo_cl argv)"
    unfolding is_echo_cl_def cl_read_round_def cl_write_round_def by (intro fuel_intros)
  have e: "shrinks (echo_event d s ev data)" for d s ev data
    unfolding echo_event_def echo_dgram_def echo_stream_def show_received_def Let_def case_prod_beta
    by (intro fuel_intros; simp)
  have es: "shrinks (echo_events d s evs data)" for d s evs data
    by (induction evs arbitrary: data) (auto intro!: fuel_intros e)
  show "shrinks echo_sv"
    unfolding echo_sv_def echo_ready_def Let_def by (intro fuel_intros es)
qed

end
