(* ===== verification/Signals.thy ===== *)
theory Signals
  imports Conform
begin

text \<open>
  Signal functions written with others: \<open>abort\<close> (\<open>21_Signals_Signal_Handlers/imp_abort.c\<close>), \<open>siginterrupt\<close>
  (\<open>imp_siginterrupt.c\<close>) and the functions of System V (\<open>22_Signals_Advanced_Features/system_v_funcs.c\<close>). An action is a handler,
  flags and a mask; a handler is known by its address, the special ones by their numbers.
\<close>

unbundle bit_operations_syntax

section \<open>The functions\<close>

definition SIG_DFL :: int where "SIG_DFL = 0"
definition SIG_IGN :: int where "SIG_IGN = 1"
definition SIG_HOLD :: int where "SIG_HOLD = 2"
definition SIG_ERR :: int where "SIG_ERR = -1"
definition SIGABRT :: int where "SIGABRT = 6"
definition SA_RESTART :: int where "SA_RESTART = 0x10000000"

lemmas sig_consts = SIG_DFL_def SIG_IGN_def SIG_HOLD_def SIG_ERR_def SIGABRT_def

definition sig_old :: "int \<Rightarrow> (reply \<Rightarrow> 'a prog) \<Rightarrow> 'a prog" where
  \<comment> \<open>\<open>sigaction(sig, NULL, &old)\<close>\<close>
  "sig_old sig k = lib ''sigaction'' [sig] k"

definition sig_new :: "int \<Rightarrow> int list \<Rightarrow> (reply \<Rightarrow> 'a prog) \<Rightarrow> 'a prog" where
  \<comment> \<open>\<open>sigaction(sig, &new, &old)\<close>\<close>
  "sig_new sig new k = lib ''sigaction'' (sig # new) k"

definition procmask :: "string \<Rightarrow> int list \<Rightarrow> (reply \<Rightarrow> 'a prog) \<Rightarrow> 'a prog" where
  "procmask how sigs k = call (Proc (Sigprocmask how sigs)) k"

definition action_of :: "reply \<Rightarrow> int list" where
  \<comment> \<open>handler, flags, mask\<close>
  "action_of r = (case r of RInts ns \<Rightarrow> ns | _ \<Rightarrow> [])"

definition raise_sig :: "int \<Rightarrow> 'a prog \<Rightarrow> 'a prog" where
  "raise_sig sig k = lib ''raise'' [sig] (\<lambda>_. k)"

definition imp_abort :: "unit prog" where
  "imp_abort = procmask ''SIG_UNBLOCK'' [SIGABRT] (\<lambda>m. if rv m = -1 then errExit ''sigprocmask''
     else sig_old SIGABRT (\<lambda>old. if rv old = -1 then errExit ''sigaction''
       else let again_default = raise_sig SIGABRT (sig_new SIGABRT [SIG_DFL, 0, 0] (\<lambda>s. if rv s = -1 then errExit ''sigaction''
              else raise_sig SIGABRT (uexit_prog EXIT_FAILURE)))
         in if field (action_of old) 0 = SIG_IGN then sig_new SIGABRT [SIG_DFL, 0, 0] (\<lambda>s. if rv s = -1 then errExit ''sigaction'' else again_default)
            else again_default))"

definition imp_siginterrupt :: "int \<Rightarrow> int \<Rightarrow> int prog" where
  "imp_siginterrupt sig flag = sig_old sig (\<lambda>old. if rv old = -1 then ret (-1)
     else let a = action_of old; sa_flags = (if flag \<noteq> 0 then field a 1 OR SA_RESTART else field a 1 AND NOT SA_RESTART)
       in sig_new sig [field a 0, sa_flags, field a 2] (\<lambda>s. if rv s = -1 then ret (-1) else ret 0))"

definition imp_sigset :: "int \<Rightarrow> int \<Rightarrow> int prog" where
  "imp_sigset sig disp = (let how = (if disp = SIG_HOLD then ''SIG_BLOCK'' else ''SIG_UNBLOCK'') in
     procmask how [sig] (\<lambda>m. if rv m = -1 then ret SIG_ERR
       else if how = ''SIG_BLOCK'' then ret SIG_HOLD
       else sig_new sig [disp, SA_RESTART, 0] (\<lambda>old. if rv old = -1 then ret SIG_ERR else ret (field (action_of old) 0))))"

definition imp_sighold :: "int \<Rightarrow> int prog" where
  "imp_sighold sig = procmask ''SIG_BLOCK'' [sig] (\<lambda>m. if rv m = -1 then ret (-1) else ret 0)"

definition imp_sigrelse :: "int \<Rightarrow> int prog" where
  "imp_sigrelse sig = procmask ''SIG_UNBLOCK'' [sig] (\<lambda>m. if rv m = -1 then ret (-1) else ret 0)"

definition imp_sigignore :: "int \<Rightarrow> int prog" where
  "imp_sigignore sig = sig_new sig [SIG_IGN, 0, 0] (\<lambda>s. if rv s = -1 then ret (-1) else ret 0)"

definition imp_sigpause :: "int \<Rightarrow> int prog" where
  "imp_sigpause sig = procmask ''SIG_BLOCK'' [] (\<lambda>m. if rv m = -1 then ret (-1)
     else lib ''sigsuspend'' (filter (\<lambda>s. s \<noteq> sig) (action_of m)) (\<lambda>s. ret (rv s)))"

section \<open>Signals of a process\<close>

record sig_env =
  actions :: "int \<Rightarrow> int list"                \<comment> \<open>handler, flags, mask of each signal\<close>
  blocked :: "int set"
  waited :: "int set list"                   \<comment> \<open>what was blocked while the process was suspended\<close>

definition sig_kernel :: "sig_env \<Rightarrow> syscall \<Rightarrow> reply \<Rightarrow> sig_env option" where
  \<comment> \<open>a signal whose default is to end the process is not answered when it is raised; handlers do not change the actions\<close>
  "sig_kernel e c r = (case c of
      Lib f as \<Rightarrow>
        if f = ''sigaction'' then (if rv r = -1 then Some e else if r \<noteq> RInts (actions e (hd as)) then None
          else Some (if tl as = [] then e else e\<lparr>actions := (actions e)(hd as := tl as)\<rparr>))
        else if f = ''raise'' then (if hd (actions e (hd as)) = SIG_DFL \<and> hd as \<notin> blocked e then None else Some e)
        else if f = ''sigsuspend'' then (if rv r = -1 then Some (e\<lparr>waited := waited e @ [set as]\<rparr>) else None)
        else Some e
    | Proc (Sigprocmask how ss) \<Rightarrow> if rv r = -1 then Some e
        else if ss = [] then (case r of RInts old \<Rightarrow> if set old = blocked e then Some e else None | _ \<Rightarrow> None)
        else Some (e\<lparr>blocked := (if how = ''SIG_BLOCK'' then blocked e \<union> set ss else blocked e - set ss)\<rparr>)
    | _ \<Rightarrow> Some e)"

lemma sig_kernel_simps:
  "sig_kernel e (Lib f as) r = (if f = ''sigaction'' then (if rv r = -1 then Some e else if r \<noteq> RInts (actions e (hd as)) then None
          else Some (if tl as = [] then e else e\<lparr>actions := (actions e)(hd as := tl as)\<rparr>))
        else if f = ''raise'' then (if hd (actions e (hd as)) = SIG_DFL \<and> hd as \<notin> blocked e then None else Some e)
        else if f = ''sigsuspend'' then (if rv r = -1 then Some (e\<lparr>waited := waited e @ [set as]\<rparr>) else None)
        else Some e)"
  "sig_kernel e (Proc (Sigprocmask how ss)) r = (if rv r = -1 then Some e
        else if ss = [] then (case r of RInts old \<Rightarrow> if set old = blocked e then Some e else None | _ \<Rightarrow> None)
        else Some (e\<lparr>blocked := (if how = ''SIG_BLOCK'' then blocked e \<union> set ss else blocked e - set ss)\<rparr>))"
  by (simp_all add: sig_kernel_def)

text \<open>\<open>abort\<close> does not come back, and does not get as far as its \<open>_exit\<close>: the process has ended in one of the two calls of
  \<open>raise\<close>, or with a diagnostic.\<close>

lemma imp_abort_aborts:
  "under sig_kernel e imp_abort (\<lambda>r e' w. case r of Return u \<Rightarrow> False | UExited n \<Rightarrow> False | Fault f \<Rightarrow> False | _ \<Rightarrow> True) w"
  unfolding imp_abort_def procmask_def sig_old_def sig_new_def raise_sig_def lib_def Let_def
  by (auto simp: sig_kernel_simps end_of_def EXIT_FAILURE_def SIG_DFL_def SIGABRT_def intro!: under_call under_errExit append_intros split: if_splits)

definition gives :: "int \<Rightarrow> sig_env \<Rightarrow> sig_env \<Rightarrow> int result \<Rightarrow> sig_env \<Rightarrow> world \<Rightarrow> bool" where
  \<comment> \<open>the result is -1, or it is \<open>v\<close> and the state is \<open>e1\<close>\<close>
  "gives v e e1 r e' w \<longleftrightarrow> (case r of Return n \<Rightarrow> n = -1 \<or> n = v \<and> e' = e1 | Blocked \<Rightarrow> True | _ \<Rightarrow> False)"

lemma gives_simps [simp]: "gives v e e1 (Return n) e' w \<longleftrightarrow> n = -1 \<or> n = v \<and> e' = e1" "gives v e e1 Blocked e' w"
  by (simp_all add: gives_def)

lemma system_v_under:
  "under sig_kernel e (imp_sighold s) (gives 0 e (e\<lparr>blocked := insert s (blocked e)\<rparr>)) w"
  "under sig_kernel e (imp_sigrelse s) (gives 0 e (e\<lparr>blocked := blocked e - {s}\<rparr>)) w"
  "under sig_kernel e (imp_sigignore s) (gives 0 e (e\<lparr>actions := (actions e)(s := [SIG_IGN, 0, 0])\<rparr>)) w"
  "under sig_kernel e (imp_sigset s d) (if d = SIG_HOLD then gives SIG_HOLD e (e\<lparr>blocked := insert s (blocked e)\<rparr>)
     else gives (field (actions e s) 0) e (e\<lparr>blocked := blocked e - {s}, actions := (actions e)(s := [d, SA_RESTART, 0])\<rparr>)) w"
  "under sig_kernel e (imp_sigpause s) (\<lambda>r e' w. (case r of Return n \<Rightarrow> n = -1 | Blocked \<Rightarrow> True | _ \<Rightarrow> False) \<and> blocked e' = blocked e
     \<and> actions e' = actions e \<and> waited e' \<in> {waited e, waited e @ [blocked e - {s}]}) w"
  "under sig_kernel e (imp_siginterrupt s flag) (gives 0 e (e\<lparr>actions := (actions e)(s := [field (actions e s) 0,
     if flag \<noteq> 0 then field (actions e s) 1 OR SA_RESTART else field (actions e s) 1 AND NOT SA_RESTART, field (actions e s) 2])\<rparr>)) w"
proof -
  show "under sig_kernel e (imp_sighold s) (gives 0 e (e\<lparr>blocked := insert s (blocked e)\<rparr>)) w"
    unfolding imp_sighold_def procmask_def
    by (auto simp: sig_kernel_simps intro!: under_call under_ret append_intros split: if_splits)
  show "under sig_kernel e (imp_sigrelse s) (gives 0 e (e\<lparr>blocked := blocked e - {s}\<rparr>)) w"
    unfolding imp_sigrelse_def procmask_def
    by (auto simp: sig_kernel_simps intro!: under_call under_ret append_intros split: if_splits)
  show "under sig_kernel e (imp_sigignore s) (gives 0 e (e\<lparr>actions := (actions e)(s := [SIG_IGN, 0, 0])\<rparr>)) w"
    unfolding imp_sigignore_def sig_new_def lib_def
    by (auto simp: sig_kernel_simps intro!: under_call under_ret append_intros split: if_splits)
  show "under sig_kernel e (imp_sigset s d) (if d = SIG_HOLD then gives SIG_HOLD e (e\<lparr>blocked := insert s (blocked e)\<rparr>)
     else gives (field (actions e s) 0) e (e\<lparr>blocked := blocked e - {s}, actions := (actions e)(s := [d, SA_RESTART, 0])\<rparr>)) w"
    unfolding imp_sigset_def procmask_def sig_new_def lib_def Let_def
    by (auto simp: sig_kernel_simps SIG_ERR_def action_of_def intro!: under_call under_ret append_intros split: if_splits)
  show "under sig_kernel e (imp_sigpause s) (\<lambda>r e' w. (case r of Return n \<Rightarrow> n = -1 | Blocked \<Rightarrow> True | _ \<Rightarrow> False) \<and> blocked e' = blocked e
     \<and> actions e' = actions e \<and> waited e' \<in> {waited e, waited e @ [blocked e - {s}]}) w"
    unfolding imp_sigpause_def procmask_def lib_def
    by (auto simp: sig_kernel_simps action_of_def intro!: under_call under_ret append_intros split: if_splits reply.splits)
  show "under sig_kernel e (imp_siginterrupt s flag) (gives 0 e (e\<lparr>actions := (actions e)(s := [field (actions e s) 0,
     if flag \<noteq> 0 then field (actions e s) 1 OR SA_RESTART else field (actions e s) 1 AND NOT SA_RESTART, field (actions e s) 2])\<rparr>)) w"
    unfolding imp_siginterrupt_def sig_old_def sig_new_def lib_def Let_def
    by (auto simp: sig_kernel_simps action_of_def rv_def intro!: under_call under_ret append_intros split: if_splits)
qed

text \<open>C31: Each of the functions either fails with -1 or has exactly the effect that it is for on the actions and the mask of the
  process, and returns what it should: \<open>sighold\<close> and \<open>sigrelse\<close> change the mask, \<open>sigignore\<close> the action, \<open>sigset\<close> both (it
  returns the handler that was set before), and \<open>siginterrupt\<close> the flag that restarts calls, which it sets when it is asked
  to clear it.
\<close>

theorem signal_functions_refine:
  assumes "(p, v, e1) \<in> {(imp_sighold s, 0, e\<lparr>blocked := insert s (blocked e)\<rparr>), (imp_sigrelse s, 0, e\<lparr>blocked := blocked e - {s}\<rparr>),
      (imp_sigignore s, 0, e\<lparr>actions := (actions e)(s := [SIG_IGN, 0, 0])\<rparr>),
      (imp_sigset s SIG_HOLD, SIG_HOLD, e\<lparr>blocked := insert s (blocked e)\<rparr>),
      (imp_sigset s (if d = SIG_HOLD then SIG_DFL else d), field (actions e s) 0,
        e\<lparr>blocked := blocked e - {s}, actions := (actions e)(s := [if d = SIG_HOLD then SIG_DFL else d, SA_RESTART, 0])\<rparr>),
      (imp_siginterrupt s flag, 0, e\<lparr>actions := (actions e)(s := [field (actions e s) 0,
        if flag \<noteq> 0 then field (actions e s) 1 OR SA_RESTART else field (actions e s) 1 AND NOT SA_RESTART, field (actions e s) 2])\<rparr>)}"
    "p w = (r, w')" "trace w' = trace w @ t" "run sig_kernel e t = Some e'"
  shows "case r of Return n \<Rightarrow> n = -1 \<or> n = v \<and> e' = e1 | Blocked \<Rightarrow> True | _ \<Rightarrow> False"
proof -
  have ne: "(if d = SIG_HOLD then SIG_DFL else d) \<noteq> SIG_HOLD" by (simp add: SIG_DFL_def SIG_HOLD_def)
  note set_hold = system_v_under(4)[where e = e and s = s and d = SIG_HOLD and w = w, simplified]
  note set_other = system_v_under(4)[where e = e and s = s and d = "if d = SIG_HOLD then SIG_DFL else d" and w = w, unfolded if_not_P[OF ne]]
  have "under sig_kernel e p (gives v e e1) w"
    using assms(1) system_v_under(1-3)[where e = e and s = s and w = w]
      system_v_under(6)[where e = e and s = s and flag = flag and w = w] set_hold set_other by auto
  from under_run[OF this assms(2-4)] show ?thesis by (simp add: gives_def)
qed

lemma signal_functions_refine_witness:
  "run sig_kernel \<lparr>actions = (\<lambda>_. [0, 0, 0]), blocked = {7}, waited = []\<rparr>
      (trace (snd (imp_sigrelse 7 (booted [RVal 0])))) = Some \<lparr>actions = (\<lambda>_. [0, 0, 0]), blocked = {}, waited = []\<rparr>"
proof -
  let ?e = "\<lparr>actions = (\<lambda>_. [0, 0, 0]), blocked = {7 :: int}, waited = []\<rparr>"
  have r: "imp_sigrelse 7 (booted [RVal 0]) = (Return 0, snd (imp_sigrelse 7 (booted [RVal 0])))"
    by (simp add: imp_sigrelse_def procmask_def run_simps booted_def)
  obtain e' where e': "run sig_kernel ?e (trace (snd (imp_sigrelse 7 (booted [RVal 0])))) = Some e'"
    by (simp add: imp_sigrelse_def procmask_def run_simps booted_def sig_kernel_def)
  have t: "u = trace (booted rs) @ u" for u rs by simp
  have m: "(imp_sigrelse 7, 0, ?e\<lparr>blocked := {}\<rparr>) \<in> {(imp_sighold 7, 0, ?e\<lparr>blocked := insert 7 (blocked ?e)\<rparr>),
      (imp_sigrelse 7, 0, ?e\<lparr>blocked := blocked ?e - {7}\<rparr>),
      (imp_sigignore 7, 0, ?e\<lparr>actions := (actions ?e)(7 := [SIG_IGN, 0, 0])\<rparr>),
      (imp_sigset 7 SIG_HOLD, SIG_HOLD, ?e\<lparr>blocked := insert 7 (blocked ?e)\<rparr>),
      (imp_sigset 7 (if 0 = SIG_HOLD then SIG_DFL else 0), field (actions ?e 7) 0,
        ?e\<lparr>blocked := blocked ?e - {7}, actions := (actions ?e)(7 := [if 0 = SIG_HOLD then SIG_DFL else 0, SA_RESTART, 0])\<rparr>),
      (imp_siginterrupt 7 0, 0, ?e\<lparr>actions := (actions ?e)(7 := [field (actions ?e 7) 0,
        if 0 \<noteq> (0 :: int) then field (actions ?e 7) 1 OR SA_RESTART else field (actions ?e 7) 1 AND NOT SA_RESTART, field (actions ?e 7) 2])\<rparr>)}"
    by simp
  from signal_functions_refine[OF m r t e'] e' show ?thesis by simp
qed

lemma ends_signals: "shrinks imp_abort" "shrinks (imp_sigset s d)" "shrinks (imp_sigpause s)" "shrinks (imp_siginterrupt s flag)"
  unfolding imp_abort_def imp_sigset_def imp_sigpause_def imp_siginterrupt_def procmask_def sig_old_def sig_new_def raise_sig_def lib_def Let_def
  by (intro fuel_intros)+

end
