(* ===== verification/Locks.thy ===== *)
theory Locks
  imports Conform
begin

text \<open>
  Locks on files: \<open>55_File_Locking/i_fcntl_locking.c\<close> places and tests locks on regions as its user asks, \<open>lockfile_imp.c\<close>
  creates files that serve as locks.
\<close>

unbundle bit_operations_syntax

section \<open>Commands of the user\<close>

definition MAX_LINE :: nat where "MAX_LINE = 100"
definition F_RDLCK :: int where "F_RDLCK = 0"
definition F_WRLCK :: int where "F_WRLCK = 1"
definition F_UNLCK :: int where "F_UNLCK = 2"
definition EAGAIN :: int where "EAGAIN = 11"
definition EDEADLK :: int where "EDEADLK = 35"

definition scan_char :: "string \<Rightarrow> (char \<times> string) option" where
  \<comment> \<open>\<open>" %c"\<close> of \<open>sscanf\<close>\<close>
  "scan_char s = (case dropWhile isspace s of [] \<Rightarrow> None | c # cs \<Rightarrow> Some (c, cs))"

definition scan_int :: "string \<Rightarrow> (int \<times> string) option" where
  \<comment> \<open>\<open>"%d"\<close> and \<open>"%lld"\<close>\<close>
  "scan_int s = (case strtol s 10 of (v, rest, erange) \<Rightarrow> if rest = s then None else Some (v, rest))"

record lock_cmd =
  \<comment> \<open>the variables of \<open>main\<close> that \<open>sscanf\<close> stores to; \<open>None\<close> is not initialised\<close>
  file_num :: "int option"
  cmd_ch :: "char option"
  lock_ch :: "char option"
  lock_start :: "int option"
  lock_len :: "int option"
  whence_ch :: char

definition scan_rest :: "nat \<Rightarrow> string \<Rightarrow> lock_cmd \<Rightarrow> nat \<times> lock_cmd" where
  \<comment> \<open>\<open>" %c %c %lld %lld %c"\<close> after \<open>n\<close> conversions\<close>
  "scan_rest n s v = (case scan_char s of None \<Rightarrow> (n, v) | Some (c, s1) \<Rightarrow> let v1 = v\<lparr>cmd_ch := Some c\<rparr> in
     (case scan_char s1 of None \<Rightarrow> (n + 1, v1) | Some (l, s2) \<Rightarrow> let v2 = v1\<lparr>lock_ch := Some l\<rparr> in
     (case scan_int s2 of None \<Rightarrow> (n + 2, v2) | Some (st, s3) \<Rightarrow> let v3 = v2\<lparr>lock_start := Some st\<rparr> in
     (case scan_int s3 of None \<Rightarrow> (n + 3, v3) | Some (ln, s4) \<Rightarrow> let v4 = v3\<lparr>lock_len := Some ln\<rparr> in
     (case scan_char s4 of None \<Rightarrow> (n + 4, v4) | Some (w, s5) \<Rightarrow> (n + 5, v4\<lparr>whence_ch := w\<rparr>))))))"

definition scan_command :: "nat \<Rightarrow> string \<Rightarrow> lock_cmd \<Rightarrow> nat \<times> lock_cmd" where
  \<comment> \<open>with one file there is no number of a file; at the end of the line \<open>sscanf\<close> returns -1, which is as small\<close>
  "scan_command argc line v0 = (let v = v0\<lparr>whence_ch := CHR ''s''\<rparr> in
     if argc = 2 then scan_rest 0 line (v\<lparr>file_num := Some 1\<rparr>)
     else (case scan_int line of None \<Rightarrow> (0, v) | Some (n, s) \<Rightarrow> scan_rest 1 s (v\<lparr>file_num := Some (to_int32 n)\<rparr>)))"

definition mandatory :: "int \<Rightarrow> bool" where
  \<comment> \<open>the set-group-ID bit without execute permission of the group\<close>
  "mandatory mode \<longleftrightarrow> mode AND 0x400 \<noteq> 0 \<and> mode AND 8 = 0"

definition mandLockingEnabled :: "int \<Rightarrow> (bool \<Rightarrow> 'a prog) \<Rightarrow> 'a prog" where
  "mandLockingEnabled fd k = or_die (Fd (Fstat fd)) ''stat'' (\<lambda>r. k (mandatory (case r of RInts ns \<Rightarrow> field ns 0 | _ \<Rightarrow> 0)))"

definition pad_name :: "nat \<Rightarrow> string \<Rightarrow> string" where
  \<comment> \<open>\<open>"%-10s"\<close> for a width of 10\<close>
  "pad_name n s = s @ replicate (n - length s) (CHR '' '')"

definition pad_number :: "nat \<Rightarrow> string \<Rightarrow> string" where
  "pad_number n s = replicate (n - length s) (CHR '' '') @ s"

definition locking_word :: "bool \<Rightarrow> string" where
  "locking_word m = (if m then ''mandatory'' else ''advisory'')"

definition displayCmdFmt :: "string list \<Rightarrow> int list \<Rightarrow> unit prog" where
  \<comment> \<open>\<open>fdList\<close> has the descriptor of \<open>argv[j]\<close> at \<open>j - 1\<close>\<close>
  "displayCmdFmt argv fdList = seq
     (if length argv = 2 then printf ([NL] @ ''Format: cmd lock start length [whence]'' @ [NL, NL]) (ret ())
      else printf ([NL] @ ''Format: '' @ (if 2 < length argv then ''file-num '' else []) @ ''cmd lock start length [whence]'' @ [NL, NL]
          @ ''    file-num is a number from the following list'' @ [NL])
        (each (\<lambda>(j, name, fd). mandLockingEnabled fd (\<lambda>m. printf (''        '' @ pad_number 2 (show_nat j) @ ''  '' @ pad_name 10 name
           @ '' ['' @ locking_word m @ '' locking]'' @ [NL]) (ret ()))) (zip [1..<length argv] (zip (tl argv) fdList))))
     (\<lambda>_. printf (''    'cmd' is 'g' (GETLK), 's' (SETLK), or 'w' (SETLKW)'' @ [NL]
        @ ''        or for OFD locks: 'G' (OFD_GETLK), 'S' (OFD_SETLK), or 'W' (OFD_SETLKW)'' @ [NL]
        @ ''    'lock' is 'r' (READ), 'w' (WRITE), or 'u' (UNLOCK)'' @ [NL]
        @ ''    'start' and 'length' specify byte range to lock'' @ [NL]
        @ ''    'whence' is 's' (SEEK_SET, default), 'c' (SEEK_CUR), or 'e' (SEEK_END)'' @ [NL, NL]) (ret ()))"

definition fcntl_cmd :: "char \<Rightarrow> int" where
  "fcntl_cmd c = (if c = CHR ''G'' then 36 else if c = CHR ''S'' then 37 else if c = CHR ''W'' then 38
     else if c = CHR ''g'' then 5 else if c = CHR ''s'' then 6 else 7)"

definition is_getlk :: "int \<Rightarrow> bool" where "is_getlk cmd \<longleftrightarrow> cmd \<in> {5, 36}"

definition lock_type :: "char \<Rightarrow> int" where
  "lock_type l = (if l = CHR ''r'' then F_RDLCK else if l = CHR ''w'' then F_WRLCK else F_UNLCK)"

definition whence_of :: "char \<Rightarrow> int" where
  "whence_of w = (if w = CHR ''c'' then 1 else if w = CHR ''e'' then 2 else 0)"

definition report :: "string \<Rightarrow> 'a prog \<Rightarrow> 'a prog" where
  "report msg k = call (Proc Getpid) (\<lambda>p. printf (''[PID='' @ show_int (rv p) @ ''] '' @ msg @ [NL]) k)"

definition place_lock :: "int \<Rightarrow> int \<Rightarrow> char \<Rightarrow> int \<Rightarrow> int \<Rightarrow> int \<Rightarrow> unit prog" where
  \<comment> \<open>\<open>fcntl\<close> with a structure of type, whence, start, length and process; \<open>F_GETLK\<close> stores to it\<close>
  "place_lock fd cmd l st ln wh = lib ''fcntl'' [fd, cmd, lock_type l, wh, st, ln, 0] (\<lambda>r.
     if is_getlk cmd then
       (if rv r = -1 then errMsg ''fcntl'' (ret ())
        else let fl = (case r of RInts ns \<Rightarrow> ns | _ \<Rightarrow> [lock_type l, wh, st, ln, 0]) in
          if field fl 0 = F_UNLCK then report ''Lock can be placed'' (ret ())
          else report (''Denied by '' @ (if field fl 0 = F_RDLCK then ''READ'' else ''WRITE'') @ '' lock on '' @ show_int (field fl 2) @ '':''
            @ show_int (field fl 3) @ '' (held by PID '' @ show_int (field fl 4) @ '')'') (ret ()))
     else if rv r = 0 then report (if l = CHR ''u'' then ''unlocked'' else ''got lock'') (ret ())
     else get errno (\<lambda>e. if e = EAGAIN \<or> e = EACCES then report ''failed (incompatible lock)'' (ret ())
       else if e = EDEADLK then report ''failed (deadlock)'' (ret ()) else errMsg ''fcntl'' (ret ())))"

definition run_command :: "nat \<Rightarrow> int list \<Rightarrow> nat \<times> lock_cmd \<Rightarrow> unit prog" where
  \<comment> \<open>what follows \<open>sscanf\<close>\<close>
  "run_command argc fdList scanned = (case scanned of (numRead, v) \<Rightarrow> (case file_num v of None \<Rightarrow> stop (Fault Uninitialised)
     | Some fileNum \<Rightarrow> if fileNum < 1 \<or> int argc \<le> fileNum then printf (''File number must be in range 1 to '' @ show_nat (argc - 1) @ [NL]) (ret ())
       else (case (4 \<le> numRead \<and> argc = 2 \<or> 5 \<le> numRead \<and> 2 < argc, cmd_ch v, lock_ch v, lock_start v, lock_len v) of
           (True, Some c, Some l, Some st, Some ln) \<Rightarrow>
             if c \<notin> set ''gswGSW'' \<or> l \<notin> set ''rwu'' \<or> whence_ch v \<notin> set ''sce'' then printf (''Invalid command!'' @ [NL]) (ret ())
             else place_lock (fdList ! nat (fileNum - 1)) (fcntl_cmd c) l st ln (whence_of (whence_ch v))
         | _ \<Rightarrow> printf (''Invalid command!'' @ [NL]) (ret ()))))"

definition lock_round :: "string list \<Rightarrow> int list \<Rightarrow> lock_cmd \<Rightarrow> (lock_cmd + unit) prog" where
  "lock_round argv fdList v = call (Proc Getpid) (\<lambda>p. printf (''PID='' @ show_int (rv p) @ ''> '') (fflush_stdout
     (lib ''fgets'' [int MAX_LINE] (\<lambda>r.
       if is_null_reply r then exit_prog EXIT_SUCCESS
       else let text = c_str (take (MAX_LINE - 1) (bytes r)) in
         if text = [] then stop (Fault Out_of_bounds)
         else let line = butlast text in
           if line = [] then again v
           else if hd line = CHR ''?'' then seq (displayCmdFmt argv fdList) (\<lambda>_. again v)
           else let scanned = scan_command (length argv) line v in
             seq (run_command (length argv) fdList scanned) (\<lambda>_. again (snd scanned))))))"

primrec open_each :: "string list \<Rightarrow> int list \<Rightarrow> int list prog" where
  "open_each [] fds = ret fds"
| "open_each (name # names) fds = call (Path (Open name ''O_RDWR'' 0)) (\<lambda>f.
     if rv f = -1 then errExit (''open ('' @ name @ '')'') else open_each names (fds @ [rv f]))"

definition i_fcntl_locking :: "string list \<Rightarrow> unit prog" where
  "i_fcntl_locking argv = (if length argv < 2 \<or> argv ! 1 = ''--help'' then usageErr (hd argv @ '' file...'' @ [NL])
     else lib ''calloc'' [int (length argv), 4] (\<lambda>m. if is_null_reply m then errExit ''calloc''
       else seq (open_each (tl argv) []) (\<lambda>fdList.
         printf (''File       Locking'' @ [NL] @ ''----       -------'' @ [NL])
           (seq (each (\<lambda>(name, fd). mandLockingEnabled fd (\<lambda>m. printf (pad_name 10 name @ '' '' @ locking_word m @ [NL]) (ret ())))
             (zip (tl argv) fdList)) (\<lambda>_. printf ([NL] @ ''Enter ? for help'' @ [NL])
           (loop (lock_round argv fdList)
             \<lparr>file_num = None, cmd_ch = None, lock_ch = None, lock_start = None, lock_len = None, whence_ch = CHR ''s''\<rparr>))))))"

section \<open>Files as locks\<close>

definition lockfile_try :: "string \<Rightarrow> int \<Rightarrow> int \<Rightarrow> int \<Rightarrow> (int + bool) prog" where
  \<comment> \<open>a round of the inner loop, for the attempt \<open>retry_n\<close>\<close>
  "lockfile_try name sleep_time retries retry_n = (if retries \<le> retry_n then leave False
     else call (Path (Open name ''O_RDONLY|O_CREAT|O_EXCL'' 288)) (\<lambda>fd.
       if rv fd = -1 then get errno (\<lambda>e. if e = EEXIST
         then printf (''Attempt #'' @ show_int (retry_n + 1) @ '' - '' @ name @ '': Failed; Waiting '' @ show_int sleep_time @ '' sec'' @ [NL])
           (call (Proc (Sleep sleep_time)) (\<lambda>_. again (retry_n + 1)))
         else errExit ''open'')
       else printf (''Created lockfile '' @ name @ [NL]) (leave True)))"

definition lock_one :: "int \<Rightarrow> int \<Rightarrow> string \<Rightarrow> unit prog" where
  "lock_one sleep_time retries name = seq (loop (lockfile_try name sleep_time retries) 0) (\<lambda>success.
     if success then ret () else fatal (''Failed to create lockfile '' @ name))"

definition lockfile_files :: "int \<Rightarrow> int \<Rightarrow> string list \<Rightarrow> unit prog" where
  "lockfile_files sleep_time retries names = seq (each (lock_one sleep_time retries) names) (\<lambda>_.
     printf (''All lockfiles created'' @ [NL]) (exit_prog EXIT_SUCCESS))"

definition lockfile_imp :: "string list \<Rightarrow> unit prog" where
  "lockfile_imp argv = (if length argv < 4 \<or> argv ! 1 = ''--help'' then usageErr (hd argv @ '' sleeptime retries filename ...'')
     else seq (getInt (Some (argv ! 1)) GN_GT_0 (Some ''sleep-time'')) (\<lambda>sleep_time.
       seq (getInt (Some (argv ! 2)) 0 (Some ''retries'')) (\<lambda>retries.
         if retries < -1 then cmdLineErr ([CHR 0x27] @ ''retries' must be greater then or equal to -1'')
         else lockfile_files sleep_time (if retries = -1 then INT_MAX else retries) (drop 3 argv))))"

section \<open>What they do\<close>

lemma show_int_plain: "show_int i \<noteq> []" "\<not> isspace (hd (show_int i))"
proof -
  show ne: "show_int i \<noteq> []" by (simp add: show_int_def)
  obtain d where "d < 10" "hd (show_nat (nat i)) = digit_char d" using hd_show_nat by blast
  then have "\<not> isspace (hd (show_nat (nat i)))" by (simp add: isspace_def of_char_digit_char char_neq_by_code)
  moreover have "\<not> isspace (CHR ''-'')" by (simp add: isspace_def)
  ultimately show "\<not> isspace (hd (show_int i))" by (simp add: show_int_def)
qed

lemma scan_int_shown:
  assumes "LONG_MIN \<le> i" "i \<le> LONG_MAX" "rest = [] \<or> \<not> is_digit 10 (hd rest)"
  shows "scan_int (CHR '' '' # show_int i @ rest) = Some (i, rest)"
proof -
  have d2: "dropWhile isspace (show_int i @ rest) = show_int i @ rest"
    using show_int_plain[of i] by (cases "show_int i") simp_all
  then have d1: "dropWhile isspace (CHR '' '' # show_int i @ rest) = show_int i @ rest" by (simp add: isspace_def)
  have s: "strtol (show_int i @ rest) 10 = (i, rest, False)" by (rule strtol_show_int) (use assms in auto)
  have "strtol (CHR '' '' # show_int i @ rest) 10 = (i, rest, False)"
  proof -
    obtain neg s1 where sign: "strip_sign (show_int i @ rest) = (neg, s1)" by fastforce
    show ?thesis
      using s show_int_plain(1)[of i]
      unfolding strtol_def d1 d2 sign prod.case Let_def by (auto simp: case_prod_beta split: if_splits)
  qed
  moreover have "length rest < length (CHR '' '' # show_int i @ rest)" by simp
  then have "rest \<noteq> CHR '' '' # show_int i @ rest" by (metis less_irrefl)
  ultimately show ?thesis by (simp add: scan_int_def)
qed

lemma place_lock_calls:
  "wp (place_lock fd cmd l st ln wh) (\<lambda>_ w'. \<exists>us. trace w' = trace w @ (Lib ''fcntl'' [fd, cmd, lock_type l, wh, st, ln, 0], r) # us)
    (w\<lparr>script := r # rs\<rparr>)"
  by (auto simp: place_lock_def report_def Let_def exec_simps)

lemma place_lock_reports:
  "\<not> is_getlk cmd \<Longrightarrow> wp (place_lock fd cmd l st ln wh) (\<lambda>res w'. res = Return ()
      \<and> obuf w' = obuf w @ ''[PID='' @ show_int p @ (if l = CHR ''u'' then ''] unlocked'' else ''] got lock'') @ [NL])
    (w\<lparr>script := RVal 0 # RVal p # rs\<rparr>)"
  "\<not> is_getlk cmd \<Longrightarrow> wp (place_lock fd cmd l st ln wh) (\<lambda>res w'. res = Return ()
      \<and> obuf w' = obuf w @ ''[PID='' @ show_int p @ ''] failed (incompatible lock)'' @ [NL])
    (w\<lparr>script := RErr 11 # RVal p # rs\<rparr>)"
  "is_getlk cmd \<Longrightarrow> wp (place_lock fd cmd l st ln wh) (\<lambda>res w'. res = Return ()
      \<and> obuf w' = obuf w @ ''[PID='' @ show_int p @ ''] '' @ (if ty = 2 then ''Lock can be placed''
          else ''Denied by '' @ (if ty = 0 then ''READ'' else ''WRITE'') @ '' lock on '' @ show_int s @ '':'' @ show_int n
            @ '' (held by PID '' @ show_int q @ '')'') @ [NL])
    (w\<lparr>script := RInts [ty, x, s, n, q] # RVal p # rs\<rparr>)"
  by (simp_all add: place_lock_def report_def Let_def exec_simps rv_def reply_errno_def field_def EAGAIN_def F_UNLCK_def F_RDLCK_def)

lemma command_scanned:
  assumes "c \<in> set ''gswGSW''" "l \<in> set ''rwu''" "LONG_MIN \<le> st" "st \<le> LONG_MAX" "LONG_MIN \<le> ln" "ln \<le> LONG_MAX"
    "(place, wc) \<in> {([], CHR ''s''), ('' s'', CHR ''s''), ('' c'', CHR ''c''), ('' e'', CHR ''e'')}"
  shows "run_command 2 [fd] (scan_command 2 ([c, CHR '' '', l, CHR '' ''] @ show_int st @ '' '' @ show_int ln @ place) v)
    = place_lock fd (fcntl_cmd c) l st ln (whence_of wc)"
proof -
  have sp: "\<not> isspace c" "\<not> isspace l" "isspace (CHR '' '')" using assms(1,2) by (auto simp: isspace_def)
  have "\<not> is_digit 10 (CHR '' '')" by (simp add: is_digit_def digit_val_def)
  then have st: "scan_int (CHR '' '' # show_int st @ CHR '' '' # show_int ln @ place) = Some (st, CHR '' '' # show_int ln @ place)"
    using scan_int_shown[OF assms(3,4), of "CHR '' '' # show_int ln @ place"] by simp
  have "place = [] \<or> \<not> is_digit 10 (hd place)" using assms(7) by (auto simp: is_digit_def digit_val_def)
  from scan_int_shown[OF assms(5,6) this] have ln: "scan_int (CHR '' '' # show_int ln @ place) = Some (ln, place)" .
  have wc: "scan_char place = (if place = [] then None else Some (wc, []))" "place = [] \<Longrightarrow> wc = CHR ''s''" "wc \<in> set ''sce''"
    using assms(7) by (auto simp: scan_char_def isspace_def)
  have "scan_command 2 ([c, CHR '' '', l, CHR '' ''] @ show_int st @ '' '' @ show_int ln @ place) v
    = (if place = [] then 4 else 5, v\<lparr>file_num := Some 1, cmd_ch := Some c, lock_ch := Some l, lock_start := Some st,
        lock_len := Some ln, whence_ch := wc\<rparr>)"
    using sp wc(2) by (cases v) (simp add: scan_command_def scan_rest_def scan_char_def[of "_ # _"] st ln wc(1) Let_def)
  then show ?thesis using assms(1,2) wc(3) by (simp add: run_command_def)
qed

text \<open>C32: The commands of the user are understood. A line with the letter of a command, the letter of a lock, its start, its length
  and, if it is not the start of the file, the letter of the place it is counted from, makes the program call \<open>fcntl\<close> first of all with
  the number that Linux has for the command, and with a structure that has Linux's number of the lock and the place, this start and this length
  and process 0. What the kernel answers is reported: that the lock has been placed or released, that it is incompatible with a lock that
  exists, or, to the commands that test, which lock is in the way, if any.
\<close>

theorem locking_commands_understood:
  assumes "(c, cmd) \<in> {(CHR ''g'', 5), (CHR ''s'', 6), (CHR ''w'', 7), (CHR ''G'', 36), (CHR ''S'', 37), (CHR ''W'', 38)}"
    "(l, type) \<in> {(CHR ''r'', 0), (CHR ''w'', 1), (CHR ''u'', 2)}"
    "(place, whence) \<in> {([], 0), ('' s'', 0), ('' c'', 1), ('' e'', 2)}"
    "LONG_MIN \<le> st" "st \<le> LONG_MAX" "LONG_MIN \<le> ln" "ln \<le> LONG_MAX"
    "program = run_command 2 [fd] (scan_command 2 ([c, CHR '' '', l, CHR '' ''] @ show_int st @ '' '' @ show_int ln @ place) v)"
  shows "(\<exists>us. trace (snd (program (w\<lparr>script := r # rs\<rparr>))) = trace w @ (Lib ''fcntl'' [fd, cmd, type, whence, st, ln, 0], r) # us)
    \<and> (if cmd \<in> {5, 36}
       then obuf (snd (program (w\<lparr>script := [RInts [ty, wh, s, n, holder], RVal pid]\<rparr>)))
         = obuf w @ ''[PID='' @ show_int pid @ ''] '' @ (if ty = 2 then ''Lock can be placed''
             else ''Denied by '' @ (if ty = 0 then ''READ'' else ''WRITE'') @ '' lock on '' @ show_int s @ '':'' @ show_int n
               @ '' (held by PID '' @ show_int holder @ '')'') @ [NL]
       else obuf (snd (program (w\<lparr>script := [RVal 0, RVal pid]\<rparr>)))
           = obuf w @ ''[PID='' @ show_int pid @ (if type = 2 then ''] unlocked'' else ''] got lock'') @ [NL]
         \<and> obuf (snd (program (w\<lparr>script := [RErr 11, RVal pid]\<rparr>)))
           = obuf w @ ''[PID='' @ show_int pid @ ''] failed (incompatible lock)'' @ [NL])"
proof -
  let ?wc = "if place = [] then CHR ''s'' else place ! 1"
  consider "place = []" "whence = 0" | "place = '' s''" "whence = 0" | "place = '' c''" "whence = 1" | "place = '' e''" "whence = 2"
    using assms(3) by blast
  then have wc: "(place, ?wc) \<in> {([], CHR ''s''), ('' s'', CHR ''s''), ('' c'', CHR ''c''), ('' e'', CHR ''e'')}" "whence_of ?wc = whence"
    by (cases; simp add: whence_of_def)+
  have cl: "c \<in> set ''gswGSW''" "l \<in> set ''rwu''" "fcntl_cmd c = cmd" "lock_type l = type" "l = CHR ''u'' \<longleftrightarrow> type = 2"
    using assms(1,2) by (auto simp: fcntl_cmd_def lock_type_def F_RDLCK_def F_WRLCK_def F_UNLCK_def)
  have p: "program = place_lock fd cmd l st ln whence"
    unfolding assms(8) command_scanned[OF cl(1,2) assms(4-7) wc(1)] cl(3) wc(2) ..
  have res: "wp program Q u \<Longrightarrow> Q (fst (program u)) (snd (program u))" for Q u by (simp add: wp_def case_prod_beta)
  have call: "\<exists>us. trace (snd (program (w\<lparr>script := r # rs\<rparr>))) = trace w @ (Lib ''fcntl'' [fd, cmd, type, whence, st, ln, 0], r) # us"
    using res[OF place_lock_calls[of fd cmd l st ln whence w r rs, folded p]] by (simp only: cl(4))
  have test: "is_getlk cmd \<longleftrightarrow> cmd \<in> {5, 36}" by (simp add: is_getlk_def)
  show ?thesis
  proof (cases "cmd \<in> {5, 36}")
    case True
    with test have "is_getlk cmd" by blast
    from res[OF place_lock_reports(3)[OF this, of fd l st ln whence w pid ty s n holder wh "[]", folded p]] True call show ?thesis by simp
  next
    case False
    with test have "\<not> is_getlk cmd" by blast
    from res[OF place_lock_reports(1)[OF this, of fd l st ln whence w pid "[]", folded p]]
      res[OF place_lock_reports(2)[OF this, of fd l st ln whence w pid "[]", folded p]] False call cl(5)
    show ?thesis by simp
  qed
qed

definition no_command :: lock_cmd where
  "no_command = \<lparr>file_num = None, cmd_ch = None, lock_ch = None, lock_start = None, lock_len = None, whence_ch = CHR ''s''\<rparr>"

lemma locking_commands_understood_witness:
  "\<exists>us. trace (snd (run_command 2 [3] (scan_command 2 ([CHR ''S'', CHR '' '', CHR ''r'', CHR '' ''] @ show_int (-10) @ '' '' @ show_int 5 @ '' e'')
      no_command) (booted [RVal 0]))) = (Lib ''fcntl'' [3, 37, 0, 2, -10, 5, 0], RVal 0) # us"
  using locking_commands_understood[where w = "booted []" and r = "RVal 0" and rs = "[]", of "CHR ''S''" 37 "CHR ''r''" 0 "'' e''" 2 "-10" 5
      "run_command 2 [3] (scan_command 2 ([CHR ''S'', CHR '' '', CHR ''r'', CHR '' ''] @ show_int (-10) @ '' '' @ show_int 5 @ '' e'') no_command)"
      3 no_command]
  by (simp add: int_limits booted_def)

definition lock_kernel :: "string set \<times> string list \<Rightarrow> syscall \<Rightarrow> reply \<Rightarrow> (string set \<times> string list) option" where
  \<comment> \<open>the files that exist, and those that the program has created\<close>
  "lock_kernel e c r = (case c of Path (Open name flags mode) \<Rightarrow>
       if rv r = -1 then Some e else if name \<in> fst e then None else Some (insert name (fst e), snd e @ [name])
     | _ \<Rightarrow> Some e)"

lemma lock_kernel_simps: "lock_kernel e (Path (Open name flags mode)) r
    = (if rv r = -1 then Some e else if name \<in> fst e then None else Some (insert name (fst e), snd e @ [name]))"
  "lock_kernel e (Proc p) r = Some e"
  by (simp_all add: lock_kernel_def)

lemma appends_lockfile [append_intros]: "appends (lockfile_try name s n i)" "appends (lock_one s n name)"
proof -
  show t: "appends (lockfile_try name s n i)" for i unfolding lockfile_try_def by (intro append_intros)
  show "appends (lock_one s n name)" unfolding lock_one_def by (intro append_intros t)
qed

lemma rounds_lockfile [fuel_intros]: "rounds (lockfile_try name s n i)"
  unfolding lockfile_try_def by (intro fuel_intros)

lemma lock_one_creates:
  "under lock_kernel e (lock_one s n name) (finishes (\<lambda>_ e' w. snd e' = snd e @ [name]) (\<lambda>_ _. False)) w"
proof -
  have "under lock_kernel e (loop (lockfile_try name s n) 0)
      (finishes (\<lambda>b e' w. snd e' = (if b then snd e @ [name] else snd e)) (\<lambda>_ _. False)) w"
  proof (rule under_repeat[where I = "\<lambda>i e' w. snd e' = snd e"], goal_cases)
    case (4 i e' w)
    then show ?case
      unfolding lockfile_try_def
      by (auto simp: lock_kernel_simps split: if_splits
          intro!: under_leave under_call under_get under_printf under_errExit under_again append_intros)
  qed (auto intro!: append_intros fuel_intros)
  then show ?thesis
    unfolding lock_one_def
    by (rule under_then) (auto intro!: under_ret under_fatal append_intros simp: finishes_def end_of_def EXIT_SUCCESS_def EXIT_FAILURE_def split: result.splits)
qed

text \<open>When \<open>lockfile\<close> exits with success, it has itself created every file that was named, in order.\<close>

lemma lockfile_creates_all:
  "under lock_kernel e (lockfile_files s n names) (finishes (\<lambda>_ _ _. False) (\<lambda>e' w. snd e' = snd e @ names)) w"
proof -
  have "under lock_kernel e (each (lock_one s n) names) (finishes (\<lambda>_ e' w. snd e' = snd e @ names) (\<lambda>_ _. False)) w"
  proof (rule under_each[where I = "\<lambda>done todo e' w. snd e' = snd e @ done"], goal_cases)
    case (3 x ys zs e' w)
    then show ?case by (intro under_weaken[OF lock_one_creates]) auto
  qed (auto intro!: append_intros)
  then show ?thesis
    unfolding lockfile_files_def by (rule under_then) (auto intro!: under_printf under_exit append_intros)
qed

lemma ends_locks: "shrinks (i_fcntl_locking argv)" "shrinks (lockfile_imp argv)"
proof -
  have m: "shrinks (mandLockingEnabled fd k)" if "\<And>b. shrinks (k b)" for fd and k :: "bool \<Rightarrow> unit prog"
    unfolding mandLockingEnabled_def by (intro fuel_intros that)
  have d: "shrinks (displayCmdFmt argv fds)" for fds
    unfolding displayCmdFmt_def case_prod_beta by (intro fuel_intros m)
  have p: "shrinks (place_lock fd c l st ln wh)" for fd c l st ln wh
    unfolding place_lock_def report_def Let_def by (intro fuel_intros)
  have r: "shrinks (run_command n fds x)" for n fds x
    unfolding run_command_def by (auto intro!: fuel_intros p split: prod.splits option.splits bool.splits)
  have l: "rounds (lock_round argv fds v)" for fds v
    unfolding lock_round_def Let_def by (intro fuel_intros d r; simp)
  have o: "shrinks (open_each names fds)" for names fds
    by (induction names arbitrary: fds) (auto intro!: fuel_intros)
  show "shrinks (i_fcntl_locking argv)"
    unfolding i_fcntl_locking_def case_prod_beta by (intro fuel_intros o m l)
  show "shrinks (lockfile_imp argv)"
    unfolding lockfile_imp_def lockfile_files_def lock_one_def by (intro fuel_intros)
qed

end
