(* ===== verification/Login.thy ===== *)
theory Login
  imports Nftw
begin

text \<open>
  Passwords and terminals: \<open>38_Writing_Secure_Privileged_Programs/douser.c\<close> runs a program as another user,
  \<open>62_Terminals/getpass_imp.c\<close> reads a password, \<open>62_Terminals/ttyname_imp.c\<close> finds the name of a terminal.
  A structure with numbers and one string is a list of integers that ends with the codes of the string.
\<close>

unbundle bit_operations_syntax

definition codes :: "string \<Rightarrow> int list" where
  "codes s = map (\<lambda>c. of_char c) s"

definition of_codes :: "int list \<Rightarrow> string" where
  "of_codes ns = map char_of ns"

lemma of_codes_codes [simp]: "of_codes (codes s) = s"
  by (simp add: of_codes_def codes_def comp_def)

definition members_of :: "reply \<Rightarrow> int list" where
  "members_of r = (case r of RInts ns \<Rightarrow> ns | _ \<Rightarrow> [])"

section \<open>getpass\_imp\<close>

definition PASS_MAX :: nat where "PASS_MAX = 4096"

definition ECHO_FLAG :: int where "ECHO_FLAG = 8"

definition no_echo :: "int list \<Rightarrow> int list" where
  \<comment> \<open>the attributes are the four sets of flags and the special characters\<close>
  "no_echo tb = (let c_lflag = field tb 3 in
     take 3 tb @ [if c_lflag AND ECHO_FLAG \<noteq> 0 then c_lflag AND NOT ECHO_FLAG else c_lflag] @ replicate (length tb - 4) 0)"

definition give_up :: "int \<Rightarrow> 'a option prog" where
  \<comment> \<open>closes the terminal and keeps \<open>errno\<close>\<close>
  "give_up fd = get errno (\<lambda>saved_errno. call (Fd (Close fd)) (\<lambda>c.
     if rv c = -1 then set_errno saved_errno (ret None) else ret None))"

definition getpass_imp :: "string \<Rightarrow> string \<Rightarrow> string option prog" where
  \<comment> \<open>\<open>buf\<close> is what the static buffer holds\<close>
  "getpass_imp buf prompt = or_die (Path (Open ''/dev/tty'' ''O_RDONLY'' 0)) ''open'' (\<lambda>fd.
     call (Fd (Tcgetattr (rv fd))) (\<lambda>old. if rv old = -1 then give_up (rv fd)
     else call (Fd (Tcgetattr (rv fd))) (\<lambda>tb. if rv tb = -1 then ret None
     else call (Fd (Tcsetattr (rv fd) ''TCSANOW'' (no_echo (members_of tb)))) (\<lambda>s. if rv s = -1 then give_up (rv fd)
     else printf prompt (lib ''fgets'' [int PASS_MAX] (\<lambda>r.
       let line = (if is_null_reply r then buf else c_str (take (PASS_MAX - 1) (bytes r))) in
         if line = [] then stop (Fault Out_of_bounds)
         else let typed = (if last line = NL then butlast line else line) in
           call (Fd (Tcsetattr (rv fd) ''TCSANOW'' (members_of old))) (\<lambda>s.
             if rv s = -1 then give_up (rv fd) else ret (Some typed))))))))"

definition getpass_main :: "int prog" where
  "getpass_main = seq (getpass_imp [] ''Password: '') (\<lambda>name. case name of
       None \<Rightarrow> errExit ''getpass_imp''
     | Some s \<Rightarrow> printf ([NL] @ ''You entered: '' @ s @ [NL]) (ret 0))"

section \<open>ttyname\_imp\<close>

definition TTY_BUF :: nat where "TTY_BUF = 256"

definition scan_round :: "string \<Rightarrow> int \<Rightarrow> int \<Rightarrow> int \<Rightarrow> unit \<Rightarrow> (unit + string option) prog" where
  \<comment> \<open>\<open>readdir\<close> is answered with the inode and the name, \<open>stat\<close> with device and inode\<close>
  "scan_round dirname dir dev ino u = set_errno 0 (call (Path (Readdir dir)) (\<lambda>dp. get errno (\<lambda>e.
     if is_null_reply dp then (if e = 0 then leave None else stop (Fault Null_deref))
     else let d_ino = field (members_of dp) 0; d_name = of_codes (tl (members_of dp)) in
       if is_dot d_name then again ()
       else if d_ino = ino then
         (let path = dirname @ ''/'' @ d_name in
          if TTY_BUF \<le> length path then stop (Fault Buffer_overflow)
          else or_die (Path (Stat path)) ''stat'' (\<lambda>sb.
            if field (members_of sb) 0 = dev then leave (Some path) else again ()))
       else again ())))"

definition scan_dir :: "string \<Rightarrow> int \<Rightarrow> int \<Rightarrow> string option prog" where
  "scan_dir dirname dev ino = call (Path (Opendir dirname)) (\<lambda>dir. if is_null_reply dir then ret None
     else seq (loop (scan_round dirname (rv dir) dev ino) ()) (\<lambda>found.
       call (Path (Closedir (rv dir))) (\<lambda>c. if rv c = -1 then ret None else ret found)))"

definition ttyname_imp :: "int \<Rightarrow> string option prog" where
  "ttyname_imp fd = or_die (Fd (Fstat fd)) ''fstat'' (\<lambda>sb.
     let dev = field (members_of sb) 0; ino = field (members_of sb) 1 in
     seq (scan_dir ''/dev'' dev ino) (\<lambda>found. case found of Some path \<Rightarrow> ret (Some path)
       | None \<Rightarrow> scan_dir ''/dev/pts'' dev ino))"

definition ttyname_main :: "int prog" where
  "ttyname_main = seq (ttyname_imp 1) (\<lambda>name. case name of
       None \<Rightarrow> errExit ''ttyname_imp'' | Some s \<Rightarrow> printf (s @ [NL]) (ret 0))"

section \<open>douser\<close>

text \<open>\<open>crypt\<close> of the C library is a parameter: the hash of a password with a salt, or an error number.\<close>

definition log_in :: "(string \<Rightarrow> string \<Rightarrow> int + string) \<Rightarrow> string \<Rightarrow> int \<Rightarrow> int \<Rightarrow> string \<Rightarrow> unit prog" where
  "log_in crypt_of user pw_uid pw_gid pw_passwd = lib ''getpass'' [] (\<lambda>password.
     if is_null_reply password then stop (Fault Null_deref)
     else case crypt_of (bytes password) pw_passwd of
         Inl n \<Rightarrow> set_errno n (errExit ''crypt'')
       | Inr encrypted \<Rightarrow>
           if encrypted \<noteq> pw_passwd then printf (''Incorrect password'' @ [NL]) (exit_prog EXIT_FAILURE)
           else printf (''Successfully authenticated: UID='' @ show_int pw_uid @ [NL])
             (or_die (Lib ''setuid'' [pw_uid]) ''setuid'' (\<lambda>_.
               lib ''initgroups'' (pw_gid # codes user) (\<lambda>_. ret ()))))"

definition become_user :: "(string \<Rightarrow> string \<Rightarrow> int + string) \<Rightarrow> string \<Rightarrow> unit prog" where
  \<comment> \<open>the password file answers with the user, the group and the codes of the password\<close>
  "become_user crypt_of user = call (User (Getpwnam user)) (\<lambda>pwd. if is_null_reply pwd then errExit ''getpwuid''
     else lib ''getspnam'' (codes user) (\<lambda>spwd. get errno (\<lambda>e.
       if is_null_reply spwd \<and> e = EACCES then errExit ''getspnam''
       else log_in crypt_of user (field (members_of pwd) 0) (field (members_of pwd) 1)
         (if is_null_reply spwd then of_codes (drop 2 (members_of pwd)) else bytes spwd))))"

definition douser_usage :: "string list \<Rightarrow> string" where
  "douser_usage argv = hd argv @ '' [-u user] program-file arg1 arg2 ...''"

definition douser :: "(string \<Rightarrow> string \<Rightarrow> int + string) \<Rightarrow> string list \<Rightarrow> unit prog" where
  "douser crypt_of argv = (if length argv < 2 then usageErr (douser_usage argv)
     else if argv ! 1 = ''-u'' then
       (if length argv < 4 then usageErr (douser_usage argv)
        else seq (become_user crypt_of (argv ! 2)) (\<lambda>_. call (Proc (Execve (argv ! 3) (drop 3 argv))) (\<lambda>_. errExit ''execvp'')))
     else call (Proc (Execve (argv ! 1) (drop 1 argv))) (\<lambda>_. errExit ''execvp''))"

section \<open>Credentials\<close>

record cred_env =
  uid :: int
  groups :: "int list"
  passwords :: "string list"                          \<comment> \<open>that were typed\<close>
  execs :: "(string \<times> string list \<times> int \<times> int list) list"   \<comment> \<open>programs that were started, with user and groups\<close>

definition cred_kernel :: "(string \<Rightarrow> (int \<times> int \<times> string) option) \<Rightarrow> (string \<Rightarrow> string option) \<Rightarrow> (string \<Rightarrow> int \<Rightarrow> int list) \<Rightarrow>
    cred_env \<Rightarrow> syscall \<Rightarrow> reply \<Rightarrow> cred_env option" where
  \<comment> \<open>the password file, the shadow file, the groups of a user; only the superuser may change user and groups\<close>
  "cred_kernel pw sp grps e c r = (case c of
      User (Getpwnam name) \<Rightarrow> (case pw name of None \<Rightarrow> if is_null_reply r then Some e else None
        | Some (u, g, h) \<Rightarrow> if r = RInts (u # g # codes h) then Some e else None)
    | Lib f as \<Rightarrow>
        if f = ''getspnam'' then (case sp (of_codes as) of None \<Rightarrow> if is_null_reply r then Some e else None
          | Some h \<Rightarrow> if r = RData h \<or> r = RErr EACCES then Some e else None)
        else if f = ''getpass'' then (case r of RData p \<Rightarrow> Some (e\<lparr>passwords := passwords e @ [p]\<rparr>) | _ \<Rightarrow> if is_null_reply r then Some e else None)
        else if f = ''setuid'' then (if rv r = -1 then Some e else if uid e = 0 \<or> uid e = hd as then Some (e\<lparr>uid := hd as\<rparr>) else None)
        else if f = ''initgroups'' then (if rv r = -1 then Some e
          else if uid e = 0 then Some (e\<lparr>groups := grps (of_codes (tl as)) (hd as)\<rparr>) else None)
        else Some e
    | Proc (Execve p as) \<Rightarrow> if rv r = -1 then Some e else Some (e\<lparr>execs := execs e @ [(p, as, uid e, groups e)]\<rparr>)
    | _ \<Rightarrow> Some e)"

lemma cred_kernel_simps:
  "cred_kernel pw sp grps e (User (Getpwnam name)) r = (case pw name of None \<Rightarrow> if is_null_reply r then Some e else None
        | Some (u, g, h) \<Rightarrow> if r = RInts (u # g # codes h) then Some e else None)"
  "cred_kernel pw sp grps e (Lib ''getspnam'' as) r = (case sp (of_codes as) of None \<Rightarrow> if is_null_reply r then Some e else None
          | Some h \<Rightarrow> if r = RData h \<or> r = RErr EACCES then Some e else None)"
  "cred_kernel pw sp grps e (Lib ''getpass'' as) r = (case r of RData p \<Rightarrow> Some (e\<lparr>passwords := passwords e @ [p]\<rparr>) | _ \<Rightarrow> if is_null_reply r then Some e else None)"
  "cred_kernel pw sp grps e (Lib ''setuid'' as) r = (if rv r = -1 then Some e
      else if uid e = 0 \<or> uid e = hd as then Some (e\<lparr>uid := hd as\<rparr>) else None)"
  "cred_kernel pw sp grps e (Lib ''initgroups'' as) r = (if rv r = -1 then Some e
          else if uid e = 0 then Some (e\<lparr>groups := grps (of_codes (tl as)) (hd as)\<rparr>) else None)"
  "cred_kernel pw sp grps e (Proc (Execve p args)) r = (if rv r = -1 then Some e
      else Some (e\<lparr>execs := execs e @ [(p, args, uid e, groups e)]\<rparr>))"
  by (simp_all add: cred_kernel_def)

definition hash_of :: "(string \<Rightarrow> (int \<times> int \<times> string) option) \<Rightarrow> (string \<Rightarrow> string option) \<Rightarrow> string \<Rightarrow> string" where
  \<comment> \<open>from the shadow file, when it knows the user\<close>
  "hash_of pw sp user = (case sp user of Some h \<Rightarrow> h | None \<Rightarrow> (case pw user of Some (u, g, h) \<Rightarrow> h | None \<Rightarrow> []))"

definition took_over :: "(string \<Rightarrow> string \<Rightarrow> int + string) \<Rightarrow> string \<Rightarrow> (string \<Rightarrow> int \<Rightarrow> int list) \<Rightarrow> string \<Rightarrow> int \<Rightarrow> int \<Rightarrow> cred_env \<Rightarrow> cred_env \<Rightarrow> bool" where
  \<comment> \<open>a password with the hash \<open>h\<close> was typed, and the process has become the user \<open>u\<close>; it has not got the groups,
     unless it is the superuser\<close>
  "took_over crypt_of h grps user u g e e' \<longleftrightarrow> execs e' = execs e \<and> (\<exists>p. passwords e' = passwords e @ [p] \<and> crypt_of p h = Inr h)
     \<and> uid e' = u \<and> groups e' \<in> (if u = 0 then {groups e, grps user g} else {groups e})"

definition became_user :: "(string \<Rightarrow> string \<Rightarrow> int + string) \<Rightarrow> (string \<Rightarrow> (int \<times> int \<times> string) option) \<Rightarrow> (string \<Rightarrow> string option) \<Rightarrow>
    (string \<Rightarrow> int \<Rightarrow> int list) \<Rightarrow> string \<Rightarrow> cred_env \<Rightarrow> cred_env \<Rightarrow> bool" where
  "became_user crypt_of pw sp grps user e e' = (case pw user of None \<Rightarrow> False
     | Some (u, g, h) \<Rightarrow> took_over crypt_of (hash_of pw sp user) grps user u g e e')"

lemma appends_log_in [append_intros]: "appends (log_in crypt_of user u g h)"
proof -
  have s: "appends (case x of Inl n \<Rightarrow> f n | Inr y \<Rightarrow> k y)" if "\<And>n. appends (f n)" "\<And>y. appends (k y)"
    for x :: "int + string" and f :: "int \<Rightarrow> unit prog" and k
    using that by (cases x) simp_all
  show ?thesis unfolding log_in_def by (intro append_intros s)
qed

lemma appends_become_user [append_intros]: "appends (become_user crypt_of user)"
  unfolding become_user_def by (intro append_intros)

definition no_exec :: "cred_env \<Rightarrow> (cred_env \<Rightarrow> bool) \<Rightarrow> unit result \<Rightarrow> cred_env \<Rightarrow> world \<Rightarrow> bool" where
  \<comment> \<open>nothing has been started; on return \<open>P\<close>\<close>
  "no_exec e P r e' w \<longleftrightarrow> execs e' = execs e \<and> (case r of Return u \<Rightarrow> P e' | _ \<Rightarrow> True)"

lemma no_exec_simps [simp]: "no_exec e P (Return u) e' w \<longleftrightarrow> execs e' = execs e \<and> P e'" "no_exec e P Blocked e' w \<longleftrightarrow> execs e' = execs e"
  "no_exec e P (end_of b w0) e' w \<longleftrightarrow> execs e' = execs e" "no_exec e P (Exited n) e' w \<longleftrightarrow> execs e' = execs e"
  "no_exec e P (Fault f) e' w \<longleftrightarrow> execs e' = execs e"
  by (simp_all add: no_exec_def end_of_def)

lemma log_in_takes_over:
  "under (cred_kernel pw sp grps) e (log_in crypt_of user u g h) (no_exec e (took_over crypt_of h grps user u g e)) w"
  unfolding log_in_def lib_def or_die_def
proof (rule under_call, goal_cases)
  case (1 r)
  then show ?case by (cases "crypt_of (bytes r) h") (auto intro!: append_intros)
next
  case (3 r rs e1)
  show ?case
  proof (cases "is_null_reply r \<or> (\<exists>n. crypt_of (bytes r) h = Inl n) \<or> crypt_of (bytes r) h \<noteq> Inr h")
    case True
    then show ?thesis using 3(2)
      by (cases "crypt_of (bytes r) h")
        (auto simp: cred_kernel_simps split: reply.splits intro!: under_stop under_set_errno under_errExit under_printf under_exit)
  next
    case False
    then show ?thesis using 3(2)
      by (auto simp: cred_kernel_simps took_over_def bytes_def split: reply.splits if_splits
          intro!: under_call under_printf under_errExit under_ret append_intros)
  qed
qed simp

lemma become_user_authenticates:
  "under (cred_kernel pw sp grps) e (become_user crypt_of user) (no_exec e (became_user crypt_of pw sp grps user e)) w"
  unfolding become_user_def lib_def
proof (rule under_call, goal_cases)
  case (3 pwd rs e1)
  show ?case
  proof (cases "is_null_reply pwd")
    case True
    then show ?thesis using 3(2) by (auto simp: cred_kernel_simps split: option.splits if_splits intro!: under_errExit)
  next
    case False
    with 3(2) obtain u g h where p: "pw user = Some (u, g, h)" "pwd = RInts (u # g # codes h)" "e1 = e"
      by (auto simp: cred_kernel_simps split: option.splits if_splits)
    have f: "field (members_of pwd) 0 = u" "field (members_of pwd) 1 = g" "of_codes (drop 2 (members_of pwd)) = h"
      using p(2) by (simp_all add: members_of_def field_def)
    have auth: "under (cred_kernel pw sp grps) e (log_in crypt_of user u g (hash_of pw sp user)) (no_exec e (became_user crypt_of pw sp grps user e)) w1" for w1
      by (rule under_mono[OF log_in_takes_over]) (auto simp: no_exec_def became_user_def p(1) split: result.splits)
    show ?thesis
      unfolding f p(3) if_not_P[OF False]
    proof (rule under_call, goal_cases)
      case (3 spwd rs1 e2)
      then have s: "e2 = e" "sp user = None \<and> is_null_reply spwd \<or> (\<exists>h. sp user = Some h \<and> (spwd = RData h \<or> spwd = RErr EACCES))"
        by (auto simp: cred_kernel_simps split: option.splits if_splits)
      show ?case
        unfolding s(1)
        by (rule under_get, simp, intro conjI impI) (use s(2) auth in \<open>auto simp: hash_of_def p(1) is_null_reply_def bytes_def reply_errno_def intro!: under_errExit\<close>)
    qed (auto intro!: append_intros)
  qed
qed (auto intro!: append_intros)

text \<open>C33: A program that is started for a user is the one that was asked for, it is the only one, it runs as that user, and it is
  started only after a password has been typed whose hash is the one of the user; but unless that user is the superuser it keeps
  the groups of the caller, because the process changes its user before it asks for the groups.
\<close>

theorem douser_authenticates:
  assumes "execs e = []" "passwords e = []" "argv ! 1 = ''-u''" "douser crypt_of argv w = (r, w')" "trace w' = trace w @ t"
    "run (cred_kernel pw sp grps) e t = Some e'" "(file, args, u, gs) \<in> set (execs e')"
  shows "file = argv ! 3 \<and> args = drop 3 argv \<and> length (execs e') = 1 \<and> (\<exists>g h p. pw (argv ! 2) = Some (u, g, h)
    \<and> passwords e' = [p] \<and> crypt_of p (hash_of pw sp (argv ! 2)) = Inr (hash_of pw sp (argv ! 2)) \<and> (u = 0 \<or> gs = groups e))"
proof -
  let ?ok = "\<lambda>e'. execs e' = [] \<or> (\<exists>u gs g h. execs e' = [(argv ! 3, drop 3 argv, u, gs)] \<and> pw (argv ! 2) = Some (u, g, h)
    \<and> map (\<lambda>p. crypt_of p (hash_of pw sp (argv ! 2))) (passwords e') = [Inr (hash_of pw sp (argv ! 2))] \<and> (u = 0 \<or> gs = groups e))"
  have "under (cred_kernel pw sp grps) e (douser crypt_of argv) (\<lambda>r e' w. ?ok e') w"
  proof (cases "length argv < 4")
    case True
    then show ?thesis using assms(1,3) by (auto simp: douser_def intro: under_usageErr)
  next
    case False
    have "under (cred_kernel pw sp grps) e (seq (become_user crypt_of (argv ! 2))
        (\<lambda>_. call (Proc (Execve (argv ! 3) (drop 3 argv))) (\<lambda>_. errExit ''execvp'' :: unit prog))) (\<lambda>r e' w. ?ok e') w"
    proof (rule under_seq, rule under_mono[OF become_user_authenticates], goal_cases)
      case (1 r e1 w1)
      then show ?case
        using assms(1,2)
        by (auto simp: no_exec_def became_user_def took_over_def cred_kernel_simps lift_under_def split: result.splits option.splits if_splits
            intro!: under_call under_errExit append_intros)
    qed (intro append_intros)
    then show ?thesis using False assms(3) by (simp add: douser_def)
  qed
  from under_run[OF this assms(4-6)] assms(7) show ?thesis by auto
qed

definition demo_crypt :: "string \<Rightarrow> string \<Rightarrow> int + string" where
  "demo_crypt p salt = Inr (CHR ''x'' # p)"

definition demo_douser :: "unit result \<times> world" where
  "demo_douser = douser demo_crypt [''douser'', ''-u'', ''ann'', ''id''] (booted
     [RInts (1000 # 100 # codes ''xpw''), RNull, RData ''pw'', RVal 0, RErr 1, RVal 0])"

definition cred_start :: cred_env where
  "cred_start = \<lparr>uid = 0, groups = [0, 4], passwords = [], execs = []\<rparr>"

lemma demo_douser_runs:
  "map_option execs (run (cred_kernel [''ann'' \<mapsto> (1000, 100, ''xpw'')] Map.empty (\<lambda>_ g. [g])) cred_start (trace (snd demo_douser)))
    = Some [(''id'', [''id''], 1000, [0, 4])]"
  by code_simp

lemma douser_authenticates_witness:
  "\<exists>e' p. run (cred_kernel [''ann'' \<mapsto> (1000, 100, ''xpw'')] Map.empty (\<lambda>_ g. [g])) cred_start (trace (snd demo_douser)) = Some e'
    \<and> execs e' = [(''id'', [''id''], 1000, groups cred_start)] \<and> passwords e' = [p] \<and> demo_crypt p ''xpw'' = Inr ''xpw''"
proof -
  obtain e' where e': "run (cred_kernel [''ann'' \<mapsto> (1000, 100, ''xpw'')] Map.empty (\<lambda>_ g. [g])) cred_start (trace (snd demo_douser)) = Some e'"
      "execs e' = [(''id'', [''id''], 1000, [0, 4])]"
    using demo_douser_runs by auto
  have r: "douser demo_crypt [''douser'', ''-u'', ''ann'', ''id''] (booted
     [RInts (1000 # 100 # codes ''xpw''), RNull, RData ''pw'', RVal 0, RErr 1, RVal 0]) = (fst demo_douser, snd demo_douser)"
    by (simp add: demo_douser_def)
  have t: "u = trace (booted rs) @ u" for u rs by simp
  have m: "(''id'', [''id''], 1000, [0, 4]) \<in> set (execs e')" by (simp add: e'(2))
  from douser_authenticates[OF _ _ _ r t e'(1) m] show ?thesis
    using e' by (auto simp: cred_start_def hash_of_def)
qed

section \<open>The terminal\<close>

definition tty_kernel :: "int list \<times> bool list \<Rightarrow> syscall \<Rightarrow> reply \<Rightarrow> (int list \<times> bool list) option" where
  \<comment> \<open>the attributes, and whether there was an echo when a line was read\<close>
  "tty_kernel e c r = (case c of
      Fd (Tcgetattr fd) \<Rightarrow> if rv r = -1 \<or> r = RInts (fst e) then Some e else None
    | Fd (Tcsetattr fd how a) \<Rightarrow> if rv r = -1 then Some e else Some (a, snd e)
    | Lib f as \<Rightarrow> Some (fst e, snd e @ [fst e ! 3 AND ECHO_FLAG \<noteq> 0])
    | _ \<Rightarrow> Some e)"

lemma tty_kernel_simps:
  "tty_kernel e (Fd (Tcgetattr fd)) r = (if rv r = -1 \<or> r = RInts (fst e) then Some e else None)"
  "tty_kernel e (Fd (Tcsetattr fd how a)) r = (if rv r = -1 then Some e else Some (a, snd e))"
  "tty_kernel e (Lib f xs) r = Some (fst e, snd e @ [fst e ! 3 AND ECHO_FLAG \<noteq> 0])"
  "tty_kernel e (Fd (Close fd)) r = Some e" "tty_kernel e (Path p) r = Some e"
  by (simp_all add: tty_kernel_def)

lemma no_echo_off: "4 \<le> length tb \<Longrightarrow> no_echo tb ! 3 AND ECHO_FLAG = 0"
  by (simp add: no_echo_def Let_def nth_append ECHO_FLAG_def and.assoc)

lemma appends_getpass [append_intros]: "appends (give_up fd)" "appends (getpass_imp buf prompt)"
proof -
  show g: "appends (give_up fd :: 'z option prog)" for fd unfolding give_up_def by (intro append_intros)
  show "appends (getpass_imp buf prompt)" unfolding getpass_imp_def Let_def by (intro append_intros g)
qed

text \<open>A password that is returned was read without an echo, and the terminal is then as it was before.\<close>

lemma getpass_imp_restores:
  assumes "4 \<le> length (fst e)"
  shows "under tty_kernel e (getpass_imp buf prompt) (\<lambda>r e' w. case r of
      Return (Some s) \<Rightarrow> e' = (fst e, snd e @ [False]) | Return None \<Rightarrow> snd e' = snd e \<and> fst e' = fst e \<or> snd e' = snd e @ [False]
    | _ \<Rightarrow> True) w"
  unfolding getpass_imp_def give_up_def or_die_def lib_def Let_def
  using assms no_echo_off[OF assms]
  by (auto simp: tty_kernel_simps members_of_def rv_def split: result.splits option.splits if_splits
      intro!: under_call under_get under_set_errno under_ret under_stop under_printf under_errExit append_intros)

section \<open>The name of a terminal\<close>

definition dev_kernel :: "(string \<Rightarrow> (int \<times> string) list) \<Rightarrow> (string \<Rightarrow> int \<times> int) \<Rightarrow> int \<times> int \<Rightarrow>
    (int \<times> string) list \<times> int \<Rightarrow> syscall \<Rightarrow> reply \<Rightarrow> ((int \<times> string) list \<times> int) option" where
  \<comment> \<open>the entries of the directories, device and inode of a path and of the descriptor; the state is what the open stream still
     delivers, and the number of open streams\<close>
  "dev_kernel entries node me e c r = (case c of
      Fd (Fstat fd) \<Rightarrow> if r = RInts [fst me, snd me] then Some e else None
    | Path (Opendir d) \<Rightarrow> if is_null_reply r then None else Some (entries d, snd e + 1)
    | Path (Readdir d) \<Rightarrow> (case fst e of [] \<Rightarrow> if r = RNull then Some e else None
        | x # xs \<Rightarrow> if r = RInts (fst x # codes (snd x)) then Some (xs, snd e) else None)
    | Path (Stat p) \<Rightarrow> if r = RInts [fst (node p), snd (node p)] then Some e else None
    | Path (Closedir d) \<Rightarrow> if r = RVal 0 then Some (fst e, snd e - 1) else None
    | _ \<Rightarrow> Some e)"

lemma dev_kernel_simps:
  "dev_kernel entries node me e (Fd (Fstat fd)) r = (if r = RInts [fst me, snd me] then Some e else None)"
  "dev_kernel entries node me e (Path (Opendir d)) r = (if is_null_reply r then None else Some (entries d, snd e + 1))"
  "dev_kernel entries node me e (Path (Readdir n)) r = (case fst e of [] \<Rightarrow> if r = RNull then Some e else None
        | x # xs \<Rightarrow> if r = RInts (fst x # codes (snd x)) then Some (xs, snd e) else None)"
  "dev_kernel entries node me e (Path (Stat d)) r = (if r = RInts [fst (node d), snd (node d)] then Some e else None)"
  "dev_kernel entries node me e (Path (Closedir n)) r = (if r = RVal 0 then Some (fst e, snd e - 1) else None)"
  by (simp_all add: dev_kernel_def)

primrec device_in :: "(string \<Rightarrow> int \<times> int) \<Rightarrow> int \<times> int \<Rightarrow> string \<Rightarrow> (int \<times> string) list \<Rightarrow> string option" where
  \<comment> \<open>the first entry that is the device\<close>
  "device_in node me d [] = None"
| "device_in node me d (x # xs) = (if \<not> is_dot (snd x) \<and> fst x = snd me \<and> fst (node (d @ ''/'' @ snd x)) = fst me
     then Some (d @ ''/'' @ snd x) else device_in node me d xs)"

definition tty_path :: "(string \<Rightarrow> (int \<times> string) list) \<Rightarrow> (string \<Rightarrow> int \<times> int) \<Rightarrow> int \<times> int \<Rightarrow> string option" where
  "tty_path entries node me = (case device_in node me ''/dev'' (entries ''/dev'') of Some p \<Rightarrow> Some p
     | None \<Rightarrow> device_in node me ''/dev/pts'' (entries ''/dev/pts''))"

definition short_names :: "string \<Rightarrow> (int \<times> string) list \<Rightarrow> bool" where
  "short_names d xs \<longleftrightarrow> list_all (\<lambda>x. length d + 1 + length (snd x) < TTY_BUF) xs"

lemma appends_scan [append_intros]: "appends (scan_round d dir dev ino u)" "appends (scan_dir d dev ino)"
proof -
  show r: "appends (scan_round d dir dev ino u)" for dir u unfolding scan_round_def Let_def by (intro append_intros)
  show "appends (scan_dir d dev ino)" unfolding scan_dir_def by (intro append_intros r)
qed

lemma rounds_scan [fuel_intros]: "rounds (scan_round d dir dev ino u)"
  unfolding scan_round_def Let_def by (intro fuel_intros; simp)

lemma scan_round_step:
  assumes "short_names d (fst e)"
  shows "under (dev_kernel entries node me) e (scan_round d dir (fst me) (snd me) u) (finishes (\<lambda>x e' w. snd e' = snd e \<and> (case x of
      Inl u \<Rightarrow> device_in node me d (fst e') = device_in node me d (fst e) \<and> short_names d (fst e')
    | Inr found \<Rightarrow> found = device_in node me d (fst e))) (\<lambda>_ _. False)) w"
  unfolding scan_round_def or_die_def Let_def
proof (rule under_set_errno, rule under_call, goal_cases)
  case (3 r rs e1)
  show ?case
  proof (cases "fst e")
    case Nil
    then show ?thesis using 3(2) by (auto simp: dev_kernel_simps is_null_reply_def reply_errno_def split: if_splits intro!: under_get under_leave)
  next
    case (Cons x xs)
    then have r: "r = RInts (fst x # codes (snd x))" "e1 = (xs, snd e)" using 3(2) by (auto simp: dev_kernel_simps split: if_splits)
    have m: "is_null_reply r = False" "field (members_of r) 0 = fst x" "of_codes (tl (members_of r)) = snd x"
      by (simp_all add: r(1) is_null_reply_def members_of_def field_def)
    have len: "\<not> TTY_BUF \<le> length (d @ ''/'' @ snd x)" "short_names d xs" using assms Cons by (auto simp: short_names_def)
    show ?thesis
      unfolding m r(2)
      by (rule under_get) (use len in \<open>auto simp: Cons dev_kernel_simps members_of_def field_def
        intro!: under_call under_again under_leave under_errExit append_intros split: if_splits\<close>)
  qed
qed (auto intro!: append_intros)

lemma scan_dir_finds:
  assumes "short_names d (entries d)"
  shows "under (dev_kernel entries node me) e (scan_dir d (fst me) (snd me))
    (finishes (\<lambda>v e' w. v = device_in node me d (entries d) \<and> snd e' = snd e) (\<lambda>_ _. False)) w"
  unfolding scan_dir_def
proof (rule under_call, goal_cases)
  case (3 r rs e1)
  then have r: "is_null_reply r = False" "e1 = (entries d, snd e + 1)" by (auto simp: dev_kernel_simps split: if_splits)
  have loop: "under (dev_kernel entries node me) e1 (loop (scan_round d (rv r) (fst me) (snd me)) ())
      (finishes (\<lambda>v e' w. v = device_in node me d (entries d) \<and> snd e' = snd e + 1) (\<lambda>_ _. False)) w1" for w1
  proof (rule under_repeat[where I = "\<lambda>u e' w. device_in node me d (fst e') = device_in node me d (entries d)
      \<and> short_names d (fst e') \<and> snd e' = snd e + 1"], goal_cases)
    case (4 u e' w)
    then show ?case by (intro under_weaken[OF scan_round_step]) (auto split: sum.splits)
  qed (use assms in \<open>auto simp: r(2) intro!: append_intros fuel_intros\<close>)
  show ?case
    unfolding r(1) if_False
    by (rule under_then[OF loop]) (auto simp: dev_kernel_simps rv_def intro!: under_call under_ret append_intros split: if_splits)
qed (auto intro!: append_intros)

text \<open>The name that is returned is the first one in the two directories that is the terminal, and every stream is closed.\<close>

lemma ttyname_imp_finds:
  assumes "short_names ''/dev'' (entries ''/dev'')" "short_names ''/dev/pts'' (entries ''/dev/pts'')"
  shows "under (dev_kernel entries node me) e (ttyname_imp fd)
    (finishes (\<lambda>v e' w. v = tty_path entries node me \<and> snd e' = snd e) (\<lambda>_ _. False)) w"
  unfolding ttyname_imp_def or_die_def Let_def
proof (rule under_call, goal_cases)
  case (3 r rs e1)
  then have r: "rv r \<noteq> -1" "e1 = e" "field (members_of r) 0 = fst me" "field (members_of r) 1 = snd me"
    by (auto simp: dev_kernel_simps members_of_def field_def rv_def split: if_splits)
  show ?case
    unfolding if_not_P[OF r(1)] r(2-4)
  proof (rule under_then[OF scan_dir_finds[where entries = entries and node = node and me = me, OF assms(1)]], goal_cases)
    case (1 v e' w')
    then show ?case
      by (cases "device_in node me ''/dev'' (entries ''/dev'')") (auto simp: tty_path_def intro!: under_ret under_weaken[OF scan_dir_finds[where entries = entries and node = node and me = me, OF assms(2)]])
  qed (auto intro!: append_intros)
qed (auto intro!: append_intros)

lemma ends_login: "shrinks getpass_main" "shrinks ttyname_main" "shrinks (douser crypt_of argv)"
proof -
  show "shrinks getpass_main"
    unfolding getpass_main_def getpass_imp_def give_up_def Let_def by (intro fuel_intros; simp)
  show "shrinks ttyname_main"
    unfolding ttyname_main_def ttyname_imp_def scan_dir_def Let_def by (intro fuel_intros)
  have s: "shrinks (case x of Inl n \<Rightarrow> f n | Inr y \<Rightarrow> k y)" if "\<And>n. shrinks (f n)" "\<And>y. shrinks (k y)"
    for x :: "int + string" and f :: "int \<Rightarrow> unit prog" and k
    using that by (cases x) simp_all
  show "shrinks (douser crypt_of argv)"
    unfolding douser_def become_user_def log_in_def by (intro fuel_intros s; simp)
qed

end
