(* ===== verification/Pipeline.thy ===== *)
theory Pipeline
  imports Popen
begin

text \<open>
  Processes joined by pipes (chapter 44): \<open>shell_hookup_process.c\<close> runs two commands as a shell does, \<open>simple_pipe.c\<close> sends a
  message to a child, \<open>pipe_sync.c\<close> waits for children by the end of a pipe. \<open>pipe\<close> is answered with the two descriptors.
\<close>

definition pipe_ends :: "reply \<Rightarrow> int list" where
  "pipe_ends r = (case r of RInts ns \<Rightarrow> ns | _ \<Rightarrow> [])"

section \<open>Two commands\<close>

definition bar_index :: "string list \<Rightarrow> nat" where
  \<comment> \<open>the last argument that is a bar\<close>
  "bar_index argv = foldl (\<lambda>found i. if argv ! i = ''|'' then i else found) 0 [1..<length argv]"

definition exec_command :: "string list \<Rightarrow> unit prog" where
  \<comment> \<open>\<open>execvp(args[0], args)\<close>; an empty list starts with the null pointer\<close>
  "exec_command args = (case args of [] \<Rightarrow> stop (Fault Null_deref)
     | name # rest \<Rightarrow> call (Proc (Execve name args)) (\<lambda>_. errExit ''execvp''))"

definition hookup_child :: "int \<Rightarrow> int \<Rightarrow> int \<Rightarrow> string list \<Rightarrow> unit prog" where
  \<comment> \<open>closes the other end, makes its own end the standard descriptor and executes\<close>
  "hookup_child other own std args = or_die (Fd (Close other)) ''close'' (\<lambda>_.
     if own \<noteq> std then or_die (Fd (Dup2 own std)) ''dup2'' (\<lambda>_. or_die (Fd (Close own)) ''close'' (\<lambda>_. exec_command args))
     else exec_command args)"

definition hookup_parent :: "int \<Rightarrow> int \<Rightarrow> unit prog" where
  "hookup_parent rd wr = or_die (Fd (Close rd)) ''close'' (\<lambda>_. or_die (Fd (Close wr)) ''close'' (\<lambda>_.
     or_die (Proc (Waitpid (-1) [])) ''waitpid'' (\<lambda>_. or_die (Proc (Waitpid (-1) [])) ''waitpid'' (\<lambda>_. exit_prog EXIT_SUCCESS))))"

definition hookup_pipe :: "int \<Rightarrow> int \<Rightarrow> string list \<Rightarrow> string list \<Rightarrow> unit prog" where
  "hookup_pipe rd wr first second = call (Proc Fork) (\<lambda>p1. if rv p1 = -1 then errExit ''fork''
     else if rv p1 = 0 then hookup_child rd wr 1 first
     else call (Proc Fork) (\<lambda>p2. if rv p2 = -1 then errExit ''fork''
       else if rv p2 = 0 then hookup_child wr rd 0 second
       else hookup_parent rd wr))"

definition hookup :: "string list \<Rightarrow> unit prog" where
  "hookup argv = (if length argv < 4 \<or> argv ! 1 = ''--help'' then usageErr (hd argv @ '' command1 arg1 .. | command2 arg2 ..'')
     else let pipe_index = bar_index argv in
       if pipe_index = 0 then fprintf_stderr (''Pipe character must be present.'' @ [NL]) (exit_prog EXIT_FAILURE)
       else call (Ipc Pipe) (\<lambda>p. if rv p = -1 then errExit ''pipe''
         else hookup_pipe (field (pipe_ends p) 0) (field (pipe_ends p) 1)
           (take (pipe_index - 1) (tl argv)) (drop (pipe_index + 1) argv)))"

section \<open>A message for a child\<close>

definition PIPE_BUF_SIZE :: nat where "PIPE_BUF_SIZE = 10"

definition print_round :: "int \<Rightarrow> unit \<Rightarrow> (unit + unit) prog" where
  "print_round rd u = call (Fd (Read rd PIPE_BUF_SIZE)) (\<lambda>r. if rv r = 0 then leave ()
     else if rv r = -1 then errExit ''read''
     else printf (c_str (bytes_read PIPE_BUF_SIZE r @ [NUL])) (again ()))"

definition print_child :: "int \<Rightarrow> int \<Rightarrow> unit prog" where
  "print_child rd wr = or_die (Fd (Close wr)) ''close'' (\<lambda>_. seq (loop (print_round rd) ()) (\<lambda>_.
     printf [NL] (or_die (Fd (Close rd)) ''close'' (\<lambda>_. exit_prog EXIT_SUCCESS))))"

definition send_round :: "int \<Rightarrow> string \<Rightarrow> (string + unit) prog" where
  \<comment> \<open>the state is what is still to be written\<close>
  "send_round wr left_over = (if left_over = [] then leave () else call (Fd (Write wr left_over)) (\<lambda>n.
     if rv n = -1 then errExit ''write'' else again (drop (nat (rv n)) left_over)))"

definition send_parent :: "int \<Rightarrow> int \<Rightarrow> string \<Rightarrow> unit prog" where
  "send_parent rd wr msg = or_die (Fd (Close rd)) ''close'' (\<lambda>_. seq (loop (send_round wr) msg) (\<lambda>_.
     or_die (Fd (Close wr)) ''close'' (\<lambda>_. or_die (Proc (Waitpid (-1) [])) ''waitpid'' (\<lambda>_. exit_prog EXIT_SUCCESS))))"

definition simple_pipe :: "string list \<Rightarrow> unit prog" where
  "simple_pipe argv = (if length argv \<noteq> 2 then usageErr (hd argv @ '' message'' @ [NL])
     else call (Ipc Pipe) (\<lambda>p. if rv p = -1 then errExit ''pipe''
       else let rd = field (pipe_ends p) 0; wr = field (pipe_ends p) 1 in
         call (Proc Fork) (\<lambda>f. if rv f = -1 then errExit ''fork''
           else if rv f = 0 then print_child rd wr else send_parent rd wr (argv ! 1))))"

section \<open>Waiting for children\<close>

definition say :: "string \<Rightarrow> 'a prog \<Rightarrow> 'a prog" where
  \<comment> \<open>\<open>printf\<close> to a stream without a buffer\<close>
  "say s k = printf s (fflush_stdout k)"

definition sync_child :: "int \<Rightarrow> int \<Rightarrow> nat \<Rightarrow> string \<Rightarrow> unit prog" where
  "sync_child rd wr i arg = or_die (Fd (Close rd)) ''close'' (\<lambda>_.
     seq (utils_getNum arg (Some (''Arguments must be integers!'' @ [NL]))) (\<lambda>sleep_time.
       call (Proc (Sleep sleep_time)) (\<lambda>_.
         say (''Child #'' @ show_nat (i + 1) @ '' finished work. Now closing write end of pipe.'' @ [NL])
           (or_die (Fd (Close wr)) ''close'' (\<lambda>_. uexit_prog EXIT_SUCCESS)))))"

definition wait_round :: "unit \<Rightarrow> (unit + unit) prog" where
  "wait_round u = call (Proc (Waitpid (-1) [])) (\<lambda>r. if rv r = -1
     then get errno (\<lambda>e. if e = ECHILD then leave () else if e = EINTR then again () else errExit ''waitpid'')
     else again ())"

definition sync_parent :: "int \<Rightarrow> int \<Rightarrow> unit prog" where
  "sync_parent rd wr = or_die (Fd (Close wr)) ''close'' (\<lambda>_.
     say (''Parent waiting at read() call...'' @ [NL]) (call (Fd (Read rd 1)) (\<lambda>_.
       say (''Parent woke up! Now I can do my work.'' @ [NL]) (seq (loop wait_round ()) (\<lambda>_. exit_prog EXIT_SUCCESS)))))"

definition pipe_sync :: "string list \<Rightarrow> unit prog" where
  "pipe_sync argv = (if length argv < 2 \<or> argv ! 1 = ''--help'' then usageErr (hd argv @ '' sleep-time ...'')
     else call (Ipc Pipe) (\<lambda>p. if rv p = -1 then errExit ''pipe''
       else let rd = field (pipe_ends p) 0; wr = field (pipe_ends p) 1 in
         seq (each (\<lambda>i. call (Proc Fork) (\<lambda>f. if rv f = -1 then errExit ''fork''
             else if rv f = 0 then sync_child rd wr i (argv ! (i + 1)) else ret ())) [0..<length argv - 1])
           (\<lambda>_. sync_parent rd wr)))"

section \<open>The tables of the two commands\<close>

record hookup_env =
  tbl :: "int \<Rightarrow> pipe_end option"
  begun :: "(string list \<times> (int \<Rightarrow> pipe_end option)) list"   \<comment> \<open>what was executed, with the descriptors it has\<close>
  reaped :: nat

definition hookup_kernel :: "hookup_env \<Rightarrow> syscall \<Rightarrow> reply \<Rightarrow> hookup_env option" where
  "hookup_kernel e c r = (case c of
      Ipc Pipe \<Rightarrow> (case r of
          RInts [a, b] \<Rightarrow> if a \<noteq> b \<and> tbl e a = None \<and> tbl e b = None
            then Some (e\<lparr>tbl := (tbl e)(a \<mapsto> Pipe_read, b \<mapsto> Pipe_write)\<rparr>) else None
        | RErr n \<Rightarrow> Some e | _ \<Rightarrow> None)
    | Fd (Dup2 s d) \<Rightarrow> if rv r = -1 then Some e else Some (e\<lparr>tbl := (tbl e)(d := tbl e s)\<rparr>)
    | Fd (Close f) \<Rightarrow> Some (e\<lparr>tbl := (tbl e)(f := None)\<rparr>)
    | Proc (Execve p args) \<Rightarrow> if rv r = -1 then Some e else Some (e\<lparr>begun := begun e @ [(args, tbl e)]\<rparr>)
    | Proc (Waitpid p flags) \<Rightarrow> if rv r = -1 then Some e else Some (e\<lparr>reaped := reaped e + 1\<rparr>)
    | _ \<Rightarrow> Some e)"

lemma hookup_kernel_simps:
  "hookup_kernel e (Fd (Dup2 s d)) r = (if rv r = -1 then Some e else Some (e\<lparr>tbl := (tbl e)(d := tbl e s)\<rparr>))"
  "hookup_kernel e (Fd (Close f)) r = Some (e\<lparr>tbl := (tbl e)(f := None)\<rparr>)"
  "hookup_kernel e (Proc (Execve p args)) r = (if rv r = -1 then Some e else Some (e\<lparr>begun := begun e @ [(args, tbl e)]\<rparr>))"
  "hookup_kernel e (Proc (Waitpid i flags)) r = (if rv r = -1 then Some e else Some (e\<lparr>reaped := reaped e + 1\<rparr>))"
  "hookup_kernel e (Proc Fork) r = Some e"
  by (simp_all add: hookup_kernel_def)

definition hooked :: "hookup_env \<Rightarrow> string list \<Rightarrow> string list \<Rightarrow> unit result \<Rightarrow> hookup_env \<Rightarrow> bool" where
  "hooked e first second r e' \<longleftrightarrow> (begun e' = begun e \<or> begun e' = begun e @ [(first, (tbl e)(1 \<mapsto> Pipe_write))]
      \<or> begun e' = begun e @ [(second, (tbl e)(0 \<mapsto> Pipe_read))])
    \<and> (case r of Exited n \<Rightarrow> n = EXIT_FAILURE \<or> begun e' = begun e \<and> tbl e' = tbl e \<and> reaped e' = reaped e + 2
        | Return u \<Rightarrow> False | _ \<Rightarrow> True)"

lemma hooked_simps [simp]:
  "begun e' = begun e \<Longrightarrow> hooked e first second Blocked e'"
  "begun e' = begun e \<Longrightarrow> hooked e first second (end_of b w) e'"
  "begun e' = begun e \<Longrightarrow> hooked e first second (Fault f) e'"
  by (simp_all add: hooked_def end_of_def EXIT_SUCCESS_def EXIT_FAILURE_def)

lemma hooked_begun:
  "hooked e first second (end_of b w) (e1\<lparr>begun := begun e @ [(first, (tbl e)(1 \<mapsto> Pipe_write))]\<rparr>)"
  "hooked e first second (end_of b w) (e1\<lparr>begun := begun e @ [(second, (tbl e)(0 \<mapsto> Pipe_read))]\<rparr>)"
  by (simp_all add: hooked_def end_of_def EXIT_SUCCESS_def EXIT_FAILURE_def)

lemma appends_hookup [append_intros]: "appends (exec_command args)" "appends (hookup_child other own std args)"
  "appends (hookup_parent rd wr)" "appends (hookup_pipe rd wr first second)"
proof -
  show x: "appends (exec_command args)" for args unfolding exec_command_def by (intro append_intros)
  show c: "appends (hookup_child other own std args)" for other own std args unfolding hookup_child_def by (intro append_intros x)
  show p: "appends (hookup_parent rd wr)" unfolding hookup_parent_def by (intro append_intros)
  show "appends (hookup_pipe rd wr first second)" unfolding hookup_pipe_def by (intro append_intros c p)
qed

definition opened :: "hookup_env \<Rightarrow> int \<Rightarrow> int \<Rightarrow> hookup_env \<Rightarrow> bool" where
  "opened e rd wr e1 \<longleftrightarrow> rd \<noteq> wr \<and> tbl e rd = None \<and> tbl e wr = None \<and> e1 = e\<lparr>tbl := (tbl e)(rd \<mapsto> Pipe_read, wr \<mapsto> Pipe_write)\<rparr>"

lemma exec_command_starts:
  assumes "begun e1 = begun e" "(args, tbl e1) \<in> {(first, (tbl e)(1 \<mapsto> Pipe_write)), (second, (tbl e)(0 \<mapsto> Pipe_read))}"
  shows "under hookup_kernel e1 (exec_command args) (\<lambda>r e' w. hooked e first second r e') w"
  using assms unfolding exec_command_def
  by (cases args) (auto simp: hookup_kernel_simps intro!: under_call under_stop under_errExit append_intros,
    auto simp: hooked_def end_of_def EXIT_SUCCESS_def EXIT_FAILURE_def split: if_splits)

lemma hookup_child_execs:
  assumes "begun e1 = begun e" "(args, T) \<in> {(first, (tbl e)(1 \<mapsto> Pipe_write)), (second, (tbl e)(0 \<mapsto> Pipe_read))}" "own \<noteq> other"
    "T = (if own \<noteq> std then (tbl e1)(other := None, std := tbl e1 own, own := None) else (tbl e1)(other := None))"
  shows "under hookup_kernel e1 (hookup_child other own std args) (\<lambda>r e' w. hooked e first second r e') w"
proof -
  have start: "under hookup_kernel e2 (exec_command args) (\<lambda>r e' w. hooked e first second r e') w" if "begun e2 = begun e" "tbl e2 = T" for e2 w
    by (rule exec_command_starts) (use assms(2) that in auto)
  have failed: "hooked e first second (end_of b w) e2" if "begun e2 = begun e" for e2 b w using that by simp
  have wait: "hooked e first second Blocked e2" if "begun e2 = begun e" for e2 using that by simp
  show ?thesis
  proof (cases "own = std")
    case True
    with assms(1,4) show ?thesis
      unfolding hookup_child_def or_die_def
      by (auto simp: hookup_kernel_simps intro!: under_call under_errExit append_intros start failed wait)
  next
    case False
    with assms(1,3,4) show ?thesis
      unfolding hookup_child_def or_die_def
      by (auto simp: hookup_kernel_simps intro!: under_call under_errExit append_intros start failed wait)
  qed
qed

lemma hookup_child_starts:
  assumes "opened e rd wr e1"
  shows "under hookup_kernel e1 (hookup_child rd wr 1 first) (\<lambda>r e' w. hooked e first second r e') w"
    "under hookup_kernel e1 (hookup_child wr rd 0 second) (\<lambda>r e' w. hooked e first second r e') w"
  by (rule hookup_child_execs[where T = "(tbl e)(1 \<mapsto> Pipe_write)"], use assms in \<open>auto simp: opened_def fun_eq_iff\<close>)
    (rule hookup_child_execs[where T = "(tbl e)(0 \<mapsto> Pipe_read)"], use assms in \<open>auto simp: opened_def fun_eq_iff\<close>)

lemma hookup_parent_waits:
  assumes "opened e rd wr e1"
  shows "under hookup_kernel e1 (hookup_parent rd wr) (\<lambda>r e' w. hooked e first second r e') w"
proof -
  have same: "((tbl e)(rd \<mapsto> Pipe_read, wr \<mapsto> Pipe_write))(rd := None, wr := None) = tbl e"
    using assms by (auto simp: opened_def fun_eq_iff)
  have ok: "hooked e first second (Exited EXIT_SUCCESS) (e\<lparr>tbl := tbl e, reaped := Suc (Suc (reaped e))\<rparr>)" by (simp add: hooked_def)
  show ?thesis
    unfolding hookup_parent_def or_die_def using assms same ok
    by (auto simp: hookup_kernel_simps opened_def intro!: under_call under_errExit under_exit append_intros)
qed

text \<open>C34: The two commands are joined as a shell joins them: a process that executes the first command has the pipe as its standard
  output, one that executes the second has it as its standard input, both have no other descriptor of it; the process itself
  exits with success only when it has closed both ends and waited for two children.
\<close>

theorem hookup_joins_commands:
  assumes "hookup argv w = (r, w')" "trace w' = trace w @ t" "run hookup_kernel e t = Some e'"
  shows "(begun e' = begun e
      \<or> begun e' = begun e @ [(take (bar_index argv - 1) (tl argv), (tbl e)(1 \<mapsto> Pipe_write))]
      \<or> begun e' = begun e @ [(drop (bar_index argv + 1) argv, (tbl e)(0 \<mapsto> Pipe_read))])
    \<and> (case r of Exited n \<Rightarrow> n = EXIT_FAILURE \<or> begun e' = begun e \<and> tbl e' = tbl e \<and> reaped e' = reaped e + 2
        | Return (u :: unit) \<Rightarrow> False | _ \<Rightarrow> True)"
proof -
  let ?first = "take (bar_index argv - 1) (tl argv)" and ?second = "drop (bar_index argv + 1) argv"
  have failed: "hooked e f s (Exited EXIT_FAILURE) e" for f s by (simp add: hooked_def)
  have "under hookup_kernel e (hookup argv) (\<lambda>r e' w. hooked e ?first ?second r e') w"
  proof (cases "(length argv < 4 \<or> argv ! 1 = ''--help'') \<or> bar_index argv = 0")
    case True
    then show ?thesis
      unfolding hookup_def Let_def by (auto intro!: under_usageErr under_stderr under_exit failed)
  next
    case False
    have "under hookup_kernel e (call (Ipc Pipe) (\<lambda>p. if rv p = -1 then errExit ''pipe''
        else hookup_pipe (field (pipe_ends p) 0) (field (pipe_ends p) 1) ?first ?second)) (\<lambda>r e' w. hooked e ?first ?second r e') w"
    proof (rule under_call, goal_cases)
      case (3 p rs e1)
      show ?case
      proof (cases "\<exists>n. p = RErr n")
        case True
        with 3(2) have "e1 = e" by (auto simp: hookup_kernel_def)
        with True show ?thesis by (auto simp: rv_def intro!: under_errExit)
      next
        case False
        with 3(2) obtain a b where p: "p = RInts [a, b]" "opened e a b e1"
          by (auto simp: hookup_kernel_def opened_def split: reply.splits list.splits if_splits)
        have kept: "begun e1 = begun e" using p(2) by (simp add: opened_def)
        show ?thesis
          unfolding p(1) hookup_pipe_def
          by (auto simp: pipe_ends_def field_def rv_def hookup_kernel_simps kept
              intro!: under_call under_errExit append_intros hookup_child_starts[OF p(2)] hookup_parent_waits[OF p(2)])
      qed
    qed (auto intro!: append_intros)
    then show ?thesis using False by (simp add: hookup_def Let_def)
  qed
  from under_run[OF this assms] show ?thesis by (simp add: hooked_def)
qed

definition demo_hookup :: "unit result \<times> world" where
  "demo_hookup = hookup [''sh'', ''ls'', ''-l'', ''|'', ''wc''] (booted [RInts [3, 4], RVal 70, RVal 0, RVal 0, RVal 0, RVal 0, RVal 0])"

lemma demo_hookup_runs:
  "map_option (\<lambda>e. map (\<lambda>(args, t). (args, map t [0, 1, 3, 4])) (begun e))
     (run hookup_kernel \<lparr>tbl = [0 \<mapsto> Other_file 0, 1 \<mapsto> Other_file 1], begun = [], reaped = 0\<rparr> (trace (snd demo_hookup)))
    = Some [([''wc''], [Some Pipe_read, Some (Other_file 1), None, None])]"
  by code_simp

lemma hookup_joins_commands_witness:
  "map_option (\<lambda>e. map (\<lambda>(args, t). (args, t 0, t 1, t 3)) (begun e))
     (run hookup_kernel \<lparr>tbl = [0 \<mapsto> Other_file 0, 1 \<mapsto> Other_file 1], begun = [], reaped = 0\<rparr> (trace (snd demo_hookup)))
    = Some [([''wc''], Some Pipe_read, Some (Other_file 1), None)]"
proof -
  let ?e = "\<lparr>tbl = [0 \<mapsto> Other_file 0, 1 \<mapsto> Other_file 1], begun = [], reaped = 0\<rparr>"
  obtain e' where e': "run hookup_kernel ?e (trace (snd demo_hookup)) = Some e'" "length (begun e') = 1" "fst (hd (begun e')) = [''wc'']"
    using demo_hookup_runs by (auto simp: case_prod_beta)
  have r: "hookup [''sh'', ''ls'', ''-l'', ''|'', ''wc''] (booted [RInts [3, 4], RVal 70, RVal 0, RVal 0, RVal 0, RVal 0, RVal 0])
    = (fst demo_hookup, snd demo_hookup)" by (simp add: demo_hookup_def)
  have t: "u = trace (booted rs) @ u" for u rs by simp
  have b: "bar_index [''sh'', ''ls'', ''-l'', ''|'', ''wc''] = 3" by code_simp
  from hookup_joins_commands[OF r t e'(1), THEN conjunct1] e'(2,3) have "begun e' = [([''wc''], (tbl ?e)(0 \<mapsto> Pipe_read))]"
    by (auto simp: b)
  then show ?thesis unfolding e'(1) by simp
qed

section \<open>What is sent is printed\<close>

definition stream_kernel :: "string \<times> string \<Rightarrow> syscall \<Rightarrow> reply \<Rightarrow> (string \<times> string) option" where
  \<comment> \<open>what the pipe still delivers, what was written to it; a write takes at least one byte\<close>
  "stream_kernel e c r = (case c of
      Fd (Read fd n) \<Rightarrow> if rv r = -1 then Some e
        else if r = RData (take (length (bytes r)) (fst e)) \<and> length (bytes r) \<le> n \<and> (bytes r = [] \<longrightarrow> fst e = [])
          then Some (drop (length (bytes r)) (fst e), snd e) else None
    | Fd (Write fd s) \<Rightarrow> if rv r = -1 then Some e
        else if 0 < rv r \<and> rv r \<le> int (length s) then Some (fst e, snd e @ take (nat (rv r)) s) else None
    | _ \<Rightarrow> Some e)"

lemma stream_kernel_simps:
  "stream_kernel e (Fd (Read fd n)) r = (if rv r = -1 then Some e
        else if r = RData (take (length (bytes r)) (fst e)) \<and> length (bytes r) \<le> n \<and> (bytes r = [] \<longrightarrow> fst e = [])
          then Some (drop (length (bytes r)) (fst e), snd e) else None)"
  "stream_kernel e (Fd (Write fd s)) r = (if rv r = -1 then Some e
        else if 0 < rv r \<and> rv r \<le> int (length s) then Some (fst e, snd e @ take (nat (rv r)) s) else None)"
  "stream_kernel e (Fd (Close fd)) r = Some e" "stream_kernel e (Proc p) r = Some e"
  by (simp_all add: stream_kernel_def)

lemma appends_stream [append_intros]: "appends (print_round rd u)" "appends (send_round wr s)" "appends (print_child rd wr)" "appends (send_parent rd wr s)"
proof -
  show p: "appends (print_round rd u)" for rd u unfolding print_round_def by (intro append_intros)
  show s: "appends (send_round wr s)" for wr s unfolding send_round_def by (intro append_intros)
  show "appends (print_child rd wr)" unfolding print_child_def by (intro append_intros p)
  show "appends (send_parent rd wr s)" unfolding send_parent_def by (intro append_intros s)
qed

lemma rounds_stream [fuel_intros]: "rounds (print_round rd u)" "rounds (send_round wr s)"
  unfolding print_round_def send_round_def by (intro fuel_intros)+

lemma stream_read:
  assumes "stream_kernel e (Fd (Read fd n)) r = Some e1"
  shows "rv r = -1 \<and> e1 = e \<or> (\<exists>s. r = RData s \<and> fst e = s @ fst e1 \<and> length s \<le> n \<and> (s = [] \<longrightarrow> fst e = []))"
proof (cases "rv r = -1")
  case False
  with assms have r: "r = RData (take (length (bytes r)) (fst e))" "length (bytes r) \<le> n" "bytes r = [] \<longrightarrow> fst e = []"
      "fst e1 = drop (length (bytes r)) (fst e)"
    by (auto simp: stream_kernel_simps simp del: length_0_conv split: if_splits)
  obtain s where s: "r = RData s" using r(1) by blast
  with r(1) have "s = take (length s) (fst e)" by (simp add: bytes_def)
  then have "fst e = s @ drop (length s) (fst e)" by (metis append_take_drop_id)
  then show ?thesis using r(2-4) s by (auto simp: bytes_def)
qed (use assms in \<open>simp add: stream_kernel_simps\<close>)

text \<open>A parent that exits with success has written the whole message, however the writes were cut.\<close>

lemma send_parent_sends: "under stream_kernel e (send_parent rd wr msg) (finishes (\<lambda>_ _ _. False) (\<lambda>e' w. snd e' = snd e @ msg)) w"
proof -
  have loop: "under stream_kernel e (loop (send_round wr) msg) (finishes (\<lambda>_ e' w. snd e' = snd e @ msg) (\<lambda>_ _. False)) w" for e w
  proof (rule under_repeat[where I = "\<lambda>s e' w. snd e' @ s = snd e @ msg"], goal_cases)
    case (4 s e' w)
    then show ?case
      unfolding send_round_def
      by (auto simp: stream_kernel_simps intro!: under_leave under_call under_again under_errExit append_intros split: if_splits)
  qed (auto intro!: append_intros fuel_intros)
  show ?thesis
    unfolding send_parent_def or_die_def
    by (auto simp: stream_kernel_simps intro!: under_call under_then[OF loop] under_exit under_errExit append_intros)
qed

text \<open>A child that exits with success has printed all that was written, when there is no null byte in it.\<close>

lemma print_child_prints:
  assumes "NUL \<notin> set (fst e)" "out w = []" "obuf w = []"
  shows "under stream_kernel e (print_child rd wr) (finishes (\<lambda>_ _ _. False) (\<lambda>e' w'. fst e' = [] \<and> out w' = fst e @ [NL])) w"
proof -
  have loop: "under stream_kernel e (loop (print_round rd) ())
      (finishes (\<lambda>_ e' w. fst e' = [] \<and> out w = [] \<and> obuf w = fst e) (\<lambda>_ _. False)) w1" if "NUL \<notin> set (fst e)" "out w1 = []" "obuf w1 = []" for e w1
  proof (rule under_repeat[where I = "\<lambda>u e' w. out w = [] \<and> obuf w @ fst e' = fst e"], goal_cases)
    case (4 u e' w)
    then have n: "NUL \<notin> set (fst e')" using that(1) by (metis UnI2 set_append)
    show ?case
      unfolding print_round_def
    proof (rule under_call, goal_cases)
      case (3 r rs e1)
      from stream_read[OF 3(2)] consider (failed) "rv r = -1" "e1 = e'" | (got) s where "r = RData s" "fst e' = s @ fst e1"
          "length s \<le> PIPE_BUF_SIZE" "s = [] \<longrightarrow> fst e' = []" by blast
      then show ?case
      proof cases
        case got
        then have c: "c_str (bytes_read PIPE_BUF_SIZE r @ [NUL]) = s" using n by (simp add: bytes_read_def bytes_def)
        show ?thesis
          using 4 got c by (auto simp: rv_def intro!: under_leave under_printf under_again under_errExit append_intros)
      qed (auto intro!: under_errExit)
    qed (auto intro!: append_intros)
  qed (use that in \<open>auto intro!: append_intros fuel_intros\<close>)
  show ?thesis
    unfolding print_child_def or_die_def
    using assms
    by (auto simp: stream_kernel_simps flushed_def intro!: under_call under_then[OF loop] under_exit under_printf under_errExit append_intros)
qed

lemma ends_pipeline: "shrinks (hookup argv)" "shrinks (simple_pipe argv)" "shrinks (pipe_sync argv)"
proof -
  have x: "shrinks (exec_command args)" for args unfolding exec_command_def by (intro fuel_intros; simp)
  show "shrinks (hookup argv)"
    unfolding hookup_def hookup_pipe_def hookup_child_def hookup_parent_def Let_def by (intro fuel_intros x)
  show "shrinks (simple_pipe argv)"
    unfolding simple_pipe_def print_child_def send_parent_def Let_def by (intro fuel_intros)
  have n: "shrinks (utils_getNum s m)" for s m unfolding utils_getNum_def by (intro fuel_intros)
  show "shrinks (pipe_sync argv)"
    unfolding pipe_sync_def sync_child_def sync_parent_def say_def wait_round_def Let_def by (intro fuel_intros n)
qed

end
