(* ===== verification/Chat.thy ===== *)
theory Chat
  imports Conform
begin

text \<open>
  \<open>52_Posix_Message_Queues/pmsg_chat.c\<close>: two users talk through two message queues. The flags of the signal handlers are read like
  replies of the kernel; \<open>fgets\<close> is answered with the line, or with null when it is interrupted or there is no more.
\<close>

section \<open>The program\<close>

definition MAX_MSG_SIZE :: nat where "MAX_MSG_SIZE = 4096"
definition PID_INPUT :: nat where "PID_INPUT = 20"

definition chat_queue :: "int \<Rightarrow> string" where
  "chat_queue pid = ''/chat_usr_pmsg.'' @ show_int pid"

definition unlink_pmsg :: "string \<Rightarrow> unit prog" where
  "unlink_pmsg pmsg_name = call (Ipc (Mq_unlink pmsg_name)) (\<lambda>r. if rv r = -1 then errMsg ''mq_unlink'' (ret ()) else ret ())"

definition get_input :: "nat \<Rightarrow> string \<Rightarrow> string option prog" where
  \<comment> \<open>into an array of \<open>cap\<close> bytes; \<open>fgets\<close> is told that it has \<open>MAX_MSG_SIZE\<close>\<close>
  "get_input cap prompt = printf prompt (fflush_stdout (lib ''fgets'' [int MAX_MSG_SIZE] (\<lambda>r.
     if is_null_reply r then printf [NL] (ret None)
     else let raw = take (MAX_MSG_SIZE - 1) (bytes r); line = c_str raw in
       if cap \<le> length raw then stop (Fault Buffer_overflow)
       else if line = [] then stop (Fault Out_of_bounds)
       else ret (Some (if last line = NL then butlast line else line)))))"

definition process_msg :: "int \<Rightarrow> string \<Rightarrow> string prog" where
  \<comment> \<open>the static array is given and returned\<close>
  "process_msg mqd in_msg = call (Ipc (Mq_receive mqd MAX_MSG_SIZE)) (\<lambda>r.
     if rv r = -1 then errMsg ''Failed to read msg. (^C to quit)'' (ret in_msg)
     else let in_msg' = store_bytes MAX_MSG_SIZE r in_msg in
       checked (string_at in_msg' 0) (\<lambda>s. printf (s @ [NL]) (ret in_msg')))"

definition chat_register :: "int \<Rightarrow> 'a prog \<Rightarrow> 'a prog" where
  "chat_register mqd k = or_die (Lib ''mq_notify'' [mqd]) ''mq_notify'' (\<lambda>_. k)"

definition chat_round :: "int \<Rightarrow> int \<Rightarrow> string \<Rightarrow> (string + unit) prog" where
  "chat_round mqd peer_mqd in_msg = seq (get_input MAX_MSG_SIZE ''> '') (\<lambda>input. case input of
       None \<Rightarrow> lib ''quit'' [] (\<lambda>quit. if rv quit \<noteq> 0 then leave ()
         else lib ''msg_arrived'' [] (\<lambda>arrived. if rv arrived \<noteq> 0
           then seq (process_msg mqd in_msg) (\<lambda>in_msg'. chat_register mqd (again in_msg'))
           else fatal ''getinput''))
     | Some out_msg \<Rightarrow> call (Ipc (Mq_send peer_mqd (out_msg @ [NUL]))) (\<lambda>s.
         if rv s = -1 then errMsg ''Failed to send msg. (^C to quit)'' (again in_msg) else again in_msg))"

definition connect_round :: "string \<Rightarrow> unit \<Rightarrow> (unit + int) prog" where
  "connect_round peer u = call (Ipc (Mq_open peer ''O_WRONLY|O_NONBLOCK'')) (\<lambda>q. if rv q \<noteq> -1 then leave (rv q)
     else printf ''.'' (fflush_stdout (lib ''sigtimedwait'' [1, 0] (\<lambda>s.
       if rv s \<noteq> -1 then printf [NL] (fatal ''SIGINT or SIGTERM caught'') else again ()))))"

definition chat_talk :: "int \<Rightarrow> int \<Rightarrow> unit prog" where
  \<comment> \<open>from the name of the peer's queue to the end\<close>
  "chat_talk mqd peer_pid = printf (chat_queue peer_pid @ '' - connecting'') (fflush_stdout
     (seq (loop (connect_round (chat_queue peer_pid)) ()) (\<lambda>peer_mqd.
       printf ([NL] @ ''Successfully opened peer's pmsg.'' @ [NL]) (chat_register mqd
         (seq (loop (chat_round mqd peer_mqd) (replicate MAX_MSG_SIZE NUL)) (\<lambda>_.
           call (Ipc (Mq_close mqd)) (\<lambda>_. exit_prog EXIT_SUCCESS)))))))"

definition peer_of :: "string list \<Rightarrow> int prog" where
  "peer_of argv = (if length argv = 2 then getInt (Some (argv ! 1)) GN_NONNEG (Some ''peer-pid'')
     else seq (get_input PID_INPUT ''Enter peer's pid: '') (\<lambda>input. case input of None \<Rightarrow> fatal ''get_input''
       | Some s \<Rightarrow> getInt (Some s) GN_NONNEG (Some ''peeripid'')))"

definition pmsg_chat :: "string list \<Rightarrow> unit prog" where
  "pmsg_chat argv = (if 2 < length argv \<or> length argv = 2 \<and> argv ! 1 = ''--help'' then usageErr (hd argv @ '' [peer-pid]'')
     else or_die (Proc (Sigaction ''SIGINT'' ''sig_catcher'')) ''sigaction'' (\<lambda>_.
       or_die (Proc (Sigaction ''SIGTERM'' ''sig_catcher'')) ''sigaction'' (\<lambda>_.
       or_die (Proc (Sigaction ''SIGUSR1'' ''pmsg_notify'')) ''sigaction'' (\<lambda>_.
       call (Proc Getpid) (\<lambda>p1. printf (''Your pid: '' @ show_int (rv p1) @ [NL]) (call (Proc Getpid) (\<lambda>p.
         or_die (Ipc (Mq_open (chat_queue (rv p)) ''O_RDONLY|O_CREAT|O_EXCL'')) ''mq_open'' (\<lambda>mqd.
         call (Proc (Atexit ''unlink_pmsg'')) (\<lambda>a. if rv a \<noteq> 0 then errExit ''atexit''
           else at_exit (unlink_pmsg (chat_queue (rv p)))
             (seq (peer_of argv) (\<lambda>peer_pid. chat_talk (rv mqd) peer_pid)))))))))))"

section \<open>What is said\<close>

record chat_env =
  typed :: "string list"      \<comment> \<open>the lines of the user\<close>
  mailed :: "string list"     \<comment> \<open>the messages sent\<close>
  arrived :: "string list"    \<comment> \<open>the messages received\<close>

definition chat_kernel :: "chat_env \<Rightarrow> syscall \<Rightarrow> reply \<Rightarrow> chat_env option" where
  \<comment> \<open>a line is text that ends with a newline and leaves room for it; no message is lost; a message is one that the program sends\<close>
  "chat_kernel e c r = (case c of
      Lib f as \<Rightarrow> if f = ''fgets'' then (if is_null_reply r then Some e
          else case r of RData s \<Rightarrow> if s \<noteq> [] \<and> last s = NL \<and> NUL \<notin> set s \<and> length s < MAX_MSG_SIZE
              then Some (e\<lparr>typed := typed e @ [butlast s]\<rparr>) else None
            | _ \<Rightarrow> None)
        else Some e
    | Ipc (Mq_send q m) \<Rightarrow> if rv r = -1 then None else Some (e\<lparr>mailed := mailed e @ [m]\<rparr>)
    | Ipc (Mq_receive q n) \<Rightarrow> if rv r = -1 then Some e
        else (case r of RData m \<Rightarrow> if m \<noteq> [] \<and> last m = NUL \<and> NUL \<notin> set (butlast m) \<and> length m \<le> MAX_MSG_SIZE
              then Some (e\<lparr>arrived := arrived e @ [butlast m]\<rparr>) else None
            | _ \<Rightarrow> None)
    | _ \<Rightarrow> Some e)"

lemma chat_kernel_simps:
  "chat_kernel e (Lib f as) r = (if f = ''fgets'' then (if is_null_reply r then Some e
          else case r of RData s \<Rightarrow> if s \<noteq> [] \<and> last s = NL \<and> NUL \<notin> set s \<and> length s < MAX_MSG_SIZE
              then Some (e\<lparr>typed := typed e @ [butlast s]\<rparr>) else None
            | _ \<Rightarrow> None)
        else Some e)"
  "chat_kernel e (Ipc (Mq_send q m)) r = (if rv r = -1 then None else Some (e\<lparr>mailed := mailed e @ [m]\<rparr>))"
  "chat_kernel e (Ipc (Mq_receive q n)) r = (if rv r = -1 then Some e
        else (case r of RData m \<Rightarrow> if m \<noteq> [] \<and> last m = NUL \<and> NUL \<notin> set (butlast m) \<and> length m \<le> MAX_MSG_SIZE
              then Some (e\<lparr>arrived := arrived e @ [butlast m]\<rparr>) else None
            | _ \<Rightarrow> None))"
  by (simp_all add: chat_kernel_def)

lemma appends_chat [append_intros]: "appends (get_input cap prompt)" "appends (process_msg mqd m)"
  "appends k \<Longrightarrow> appends (chat_register mqd k)" "appends (connect_round peer u)"
proof -
  show "appends (get_input cap prompt)" unfolding get_input_def Let_def by (intro append_intros)
  show "appends (process_msg mqd m)" unfolding process_msg_def Let_def by (intro append_intros)
  show "appends (chat_register mqd k)" if "appends k" for k :: "'z prog" unfolding chat_register_def by (intro append_intros that)
  show "appends (connect_round peer u)" unfolding connect_round_def by (intro append_intros)
qed

lemma appends_chat_round [append_intros]: "appends (chat_round mqd q m)"
  unfolding chat_round_def by (intro append_intros)

lemma shrinks_chat [fuel_intros]: "shrinks (get_input cap prompt)" "shrinks (process_msg mqd m)"
  "shrinks k \<Longrightarrow> shrinks (chat_register mqd k)"
proof -
  show "shrinks (get_input cap prompt)" unfolding get_input_def Let_def by (intro fuel_intros; simp)
  show "shrinks (process_msg mqd m)" unfolding process_msg_def Let_def by (intro fuel_intros)
  show "shrinks (chat_register mqd k)" if "shrinks k" for k :: "'z prog" unfolding chat_register_def by (intro fuel_intros that)
qed

lemma rounds_chat [fuel_intros]: "rounds (chat_round mqd q m)" "rounds (connect_round peer u)"
  unfolding chat_round_def connect_round_def by (intro fuel_intros)+

text \<open>A line is stored without its newline, whatever was typed, when the array is as long as \<open>fgets\<close> is told.\<close>

lemma get_input_stores:
  assumes "cap = MAX_MSG_SIZE"
  shows "under chat_kernel e (get_input cap prompt) (finishes (\<lambda>x e' w. case x of None \<Rightarrow> e' = e
    | Some s \<Rightarrow> e' = e\<lparr>typed := typed e @ [s]\<rparr>) (\<lambda>_ _. False)) w"
  unfolding get_input_def lib_def
proof (intro under_printf under_flush, rule under_call, goal_cases)
  case (3 r rs e1)
  show ?case
  proof (cases "is_null_reply r")
    case True
    with 3(2) show ?thesis by (auto simp: chat_kernel_simps intro!: under_printf under_ret)
  next
    case False
    with 3(2) obtain s where s: "r = RData s" "s \<noteq> []" "last s = NL" "NUL \<notin> set s" "length s < MAX_MSG_SIZE"
        "e1 = e\<lparr>typed := typed e @ [butlast s]\<rparr>"
      by (auto simp: chat_kernel_simps split: reply.splits if_splits)
    have raw: "take (MAX_MSG_SIZE - 1) s = s" "c_str s = s" using s(4,5) by (simp_all add: c_str_id)
    show ?thesis
      using False s(2-5) by (auto simp: s(1,6) bytes_def raw assms Let_def intro!: under_ret)
  qed
qed (auto simp: Let_def intro!: append_intros)

text \<open>A message of the peer is printed as it was typed.\<close>

lemma process_msg_prints:
  assumes "length in_msg = MAX_MSG_SIZE"
  shows "under chat_kernel e (process_msg mqd in_msg) (finishes (\<lambda>m' e' w'. length m' = MAX_MSG_SIZE \<and> typed e' = typed e \<and> mailed e' = mailed e
    \<and> (e' = e \<or> arrived e' = arrived e @ [c_str m'] \<and> obuf w' = obuf w @ c_str m' @ [NL])) (\<lambda>_ _. False)) w"
  unfolding process_msg_def
proof (rule under_call, goal_cases)
  case (3 r rs e1)
  show ?case
  proof (cases "rv r = -1")
    case True
    with 3(2) assms show ?thesis by (auto simp: chat_kernel_simps intro!: under_errMsg under_ret)
  next
    case False
    with 3(2) obtain m where m: "r = RData m" "m \<noteq> []" "last m = NUL" "NUL \<notin> set (butlast m)" "length m \<le> MAX_MSG_SIZE"
        "e1 = e\<lparr>arrived := arrived e @ [butlast m]\<rparr>"
      by (auto simp: chat_kernel_simps split: reply.splits if_splits)
    have eq: "m = butlast m @ [NUL]" using m(2,3) by (metis append_butlast_last_id)
    have st: "store_bytes MAX_MSG_SIZE r in_msg = butlast m @ NUL # drop (length m) in_msg"
      using m(1,5) eq by (simp add: store_bytes_def bytes_read_def bytes_def)
    have c: "c_str (store_bytes MAX_MSG_SIZE r in_msg) = butlast m" using m(4) by (simp add: st)
    have len: "length (store_bytes MAX_MSG_SIZE r in_msg) = MAX_MSG_SIZE"
      using m(2,5) assms by (cases "length m") (auto simp: st)
    have z: "string_at (store_bytes MAX_MSG_SIZE r in_msg) 0 = Inr (butlast m)" using c by (simp add: string_at_def st)
    show ?thesis
      unfolding if_not_P[OF False] Let_def z checked_def sum.case
      using m(6) c len by (auto intro!: under_printf under_ret)
  qed
qed (auto simp: Let_def intro!: append_intros)

text \<open>Whatever arrives in between, what is sent is what is typed, line by line and each with its null byte; nothing faults.\<close>

lemma chat_says_all:
  assumes "mailed e = map (\<lambda>s. s @ [NUL]) (typed e)" "length in_msg = MAX_MSG_SIZE"
  shows "under chat_kernel e (loop (chat_round mqd q) in_msg)
    (finishes (\<lambda>_ e' w. mailed e' = map (\<lambda>s. s @ [NUL]) (typed e')) (\<lambda>_ _. False)) w"
proof (rule under_repeat[where I = "\<lambda>m e' w. length m = MAX_MSG_SIZE \<and> mailed e' = map (\<lambda>s. s @ [NUL]) (typed e')"], goal_cases)
  case (4 m e w)
  show ?case
    unfolding chat_round_def
  proof (rule under_then[OF get_input_stores[OF refl]], goal_cases)
    case (1 x e1 w1)
    then show ?case
    proof (cases x)
      case (Some s)
      with 1 4 show ?thesis by (auto simp: chat_kernel_simps intro!: under_call under_errMsg under_again append_intros)
    next
      case None
      with 1 have e1: "e1 = e" by simp
      have more: "under chat_kernel e (seq (process_msg mqd m) (\<lambda>m'. chat_register mqd (again m')))
          (finishes (\<lambda>x e' w'. case x of Inl m \<Rightarrow> length m = MAX_MSG_SIZE \<and> mailed e' = map (\<lambda>s. s @ [NUL]) (typed e')
            | Inr a \<Rightarrow> mailed e' = map (\<lambda>s. s @ [NUL]) (typed e')) (\<lambda>_ _. False)) w2" for w2
        using 4 by (intro under_then[OF process_msg_prints])
          (auto simp: chat_register_def or_die_def chat_kernel_simps intro!: under_call under_again under_errExit append_intros)
      have dead: "under chat_kernel e (fatal ''getinput'') (finishes (\<lambda>x e' w'. case x of
          Inl m \<Rightarrow> length m = MAX_MSG_SIZE \<and> mailed e' = map (\<lambda>s. s @ [NUL]) (typed e')
            | Inr a \<Rightarrow> mailed e' = map (\<lambda>s. s @ [NUL]) (typed e')) (\<lambda>_ _. False)) w2" for w2
        by (rule under_fatal) (simp, simp add: finishes_def)
      show ?thesis
        unfolding None option.case lib_def e1 using 4
        by (auto simp: chat_kernel_simps intro!: under_call under_leave dead more append_intros)
    qed
  qed (auto intro!: append_intros split: option.splits)
qed (use assms in \<open>auto intro!: append_intros fuel_intros\<close>)

lemma ends_chat: "shrinks (pmsg_chat argv)"
proof -
  have t: "shrinks (chat_talk mqd p)" for mqd p unfolding chat_talk_def by (intro fuel_intros)
  have p: "shrinks (peer_of argv)" unfolding peer_of_def by (intro fuel_intros)
  have u: "shrinks (unlink_pmsg q)" for q unfolding unlink_pmsg_def by (intro fuel_intros)
  show ?thesis unfolding pmsg_chat_def by (intro fuel_intros t p u)
qed

end
