(* ===== verification/Timers.thy ===== *)
theory Timers
  imports Conform
begin

text \<open>
  Timers (chapter 23): \<open>imp_alarm.c\<close> is \<open>alarm\<close> with an interval timer, \<open>sequential.c\<close> waits for the signals of timers that its
  arguments describe. A timer is answered with its seconds and microseconds.
\<close>

section \<open>imp\_alarm\<close>

definition timer_of :: "reply \<Rightarrow> int list" where
  "timer_of r = (case r of RInts ns \<Rightarrow> ns | _ \<Rightarrow> [])"

definition imp_alarm :: "int \<times> int \<Rightarrow> int \<Rightarrow> int prog" where
  \<comment> \<open>\<open>junk\<close> is what is in the interval of \<open>disable\<close>, which is never set\<close>
  "imp_alarm junk seconds = lib ''getitimer'' [] (\<lambda>previous. if rv previous = -1 then ret (to_uint32 (-1))
     else let sec = field (timer_of previous) 0; usec = field (timer_of previous) 1;
         remaining = (if sec = 0 \<and> usec = 0 then 0 else to_uint32 sec) in
       if seconds = 0 then lib ''setitimer'' [0, 0, fst junk, snd junk] (\<lambda>r. if rv r = -1 then ret (to_uint32 (-1)) else ret remaining)
       else lib ''setitimer'' [seconds, 0, 0, 0] (\<lambda>_. ret remaining))"

section \<open>sequential\<close>

definition str_before :: "char \<Rightarrow> string \<Rightarrow> string" where
  \<comment> \<open>the string up to the first \<open>c\<close>, where \<open>strchr\<close> finds it\<close>
  "str_before c s = takeWhile (\<lambda>x. x \<noteq> c) s"

definition str_after :: "char \<Rightarrow> string \<Rightarrow> string option" where
  "str_after c s = (if c \<in> set s then Some (tl (dropWhile (\<lambda>x. x \<noteq> c) s)) else None)"

definition sec_nsec :: "string \<Rightarrow> int \<times> int" where
  "sec_nsec s = (atoi (str_before (CHR ''/'') s), case str_after (CHR ''/'') s of None \<Rightarrow> 0 | Some t \<Rightarrow> atoi t)"

definition itimerspecFromStr :: "string \<Rightarrow> (int \<times> int) \<times> (int \<times> int)" where
  \<comment> \<open>the value and the interval\<close>
  "itimerspecFromStr str = (sec_nsec (str_before (CHR '':'') str), case str_after (CHR '':'') str of None \<Rightarrow> (0, 0) | Some t \<Rightarrow> sec_nsec t)"

definition currTime :: "(string option \<Rightarrow> 'a prog) \<Rightarrow> 'a prog" where
  "currTime k = lib ''time'' [] (\<lambda>t. lib ''localtime'' [rv t] (\<lambda>tm. if is_null_reply tm then k None
     else lib ''strftime'' [] (\<lambda>s. k (if bytes s = [] then None else Some (bytes s)))))"

definition arm_timer :: "int list \<Rightarrow> string \<Rightarrow> int list prog" where
  \<comment> \<open>creates a timer, adds its number to the list and starts it\<close>
  "arm_timer tidlist arg = (case itimerspecFromStr arg of ((sec, nsec), (int_sec, int_nsec)) \<Rightarrow>
     or_die (Lib ''timer_create'' [int (length tidlist)]) ''timer_create'' (\<lambda>t.
       printf (''Timer ID: '' @ show_int (rv t) @ '' ('' @ arg @ '')'' @ [NL])
         (or_die (Lib ''timer_settime'' [rv t, sec, nsec, int_sec, int_nsec]) ''timer_settime'' (\<lambda>_. ret (tidlist @ [rv t])))))"

primrec arm_timers :: "int list \<Rightarrow> string list \<Rightarrow> int list prog" where
  "arm_timers tidlist [] = ret tidlist"
| "arm_timers tidlist (arg # args) = seq (arm_timer tidlist arg) (\<lambda>tids. arm_timers tids args)"

definition timer_round :: "int list \<Rightarrow> int option \<Rightarrow> (int option + unit) prog" where
  \<comment> \<open>the state is the index in \<open>si\<close>, \<open>None\<close> before the first signal; \<open>sigwaitinfo\<close> is answered with the signal and the index\<close>
  "timer_round tidlist si = lib ''sigwaitinfo'' [] (\<lambda>r. get errno (\<lambda>e.
     if rv r = -1 \<and> e \<noteq> EINTR then errExit ''sigwaitinfo''
     else let si' = (if rv r = -1 then si else Some (field (timer_of r) 1));
         sig = (if rv r = -1 then -1 else field (timer_of r) 0) in
       case si' of None \<Rightarrow> stop (Fault Uninitialised)
       | Some j \<Rightarrow> currTime (\<lambda>now. case now of None \<Rightarrow> stop (Fault Null_deref)
           | Some t \<Rightarrow> printf (''['' @ t @ ''] Got signal '' @ show_int sig @ [NL])
               (if j < 0 \<or> int (length tidlist) \<le> j then stop (Fault Out_of_bounds)
                else printf (''    *sival_ptr         = '' @ show_int (tidlist ! nat j) @ [NL])
                  (lib ''timer_getoverrun'' [tidlist ! nat j] (\<lambda>o'. printf (''    timer_getoverrun() = '' @ show_int (rv o') @ [NL])
                    (again si')))))))"

definition sequential :: "string list \<Rightarrow> unit prog" where
  "sequential argv = (if length argv < 2 then usageErr (hd argv @ '' secs[/nsecs][:int-secs[/int-nsecs]]...'' @ [NL])
     else lib ''calloc'' [int (length argv) - 1, 8] (\<lambda>m. if is_null_reply m then errExit ''malloc''
       else seq (arm_timers [] (tl argv)) (\<lambda>tidlist.
         or_die (Proc (Sigprocmask ''SIG_BLOCK'' [64])) ''sigprocmask'' (\<lambda>_. loop (timer_round tidlist) None))))"

section \<open>What they do\<close>

definition alarm_kernel :: "int list \<Rightarrow> syscall \<Rightarrow> reply \<Rightarrow> int list option" where
  \<comment> \<open>the timer of the process: seconds and microseconds that remain, and of the interval\<close>
  "alarm_kernel e c r = (case c of
      Lib f as \<Rightarrow> if f = ''getitimer'' then (if rv r = -1 \<or> r = RInts e then Some e else None)
        else if f = ''setitimer'' then (if rv r = -1 then Some e else Some as) else Some e
    | _ \<Rightarrow> Some e)"

text \<open>The timer is set to the seconds, without an interval; but disabling it leaves an interval that was never set. What is returned
  are the whole seconds that remained.\<close>

lemma imp_alarm_sets:
  assumes "length e = 4" "0 \<le> e ! 0"
  shows "under alarm_kernel e (imp_alarm junk seconds) (\<lambda>r e' w. case r of
      Return v \<Rightarrow> v = 0xFFFFFFFF \<or> v = to_uint32 (e ! 0) \<and> e' \<in> {e, if seconds = 0 then [0, 0, fst junk, snd junk] else [seconds, 0, 0, 0]}
    | Blocked \<Rightarrow> True | _ \<Rightarrow> False) w"
  unfolding imp_alarm_def lib_def Let_def
  using assms
  by (auto simp: alarm_kernel_def timer_of_def field_def to_uint32_def rv_def intro!: under_call under_ret append_intros split: if_splits)

lemma atoi_shown:
  assumes "INT_MIN \<le> i" "i \<le> INT_MAX"
  shows "atoi (show_int i) = i"
proof -
  have "strtol (show_int i) 10 = (i, [], False)" using strtol_show_int[of i "[]"] assms by (simp add: int_limits)
  then show ?thesis using to_int32_id[OF assms] by (simp add: atoi_def)
qed

lemma shown_chars:
  assumes "c \<in> set (show_int i)"
  shows "c \<noteq> CHR ''/'' \<and> c \<noteq> CHR '':''"
proof -
  have "c \<noteq> CHR ''/'' \<and> c \<noteq> CHR '':''" if "c \<in> set (show_nat n)" for n
    using show_nat_digits[OF that] by (auto simp: char_neq_by_code of_char_digit_char)
  then show ?thesis using assms by (auto simp: show_int_def split: if_splits)
qed

lemma split_at:
  assumes "c \<notin> set s"
  shows "str_before c (s @ c # t) = s" "str_after c (s @ c # t) = Some t" "str_before c s = s" "str_after c s = None"
  using assms by (induction s) (auto simp: str_before_def str_after_def)

definition show_itimer :: "(int \<times> int) \<times> (int \<times> int) \<Rightarrow> string" where
  "show_itimer ts = show_int (fst (fst ts)) @ ''/'' @ show_int (snd (fst ts)) @ '':'' @ show_int (fst (snd ts)) @ ''/'' @ show_int (snd (snd ts))"

text \<open>A timer is read back from its description: seconds and nanoseconds of the value and of the interval; a part that is not
  given is zero.
\<close>

lemma itimerspec_round_trip:
  assumes "list_all (\<lambda>i. INT_MIN \<le> i \<and> i \<le> INT_MAX) [s, n, int_s, int_n]"
  shows "itimerspecFromStr (show_itimer ((s, n), (int_s, int_n))) = ((s, n), (int_s, int_n))"
    "itimerspecFromStr (show_int s @ ''/'' @ show_int n) = ((s, n), (0, 0))"
    "itimerspecFromStr (show_int s @ '':'' @ show_int int_s) = ((s, 0), (int_s, 0))" "itimerspecFromStr (show_int s) = ((s, 0), (0, 0))"
proof -
  have no: "CHR ''/'' \<notin> set (show_int i)" "CHR '':'' \<notin> set (show_int i)" for i using shown_chars[of _ i] by blast+
  have both: "sec_nsec (show_int i @ ''/'' @ show_int j) = (i, j)" if "INT_MIN \<le> i \<and> i \<le> INT_MAX" "INT_MIN \<le> j \<and> j \<le> INT_MAX" for i j
    using that no split_at(1,2)[OF no(1)[of i], where t = "show_int j"] by (simp add: sec_nsec_def atoi_shown)
  have one: "sec_nsec (show_int i) = (i, 0)" if "INT_MIN \<le> i \<and> i \<le> INT_MAX" for i
    using that split_at(3,4)[OF no(1)[of i]] by (simp add: sec_nsec_def atoi_shown)
  have c2: "CHR '':'' \<notin> set (show_int s @ ''/'' @ show_int n)" using no by simp
  show "itimerspecFromStr (show_itimer ((s, n), (int_s, int_n))) = ((s, n), (int_s, int_n))"
    using split_at(1,2)[OF c2, where t = "show_int int_s @ ''/'' @ show_int int_n"] both assms
    by (simp add: itimerspecFromStr_def show_itimer_def)
  show "itimerspecFromStr (show_int s @ ''/'' @ show_int n) = ((s, n), (0, 0))"
    using split_at(3,4)[OF c2] both assms by (simp add: itimerspecFromStr_def)
  show "itimerspecFromStr (show_int s @ '':'' @ show_int int_s) = ((s, 0), (int_s, 0))"
    using split_at(1,2)[OF no(2)[of s], where t = "show_int int_s"] one assms by (simp add: itimerspecFromStr_def)
  show "itimerspecFromStr (show_int s) = ((s, 0), (0, 0))"
    using split_at(3,4)[OF no(2)[of s]] one assms by (simp add: itimerspecFromStr_def)
qed

lemma ends_timers: "shrinks (imp_alarm junk seconds)" "shrinks (sequential argv)"
proof -
  show "shrinks (imp_alarm junk seconds)" unfolding imp_alarm_def Let_def by (intro fuel_intros)
  have c: "shrinks (currTime k)" if "\<And>x. shrinks (k x)" for k :: "string option \<Rightarrow> 'z prog" unfolding currTime_def by (intro fuel_intros that)
  have r: "rounds (timer_round tids si)" for tids si unfolding timer_round_def Let_def by (intro fuel_intros c; simp)
  have a: "shrinks (arm_timers tids args)" for tids args
    by (induction args arbitrary: tids) (auto simp: arm_timer_def case_prod_beta intro!: fuel_intros)
  show "shrinks (sequential argv)" unfolding sequential_def by (intro fuel_intros r a)
qed

end
