(* ===== verification/Spec2Isabelle.thy ===== *)
theory Spec2Isabelle
  imports BinaryTree DynArray GetNum Sockets Daemon ReadLine Acl Files TsTree Threads Joins Multijoin Environ
    SeqFifo SeqServers NameServer ProcTree Tail Termination
    Bounded DirName FileServer Replay ListPid FileOpen ArrayHistory Handoff Popen Shell Telnet Drivi Echo Signals Locks Login Pipeline Chat Timers
begin

text \<open>
  The repository holds the solutions to the exercises of a book on Linux system programming: a library of helpers
  under \<open>src/lib\<close> and, chapter by chapter, programs that use it. This development models the library and those
  programs that have logic of their own: reimplementations of library and system calls, data structures, servers
  with their clients, programs of several threads, walkers over directories, access lists and process tables.

  \<^bold>\<open>The kernel.\<close> A program is a function from a world to a result and a world (\<open>Kernel\<close>). The kernel is not modelled:
  the world holds the list of the replies that it will give (\<open>script\<close>), and a theorem about all worlds is one about
  every behaviour of the kernel, every error and every short read included. \<open>trace\<close> lists the calls made with
  their replies, so that a theorem can say which calls a program makes, in which order and with which arguments.
  A result is a value, the end of the process, a fault (what C leaves undefined: an access outside an array, a null
  pointer, an uninitialised variable), a call that has no reply yet, or the exhaustion of a loop's fuel. The
  allocator is part of the state where memory matters: \<open>allocs\<close> says which calls of \<open>malloc\<close> succeed.

  \<^bold>\<open>Fuel.\<close> A loop around system calls has as much fuel as there are replies left, and one more round; it calls the
  kernel in each round, so the replies end before the fuel (\<open>shrinks\<close>, and \<open>fuel_intros\<close> that derive it from
  the shape of a program). \<open>read_line_buf\<close> can go round once without a call and has two rounds more (\<open>Termination\<close>).
  \<open>printHierarchy\<close> takes at least one more process on every level, so that one more than the processes that are not
  taken is enough; \<open>imp_nftw\<close> and \<open>imp_realpath\<close> call the kernel on every level, so that the replies bound their depth
  (\<open>Bounded\<close>). \<open>programs_end\<close> below collects what this shows of the model. All other recursion is structural or has a measure.

  \<^bold>\<open>Shared theories.\<close> \<open>Prelude\<close>: faults, checked computations, conversions of integers, the allocator, and the locale
  \<open>invariant_system\<close> of transition systems. \<open>CStr\<close>: the string functions of the C library. \<open>Kernel\<close>: calls,
  worlds, programs, their weakest preconditions \<open>wp\<close> and the collection \<open>exec_simps\<close> that executes them symbolically.
  \<open>Effects\<close>: \<open>does A P p\<close>, an effect system for statements on every call a program makes. \<open>Idioms\<close>: \<open>NO_EINTR\<close>,
  \<open>atexit\<close>, the integers of a message, dynamic arrays by their elements. \<open>Conform\<close>: \<open>under K e p Q w\<close>, a program against
  a model \<open>K\<close> of what it works on (a file with its offset, a tree of directories): \<open>Q\<close> holds on the runs whose replies fit \<open>K\<close>.

  \<^bold>\<open>The library.\<close> \<open>BinaryTree\<close> (\<open>lib/binary_tree.c\<close>): the tree refines finite maps; the locale \<open>string_table\<close> is what
  its clients see. \<open>DynArray\<close> (\<open>lib/dynamic_array.c\<close>): blocks of bytes with an abstraction to the list of
  elements; locale \<open>growable_array\<close>; \<open>ArrayHistory\<close>: every sequence of its operations. \<open>ErrorFunctions\<close>, \<open>GetNum\<close> (\<open>get_num.c\<close>, \<open>ugid_functions.c\<close>), \<open>Utils\<close> (\<open>utils.h\<close>),
  \<open>Sockets\<close> (\<open>inet_sockets.c\<close>, \<open>unix_sockets.c\<close>: no descriptor is lost, with the exceptions that are stated),
  \<open>Daemon\<close> (\<open>become_daemon.c\<close>, \<open>pty_master_open.c\<close>, \<open>pty_fork.c\<close>, \<open>tty_functions.c\<close>, \<open>signal_functions.c\<close>),
  \<open>ReadLine\<close> (\<open>read_line.c\<close>, \<open>read_line_buf.c\<close>: the lines of a stream however it is cut into reads).

  \<^bold>\<open>The programs.\<close> \<open>Access\<close> and \<open>Acl\<close> (chapters 8, 9, 15, 17): permission checks, attributes, access lists. \<open>Files\<close>
  (chapters 4, 5, 61): \<open>dup2\<close>, vectored input and output, \<open>sendfile\<close>, \<open>tee\<close>, copying with holes. \<open>Environ\<close> (chapters 6,
  7, 27): \<open>setenv\<close>, \<open>unsetenv\<close>, \<open>execlp\<close>, \<open>malloc\<close>. \<open>TsTree\<close>, \<open>Threads\<close>, \<open>Joins\<close>, \<open>Multijoin\<close> (chapter 30): the
  thread-safe tree with the mutexes a thread holds, and the programs with several threads as step relations, their
  invariants by \<open>invariant_system\<close>. \<open>SeqFifo\<close>, \<open>SeqServers\<close> (chapters 44, 52, 57, 59): one service, a counter, over
  FIFOs, message queues, UNIX domain sockets and Internet sockets. \<open>NameServer\<close> (chapter 59): two trees of \<open>BinaryTree\<close>
  as the two maps of the service, its messages byte by byte. \<open>ProcTree\<close>, \<open>ListPid\<close>, \<open>FileOpen\<close> (chapter 12): the tree of processes,
  the processes of a user (from status files with any fields in any order), those that have a file open.
  \<open>Tail\<close> (chapter 13): the last lines of a file, read backwards. \<open>Nftw\<close>, \<open>Getcwd\<close>, \<open>Realpath\<close> (chapter 18): walking a
  tree of directories, the current directory found from the inode numbers on the way to the root, paths resolved by
  changing directory. \<open>FileServer\<close> (chapter 52): a file sent in messages, from the request of the client to what it counts.
  \<open>Script\<close>, \<open>Replay\<close> (chapter 64): recording a terminal session and playing it again. \<open>Popen\<close> (chapter 44): \<open>popen\<close>
  and \<open>pclose\<close>, in the caller and in the child. \<open>Shell\<close> (chapter 61): a command and its output over a connection. \<open>Telnet\<close> (chapter 64): terminals
  over two connections each, the pending sessions in a \<open>BinaryTree\<close>. \<open>Drivi\<close> (chapter 64): an editor driven by a script.
  \<open>Echo\<close> (chapters 60, 63): a daemon with a bounded number of children, and a server of two sockets. \<open>Signals\<close> (chapters 21, 22):
  \<open>abort\<close>, \<open>siginterrupt\<close> and the functions of System V against the actions and the mask of a process.
  \<open>Locks\<close> (chapter 55): locks on regions of files by the commands of a user, and files that serve as locks.
  \<open>Login\<close> (chapters 38, 62): passwords, the name of a terminal, a program run as another user.
  \<open>Pipeline\<close> (chapter 44): processes joined by pipes. \<open>Chat\<close> (chapter 52): two users talking through message queues. \<open>Timers\<close> (chapter 23):
  \<open>alarm\<close> with an interval timer, and timers described by arguments. \<open>Handoff\<close> (chapters 53, 54): pieces of data handed over
  between two threads or processes. \<open>DirName\<close> (chapter 31): the parts of a path in the storage of a thread.

  \<^bold>\<open>Interleavings.\<close> A program of several threads is a step relation whose steps are the stretches between two calls
  of the thread library; waiting may end spuriously. A process after \<open>fork\<close> is two runs, of the parent and of the
  child, since the kernel's reply selects which one a run is. A signal handler that only sets a flag is a flag that is
  read like a reply.

  \<^bold>\<open>Not modelled.\<close> The demonstration programs that only print the result of a call, and the \<open>main\<close> functions
  that exercise a reimplemented call; generated tables (\<open>ename.c.inc\<close>, a parameter); functions of the C library beyond
  what the programs use; \<open>fgetln\<close>, which no file of the repository defines. The remaining programs of chapters 5, 6,
  14 to 16, 18 to 31, 33 to 64 are left out: they try out the calls of their chapter and print what these return.
\<close>

definition never_out_of_fuel :: "'a prog \<Rightarrow> bool" where
  "never_out_of_fuel p \<longleftrightarrow> No_fuel \<notin> range (\<lambda>w. fst (p w))"

lemma never_out_of_fuelI: "shrinks p \<Longrightarrow> never_out_of_fuel p"
  unfolding never_out_of_fuel_def by (metis (mono_tags, lifting) imageE shrinksD)

text \<open>The fuel of the loops is enough, whatever the kernel answers: none of these programs ends with \<open>No_fuel\<close>, so that
  no theorem about their results is one about a loop that the model has cut off.\<close>

lemma programs_end:
  "never_out_of_fuel fifo_sq_sv \<and> never_out_of_fuel (fifo_sq_cl argv)
   \<and> never_out_of_fuel pmsg_seqnum_server \<and> never_out_of_fuel (pmsg_seqnum_client argv)
   \<and> never_out_of_fuel seqnum_us_sv \<and> never_out_of_fuel (seqnum_us_cl argv)
   \<and> never_out_of_fuel (rlbuf_seqnum_sv g rlb argv) \<and> never_out_of_fuel (rlbuf_seqnum_cl rlb argv)
   \<and> never_out_of_fuel (nv_sv as) \<and> never_out_of_fuel (nv_cl junk argv)
   \<and> never_out_of_fuel (tee_main argv) \<and> never_out_of_fuel (cp_hole_main argv)
   \<and> never_out_of_fuel (access_main argv) \<and> never_out_of_fuel (chattr_main f argv)
   \<and> never_out_of_fuel (acl_view_main prog opts argv) \<and> never_out_of_fuel (named_acl_main argc options file)
   \<and> never_out_of_fuel (becomeDaemon flags) \<and> never_out_of_fuel (ptyFork n t z)
   \<and> never_out_of_fuel (imp_execlp path arg args) \<and> never_out_of_fuel (read_line_buf buf_len rlb)
   \<and> never_out_of_fuel (nftw_main argv) \<and> never_out_of_fuel (imp_getcwd len st) \<and> never_out_of_fuel (imp_realpath pathname resolved)
   \<and> never_out_of_fuel (pmsg_file_server junk) \<and> never_out_of_fuel (pmsg_file_client old argv)
   \<and> never_out_of_fuel (better_script argv) \<and> never_out_of_fuel (fork_script argv) \<and> never_out_of_fuel (unbuffer argv)
   \<and> never_out_of_fuel (replay_script argv st) \<and> never_out_of_fuel (proc_file_open st argv)
   \<and> never_out_of_fuel (popen_imp pst cmdline mode) \<and> never_out_of_fuel (pclose_imp pst fd)
   \<and> never_out_of_fuel (is_shell_sv m0) \<and> never_out_of_fuel (is_shell_cl g argv m0)
   \<and> never_out_of_fuel (telnet_sv g m0) \<and> never_out_of_fuel (telnet_cl argv) \<and> never_out_of_fuel (drivi argv m0)
   \<and> never_out_of_fuel (inetd_echo_sv argv) \<and> never_out_of_fuel (is_echo_cl argv) \<and> never_out_of_fuel echo_sv
   \<and> never_out_of_fuel (i_fcntl_locking argv) \<and> never_out_of_fuel (lockfile_imp argv)
   \<and> never_out_of_fuel getpass_main \<and> never_out_of_fuel ttyname_main \<and> never_out_of_fuel (douser crypt_of argv)
   \<and> never_out_of_fuel (hookup argv) \<and> never_out_of_fuel (simple_pipe argv) \<and> never_out_of_fuel (pipe_sync argv)
   \<and> never_out_of_fuel (pmsg_chat argv) \<and> never_out_of_fuel (imp_alarm disable_interval seconds) \<and> never_out_of_fuel (sequential argv)"
  by (intro conjI never_out_of_fuelI ends_fifo ends_pmsg ends_us ends_rlbuf ends_nv ends_tee_main ends_cp_main ends_access
      ends_acl_view_main ends_named_main ends_daemon ends_exec shrinks_read_line_buf
      ends_walks ends_imp_getcwd ends_imp_realpath ends_file_programs ends_scripts ends_proc_file_open ends_popen ends_shell ends_telnet ends_drivi ends_echo ends_locks ends_login ends_pipeline ends_chat ends_timers)

end
